(* ===== verification/Prelude.thy ===== *)
theory Prelude
  imports "HOL-Library.Word" "HOL-Library.Monad_Syntax"
begin

text \<open>
  Shared vocabulary of the development: machine integers at the widths the C code uses, the
  alignment helper of \<^verbatim>\<open>src/util/align.h\<close>, facts about masking with a power of two, and the
  generic list lemmas the components use.
\<close>

unbundle bit_operations_syntax

named_theorems gab_simps \<open>defining equations of the small accessors of the model\<close>

type_synonym size_t = "64 word"
type_synonym uint64_t = "64 word"
type_synonym int32_t = "32 word"
type_synonym int64_t = "64 word"

section \<open>Masks and powers of two\<close>

lemma nat_and_pow2: "(h::nat) AND (2 ^ n - 1) = h mod 2 ^ n"
  by (metis mask_eq_exp_minus_1 take_bit_eq_mask take_bit_eq_mod)

lemma nat_and_pow2_Suc: "(h::nat) AND (2 ^ n - Suc 0) = h mod 2 ^ n"
  using nat_and_pow2 [of h n] by simp

lemma mod_Suc_mod: "Suc (h mod n) mod n = Suc h mod (n::nat)"
  by (simp add: mod_Suc_eq)

section \<open>Lists\<close>

lemma card_Collect_less_Suc_le: "card {i. i < (n::nat) \<and> P i} \<le> n"
proof -
  have "{i. i < n \<and> P i} \<subseteq> {..<n}" by auto
  then have "card {i. i < n \<and> P i} \<le> card {..<n}" by (rule card_mono [rotated]) simp
  then show ?thesis by simp
qed

lemma length_filter_update:
  assumes "i < length xs"
  shows "length (filter P (xs[i := x])) + (if P (xs ! i) then 1 else 0) =
         length (filter P xs) + (if P x then 1 else 0)"
  using assms
proof (induction xs arbitrary: i)
  case Nil
  then show ?case by simp
next
  case (Cons y ys)
  then show ?case by (cases i) auto
qed

lemma length_filter_less_witness:
  assumes "length (filter P xs) < length xs"
  shows "\<exists>i < length xs. \<not> P (xs ! i)"
proof (rule ccontr)
  assume "\<not> ?thesis"
  then have "\<forall>x \<in> set xs. P x" by (metis in_set_conv_nth)
  then have "filter P xs = xs" by simp
  with assms show False by simp
qed

lemma filter_le_filter_length:
  "(\<And>x. P x \<Longrightarrow> Q x) \<Longrightarrow> length (filter P xs) \<le> length (filter Q xs)"
  by (induction xs) auto

end
