(* ===== verification/Arena.thy ===== *)
theory Arena
  imports Prelude
begin

text \<open>
  The bump allocator of \<^verbatim>\<open>src/memory/arena.c\<close> and \<^verbatim>\<open>src/util/align.h\<close>.  The singly linked list
  of blocks that starts at \<^verbatim>\<open>first_block\<close> is split at \<^verbatim>\<open>current_block\<close>: the blocks before it in list
  order, the current block, and the blocks that follow it.  A block is named by the address
  \<^verbatim>\<open>malloc\<close> gave it (\<open>blk_id\<close>; every call gives a new one), and a pointer into it is that name with
  an offset.  Sizes are 64-bit words and wrap.  \<^verbatim>\<open>malloc\<close> failing aborts and is not modelled, nor is
  the poisoning of freed bytes in debug builds.
\<close>

unbundle bit_operations_syntax

section \<open>Blocks and arenas\<close>

definition align_up :: "size_t \<Rightarrow> size_t \<Rightarrow> size_t" where
  "align_up off alignment = (off + (alignment - 1)) AND NOT (alignment - 1)"

definition ARENA_ALIGNMENT :: size_t where
  "ARENA_ALIGNMENT = 8"

record arena_block =
  blk_id :: nat
  blk_capacity :: size_t
  blk_offset :: size_t
  blk_dedicated :: bool

record arena =
  ar_before :: "arena_block list"
  ar_current :: arena_block
  ar_after :: "arena_block list"
  ar_block_size :: size_t
  ar_mallocs :: nat

record arena_point =
  cp_block :: nat
  cp_offset :: size_t

text \<open>The whole list, from \<^verbatim>\<open>first_block\<close>.\<close>

definition ar_blocks :: "arena \<Rightarrow> arena_block list" where
  "ar_blocks a = ar_before a @ ar_current a # ar_after a"

section \<open>Operations\<close>

definition arena_block_create :: "nat \<Rightarrow> size_t \<Rightarrow> arena_block" where
  "arena_block_create i sz = \<lparr>blk_id = i, blk_capacity = sz, blk_offset = 0, blk_dedicated = False\<rparr>"

definition arena_create :: "size_t \<Rightarrow> arena" where
  "arena_create block_size =
     \<lparr>ar_before = [], ar_current = arena_block_create 0 block_size, ar_after = [],
      ar_block_size = block_size, ar_mallocs = 1\<rparr>"

text \<open>The first block after the current one that the search accepts, with the blocks on either side.\<close>

fun find_block ::
  "(arena_block \<Rightarrow> bool) \<Rightarrow> arena_block list \<Rightarrow> (arena_block list \<times> arena_block \<times> arena_block list) option"
where
  "find_block P [] = None"
| "find_block P (b # bs) =
     (if P b then Some ([], b, bs)
      else case find_block P bs of None \<Rightarrow> None | Some (xs, c, ys) \<Rightarrow> Some (b # xs, c, ys))"

definition arena_alloc_oversized :: "arena \<Rightarrow> size_t \<Rightarrow> arena \<times> (nat \<times> size_t)" where
  "arena_alloc_oversized a sz =
     (case find_block (\<lambda>b. blk_dedicated b \<and> blk_offset b = 0 \<and> sz \<le> blk_capacity b) (ar_after a) of
        Some (xs, b, ys) \<Rightarrow>
          (a\<lparr>ar_after := xs @ b\<lparr>blk_offset := sz\<rparr> # ys\<rparr>, (blk_id b, 0))
      | None \<Rightarrow>
          let b = (arena_block_create (ar_mallocs a) sz)\<lparr>blk_offset := sz, blk_dedicated := True\<rparr>
          in (a\<lparr>ar_after := b # ar_after a, ar_mallocs := ar_mallocs a + 1\<rparr>, (blk_id b, 0)))"

definition arena_grow :: "arena \<Rightarrow> size_t \<Rightarrow> arena" where
  "arena_grow a sz =
     (case find_block (\<lambda>b. \<not> blk_dedicated b \<and> sz \<le> blk_capacity b) (ar_after a) of
        Some (xs, b, ys) \<Rightarrow>
          a\<lparr>ar_before := ar_before a @ ar_current a # xs, ar_current := b, ar_after := ys\<rparr>
      | None \<Rightarrow>
          a\<lparr>ar_before := ar_before a @ [ar_current a],
            ar_current := arena_block_create (ar_mallocs a) (ar_block_size a),
            ar_mallocs := ar_mallocs a + 1\<rparr>)"

text \<open>The bump itself, at the end of \<^verbatim>\<open>arena_alloc\<close>.\<close>

definition arena_bump :: "arena \<Rightarrow> size_t \<Rightarrow> size_t \<Rightarrow> arena \<times> (nat \<times> size_t)" where
  "arena_bump a off sz =
     (a\<lparr>ar_current := (ar_current a)\<lparr>blk_offset := off + sz\<rparr>\<rparr>, (blk_id (ar_current a), off))"

definition arena_alloc :: "arena \<Rightarrow> size_t \<Rightarrow> arena \<times> (nat \<times> size_t)" where
  "arena_alloc a sz =
     (let off = align_up (blk_offset (ar_current a)) ARENA_ALIGNMENT in
      if off + sz > blk_capacity (ar_current a) then
        if sz > ar_block_size a then arena_alloc_oversized a sz
        else let a' = arena_grow a sz in
             arena_bump a' (align_up (blk_offset (ar_current a')) ARENA_ALIGNMENT) sz
      else arena_bump a off sz)"

definition blk_clear :: "arena_block \<Rightarrow> arena_block" where
  "blk_clear b = b\<lparr>blk_offset := 0\<rparr>"

definition arena_reset :: "arena \<Rightarrow> arena" where
  "arena_reset a =
     (case map blk_clear (ar_blocks a) of
        [] \<Rightarrow> a
      | b # bs \<Rightarrow> a\<lparr>ar_before := [], ar_current := b, ar_after := bs\<rparr>)"

definition arena_checkpoint :: "arena \<Rightarrow> arena_point" where
  "arena_checkpoint a = \<lparr>cp_block = blk_id (ar_current a), cp_offset = blk_offset (ar_current a)\<rparr>"

definition arena_rewind :: "arena \<Rightarrow> arena_point \<Rightarrow> arena" where
  "arena_rewind a cp =
     (case find_block (\<lambda>b. blk_id b = cp_block cp) (ar_blocks a) of
        Some (xs, b, ys) \<Rightarrow>
          a\<lparr>ar_before := xs, ar_current := b\<lparr>blk_offset := cp_offset cp\<rparr>, ar_after := map blk_clear ys\<rparr>
      | None \<Rightarrow> a)"

section \<open>Alignment\<close>

lemma and_not_mask_word: "(x :: 'a :: len word) AND NOT (mask n) = x - take_bit n x"
proof -
  have "take_bit n x + (x AND NOT (mask n)) = take_bit n x OR (x AND NOT (mask n))"
    by (rule disjunctive_add) (simp add: bit_simps)
  also have "\<dots> = x"
    by (rule bit_word_eqI) (auto simp add: bit_simps)
  finally show ?thesis by (simp add: algebra_simps eq_diff_eq)
qed

lemma unat_and_not_mask: "unat ((x :: 'a :: len word) AND NOT (mask n)) = unat x div 2 ^ n * 2 ^ n"
proof -
  have t: "unat (take_bit n x) = unat x mod 2 ^ n"
    using unsigned_take_bit_eq [of n x, where 'a = nat] by (simp only: take_bit_eq_mod)
  moreover have "take_bit n x \<le> x"
    unfolding word_le_nat_alt t by (rule mod_less_eq_dividend)
  ultimately show ?thesis
    by (simp add: and_not_mask_word unat_sub minus_mod_eq_div_mult)
qed

lemma unat_align_up:
  assumes "unat off + (2 ^ k - 1) < 2 ^ 64" "k < 64"
  shows "unat (align_up off (2 ^ k)) = (unat off + (2 ^ k - 1)) div 2 ^ k * 2 ^ k"
proof -
  have m: "(2 ^ k :: size_t) - 1 = mask k" by (simp add: mask_eq_exp_minus_1)
  have "unat (of_nat (2 ^ k) :: size_t) = 2 ^ k"
    using power_strict_increasing [OF assms(2), of "2 :: nat"]
    by (simp add: assms(2) unsigned_of_nat take_bit_nat_eq_self del: of_nat_power)
  then have p: "unat (2 ^ k :: size_t) = 2 ^ k" by simp
  then have "(1 :: size_t) \<le> 2 ^ k" by (simp add: word_le_nat_alt)
  then have "unat (mask k :: size_t) = 2 ^ k - 1"
    unfolding m [symmetric] by (simp only: unat_sub p unat_1)
  then have "unat (off + mask k) = unat off + (2 ^ k - 1)" using assms(1)
    by (simp add: unat_word_ariths)
  then show ?thesis by (simp add: align_up_def m unat_and_not_mask)
qed

lemma align_up_8:
  assumes "unat off < 2 ^ 63"
  shows "unat off \<le> unat (align_up off 8)" "unat (align_up off 8) < unat off + 8"
    "8 dvd unat (align_up off 8)"
proof -
  have "unat (align_up off 8) = (unat off + 7) div 8 * 8"
    using unat_align_up [of off 3] assms by simp
  then show "unat off \<le> unat (align_up off 8)" "unat (align_up off 8) < unat off + 8"
    "8 dvd unat (align_up off 8)" by auto
qed

section \<open>What the arena promises\<close>

text \<open>A region handed out is a block, a start and a size.\<close>

type_synonym region = "nat \<times> nat \<times> nat"

fun disjoint_regions :: "region \<Rightarrow> region \<Rightarrow> bool" where
  "disjoint_regions (i, s, n) (j, t, m) \<longleftrightarrow> i \<noteq> j \<or> s + n \<le> t \<or> t + m \<le> s"

fun region_in :: "arena_block list \<Rightarrow> region \<Rightarrow> bool" where
  "region_in bs (i, s, n) \<longleftrightarrow> (\<exists>b \<in> set bs. blk_id b = i \<and> s + n \<le> unat (blk_offset b))"

definition arena_wf :: "arena \<Rightarrow> bool" where
  "arena_wf a \<longleftrightarrow>
     distinct (map blk_id (ar_blocks a)) \<and>
     (\<forall>b \<in> set (ar_blocks a). blk_id b < ar_mallocs a \<and> blk_offset b \<le> blk_capacity b \<and>
        unat (blk_capacity b) < 2 ^ 63 \<and> (\<not> blk_dedicated b \<longrightarrow> blk_capacity b = ar_block_size a)) \<and>
     (\<forall>b \<in> set (ar_after a). \<not> blk_dedicated b \<longrightarrow> blk_offset b = 0) \<and>
     \<not> blk_dedicated (ar_current a) \<and> unat (ar_block_size a) < 2 ^ 62"

definition arena_ok :: "arena \<Rightarrow> region list \<Rightarrow> bool" where
  "arena_ok a live \<longleftrightarrow> arena_wf a \<and> (\<forall>r \<in> set live. region_in (ar_blocks a) r) \<and>
     sorted_wrt disjoint_regions live"

lemma disjoint_regions_sym: "disjoint_regions r s \<Longrightarrow> disjoint_regions s r"
  by (cases r; cases s) auto

lemma find_block_Some:
  "find_block P bs = Some (xs, b, ys) \<Longrightarrow> bs = xs @ b # ys \<and> P b \<and> (\<forall>x \<in> set xs. \<not> P x)"
  by (induction bs arbitrary: xs) (auto split: if_splits option.splits)

lemma find_block_None: "find_block P bs = None \<longleftrightarrow> (\<forall>b \<in> set bs. \<not> P b)"
  by (induction bs) (auto split: option.splits)

lemma find_block_split:
  "(\<forall>x \<in> set xs. \<not> P x) \<Longrightarrow> P b \<Longrightarrow> find_block P (xs @ b # ys) = Some (xs, b, ys)"
  by (induction xs) auto

lemma region_in_mono:
  assumes "region_in bs r"
    and "\<And>b. b \<in> set bs \<Longrightarrow> \<exists>c \<in> set cs. blk_id c = blk_id b \<and> unat (blk_offset b) \<le> unat (blk_offset c)"
  shows "region_in cs r"
  using assms by (cases r) (fastforce intro: le_trans)

lemma arena_create_ok: "unat block_size < 2 ^ 62 \<Longrightarrow> arena_ok (arena_create block_size) []"
  by (simp add: arena_ok_def arena_wf_def arena_create_def arena_block_create_def ar_blocks_def)

text \<open>A region that starts at or past the old offset of its block, or lies in a block that held
  nothing, is disjoint from every region handed out before.\<close>

lemma fresh_region_disjoint:
  assumes "\<forall>r \<in> set live. region_in bs r" "distinct (map blk_id bs)"
    and "\<And>b. b \<in> set bs \<Longrightarrow> blk_id b = i \<Longrightarrow> unat (blk_offset b) \<le> s"
  shows "\<forall>r \<in> set live. disjoint_regions (i, s, n) r"
proof
  fix r assume "r \<in> set live"
  then have r: "region_in bs r" using assms(1) by blast
  obtain j t m where [simp]: "r = (j, t, m)" by (cases r)
  from r obtain b where "b \<in> set bs" "blk_id b = j" "t + m \<le> unat (blk_offset b)" by auto
  then show "disjoint_regions (i, s, n) r" using assms(3) [of b] by auto
qed

lemma arena_bump_ok:
  assumes ok: "arena_ok a live" and sz: "unat sz < 2 ^ 62"
    and off: "off = align_up (blk_offset (ar_current a)) ARENA_ALIGNMENT"
    and fits: "off + sz \<le> blk_capacity (ar_current a)"
    and bump: "arena_bump a off sz = (a', i, st)"
  shows "arena_ok a' ((i, unat st, unat sz) # live) \<and> 8 dvd unat st"
proof -
  let ?c = "ar_current a"
  have wf: "arena_wf a" and live: "\<forall>r \<in> set live. region_in (ar_blocks a) r"
    and dis: "sorted_wrt disjoint_regions live" using ok by (auto simp: arena_ok_def)
  have c: "?c \<in> set (ar_blocks a)" by (simp add: ar_blocks_def)
  have oc: "unat (blk_offset ?c) < 2 ^ 63"
    using wf c by (auto simp: arena_wf_def word_le_nat_alt)
  note al = align_up_8 [OF oc, folded ARENA_ALIGNMENT_def off]
  have sum: "unat (off + sz) = unat off + unat sz"
    using al(2) oc sz by (simp add: unat_word_ariths)
  have a': "a' = a\<lparr>ar_current := ?c\<lparr>blk_offset := off + sz\<rparr>\<rparr>" "i = blk_id ?c" "st = off"
    using bump by (auto simp: arena_bump_def)
  have wf': "arena_wf a'"
    using wf fits unfolding arena_wf_def a' ar_blocks_def by auto
  have mono: "\<exists>c' \<in> set (ar_blocks a'). blk_id c' = blk_id b \<and> unat (blk_offset b) \<le> unat (blk_offset c')"
    if "b \<in> set (ar_blocks a)" for b
    using that al(1) sum unfolding ar_blocks_def a' by auto
  have "region_in (ar_blocks a') (i, unat st, unat sz)"
    using sum by (simp add: a' ar_blocks_def)
  moreover have "\<forall>r \<in> set live. region_in (ar_blocks a') r"
    using live region_in_mono [OF _ mono] by blast
  moreover have "\<forall>r \<in> set live. disjoint_regions (i, unat st, unat sz) r"
  proof (rule fresh_region_disjoint [OF live])
    show "distinct (map blk_id (ar_blocks a))" using wf by (simp add: arena_wf_def)
    fix b assume "b \<in> set (ar_blocks a)" "blk_id b = i"
    then have "b = ?c" using wf c a'(2) by (auto simp: arena_wf_def distinct_map inj_on_def)
    then show "unat (blk_offset b) \<le> unat st" using al(1) a'(3) by simp
  qed
  ultimately show ?thesis using wf' dis al(3) a'(3) by (auto simp: arena_ok_def)
qed

lemma arena_oversized_ok:
  assumes ok: "arena_ok a live" and sz: "unat sz < 2 ^ 62" and big: "sz > ar_block_size a"
    and alloc: "arena_alloc_oversized a sz = (a', i, st)"
  shows "arena_ok a' ((i, unat st, unat sz) # live) \<and> 8 dvd unat st"
proof -
  have wf: "arena_wf a" and live: "\<forall>r \<in> set live. region_in (ar_blocks a) r"
    and dis: "sorted_wrt disjoint_regions live" using ok by (auto simp: arena_ok_def)
  show ?thesis
  proof (cases "find_block (\<lambda>b. blk_dedicated b \<and> blk_offset b = 0 \<and> sz \<le> blk_capacity b) (ar_after a)")
    case None
    let ?b = "(arena_block_create (ar_mallocs a) sz)\<lparr>blk_offset := sz, blk_dedicated := True\<rparr>"
    have a': "a' = a\<lparr>ar_after := ?b # ar_after a, ar_mallocs := ar_mallocs a + 1\<rparr>"
      "i = ar_mallocs a" "st = 0"
      using alloc None by (auto simp: arena_alloc_oversized_def Let_def arena_block_create_def)
    have wf': "arena_wf a'" using wf sz
      unfolding arena_wf_def a' ar_blocks_def by (auto simp: arena_block_create_def intro: less_SucI)
    have "region_in (ar_blocks a') (i, unat st, unat sz)" by (simp add: a' ar_blocks_def arena_block_create_def)
    moreover have mono: "\<exists>c' \<in> set (ar_blocks a'). blk_id c' = blk_id b' \<and> unat (blk_offset b') \<le> unat (blk_offset c')"
      if "b' \<in> set (ar_blocks a)" for b'
      using that by (auto simp: a' ar_blocks_def)
    then have "\<forall>r \<in> set live. region_in (ar_blocks a') r"
      using live region_in_mono [OF _ mono] by blast
    moreover have "\<forall>r \<in> set live. disjoint_regions (i, unat st, unat sz) r"
      by (rule fresh_region_disjoint [OF live]) (use wf in \<open>auto simp: arena_wf_def a'\<close>)
    ultimately show ?thesis using wf' dis a'(3) by (auto simp: arena_ok_def)
  next
    case (Some p)
    obtain xs b ys where p: "p = (xs, b, ys)" by (cases p)
    have b: "ar_after a = xs @ b # ys" "blk_dedicated b" "blk_offset b = 0" "sz \<le> blk_capacity b"
      using find_block_Some Some p by blast+
    have a': "a' = a\<lparr>ar_after := xs @ b\<lparr>blk_offset := sz\<rparr> # ys\<rparr>" "i = blk_id b" "st = 0"
      using alloc Some p by (auto simp: arena_alloc_oversized_def)
    have wf': "arena_wf a'" using wf b
      unfolding arena_wf_def a' ar_blocks_def by auto
    have "region_in (ar_blocks a') (i, unat st, unat sz)" by (simp add: a' ar_blocks_def)
    moreover have mono: "\<exists>c' \<in> set (ar_blocks a'). blk_id c' = blk_id b' \<and> unat (blk_offset b') \<le> unat (blk_offset c')"
      if "b' \<in> set (ar_blocks a)" for b'
      using that b by (auto simp: a' ar_blocks_def)
    then have "\<forall>r \<in> set live. region_in (ar_blocks a') r"
      using live region_in_mono [OF _ mono] by blast
    moreover have "\<forall>r \<in> set live. disjoint_regions (i, unat st, unat sz) r"
    proof (rule fresh_region_disjoint [OF live])
      show "distinct (map blk_id (ar_blocks a))" using wf by (simp add: arena_wf_def)
      fix c assume "c \<in> set (ar_blocks a)" "blk_id c = i"
      moreover have "b \<in> set (ar_blocks a)" using b by (simp add: ar_blocks_def)
      ultimately have "c = b" using wf a'(2) by (auto simp: arena_wf_def distinct_map inj_on_def)
      then show "unat (blk_offset c) \<le> unat st" using b a'(3) by simp
    qed
    ultimately show ?thesis using wf' dis a'(3) by (auto simp: arena_ok_def)
  qed
qed

lemma arena_grow_ok:
  assumes ok: "arena_ok a live" and sz: "sz \<le> ar_block_size a"
  shows "arena_ok (arena_grow a sz) live" "blk_offset (ar_current (arena_grow a sz)) = 0"
    "sz \<le> blk_capacity (ar_current (arena_grow a sz))"
proof -
  have wf: "arena_wf a" and live: "\<forall>r \<in> set live. region_in (ar_blocks a) r"
    and dis: "sorted_wrt disjoint_regions live" using ok by (auto simp: arena_ok_def)
  have "arena_ok (arena_grow a sz) live \<and> blk_offset (ar_current (arena_grow a sz)) = 0 \<and>
    sz \<le> blk_capacity (ar_current (arena_grow a sz))"
  proof (cases "find_block (\<lambda>b. \<not> blk_dedicated b \<and> sz \<le> blk_capacity b) (ar_after a)")
    case None
    let ?a' = "a\<lparr>ar_before := ar_before a @ [ar_current a],
            ar_current := arena_block_create (ar_mallocs a) (ar_block_size a),
            ar_mallocs := ar_mallocs a + 1\<rparr>"
    have a': "arena_grow a sz = ?a'" using None by (simp add: arena_grow_def)
    have "arena_wf ?a'" using wf
      unfolding arena_wf_def ar_blocks_def by (auto simp: arena_block_create_def intro: less_SucI)
    moreover have mono: "\<exists>c' \<in> set (ar_blocks ?a'). blk_id c' = blk_id b' \<and> unat (blk_offset b') \<le> unat (blk_offset c')"
      if "b' \<in> set (ar_blocks a)" for b'
      using that by (auto simp: ar_blocks_def)
    then have "\<forall>r \<in> set live. region_in (ar_blocks ?a') r"
      using live region_in_mono [OF _ mono] by blast
    ultimately show ?thesis using dis sz unfolding a' by (auto simp: arena_ok_def arena_block_create_def)
  next
    case (Some p)
    obtain xs b ys where p: "p = (xs, b, ys)" by (cases p)
    have b: "ar_after a = xs @ b # ys" "\<not> blk_dedicated b" "sz \<le> blk_capacity b"
      using find_block_Some Some p by blast+
    let ?a' = "a\<lparr>ar_before := ar_before a @ ar_current a # xs, ar_current := b, ar_after := ys\<rparr>"
    have a': "arena_grow a sz = ?a'" using Some p by (simp add: arena_grow_def)
    have blocks: "ar_blocks ?a' = ar_blocks a" using b by (simp add: ar_blocks_def)
    have "arena_wf ?a'" using wf b unfolding arena_wf_def blocks by auto
    moreover have "blk_offset b = 0" using wf b by (auto simp: arena_wf_def)
    ultimately show ?thesis using dis live b unfolding a' by (auto simp: arena_ok_def blocks)
  qed
  then show "arena_ok (arena_grow a sz) live" "blk_offset (ar_current (arena_grow a sz)) = 0"
    "sz \<le> blk_capacity (ar_current (arena_grow a sz))" by auto
qed

lemma arena_alloc_ok:
  assumes ok: "arena_ok a live" and sz: "unat sz < 2 ^ 62"
    and alloc: "arena_alloc a sz = (a', i, st)"
  shows "arena_ok a' ((i, unat st, unat sz) # live) \<and> 8 dvd unat st"
proof -
  let ?off = "align_up (blk_offset (ar_current a)) ARENA_ALIGNMENT"
  consider "?off + sz \<le> blk_capacity (ar_current a)"
    | "\<not> ?off + sz \<le> blk_capacity (ar_current a)" "sz > ar_block_size a"
    | "\<not> ?off + sz \<le> blk_capacity (ar_current a)" "sz \<le> ar_block_size a"
    by (cases "?off + sz \<le> blk_capacity (ar_current a)"; cases "sz > ar_block_size a") (auto simp: not_less)
  then show ?thesis
  proof cases
    case 1
    then show ?thesis using arena_bump_ok [OF ok sz refl 1] alloc
      by (simp add: arena_alloc_def Let_def leD)
  next
    case 2
    then show ?thesis using arena_oversized_ok [OF ok sz 2(2)] alloc
      by (simp add: arena_alloc_def Let_def not_le)
  next
    case 3
    let ?g = "arena_grow a sz"
    note g = arena_grow_ok [OF ok 3(2)]
    have off: "align_up (blk_offset (ar_current ?g)) ARENA_ALIGNMENT = 0"
      by (simp add: g(2) align_up_def ARENA_ALIGNMENT_def)
    show ?thesis
      by (rule arena_bump_ok [OF g(1) sz, of 0]) (use 3 off g(3) alloc in \<open>auto simp: arena_alloc_def Let_def not_le leD\<close>)
  qed
qed


section \<open>Checkpoints\<close>

fun arena_allocs :: "arena \<Rightarrow> size_t list \<Rightarrow> arena" where
  "arena_allocs a [] = a"
| "arena_allocs a (sz # szs) = arena_allocs (fst (arena_alloc a sz)) szs"

text \<open>Allocation leaves the blocks before a checkpoint alone, keeps the checkpoint's block in its
  place, and only ever moves the current block forward.\<close>

definition same_block :: "arena_block \<Rightarrow> arena_block \<Rightarrow> bool" where
  "same_block b c \<longleftrightarrow> blk_id c = blk_id b \<and> blk_capacity c = blk_capacity b \<and>
     blk_dedicated c = blk_dedicated b"

definition arena_extends :: "arena \<Rightarrow> arena \<Rightarrow> bool" where
  "arena_extends a a' \<longleftrightarrow> ar_block_size a' = ar_block_size a \<and>
     (\<exists>c. same_block (ar_current a) c \<and>
        (ar_before a' = ar_before a \<and> ar_current a' = c \<or>
         (\<exists>xs. ar_before a' = ar_before a @ c # xs)))"

lemma arena_extends_refl: "arena_extends a a"
  by (auto simp: arena_extends_def same_block_def)

lemma arena_extends_bump:
  "arena_extends a a' \<Longrightarrow> arena_extends a (fst (arena_bump a' off sz))"
  by (auto simp: arena_extends_def arena_bump_def same_block_def)

lemma arena_extends_grow:
  "arena_extends a a' \<Longrightarrow> arena_extends a (arena_grow a' sz)"
  by (auto simp: arena_extends_def arena_grow_def split: option.split)

lemma arena_extends_oversized:
  "arena_extends a a' \<Longrightarrow> arena_extends a (fst (arena_alloc_oversized a' sz))"
  by (auto simp: arena_extends_def arena_alloc_oversized_def Let_def split: option.split)

lemma arena_extends_alloc:
  "arena_extends a a' \<Longrightarrow> arena_extends a (fst (arena_alloc a' sz))"
  by (simp add: arena_alloc_def Let_def arena_extends_bump arena_extends_grow arena_extends_oversized)

lemma arena_allocs_extends:
  "arena_extends a a' \<Longrightarrow> arena_extends a (arena_allocs a' szs)"
  by (induction szs arbitrary: a') (auto simp: arena_extends_alloc)

lemma arena_allocs_ok:
  assumes "arena_ok a live" and "\<forall>sz \<in> set szs. unat sz < 2 ^ 62"
  shows "\<exists>newer. arena_ok (arena_allocs a szs) (newer @ live)"
  using assms
proof (induction szs arbitrary: a live)
  case Nil
  then show ?case by (auto intro: exI [of _ "[]"])
next
  case (Cons sz szs)
  obtain a' i st where al: "arena_alloc a sz = (a', i, st)" by (metis prod_cases3)
  have "arena_ok a' ((i, unat st, unat sz) # live)"
    using arena_alloc_ok [OF Cons.prems(1) _ al] Cons.prems(2) by simp
  then obtain newer where "arena_ok (arena_allocs a' szs) (newer @ (i, unat st, unat sz) # live)"
    using Cons.IH [of a'] Cons.prems(2) by (metis list.set_intros(2))
  then show ?case using al by (auto intro: exI [of _ "newer @ [(i, unat st, unat sz)]"])
qed

definition settled :: "arena \<Rightarrow> region list \<Rightarrow> bool" where
  "settled a live \<longleftrightarrow> (\<forall>r \<in> set live. region_in (ar_before a @ [ar_current a]) r)"

lemma arena_rewind_blocks:
  assumes wf: "arena_wf a'" and ext: "arena_extends a a'"
  shows "\<exists>c ys. same_block (ar_current a) c \<and> ar_blocks a' = ar_before a @ c # ys \<and>
     arena_rewind a' (arena_checkpoint a) =
       a'\<lparr>ar_before := ar_before a, ar_current := c\<lparr>blk_offset := blk_offset (ar_current a)\<rparr>,
          ar_after := map blk_clear ys\<rparr>"
proof -
  obtain c ys where c: "same_block (ar_current a) c" and bl: "ar_blocks a' = ar_before a @ c # ys"
    using ext by (auto simp: arena_extends_def ar_blocks_def)
  have "distinct (map blk_id (ar_before a @ c # ys))" using wf bl by (simp add: arena_wf_def)
  then have "\<forall>x \<in> set (ar_before a). blk_id x \<noteq> blk_id c" by (auto simp: image_iff)
  then have "find_block (\<lambda>b. blk_id b = blk_id (ar_current a)) (ar_before a @ c # ys) = Some (ar_before a, c, ys)"
    using c by (intro find_block_split) (auto simp: same_block_def)
  then show ?thesis using c bl by (auto simp: arena_rewind_def arena_checkpoint_def)
qed

lemma arena_rewind_ok:
  assumes ok: "arena_ok a live" and st: "settled a live" and ok': "arena_ok a' (newer @ live)"
    and ext: "arena_extends a a'"
  shows "arena_ok (arena_rewind a' (arena_checkpoint a)) live"
proof -
  have wf: "arena_wf a" and wf': "arena_wf a'" using ok ok' by (auto simp: arena_ok_def)
  obtain c ys where c: "same_block (ar_current a) c" "ar_blocks a' = ar_before a @ c # ys"
    and r: "arena_rewind a' (arena_checkpoint a) =
       a'\<lparr>ar_before := ar_before a, ar_current := c\<lparr>blk_offset := blk_offset (ar_current a)\<rparr>,
          ar_after := map blk_clear ys\<rparr>"
    using arena_rewind_blocks [OF wf' ext] by blast
  let ?r = "arena_rewind a' (arena_checkpoint a)"
  let ?c = "c\<lparr>blk_offset := blk_offset (ar_current a)\<rparr>"
  have blocks: "ar_blocks ?r = ar_before a @ ?c # map blk_clear ys" unfolding r by (simp add: ar_blocks_def)
  have ids: "map blk_id (ar_blocks ?r) = map blk_id (ar_blocks a')"
    unfolding blocks c(2) by (simp add: blk_clear_def)
  have cur: "blk_offset (ar_current a) \<le> blk_capacity (ar_current a)" "\<not> blk_dedicated (ar_current a)"
    using wf by (auto simp: arena_wf_def ar_blocks_def)
  have "\<forall>b \<in> set (ar_blocks ?r). blk_id b < ar_mallocs ?r \<and> blk_offset b \<le> blk_capacity b \<and>
        unat (blk_capacity b) < 2 ^ 63 \<and> (\<not> blk_dedicated b \<longrightarrow> blk_capacity b = ar_block_size ?r)"
    using wf' cur c unfolding arena_wf_def blocks c(2) by (auto simp: r blk_clear_def same_block_def)
  moreover have "\<not> blk_dedicated (ar_current ?r)" "ar_block_size ?r = ar_block_size a'"
    using cur(2) c(1) by (auto simp: r same_block_def)
  moreover have "\<forall>b \<in> set (ar_after ?r). blk_offset b = 0" by (auto simp: r blk_clear_def)
  ultimately have wf'': "arena_wf ?r"
    using wf' ids unfolding arena_wf_def by auto
  have mono: "\<exists>c' \<in> set (ar_blocks ?r). blk_id c' = blk_id b \<and> unat (blk_offset b) \<le> unat (blk_offset c')"
    if "b \<in> set (ar_before a @ [ar_current a])" for b
    using that c(1) unfolding blocks by (auto simp: same_block_def)
  have "\<forall>r \<in> set live. region_in (ar_blocks ?r) r"
    using st region_in_mono [OF _ mono] unfolding settled_def by blast
  then show ?thesis using wf'' ok by (auto simp: arena_ok_def)
qed

section \<open>Properties\<close>

text \<open>C4: an allocation from a well-formed arena returns an 8-byte aligned region inside its block
  that is disjoint from every region handed out before, and leaves the arena well formed with all
  of them still allocated, as long as the size is below 2^62 (so that \<^verbatim>\<open>offset + size\<close> cannot wrap).\<close>

theorem arena_alloc_safe:
  assumes "arena_ok a live" and "unat sz < 2 ^ 62" and "arena_alloc a sz = (a', i, st)"
  shows "arena_ok a' ((i, unat st, unat sz) # live) \<and>
         region_in (ar_blocks a') (i, unat st, unat sz) \<and>
         (\<forall>r \<in> set live. disjoint_regions (i, unat st, unat sz) r) \<and> 8 dvd unat st"
  using arena_alloc_ok [OF assms] by (simp add: arena_ok_def)

theorem arena_alloc_safe_witness:
  "\<exists>a'. arena_alloc (arena_create 64) 24 = (a', 0, 0) \<and> arena_ok a' [(0, 0, 24)]"
proof -
  have ok: "arena_ok (arena_create 64) []" by (rule arena_create_ok) simp
  obtain a' where a': "arena_alloc (arena_create 64) 24 = (a', 0, 0)"
    by (simp add: arena_alloc_def arena_create_def arena_block_create_def align_up_def
        ARENA_ALIGNMENT_def arena_bump_def)
  then show ?thesis using arena_alloc_safe [OF ok _ a'] by simp
qed




text \<open>The size check wraps: after sixteen bytes, a request for 2^64 - 8 bytes passes it and is
  answered from the current block.\<close>

lemma arena_alloc_size_wraps:
  "\<exists>a p. arena_alloc (fst (arena_alloc (arena_create 64) 16)) (- 8) = (a, p) \<and>
     p = (0, 16) \<and> blk_offset (ar_current a) = 8"
  by (simp add: arena_alloc_def arena_create_def arena_block_create_def align_up_def
      ARENA_ALIGNMENT_def arena_bump_def Let_def)

end
