(* ===== verification/Hash_Map.thy ===== *)
theory Hash_Map
  imports Prelude
begin

text \<open>
  The open-addressing hash map of \<^verbatim>\<open>src/util/hash_map.h\<close> (the macro
  \<^verbatim>\<open>GAB_HASH_MAP\<close>, whose hash and key equality are the parameters \<open>hash\<close> and \<open>eq\<close>), and
  the string hash of \<^verbatim>\<open>src/util/hash.h\<close>.  A returned \<^verbatim>\<open>ValueType *\<close> is the index of the entry
  that holds the val.  The probe loop has no bound in the code, so it is a partial function and
  not returning is \<open>None\<close>; the invariant \<open>hm_inv\<close> keeps one empty slot, and under it every
  operation returns and acts on the abstract map \<open>hm_abs\<close>.
\<close>

unbundle bit_operations_syntax

section \<open>Entries and maps\<close>

text \<open>An entry is tagged by its state; the zeroed entries of \<open>memset\<close> hold no key.\<close>

datatype ('k, 'v) hm_entry =
    HASH_MAP_EMPTY
  | HASH_MAP_LIVE (ent_key: 'k) (ent_hash: nat) (ent_value: 'v)
  | HASH_MAP_DEAD 'k nat 'v

record ('k, 'v) hash_map =
  hm_entries :: "('k, 'v) hm_entry list"
  hm_capacity :: nat
  hm_size :: nat
  hm_occupied :: nat

fun hm_is_live :: "('k, 'v) hm_entry \<Rightarrow> bool" where
  "hm_is_live (HASH_MAP_LIVE k h v) = True"
| "hm_is_live HASH_MAP_EMPTY = False"
| "hm_is_live (HASH_MAP_DEAD k h v) = False"

section \<open>Operations\<close>

definition hm_init :: "nat \<Rightarrow> ('k, 'v) hash_map option" where
  "hm_init capacity =
     (if capacity > 0 \<and> capacity AND (capacity - 1) = 0
      then Some \<lparr>hm_entries = replicate capacity HASH_MAP_EMPTY, hm_capacity = capacity,
                 hm_size = 0, hm_occupied = 0\<rparr>
      else None)"

partial_function (option) hm_probe_at ::
  "('k \<Rightarrow> 'k \<Rightarrow> bool) \<Rightarrow> ('k, 'v) hm_entry list \<Rightarrow> nat \<Rightarrow> 'k \<Rightarrow> nat \<Rightarrow> nat \<Rightarrow> nat option \<Rightarrow> nat option"
where
  "hm_probe_at eq entries capacity key hash idx tombstone =
     (case entries ! idx of
        HASH_MAP_EMPTY \<Rightarrow> Some (case tombstone of Some t \<Rightarrow> t | None \<Rightarrow> idx)
      | HASH_MAP_DEAD k h v \<Rightarrow>
          hm_probe_at eq entries capacity key hash ((idx + 1) AND (capacity - 1))
            (case tombstone of None \<Rightarrow> Some idx | Some t \<Rightarrow> Some t)
      | HASH_MAP_LIVE k h v \<Rightarrow>
          (if h = hash \<and> eq key k then Some idx
           else hm_probe_at eq entries capacity key hash ((idx + 1) AND (capacity - 1)) tombstone))"

definition hm_probe ::
  "('k \<Rightarrow> 'k \<Rightarrow> bool) \<Rightarrow> ('k, 'v) hm_entry list \<Rightarrow> nat \<Rightarrow> 'k \<Rightarrow> nat \<Rightarrow> nat option" where
  "hm_probe eq entries capacity key hash =
     hm_probe_at eq entries capacity key hash (hash AND (capacity - 1)) None"

fun hm_rehash ::
  "('k \<Rightarrow> 'k \<Rightarrow> bool) \<Rightarrow> nat \<Rightarrow> ('k, 'v) hm_entry list \<Rightarrow> ('k, 'v) hm_entry list
     \<Rightarrow> ('k, 'v) hm_entry list option" where
  "hm_rehash eq new_cap [] new_entries = Some new_entries"
| "hm_rehash eq new_cap (entry # rest) new_entries =
     (case entry of
        HASH_MAP_LIVE k h v \<Rightarrow>
          do { i \<leftarrow> hm_probe eq new_entries new_cap k h;
               hm_rehash eq new_cap rest (new_entries[i := entry]) }
      | _ \<Rightarrow> hm_rehash eq new_cap rest new_entries)"

text \<open>\<open>capacity * 0.25\<close> and \<open>capacity * 0.5\<close> are computed in floating point; the comparisons
  with the counters are the ones below.\<close>

definition hm_resize :: "('k \<Rightarrow> 'k \<Rightarrow> bool) \<Rightarrow> ('k, 'v) hash_map \<Rightarrow> ('k, 'v) hash_map option" where
  "hm_resize eq m =
     (let new_cap = (if 4 * hm_size m \<ge> hm_capacity m then hm_capacity m * 2 else hm_capacity m) in
      do { new_entries \<leftarrow> hm_rehash eq new_cap (hm_entries m) (replicate new_cap HASH_MAP_EMPTY);
           Some (m\<lparr>hm_entries := new_entries, hm_capacity := new_cap, hm_occupied := hm_size m\<rparr>) })"

definition hm_insert ::
  "('k \<Rightarrow> nat) \<Rightarrow> ('k \<Rightarrow> 'k \<Rightarrow> bool) \<Rightarrow> ('k, 'v) hash_map \<Rightarrow> 'k \<Rightarrow> 'v
     \<Rightarrow> (('k, 'v) hash_map \<times> nat option) option" where
  "hm_insert hash eq m0 key val =
     do { m \<leftarrow> (if 2 * hm_occupied m0 \<ge> hm_capacity m0 then hm_resize eq m0 else Some m0);
          i \<leftarrow> hm_probe eq (hm_entries m) (hm_capacity m) key (hash key);
          (case hm_entries m ! i of
             HASH_MAP_LIVE _ _ _ \<Rightarrow> Some (m, None)
           | HASH_MAP_EMPTY \<Rightarrow>
               Some (m\<lparr>hm_occupied := hm_occupied m + 1,
                       hm_entries := (hm_entries m)[i := HASH_MAP_LIVE key (hash key) val],
                       hm_size := hm_size m + 1\<rparr>, Some i)
           | HASH_MAP_DEAD _ _ _ \<Rightarrow>
               Some (m\<lparr>hm_entries := (hm_entries m)[i := HASH_MAP_LIVE key (hash key) val],
                       hm_size := hm_size m + 1\<rparr>, Some i)) }"

definition hm_lookup ::
  "('k \<Rightarrow> nat) \<Rightarrow> ('k \<Rightarrow> 'k \<Rightarrow> bool) \<Rightarrow> ('k, 'v) hash_map \<Rightarrow> 'k \<Rightarrow> nat option option" where
  "hm_lookup hash eq m key =
     do { i \<leftarrow> hm_probe eq (hm_entries m) (hm_capacity m) key (hash key);
          Some (if hm_is_live (hm_entries m ! i) then Some i else None) }"

fun hm_kill :: "('k, 'v) hm_entry \<Rightarrow> ('k, 'v) hm_entry" where
  "hm_kill (HASH_MAP_LIVE k h v) = HASH_MAP_DEAD k h v"
| "hm_kill e = e"

definition hm_delete ::
  "('k \<Rightarrow> nat) \<Rightarrow> ('k \<Rightarrow> 'k \<Rightarrow> bool) \<Rightarrow> ('k, 'v) hash_map \<Rightarrow> 'k
     \<Rightarrow> (('k, 'v) hash_map \<times> bool) option" where
  "hm_delete hash eq m key =
     (if hm_size m = 0 then Some (m, False)
      else do { i \<leftarrow> hm_probe eq (hm_entries m) (hm_capacity m) key (hash key);
                Some (if \<not> hm_is_live (hm_entries m ! i) then (m, False)
                      else (m\<lparr>hm_entries := (hm_entries m)[i := hm_kill (hm_entries m ! i)],
                              hm_size := hm_size m - 1\<rparr>, True)) })"

text \<open>Reading and writing through a returned value pointer.\<close>

definition hm_value :: "('k, 'v) hash_map \<Rightarrow> nat \<Rightarrow> 'v" where
  "hm_value m i = ent_value (hm_entries m ! i)"

text \<open>\<open>GAB_HASH_MAP_FOR_EACH\<close> visits the live entries in table order.\<close>

fun hm_live_pairs :: "('k, 'v) hm_entry list \<Rightarrow> ('k \<times> 'v) list" where
  "hm_live_pairs [] = []"
| "hm_live_pairs (HASH_MAP_LIVE k h v # es) = (k, v) # hm_live_pairs es"
| "hm_live_pairs (e # es) = hm_live_pairs es"

definition hm_for_each :: "('k, 'v) hash_map \<Rightarrow> ('k \<times> 'v) list" where
  "hm_for_each m = hm_live_pairs (hm_entries m)"

text \<open>The abstract map: what a key names, up to the key equality.\<close>

definition hm_abs :: "('k \<Rightarrow> 'k \<Rightarrow> bool) \<Rightarrow> ('k, 'v) hash_map \<Rightarrow> 'k \<Rightarrow> 'v option" where
  "hm_abs eq m key = map_option snd (List.find (\<lambda>(k, v). eq key k) (hm_for_each m))"

section \<open>The string hash\<close>

text \<open>\<open>char\<close> is signed on the targets the compiler builds for: a byte above 127 is sign extended.\<close>

definition signed_char :: "char \<Rightarrow> 64 word" where
  "signed_char c = scast (of_nat (of_char c) :: 8 word)"

fun hash_dj2b_loop :: "64 word \<Rightarrow> string \<Rightarrow> 64 word" where
  "hash_dj2b_loop h [] = h"
| "hash_dj2b_loop h (c # cs) = hash_dj2b_loop ((push_bit 5 h + h) + signed_char c) cs"

definition hash_dj2b_cstr :: "string \<Rightarrow> nat" where
  "hash_dj2b_cstr s = unat (hash_dj2b_loop 5381 s)"

section \<open>Probing\<close>

definition hm_slot :: "nat \<Rightarrow> nat \<Rightarrow> nat \<Rightarrow> nat" where
  "hm_slot capacity h d = (h + d) mod capacity"

fun hm_matches :: "('k \<Rightarrow> 'k \<Rightarrow> bool) \<Rightarrow> 'k \<Rightarrow> nat \<Rightarrow> ('k, 'v) hm_entry \<Rightarrow> bool" where
  "hm_matches eq key h (HASH_MAP_LIVE k h' v) = (h' = h \<and> eq key k)"
| "hm_matches eq key h HASH_MAP_EMPTY = False"
| "hm_matches eq key h (HASH_MAP_DEAD k h' v) = False"

lemma hm_slot_less [simp]: "0 < capacity \<Longrightarrow> hm_slot capacity h d < capacity"
  by (simp add: hm_slot_def)

lemma hm_slot_0: "hm_slot (2 ^ n) h 0 = h AND (2 ^ n - 1)"
  by (simp add: hm_slot_def nat_and_pow2_Suc)

lemma hm_slot_Suc: "(hm_slot (2 ^ n) h d + 1) AND (2 ^ n - 1) = hm_slot (2 ^ n) h (Suc d)"
  by (simp add: hm_slot_def nat_and_pow2_Suc mod_Suc_eq)

lemma hm_slot_surj:
  assumes "i < capacity"
  shows "\<exists>d < capacity. hm_slot capacity h d = i"
proof -
  let ?d = "(i + (capacity - h mod capacity)) mod capacity"
  have c: "0 < capacity" using assms by simp
  have le: "h mod capacity \<le> capacity" using c by (simp add: less_imp_le)
  have "hm_slot capacity h ?d = (h mod capacity + (i + (capacity - h mod capacity))) mod capacity"
    by (simp add: hm_slot_def mod_simps)
  also have "h mod capacity + (i + (capacity - h mod capacity)) = i + capacity"
    using le by simp
  also have "(i + capacity) mod capacity = i" using assms by simp
  finally show ?thesis using c by (intro exI [of _ ?d]) simp
qed

text \<open>
  What the probe loop answers: with an empty slot at distance \<open>D\<close> from the home slot and none
  before it, a matching entry on the way is found, and otherwise the answer is a slot that is not
  live and that the key's probe sequence reaches without crossing an empty one.
\<close>

definition hm_reaches :: "('k, 'v) hm_entry list \<Rightarrow> nat \<Rightarrow> nat \<Rightarrow> nat \<Rightarrow> bool" where
  "hm_reaches es capacity h i \<longleftrightarrow>
     (\<exists>d. hm_slot capacity h d = i \<and> (\<forall>d' < d. es ! hm_slot capacity h d' \<noteq> HASH_MAP_EMPTY))"

lemma hm_probe_at_found:
  assumes "es ! hm_slot (2 ^ n) h D = HASH_MAP_EMPTY"
    and "\<forall>d' < D. es ! hm_slot (2 ^ n) h d' \<noteq> HASH_MAP_EMPTY"
    and "d \<le> D"
    and "\<forall>t. tomb = Some t \<longrightarrow> \<not> hm_is_live (es ! t) \<and> t < 2 ^ n \<and> hm_reaches es (2 ^ n) h t"
  shows "\<exists>i. hm_probe_at eq es (2 ^ n) key h (hm_slot (2 ^ n) h d) tomb = Some i \<and> i < 2 ^ n \<and>
             hm_reaches es (2 ^ n) h i \<and>
             (hm_matches eq key h (es ! i) \<or>
              \<not> hm_is_live (es ! i) \<and>
              (\<forall>d'. d \<le> d' \<and> d' < D \<longrightarrow> \<not> hm_matches eq key h (es ! hm_slot (2 ^ n) h d')))"
  using assms(3,4)
proof (induction "D - d" arbitrary: d tomb)
  case 0
  then have d: "d = D" by simp
  have r: "hm_reaches es (2 ^ n) h (hm_slot (2 ^ n) h D)"
    using assms(2) by (auto simp: hm_reaches_def)
  show ?case
    using assms(1) 0(3) r
    by (subst hm_probe_at.simps) (auto simp: d split: option.split)
next
  case (Suc x)
  then have lt: "d < D" by simp
  have r: "hm_reaches es (2 ^ n) h (hm_slot (2 ^ n) h d)"
    using assms(2) lt by (auto simp: hm_reaches_def)
  note IH = Suc(1) [of "Suc d"]
  have x: "x = D - Suc d" and sd: "Suc d \<le> D" using Suc(2) lt by auto
  have step: "\<And>P. (\<forall>d'. d \<le> d' \<and> d' < D \<longrightarrow> P d') \<longleftrightarrow> P d \<and> (\<forall>d'. Suc d \<le> d' \<and> d' < D \<longrightarrow> P d')"
    using lt by (metis Suc_leD Suc_leI le_neq_implies_less le_refl)
  show ?case
  proof (cases "es ! hm_slot (2 ^ n) h d")
    case HASH_MAP_EMPTY
    then show ?thesis using assms(2) lt by auto
  next
    case (HASH_MAP_LIVE k h' v)
    show ?thesis
    proof (cases "h' = h \<and> eq key k")
      case True
      then show ?thesis using HASH_MAP_LIVE r
        by (subst hm_probe_at.simps) simp
    next
      case False
      then show ?thesis using IH [OF x sd Suc(4)] HASH_MAP_LIVE
        by (subst hm_probe_at.simps) (auto simp: hm_slot_Suc [simplified] step)
    qed
  next
    case (HASH_MAP_DEAD k h' v)
    let ?t = "case tomb of None \<Rightarrow> Some (hm_slot (2 ^ n) h d) | Some t \<Rightarrow> Some t"
    have "\<forall>t. ?t = Some t \<longrightarrow> \<not> hm_is_live (es ! t) \<and> t < 2 ^ n \<and> hm_reaches es (2 ^ n) h t"
      using Suc(4) r HASH_MAP_DEAD by (auto split: option.splits)
    from IH [OF x sd this] show ?thesis using HASH_MAP_DEAD
      by (subst hm_probe_at.simps) (auto simp: hm_slot_Suc [simplified] step)
  qed
qed

lemma hm_probe_spec:
  assumes "length es = 2 ^ n" and "j < 2 ^ n" and "es ! j = HASH_MAP_EMPTY"
  shows "\<exists>i < 2 ^ n. hm_probe eq es (2 ^ n) key h = Some i \<and> hm_reaches es (2 ^ n) h i \<and>
           (hm_matches eq key h (es ! i) \<or>
            \<not> hm_is_live (es ! i) \<and>
            (\<forall>i' < 2 ^ n. hm_reaches es (2 ^ n) h i' \<longrightarrow> \<not> hm_matches eq key h (es ! i')))"
proof -
  obtain d0 where d0: "es ! hm_slot (2 ^ n) h d0 = HASH_MAP_EMPTY"
    using hm_slot_surj [OF assms(2), of h] assms(3) by auto
  define D where "D = (LEAST d. es ! hm_slot (2 ^ n) h d = HASH_MAP_EMPTY)"
  have D: "es ! hm_slot (2 ^ n) h D = HASH_MAP_EMPTY"
    unfolding D_def using d0 by (rule LeastI)
  have least: "\<forall>d' < D. es ! hm_slot (2 ^ n) h d' \<noteq> HASH_MAP_EMPTY"
    unfolding D_def using not_less_Least by blast
  obtain i where i: "hm_probe_at eq es (2 ^ n) key h (hm_slot (2 ^ n) h 0) None = Some i"
    "i < 2 ^ n" "hm_reaches es (2 ^ n) h i"
    "hm_matches eq key h (es ! i) \<or> \<not> hm_is_live (es ! i) \<and>
       (\<forall>d'. 0 \<le> d' \<and> d' < D \<longrightarrow> \<not> hm_matches eq key h (es ! hm_slot (2 ^ n) h d'))"
    using hm_probe_at_found [OF D least, of 0 None eq key] by auto
  have "\<not> hm_matches eq key h (es ! i')"
    if r: "hm_reaches es (2 ^ n) h i'"
      and no: "\<forall>d'. 0 \<le> d' \<and> d' < D \<longrightarrow> \<not> hm_matches eq key h (es ! hm_slot (2 ^ n) h d')" for i'
  proof -
    from r obtain d where d: "hm_slot (2 ^ n) h d = i'"
      "\<forall>d' < d. es ! hm_slot (2 ^ n) h d' \<noteq> HASH_MAP_EMPTY"
      by (auto simp: hm_reaches_def)
    then have "d \<le> D" using D by (meson not_le)
    then consider "d < D" | "d = D" by linarith
    then show ?thesis using no d D by cases auto
  qed
  with i show ?thesis unfolding hm_probe_def hm_slot_0 by auto
qed

section \<open>The invariant\<close>

text \<open>\<open>hm_cells\<close> says it of the table alone: the stored hash is the key's, every live entry is
  reachable from its home slot, and no two live entries hold equal keys.\<close>

definition hm_cells ::
  "('k \<Rightarrow> nat) \<Rightarrow> ('k \<Rightarrow> 'k \<Rightarrow> bool) \<Rightarrow> nat \<Rightarrow> ('k, 'v) hm_entry list \<Rightarrow> bool" where
  "hm_cells hash eq capacity es \<longleftrightarrow>
     (\<forall>i < capacity. hm_is_live (es ! i) \<longrightarrow>
        ent_hash (es ! i) = hash (ent_key (es ! i)) \<and>
        hm_reaches es capacity (hash (ent_key (es ! i))) i) \<and>
     (\<forall>i < capacity. \<forall>j < capacity. hm_is_live (es ! i) \<and> hm_is_live (es ! j) \<and>
        eq (ent_key (es ! i)) (ent_key (es ! j)) \<longrightarrow> i = j)"

definition hm_inv ::
  "('k \<Rightarrow> nat) \<Rightarrow> ('k \<Rightarrow> 'k \<Rightarrow> bool) \<Rightarrow> ('k, 'v) hash_map \<Rightarrow> bool" where
  "hm_inv hash eq m \<longleftrightarrow>
     (\<exists>n. hm_capacity m = 2 ^ Suc n) \<and>
     length (hm_entries m) = hm_capacity m \<and>
     hm_size m = length (filter hm_is_live (hm_entries m)) \<and>
     hm_occupied m = length (filter (\<lambda>e. e \<noteq> HASH_MAP_EMPTY) (hm_entries m)) \<and>
     hm_occupied m < hm_capacity m \<and>
     hm_cells hash eq (hm_capacity m) (hm_entries m)"

lemma hm_is_live_iff: "hm_is_live e \<longleftrightarrow> (\<exists>k h v. e = HASH_MAP_LIVE k h v)"
  by (cases e) auto

lemma set_hm_live_pairs:
  "(k, v) \<in> set (hm_live_pairs es) \<longleftrightarrow> (\<exists>h. HASH_MAP_LIVE k h v \<in> set es)"
  by (induction es rule: hm_live_pairs.induct) auto

lemma hm_live_pairs_set:
  "(k, v) \<in> set (hm_live_pairs es) \<longleftrightarrow> (\<exists>i < length es. \<exists>h. es ! i = HASH_MAP_LIVE k h v)"
  unfolding set_hm_live_pairs by (metis in_set_conv_nth)

lemma hm_abs_None_iff:
  "hm_abs eq m key = None \<longleftrightarrow>
     (\<forall>i < length (hm_entries m). \<forall>k h v. hm_entries m ! i = HASH_MAP_LIVE k h v \<longrightarrow> \<not> eq key k)"
  by (auto simp: hm_abs_def hm_for_each_def find_None_iff hm_live_pairs_set; blast)

lemma hm_abs_SomeD:
  assumes "hm_abs eq m key = Some v"
  shows "\<exists>i < length (hm_entries m). \<exists>k h. hm_entries m ! i = HASH_MAP_LIVE k h v \<and> eq key k"
proof -
  from assms obtain p where "List.find (\<lambda>(k, v). eq key k) (hm_for_each m) = Some p" "snd p = v"
    by (auto simp: hm_abs_def)
  then have "p \<in> set (hm_for_each m) \<and> eq key (fst p)"
    by (auto simp: find_Some_iff) (metis nth_mem)
  with \<open>snd p = v\<close> show ?thesis
    by (cases p) (auto simp: hm_for_each_def hm_live_pairs_set)
qed

locale hash_key =
  fixes hash :: "'k \<Rightarrow> nat" and eq :: "'k \<Rightarrow> 'k \<Rightarrow> bool"
  assumes eq_refl [simp]: "eq k k"
    and eq_sym: "eq k k' \<Longrightarrow> eq k' k"
    and eq_trans: "eq k k' \<Longrightarrow> eq k' k'' \<Longrightarrow> eq k k''"
    and eq_hash: "eq k k' \<Longrightarrow> hash k = hash k'"
begin

lemma abs_Some_iff:
  assumes "length (hm_entries m) = hm_capacity m" "hm_cells hash eq (hm_capacity m) (hm_entries m)"
  shows "hm_abs eq m key = Some v \<longleftrightarrow>
     (\<exists>i < hm_capacity m. \<exists>k h. hm_entries m ! i = HASH_MAP_LIVE k h v \<and> eq key k)"
proof
  assume "hm_abs eq m key = Some v"
  then show "\<exists>i < hm_capacity m. \<exists>k h. hm_entries m ! i = HASH_MAP_LIVE k h v \<and> eq key k"
    using hm_abs_SomeD assms(1) by metis
next
  assume "\<exists>i < hm_capacity m. \<exists>k h. hm_entries m ! i = HASH_MAP_LIVE k h v \<and> eq key k"
  then obtain i k h where i: "i < hm_capacity m" "hm_entries m ! i = HASH_MAP_LIVE k h v" "eq key k"
    by auto
  then have "hm_abs eq m key \<noteq> None" using assms(1) by (auto simp: hm_abs_None_iff)
  then obtain v' where v': "hm_abs eq m key = Some v'" by auto
  then obtain j k' h' where j: "j < hm_capacity m" "hm_entries m ! j = HASH_MAP_LIVE k' h' v'" "eq key k'"
    using hm_abs_SomeD assms(1) by metis
  have "eq k k'" using i(3) j(3) eq_sym eq_trans by blast
  then have "i = j" using assms(2) i j by (auto simp: hm_cells_def)
  with v' i j show "hm_abs eq m key = Some v" by simp
qed

lemma probe_map:
  assumes len: "length es = 2 ^ n" and cells: "hm_cells hash eq (2 ^ n) es"
    and free: "j < 2 ^ n" "es ! j = HASH_MAP_EMPTY"
  shows "\<exists>i < 2 ^ n. hm_probe eq es (2 ^ n) key (hash key) = Some i \<and>
           hm_reaches es (2 ^ n) (hash key) i \<and>
           ((\<exists>k v. es ! i = HASH_MAP_LIVE k (hash k) v \<and> eq key k) \<or>
            \<not> hm_is_live (es ! i) \<and>
            (\<forall>i' < 2 ^ n. \<forall>k h v. es ! i' = HASH_MAP_LIVE k h v \<longrightarrow> \<not> eq key k))"
proof -
  obtain i where i: "i < 2 ^ n" "hm_probe eq es (2 ^ n) key (hash key) = Some i"
      "hm_reaches es (2 ^ n) (hash key) i"
      "hm_matches eq key (hash key) (es ! i) \<or> \<not> hm_is_live (es ! i) \<and>
         (\<forall>i' < 2 ^ n. hm_reaches es (2 ^ n) (hash key) i' \<longrightarrow> \<not> hm_matches eq key (hash key) (es ! i'))"
    using hm_probe_spec [OF len free, of eq key "hash key"] by blast
  have a: "\<exists>k v. es ! i = HASH_MAP_LIVE k (hash k) v \<and> eq key k"
    if "hm_matches eq key (hash key) (es ! i)"
    using that by (cases "es ! i") (auto simp: eq_hash)
  have b: "\<not> eq key k"
    if none: "\<forall>i' < 2 ^ n. hm_reaches es (2 ^ n) (hash key) i' \<longrightarrow> \<not> hm_matches eq key (hash key) (es ! i')"
      and i': "i' < 2 ^ n" "es ! i' = HASH_MAP_LIVE k h v" for i' k h v
  proof
    assume e: "eq key k"
    have "h = hash k" "hm_reaches es (2 ^ n) (hash k) i'"
      using cells i' by (auto simp: hm_cells_def dest!: spec [of _ i'])
    with none i' e eq_hash [OF e] show False by auto
  qed
  show ?thesis using i a b by blast
qed


lemma reaches_update:
  assumes "hm_reaches es capacity h j" and "e \<noteq> HASH_MAP_EMPTY"
  shows "hm_reaches (es[i := e]) capacity h j"
proof -
  obtain d where d: "hm_slot capacity h d = j" "\<forall>d' < d. es ! hm_slot capacity h d' \<noteq> HASH_MAP_EMPTY"
    using assms(1) by (auto simp: hm_reaches_def)
  have "es[i := e] ! x \<noteq> HASH_MAP_EMPTY" if "es ! x \<noteq> HASH_MAP_EMPTY" for x
    using that assms(2) by (cases "i < length es"; cases "x = i") (auto simp: list_update_beyond)
  with d show ?thesis by (auto simp: hm_reaches_def intro!: exI [of _ d])
qed

lemma cells_store:
  assumes len: "length es = capacity" and cells: "hm_cells hash eq capacity es"
    and i: "i < capacity" "hm_reaches es capacity (hash key) i"
    and new: "\<forall>i' < capacity. \<forall>k h v. es ! i' = HASH_MAP_LIVE k h v \<longrightarrow> \<not> eq key k"
  shows "hm_cells hash eq capacity (es[i := HASH_MAP_LIVE key (hash key) val])"
proof -
  let ?e = "HASH_MAP_LIVE key (hash key) val"
  have 1: "ent_hash (es[i := ?e] ! j) = hash (ent_key (es[i := ?e] ! j)) \<and>
        hm_reaches (es[i := ?e]) capacity (hash (ent_key (es[i := ?e] ! j))) j"
    if "j < capacity" "hm_is_live (es[i := ?e] ! j)" for j
  proof (cases "j = i")
    case True
    then show ?thesis using i len by (auto intro: reaches_update)
  next
    case False
    then have "ent_hash (es ! j) = hash (ent_key (es ! j)) \<and>
        hm_reaches es capacity (hash (ent_key (es ! j))) j"
      using cells that by (auto simp: hm_cells_def)
    then show ?thesis using False by (auto intro: reaches_update)
  qed
  have fresh: "\<not> eq key (ent_key (es ! j)) \<and> \<not> eq (ent_key (es ! j)) key"
    if "j < capacity" "hm_is_live (es ! j)" for j
    using new that eq_sym by (cases "es ! j") auto
  have 2: "j = l"
    if "j < capacity" "l < capacity" "hm_is_live (es[i := ?e] ! j)" "hm_is_live (es[i := ?e] ! l)"
      "eq (ent_key (es[i := ?e] ! j)) (ent_key (es[i := ?e] ! l))" for j l
  proof -
    consider "j = i" "l = i" | "j = i" "l \<noteq> i" | "j \<noteq> i" "l = i" | "j \<noteq> i" "l \<noteq> i" by blast
    then show ?thesis
    proof cases
      case 4
      then show ?thesis using cells that by (auto simp: hm_cells_def)
    qed (use that fresh len i in auto)
  qed
  from 1 2 show ?thesis unfolding hm_cells_def by blast
qed

lemma rehash_ok:
  assumes "length new = 2 ^ n" and "hm_cells hash eq (2 ^ n) new"
    and "length (filter (\<lambda>e. e \<noteq> HASH_MAP_EMPTY) new) = length (filter hm_is_live new)"
    and "length (filter hm_is_live new) + length (filter hm_is_live src) < 2 ^ n"
    and "\<forall>e \<in> set src. hm_is_live e \<longrightarrow> ent_hash e = hash (ent_key e)"
    and "sorted_wrt (\<lambda>e e'. hm_is_live e \<and> hm_is_live e' \<longrightarrow> \<not> eq (ent_key e) (ent_key e')) src"
    and "\<forall>e \<in> set src. \<forall>e' \<in> set new. hm_is_live e \<and> hm_is_live e' \<longrightarrow> \<not> eq (ent_key e) (ent_key e')"
  shows "\<exists>new'. hm_rehash eq (2 ^ n) src new = Some new' \<and> length new' = 2 ^ n \<and>
           hm_cells hash eq (2 ^ n) new' \<and>
           length (filter hm_is_live new') = length (filter hm_is_live new) + length (filter hm_is_live src) \<and>
           length (filter (\<lambda>e. e \<noteq> HASH_MAP_EMPTY) new') = length (filter hm_is_live new') \<and>
           (\<forall>k v. (k, v) \<in> set (hm_live_pairs new') \<longleftrightarrow>
                  (k, v) \<in> set (hm_live_pairs new) \<or> (k, v) \<in> set (hm_live_pairs src))"
  using assms
proof (induction src arbitrary: new)
  case Nil
  then show ?case by simp
next
  case (Cons e src)
  show ?case
  proof (cases e)
    case (HASH_MAP_LIVE k h v)
    have h: "h = hash k" using Cons.prems(5) HASH_MAP_LIVE by auto
    have "length (filter (\<lambda>e. e \<noteq> HASH_MAP_EMPTY) new) < length new"
      using Cons.prems(1,3,4) HASH_MAP_LIVE by simp
    then obtain j where j: "j < 2 ^ n" "new ! j = HASH_MAP_EMPTY"
      using length_filter_less_witness [of "\<lambda>e. e \<noteq> HASH_MAP_EMPTY" new] Cons.prems(1) by auto
    have absent: "\<not> eq k k'" if "i' < 2 ^ n" "new ! i' = HASH_MAP_LIVE k' h' v'" for i' k' h' v'
    proof -
      have "HASH_MAP_LIVE k' h' v' \<in> set new" using that Cons.prems(1) by (metis nth_mem)
      then show ?thesis using Cons.prems(7) HASH_MAP_LIVE by fastforce
    qed
    obtain i where i: "i < 2 ^ n" "hm_probe eq new (2 ^ n) k (hash k) = Some i"
        "hm_reaches new (2 ^ n) (hash k) i" "\<not> hm_is_live (new ! i)"
      using probe_map [OF Cons.prems(1,2) j, of k] absent by blast
    let ?new = "new[i := e]"
    have e: "e = HASH_MAP_LIVE k (hash k) v" using HASH_MAP_LIVE h by simp
    have empty: "new ! i = HASH_MAP_EMPTY"
    proof (rule ccontr)
      assume "new ! i \<noteq> HASH_MAP_EMPTY"
      then have "length (filter hm_is_live (new[i := e])) + 0 = length (filter hm_is_live new) + 1"
        using length_filter_update [of i new hm_is_live e] i Cons.prems(1) e by simp
      moreover have "length (filter hm_is_live (new[i := e])) \<le>
          length (filter (\<lambda>e. e \<noteq> HASH_MAP_EMPTY) (new[i := e]))"
        by (rule filter_le_filter_length) auto
      moreover have "length (filter (\<lambda>e. e \<noteq> HASH_MAP_EMPTY) (new[i := e])) =
          length (filter (\<lambda>e. e \<noteq> HASH_MAP_EMPTY) new)"
        using length_filter_update [of i new "\<lambda>e. e \<noteq> HASH_MAP_EMPTY" e] i Cons.prems(1) e
          \<open>new ! i \<noteq> HASH_MAP_EMPTY\<close> by simp
      ultimately show False using Cons.prems(3) by simp
    qed
    have live: "length (filter hm_is_live ?new) = Suc (length (filter hm_is_live new))"
      using length_filter_update [of i new hm_is_live e] i Cons.prems(1) e by simp
    have occ: "length (filter (\<lambda>e. e \<noteq> HASH_MAP_EMPTY) ?new) =
        Suc (length (filter (\<lambda>e. e \<noteq> HASH_MAP_EMPTY) new))"
      using length_filter_update [of i new "\<lambda>e. e \<noteq> HASH_MAP_EMPTY" e] i Cons.prems(1) e empty by simp
    have cells: "hm_cells hash eq (2 ^ n) ?new"
      unfolding e using cells_store [OF Cons.prems(1,2) i(1,3)] absent by blast
    have sub: "set ?new \<subseteq> insert e (set new)" by (rule set_update_subset_insert)
    have dist: "\<forall>a \<in> set src. \<forall>b \<in> set ?new. hm_is_live a \<and> hm_is_live b \<longrightarrow> \<not> eq (ent_key a) (ent_key b)"
    proof (intro ballI impI)
      fix a b assume a: "a \<in> set src" and b: "b \<in> set ?new" and l: "hm_is_live a \<and> hm_is_live b"
      from b sub consider "b = e" | "b \<in> set new" by auto
      then show "\<not> eq (ent_key a) (ent_key b)"
      proof cases
        case 1
        have "\<not> eq (ent_key e) (ent_key a)" using Cons.prems(6) a l e by auto
        then show ?thesis using 1 eq_sym by blast
      next
        case 2
        then show ?thesis using Cons.prems(7) a l by auto
      qed
    qed
    have pairs: "(k', v') \<in> set (hm_live_pairs ?new) \<longleftrightarrow>
        (k', v') = (k, v) \<or> (k', v') \<in> set (hm_live_pairs new)" for k' v'
      unfolding hm_live_pairs_set
      using empty i(1) Cons.prems(1) e
      by (auto simp: nth_list_update intro: exI [of _ i]) (metis hm_entry.distinct(1) nth_list_update_neq)+
    have "\<exists>new'. hm_rehash eq (2 ^ n) src ?new = Some new' \<and> length new' = 2 ^ n \<and>
           hm_cells hash eq (2 ^ n) new' \<and>
           length (filter hm_is_live new') = length (filter hm_is_live ?new) + length (filter hm_is_live src) \<and>
           length (filter (\<lambda>e. e \<noteq> HASH_MAP_EMPTY) new') = length (filter hm_is_live new') \<and>
           (\<forall>k v. (k, v) \<in> set (hm_live_pairs new') \<longleftrightarrow>
                  (k, v) \<in> set (hm_live_pairs ?new) \<or> (k, v) \<in> set (hm_live_pairs src))"
      by (rule Cons.IH) (use Cons.prems cells dist live occ e in auto)
    then show ?thesis
      using i(2) live pairs by (auto simp: e)
  qed (use Cons in auto)
qed


lemma abs_from_pairs:
  assumes m: "length (hm_entries m) = hm_capacity m" "hm_cells hash eq (hm_capacity m) (hm_entries m)"
    and m': "length (hm_entries m') = hm_capacity m'" "hm_cells hash eq (hm_capacity m') (hm_entries m')"
    and pairs: "\<And>k v. (k, v) \<in> set (hm_for_each m') \<longleftrightarrow> (k, v) \<in> set (hm_for_each m)"
  shows "hm_abs eq m' key = hm_abs eq m key"
proof -
  have "hm_abs eq m' key = Some v \<longleftrightarrow> hm_abs eq m key = Some v" for v
  proof -
    have "hm_abs eq m' key = Some v \<longleftrightarrow> (\<exists>k. (k, v) \<in> set (hm_for_each m') \<and> eq key k)"
      using m' by (auto simp: abs_Some_iff hm_for_each_def hm_live_pairs_set)
    also have "\<dots> \<longleftrightarrow> (\<exists>k. (k, v) \<in> set (hm_for_each m) \<and> eq key k)" by (simp add: pairs)
    also have "\<dots> \<longleftrightarrow> hm_abs eq m key = Some v"
      using m by (auto simp: abs_Some_iff hm_for_each_def hm_live_pairs_set)
    finally show ?thesis .
  qed
  then show ?thesis by (metis not_Some_eq)
qed

lemma cells_sorted:
  assumes "length es = capacity" and "hm_cells hash eq capacity es"
  shows "sorted_wrt (\<lambda>e e'. hm_is_live e \<and> hm_is_live e' \<longrightarrow> \<not> eq (ent_key e) (ent_key e')) es"
    and "\<forall>e \<in> set es. hm_is_live e \<longrightarrow> ent_hash e = hash (ent_key e)"
  using assms by (auto simp: hm_cells_def sorted_wrt_iff_nth_less in_set_conv_nth)
    (metis less_irrefl less_trans)

lemma resize_ok:
  fixes m :: "('k, 'v) hash_map"
  assumes "hm_inv hash eq m"
  shows "\<exists>m'. hm_resize eq m = Some m' \<and> hm_inv hash eq m' \<and> hm_size m' = hm_size m \<and>
           (\<forall>key. hm_abs eq m' key = hm_abs eq m key) \<and>
           2 * hm_occupied m' < hm_capacity m'"
proof -
  obtain n where n: "hm_capacity m = 2 ^ Suc n" using assms by (auto simp: hm_inv_def)
  have inv: "length (hm_entries m) = hm_capacity m"
    "hm_size m = length (filter hm_is_live (hm_entries m))"
    "hm_occupied m = length (filter (\<lambda>e. e \<noteq> HASH_MAP_EMPTY) (hm_entries m))"
    "hm_occupied m < hm_capacity m" "hm_cells hash eq (hm_capacity m) (hm_entries m)"
    using assms by (auto simp: hm_inv_def)
  have "length (filter hm_is_live (hm_entries m)) \<le>
        length (filter (\<lambda>e. e \<noteq> HASH_MAP_EMPTY) (hm_entries m))"
    by (rule filter_le_filter_length) auto
  then have so: "hm_size m < 2 * 2 ^ n" using inv n by simp
  let ?cap = "if 4 * hm_size m \<ge> hm_capacity m then hm_capacity m * 2 else hm_capacity m"
  obtain l where l: "?cap = 2 ^ Suc l" by (cases "4 * hm_size m \<ge> hm_capacity m") (auto simp: n intro: that [of n] that [of "Suc n"])
  have room: "2 * hm_size m < ?cap" using so n by auto
  have empty: "hm_cells hash eq (2 ^ Suc l) (replicate (2 ^ Suc l) (HASH_MAP_EMPTY :: ('k, 'v) hm_entry))"
    by (simp add: hm_cells_def)
  have "\<exists>new'. hm_rehash eq (2 ^ Suc l) (hm_entries m) (replicate (2 ^ Suc l) HASH_MAP_EMPTY) = Some new' \<and>
      length new' = 2 ^ Suc l \<and> hm_cells hash eq (2 ^ Suc l) new' \<and>
      length (filter hm_is_live new') =
        length (filter hm_is_live (replicate (2 ^ Suc l) (HASH_MAP_EMPTY :: ('k, 'v) hm_entry))) +
        length (filter hm_is_live (hm_entries m)) \<and>
      length (filter (\<lambda>e. e \<noteq> HASH_MAP_EMPTY) new') = length (filter hm_is_live new') \<and>
      (\<forall>k v. (k, v) \<in> set (hm_live_pairs new') \<longleftrightarrow>
             (k, v) \<in> set (hm_live_pairs (replicate (2 ^ Suc l) HASH_MAP_EMPTY)) \<or>
             (k, v) \<in> set (hm_live_pairs (hm_entries m)))"
    by (rule rehash_ok [OF _ empty]) (use inv cells_sorted [OF inv(1,5)] room l in auto)
  then obtain new' where new':
      "hm_rehash eq (2 ^ Suc l) (hm_entries m) (replicate (2 ^ Suc l) HASH_MAP_EMPTY) = Some new'"
      "length new' = 2 ^ Suc l" "hm_cells hash eq (2 ^ Suc l) new'"
      "length (filter hm_is_live new') = length (filter hm_is_live (hm_entries m))"
      "length (filter (\<lambda>e. e \<noteq> HASH_MAP_EMPTY) new') = length (filter hm_is_live new')"
      "\<And>k v. (k, v) \<in> set (hm_live_pairs new') \<longleftrightarrow> (k, v) \<in> set (hm_live_pairs (hm_entries m))"
    by (auto simp: set_hm_live_pairs)
  let ?m = "m\<lparr>hm_entries := new', hm_capacity := 2 ^ Suc l, hm_occupied := hm_size m\<rparr>"
  have res: "hm_resize eq m = Some ?m"
    using new'(1) l by (simp add: hm_resize_def Let_def)
  have inv': "hm_inv hash eq ?m"
    using new' inv room l unfolding hm_inv_def by auto
  have "\<forall>key. hm_abs eq ?m key = hm_abs eq m key"
    using abs_from_pairs [OF inv(1,5), of ?m] new' by (simp add: hm_for_each_def)
  with res inv' room l show ?thesis by (intro exI [of _ ?m]) auto
qed

lemma inv_probe:
  assumes "hm_inv hash eq m"
  shows "\<exists>i < hm_capacity m. hm_probe eq (hm_entries m) (hm_capacity m) key (hash key) = Some i \<and>
           hm_reaches (hm_entries m) (hm_capacity m) (hash key) i \<and>
           ((\<exists>k v. hm_entries m ! i = HASH_MAP_LIVE k (hash k) v \<and> eq key k \<and> hm_abs eq m key = Some v) \<or>
            \<not> hm_is_live (hm_entries m ! i) \<and> hm_abs eq m key = None)"
proof -
  obtain n where n: "hm_capacity m = 2 ^ Suc n" using assms by (auto simp: hm_inv_def)
  have inv: "length (hm_entries m) = 2 ^ Suc n" "hm_cells hash eq (2 ^ Suc n) (hm_entries m)"
    "length (filter (\<lambda>e. e \<noteq> HASH_MAP_EMPTY) (hm_entries m)) < length (hm_entries m)"
    using assms by (auto simp: hm_inv_def n)
  obtain j where j: "j < 2 ^ Suc n" "hm_entries m ! j = HASH_MAP_EMPTY"
    using length_filter_less_witness [OF inv(3)] inv(1) by auto
  obtain i where i: "i < 2 ^ Suc n" "hm_probe eq (hm_entries m) (2 ^ Suc n) key (hash key) = Some i"
      "hm_reaches (hm_entries m) (2 ^ Suc n) (hash key) i"
      "(\<exists>k v. hm_entries m ! i = HASH_MAP_LIVE k (hash k) v \<and> eq key k) \<or>
       \<not> hm_is_live (hm_entries m ! i) \<and>
       (\<forall>i' < 2 ^ Suc n. \<forall>k h v. hm_entries m ! i' = HASH_MAP_LIVE k h v \<longrightarrow> \<not> eq key k)"
    using probe_map [OF inv(1,2) j, of key] by blast
  have "hm_abs eq m key = Some v" if "hm_entries m ! i = HASH_MAP_LIVE k (hash k) v" "eq key k" for k v
    using that i(1) inv by (subst abs_Some_iff) (auto simp: n)
  moreover have "hm_abs eq m key = None"
    if "\<forall>i' < 2 ^ Suc n. \<forall>k h v. hm_entries m ! i' = HASH_MAP_LIVE k h v \<longrightarrow> \<not> eq key k"
    using that inv by (simp add: hm_abs_None_iff)
  ultimately show ?thesis using i unfolding n by blast
qed

lemma lookup_ok:
  assumes "hm_inv hash eq m"
  shows "\<exists>p. hm_lookup hash eq m key = Some p \<and> map_option (hm_value m) p = hm_abs eq m key"
  using inv_probe [OF assms, of key]
  by (auto simp: hm_lookup_def hm_value_def)

lemma store_ok:
  assumes inv: "hm_inv hash eq m" and i: "i < hm_capacity m"
    and r: "hm_reaches (hm_entries m) (hm_capacity m) (hash key) i"
    and dead: "\<not> hm_is_live (hm_entries m ! i)" and none: "hm_abs eq m key = None"
    and room: "2 * hm_occupied m < hm_capacity m"
    and m': "m' = m\<lparr>hm_occupied := hm_occupied m + (if hm_entries m ! i = HASH_MAP_EMPTY then 1 else 0),
                   hm_entries := (hm_entries m)[i := HASH_MAP_LIVE key (hash key) val],
                   hm_size := hm_size m + 1\<rparr>"
  shows "hm_inv hash eq m' \<and> (\<forall>k. hm_abs eq m' k = (if eq k key then Some val else hm_abs eq m k))"
proof -
  let ?e = "HASH_MAP_LIVE key (hash key) val"
  have len: "length (hm_entries m) = hm_capacity m" and cells: "hm_cells hash eq (hm_capacity m) (hm_entries m)"
    using inv by (auto simp: hm_inv_def)
  have absent: "\<forall>i' < hm_capacity m. \<forall>k h v. hm_entries m ! i' = HASH_MAP_LIVE k h v \<longrightarrow> \<not> eq key k"
    using none len by (simp add: hm_abs_None_iff)
  have cells': "hm_cells hash eq (hm_capacity m) ((hm_entries m)[i := ?e])"
    by (rule cells_store [OF len cells i r absent])
  have "length (filter hm_is_live ((hm_entries m)[i := ?e])) = Suc (length (filter hm_is_live (hm_entries m)))"
    using length_filter_update [of i "hm_entries m" hm_is_live ?e] i len dead by simp
  moreover have "length (filter (\<lambda>e. e \<noteq> HASH_MAP_EMPTY) ((hm_entries m)[i := ?e])) =
      length (filter (\<lambda>e. e \<noteq> HASH_MAP_EMPTY) (hm_entries m)) +
      (if hm_entries m ! i = HASH_MAP_EMPTY then 1 else 0)"
    using length_filter_update [of i "hm_entries m" "\<lambda>e. e \<noteq> HASH_MAP_EMPTY" ?e] i len by auto
  moreover have "hm_occupied m + 1 < hm_capacity m"
  proof -
    obtain n where "hm_capacity m = 2 ^ Suc n" using inv by (auto simp: hm_inv_def)
    then have "even (hm_capacity m)" "2 \<le> hm_capacity m" by auto
    then show ?thesis using room by presburger
  qed
  ultimately have inv': "hm_inv hash eq m'"
    using inv cells' unfolding m' hm_inv_def by auto
  have len': "length (hm_entries m') = hm_capacity m'" and c': "hm_cells hash eq (hm_capacity m') (hm_entries m')"
    using inv' by (auto simp: hm_inv_def)
  have "hm_abs eq m' k = Some v \<longleftrightarrow> (if eq k key then Some val else hm_abs eq m k) = Some v" for k v
  proof -
    have "hm_abs eq m' k = Some v \<longleftrightarrow> eq k key \<and> v = val \<or>
        (\<exists>j < hm_capacity m. j \<noteq> i \<and> (\<exists>k' h. hm_entries m ! j = HASH_MAP_LIVE k' h v \<and> eq k k'))"
      unfolding abs_Some_iff [OF len' c'] using i len by (auto simp: m' nth_list_update; metis)
    also have "\<dots> \<longleftrightarrow> eq k key \<and> v = val \<or> hm_abs eq m k = Some v"
      unfolding abs_Some_iff [OF len cells] using dead by (metis hm_is_live.simps(1))
    also have "\<dots> \<longleftrightarrow> (if eq k key then Some val else hm_abs eq m k) = Some v"
    proof -
      have "hm_abs eq m k = None" if "eq k key"
      proof (rule ccontr)
        assume "hm_abs eq m k \<noteq> None"
        then obtain v' where "hm_abs eq m k = Some v'" by auto
        then obtain i' k' h where "i' < hm_capacity m" "hm_entries m ! i' = HASH_MAP_LIVE k' h v'" "eq k k'"
          using hm_abs_SomeD len by metis
        then show False using absent eq_trans [OF eq_sym [OF that]] by blast
      qed
      then show ?thesis by auto
    qed
    finally show ?thesis .
  qed
  then have "hm_abs eq m' k = (if eq k key then Some val else hm_abs eq m k)" for k
    by (metis not_Some_eq)
  with inv' show ?thesis by blast
qed

lemma insert_ok:
  assumes "hm_inv hash eq m"
  shows "\<exists>m' p. hm_insert hash eq m key val = Some (m', p) \<and> hm_inv hash eq m' \<and>
           (p = None \<longleftrightarrow> hm_abs eq m key \<noteq> None) \<and>
           (\<forall>i. p = Some i \<longrightarrow> hm_value m' i = val) \<and>
           (\<forall>k. hm_abs eq m' k = (if hm_abs eq m key = None \<and> eq k key then Some val else hm_abs eq m k))"
proof -
  obtain m1 where m1: "(if 2 * hm_occupied m \<ge> hm_capacity m then hm_resize eq m else Some m) = Some m1"
      "hm_inv hash eq m1" "\<And>k. hm_abs eq m1 k = hm_abs eq m k" "2 * hm_occupied m1 < hm_capacity m1"
    using resize_ok [OF assms] assms by (cases "2 * hm_occupied m \<ge> hm_capacity m") auto
  obtain i where i: "i < hm_capacity m1"
      "hm_probe eq (hm_entries m1) (hm_capacity m1) key (hash key) = Some i"
      "hm_reaches (hm_entries m1) (hm_capacity m1) (hash key) i"
      "(\<exists>k v. hm_entries m1 ! i = HASH_MAP_LIVE k (hash k) v \<and> eq key k \<and> hm_abs eq m1 key = Some v) \<or>
       \<not> hm_is_live (hm_entries m1 ! i) \<and> hm_abs eq m1 key = None"
    using inv_probe [OF m1(2), of key] by blast
  show ?thesis
  proof (cases "hm_is_live (hm_entries m1 ! i)")
    case True
    then obtain k v where "hm_entries m1 ! i = HASH_MAP_LIVE k (hash k) v" "hm_abs eq m key = Some v"
      using i(4) m1(3) by auto
    then show ?thesis using m1 i(2) by (auto simp: hm_insert_def)
  next
    case False
    define m' where "m' = m1\<lparr>hm_occupied := hm_occupied m1 + (if hm_entries m1 ! i = HASH_MAP_EMPTY then 1 else 0),
                   hm_entries := (hm_entries m1)[i := HASH_MAP_LIVE key (hash key) val],
                   hm_size := hm_size m1 + 1\<rparr>"
    have none: "hm_abs eq m1 key = None" using False i(4) by auto
    have ok: "hm_inv hash eq m' \<and> (\<forall>k. hm_abs eq m' k = (if eq k key then Some val else hm_abs eq m1 k))"
      by (rule store_ok [OF m1(2) i(1,3) False none m1(4) m'_def])
    have len: "length (hm_entries m1) = hm_capacity m1" using m1(2) by (simp add: hm_inv_def)
    have "hm_insert hash eq m key val = Some (m', Some i)"
      using False m1(1) i(2) by (cases "hm_entries m1 ! i") (auto simp: hm_insert_def m'_def)
    moreover have "hm_value m' i = val" using i(1) len by (simp add: m'_def hm_value_def)
    ultimately show ?thesis using ok none m1(3) by auto
  qed
qed


lemma delete_ok:
  assumes inv: "hm_inv hash eq m"
  shows "\<exists>m' b. hm_delete hash eq m key = Some (m', b) \<and> hm_inv hash eq m' \<and>
           (b \<longleftrightarrow> hm_abs eq m key \<noteq> None) \<and>
           (\<forall>k. hm_abs eq m' k = (if eq k key then None else hm_abs eq m k))"
proof -
  have len: "length (hm_entries m) = hm_capacity m" and cells: "hm_cells hash eq (hm_capacity m) (hm_entries m)"
    and size: "hm_size m = length (filter hm_is_live (hm_entries m))"
    using inv by (auto simp: hm_inv_def)
  obtain i where i: "i < hm_capacity m"
      "hm_probe eq (hm_entries m) (hm_capacity m) key (hash key) = Some i"
      "(\<exists>k v. hm_entries m ! i = HASH_MAP_LIVE k (hash k) v \<and> eq key k \<and> hm_abs eq m key = Some v) \<or>
       \<not> hm_is_live (hm_entries m ! i) \<and> hm_abs eq m key = None"
    using inv_probe [OF inv, of key] by blast
  have absent: "hm_abs eq m k = None" if "eq k key" "hm_abs eq m key = None" for k
  proof (rule ccontr)
    assume "hm_abs eq m k \<noteq> None"
    then obtain v' where "hm_abs eq m k = Some v'" by auto
    then obtain j k' h where "j < length (hm_entries m)" "hm_entries m ! j = HASH_MAP_LIVE k' h v'" "eq k k'"
      using hm_abs_SomeD by metis
    then show False using that(2) eq_trans [OF eq_sym [OF that(1)]] unfolding hm_abs_None_iff by blast
  qed
  show ?thesis
  proof (cases "hm_is_live (hm_entries m ! i)")
    case False
    then have none: "hm_abs eq m key = None" using i(3) by auto
    have "hm_delete hash eq m key = Some (m, False)" using False i(2) by (simp add: hm_delete_def)
    then show ?thesis using inv none absent by auto
  next
    case True
    then obtain k v where kv: "hm_entries m ! i = HASH_MAP_LIVE k (hash k) v" "eq key k"
        "hm_abs eq m key = Some v" using i(3) by auto
    let ?e = "HASH_MAP_DEAD k (hash k) v"
    let ?m = "m\<lparr>hm_entries := (hm_entries m)[i := ?e], hm_size := hm_size m - 1\<rparr>"
    have pos: "0 < hm_size m"
      using kv(1) i(1) len size by (metis True length_greater_0_conv filter_empty_conv nth_mem)
    have del: "hm_delete hash eq m key = Some (?m, True)"
      using True i(2) kv(1) pos by (simp add: hm_delete_def)
    have cells': "hm_cells hash eq (hm_capacity m) ((hm_entries m)[i := ?e])"
      using cells len i(1) unfolding hm_cells_def
      by (auto simp: nth_list_update reaches_update)
    have "length (filter hm_is_live ((hm_entries m)[i := ?e])) + 1 = length (filter hm_is_live (hm_entries m))"
      using length_filter_update [of i "hm_entries m" hm_is_live ?e] i len kv by simp
    moreover have "length (filter (\<lambda>e. e \<noteq> HASH_MAP_EMPTY) ((hm_entries m)[i := ?e])) =
        length (filter (\<lambda>e. e \<noteq> HASH_MAP_EMPTY) (hm_entries m))"
      using length_filter_update [of i "hm_entries m" "\<lambda>e. e \<noteq> HASH_MAP_EMPTY" ?e] i len kv by auto
    ultimately have inv': "hm_inv hash eq ?m"
      using inv cells' pos size unfolding hm_inv_def by auto
    have len': "length (hm_entries ?m) = hm_capacity ?m" and c': "hm_cells hash eq (hm_capacity ?m) (hm_entries ?m)"
      using len cells' by auto
    have "hm_abs eq ?m q = Some w \<longleftrightarrow> (if eq q key then None else hm_abs eq m q) = Some w" for q w
    proof -
      have "hm_abs eq ?m q = Some w \<longleftrightarrow>
          (\<exists>j < hm_capacity m. j \<noteq> i \<and> (\<exists>k' h. hm_entries m ! j = HASH_MAP_LIVE k' h w \<and> eq q k'))"
        unfolding abs_Some_iff [OF len' c'] using i len by (auto simp: nth_list_update)
      also have "\<dots> \<longleftrightarrow> \<not> eq q key \<and> hm_abs eq m q = Some w"
      proof
        assume "\<exists>j < hm_capacity m. j \<noteq> i \<and> (\<exists>k' h. hm_entries m ! j = HASH_MAP_LIVE k' h w \<and> eq q k')"
        then obtain j k' h where j: "j < hm_capacity m" "j \<noteq> i" "hm_entries m ! j = HASH_MAP_LIVE k' h w" "eq q k'"
          by auto
        have "\<not> eq q key"
        proof
          assume "eq q key"
          then have "eq k' k" using j(4) kv(2) eq_sym eq_trans by metis
          then show False using cells j kv(1) i(1) by (auto simp: hm_cells_def)
        qed
        then show "\<not> eq q key \<and> hm_abs eq m q = Some w" using j unfolding abs_Some_iff [OF len cells] by blast
      next
        assume a: "\<not> eq q key \<and> hm_abs eq m q = Some w"
        then obtain j k' h where j: "j < hm_capacity m" "hm_entries m ! j = HASH_MAP_LIVE k' h w" "eq q k'"
          unfolding abs_Some_iff [OF len cells] by blast
        have "j \<noteq> i" using a j kv eq_sym eq_trans by (metis hm_entry.inject(1))
        with j show "\<exists>j < hm_capacity m. j \<noteq> i \<and> (\<exists>k' h. hm_entries m ! j = HASH_MAP_LIVE k' h w \<and> eq q k')"
          by blast
      qed
      finally show ?thesis by auto
    qed
    then have "hm_abs eq ?m q = (if eq q key then None else hm_abs eq m q)" for q
      by (metis not_Some_eq)
    then show ?thesis using del inv' kv(3) by (intro exI [of _ ?m] exI [of _ True]) auto
  qed
qed

lemma init_ok:
  "\<exists>m. hm_init (2 ^ Suc n) = Some m \<and> hm_inv hash eq m \<and> (\<forall>k. hm_abs eq m k = None)"
proof -
  have "(2 ^ Suc n :: nat) AND (2 ^ Suc n - 1) = 0" by (simp add: nat_and_pow2_Suc flip: power_Suc)
  then show ?thesis
    by (auto simp: hm_init_def hm_inv_def hm_cells_def hm_abs_None_iff)
qed

end

text \<open>The bound of the assertion is too weak: a map of capacity one fills up, and looking for
  another key in it never returns.\<close>

lemma hm_probe_at_full:
  assumes "hm_probe_at eq entries capacity key hash idx tomb = Some r"
  shows "entries = [HASH_MAP_LIVE k h v] \<Longrightarrow> capacity = 1 \<Longrightarrow> idx = 0 \<Longrightarrow> \<not> eq key k \<Longrightarrow> False"
proof (rule hm_probe_at.raw_induct [where P = "\<lambda>eq entries capacity key hash idx tomb r.
    entries = [HASH_MAP_LIVE k h v] \<longrightarrow> capacity = 1 \<longrightarrow> idx = 0 \<longrightarrow> \<not> eq key k \<longrightarrow> False", OF _ assms, rule_format], goal_cases)
  case (1 f eq entries capacity key hash idx tomb y)
  then show ?case by (auto split: if_splits)
qed auto

section \<open>The maps the compiler instantiates\<close>

text \<open>Strings are compared by content and hashed by \<open>hash_dj2b_cstr\<close>; val ids by their number
  times Knuth's constant, in \<^verbatim>\<open>size_t\<close> arithmetic.\<close>

definition mir_state_map_hash :: "nat \<Rightarrow> nat" where
  "mir_state_map_hash key = unat ((of_nat key :: size_t) * 2654435761)"

interpretation string_map: hash_key hash_dj2b_cstr "(=)"
  by unfold_locales auto

interpretation mir_state_map: hash_key mir_state_map_hash "(=)"
  by unfold_locales auto

text \<open>C1: an insertion into a string map whose invariant holds always returns; it keeps the
  invariant, answers NULL exactly when the key was already there, and the map it leaves names the
  new value under the new key and what it named before under every other key.\<close>

theorem string_map_insert_refines:
  assumes "hm_inv hash_dj2b_cstr (=) m"
  shows "\<exists>m' p. hm_insert hash_dj2b_cstr (=) m key val = Some (m', p) \<and>
           hm_inv hash_dj2b_cstr (=) m' \<and>
           (p = None \<longleftrightarrow> hm_abs (=) m key \<noteq> None) \<and>
           hm_abs (=) m' =
             (if hm_abs (=) m key = None then (hm_abs (=) m)(key \<mapsto> val) else hm_abs (=) m)"
proof -
  obtain m' p where "hm_insert hash_dj2b_cstr (=) m key val = Some (m', p)"
      "hm_inv hash_dj2b_cstr (=) m'" "p = None \<longleftrightarrow> hm_abs (=) m key \<noteq> None"
      "\<forall>k. hm_abs (=) m' k =
         (if hm_abs (=) m key = None \<and> k = key then Some val else hm_abs (=) m k)"
    using string_map.insert_ok [OF assms, of key val] by blast
  then show ?thesis by (intro exI [of _ m'] exI [of _ p]) (auto simp: fun_eq_iff)
qed

theorem string_map_insert_refines_witness:
  "\<exists>m. hm_init 128 = Some m \<and> hm_inv hash_dj2b_cstr (=) (m :: (string, nat) hash_map) \<and>
     (\<exists>m' p. hm_insert hash_dj2b_cstr (=) m ''main'' 7 = Some (m', p) \<and>
        hm_abs (=) m' ''main'' = Some 7)"
proof -
  obtain m :: "(string, nat) hash_map" where m: "hm_init (2 ^ Suc 6) = Some m"
      "hm_inv hash_dj2b_cstr (=) m" "\<forall>k. hm_abs (=) m k = None"
    using string_map.init_ok [of 6] by blast
  show ?thesis using m string_map_insert_refines [OF m(2), of "''main''" 7] by fastforce
qed

text \<open>C2: a lookup in a string map whose invariant holds always returns, and what it points to is
  what the abstract map names.\<close>

theorem string_map_lookup_refines:
  assumes "hm_inv hash_dj2b_cstr (=) m"
  shows "\<exists>p. hm_lookup hash_dj2b_cstr (=) m key = Some p \<and>
             map_option (hm_value m) p = hm_abs (=) m key"
  by (rule string_map.lookup_ok [OF assms])

theorem string_map_lookup_refines_witness:
  "\<exists>m. hm_init 128 = Some m \<and>
     hm_lookup hash_dj2b_cstr (=) (m :: (string, nat) hash_map) ''main'' = Some None"
proof -
  obtain m :: "(string, nat) hash_map" where m: "hm_init (2 ^ Suc 6) = Some m"
      "hm_inv hash_dj2b_cstr (=) m" "\<forall>k. hm_abs (=) m k = None"
    using string_map.init_ok [of 6] by blast
  show ?thesis using m string_map_lookup_refines [OF m(2), of "''main''"] by fastforce
qed

text \<open>C3: deletion from a map keyed by value ids always returns; it keeps the invariant, answers
  whether the key was there, and leaves a map that names nothing under the key and what it named
  before under every other.\<close>

theorem mir_state_map_delete_refines:
  assumes "hm_inv mir_state_map_hash (=) m"
  shows "\<exists>m' b. hm_delete mir_state_map_hash (=) m key = Some (m', b) \<and>
           hm_inv mir_state_map_hash (=) m' \<and> (b \<longleftrightarrow> hm_abs (=) m key \<noteq> None) \<and>
           hm_abs (=) m' = (hm_abs (=) m)(key := None)"
proof -
  obtain m' b where "hm_delete mir_state_map_hash (=) m key = Some (m', b)"
      "hm_inv mir_state_map_hash (=) m'" "b \<longleftrightarrow> hm_abs (=) m key \<noteq> None"
      "\<forall>k. hm_abs (=) m' k = (if k = key then None else hm_abs (=) m k)"
    using mir_state_map.delete_ok [OF assms, of key] by blast
  then show ?thesis by (intro exI [of _ m'] exI [of _ b]) (auto simp: fun_eq_iff)
qed

theorem mir_state_map_delete_refines_witness:
  "\<exists>m. hm_init 16 = Some m \<and>
     (\<exists>m'. hm_delete mir_state_map_hash (=) (m :: (nat, nat) hash_map) 3 = Some (m', False))"
proof -
  obtain m :: "(nat, nat) hash_map" where m: "hm_init (2 ^ Suc 3) = Some m"
      "hm_inv mir_state_map_hash (=) m" "\<forall>k. hm_abs (=) m k = None"
    using mir_state_map.init_ok [of 3] by blast
  show ?thesis using m mir_state_map_delete_refines [OF m(2), of 3] by fastforce
qed

text \<open>The assertion of \<open>hm_init\<close> admits a capacity of one, but a map of that capacity fills up
  with its first key and a lookup of any other key probes for ever.\<close>

theorem hash_map_of_capacity_one_diverges:
  "\<exists>m m'. hm_init 1 = Some m \<and>
     hm_insert mir_state_map_hash (=) m (0 :: nat) (5 :: nat) = Some (m', Some 0) \<and>
     (\<forall>k. hm_lookup mir_state_map_hash (=) m' (Suc k) = None)"
proof -
  let ?m = "\<lparr>hm_entries = [HASH_MAP_EMPTY], hm_capacity = 1, hm_size = 0, hm_occupied = 0\<rparr> ::
            (nat, nat) hash_map"
  let ?m' = "\<lparr>hm_entries = [HASH_MAP_LIVE 0 0 5], hm_capacity = 1, hm_size = 1, hm_occupied = 1\<rparr> ::
            (nat, nat) hash_map"
  have 1: "hm_init 1 = Some ?m" by (simp add: hm_init_def)
  have 2: "hm_insert mir_state_map_hash (=) ?m 0 5 = Some (?m', Some 0)"
    by (simp add: hm_insert_def hm_probe_def hm_probe_at.simps mir_state_map_hash_def)
  have 3: "hm_lookup mir_state_map_hash (=) ?m' k = None" if "k \<noteq> 0" for k
  proof (cases "hm_probe (=) [HASH_MAP_LIVE 0 0 (5::nat)] 1 k (mir_state_map_hash k)")
    case None
    then show ?thesis by (simp add: hm_lookup_def)
  next
    case (Some r)
    then have "hm_probe_at (=) [HASH_MAP_LIVE 0 0 (5::nat)] 1 k (mir_state_map_hash k) 0 None = Some r"
      by (simp add: hm_probe_def)
    then show ?thesis using hm_probe_at_full [OF _ refl refl refl] that by fastforce
  qed
  from 1 2 3 show ?thesis by blast
qed

end
