(* ===== verification/String_Pool.thy ===== *)
theory String_Pool
  imports Hash_Map
begin

text \<open>
  Borrowed text and interned strings: \<^verbatim>\<open>src/string/string_ref.c\<close>, \<^verbatim>\<open>src/string/string.c\<close>
  and \<^verbatim>\<open>src/string/string_pool.h\<close>.  A \<^verbatim>\<open>StringRef\<close> is the bytes it spans.  A \<^verbatim>\<open>String *\<close> is
  the index of the string object in the order the arena allocated them; an object never changes
  once it is made.  The rest of the compiler compares strings by pointer, and
  \<open>interned_pointers_are_contents\<close> is what lets the other theories write that comparison as
  equality of contents.
\<close>

section \<open>Borrowed text\<close>

definition NUL :: char where
  "NUL = CHR 0x00"

fun strlen :: "string \<Rightarrow> nat" where
  "strlen [] = 0"
| "strlen (c # cs) = (if c = NUL then 0 else Suc (strlen cs))"

text \<open>\<open>strncmp\<close> reads a NUL past the end of either text and stops at a common one.\<close>

fun strncmp_equal :: "string \<Rightarrow> string \<Rightarrow> nat \<Rightarrow> bool" where
  "strncmp_equal a b 0 = True"
| "strncmp_equal (x # a) (y # b) (Suc n) = (x = y \<and> (x = NUL \<or> strncmp_equal a b n))"
| "strncmp_equal [] (y # b) (Suc n) = (y = NUL)"
| "strncmp_equal (x # a) [] (Suc n) = (x = NUL)"
| "strncmp_equal [] [] (Suc n) = True"

definition string_ref_create :: "string \<Rightarrow> string" where
  "string_ref_create data = take (strlen data) data"

definition string_ref_equals_cstr :: "string \<Rightarrow> string \<Rightarrow> bool" where
  "string_ref_equals_cstr ref cstr \<longleftrightarrow> strlen cstr = length ref \<and> strncmp_equal ref cstr (length ref)"

definition string_ref_equals :: "string \<Rightarrow> string \<Rightarrow> bool" where
  "string_ref_equals ref other \<longleftrightarrow> length ref = length other \<and> ref = other"

definition nul_free :: "string \<Rightarrow> bool" where
  "nul_free s \<longleftrightarrow> NUL \<notin> set s"

lemma strlen_nul_free: "nul_free s \<Longrightarrow> strlen s = length s"
  by (induction s) (auto simp: nul_free_def)

lemma strncmp_equal_nul_free:
  "nul_free b \<Longrightarrow> length a = length b \<Longrightarrow> strncmp_equal a b (length a) \<longleftrightarrow> a = b"
proof (induction a arbitrary: b)
  case Nil
  then show ?case by simp
next
  case (Cons x a)
  then show ?case by (cases b) (auto simp: nul_free_def)
qed

lemma string_ref_equals_cstr_iff: "nul_free cstr \<Longrightarrow> string_ref_equals_cstr ref cstr \<longleftrightarrow> ref = cstr"
  by (auto simp: string_ref_equals_cstr_def strlen_nul_free strncmp_equal_nul_free)

section \<open>The pool\<close>

record string_pool =
  sp_map :: "(string, nat) hash_map"
  sp_strings :: "string list"

definition STRING_POOL_INITIAL_CAPACITY :: nat where
  "STRING_POOL_INITIAL_CAPACITY = 128"

definition string_pool_init :: "string_pool option" where
  "string_pool_init =
     do { m \<leftarrow> hm_init STRING_POOL_INITIAL_CAPACITY; Some \<lparr>sp_map = m, sp_strings = []\<rparr> }"

text \<open>The value stored is the new object's address; the insertion's result is dereferenced, so a
  NULL there would be a fault (\<open>None\<close>).\<close>

definition string_from_cstr_len :: "string_pool \<Rightarrow> string \<Rightarrow> (nat \<times> string_pool) option" where
  "string_from_cstr_len pool str =
     do { saved \<leftarrow> hm_lookup hash_dj2b_cstr (=) (sp_map pool) str;
          (case saved of
             Some i \<Rightarrow> Some (hm_value (sp_map pool) i, pool)
           | None \<Rightarrow>
               do { (m, p) \<leftarrow> hm_insert hash_dj2b_cstr (=) (sp_map pool) str (length (sp_strings pool));
                    i \<leftarrow> p;
                    Some (hm_value m i, pool\<lparr>sp_map := m, sp_strings := sp_strings pool @ [str]\<rparr>) }) }"

definition string_from_cstr :: "string_pool \<Rightarrow> string \<Rightarrow> (nat \<times> string_pool) option" where
  "string_from_cstr pool cstr = string_from_cstr_len pool (take (strlen cstr) cstr)"

definition string_from_ref :: "string_pool \<Rightarrow> string \<Rightarrow> (nat \<times> string_pool) option" where
  "string_from_ref pool ref = string_from_cstr_len pool ref"

text \<open>The pool's invariant: its map is sound, and it names exactly the objects there are.\<close>

definition pool_inv :: "string_pool \<Rightarrow> bool" where
  "pool_inv pool \<longleftrightarrow> hm_inv hash_dj2b_cstr (=) (sp_map pool) \<and>
     (\<forall>k a. hm_abs (=) (sp_map pool) k = Some a \<longleftrightarrow>
            a < length (sp_strings pool) \<and> sp_strings pool ! a = k)"

lemma string_pool_init_inv: "\<exists>pool. string_pool_init = Some pool \<and> pool_inv pool \<and> sp_strings pool = []"
proof -
  obtain m :: "(string, nat) hash_map" where "hm_init (2 ^ Suc 6) = Some m"
      "hm_inv hash_dj2b_cstr (=) m" "\<forall>k. hm_abs (=) m k = None"
    using string_map.init_ok [of 6] by blast
  then show ?thesis
    by (auto simp: string_pool_init_def STRING_POOL_INITIAL_CAPACITY_def pool_inv_def)
qed

lemma string_from_cstr_len_ok:
  assumes inv: "pool_inv pool"
  shows "\<exists>a pool'. string_from_cstr_len pool str = Some (a, pool') \<and> pool_inv pool' \<and>
           a < length (sp_strings pool') \<and> sp_strings pool' ! a = str \<and>
           (\<exists>newer. sp_strings pool' = sp_strings pool @ newer)"
proof -
  have map: "hm_inv hash_dj2b_cstr (=) (sp_map pool)"
    and names: "\<And>k a. hm_abs (=) (sp_map pool) k = Some a \<longleftrightarrow>
            a < length (sp_strings pool) \<and> sp_strings pool ! a = k"
    using inv by (auto simp: pool_inv_def)
  obtain p where p: "hm_lookup hash_dj2b_cstr (=) (sp_map pool) str = Some p"
      "map_option (hm_value (sp_map pool)) p = hm_abs (=) (sp_map pool) str"
    using string_map.lookup_ok [OF map, of str] by blast
  show ?thesis
  proof (cases p)
    case (Some i)
    then have "hm_abs (=) (sp_map pool) str = Some (hm_value (sp_map pool) i)" using p(2) by simp
    then show ?thesis using p(1) Some inv names
      by (auto simp: string_from_cstr_len_def intro: exI [of _ "[]"])
  next
    case None
    then have none: "hm_abs (=) (sp_map pool) str = None" using p(2) by simp
    let ?n = "length (sp_strings pool)"
    obtain m q where ins: "hm_insert hash_dj2b_cstr (=) (sp_map pool) str ?n = Some (m, q)"
        "hm_inv hash_dj2b_cstr (=) m" "q \<noteq> None" "\<forall>i. q = Some i \<longrightarrow> hm_value m i = ?n"
        "\<forall>k. hm_abs (=) m k = (if k = str then Some ?n else hm_abs (=) (sp_map pool) k)"
      using string_map.insert_ok [OF map, of str ?n] none by auto
    let ?pool = "pool\<lparr>sp_map := m, sp_strings := sp_strings pool @ [str]\<rparr>"
    have "string_from_cstr_len pool str = Some (?n, ?pool)"
      using p(1) None ins by (auto simp: string_from_cstr_len_def)
    moreover have "pool_inv ?pool"
    proof -
      have "hm_abs (=) m k = Some a \<longleftrightarrow> a < Suc ?n \<and> (sp_strings pool @ [str]) ! a = k" for k a
        using ins(5) names [of k a] names [of str a] none
        by (auto simp: nth_append less_Suc_eq)
      then show ?thesis using ins(2) by (simp add: pool_inv_def)
    qed
    ultimately show ?thesis by (auto intro!: exI [of _ ?n] exI [of _ ?pool])
  qed
qed

text \<open>Interning a list of texts one after the other.\<close>

fun intern_all :: "string_pool \<Rightarrow> string list \<Rightarrow> (nat list \<times> string_pool) option" where
  "intern_all pool [] = Some ([], pool)"
| "intern_all pool (t # ts) =
     do { (a, pool') \<leftarrow> string_from_ref pool t;
          (as, pool'') \<leftarrow> intern_all pool' ts;
          Some (a # as, pool'') }"

lemma intern_all_ok:
  assumes "pool_inv pool"
  shows "\<exists>as pool'. intern_all pool ts = Some (as, pool') \<and> pool_inv pool' \<and>
           (\<exists>newer. sp_strings pool' = sp_strings pool @ newer) \<and> length as = length ts \<and>
           (\<forall>i < length ts. as ! i < length (sp_strings pool') \<and> sp_strings pool' ! (as ! i) = ts ! i)"
  using assms
proof (induction ts arbitrary: pool)
  case Nil
  then show ?case by simp
next
  case (Cons t ts)
  obtain a pool1 where 1: "string_from_cstr_len pool t = Some (a, pool1)" "pool_inv pool1"
      "a < length (sp_strings pool1)" "sp_strings pool1 ! a = t"
      "\<exists>newer. sp_strings pool1 = sp_strings pool @ newer"
    using string_from_cstr_len_ok [OF Cons.prems, of t] by blast
  obtain as pool2 where 2: "intern_all pool1 ts = Some (as, pool2)" "pool_inv pool2"
      "\<exists>newer. sp_strings pool2 = sp_strings pool1 @ newer" "length as = length ts"
      "\<forall>i < length ts. as ! i < length (sp_strings pool2) \<and> sp_strings pool2 ! (as ! i) = ts ! i"
    using Cons.IH [OF 1(2)] by blast
  have "a < length (sp_strings pool2)" "sp_strings pool2 ! a = t"
    using 1(3,4) 2(3) by (auto simp: nth_append)
  then show ?case using 1 2
    by (auto simp: string_from_ref_def nth_Cons split: nat.split)
qed

section \<open>Properties\<close>

text \<open>C15: interning any list of texts in a sound pool returns a pointer for each; two of the
  pointers are equal exactly when their texts are, each pointer's object holds its text, and the
  pool is left sound.  So a comparison of interned pointers is a comparison of contents.\<close>

theorem interned_pointers_are_contents:
  assumes "pool_inv pool"
  shows "\<exists>as pool'. intern_all pool ts = Some (as, pool') \<and> pool_inv pool' \<and>
           (\<forall>i < length ts. sp_strings pool' ! (as ! i) = ts ! i) \<and>
           (\<forall>i < length ts. \<forall>j < length ts. as ! i = as ! j \<longleftrightarrow> ts ! i = ts ! j)"
proof -
  obtain as pool' where *: "intern_all pool ts = Some (as, pool')" "pool_inv pool'"
      "\<forall>i < length ts. as ! i < length (sp_strings pool') \<and> sp_strings pool' ! (as ! i) = ts ! i"
    using intern_all_ok [OF assms, of ts] by blast
  have "as ! i = as ! j \<longleftrightarrow> ts ! i = ts ! j" if "i < length ts" "j < length ts" for i j
  proof -
    have "hm_abs (=) (sp_map pool') (ts ! i) = Some (as ! i)"
      "hm_abs (=) (sp_map pool') (ts ! j) = Some (as ! j)"
      using * that by (auto simp: pool_inv_def)
    then show ?thesis using * that by (metis option.inject)
  qed
  with * show ?thesis by blast
qed

theorem interned_pointers_are_contents_witness:
  "\<exists>pool as pool'. string_pool_init = Some pool \<and>
     intern_all pool [''a'', ''b'', ''a''] = Some (as, pool') \<and> as ! 0 = as ! 2 \<and> as ! 0 \<noteq> as ! 1"
proof -
  obtain pool where pool: "string_pool_init = Some pool" "pool_inv pool"
    using string_pool_init_inv by blast
  obtain as pool' where "intern_all pool [''a'', ''b'', ''a''] = Some (as, pool')"
      "\<forall>i < 3. \<forall>j < 3. as ! i = as ! j \<longleftrightarrow> [''a'', ''b'', ''a''] ! i = [''a'', ''b'', ''a''] ! j"
    using interned_pointers_are_contents [OF pool(2), of "[''a'', ''b'', ''a'']"] by auto
  then show ?thesis using pool(1) by (auto intro!: exI [of _ pool])
qed

end
