(* ===== verification/Float32.thy ===== *)
theory Float32
  imports Prelude "HOL-Library.Char_ord"
begin

text \<open>
  C's \<^verbatim>\<open>float\<close> as the compiler uses it: the lexer reads one with \<^verbatim>\<open>strtof\<close>, the folder computes with
  \<^verbatim>\<open>+ - * /\<close> and unary minus, and constants are compared with \<^verbatim>\<open>==\<close>.  A value is its binary32
  representation, a 32-bit word; operations round to nearest, ties to even, as the hardware's
  default mode does.  Every NaN result is the default quiet NaN (payloads are not specified by C and
  nothing under \<^verbatim>\<open>src/\<close> looks at them).
\<close>

unbundle bit_operations_syntax

type_synonym float32 = "32 word"

section \<open>Representation\<close>

definition f32_negative :: "float32 \<Rightarrow> bool" where
  "f32_negative x \<longleftrightarrow> bit x 31"

definition f32_field :: "float32 \<Rightarrow> nat" where
  "f32_field x = unat (drop_bit 23 x AND 255)"

definition f32_fraction :: "float32 \<Rightarrow> nat" where
  "f32_fraction x = unat (x AND 8388607)"

definition f32_is_nan :: "float32 \<Rightarrow> bool" where
  "f32_is_nan x \<longleftrightarrow> f32_field x = 255 \<and> f32_fraction x \<noteq> 0"

definition f32_is_inf :: "float32 \<Rightarrow> bool" where
  "f32_is_inf x \<longleftrightarrow> f32_field x = 255 \<and> f32_fraction x = 0"

definition f32_is_zero :: "float32 \<Rightarrow> bool" where
  "f32_is_zero x \<longleftrightarrow> f32_field x = 0 \<and> f32_fraction x = 0"

text \<open>A finite value is its significand times two to its exponent.\<close>

definition f32_significand :: "float32 \<Rightarrow> nat" where
  "f32_significand x = (if f32_field x = 0 then f32_fraction x else f32_fraction x + 8388608)"

definition f32_exponent :: "float32 \<Rightarrow> int" where
  "f32_exponent x = (if f32_field x = 0 then - 149 else int (f32_field x) - 150)"

definition f32_nan :: float32 where "f32_nan = 0x7FC00000"
definition f32_inf :: float32 where "f32_inf = 0x7F800000"

definition f32_neg :: "float32 \<Rightarrow> float32" where
  "f32_neg x = x XOR 0x80000000"

definition f32_sign :: "bool \<Rightarrow> float32 \<Rightarrow> float32" where
  "f32_sign s x = (if s then f32_neg x else x)"

section \<open>Rounding\<close>

fun bit_count :: "nat \<Rightarrow> nat" where
  "bit_count n = (if n = 0 then 0 else Suc (bit_count (n div 2)))"

declare bit_count.simps [simp del]

definition round_half_even :: "nat \<Rightarrow> nat \<Rightarrow> nat" where
  "round_half_even a b =
     (let q = a div b; r = a mod b in if b < 2 * r \<or> 2 * r = b \<and> odd q then q + 1 else q)"

text \<open>\<open>n * 2 ^ k\<close> and \<open>d * 2 ^ - k\<close> as a fraction of naturals.\<close>

definition scale_frac :: "nat \<Rightarrow> nat \<Rightarrow> int \<Rightarrow> nat \<times> nat" where
  "scale_frac n d k = (if 0 \<le> k then (n * 2 ^ nat k, d) else (n, d * 2 ^ nat (- k)))"

definition floor_log2_frac :: "nat \<Rightarrow> nat \<Rightarrow> int" where
  "floor_log2_frac n d =
     (let k = int (bit_count n) - int (bit_count d); (a, b) = scale_frac n d (- k)
      in if b \<le> a then k else k - 1)"

definition f32_of_frac :: "bool \<Rightarrow> nat \<Rightarrow> nat \<Rightarrow> float32" where
  "f32_of_frac s n d =
     (if n = 0 then f32_sign s 0
      else let e = max (floor_log2_frac n d - 23) (- 149);
               (a, b) = scale_frac n d (- e);
               bits = nat (e + 149) * 8388608 + round_half_even a b
           in f32_sign s (if bits < 255 * 8388608 then of_nat bits else f32_inf))"

section \<open>Arithmetic\<close>

definition f32_signed :: "float32 \<Rightarrow> int" where
  "f32_signed x = (if f32_negative x then - int (f32_significand x) else int (f32_significand x))"

definition f32_add :: "float32 \<Rightarrow> float32 \<Rightarrow> float32" where
  "f32_add x y =
     (if f32_is_nan x \<or> f32_is_nan y then f32_nan
      else if f32_is_inf x then
        (if f32_is_inf y \<and> f32_negative x \<noteq> f32_negative y then f32_nan else x)
      else if f32_is_inf y then y
      else let e = min (f32_exponent x) (f32_exponent y);
               v = f32_signed x * 2 ^ nat (f32_exponent x - e) + f32_signed y * 2 ^ nat (f32_exponent y - e);
               (a, b) = scale_frac (nat \<bar>v\<bar>) 1 e
           in if v = 0 then f32_sign (f32_negative x \<and> f32_negative y) 0 else f32_of_frac (v < 0) a b)"

definition f32_sub :: "float32 \<Rightarrow> float32 \<Rightarrow> float32" where
  "f32_sub x y = (if f32_is_nan y then f32_nan else f32_add x (f32_neg y))"

definition f32_mul :: "float32 \<Rightarrow> float32 \<Rightarrow> float32" where
  "f32_mul x y =
     (let s = (f32_negative x \<noteq> f32_negative y) in
      if f32_is_nan x \<or> f32_is_nan y then f32_nan
      else if f32_is_inf x \<or> f32_is_inf y then
        (if f32_is_zero x \<or> f32_is_zero y then f32_nan else f32_sign s f32_inf)
      else let (a, b) = scale_frac (f32_significand x * f32_significand y) 1 (f32_exponent x + f32_exponent y)
           in f32_of_frac s a b)"

definition f32_div :: "float32 \<Rightarrow> float32 \<Rightarrow> float32" where
  "f32_div x y =
     (let s = (f32_negative x \<noteq> f32_negative y) in
      if f32_is_nan x \<or> f32_is_nan y then f32_nan
      else if f32_is_inf x then (if f32_is_inf y then f32_nan else f32_sign s f32_inf)
      else if f32_is_inf y then f32_sign s 0
      else if f32_is_zero y then (if f32_is_zero x then f32_nan else f32_sign s f32_inf)
      else let (a, b) = scale_frac (f32_significand x) (f32_significand y) (f32_exponent x - f32_exponent y)
           in f32_of_frac s a b)"

section \<open>Comparison\<close>

definition f32_eq :: "float32 \<Rightarrow> float32 \<Rightarrow> bool" where
  "f32_eq x y \<longleftrightarrow> \<not> f32_is_nan x \<and> \<not> f32_is_nan y \<and> (x = y \<or> f32_is_zero x \<and> f32_is_zero y)"

text \<open>The order key of a value that is not a NaN: its magnitude's bits, with the sign.\<close>

definition f32_key :: "float32 \<Rightarrow> int" where
  "f32_key x = (let m = int (unat (x AND 0x7FFFFFFF)) in if f32_negative x then - m else m)"

definition f32_less :: "float32 \<Rightarrow> float32 \<Rightarrow> bool" where
  "f32_less x y \<longleftrightarrow> \<not> f32_is_nan x \<and> \<not> f32_is_nan y \<and> f32_key x < f32_key y"

definition f32_le :: "float32 \<Rightarrow> float32 \<Rightarrow> bool" where
  "f32_le x y \<longleftrightarrow> \<not> f32_is_nan x \<and> \<not> f32_is_nan y \<and> f32_key x \<le> f32_key y"

lemma f32_eq_sym: "f32_eq x y = f32_eq y x"
  by (auto simp: f32_eq_def)

lemma f32_zeros_equal: "f32_eq 0 0x80000000 \<and> (0 :: float32) \<noteq> 0x80000000"
  by code_simp

section \<open>Decimal text\<close>

definition is_digit :: "char \<Rightarrow> bool" where
  "is_digit c \<longleftrightarrow> CHR ''0'' \<le> c \<and> c \<le> CHR ''9''"

definition digit_value :: "char \<Rightarrow> nat" where
  "digit_value c = of_char c - 48"

fun digits_value :: "nat \<Rightarrow> string \<Rightarrow> nat" where
  "digits_value acc [] = acc"
| "digits_value acc (c # cs) = digits_value (10 * acc + digit_value c) cs"

text \<open>The exponent part: \<^verbatim>\<open>e\<close> or \<^verbatim>\<open>E\<close>, an optional sign, at least one digit; anything else is not
  part of the number.\<close>

definition decimal_exponent :: "string \<Rightarrow> int" where
  "decimal_exponent cs =
     (case cs of
        [] \<Rightarrow> 0
      | c # r \<Rightarrow>
          if c = CHR ''e'' \<or> c = CHR ''E'' then
            let neg = (r \<noteq> [] \<and> hd r = CHR ''-'');
                ds = takeWhile is_digit (if r \<noteq> [] \<and> (hd r = CHR ''-'' \<or> hd r = CHR ''+'') then tl r else r)
            in if ds = [] then 0 else (if neg then - int (digits_value 0 ds) else int (digits_value 0 ds))
          else 0)"

text \<open>\<^verbatim>\<open>strtof\<close> on a text that starts with a digit or with a point and a digit.\<close>

definition strtof :: "string \<Rightarrow> float32" where
  "strtof cs =
     (let ip = takeWhile is_digit cs;
          r = dropWhile is_digit cs;
          point = (r \<noteq> [] \<and> hd r = CHR ''.'');
          fp = (if point then takeWhile is_digit (tl r) else []);
          r2 = (if point then dropWhile is_digit (tl r) else r);
          n = digits_value 0 (ip @ fp);
          e = decimal_exponent r2 - int (length fp)
      in if 0 \<le> e then f32_of_frac False (n * 10 ^ nat e) 1 else f32_of_frac False n (10 ^ nat (- e)))"

text \<open>\<^verbatim>\<open>strtoll\<close> in base ten on a text that starts with a digit: the value, or \<open>None\<close> for \<^verbatim>\<open>ERANGE\<close>.\<close>

definition strtoll10 :: "string \<Rightarrow> int option" where
  "strtoll10 cs =
     (let n = digits_value 0 (takeWhile is_digit cs) in if n < 2 ^ 63 then Some (int n) else None)"

lemmas f32_eval = f32_negative_def f32_field_def f32_fraction_def f32_is_nan_def f32_is_inf_def
  f32_is_zero_def f32_significand_def f32_exponent_def f32_nan_def f32_inf_def f32_neg_def f32_sign_def
  round_half_even_def scale_frac_def floor_log2_frac_def f32_of_frac_def f32_signed_def f32_key_def
  bit_count.simps

lemmas strto_eval = strtof_def strtoll10_def is_digit_def digit_value_def decimal_exponent_def Let_def

lemma strtof_example: "strtof ''1.5'' = 0x3FC00000"
  by (simp add: strto_eval f32_eval)

lemma f32_add_example: "f32_add 0x3FC00000 0x3E800000 = 0x3FE00000"
  by (simp add: f32_add_def f32_eval)

lemma f32_mul_example: "f32_mul 0x3DCCCCCD 0x3DCCCCCD = 0x3C23D70B"
  by (simp add: f32_mul_def f32_eval)

lemma f32_div_examples: "f32_div 0x3F800000 0x40400000 = 0x3EAAAAAB" "f32_is_nan (f32_div 0 0)"
  by (simp_all add: f32_div_def f32_eval)

end
