(* ===== verification/Diagnostics.thy ===== *)
theory Diagnostics
  imports Prelude "HOL-Library.Char_ord"
begin

text \<open>
  The diagnostics of \<^verbatim>\<open>src/diagnostics.c\<close>: an append-only list of messages with a kind and a source
  span.  A call site's format string and arguments appear here already formatted.  \<open>int\<close> line and
  column numbers are naturals: they start at one and only grow, and a source of less than
  \<open>2 ^ 31\<close> characters keeps them in range.
\<close>

datatype diag_kind =
  GAB_ERR_SYNTAX | GAB_ERR_TYPE | GAB_ERR_NAME | GAB_ERR_CODEGEN | GAB_ERR_LIFETIME

record span =
  sp_line :: nat
  sp_column :: nat

record diagnostic =
  dg_kind :: diag_kind
  dg_span :: span
  dg_message :: string

record diagnostics =
  ds_module :: "string option"
  ds_items :: "diagnostic list"

definition diagnostics_init :: "string option \<Rightarrow> diagnostics" where
  "diagnostics_init module = \<lparr>ds_module = module, ds_items = []\<rparr>"

definition diag_error :: "diagnostics \<Rightarrow> diag_kind \<Rightarrow> span \<Rightarrow> string \<Rightarrow> diagnostics" where
  "diag_error ds kind sp message =
     ds\<lparr>ds_items := ds_items ds @ [\<lparr>dg_kind = kind, dg_span = sp, dg_message = message\<rparr>]\<rparr>"

definition diagnostics_has_errors :: "diagnostics \<Rightarrow> bool" where
  "diagnostics_has_errors ds \<longleftrightarrow> 0 < length (ds_items ds)"

definition diagnostics_count :: "diagnostics \<Rightarrow> nat" where
  "diagnostics_count ds = length (ds_items ds)"

definition diagnostics_get :: "diagnostics \<Rightarrow> nat \<Rightarrow> diagnostic option" where
  "diagnostics_get ds index = (if index \<ge> length (ds_items ds) then None else Some (ds_items ds ! index))"

fun diag_kind_name :: "diag_kind \<Rightarrow> string" where
  "diag_kind_name GAB_ERR_SYNTAX = ''syntax error''"
| "diag_kind_name GAB_ERR_TYPE = ''type error''"
| "diag_kind_name GAB_ERR_NAME = ''name error''"
| "diag_kind_name GAB_ERR_CODEGEN = ''codegen error''"
| "diag_kind_name GAB_ERR_LIFETIME = ''lifetime error''"

section \<open>Printing\<close>

text \<open>\<^verbatim>\<open>%d\<close> and \<^verbatim>\<open>%u\<close> on a natural number.\<close>

fun show_nat :: "nat \<Rightarrow> string" where
  "show_nat n = (if n < 10 then [char_of (48 + n)] else show_nat (n div 10) @ [char_of (48 + n mod 10)])"

declare show_nat.simps [simp del]

definition diagnostic_line :: "string \<Rightarrow> diagnostic \<Rightarrow> string" where
  "diagnostic_line module d =
     module @ '':'' @ show_nat (sp_line (dg_span d)) @ '':'' @ show_nat (sp_column (dg_span d)) @ '': '' @
     diag_kind_name (dg_kind d) @ '': '' @ dg_message d @ [CHR 0x0A]"

definition diagnostics_print :: "diagnostics \<Rightarrow> string" where
  "diagnostics_print ds =
     (let module = (case ds_module ds of Some m \<Rightarrow> m | None \<Rightarrow> ''<script>'')
      in concat (map (diagnostic_line module) (ds_items ds)))"

section \<open>Facts\<close>

lemma diag_error_count [simp]:
  "diagnostics_count (diag_error ds k s m) = Suc (diagnostics_count ds)"
  by (simp add: diag_error_def diagnostics_count_def)

lemma diag_error_items [simp]:
  "ds_items (diag_error ds k s m) = ds_items ds @ [\<lparr>dg_kind = k, dg_span = s, dg_message = m\<rparr>]"
  by (simp add: diag_error_def)

lemma diag_error_has_errors [simp]: "diagnostics_has_errors (diag_error ds k s m)"
  by (simp add: diagnostics_has_errors_def)

lemma show_nat_not_empty [simp]: "show_nat n \<noteq> []"
  by (subst show_nat.simps) simp

end
