(* ===== verification/Lexer.thy ===== *)
theory Lexer
  imports String_Pool Float32 Diagnostics
begin

text \<open>
  The lexer: \<^verbatim>\<open>src/syntax/lexer.h\<close> and \<^verbatim>\<open>src/syntax/lexer.c\<close>.  The source is a C string: \<open>src_at\<close>
  reads its terminator past the end of the list.  The character classes are those of the C locale,
  where a byte above 127 is in none of them.  A pointer into the source is the position it stands
  for, and a \<^verbatim>\<open>StringRef\<close> the text it spans.  \<open>None\<close> is a call that faults or does not return.
\<close>

section \<open>Tokens\<close>

datatype token_type =
  TOKEN_INVALID | TOKEN_EOF | TOKEN_INT | TOKEN_FLOAT | TOKEN_STRING
| TOKEN_PLUS | TOKEN_MINUS | TOKEN_MUL | TOKEN_DIV | TOKEN_MOD | TOKEN_ASSIGN | TOKEN_PLUS_EQ
| TOKEN_MINUS_EQ | TOKEN_MUL_EQ | TOKEN_DIV_EQ | TOKEN_MOD_EQ | TOKEN_NOT | TOKEN_LESS
| TOKEN_GREATER | TOKEN_EQUAL | TOKEN_NEQUAL | TOKEN_LEQUAL | TOKEN_GEQUAL | TOKEN_AND | TOKEN_AMP
| TOKEN_OR
| TOKEN_LPAREN | TOKEN_RPAREN | TOKEN_LBRACE | TOKEN_RBRACE | TOKEN_LBRACKET | TOKEN_RBRACKET
| TOKEN_SEMICOLON | TOKEN_COLON | TOKEN_COLON_COLON | TOKEN_COMMA | TOKEN_DOT | TOKEN_DOT_DOT
| TOKEN_LET | TOKEN_FUNC | TOKEN_EXTERN | TOKEN_INTRINSIC | TOKEN_CALLER | TOKEN_BUILTIN
| TOKEN_STRUCT | TOKEN_IMPL | TOKEN_INTERFACE | TOKEN_AS | TOKEN_MODULE | TOKEN_IMPORT
| TOKEN_RETURN | TOKEN_IF | TOKEN_ELSE | TOKEN_FOR | TOKEN_BREAK | TOKEN_CONTINUE | TOKEN_TRUE
| TOKEN_FALSE | TOKEN_IDENT

text \<open>The union, by the member the code stores; the zero bytes of an unset one are integer zero.\<close>

datatype token_value = As_int int64_t | As_float float32 | As_string nat

record token =
  tok_type :: token_type
  tok_lexeme :: string
  tok_value :: token_value
  tok_line :: nat
  tok_column :: nat

record lexer =
  lx_source :: string
  lx_pos :: nat
  lx_line :: nat
  lx_column :: nat
  lx_start_line :: nat
  lx_start_column :: nat
  lx_diagnostics :: diagnostics
  lx_strings :: string_pool
  lx_scratch :: string
  lx_scratch_capacity :: nat

primrec token_description :: "token_type \<Rightarrow> string" where
  "token_description TOKEN_INVALID = ''invalid token''"
| "token_description TOKEN_EOF = ''end of input''"
| "token_description TOKEN_INT = ''an integer literal''"
| "token_description TOKEN_FLOAT = ''a float literal''"
| "token_description TOKEN_STRING = ''a string literal''"
| "token_description TOKEN_IDENT = ''an identifier''"
| "token_description TOKEN_PLUS = [CHR 0x27] @ ''+'' @ [CHR 0x27]"
| "token_description TOKEN_MINUS = [CHR 0x27] @ ''-'' @ [CHR 0x27]"
| "token_description TOKEN_MUL = [CHR 0x27] @ ''*'' @ [CHR 0x27]"
| "token_description TOKEN_DIV = [CHR 0x27] @ ''/'' @ [CHR 0x27]"
| "token_description TOKEN_MOD = [CHR 0x27] @ ''%'' @ [CHR 0x27]"
| "token_description TOKEN_ASSIGN = [CHR 0x27] @ ''='' @ [CHR 0x27]"
| "token_description TOKEN_PLUS_EQ = [CHR 0x27] @ ''+='' @ [CHR 0x27]"
| "token_description TOKEN_MINUS_EQ = [CHR 0x27] @ ''-='' @ [CHR 0x27]"
| "token_description TOKEN_MUL_EQ = [CHR 0x27] @ ''*='' @ [CHR 0x27]"
| "token_description TOKEN_DIV_EQ = [CHR 0x27] @ ''/='' @ [CHR 0x27]"
| "token_description TOKEN_MOD_EQ = [CHR 0x27] @ ''%='' @ [CHR 0x27]"
| "token_description TOKEN_NOT = [CHR 0x27] @ ''!'' @ [CHR 0x27]"
| "token_description TOKEN_LESS = [CHR 0x27] @ ''<'' @ [CHR 0x27]"
| "token_description TOKEN_GREATER = [CHR 0x27] @ ''>'' @ [CHR 0x27]"
| "token_description TOKEN_EQUAL = [CHR 0x27] @ ''=='' @ [CHR 0x27]"
| "token_description TOKEN_NEQUAL = [CHR 0x27] @ ''!='' @ [CHR 0x27]"
| "token_description TOKEN_LEQUAL = [CHR 0x27] @ ''<='' @ [CHR 0x27]"
| "token_description TOKEN_GEQUAL = [CHR 0x27] @ ''>='' @ [CHR 0x27]"
| "token_description TOKEN_AND = [CHR 0x27] @ ''&&'' @ [CHR 0x27]"
| "token_description TOKEN_AMP = [CHR 0x27] @ ''&'' @ [CHR 0x27]"
| "token_description TOKEN_OR = [CHR 0x27] @ ''||'' @ [CHR 0x27]"
| "token_description TOKEN_LPAREN = [CHR 0x27] @ ''('' @ [CHR 0x27]"
| "token_description TOKEN_RPAREN = [CHR 0x27] @ '')'' @ [CHR 0x27]"
| "token_description TOKEN_LBRACE = [CHR 0x27] @ ''{'' @ [CHR 0x27]"
| "token_description TOKEN_RBRACE = [CHR 0x27] @ ''}'' @ [CHR 0x27]"
| "token_description TOKEN_LBRACKET = [CHR 0x27] @ ''['' @ [CHR 0x27]"
| "token_description TOKEN_RBRACKET = [CHR 0x27] @ '']'' @ [CHR 0x27]"
| "token_description TOKEN_SEMICOLON = [CHR 0x27] @ '';'' @ [CHR 0x27]"
| "token_description TOKEN_COLON = [CHR 0x27] @ '':'' @ [CHR 0x27]"
| "token_description TOKEN_COLON_COLON = [CHR 0x27] @ ''::'' @ [CHR 0x27]"
| "token_description TOKEN_COMMA = [CHR 0x27] @ '','' @ [CHR 0x27]"
| "token_description TOKEN_DOT = [CHR 0x27] @ ''.'' @ [CHR 0x27]"
| "token_description TOKEN_DOT_DOT = [CHR 0x27] @ ''..'' @ [CHR 0x27]"
| "token_description TOKEN_LET = [CHR 0x27] @ ''let'' @ [CHR 0x27]"
| "token_description TOKEN_FUNC = [CHR 0x27] @ ''func'' @ [CHR 0x27]"
| "token_description TOKEN_EXTERN = [CHR 0x27] @ ''extern'' @ [CHR 0x27]"
| "token_description TOKEN_INTRINSIC = [CHR 0x27] @ ''intrinsic'' @ [CHR 0x27]"
| "token_description TOKEN_CALLER = [CHR 0x27] @ ''caller'' @ [CHR 0x27]"
| "token_description TOKEN_BUILTIN = ''a builtin''"
| "token_description TOKEN_STRUCT = [CHR 0x27] @ ''struct'' @ [CHR 0x27]"
| "token_description TOKEN_IMPL = [CHR 0x27] @ ''impl'' @ [CHR 0x27]"
| "token_description TOKEN_INTERFACE = [CHR 0x27] @ ''interface'' @ [CHR 0x27]"
| "token_description TOKEN_AS = [CHR 0x27] @ ''as'' @ [CHR 0x27]"
| "token_description TOKEN_MODULE = [CHR 0x27] @ ''module'' @ [CHR 0x27]"
| "token_description TOKEN_IMPORT = [CHR 0x27] @ ''import'' @ [CHR 0x27]"
| "token_description TOKEN_RETURN = [CHR 0x27] @ ''return'' @ [CHR 0x27]"
| "token_description TOKEN_IF = [CHR 0x27] @ ''if'' @ [CHR 0x27]"
| "token_description TOKEN_ELSE = [CHR 0x27] @ ''else'' @ [CHR 0x27]"
| "token_description TOKEN_FOR = [CHR 0x27] @ ''for'' @ [CHR 0x27]"
| "token_description TOKEN_BREAK = [CHR 0x27] @ ''break'' @ [CHR 0x27]"
| "token_description TOKEN_CONTINUE = [CHR 0x27] @ ''continue'' @ [CHR 0x27]"
| "token_description TOKEN_TRUE = [CHR 0x27] @ ''true'' @ [CHR 0x27]"
| "token_description TOKEN_FALSE = [CHR 0x27] @ ''false'' @ [CHR 0x27]"

section \<open>Reading characters\<close>

definition src_at :: "string \<Rightarrow> nat \<Rightarrow> char" where
  "src_at s i = (if i < length s then s ! i else NUL)"

definition lexer_peek :: "lexer \<Rightarrow> char" where
  "lexer_peek lx = src_at (lx_source lx) (lx_pos lx)"

text \<open>\<^verbatim>\<open>lexer->source[lexer->pos + 1]\<close>.\<close>

definition lexer_peek2 :: "lexer \<Rightarrow> char" where
  "lexer_peek2 lx = src_at (lx_source lx) (lx_pos lx + 1)"

definition lexer_eat :: "lexer \<Rightarrow> lexer" where
  "lexer_eat lx =
     (if lexer_peek lx = CHR 0x0A
      then lx\<lparr>lx_line := lx_line lx + 1, lx_column := 1, lx_pos := lx_pos lx + 1\<rparr>
      else lx\<lparr>lx_column := lx_column lx + 1, lx_pos := lx_pos lx + 1\<rparr>)"

definition is_space :: "char \<Rightarrow> bool" where
  "is_space c \<longleftrightarrow> c = CHR '' '' \<or> CHR 0x09 \<le> c \<and> c \<le> CHR 0x0D"

definition is_alpha :: "char \<Rightarrow> bool" where
  "is_alpha c \<longleftrightarrow> CHR ''A'' \<le> c \<and> c \<le> CHR ''Z'' \<or> CHR ''a'' \<le> c \<and> c \<le> CHR ''z''"

definition is_ident_char :: "char \<Rightarrow> bool" where
  "is_ident_char c \<longleftrightarrow> is_alpha c \<or> is_digit c \<or> c = CHR ''_''"

lemma src_at_not_NUL: "src_at s i \<noteq> NUL \<Longrightarrow> i < length s"
  by (auto simp: src_at_def split: if_splits)

lemma lexer_eat_simps [simp]:
  "lx_source (lexer_eat lx) = lx_source lx" "lx_pos (lexer_eat lx) = Suc (lx_pos lx)"
  "lx_start_line (lexer_eat lx) = lx_start_line lx" "lx_start_column (lexer_eat lx) = lx_start_column lx"
  "lx_diagnostics (lexer_eat lx) = lx_diagnostics lx" "lx_strings (lexer_eat lx) = lx_strings lx"
  "lx_scratch (lexer_eat lx) = lx_scratch lx"
  "lx_scratch_capacity (lexer_eat lx) = lx_scratch_capacity lx"
  by (simp_all add: lexer_eat_def)

text \<open>The loops \<^verbatim>\<open>while (P(lexer_peek(lexer))) lexer_eat(lexer);\<close>.  Every \<open>P\<close> used is false of the
  terminator, where the loop stops.\<close>

function lexer_eat_while :: "(char \<Rightarrow> bool) \<Rightarrow> lexer \<Rightarrow> lexer" where
  "lexer_eat_while P lx =
     (if lexer_peek lx \<noteq> NUL \<and> P (lexer_peek lx) then lexer_eat_while P (lexer_eat lx) else lx)"
  by auto
termination
  by (relation "measure (\<lambda>(P, lx). length (lx_source lx) - lx_pos lx)")
    (auto simp: lexer_peek_def dest!: src_at_not_NUL)

declare lexer_eat_while.simps [simp del]

lemma lexer_eat_while_unfold:
  "\<not> P NUL \<Longrightarrow> lexer_eat_while P lx = (if P (lexer_peek lx) then lexer_eat_while P (lexer_eat lx) else lx)"
  by (subst lexer_eat_while.simps) auto

section \<open>Token construction\<close>

definition token_create :: "lexer \<Rightarrow> token_type \<Rightarrow> token" where
  "token_create lx type =
     \<lparr>tok_type = type, tok_lexeme = [], tok_value = As_int 0, tok_line = lx_start_line lx,
      tok_column = lx_start_column lx\<rparr>"

definition token_create_value :: "lexer \<Rightarrow> token_type \<Rightarrow> token_value \<Rightarrow> token" where
  "token_create_value lx type val =
     \<lparr>tok_type = type, tok_lexeme = [], tok_value = val, tok_line = lx_start_line lx,
      tok_column = lx_start_column lx\<rparr>"

definition token_create_ref :: "lexer \<Rightarrow> token_type \<Rightarrow> string \<Rightarrow> token" where
  "token_create_ref lx type ref =
     \<lparr>tok_type = type, tok_lexeme = ref, tok_value = As_int 0, tok_line = lx_start_line lx,
      tok_column = lx_start_column lx\<rparr>"

definition token_span :: "token \<Rightarrow> span" where
  "token_span t = \<lparr>sp_line = tok_line t, sp_column = tok_column t\<rparr>"

definition lexer_error :: "lexer \<Rightarrow> diag_kind \<Rightarrow> span \<Rightarrow> string \<Rightarrow> lexer" where
  "lexer_error lx kind at message =
     lx\<lparr>lx_diagnostics := diag_error (lx_diagnostics lx) kind at message\<rparr>"

section \<open>Numbers\<close>

definition lexer_number :: "lexer \<Rightarrow> token \<times> lexer" where
  "lexer_number lx =
     (let opened = \<lparr>sp_line = lx_start_line lx, sp_column = lx_start_column lx\<rparr>;
          start = drop (lx_pos lx) (lx_source lx);
          lx1 = lexer_eat_while is_digit lx
      in if lexer_peek lx1 = CHR ''.'' \<and> lexer_peek2 lx1 \<noteq> CHR ''.'' then
           let lx2 = lexer_eat_while is_digit (lexer_eat lx1)
           in (token_create_value lx2 TOKEN_FLOAT (As_float (strtof start)), lx2)
         else
           (case strtoll10 start of
              None \<Rightarrow>
                let lx2 = lexer_error lx1 GAB_ERR_TYPE opened ''integer literal is out of range''
                in (token_create lx2 TOKEN_INVALID, lx2)
            | Some n \<Rightarrow> (token_create_value lx1 TOKEN_INT (As_int (of_int n)), lx1)))"

section \<open>Strings\<close>

text \<open>The growth loop doubles a positive capacity until it is enough.\<close>

function double_capacity :: "nat \<Rightarrow> nat \<Rightarrow> nat" where
  "double_capacity capacity needed =
     (if 0 < capacity \<and> capacity < needed then double_capacity (2 * capacity) needed else capacity)"
  by auto
termination
  by (relation "measure (\<lambda>(c, n). n - c)") auto

declare double_capacity.simps [simp del]

text \<open>The grown buffer starts with the old one; the bytes after it are not read before they are
  written.  The arena never returns NULL, so the call never fails.\<close>

definition lexer_reserve :: "lexer \<Rightarrow> nat \<Rightarrow> lexer" where
  "lexer_reserve lx needed =
     (if needed \<le> lx_scratch_capacity lx then lx
      else let capacity = double_capacity (if lx_scratch_capacity lx \<noteq> 0 then lx_scratch_capacity lx else 32) needed
           in lx\<lparr>lx_scratch := lx_scratch lx @ replicate (capacity - lx_scratch_capacity lx) NUL,
                 lx_scratch_capacity := capacity\<rparr>)"

definition escape_value :: "char \<Rightarrow> char option" where
  "escape_value c =
     (if c = CHR ''n'' then Some (CHR 0x0A)
      else if c = CHR ''t'' then Some (CHR 0x09)
      else if c = CHR ''0'' then Some NUL
      else if c = CHR 0x5C then Some (CHR 0x5C)
      else if c = CHR 0x22 then Some (CHR 0x22)
      else None)"

lemma lexer_reserve_simps [simp]:
  "lx_source (lexer_reserve lx n) = lx_source lx" "lx_pos (lexer_reserve lx n) = lx_pos lx"
  "lx_start_line (lexer_reserve lx n) = lx_start_line lx"
  "lx_start_column (lexer_reserve lx n) = lx_start_column lx"
  "lx_line (lexer_reserve lx n) = lx_line lx" "lx_column (lexer_reserve lx n) = lx_column lx"
  "lx_diagnostics (lexer_reserve lx n) = lx_diagnostics lx" "lx_strings (lexer_reserve lx n) = lx_strings lx"
  by (simp_all add: lexer_reserve_def Let_def)

text \<open>One character of the literal's contents: the token of an error, or the character's value with
  the lexer standing on the last source character it was spelled with.\<close>

definition lexer_string_char :: "lexer \<Rightarrow> span \<Rightarrow> (token \<times> lexer) + (char \<times> lexer)" where
  "lexer_string_char lx opened =
     (let c = lexer_peek lx in
      if c = NUL \<or> c = CHR 0x0A then
        let lx' = lexer_error lx GAB_ERR_SYNTAX opened ''unterminated string literal''
        in Inl (token_create lx' TOKEN_INVALID, lx')
      else if c = CHR 0x5C then
        let at = \<lparr>sp_line = lx_line lx, sp_column = lx_column lx\<rparr>; lx1 = lexer_eat lx
        in (case escape_value (lexer_peek lx1) of
              None \<Rightarrow>
                let lx' = lexer_error lx1 GAB_ERR_SYNTAX at
                            (''unknown escape sequence '' @ [CHR 0x27, CHR 0x5C, lexer_peek lx1, CHR 0x27])
                in Inl (token_create lx' TOKEN_INVALID, lx')
            | Some v \<Rightarrow> Inr (v, lx1))
      else Inr (c, lx))"

lemma escape_value_NUL [simp]: "escape_value NUL = None"
  by (simp add: escape_value_def NUL_def)

lemma lexer_string_char_advances:
  "lexer_string_char lx opened = Inr (c, lx') \<Longrightarrow>
     lx_source lx' = lx_source lx \<and> lx_pos lx \<le> lx_pos lx' \<and> lx_pos lx' < length (lx_source lx)"
  by (auto simp: lexer_string_char_def Let_def lexer_peek_def split: if_splits option.splits
      dest!: src_at_not_NUL) (metis escape_value_NUL option.distinct(1) src_at_not_NUL)

function lexer_string_loop :: "lexer \<Rightarrow> span \<Rightarrow> nat \<Rightarrow> (token \<times> lexer) + (nat \<times> lexer)" where
  "lexer_string_loop lx opened len =
     (if lexer_peek lx = CHR 0x22 then Inr (len, lx)
      else case lexer_string_char lx opened of
             Inl e \<Rightarrow> Inl e
           | Inr (c, lx1) \<Rightarrow>
               let lx2 = lexer_reserve lx1 (len + 1);
                   lx3 = lx2\<lparr>lx_scratch := (lx_scratch lx2)[len := c]\<rparr>
               in lexer_string_loop (lexer_eat lx3) opened (len + 1))"
  by auto
termination
  by (relation "measure (\<lambda>(lx, opened, len). length (lx_source lx) - lx_pos lx)")
    (auto simp: Let_def dest!: lexer_string_char_advances)

declare lexer_string_loop.simps [simp del]

definition lexer_string :: "lexer \<Rightarrow> (token \<times> lexer) option" where
  "lexer_string lx =
     (let opened = \<lparr>sp_line = lx_start_line lx, sp_column = lx_start_column lx\<rparr>
      in case lexer_string_loop (lexer_eat lx) opened 0 of
           Inl e \<Rightarrow> Some e
         | Inr (len, lx1) \<Rightarrow>
             let lx2 = lexer_eat lx1 in
             do { (str, pool) \<leftarrow> string_from_ref (lx_strings lx2) (take len (lx_scratch lx2));
                  let lx3 = lx2\<lparr>lx_strings := pool\<rparr> in
                  Some (token_create_value lx3 TOKEN_STRING (As_string str), lx3) })"

section \<open>Identifiers and operators\<close>

text \<open>The comparisons of \<^verbatim>\<open>lexer_identifier\<close>, in the order it makes them.\<close>

definition keyword_table :: "(string \<times> token_type) list" where
  "keyword_table =
     [(''let'', TOKEN_LET), (''if'', TOKEN_IF), (''else'', TOKEN_ELSE), (''for'', TOKEN_FOR),
      (''break'', TOKEN_BREAK), (''continue'', TOKEN_CONTINUE), (''func'', TOKEN_FUNC),
      (''struct'', TOKEN_STRUCT), (''impl'', TOKEN_IMPL), (''interface'', TOKEN_INTERFACE),
      (''as'', TOKEN_AS), (''extern'', TOKEN_EXTERN), (''intrinsic'', TOKEN_INTRINSIC),
      (''caller'', TOKEN_CALLER), (''module'', TOKEN_MODULE), (''import'', TOKEN_IMPORT),
      (''return'', TOKEN_RETURN), (''true'', TOKEN_TRUE), (''false'', TOKEN_FALSE)]"

definition lexer_identifier :: "lexer \<Rightarrow> token \<times> lexer" where
  "lexer_identifier lx =
     (let lx1 = lexer_eat_while is_ident_char lx;
          ref = take (lx_pos lx1 - lx_pos lx) (drop (lx_pos lx) (lx_source lx))
      in case find (\<lambda>(keyword, type). string_ref_equals_cstr ref keyword) keyword_table of
           Some (keyword, type) \<Rightarrow> (token_create_ref lx1 type ref, lx1)
         | None \<Rightarrow> (token_create_ref lx1 TOKEN_IDENT ref, lx1))"

definition lexer_create :: "string \<Rightarrow> string_pool \<Rightarrow> diagnostics \<Rightarrow> lexer" where
  "lexer_create source strings diags =
     \<lparr>lx_source = source, lx_pos = 0, lx_line = 1, lx_column = 1, lx_start_line = 1,
      lx_start_column = 1, lx_diagnostics = diags, lx_strings = strings, lx_scratch = [],
      lx_scratch_capacity = 0\<rparr>"

definition lexer_invalid :: "lexer \<Rightarrow> char \<Rightarrow> token \<times> lexer" where
  "lexer_invalid lx c =
     (let t = token_create lx TOKEN_INVALID
      in (t, lexer_error lx GAB_ERR_SYNTAX (token_span t)
               (''unexpected character '' @ [CHR 0x27, c, CHR 0x27])))"

definition lexer_handle_eq :: "lexer \<Rightarrow> token_type \<Rightarrow> token_type \<Rightarrow> token \<times> lexer" where
  "lexer_handle_eq lx base_tok eq_tok =
     (if lexer_peek lx = CHR ''='' then (token_create (lexer_eat lx) eq_tok, lexer_eat lx)
      else (token_create lx base_tok, lx))"

definition lexer_handle_op_eq ::
  "lexer \<Rightarrow> token_type \<Rightarrow> token_type \<Rightarrow> char \<Rightarrow> token_type \<Rightarrow> token \<times> lexer" where
  "lexer_handle_op_eq lx base_tok eq_tok op_ch op_tok =
     (let c = lexer_peek lx in
      if c = CHR ''='' then
        let lx1 = lexer_eat lx
        in if eq_tok = TOKEN_INVALID then lexer_invalid lx1 op_ch else (token_create lx1 eq_tok, lx1)
      else if c = op_ch then (token_create (lexer_eat lx) op_tok, lexer_eat lx)
      else if base_tok = TOKEN_INVALID then lexer_invalid lx op_ch
      else (token_create lx base_tok, lx))"

section \<open>Trivia\<close>

text \<open>The inside of a block comment: the lexer at its closing mark, or at the terminator.\<close>

function lexer_skip_block :: "lexer \<Rightarrow> lexer \<times> bool" where
  "lexer_skip_block lx =
     (if lexer_peek lx = CHR ''*'' \<and> lexer_peek2 lx = CHR ''/'' then (lx, True)
      else if lexer_peek lx = NUL then (lx, False)
      else lexer_skip_block (lexer_eat lx))"
  by auto
termination
  by (relation "measure (\<lambda>lx. length (lx_source lx) - lx_pos lx)")
    (auto simp: lexer_peek_def dest!: src_at_not_NUL)

declare lexer_skip_block.simps [simp del]

lemma lexer_eat_while_advances:
  "lx_source (lexer_eat_while P lx) = lx_source lx \<and> lx_pos lx \<le> lx_pos (lexer_eat_while P lx)"
proof (induction P lx rule: lexer_eat_while.induct)
  case (1 P lx)
  then show ?case by (subst (1 2) lexer_eat_while.simps) auto
qed

lemma lexer_skip_block_advances:
  "lx_source (fst (lexer_skip_block lx)) = lx_source lx \<and> lx_pos lx \<le> lx_pos (fst (lexer_skip_block lx))"
proof (induction lx rule: lexer_skip_block.induct)
  case (1 lx)
  then show ?case by (subst (1 2) lexer_skip_block.simps) auto
qed

function lexer_skip_trivia :: "lexer \<Rightarrow> lexer" where
  "lexer_skip_trivia lx =
     (let lx1 = lexer_eat_while is_space lx in
      if lexer_peek lx1 \<noteq> CHR ''/'' then lx1
      else if lexer_peek2 lx1 = CHR ''/'' then
        lexer_skip_trivia (lexer_eat_while (\<lambda>c. c \<noteq> CHR 0x0A \<and> c \<noteq> NUL) lx1)
      else if lexer_peek2 lx1 = CHR ''*'' then
        (case lexer_skip_block (lexer_eat (lexer_eat lx1)) of
           (lx2, False) \<Rightarrow>
             lexer_error lx2 GAB_ERR_SYNTAX \<lparr>sp_line = lx_line lx1, sp_column = lx_column lx1\<rparr>
               ''unterminated block comment''
         | (lx2, True) \<Rightarrow> lexer_skip_trivia (lexer_eat (lexer_eat lx2)))
      else lx1)"
  by pat_completeness auto
termination
proof (relation "measure (\<lambda>lx. length (lx_source lx) - lx_pos lx)", goal_cases)
  case 1
  then show ?case by simp
next
  case (2 lx lx1)
  let ?P = "\<lambda>c. c \<noteq> CHR 0x0A \<and> c \<noteq> NUL"
  have slash: "lexer_peek lx1 = CHR ''/''" using 2 by simp
  then have "lexer_eat_while ?P lx1 = lexer_eat_while ?P (lexer_eat lx1)"
    by (subst lexer_eat_while.simps) (simp add: NUL_def)
  moreover have "lx_pos lx1 < length (lx_source lx1)"
    using slash by (auto simp: lexer_peek_def NUL_def intro!: src_at_not_NUL)
  ultimately show ?case
    using 2(1) lexer_eat_while_advances [of is_space lx]
      lexer_eat_while_advances [of ?P "lexer_eat lx1"]
    by (simp add: less_diff_conv2) linarith
next
  case (3 lx lx1 p lx2)
  have "lexer_peek lx1 = CHR ''/''" using 3 by simp
  then have "lx_pos lx1 < length (lx_source lx1)"
    by (auto simp: lexer_peek_def NUL_def intro!: src_at_not_NUL)
  moreover have "fst (lexer_skip_block (lexer_eat (lexer_eat lx1))) = p"
    using 3 by (metis fst_conv)
  ultimately show ?case
    using 3(1) lexer_eat_while_advances [of is_space lx]
      lexer_skip_block_advances [of "lexer_eat (lexer_eat lx1)"]
    by auto
qed

declare lexer_skip_trivia.simps [simp del]

section \<open>The next token\<close>

definition lexer_builtin :: "lexer \<Rightarrow> token \<times> lexer" where
  "lexer_builtin lx =
     (let lx1 = lexer_eat_while is_ident_char lx;
          ref = take (lx_pos lx1 - lx_pos lx) (drop (lx_pos lx) (lx_source lx))
      in if length ref = 0 then (token_create lx1 TOKEN_INVALID, lx1)
         else (token_create_ref lx1 TOKEN_BUILTIN ref, lx1))"

text \<open>The \<^verbatim>\<open>switch\<close> on a character that starts no number, word or string.\<close>

definition lexer_operator :: "lexer \<Rightarrow> char \<Rightarrow> token \<times> lexer" where
  "lexer_operator lx c =
     (if c = CHR ''+'' then lexer_handle_eq lx TOKEN_PLUS TOKEN_PLUS_EQ
      else if c = CHR ''-'' then lexer_handle_eq lx TOKEN_MINUS TOKEN_MINUS_EQ
      else if c = CHR ''*'' then lexer_handle_eq lx TOKEN_MUL TOKEN_MUL_EQ
      else if c = CHR ''/'' then lexer_handle_eq lx TOKEN_DIV TOKEN_DIV_EQ
      else if c = CHR ''%'' then lexer_handle_eq lx TOKEN_MOD TOKEN_MOD_EQ
      else if c = CHR ''('' then (token_create lx TOKEN_LPAREN, lx)
      else if c = CHR '')'' then (token_create lx TOKEN_RPAREN, lx)
      else if c = CHR ''{'' then (token_create lx TOKEN_LBRACE, lx)
      else if c = CHR ''}'' then (token_create lx TOKEN_RBRACE, lx)
      else if c = CHR ''['' then (token_create lx TOKEN_LBRACKET, lx)
      else if c = CHR '']'' then (token_create lx TOKEN_RBRACKET, lx)
      else if c = CHR ''='' then lexer_handle_eq lx TOKEN_ASSIGN TOKEN_EQUAL
      else if c = CHR ''!'' then lexer_handle_eq lx TOKEN_NOT TOKEN_NEQUAL
      else if c = CHR ''<'' then lexer_handle_eq lx TOKEN_LESS TOKEN_LEQUAL
      else if c = CHR ''>'' then lexer_handle_eq lx TOKEN_GREATER TOKEN_GEQUAL
      else if c = CHR ''&'' then lexer_handle_op_eq lx TOKEN_AMP TOKEN_INVALID (CHR ''&'') TOKEN_AND
      else if c = CHR ''|'' then lexer_handle_op_eq lx TOKEN_INVALID TOKEN_INVALID (CHR ''|'') TOKEN_OR
      else if c = CHR ''@'' then lexer_builtin lx
      else if c = CHR '';'' then (token_create lx TOKEN_SEMICOLON, lx)
      else if c = CHR '':'' then lexer_handle_op_eq lx TOKEN_COLON TOKEN_INVALID (CHR '':'') TOKEN_COLON_COLON
      else if c = CHR '','' then (token_create lx TOKEN_COMMA, lx)
      else if c = CHR ''.'' then
        (if lexer_peek lx = CHR ''.'' then (token_create (lexer_eat lx) TOKEN_DOT_DOT, lexer_eat lx)
         else (token_create lx TOKEN_DOT, lx))
      else lexer_invalid lx c)"

definition lexer_next :: "lexer \<Rightarrow> (token \<times> lexer) option" where
  "lexer_next lexer0 =
     (let lx1 = lexer_skip_trivia lexer0;
          lx = lx1\<lparr>lx_start_line := lx_line lx1, lx_start_column := lx_column lx1\<rparr>
      in if is_digit (lexer_peek lx) \<or> lexer_peek lx = CHR ''.'' \<and> is_digit (lexer_peek2 lx) then
           Some (lexer_number lx)
         else if is_alpha (lexer_peek lx) \<or> lexer_peek lx = CHR ''_'' then Some (lexer_identifier lx)
         else if lexer_peek lx = CHR 0x22 then lexer_string lx
         else if lexer_peek lx = NUL then Some (token_create lx TOKEN_EOF, lx)
         else Some (lexer_operator (lexer_eat lx) (lexer_peek lx)))"

end
