(* ===== verification/Lexer_Correct.thy ===== *)
theory Lexer_Correct
  imports Lexer
begin

text \<open>
  Correctness of the lexer.  \<open>lexer_inv\<close> says the lexer stands inside the source or on its
  terminator, that its line and column are those of its position, and that its pool and scratch
  buffer are sound; \<open>lexer_moves\<close> that a function keeps it and only moves forward.  From them follow
  that the whole source is read in finitely many calls, and that text spelled from tokens is read
  back as those tokens.
\<close>

section \<open>Invariant\<close>

definition source_line :: "string \<Rightarrow> nat \<Rightarrow> nat" where
  "source_line s n = Suc (length (filter (\<lambda>c. c = CHR 0x0A) (take n s)))"

definition source_column :: "string \<Rightarrow> nat \<Rightarrow> nat" where
  "source_column s n = Suc (length (takeWhile (\<lambda>c. c \<noteq> CHR 0x0A) (rev (take n s))))"

definition lexer_inv :: "string \<Rightarrow> lexer \<Rightarrow> bool" where
  "lexer_inv src lx \<longleftrightarrow> lx_source lx = src \<and> nul_free src \<and> lx_pos lx \<le> length src \<and>
     lx_line lx = source_line src (lx_pos lx) \<and> lx_column lx = source_column src (lx_pos lx) \<and>
     pool_inv (lx_strings lx) \<and> length (lx_scratch lx) = lx_scratch_capacity lx"

lemma lexer_inv_peek: "lexer_inv src lx \<Longrightarrow> lexer_peek lx = NUL \<longleftrightarrow> lx_pos lx = length src"
  by (auto simp: lexer_inv_def lexer_peek_def src_at_def nul_free_def in_set_conv_nth)

lemma lexer_inv_eat:
  assumes "lexer_inv src lx" "lexer_peek lx \<noteq> NUL"
  shows "lexer_inv src (lexer_eat lx)"
proof -
  have "lx_pos lx < length src" using assms by (auto simp: lexer_inv_def lexer_peek_def dest!: src_at_not_NUL)
  then show ?thesis using assms
    by (auto simp: lexer_inv_def lexer_eat_def lexer_peek_def src_at_def source_line_def source_column_def
        take_Suc_conv_app_nth)
qed

lemma lexer_inv_update [simp]:
  "lexer_inv src (lx\<lparr>lx_start_line := l, lx_start_column := c\<rparr>) = lexer_inv src lx"
  "lexer_inv src (lexer_error lx k sp m) = lexer_inv src lx"
  by (simp_all add: lexer_inv_def lexer_error_def)

lemma lexer_error_simps [simp]:
  "lx_pos (lexer_error lx k sp m) = lx_pos lx" "lx_source (lexer_error lx k sp m) = lx_source lx"
  "lx_strings (lexer_error lx k sp m) = lx_strings lx"
  "lx_start_line (lexer_error lx k sp m) = lx_start_line lx"
  "lx_start_column (lexer_error lx k sp m) = lx_start_column lx"
  by (simp_all add: lexer_error_def)

text \<open>A function that moves the lexer on: it keeps the invariant and the token's start, and never
  moves back.\<close>

definition lexer_moves :: "string \<Rightarrow> lexer \<Rightarrow> lexer \<Rightarrow> bool" where
  "lexer_moves src lx lx' \<longleftrightarrow> lexer_inv src lx' \<and> lx_pos lx \<le> lx_pos lx' \<and>
     lx_start_line lx' = lx_start_line lx \<and> lx_start_column lx' = lx_start_column lx"

lemma lexer_moves_refl: "lexer_inv src lx \<Longrightarrow> lexer_moves src lx lx"
  by (simp add: lexer_moves_def)

lemma lexer_moves_trans: "lexer_moves src a b \<Longrightarrow> lexer_moves src b c \<Longrightarrow> lexer_moves src a c"
  by (auto simp: lexer_moves_def)

lemma lexer_moves_eat: "lexer_inv src lx \<Longrightarrow> lexer_peek lx \<noteq> NUL \<Longrightarrow> lexer_moves src lx (lexer_eat lx)"
  by (simp add: lexer_moves_def lexer_inv_eat)

lemma lexer_moves_error: "lexer_moves src lx lx' \<Longrightarrow> lexer_moves src lx (lexer_error lx' k sp m)"
  by (simp add: lexer_moves_def)

lemma lexer_moves_inv: "lexer_moves src lx lx' \<Longrightarrow> lexer_inv src lx'"
  by (simp add: lexer_moves_def)

lemma lexer_moves_eat_while: "lexer_inv src lx \<Longrightarrow> lexer_moves src lx (lexer_eat_while P lx)"
proof (induction P lx rule: lexer_eat_while.induct)
  case (1 P lx)
  show ?case
  proof (cases "lexer_peek lx \<noteq> NUL \<and> P (lexer_peek lx)")
    case True
    then have "lexer_moves src (lexer_eat lx) (lexer_eat_while P (lexer_eat lx))"
      using 1 lexer_inv_eat by blast
    then show ?thesis
      using True lexer_moves_trans [OF lexer_moves_eat [OF 1(2)]] by (subst lexer_eat_while.simps) auto
  next
    case False
    then show ?thesis using 1(2) by (subst lexer_eat_while.simps) (auto simp: lexer_moves_refl)
  qed
qed

lemma lexer_moves_number:
  assumes "lexer_inv src lx"
  shows "lexer_moves src lx (snd (lexer_number lx))"
proof -
  let ?lx1 = "lexer_eat_while is_digit lx"
  have 1: "lexer_moves src lx ?lx1" using assms by (rule lexer_moves_eat_while)
  then have inv1: "lexer_inv src ?lx1" by (rule lexer_moves_inv)
  have "lexer_moves src lx (lexer_eat_while is_digit (lexer_eat ?lx1))" if "lexer_peek ?lx1 = CHR ''.''"
  proof -
    have "lexer_moves src ?lx1 (lexer_eat ?lx1)"
      by (rule lexer_moves_eat [OF inv1]) (simp add: that NUL_def)
    from lexer_moves_trans [OF 1 lexer_moves_trans [OF this
        lexer_moves_eat_while [OF lexer_moves_inv [OF this]]]] show ?thesis .
  qed
  then show ?thesis using 1
    by (cases "strtoll10 (drop (lx_pos lx) (lx_source lx))")
      (simp_all add: lexer_number_def Let_def lexer_moves_error)
qed

lemma double_capacity_enough: "0 < c \<Longrightarrow> n \<le> double_capacity c n \<and> c \<le> double_capacity c n"
proof (induction c n rule: double_capacity.induct)
  case (1 c n)
  then show ?case by (subst (1 2) double_capacity.simps) auto
qed

lemma lexer_reserve_inv: "lexer_inv src lx \<Longrightarrow> lexer_inv src (lexer_reserve lx n)"
proof -
  assume inv: "lexer_inv src lx"
  let ?c = "if lx_scratch_capacity lx \<noteq> 0 then lx_scratch_capacity lx else 32"
  have "lx_scratch_capacity lx \<le> double_capacity ?c n"
    using double_capacity_enough [of ?c n] by (auto split: if_splits)
  then show ?thesis using inv by (auto simp: lexer_inv_def lexer_reserve_def Let_def)
qed

lemma lexer_reserve_room: "n \<le> lx_scratch_capacity (lexer_reserve lx n)"
  using double_capacity_enough [of "if lx_scratch_capacity lx \<noteq> 0 then lx_scratch_capacity lx else 32" n]
  by (auto simp: lexer_reserve_def Let_def)

lemma lexer_reserve_prefix:
  assumes "length (lx_scratch lx) = lx_scratch_capacity lx" "k \<le> lx_scratch_capacity lx"
  shows "take k (lx_scratch (lexer_reserve lx n)) = take k (lx_scratch lx)"
  using assms by (simp add: lexer_reserve_def Let_def)

definition invalid_token_at :: "lexer \<Rightarrow> token \<Rightarrow> bool" where
  "invalid_token_at lx t \<longleftrightarrow> tok_type t = TOKEN_INVALID \<and> tok_line t = lx_start_line lx \<and>
     tok_column t = lx_start_column lx"

lemma lexer_moves_string_char:
  assumes inv: "lexer_inv src lx"
  shows "case lexer_string_char lx opened of
           Inl (t, lx') \<Rightarrow> lexer_moves src lx lx' \<and> invalid_token_at lx t
         | Inr (c, lx') \<Rightarrow> lexer_moves src lx lx' \<and> lexer_peek lx' \<noteq> NUL"
proof (cases "lexer_peek lx = CHR 0x5C")
  case True
  then have peek: "lexer_peek lx \<noteq> NUL" "lexer_peek lx \<noteq> CHR 0x0A" by (auto simp: NUL_def)
  then have "lexer_moves src lx (lexer_eat lx)" using inv by (rule_tac lexer_moves_eat)
  moreover have "lexer_peek (lexer_eat lx) \<noteq> NUL" if "escape_value (lexer_peek (lexer_eat lx)) = Some v" for v
    using that by auto
  ultimately show ?thesis using True peek
    by (cases "escape_value (lexer_peek (lexer_eat lx))")
      (simp_all add: lexer_string_char_def Let_def lexer_moves_error token_create_def invalid_token_at_def)
next
  case False
  then show ?thesis using inv
    by (simp add: lexer_string_char_def Let_def lexer_moves_error lexer_moves_refl token_create_def
        invalid_token_at_def)
qed

lemma lexer_inv_scratch [simp]:
  "lexer_inv src (lx\<lparr>lx_scratch := (lx_scratch lx)[n := c]\<rparr>) = lexer_inv src lx"
  by (simp add: lexer_inv_def)

lemma lexer_peek_reserve [simp]: "lexer_peek (lexer_reserve lx n) = lexer_peek lx"
  by (simp add: lexer_peek_def)

lemma lexer_moves_string_loop:
  assumes "lexer_inv src lx"
  shows "case lexer_string_loop lx opened len of
           Inl (t, lx') \<Rightarrow> lexer_moves src lx lx' \<and> invalid_token_at lx t
         | Inr (n, lx') \<Rightarrow> lexer_moves src lx lx' \<and> lexer_peek lx' = CHR 0x22"
  using assms
proof (induction lx opened len rule: lexer_string_loop.induct)
  case (1 lx opened len)
  show ?case
  proof (cases "lexer_peek lx = CHR 0x22")
    case True
    then show ?thesis using 1(2) by (subst lexer_string_loop.simps) (simp add: lexer_moves_refl)
  next
    case quote: False
    show ?thesis
    proof (cases "lexer_string_char lx opened")
      case (Inl e)
      then show ?thesis using quote lexer_moves_string_char [OF 1(2), of opened]
        by (subst lexer_string_loop.simps) simp
    next
      case (Inr p)
      obtain c lx1 where p: "p = (c, lx1)" by force
      have moves: "lexer_moves src lx lx1" and peek: "lexer_peek lx1 \<noteq> NUL"
        using lexer_moves_string_char [OF 1(2), of opened] Inr p by auto
      let ?lx2 = "lexer_reserve lx1 (len + 1)"
      let ?lx3 = "?lx2\<lparr>lx_scratch := (lx_scratch ?lx2)[len := c]\<rparr>"
      have inv3: "lexer_inv src ?lx3"
        using lexer_moves_inv [OF moves] by (simp add: lexer_reserve_inv)
      moreover have peek3: "lexer_peek ?lx3 \<noteq> NUL" using peek by (simp add: lexer_peek_def)
      ultimately have "lexer_inv src (lexer_eat ?lx3)" by (rule lexer_inv_eat)
      note IH = 1(1) [OF quote Inr p [symmetric] refl refl this]
      have "lexer_moves src lx ?lx3" using moves inv3 by (simp add: lexer_moves_def)
      have starts: "invalid_token_at (lexer_eat ?lx3) = invalid_token_at lx"
        using moves by (auto simp: lexer_moves_def invalid_token_at_def)
      have "lexer_moves src lx (lexer_eat ?lx3)"
        using \<open>lexer_moves src lx ?lx3\<close> lexer_moves_eat [OF inv3 peek3] lexer_moves_trans by blast
      then show ?thesis using IH quote Inr p starts
        by (subst lexer_string_loop.simps)
          (auto simp: Let_def intro: lexer_moves_trans split: sum.splits)
    qed
  qed
qed

lemma lexer_moves_string:
  assumes inv: "lexer_inv src lx" and "lexer_peek lx \<noteq> NUL"
  shows "\<exists>t lx'. lexer_string lx = Some (t, lx') \<and> lexer_moves src (lexer_eat lx) lx' \<and>
           tok_type t \<noteq> TOKEN_EOF \<and> tok_line t = lx_start_line lx \<and> tok_column t = lx_start_column lx"
proof -
  let ?o = "\<lparr>sp_line = lx_start_line lx, sp_column = lx_start_column lx\<rparr>"
  have "lexer_inv src (lexer_eat lx)" using assms by (rule lexer_inv_eat)
  note loop = lexer_moves_string_loop [OF this, of ?o 0]
  show ?thesis
  proof (cases "lexer_string_loop (lexer_eat lx) ?o 0")
    case (Inl e)
    then show ?thesis using loop by (cases e) (auto simp: lexer_string_def invalid_token_at_def)
  next
    case (Inr p)
    obtain n lx1 where p: "p = (n, lx1)" by force
    have moves: "lexer_moves src (lexer_eat lx) lx1" and peek: "lexer_peek lx1 \<noteq> NUL"
      using loop Inr p by (auto simp: NUL_def)
    let ?lx2 = "lexer_eat lx1"
    have moves2: "lexer_moves src (lexer_eat lx) ?lx2"
      using moves lexer_moves_eat [OF lexer_moves_inv [OF moves] peek] lexer_moves_trans by blast
    then have "pool_inv (lx_strings ?lx2)" by (simp add: lexer_moves_def lexer_inv_def)
    then obtain a pool' where "string_from_cstr_len (lx_strings ?lx2) (take n (lx_scratch ?lx2)) = Some (a, pool')"
        "pool_inv pool'"
      using string_from_cstr_len_ok by blast
    then show ?thesis using Inr p moves2
      by (auto simp: lexer_string_def string_from_ref_def Let_def token_create_value_def
          lexer_moves_def lexer_inv_def)
  qed
qed

lemma lexer_moves_identifier: "lexer_inv src lx \<Longrightarrow> lexer_moves src lx (snd (lexer_identifier lx))"
  by (auto simp: lexer_identifier_def Let_def lexer_moves_eat_while split: option.splits)

lemma lexer_moves_invalid: "lexer_moves src lx lx' \<Longrightarrow> lexer_moves src lx (snd (lexer_invalid lx' c))"
  by (simp add: lexer_invalid_def Let_def lexer_moves_error)

lemma lexer_moves_handle_eq: "lexer_inv src lx \<Longrightarrow> lexer_moves src lx (snd (lexer_handle_eq lx b e))"
  by (simp add: lexer_handle_eq_def lexer_moves_eat lexer_moves_refl NUL_def)

lemma lexer_moves_handle_op_eq:
  "lexer_inv src lx \<Longrightarrow> op_ch \<noteq> NUL \<Longrightarrow> lexer_moves src lx (snd (lexer_handle_op_eq lx b e op_ch t))"
  by (simp add: lexer_handle_op_eq_def Let_def lexer_moves_eat lexer_moves_refl lexer_moves_invalid NUL_def)

lemma lexer_moves_operator: "lexer_inv src lx \<Longrightarrow> lexer_moves src lx (snd (lexer_operator lx c))"
  by (simp add: lexer_operator_def lexer_builtin_def Let_def lexer_moves_handle_eq lexer_moves_handle_op_eq
      lexer_moves_refl lexer_moves_invalid lexer_moves_eat lexer_moves_eat_while NUL_def)


lemma lexer_moves_skip_block:
  "lexer_inv src lx \<Longrightarrow> lexer_moves src lx (fst (lexer_skip_block lx)) \<and>
     (snd (lexer_skip_block lx) \<longrightarrow> lexer_peek (fst (lexer_skip_block lx)) = CHR ''*'' \<and>
        lexer_peek2 (fst (lexer_skip_block lx)) = CHR ''/'')"
proof (induction lx rule: lexer_skip_block.induct)
  case (1 lx)
  show ?case
  proof (cases "lexer_peek lx = CHR ''*'' \<and> lexer_peek2 lx = CHR ''/'' \<or> lexer_peek lx = NUL")
    case True
    then show ?thesis using 1(2)
      by (subst (1 2 3 4) lexer_skip_block.simps) (auto simp: lexer_moves_refl)
  next
    case False
    then have "lexer_moves src lx (lexer_eat lx)" using 1(2) lexer_moves_eat by blast
    then show ?thesis using False 1 lexer_moves_trans lexer_moves_inv
      by (subst (1 2 3 4) lexer_skip_block.simps) auto
  qed
qed

lemma lexer_moves_eat2:
  assumes "lexer_inv src lx" "lexer_peek lx \<noteq> NUL" "lexer_peek2 lx \<noteq> NUL"
  shows "lexer_moves src lx (lexer_eat (lexer_eat lx))"
proof -
  have "lexer_peek (lexer_eat lx) \<noteq> NUL" using assms(3) by (simp add: lexer_peek_def lexer_peek2_def)
  from lexer_moves_trans [OF lexer_moves_eat [OF assms(1,2)]
      lexer_moves_eat [OF lexer_inv_eat [OF assms(1,2)] this]] show ?thesis .
qed

lemma lexer_moves_skip_trivia: "lexer_inv src lx \<Longrightarrow> lexer_moves src lx (lexer_skip_trivia lx)"
proof (induction lx rule: lexer_skip_trivia.induct)
  case (1 lx)
  let ?lx1 = "lexer_eat_while is_space lx"
  let ?P = "\<lambda>c. c \<noteq> CHR 0x0A \<and> c \<noteq> NUL"
  have m1: "lexer_moves src lx ?lx1" using 1(3) by (rule lexer_moves_eat_while)
  note inv1 = lexer_moves_inv [OF m1]
  consider "lexer_peek ?lx1 \<noteq> CHR ''/'' \<or> lexer_peek2 ?lx1 \<noteq> CHR ''/'' \<and> lexer_peek2 ?lx1 \<noteq> CHR ''*''"
    | "lexer_peek ?lx1 = CHR ''/''" "lexer_peek2 ?lx1 = CHR ''/''"
    | "lexer_peek ?lx1 = CHR ''/''" "lexer_peek2 ?lx1 = CHR ''*''" by blast
  then show ?case
  proof cases
    case 1
    then have "lexer_skip_trivia lx = ?lx1" by (subst lexer_skip_trivia.simps) (auto simp: Let_def)
    then show ?thesis using m1 by simp
  next
    case 2
    have m2: "lexer_moves src lx (lexer_eat_while ?P ?lx1)"
      using lexer_moves_trans [OF m1 lexer_moves_eat_while [OF inv1]] .
    have "lexer_moves src (lexer_eat_while ?P ?lx1) (lexer_skip_trivia (lexer_eat_while ?P ?lx1))"
      using 1(1) [OF refl _ 2(2) lexer_moves_inv [OF m2]] 2(1) by blast
    moreover have "lexer_skip_trivia lx = lexer_skip_trivia (lexer_eat_while ?P ?lx1)"
      using 2 by (subst lexer_skip_trivia.simps) (simp add: Let_def)
    ultimately show ?thesis using m2 lexer_moves_trans by metis
  next
    case 3
    have ne: "lexer_peek ?lx1 \<noteq> NUL" "lexer_peek2 ?lx1 \<noteq> NUL" using 3 by (auto simp: NUL_def)
    have m2: "lexer_moves src lx (lexer_eat (lexer_eat ?lx1))"
      using lexer_moves_trans [OF m1 lexer_moves_eat2 [OF inv1 ne]] .
    obtain lx2 b where sb: "lexer_skip_block (lexer_eat (lexer_eat ?lx1)) = (lx2, b)" by force
    have m3: "lexer_moves src lx lx2"
      using lexer_moves_trans [OF m2] lexer_moves_skip_block [OF lexer_moves_inv [OF m2]] sb by simp
    show ?thesis
    proof (cases b)
      case False
      then show ?thesis using 3 sb m3
        by (subst lexer_skip_trivia.simps) (simp add: Let_def lexer_moves_error)
    next
      case True
      then have "lexer_peek lx2 \<noteq> NUL" "lexer_peek2 lx2 \<noteq> NUL"
        using lexer_moves_skip_block [OF lexer_moves_inv [OF m2]] sb by (auto simp: NUL_def)
      note m4 = lexer_moves_trans [OF m3 lexer_moves_eat2 [OF lexer_moves_inv [OF m3] this]]
      have "lexer_moves src (lexer_eat (lexer_eat lx2)) (lexer_skip_trivia (lexer_eat (lexer_eat lx2)))"
        using 1(2) [OF refl _ _ 3(2) sb [symmetric]] 3 True lexer_moves_inv [OF m4] by simp
      moreover have "lexer_skip_trivia lx = lexer_skip_trivia (lexer_eat (lexer_eat lx2))"
        using 3 sb True by (subst lexer_skip_trivia.simps) (simp add: Let_def)
      ultimately show ?thesis using m4 lexer_moves_trans by metis
    qed
  qed
qed

lemma lexer_eat_while_progress:
  assumes "lexer_peek lx \<noteq> NUL" "P (lexer_peek lx)"
  shows "lx_pos lx < lx_pos (lexer_eat_while P lx)"
  using assms lexer_eat_while_advances [of P "lexer_eat lx"]
  by (subst lexer_eat_while.simps) auto

text \<open>The token starts where trivia ends.\<close>

definition token_starts_at :: "string \<Rightarrow> nat \<Rightarrow> token \<Rightarrow> bool" where
  "token_starts_at src p t \<longleftrightarrow> tok_line t = source_line src p \<and> tok_column t = source_column src p"

lemmas token_create_defs = token_create_def token_create_value_def token_create_ref_def

lemma lexer_invalid_token: "fst (lexer_invalid lx c) = token_create lx TOKEN_INVALID"
  by (simp add: lexer_invalid_def Let_def)

lemma lexer_eat_while_keeps [simp]:
  "lx_source (lexer_eat_while P lx) = lx_source lx"
  "lx_start_line (lexer_eat_while P lx) = lx_start_line lx"
  "lx_start_column (lexer_eat_while P lx) = lx_start_column lx"
  "lx_diagnostics (lexer_eat_while P lx) = lx_diagnostics lx"
  "lx_strings (lexer_eat_while P lx) = lx_strings lx"
  "lx_scratch (lexer_eat_while P lx) = lx_scratch lx"
  "lx_scratch_capacity (lexer_eat_while P lx) = lx_scratch_capacity lx"
proof (induction P lx rule: lexer_eat_while.induct)
  case (1 P lx)
  {
    case 1 then show ?case using "1.IH"(1) by (subst lexer_eat_while.simps) simp
  next
    case 2 then show ?case using "1.IH"(2) by (subst lexer_eat_while.simps) simp
  next
    case 3 then show ?case using "1.IH"(3) by (subst lexer_eat_while.simps) simp
  next
    case 4 then show ?case using "1.IH"(4) by (subst lexer_eat_while.simps) simp
  next
    case 5 then show ?case using "1.IH"(5) by (subst lexer_eat_while.simps) simp
  next
    case 6 then show ?case using "1.IH"(6) by (subst lexer_eat_while.simps) simp
  next
    case 7 then show ?case using "1.IH"(7) by (subst lexer_eat_while.simps) simp
  }
qed

lemma lexer_operator_token:
  "tok_type (fst (lexer_operator lx c)) \<noteq> TOKEN_EOF \<and>
   tok_line (fst (lexer_operator lx c)) = lx_start_line lx \<and>
   tok_column (fst (lexer_operator lx c)) = lx_start_column lx"
  by (simp add: lexer_operator_def lexer_builtin_def lexer_handle_eq_def lexer_handle_op_eq_def Let_def
      lexer_invalid_token token_create_defs)

lemma lexer_number_token:
  "tok_type (fst (lexer_number lx)) \<noteq> TOKEN_EOF \<and>
   tok_line (fst (lexer_number lx)) = lx_start_line lx \<and>
   tok_column (fst (lexer_number lx)) = lx_start_column lx"
  by (cases "strtoll10 (drop (lx_pos lx) (lx_source lx))")
    (simp_all add: lexer_number_def Let_def token_create_defs)

lemma find_in_set: "find P xs = Some x \<Longrightarrow> x \<in> set xs \<and> P x"
  by (auto simp: find_Some_iff)

lemma lexer_identifier_token:
  "tok_type (fst (lexer_identifier lx)) \<noteq> TOKEN_EOF \<and>
   tok_line (fst (lexer_identifier lx)) = lx_start_line lx \<and>
   tok_column (fst (lexer_identifier lx)) = lx_start_column lx"
proof -
  have "(k, t) \<in> set keyword_table \<Longrightarrow> t \<noteq> TOKEN_EOF" for k t
    by (auto simp: keyword_table_def)
  then show ?thesis
    by (auto simp: lexer_identifier_def Let_def token_create_defs split: option.splits dest!: find_in_set)
qed

lemma lexer_number_progress:
  assumes "is_digit (lexer_peek lx) \<or> lexer_peek lx = CHR ''.'' \<and> is_digit (lexer_peek2 lx)"
  shows "lx_pos lx < lx_pos (snd (lexer_number lx))"
proof -
  let ?lx1 = "lexer_eat_while is_digit lx"
  have le: "lx_pos lx \<le> lx_pos ?lx1" "\<And>l. lx_pos l \<le> lx_pos (lexer_eat_while is_digit l)"
    using lexer_eat_while_advances by auto
  have dot: "\<not> is_digit (CHR ''.'')" "CHR ''.'' \<noteq> NUL" by (auto simp: is_digit_def NUL_def less_eq_char_def)
  have nul: "\<not> is_digit NUL" by (auto simp: is_digit_def NUL_def less_eq_char_def)
  have step: "lx_pos lx < lx_pos (lexer_eat_while is_digit (lexer_eat ?lx1))"
    using le(1) le(2) [of "lexer_eat ?lx1"] by simp
  show ?thesis
  proof (cases "is_digit (lexer_peek lx)")
    case True
    then have "lx_pos lx < lx_pos ?lx1" using nul by (intro lexer_eat_while_progress) auto
    then show ?thesis using step
      by (cases "strtoll10 (drop (lx_pos lx) (lx_source lx))") (simp_all add: lexer_number_def Let_def)
  next
    case False
    then have p: "lexer_peek lx = CHR ''.''" "lexer_peek2 lx \<noteq> CHR ''.''" using assms dot by auto
    then have "?lx1 = lx" using dot by (subst lexer_eat_while.simps) simp
    then show ?thesis using step p by (simp add: lexer_number_def Let_def)
  qed
qed

lemma lexer_next_ok:
  assumes inv: "lexer_inv src lx"
  shows "\<exists>t lx'. lexer_next lx = Some (t, lx') \<and> lexer_inv src lx' \<and>
           lx_pos (lexer_skip_trivia lx) \<le> lx_pos lx' \<and>
           (tok_type t = TOKEN_EOF \<longrightarrow> lx_pos lx' = length src) \<and>
           (tok_type t \<noteq> TOKEN_EOF \<longrightarrow> lx_pos (lexer_skip_trivia lx) < lx_pos lx') \<and>
           token_starts_at src (lx_pos (lexer_skip_trivia lx)) t"
proof -
  let ?t = "lexer_skip_trivia lx"
  let ?lx = "?t\<lparr>lx_start_line := lx_line ?t, lx_start_column := lx_column ?t\<rparr>"
  have m: "lexer_inv src ?t" using lexer_moves_skip_trivia [OF inv] by (rule lexer_moves_inv)
  then have i: "lexer_inv src ?lx" by simp
  have start: "lx_start_line ?lx = source_line src (lx_pos ?t)" "lx_start_column ?lx = source_column src (lx_pos ?t)"
    using m by (auto simp: lexer_inv_def)
  have pos: "lx_pos ?lx = lx_pos ?t" by simp
  have chars: "\<not> is_alpha NUL" "\<not> is_digit NUL" "NUL \<noteq> CHR ''_''" "NUL \<noteq> CHR ''.''" "NUL \<noteq> CHR 0x22"
    by (auto simp: is_digit_def is_alpha_def NUL_def less_eq_char_def)
  consider (num) "is_digit (lexer_peek ?lx) \<or> lexer_peek ?lx = CHR ''.'' \<and> is_digit (lexer_peek2 ?lx)"
    | (ident) "\<not> (is_digit (lexer_peek ?lx) \<or> lexer_peek ?lx = CHR ''.'' \<and> is_digit (lexer_peek2 ?lx))"
        "is_alpha (lexer_peek ?lx) \<or> lexer_peek ?lx = CHR ''_''"
    | (str) "\<not> (is_digit (lexer_peek ?lx) \<or> lexer_peek ?lx = CHR ''.'' \<and> is_digit (lexer_peek2 ?lx))"
        "\<not> (is_alpha (lexer_peek ?lx) \<or> lexer_peek ?lx = CHR ''_'')" "lexer_peek ?lx = CHR 0x22"
    | (eof) "lexer_peek ?lx = NUL"
    | (op) "\<not> (is_digit (lexer_peek ?lx) \<or> lexer_peek ?lx = CHR ''.'' \<and> is_digit (lexer_peek2 ?lx))"
        "\<not> (is_alpha (lexer_peek ?lx) \<or> lexer_peek ?lx = CHR ''_'')" "lexer_peek ?lx \<noteq> CHR 0x22"
        "lexer_peek ?lx \<noteq> NUL"
    by blast
  then show ?thesis
  proof cases
    case num
    then show ?thesis
      using lexer_moves_number [OF i] lexer_number_token [of ?lx] lexer_number_progress [OF num] start pos
      by (cases "lexer_number ?lx") (auto simp: lexer_next_def Let_def lexer_moves_def token_starts_at_def)
  next
    case ident
    then have "lx_pos ?lx < lx_pos (lexer_eat_while is_ident_char ?lx)"
      using chars by (intro lexer_eat_while_progress) (auto simp: is_ident_char_def)
    then have "lx_pos ?lx < lx_pos (snd (lexer_identifier ?lx))"
      by (simp add: lexer_identifier_def Let_def split: option.split)
    then show ?thesis
      using ident lexer_moves_identifier [OF i] lexer_identifier_token [of ?lx] start pos
      by (cases "lexer_identifier ?lx") (auto simp: lexer_next_def Let_def lexer_moves_def token_starts_at_def)
  next
    case str
    then have "lexer_peek ?lx \<noteq> NUL" using chars by metis
    then obtain t lx' where 1: "lexer_string ?lx = Some (t, lx')" "lexer_moves src (lexer_eat ?lx) lx'"
        "tok_type t \<noteq> TOKEN_EOF" "tok_line t = lx_start_line ?lx \<and> tok_column t = lx_start_column ?lx"
      using lexer_moves_string [OF i] by blast
    then show ?thesis using 1 str start pos
      by (auto simp: lexer_next_def Let_def lexer_moves_def token_starts_at_def)
  next
    case eof
    then have "lx_pos ?t = length src" using lexer_inv_peek [OF i] by simp
    then show ?thesis using eof chars m start
      by (auto simp: lexer_next_def Let_def token_create_def token_starts_at_def)
  next
    case op
    have i2: "lexer_inv src (lexer_eat ?lx)" using i op(4) by (rule lexer_inv_eat)
    show ?thesis
      using op lexer_moves_operator [OF i2, of "lexer_peek ?lx"]
        lexer_operator_token [of "lexer_eat ?lx" "lexer_peek ?lx"] start pos
      by (cases "lexer_operator (lexer_eat ?lx) (lexer_peek ?lx)")
        (auto simp: lexer_next_def Let_def lexer_moves_def token_starts_at_def)
  qed
qed

section \<open>The whole source\<close>

text \<open>The tokens up to and including the end of input, with \<open>n\<close> calls at most.\<close>

fun lexer_tokens :: "nat \<Rightarrow> lexer \<Rightarrow> (token list \<times> lexer) option" where
  "lexer_tokens 0 lx = None"
| "lexer_tokens (Suc n) lx =
     do { (t, lx1) \<leftarrow> lexer_next lx;
          if tok_type t = TOKEN_EOF then Some ([t], lx1)
          else do { (ts, lx2) \<leftarrow> lexer_tokens n lx1; Some (t # ts, lx2) } }"

fun tokens_start_at :: "string \<Rightarrow> nat list \<Rightarrow> token list \<Rightarrow> bool" where
  "tokens_start_at src ps ts \<longleftrightarrow> length ps = length ts \<and> sorted_wrt (<) ps \<and>
     (\<forall>p \<in> set ps. p \<le> length src) \<and> (\<forall>i < length ts. token_starts_at src (ps ! i) (ts ! i))"

lemma lexer_tokens_ok:
  assumes "lexer_inv src lx" "length src - lx_pos lx < n"
  shows "\<exists>ts lx' ps. lexer_tokens n lx = Some (ts, lx') \<and> lexer_inv src lx' \<and> lx_pos lx' = length src \<and>
           ts \<noteq> [] \<and> tok_type (last ts) = TOKEN_EOF \<and> TOKEN_EOF \<notin> tok_type ` set (butlast ts) \<and>
           (\<forall>p \<in> set ps. lx_pos lx \<le> p) \<and> tokens_start_at src ps ts"
  using assms
proof (induction n arbitrary: lx)
  case 0
  then show ?case by simp
next
  case (Suc n)
  let ?p = "lx_pos (lexer_skip_trivia lx)"
  have p: "lx_pos lx \<le> ?p" using lexer_moves_skip_trivia [OF Suc.prems(1)] by (simp add: lexer_moves_def)
  obtain t lx1 where 1: "lexer_next lx = Some (t, lx1)" "lexer_inv src lx1" "?p \<le> lx_pos lx1"
      "tok_type t = TOKEN_EOF \<longrightarrow> lx_pos lx1 = length src"
      "tok_type t \<noteq> TOKEN_EOF \<longrightarrow> ?p < lx_pos lx1" "token_starts_at src ?p t"
    using lexer_next_ok [OF Suc.prems(1)] by blast
  have pos1: "lx_pos lx1 \<le> length src" using 1(2) by (simp add: lexer_inv_def)
  show ?case
  proof (cases "tok_type t = TOKEN_EOF")
    case True
    then show ?thesis using 1 p pos1 by (intro exI [of _ "[t]"] exI [of _ lx1] exI [of _ "[?p]"]) auto
  next
    case False
    then have lt: "?p < lx_pos lx1" using 1(5) by simp
    then have "length src - lx_pos lx1 < n" using Suc.prems(2) p pos1 by linarith
    then obtain ts lx2 ps where 2: "lexer_tokens n lx1 = Some (ts, lx2)" "lexer_inv src lx2"
        "lx_pos lx2 = length src" "ts \<noteq> []" "tok_type (last ts) = TOKEN_EOF"
        "TOKEN_EOF \<notin> tok_type ` set (butlast ts)" "\<forall>q \<in> set ps. lx_pos lx1 \<le> q"
        "tokens_start_at src ps ts"
      using Suc.IH [OF 1(2)] by blast
    have "tokens_start_at src (?p # ps) (t # ts)"
      using 2(7,8) 1(6) lt pos1 by (auto simp: nth_Cons split: nat.split)
    then show ?thesis using 1(1) 2 False p lt
      by (intro exI [of _ "t # ts"] exI [of _ lx2] exI [of _ "?p # ps"]) auto
  qed
qed

section \<open>What is left to read\<close>

definition lx_rest :: "lexer \<Rightarrow> string" where
  "lx_rest lx = drop (lx_pos lx) (lx_source lx)"

lemma lexer_peek_rest: "lexer_peek lx = (case lx_rest lx of [] \<Rightarrow> NUL | c # _ \<Rightarrow> c)"
  by (simp add: lexer_peek_def src_at_def lx_rest_def hd_drop_conv_nth [symmetric] split: list.split)

lemma lx_rest_eat: "lx_rest (lexer_eat lx) = tl (lx_rest lx)"
  by (simp add: lx_rest_def drop_Suc tl_drop)

lemma lexer_peek2_rest: "lexer_peek2 lx = (case tl (lx_rest lx) of [] \<Rightarrow> NUL | c # _ \<Rightarrow> c)"
proof -
  have "lexer_peek2 lx = lexer_peek (lexer_eat lx)" by (simp add: lexer_peek2_def lexer_peek_def)
  then show ?thesis by (simp add: lexer_peek_rest lx_rest_eat)
qed

lemma lexer_eat_while_rest:
  assumes "lx_rest lx = w @ r" "\<forall>c \<in> set w. P c \<and> c \<noteq> NUL" "r = [] \<or> hd r = NUL \<or> \<not> P (hd r)"
  shows "lx_rest (lexer_eat_while P lx) = r \<and> lx_pos (lexer_eat_while P lx) = lx_pos lx + length w"
  using assms
proof (induction w arbitrary: lx)
  case Nil
  then show ?case by (subst (1 2) lexer_eat_while.simps) (cases r; auto simp: lexer_peek_rest)
next
  case (Cons c w)
  then have "lexer_eat_while P lx = lexer_eat_while P (lexer_eat lx)"
    by (subst lexer_eat_while.simps) (simp add: lexer_peek_rest)
  then show ?case using Cons by (simp add: lx_rest_eat)
qed

section \<open>Spelling\<close>

datatype lexeme = Punct token_type | Word string | Builtin string | Number nat | Text string

definition punctuation :: "(token_type \<times> string) list" where
  "punctuation =
     [(TOKEN_PLUS, ''+''), (TOKEN_MINUS, ''-''), (TOKEN_MUL, ''*''), (TOKEN_DIV, ''/''),
      (TOKEN_MOD, ''%''), (TOKEN_ASSIGN, ''=''), (TOKEN_PLUS_EQ, ''+=''), (TOKEN_MINUS_EQ, ''-=''),
      (TOKEN_MUL_EQ, ''*=''), (TOKEN_DIV_EQ, ''/=''), (TOKEN_MOD_EQ, ''%=''), (TOKEN_NOT, ''!''),
      (TOKEN_LESS, ''<''), (TOKEN_GREATER, ''>''), (TOKEN_EQUAL, ''==''), (TOKEN_NEQUAL, ''!=''),
      (TOKEN_LEQUAL, ''<=''), (TOKEN_GEQUAL, ''>=''), (TOKEN_AND, ''&&''), (TOKEN_AMP, ''&''),
      (TOKEN_OR, ''||''), (TOKEN_LPAREN, ''(''), (TOKEN_RPAREN, '')''), (TOKEN_LBRACE, ''{''),
      (TOKEN_RBRACE, ''}''), (TOKEN_LBRACKET, ''[''), (TOKEN_RBRACKET, '']''),
      (TOKEN_SEMICOLON, '';''), (TOKEN_COLON, '':''), (TOKEN_COLON_COLON, ''::''),
      (TOKEN_COMMA, '',''), (TOKEN_DOT, ''.''), (TOKEN_DOT_DOT, ''..'')]"

definition escape_char :: "char \<Rightarrow> string" where
  "escape_char c =
     (if c = CHR 0x0A then [CHR 0x5C, CHR ''n''] else if c = CHR 0x09 then [CHR 0x5C, CHR ''t'']
      else if c = NUL then [CHR 0x5C, CHR ''0''] else if c = CHR 0x5C then [CHR 0x5C, CHR 0x5C]
      else if c = CHR 0x22 then [CHR 0x5C, CHR 0x22] else [c])"

fun spelling :: "lexeme \<Rightarrow> string" where
  "spelling (Punct t) = the (map_of punctuation t)"
| "spelling (Word w) = w"
| "spelling (Builtin w) = CHR ''@'' # w"
| "spelling (Number n) = show_nat n"
| "spelling (Text s) = CHR 0x22 # concat (map escape_char s) @ [CHR 0x22]"

fun lexeme_ok :: "lexeme \<Rightarrow> bool" where
  "lexeme_ok (Punct t) \<longleftrightarrow> t \<in> fst ` set punctuation"
| "lexeme_ok (Word w) \<longleftrightarrow> w \<noteq> [] \<and> \<not> is_digit (hd w) \<and> (\<forall>c \<in> set w. is_ident_char c)"
| "lexeme_ok (Builtin w) \<longleftrightarrow> w \<noteq> [] \<and> (\<forall>c \<in> set w. is_ident_char c)"
| "lexeme_ok (Number n) \<longleftrightarrow> n < 2 ^ 63"
| "lexeme_ok (Text s) \<longleftrightarrow> True"

fun token_of :: "string_pool \<Rightarrow> lexeme \<Rightarrow> token \<Rightarrow> bool" where
  "token_of pool (Punct p) t \<longleftrightarrow> tok_type t = p"
| "token_of pool (Word w) t \<longleftrightarrow> tok_lexeme t = w \<and>
     tok_type t = (case map_of keyword_table w of Some k \<Rightarrow> k | None \<Rightarrow> TOKEN_IDENT)"
| "token_of pool (Builtin w) t \<longleftrightarrow> tok_type t = TOKEN_BUILTIN \<and> tok_lexeme t = w"
| "token_of pool (Number n) t \<longleftrightarrow> tok_type t = TOKEN_INT \<and> tok_value t = As_int (of_nat n)"
| "token_of pool (Text s) t \<longleftrightarrow> tok_type t = TOKEN_STRING \<and>
     (\<exists>a. tok_value t = As_string a \<and> a < length (sp_strings pool) \<and> sp_strings pool ! a = s)"

lemma digit_char: "d < 10 \<Longrightarrow> is_digit (char_of (48 + d :: nat)) \<and> digit_value (char_of (48 + d)) = d"
  by (simp add: is_digit_def digit_value_def less_eq_char_def)

lemma show_nat_digits: "\<forall>c \<in> set (show_nat n). is_digit c"
proof (induction n rule: show_nat.induct)
  case (1 n)
  then show ?case using digit_char [of "n mod 10"] digit_char [of n]
    by (subst show_nat.simps) auto
qed

lemma digits_value_append: "digits_value a (xs @ ys) = digits_value (digits_value a xs) ys"
  by (induction xs arbitrary: a) auto

lemma digits_value_show_nat: "digits_value 0 (show_nat n) = n"
proof (induction n rule: show_nat.induct)
  case (1 n)
  then show ?case using digit_char [of "n mod 10"] digit_char [of n]
    by (subst show_nat.simps) (auto simp: digits_value_append)
qed

lemma lexer_skip_trivia_none:
  assumes "\<not> is_space (lexer_peek lx)"
    "lexer_peek lx = CHR ''/'' \<Longrightarrow> lexer_peek2 lx \<noteq> CHR ''/'' \<and> lexer_peek2 lx \<noteq> CHR ''*''"
  shows "lexer_skip_trivia lx = lx"
proof -
  have "lexer_eat_while is_space lx = lx" using assms(1) by (subst lexer_eat_while.simps) simp
  then show ?thesis using assms by (subst lexer_skip_trivia.simps) (auto simp: Let_def)
qed

lemma lexer_eat_while_idem: "lexer_eat_while P (lexer_eat_while P lx) = lexer_eat_while P lx"
proof (induction P lx rule: lexer_eat_while.induct)
  case (1 P lx)
  then show ?case by (auto simp: lexer_eat_while.simps [of P lx])
qed

lemma lexer_next_spaces: "lexer_next (lexer_eat_while is_space lx) = lexer_next lx"
proof -
  have "lexer_skip_trivia (lexer_eat_while is_space lx) = lexer_skip_trivia lx"
    by (subst (1 2) lexer_skip_trivia.simps) (simp add: lexer_eat_while_idem)
  then show ?thesis by (simp add: lexer_next_def)
qed

text \<open>The lexer reads one spelled token, up to a separator, without a diagnostic.\<close>

definition lexes :: "lexer \<Rightarrow> lexeme \<Rightarrow> string \<Rightarrow> bool" where
  "lexes lx l r \<longleftrightarrow> (\<exists>t lx'. lexer_next lx = Some (t, lx') \<and> lx_rest lx' = r \<and>
     lx_diagnostics lx' = lx_diagnostics lx \<and> token_of (lx_strings lx') l t \<and>
     (\<exists>newer. sp_strings (lx_strings lx') = sp_strings (lx_strings lx) @ newer))"

text \<open>A character that goes on with a token whose spelling stands before it.\<close>

fun joins :: "lexeme \<Rightarrow> char \<Rightarrow> bool" where
  "joins (Punct p) c \<longleftrightarrow>
     c = CHR ''='' \<and> p \<in> set [TOKEN_PLUS, TOKEN_MINUS, TOKEN_MUL, TOKEN_DIV, TOKEN_MOD, TOKEN_ASSIGN, TOKEN_NOT,
       TOKEN_LESS, TOKEN_GREATER, TOKEN_AMP, TOKEN_COLON] \<or>
     c = CHR ''&'' \<and> p = TOKEN_AMP \<or> c = CHR '':'' \<and> p = TOKEN_COLON \<or>
     (c = CHR ''/'' \<or> c = CHR ''*'') \<and> p = TOKEN_DIV \<or> (c = CHR ''.'' \<or> is_digit c) \<and> p = TOKEN_DOT"
| "joins (Word w) c \<longleftrightarrow> is_ident_char c"
| "joins (Builtin w) c \<longleftrightarrow> is_ident_char c"
| "joins (Number n) c \<longleftrightarrow> is_digit c \<or> c = CHR ''.''"
| "joins (Text s) c \<longleftrightarrow> False"

definition first_char :: "string \<Rightarrow> char" where
  "first_char r = (case r of [] \<Rightarrow> NUL | c # cs \<Rightarrow> c)"

definition parted :: "lexeme \<Rightarrow> string \<Rightarrow> bool" where
  "parted l r \<longleftrightarrow> \<not> joins l (first_char r)"

lemma first_char_simps [simp]: "first_char [] = NUL" "first_char (c # cs) = c"
  by (simp_all add: first_char_def)

lemma NUL_or_char: "P (first_char r) \<Longrightarrow> r = [] \<or> hd r = NUL \<or> P (hd r)"
  by (cases r) simp_all

lemma space_facts: "is_space (CHR '' '')" "CHR '' '' \<noteq> NUL"
  by (simp_all add: is_space_def NUL_def)

lemma ident_char_facts: "is_ident_char c \<Longrightarrow> c \<noteq> NUL \<and> \<not> is_space c \<and> c \<noteq> CHR ''/''"
  "is_digit c \<Longrightarrow> c \<noteq> NUL \<and> \<not> is_space c \<and> c \<noteq> CHR ''/'' \<and> c \<noteq> CHR ''.''"
  by (auto simp: is_space_def is_ident_char_def is_alpha_def is_digit_def NUL_def less_eq_char_def)

definition lexer_started :: "lexer \<Rightarrow> lexer" where
  "lexer_started lx = lx\<lparr>lx_start_line := lx_line lx, lx_start_column := lx_column lx\<rparr>"

lemma lexer_started_simps [simp]:
  "lx_rest (lexer_started lx) = lx_rest lx" "lexer_peek (lexer_started lx) = lexer_peek lx"
  "lexer_peek2 (lexer_started lx) = lexer_peek2 lx" "lx_diagnostics (lexer_started lx) = lx_diagnostics lx"
  "lx_strings (lexer_started lx) = lx_strings lx" "lx_pos (lexer_started lx) = lx_pos lx"
  "lx_source (lexer_started lx) = lx_source lx" "lexer_inv src (lexer_started lx) = lexer_inv src lx"
  by (simp_all add: lexer_started_def lx_rest_def lexer_peek_def lexer_peek2_def)

lemma take_drop_prefix:
  "drop (lx_pos lx) (lx_source lx) = w @ r \<Longrightarrow> take (length w) (drop (lx_pos lx) (lx_source lx)) = w"
  by simp

lemma keyword_table_nul_free: "(k, t) \<in> set keyword_table \<Longrightarrow> nul_free k"
  by (auto simp: keyword_table_def nul_free_def NUL_def)

lemma find_keyword:
  "find (\<lambda>(keyword, type). string_ref_equals_cstr ref keyword) keyword_table =
     map_option (\<lambda>t. (ref, t)) (map_of keyword_table ref)"
proof -
  have "\<forall>(k, t) \<in> set xs. nul_free k \<Longrightarrow>
      find (\<lambda>(keyword, type). string_ref_equals_cstr ref keyword) xs =
      map_option (\<lambda>t. (ref, t)) (map_of xs ref)" for xs :: "(string \<times> token_type) list"
    by (induction xs) (auto simp: string_ref_equals_cstr_iff)
  then show ?thesis using keyword_table_nul_free by blast
qed

lemma lexes_word:
  assumes ok: "lexeme_ok (Word w)" and rest: "lx_rest lx = w @ r" and sep: "parted (Word w) r"
  shows "lexes lx (Word w) r"
proof -
  obtain c cs where w: "w = c # cs" using ok by (cases w) auto
  have c: "is_ident_char c" "\<not> is_digit c" using ok w by auto
  have peek: "lexer_peek lx = c" using rest w by (simp add: lexer_peek_rest)
  have skip: "lexer_skip_trivia lx = lx"
    using ident_char_facts(1) [OF c(1)] peek by (intro lexer_skip_trivia_none) auto
  let ?lx = "lexer_started lx"
  have eaten: "lx_rest (lexer_eat_while is_ident_char ?lx) = r"
      "lx_pos (lexer_eat_while is_ident_char ?lx) = lx_pos lx + length w"
    using lexer_eat_while_rest [of ?lx w r is_ident_char] rest ok
      NUL_or_char [of "\<lambda>c. \<not> is_ident_char c" r] sep ident_char_facts(1) by (auto simp: parted_def)
  have ref: "take (length w) (drop (lx_pos lx) (lx_source lx)) = w"
    using rest by (simp add: lx_rest_def)
  have "c \<noteq> CHR ''.''" using c by (auto simp: is_ident_char_def is_alpha_def is_digit_def less_eq_char_def)
  then have "lexer_next lx = Some (lexer_identifier ?lx)"
    using peek c by (auto simp: lexer_next_def skip Let_def lexer_started_def [symmetric] is_ident_char_def)
  then show ?thesis
    using eaten ref
    by (auto simp: lexes_def lexer_identifier_def Let_def find_keyword token_create_ref_def split: option.split)
qed

lemma lexes_number:
  assumes ok: "lexeme_ok (Number n)" and rest: "lx_rest lx = show_nat n @ r" and sep: "parted (Number n) r"
  shows "lexes lx (Number n) r"
proof -
  let ?w = "show_nat n"
  obtain c cs where w: "?w = c # cs" by (cases ?w) auto
  have c: "is_digit c" using show_nat_digits [of n] w by auto
  have peek: "lexer_peek lx = c" using rest w by (simp add: lexer_peek_rest)
  have skip: "lexer_skip_trivia lx = lx"
    using ident_char_facts(2) [OF c(1)] peek by (intro lexer_skip_trivia_none) auto
  let ?lx = "lexer_started lx" and ?lx1 = "lexer_eat_while is_digit (lexer_started lx)"
  have stop: "r = [] \<or> hd r = NUL \<or> \<not> is_digit (hd r)"
    using NUL_or_char [of "\<lambda>c. \<not> is_digit c" r] sep by (simp add: parted_def)
  have eaten: "lx_rest ?lx1 = r"
    using lexer_eat_while_rest [of ?lx ?w r is_digit] rest show_nat_digits [of n] stop ident_char_facts(2) by auto
  have dot: "lexer_peek ?lx1 \<noteq> CHR ''.''"
    using sep by (simp add: lexer_peek_rest eaten parted_def first_char_def)
  have "takeWhile is_digit (?w @ r) = ?w"
    using show_nat_digits [of n] stop ident_char_facts(2) by (cases r) (auto simp: takeWhile_append)
  then have "strtoll10 (?w @ r) = Some (int n)" using ok by (simp add: strtoll10_def digits_value_show_nat)
  then have "strtoll10 (drop (lx_pos ?lx) (lx_source ?lx)) = Some (int n)" using rest by (simp add: lx_rest_def)
  moreover have "lexer_next lx = Some (lexer_number ?lx)"
    using peek c by (simp add: lexer_next_def skip Let_def lexer_started_def [symmetric])
  ultimately show ?thesis using eaten dot
    by (simp add: lexes_def lexer_number_def Let_def token_create_value_def)
qed

lemma lexes_builtin:
  assumes ok: "lexeme_ok (Builtin w)" and rest: "lx_rest lx = CHR ''@'' # w @ r" and sep: "parted (Builtin w) r"
  shows "lexes lx (Builtin w) r"
proof -
  have peek: "lexer_peek lx = CHR ''@''" using rest by (simp add: lexer_peek_rest)
  have skip: "lexer_skip_trivia lx = lx" using peek by (intro lexer_skip_trivia_none) (auto simp: is_space_def less_eq_char_def)
  let ?lx = "lexer_eat (lexer_started lx)"
  have rest1: "lx_rest ?lx = w @ r" using rest by (simp add: lx_rest_eat)
  have eaten: "lx_rest (lexer_eat_while is_ident_char ?lx) = r"
      "lx_pos (lexer_eat_while is_ident_char ?lx) = lx_pos ?lx + length w"
    using lexer_eat_while_rest [of ?lx w r is_ident_char] rest1 ok
      NUL_or_char [of "\<lambda>c. \<not> is_ident_char c" r] sep ident_char_facts(1) by (auto simp: parted_def)
  have ref: "take (length w) (drop (lx_pos ?lx) (lx_source ?lx)) = w"
    using rest1 by (simp add: lx_rest_def)
  have "lexer_next lx = Some (lexer_builtin ?lx)"
    using peek by (simp add: lexer_next_def skip Let_def lexer_started_def [symmetric] is_digit_def is_alpha_def
        less_eq_char_def NUL_def lexer_operator_def)
  moreover have "Suc (lx_pos lx) < length (lx_source lx)" using ref ok by (auto simp: not_le [symmetric])
  ultimately show ?thesis using eaten ref ok
    by (simp add: lexes_def lexer_builtin_def Let_def token_create_ref_def)
qed


lemmas lexer_char_simps = is_digit_def is_alpha_def is_space_def less_eq_char_def NUL_def

fun punct_plain :: "string \<Rightarrow> bool" where
  "punct_plain [] = False"
| "punct_plain (c # cs) \<longleftrightarrow> \<not> is_space c \<and> \<not> is_digit c \<and>
     \<not> is_alpha c \<and> c \<noteq> CHR ''_'' \<and> c \<noteq> CHR 0x22 \<and> c \<noteq> NUL \<and>
     (c = CHR ''/'' \<longrightarrow> cs = [] \<or> cs = ''='') \<and> (c = CHR ''.'' \<longrightarrow> cs = [] \<or> cs = ''.'')"

lemma punctuation_plain: "list_all (\<lambda>(p, sp). punct_plain sp) punctuation"
  by (simp add: punctuation_def lexer_char_simps)

lemma punct_not_special:
  assumes "(p, sp) \<in> set punctuation"
  shows "\<exists>c cs. sp = c # cs \<and> punct_plain (c # cs)"
proof -
  have "punct_plain sp" using assms punctuation_plain by (auto simp: list_all_iff)
  then show ?thesis by (cases sp) auto
qed

lemma lexer_peek_rest_Cons: "lx_rest lx = c # cs \<Longrightarrow> lexer_peek lx = c"
  by (simp add: lexer_peek_rest)

lemma lexer_operator_spelled:
  assumes "(p, c # cs) \<in> set punctuation" "lx_rest lx = cs @ r" "parted (Punct p) r"
  shows "\<exists>t lx'. lexer_operator lx c = (t, lx') \<and> lx_rest lx' = r \<and> tok_type t = p \<and>
           lx_diagnostics lx' = lx_diagnostics lx \<and> lx_strings lx' = lx_strings lx"
proof -
  have peek: "lexer_peek lx = (case cs @ r of [] \<Rightarrow> NUL | c # _ \<Rightarrow> c)"
    using assms(2) by (simp only: lexer_peek_rest)
  have eat: "lx_rest (lexer_eat lx) = tl (cs @ r)" using assms(2) by (simp only: lx_rest_eat)
  note ops = lexer_operator_def lexer_handle_eq_def lexer_handle_op_eq_def token_create_def Let_def
  show ?thesis
    using assms(1) unfolding punctuation_def list.set insert_iff empty_iff prod.inject list.inject
    by (elim disjE conjE FalseE) (use assms(3) in \<open>simp add: ops peek eat assms(2) parted_def flip: first_char_def\<close>)+
qed

lemma punct_one:
  "(p, ''/'') \<in> set punctuation \<Longrightarrow> p = TOKEN_DIV" "(p, ''.'') \<in> set punctuation \<Longrightarrow> p = TOKEN_DOT"
  by (auto simp: punctuation_def)

lemma lexes_punct:
  assumes ok: "lexeme_ok (Punct p)" and rest: "lx_rest lx = spelling (Punct p) @ r" and sep: "parted (Punct p) r"
  shows "lexes lx (Punct p) r"
proof -
  obtain sp where sp: "(p, sp) \<in> set punctuation" "spelling (Punct p) = sp"
  proof -
    obtain sp where "(p, sp) \<in> set punctuation" using ok by auto
    then obtain sp' where "map_of punctuation p = Some sp'" using weak_map_of_SomeI by fastforce
    then show thesis using that [of sp'] map_of_SomeD by fastforce
  qed
  obtain c cs where c: "sp = c # cs" "\<not> is_space c" "\<not> is_digit c" "\<not> is_alpha c" "c \<noteq> CHR ''_''"
      "c \<noteq> CHR 0x22" "c \<noteq> NUL" "c = CHR ''/'' \<longrightarrow> cs = [] \<or> cs = ''=''" "c = CHR ''.'' \<longrightarrow> cs = [] \<or> cs = ''.''"
    using punct_not_special [OF sp(1)] by (auto simp only: punct_plain.simps)
  have peek: "lexer_peek lx = c" using rest sp c by (simp add: lexer_peek_rest)
  have peek2: "cs = [] \<Longrightarrow> lexer_peek2 lx = first_char r"
    using rest sp c by (simp add: lexer_peek2_rest first_char_def)
  have stop: "cs = [] \<Longrightarrow> c = CHR ''/'' \<Longrightarrow> lexer_peek2 lx \<noteq> CHR ''/'' \<and> lexer_peek2 lx \<noteq> CHR ''*''"
      "cs = [] \<Longrightarrow> c = CHR ''.'' \<Longrightarrow> \<not> is_digit (lexer_peek2 lx)"
    using punct_one [of p] sp(1) c(1) peek2 sep by (auto simp: parted_def)
  have two: "cs = [d] \<Longrightarrow> lexer_peek2 lx = d" for d
    using rest sp c by (simp add: lexer_peek2_rest)
  have skip: "lexer_skip_trivia lx = lx"
  proof (rule lexer_skip_trivia_none)
    show "\<not> is_space (lexer_peek lx)" using peek c(2) by simp
    assume "lexer_peek lx = CHR ''/''"
    then have "cs = [] \<or> cs = ''=''" using peek c(8) by simp
    then show "lexer_peek2 lx \<noteq> CHR ''/'' \<and> lexer_peek2 lx \<noteq> CHR ''*''"
      using stop(1) two [of "CHR ''=''"] \<open>lexer_peek lx = CHR ''/''\<close> peek by (elim disjE) simp_all
  qed
  let ?lx = "lexer_eat (lexer_started lx)"
  have "lx_rest ?lx = cs @ r" using rest sp c by (simp add: lx_rest_eat)
  from lexer_operator_spelled [OF sp(1) [unfolded c(1)] this sep]
  obtain t lx' where t: "lexer_operator ?lx c = (t, lx')" "lx_rest lx' = r" "tok_type t = p"
      "lx_diagnostics lx' = lx_diagnostics lx" "lx_strings lx' = lx_strings lx" by auto
  have "\<not> (c = CHR ''.'' \<and> is_digit (lexer_peek2 lx))"
  proof
    assume *: "c = CHR ''.'' \<and> is_digit (lexer_peek2 lx)"
    then have "cs = [] \<or> cs = ''.''" using c(9) by simp
    then have "\<not> is_digit (lexer_peek2 lx)"
      using stop(2) two [of "CHR ''.''"] ident_char_facts(2) [of "CHR ''.''"] * by (elim disjE) auto
    with * show False by simp
  qed
  then have "(c = CHR ''.'' \<and> is_digit (lexer_peek2 lx)) = False" by blast
  then have "lexer_next lx = Some (lexer_operator ?lx c)"
    using peek c(3-7) by (simp only: lexer_next_def skip Let_def lexer_started_def [symmetric]
        lexer_started_simps) simp
  then show ?thesis using t by (simp add: lexes_def)
qed

lemma escape_char_spelled:
  "escape_char c = [c] \<and> c \<noteq> NUL \<and> c \<noteq> CHR 0x0A \<and> c \<noteq> CHR 0x5C \<and> c \<noteq> CHR 0x22 \<or>
   (\<exists>e. escape_char c = [CHR 0x5C, e] \<and> escape_value e = Some c)"
  by (auto simp: escape_char_def escape_value_def NUL_def)

lemma lexer_rest_update [simp]:
  "lx_rest (lx\<lparr>lx_scratch := s\<rparr>) = lx_rest lx" "lx_rest (lexer_reserve lx n) = lx_rest lx"
  "lx_rest (lx\<lparr>lx_strings := p\<rparr>) = lx_rest lx"
  by (simp_all add: lx_rest_def)

lemma lexer_string_char_spelled:
  assumes "lx_rest lx = escape_char c @ r"
  shows "\<exists>lx'. lexer_string_char lx opened = Inr (c, lx') \<and> tl (lx_rest lx') = r \<and>
     lx_diagnostics lx' = lx_diagnostics lx \<and> lx_strings lx' = lx_strings lx \<and>
     lx_scratch lx' = lx_scratch lx \<and> lx_scratch_capacity lx' = lx_scratch_capacity lx"
  using escape_char_spelled [of c]
proof
  assume "escape_char c = [c] \<and> c \<noteq> NUL \<and> c \<noteq> CHR 0x0A \<and> c \<noteq> CHR 0x5C \<and> c \<noteq> CHR 0x22"
  then show ?thesis using assms by (simp add: lexer_string_char_def lexer_peek_rest)
next
  assume "\<exists>e. escape_char c = [CHR 0x5C, e] \<and> escape_value e = Some c"
  then obtain e where e: "escape_char c = [CHR 0x5C, e]" "escape_value e = Some c" by blast
  then have "lexer_peek lx = CHR 0x5C" "lexer_peek (lexer_eat lx) = e" "lx_rest (lexer_eat lx) = e # r"
    using assms by (simp_all add: lexer_peek_rest lx_rest_eat)
  then show ?thesis using e by (simp add: lexer_string_char_def Let_def NUL_def)
qed

lemma lexer_string_loop_spelled:
  assumes "lexer_inv src lx" "lx_rest lx = concat (map escape_char s) @ CHR 0x22 # r" "len \<le> lx_scratch_capacity lx"
  shows "\<exists>lx'. lexer_string_loop lx opened len = Inr (len + length s, lx') \<and> lx_rest lx' = CHR 0x22 # r \<and>
     take (len + length s) (lx_scratch lx') = take len (lx_scratch lx) @ s \<and>
     lx_diagnostics lx' = lx_diagnostics lx \<and> lx_strings lx' = lx_strings lx"
  using assms
proof (induction s arbitrary: lx len)
  case Nil
  then show ?case by (subst lexer_string_loop.simps) (simp add: lexer_peek_rest)
next
  case (Cons c s)
  let ?rest = "concat (map escape_char s) @ CHR 0x22 # r"
  obtain lx1 where 1: "lexer_string_char lx opened = Inr (c, lx1)" "tl (lx_rest lx1) = ?rest"
      "lx_diagnostics lx1 = lx_diagnostics lx" "lx_strings lx1 = lx_strings lx"
      "lx_scratch lx1 = lx_scratch lx" "lx_scratch_capacity lx1 = lx_scratch_capacity lx"
    using lexer_string_char_spelled [of lx c ?rest opened] Cons.prems(2) by auto
  have inv1: "lexer_inv src lx1" "lexer_peek lx1 \<noteq> NUL"
    using lexer_moves_string_char [OF Cons.prems(1), of opened] 1(1) by (auto simp: lexer_moves_def)
  let ?lx2 = "lexer_reserve lx1 (len + 1)"
  let ?lx3 = "?lx2\<lparr>lx_scratch := (lx_scratch ?lx2)[len := c]\<rparr>"
  have inv3: "lexer_inv src ?lx3" using inv1 by (simp add: lexer_reserve_inv)
  have inv4: "lexer_inv src (lexer_eat ?lx3)" using inv1(2) by (intro lexer_inv_eat [OF inv3]) (simp add: lexer_peek_def)
  have room: "len < lx_scratch_capacity ?lx2" using lexer_reserve_room [of "len + 1" lx1] by simp
  have len2: "length (lx_scratch ?lx2) = lx_scratch_capacity ?lx2" using inv3 by (simp add: lexer_inv_def)
  have pre: "take len (lx_scratch ?lx2) = take len (lx_scratch lx)"
    using lexer_reserve_prefix [of lx1 len] Cons.prems(3) inv1(1) 1(5,6) by (simp add: lexer_inv_def)
  have "lx_rest (lexer_eat ?lx3) = ?rest" using 1(2) by (simp add: lx_rest_eat)
  from Cons.IH [OF inv4 this, of "len + 1"] room
  obtain lx' where IH: "lexer_string_loop (lexer_eat ?lx3) opened (len + 1) = Inr (len + 1 + length s, lx')"
      "lx_rest lx' = CHR 0x22 # r"
      "take (len + 1 + length s) (lx_scratch lx') = take (len + 1) ((lx_scratch ?lx2)[len := c]) @ s"
      "lx_diagnostics lx' = lx_diagnostics lx" "lx_strings lx' = lx_strings lx"
    using 1(3,4) by auto
  have "take (len + 1) ((lx_scratch ?lx2)[len := c]) = take len (lx_scratch lx) @ [c]"
    using room len2 pre by (simp add: take_Suc_conv_app_nth)
  moreover have "lexer_peek lx \<noteq> CHR 0x22"
    using Cons.prems(2) escape_char_spelled [of c] by (auto simp: lexer_peek_rest)
  ultimately show ?case using IH 1(1)
    by (subst lexer_string_loop.simps) (simp add: Let_def)
qed

lemma lexes_text:
  assumes inv: "lexer_inv src lx" and rest: "lx_rest lx = spelling (Text s) @ r"
  shows "lexes lx (Text s) r"
proof -
  have peek: "lexer_peek lx = CHR 0x22" using rest by (simp add: lexer_peek_rest)
  have skip: "lexer_skip_trivia lx = lx" using peek by (intro lexer_skip_trivia_none) (auto simp: lexer_char_simps)
  let ?lx = "lexer_eat (lexer_started lx)"
  let ?o = "\<lparr>sp_line = lx_start_line (lexer_started lx), sp_column = lx_start_column (lexer_started lx)\<rparr>"
  have inv1: "lexer_inv src ?lx" using inv peek by (intro lexer_inv_eat) (auto simp: NUL_def)
  have rest1: "lx_rest ?lx = concat (map escape_char s) @ CHR 0x22 # r" using rest by (simp add: lx_rest_eat)
  obtain lx1 where 1: "lexer_string_loop ?lx ?o 0 = Inr (length s, lx1)" "lx_rest lx1 = CHR 0x22 # r"
      "take (length s) (lx_scratch lx1) = s" "lx_diagnostics lx1 = lx_diagnostics lx" "lx_strings lx1 = lx_strings lx"
    using lexer_string_loop_spelled [OF inv1 rest1, of 0 ?o] by auto
  have "pool_inv (lx_strings lx)" using inv by (simp add: lexer_inv_def)
  from string_from_cstr_len_ok [OF this, of s] obtain a pool' where
    2: "string_from_cstr_len (lx_strings lx) s = Some (a, pool')" "a < length (sp_strings pool')"
      "sp_strings pool' ! a = s" "\<exists>newer. sp_strings pool' = sp_strings (lx_strings lx) @ newer" by blast
  have "lexer_next lx = lexer_string (lexer_started lx)"
    using peek by (simp add: lexer_next_def skip Let_def lexer_started_def [symmetric] lexer_char_simps)
  then show ?thesis using 1 2
    by (simp add: lexes_def lexer_string_def Let_def string_from_ref_def token_create_value_def lx_rest_eat)
qed

lemma lexes_lexeme:
  assumes "lexer_inv src lx" "lexeme_ok l" "lx_rest lx = spelling l @ r" "parted l r"
  shows "lexes lx l r"
proof (cases l)
  case (Punct p)
  then show ?thesis using lexes_punct [of p lx r] assms by (simp only:)
next
  case (Word w)
  then show ?thesis using lexes_word [of w lx r] assms by simp
next
  case (Builtin w)
  then show ?thesis using lexes_builtin [of w lx r] assms by simp
next
  case (Number n)
  then show ?thesis using lexes_number [of n lx r] assms by simp
next
  case (Text s)
  then show ?thesis using lexes_text [of src lx s r] assms by (simp only:)
qed

text \<open>The texts in which a list of lexemes is spelled, with white space where it is wanted and where two
  lexemes would join.\<close>

inductive spells :: "lexeme list \<Rightarrow> string \<Rightarrow> bool" where
  spells_end: "spells [] []"
| spells_space: "is_space c \<Longrightarrow> spells ls r \<Longrightarrow> spells ls (c # r)"
| spells_lexeme: "lexeme_ok l \<Longrightarrow> parted l r \<Longrightarrow> spells ls r \<Longrightarrow> spells (l # ls) (spelling l @ r)"

lemma token_of_grows:
  "token_of pool l t \<Longrightarrow> sp_strings pool' = sp_strings pool @ newer \<Longrightarrow> token_of pool' l t"
  by (cases l) (auto simp: nth_append)

lemma space_not_NUL: "is_space c \<Longrightarrow> c \<noteq> NUL"
  by (auto simp: is_space_def NUL_def less_eq_char_def)

lemma punct_spelling: "lexeme_ok (Punct p) \<Longrightarrow> (p, spelling (Punct p)) \<in> set punctuation"
proof -
  assume "lexeme_ok (Punct p)"
  then obtain sp where "(p, sp) \<in> set punctuation" by auto
  then obtain sp' where "map_of punctuation p = Some sp'" using weak_map_of_SomeI by fastforce
  then show ?thesis by (simp add: map_of_SomeD)
qed

lemma spelling_not_space: "lexeme_ok l \<Longrightarrow> \<exists>c cs. spelling l = c # cs \<and> \<not> is_space c"
proof (cases l)
  case (Punct p)
  assume "lexeme_ok l"
  then show ?thesis using punct_not_special [OF punct_spelling [of p]] Punct by auto
next
  case (Word w)
  assume "lexeme_ok l"
  then show ?thesis using Word ident_char_facts(1) by (cases w) auto
next
  case (Builtin w)
  then show ?thesis by (simp add: is_space_def less_eq_char_def)
next
  case (Number n)
  then show ?thesis using show_nat_digits [of n] ident_char_facts(2) by (cases "show_nat n") auto
next
  case (Text s)
  then show ?thesis by (simp add: is_space_def less_eq_char_def)
qed

lemma token_of_not_EOF: "lexeme_ok l \<Longrightarrow> token_of pool l t \<Longrightarrow> tok_type t \<noteq> TOKEN_EOF"
proof -
  assume *: "lexeme_ok l" "token_of pool l t"
  have "list_all (\<lambda>(p, sp). p \<noteq> TOKEN_EOF) punctuation" by (simp add: punctuation_def)
  then have "(TOKEN_EOF, sp) \<notin> set punctuation" for sp by (auto simp: list_all_iff)
  moreover have "list_all (\<lambda>(w, k). k \<noteq> TOKEN_EOF) keyword_table" by (simp add: keyword_table_def)
  then have "map_of keyword_table w \<noteq> Some TOKEN_EOF" for w
    by (auto simp: list_all_iff dest: map_of_SomeD)
  ultimately show ?thesis using * by (cases l) (auto split: option.splits)
qed

lemma lexer_tokens_spaces: "lexer_tokens n (lexer_eat_while is_space lx) = lexer_tokens n lx"
  by (cases n) (simp_all add: lexer_next_spaces)

lemma spells_ok: "spells ls r \<Longrightarrow> list_all lexeme_ok ls"
  by (induction rule: spells.induct) auto

lemma lexer_next_skips: "is_space c \<Longrightarrow> lx_rest lx = c # r \<Longrightarrow> lexer_eat_while is_space (lexer_eat lx) = lexer_eat_while is_space lx"
  using space_not_NUL [of c] by (subst (2) lexer_eat_while.simps) (simp add: lexer_peek_rest)

text \<open>The lexer before a spelled list of lexemes.\<close>

lemma lexer_reads_spells:
  assumes "spells ls r" "lexer_inv src lx" "lx_rest lx = r"
  obtains t lx' where "lexer_next lx = Some (t, lx')" "lx_diagnostics lx' = lx_diagnostics lx" "lexer_inv src lx'"
    "\<exists>newer. sp_strings (lx_strings lx') = sp_strings (lx_strings lx) @ newer"
    "case ls of [] \<Rightarrow> tok_type t = TOKEN_EOF \<and> lx_rest lx' = []
     | l # ls' \<Rightarrow> token_of (lx_strings lx') l t \<and> spells ls' (lx_rest lx')"
  using assms
proof (induction arbitrary: lx thesis rule: spells.induct)
  case spells_end
  then have peek: "lexer_peek lx = NUL" by (simp add: lexer_peek_rest)
  have skip: "lexer_skip_trivia lx = lx" using peek by (intro lexer_skip_trivia_none) (auto simp: lexer_char_simps)
  have "lexer_next lx = Some (token_create (lexer_started lx) TOKEN_EOF, lexer_started lx)"
    using peek by (simp add: lexer_next_def skip Let_def lexer_started_def [symmetric] lexer_char_simps)
  then show ?case using spells_end by (auto simp: token_create_def)
next
  case (spells_space c ls r)
  have inv: "lexer_inv src (lexer_eat lx)"
    using spells_space.prems(2,3) space_not_NUL [OF spells_space.hyps(1)] by (intro lexer_inv_eat) (auto simp: lexer_peek_rest)
  have rest: "lx_rest (lexer_eat lx) = r" using spells_space.prems(3) by (simp add: lx_rest_eat)
  have next': "lexer_next (lexer_eat lx) = lexer_next lx"
    using lexer_next_skips [OF spells_space.hyps(1) spells_space.prems(3)] lexer_next_spaces by metis
  from spells_space.IH [OF _ inv rest] next' show ?case
    using spells_space.prems(1) by (metis lexer_eat_simps(5,6))
next
  case (spells_lexeme l r ls)
  have "lexes lx l r" by (rule lexes_lexeme [OF spells_lexeme.prems(2) spells_lexeme.hyps(1) spells_lexeme.prems(3) spells_lexeme.hyps(2)])
  then obtain t lx' where t: "lexer_next lx = Some (t, lx')" "lx_rest lx' = r" "lx_diagnostics lx' = lx_diagnostics lx"
      "token_of (lx_strings lx') l t" "\<exists>newer. sp_strings (lx_strings lx') = sp_strings (lx_strings lx) @ newer"
    by (auto simp: lexes_def)
  have "lexer_inv src lx'" using lexer_next_ok [OF spells_lexeme.prems(2)] t(1) by auto
  then show ?case using spells_lexeme.prems(1) t spells_lexeme.hyps(3) by simp
qed

lemma lexer_tokens_spelled:
  assumes "lexer_inv src lx" "spells ls (lx_rest lx)" "length ls < n"
  shows "\<exists>ts eof lx'. lexer_tokens n lx = Some (ts @ [eof], lx') \<and> tok_type eof = TOKEN_EOF \<and>
           list_all2 (token_of (lx_strings lx')) ls ts \<and>
           lx_diagnostics lx' = lx_diagnostics lx \<and>
           (\<exists>newer. sp_strings (lx_strings lx') = sp_strings (lx_strings lx) @ newer)"
  using assms
proof (induction ls arbitrary: lx n)
  case Nil
  obtain t lx' where "lexer_next lx = Some (t, lx')" "lx_diagnostics lx' = lx_diagnostics lx" "tok_type t = TOKEN_EOF"
      "\<exists>newer. sp_strings (lx_strings lx') = sp_strings (lx_strings lx) @ newer"
    by (rule lexer_reads_spells [OF Nil(2,1) refl]) simp
  then show ?case using Nil(3) by (cases n) (auto intro!: exI [of _ "[]"])
next
  case (Cons l ls)
  obtain t lx1 where 1: "lexer_next lx = Some (t, lx1)" "lx_diagnostics lx1 = lx_diagnostics lx" "lexer_inv src lx1"
      "\<exists>newer. sp_strings (lx_strings lx1) = sp_strings (lx_strings lx) @ newer"
      "token_of (lx_strings lx1) l t" "spells ls (lx_rest lx1)"
    by (rule lexer_reads_spells [OF Cons.prems(2,1) refl]) simp
  have ok: "lexeme_ok l" using spells_ok [OF Cons.prems(2)] by simp
  obtain m where n: "n = Suc m" "length ls < m" using Cons.prems(3) by (cases n) auto
  from Cons.IH [OF 1(3,6) n(2)]
  obtain ts eof lx' where 2: "lexer_tokens m lx1 = Some (ts @ [eof], lx')" "tok_type eof = TOKEN_EOF"
      "list_all2 (token_of (lx_strings lx')) ls ts" "lx_diagnostics lx' = lx_diagnostics lx1"
      "\<exists>newer. sp_strings (lx_strings lx') = sp_strings (lx_strings lx1) @ newer" by auto
  have "tok_type t \<noteq> TOKEN_EOF" using token_of_not_EOF [OF ok 1(5)] .
  then have "lexer_tokens n lx = Some ((t # ts) @ [eof], lx')" using 1(1) 2(1) n(1) by simp
  moreover have "token_of (lx_strings lx') l t" using 1(5) 2(5) token_of_grows by auto
  then have "list_all2 (token_of (lx_strings lx')) (l # ls) (t # ts)" using 2(3) by simp
  moreover have "\<exists>newer. sp_strings (lx_strings lx') = sp_strings (lx_strings lx) @ newer" using 1(4) 2(5) by auto
  ultimately show ?case using 2(2,4) 1(2) by (metis (full_types))
qed

section \<open>Properties\<close>

lemma lexer_create_inv:
  "nul_free src \<Longrightarrow> pool_inv pool \<Longrightarrow> lexer_inv src (lexer_create src pool ds)"
  by (simp add: lexer_inv_def lexer_create_def source_line_def source_column_def)

text \<open>C7: lexing a source never faults and always ends: within as many calls as the source has
  characters, plus one, the lexer returns a sequence of tokens whose last and only last is the end
  of input; it then stands on the terminator, having never passed it; the tokens start at strictly
  increasing positions, and each carries the line and the column of the position it starts at.\<close>

theorem lexer_reads_whole_source:
  assumes "nul_free src" "pool_inv pool"
  shows "\<exists>ts lx ps. lexer_tokens (length src + 1) (lexer_create src pool ds) = Some (ts, lx) \<and>
           lexer_inv src lx \<and> lx_pos lx = length src \<and> ts \<noteq> [] \<and> tok_type (last ts) = TOKEN_EOF \<and>
           TOKEN_EOF \<notin> tok_type ` set (butlast ts) \<and> tokens_start_at src ps ts"
proof -
  have "length src - lx_pos (lexer_create src pool ds) < length src + 1" by simp
  from lexer_tokens_ok [OF lexer_create_inv [OF assms, of ds] this] show ?thesis by blast
qed

theorem lexer_reads_whole_source_witness:
  "\<exists>pool ts lx. string_pool_init = Some pool \<and>
     lexer_tokens 4 (lexer_create ''a+1'' pool (diagnostics_init None)) = Some (ts, lx) \<and>
     lx_pos lx = 3 \<and> tok_type (last ts) = TOKEN_EOF"
proof -
  obtain pool where pool: "string_pool_init = Some pool" "pool_inv pool" using string_pool_init_inv by blast
  have "nul_free ''a+1''" by (simp add: nul_free_def NUL_def)
  have "length ''a+1'' + 1 = (4 :: nat)" by simp
  from lexer_reads_whole_source [OF \<open>nul_free ''a+1''\<close> pool(2), of "diagnostics_init None", unfolded this]
  obtain ts lx where "lexer_tokens 4 (lexer_create ''a+1'' pool (diagnostics_init None)) = Some (ts, lx)"
      "lx_pos lx = 3" "tok_type (last ts) = TOKEN_EOF" by auto
  then show ?thesis using pool(1) by blast
qed

text \<open>C8: spelling out any list of punctuation, words, builtins, decimal numbers below \<open>2 ^ 63\<close> and
  escaped string literals, with any white space between them and none where two lexemes cannot be taken
  for another, and lexing the text gives back exactly those tokens and no diagnostic: words are
  classified as keywords or identifiers, numbers have their value, and a string literal's pointer is to
  the interned contents.\<close>

theorem lexer_round_trip:
  assumes "spells ls src" "nul_free src" "pool_inv pool"
  shows "\<exists>ts eof lx. lexer_tokens (length ls + 1) (lexer_create src pool ds) = Some (ts @ [eof], lx) \<and>
           tok_type eof = TOKEN_EOF \<and> list_all2 (token_of (lx_strings lx)) ls ts \<and>
           lx_diagnostics lx = ds"
proof -
  let ?lx = "lexer_create src pool ds"
  have "lx_rest ?lx = src" "lx_diagnostics ?lx = ds" by (simp_all add: lexer_create_def lx_rest_def)
  then show ?thesis
    using lexer_tokens_spelled [OF lexer_create_inv [OF assms(2,3)], of ls ds "length ls + 1"] assms(1) by auto
qed

definition round_trip_sample :: "lexeme list" where
  "round_trip_sample = [Word ''let'', Word ''x'', Punct TOKEN_PLUS_EQ, Number 42, Text [CHR 0x0A], Punct TOKEN_SEMICOLON]"

definition round_trip_text :: string where
  "round_trip_text = ''let x+=42 '' @ [CHR 0x22, CHR 0x5C, CHR ''n'', CHR 0x22, CHR '';'']"

lemma round_trip_spells: "spells round_trip_sample round_trip_text"
proof -
  have "spells [Punct TOKEN_SEMICOLON] (spelling (Punct TOKEN_SEMICOLON) @ [])"
    by (intro spells.intros) (simp_all add: punctuation_def parted_def)
  then have "spells [Text [CHR 0x0A], Punct TOKEN_SEMICOLON] (spelling (Text [CHR 0x0A]) @ '';'')"
    by (intro spells_lexeme) (simp_all add: punctuation_def parted_def)
  then have "spells [Number 42, Text [CHR 0x0A], Punct TOKEN_SEMICOLON] (spelling (Number 42) @ '' '' @ spelling (Text [CHR 0x0A]) @ '';'')"
    by (intro spells_lexeme) (simp_all add: parted_def lexer_char_simps spells_space space_facts)
  then have "spells [Punct TOKEN_PLUS_EQ, Number 42, Text [CHR 0x0A], Punct TOKEN_SEMICOLON]
      (spelling (Punct TOKEN_PLUS_EQ) @ spelling (Number 42) @ '' '' @ spelling (Text [CHR 0x0A]) @ '';'')"
    by (rule spells_lexeme [rotated 2]) (simp_all add: punctuation_def parted_def)
  then have "spells [Word ''x'', Punct TOKEN_PLUS_EQ, Number 42, Text [CHR 0x0A], Punct TOKEN_SEMICOLON]
      (spelling (Word ''x'') @ spelling (Punct TOKEN_PLUS_EQ) @ spelling (Number 42) @ '' '' @ spelling (Text [CHR 0x0A]) @ '';'')"
    by (rule spells_lexeme [rotated 2]) (simp_all add: punctuation_def parted_def is_ident_char_def lexer_char_simps)
  then have "spells [Word ''x'', Punct TOKEN_PLUS_EQ, Number 42, Text [CHR 0x0A], Punct TOKEN_SEMICOLON]
      (CHR '' '' # spelling (Word ''x'') @ spelling (Punct TOKEN_PLUS_EQ) @ spelling (Number 42) @ '' '' @ spelling (Text [CHR 0x0A]) @ '';'')"
    by (rule spells_space [OF space_facts(1)])
  then have "spells round_trip_sample (spelling (Word ''let'') @ CHR '' '' # spelling (Word ''x'') @ spelling (Punct TOKEN_PLUS_EQ) @
      spelling (Number 42) @ '' '' @ spelling (Text [CHR 0x0A]) @ '';'')"
    unfolding round_trip_sample_def
    by (rule spells_lexeme [rotated 2]) (simp_all add: parted_def is_ident_char_def lexer_char_simps)
  then show ?thesis by (simp add: round_trip_text_def punctuation_def escape_char_def show_nat.simps char_of_def bit_Suc_0_iff)
qed

theorem lexer_round_trip_witness:
  "\<exists>pool ts eof lx. string_pool_init = Some pool \<and>
     lexer_tokens 7 (lexer_create round_trip_text pool (diagnostics_init None)) = Some (ts @ [eof], lx) \<and>
     map tok_type ts = [TOKEN_LET, TOKEN_IDENT, TOKEN_PLUS_EQ, TOKEN_INT, TOKEN_STRING, TOKEN_SEMICOLON]"
proof -
  obtain pool where pool: "string_pool_init = Some pool" "pool_inv pool" using string_pool_init_inv by blast
  have "nul_free round_trip_text" by (simp add: round_trip_text_def nul_free_def NUL_def)
  note trip = lexer_round_trip [OF round_trip_spells this pool(2), of "diagnostics_init None"]
  have "length round_trip_sample + 1 = 7" by (simp add: round_trip_sample_def)
  from trip [unfolded this]
  obtain ts eof lx where 1: "lexer_tokens 7 (lexer_create round_trip_text pool (diagnostics_init None)) =
      Some (ts @ [eof], lx)" "list_all2 (token_of (lx_strings lx)) round_trip_sample ts"
    by blast
  have "map tok_type ts = [TOKEN_LET, TOKEN_IDENT, TOKEN_PLUS_EQ, TOKEN_INT, TOKEN_STRING, TOKEN_SEMICOLON]"
    using 1(2) by (auto simp: round_trip_sample_def list_all2_Cons1 keyword_table_def)
  then show ?thesis using pool(1) 1(1) by auto
qed



text \<open>A float literal's value is taken from text past its token: the lexer stops before an
  exponent, but \<open>strtof\<close> reads on, so \<^verbatim>\<open>1.5e2\<close> is the float 150 followed by the identifier \<^verbatim>\<open>e2\<close>.\<close>

theorem float_literal_reads_past_token:
  "\<exists>t lx' t2 lx2. lexer_next (lexer_create ''1.5e2'' pool ds) = Some (t, lx') \<and>
     tok_type t = TOKEN_FLOAT \<and> tok_value t = As_float 0x43160000 \<and> lx_rest lx' = ''e2'' \<and>
     lexer_next lx' = Some (t2, lx2) \<and> tok_type t2 = TOKEN_IDENT \<and> tok_lexeme t2 = ''e2''"
proof -
  let ?lx = "lexer_create ''1.5e2'' pool ds"
  let ?s = "lexer_started ?lx"
  have rest: "lx_rest ?s = ''1'' @ ''.5e2''" by (simp add: lx_rest_def lexer_create_def)
  have peek: "lexer_peek ?lx = CHR ''1''" by (simp add: lexer_peek_def src_at_def lexer_create_def)
  have skip: "lexer_skip_trivia ?lx = ?lx"
    using peek by (intro lexer_skip_trivia_none) (auto simp: lexer_char_simps)
  let ?lx1 = "lexer_eat_while is_digit ?s"
  have rest1: "lx_rest ?lx1 = ''.5e2''"
    using lexer_eat_while_rest [OF rest, of is_digit] by (simp add: lexer_char_simps)
  let ?lx2 = "lexer_eat_while is_digit (lexer_eat ?lx1)"
  have "lx_rest (lexer_eat ?lx1) = ''5'' @ ''e2''" by (simp add: lx_rest_eat rest1)
  then have rest2: "lx_rest ?lx2 = ''e2''"
    using lexer_eat_while_rest [of "lexer_eat ?lx1" "''5''" "''e2''" is_digit] by (simp add: lexer_char_simps)
  have "lexer_next ?lx = Some (lexer_number ?s)"
    using peek by (simp add: lexer_next_def skip Let_def lexer_started_def [symmetric] lexer_char_simps)
  moreover have "drop (lx_pos ?s) (lx_source ?s) = ''1.5e2''" by (simp add: lexer_create_def)
  moreover have "strtof ''1.5e2'' = 0x43160000" by (simp add: strto_eval f32_eval)
  ultimately have 1: "lexer_next ?lx = Some (token_create_value ?lx2 TOKEN_FLOAT (As_float 0x43160000), ?lx2)"
    using rest1 by (simp add: lexer_number_def Let_def lexer_peek_rest lexer_peek2_rest)
  have "lexes ?lx2 (Word ''e2'') []"
    using rest2 by (intro lexes_word) (simp_all add: is_ident_char_def lexer_char_simps parted_def)
  then obtain t2 lx3 where "lexer_next ?lx2 = Some (t2, lx3)" "tok_lexeme t2 = ''e2''" "tok_type t2 = TOKEN_IDENT"
    by (auto simp: lexes_def keyword_table_def)
  then show ?thesis using 1 rest2 by (auto simp: token_create_value_def)
qed

end
