(* ===== verification/Types.thy ===== *)
theory Types
  imports Float32
begin

text \<open>
  Types and compile-time constants: \<^verbatim>\<open>src/type/type.h\<close>, \<^verbatim>\<open>src/type/type_internal.h\<close>,
  \<^verbatim>\<open>src/type/type.c\<close>, \<^verbatim>\<open>src/constant.h\<close>, \<^verbatim>\<open>src/constant.c\<close> and \<^verbatim>\<open>src/decl_id.h\<close>.

  The compiler makes every type through a registry that never makes two objects for one type, and
  compares \<^verbatim>\<open>Type *\<close> by address; here a type is the tree it stands for and two pointers are equal
  when the trees are (\<open>structural_equality_is_identity\<close> is the property of the interning key that
  this rests on).  Declarations are shared and cyclic (a field may mention its own declaration), so
  \<^verbatim>\<open>TypeDecl *\<close> stays a pointer: an index into the table of declarations made so far.  A \<^verbatim>\<open>String *\<close>
  name is its contents, as interning allows.  \<^verbatim>\<open>NULL\<close> is \<open>None\<close>; the \<open>None\<close> of a result is a failed
  assertion.
\<close>

section \<open>Declaration identities\<close>

record decl_id =
  di_module :: "string option"
  di_owner :: "string option"
  di_name :: "string option"
  di_block :: nat

definition no_decl_id :: decl_id where
  "no_decl_id = \<lparr>di_module = None, di_owner = None, di_name = None, di_block = 0\<rparr>"

definition decl_id_equals :: "decl_id \<Rightarrow> decl_id \<Rightarrow> bool" where
  "decl_id_equals a b \<longleftrightarrow>
     di_module a = di_module b \<and> di_owner a = di_owner b \<and> di_name a = di_name b \<and> di_block a = di_block b"

text \<open>The hash reads the addresses of the interned names: \<open>at\<close> gives them.\<close>

definition decl_id_hash :: "(string option \<Rightarrow> size_t) \<Rightarrow> decl_id \<Rightarrow> size_t" where
  "decl_id_hash at d =
     ((at (di_module d) * 31 + at (di_owner d)) * 31 + at (di_name d)) * 31 + of_nat (di_block d)"

definition decl_id_is_set :: "decl_id \<Rightarrow> bool" where
  "decl_id_is_set d \<longleftrightarrow> di_name d \<noteq> None"

section \<open>Types\<close>

datatype type_kind =
  TYPE_I32 | TYPE_F32 | TYPE_BOOL | TYPE_U8 | TYPE_USIZE | TYPE_RAW | TYPE_STR | TYPE_ARRAY
| TYPE_SLICE | TYPE_STRUCT | TYPE_REF | TYPE_PARAM | TYPE_UNKNOWN | TYPE_ERROR

text \<open>The union of a constant by the member that was stored; a string is the address of its object
  in the pool.\<close>

datatype const_value =
  Const_int int64_t | Const_float float32 | Const_bool bool | Const_string nat

text \<open>\<open>struct Type\<close>: the union's members are the pointee of a reference or raw pointer and the index
  of a parameter (\<^verbatim>\<open>record.substituted\<close> caches the result of a pure function and is left out).\<close>

datatype gtype =
  Type (ty_kind: type_kind) (ty_name: "string option") (ty_decl: "nat option")
       (ty_args: "type_arg list") (ty_has_param: bool) (ty_pointee: "gtype option") (ty_index: nat)
and type_arg = TYPE_ARG_TYPE "gtype option" | TYPE_ARG_CONST type_const
and type_const = CONST_VALUE const | CONST_PARAM nat
and const = Constant (ct_type: "gtype option") (ct_value: const_value)

definition GAB_MAX_TYPE_PARAMS :: nat where
  "GAB_MAX_TYPE_PARAMS = 4"

record type_field =
  tf_name :: string
  tf_type :: "gtype option"

record type_decl =
  td_id :: decl_id
  td_param_count :: nat
  td_fields :: "type_field list"

definition type_init :: "type_kind \<Rightarrow> string option \<Rightarrow> gtype" where
  "type_init kind name = Type kind name None [] (kind = TYPE_PARAM) None 0"

datatype type_metadata = TYPE_META_NONE | TYPE_META_LENGTH

fun type_metadata_of :: "gtype option \<Rightarrow> type_metadata" where
  "type_metadata_of None = TYPE_META_NONE"
| "type_metadata_of (Some t) =
     (case ty_kind t of TYPE_STR \<Rightarrow> TYPE_META_LENGTH | TYPE_SLICE \<Rightarrow> TYPE_META_LENGTH | _ \<Rightarrow> TYPE_META_NONE)"

fun type_is_str_ref :: "gtype option \<Rightarrow> bool" where
  "type_is_str_ref None = False"
| "type_is_str_ref (Some t) \<longleftrightarrow> ty_kind t = TYPE_REF \<and>
     (case ty_pointee t of None \<Rightarrow> False | Some p \<Rightarrow> ty_kind p = TYPE_STR)"

fun type_is_sized :: "gtype option \<Rightarrow> bool" where
  "type_is_sized None = True"
| "type_is_sized (Some t) =
     (case ty_kind t of TYPE_STR \<Rightarrow> False | TYPE_SLICE \<Rightarrow> False | TYPE_PARAM \<Rightarrow> False | _ \<Rightarrow> True)"

fun type_pointee :: "gtype option \<Rightarrow> gtype option" where
  "type_pointee None = None"
| "type_pointee (Some t) =
     (case ty_kind t of TYPE_REF \<Rightarrow> ty_pointee t | TYPE_RAW \<Rightarrow> ty_pointee t | _ \<Rightarrow> None)"

fun type_is_indirect :: "gtype option \<Rightarrow> bool" where
  "type_is_indirect None = False"
| "type_is_indirect (Some t) \<longleftrightarrow> ty_kind t = TYPE_REF"

fun type_array_element :: "gtype option \<Rightarrow> gtype option option" where
  "type_array_element None = None"
| "type_array_element (Some t) =
     (case ty_args t of
        [TYPE_ARG_TYPE e, _] \<Rightarrow> if ty_kind t = TYPE_ARRAY then Some e else None
      | _ \<Rightarrow> None)"

fun type_slice_element :: "gtype option \<Rightarrow> gtype option option" where
  "type_slice_element None = None"
| "type_slice_element (Some t) =
     (case ty_args t of
        [TYPE_ARG_TYPE e] \<Rightarrow> if ty_kind t = TYPE_SLICE then Some e else None
      | _ \<Rightarrow> None)"

fun type_array_length_is_known :: "gtype option \<Rightarrow> bool" where
  "type_array_length_is_known None = False"
| "type_array_length_is_known (Some t) \<longleftrightarrow> ty_kind t = TYPE_ARRAY \<and>
     (case ty_args t of [_, TYPE_ARG_CONST (CONST_VALUE _)] \<Rightarrow> True | _ \<Rightarrow> False)"

text \<open>Reading a member of the union other than the one stored reinterprets its bytes (those a
  narrower member does not cover are zero).\<close>

fun as_int :: "const_value \<Rightarrow> int64_t" where
  "as_int (Const_int n) = n"
| "as_int (Const_float f) = ucast f"
| "as_int (Const_bool b) = (if b then 1 else 0)"
| "as_int (Const_string a) = of_nat a"

fun as_float :: "const_value \<Rightarrow> float32" where
  "as_float (Const_float f) = f"
| "as_float v = ucast (as_int v)"

fun as_bool :: "const_value \<Rightarrow> bool" where
  "as_bool (Const_bool b) = b"
| "as_bool v = (ucast (as_int v) \<noteq> (0 :: 8 word))"

fun as_string :: "const_value \<Rightarrow> nat" where
  "as_string (Const_string a) = a"
| "as_string v = unat (as_int v)"

text \<open>\<^verbatim>\<open>type_array_length\<close> returns an \<^verbatim>\<open>int32_t\<close>: the stored 64-bit count is truncated.\<close>

fun type_array_length :: "gtype option \<Rightarrow> int32_t option" where
  "type_array_length t =
     (if type_array_length_is_known t then
        (case t of Some (Type _ _ _ [_, TYPE_ARG_CONST (CONST_VALUE c)] _ _ _) \<Rightarrow> Some (ucast (as_int (ct_value c)))
         | _ \<Rightarrow> None)
      else None)"

fun type_is_primitive :: "gtype \<Rightarrow> bool" where
  "type_is_primitive t =
     (case ty_kind t of
        TYPE_I32 \<Rightarrow> True | TYPE_F32 \<Rightarrow> True | TYPE_BOOL \<Rightarrow> True | TYPE_U8 \<Rightarrow> True | TYPE_USIZE \<Rightarrow> True
      | TYPE_STR \<Rightarrow> True | TYPE_SLICE \<Rightarrow> True | TYPE_ARRAY \<Rightarrow> True | TYPE_RAW \<Rightarrow> True | _ \<Rightarrow> False)"

fun type_is_integer :: "gtype option \<Rightarrow> bool" where
  "type_is_integer None = False"
| "type_is_integer (Some t) =
     (case ty_kind t of TYPE_I32 \<Rightarrow> True | TYPE_U8 \<Rightarrow> True | TYPE_USIZE \<Rightarrow> True | _ \<Rightarrow> False)"

fun type_is_unsigned :: "gtype option \<Rightarrow> bool" where
  "type_is_unsigned None = False"
| "type_is_unsigned (Some t) = (case ty_kind t of TYPE_U8 \<Rightarrow> True | TYPE_USIZE \<Rightarrow> True | _ \<Rightarrow> False)"

fun type_names_itself :: "gtype \<Rightarrow> bool" where
  "type_names_itself t =
     (case ty_kind t of
        TYPE_I32 \<Rightarrow> True | TYPE_F32 \<Rightarrow> True | TYPE_BOOL \<Rightarrow> True | TYPE_U8 \<Rightarrow> True | TYPE_USIZE \<Rightarrow> True
      | TYPE_STR \<Rightarrow> True | TYPE_ERROR \<Rightarrow> True | TYPE_PARAM \<Rightarrow> True | _ \<Rightarrow> False)"

fun type_param_index :: "gtype option \<Rightarrow> nat option" where
  "type_param_index None = None"
| "type_param_index (Some t) = (if ty_kind t = TYPE_PARAM then Some (ty_index t) else None)"

fun type_has_param :: "gtype option \<Rightarrow> bool" where
  "type_has_param None = False"
| "type_has_param (Some t) = ty_has_param t"

fun type_arg_is_set :: "type_arg \<Rightarrow> bool" where
  "type_arg_is_set (TYPE_ARG_TYPE t) \<longleftrightarrow> t \<noteq> None"
| "type_arg_is_set (TYPE_ARG_CONST c) = True"

section \<open>Constants\<close>

fun kind_is :: "type_kind \<Rightarrow> gtype option \<Rightarrow> bool" where
  "kind_is k None = False"
| "kind_is k (Some t) \<longleftrightarrow> ty_kind t = k"

definition constant_is_int :: "const \<Rightarrow> bool" where
  "constant_is_int c \<longleftrightarrow> ct_type c \<noteq> None \<and> type_is_integer (ct_type c)"

definition constant_is_float :: "const \<Rightarrow> bool" where
  "constant_is_float c \<longleftrightarrow> kind_is TYPE_F32 (ct_type c)"

definition constant_is_bool :: "const \<Rightarrow> bool" where
  "constant_is_bool c \<longleftrightarrow> kind_is TYPE_BOOL (ct_type c)"

definition constant_is_string :: "const \<Rightarrow> bool" where
  "constant_is_string c \<longleftrightarrow> kind_is TYPE_STR (ct_type c)"

definition constant_int :: "gtype option \<Rightarrow> int64_t \<Rightarrow> const" where
  "constant_int t v = Constant t (Const_int v)"

definition constant_float :: "gtype option \<Rightarrow> float32 \<Rightarrow> const" where
  "constant_float t v = Constant t (Const_float v)"

definition constant_bool :: "gtype option \<Rightarrow> bool \<Rightarrow> const" where
  "constant_bool t v = Constant t (Const_bool v)"

definition constant_string :: "gtype option \<Rightarrow> nat \<Rightarrow> const" where
  "constant_string t s = Constant t (Const_string s)"

definition constant_equals :: "const \<Rightarrow> const \<Rightarrow> bool" where
  "constant_equals a b =
     (if ct_type a \<noteq> ct_type b then False
      else if constant_is_string a then as_string (ct_value a) = as_string (ct_value b)
      else if constant_is_float a then f32_eq (as_float (ct_value a)) (as_float (ct_value b))
      else if constant_is_bool a then as_bool (ct_value a) = as_bool (ct_value b)
      else as_int (ct_value a) = as_int (ct_value b))"

definition constant_hash :: "const \<Rightarrow> size_t" where
  "constant_hash c =
     (if constant_is_string c then of_nat (as_string (ct_value c))
      else if constant_is_float c then ucast (as_float (ct_value c))
      else ucast (ucast (as_int (ct_value c)) :: 32 word))"

section \<open>Equality and hashing of applied types\<close>

fun type_arg_hash :: "(gtype option \<Rightarrow> size_t) \<Rightarrow> type_arg \<Rightarrow> size_t" where
  "type_arg_hash at (TYPE_ARG_TYPE t) = at t"
| "type_arg_hash at (TYPE_ARG_CONST (CONST_PARAM i)) = of_nat i"
| "type_arg_hash at (TYPE_ARG_CONST (CONST_VALUE c)) = constant_hash c"

fun type_arg_equals :: "type_arg \<Rightarrow> type_arg \<Rightarrow> bool" where
  "type_arg_equals (TYPE_ARG_TYPE t) (TYPE_ARG_TYPE u) \<longleftrightarrow> t = u"
| "type_arg_equals (TYPE_ARG_CONST (CONST_PARAM i)) (TYPE_ARG_CONST (CONST_PARAM j)) \<longleftrightarrow> i = j"
| "type_arg_equals (TYPE_ARG_CONST (CONST_VALUE c)) (TYPE_ARG_CONST (CONST_VALUE d)) \<longleftrightarrow> constant_equals c d"
| "type_arg_equals _ _ \<longleftrightarrow> False"

text \<open>\<^verbatim>\<open>type->decl->id\<close>; a missing declaration is a NULL dereference.\<close>

definition decl_of :: "type_decl list \<Rightarrow> gtype \<Rightarrow> type_decl option" where
  "decl_of ds t = (case ty_decl t of None \<Rightarrow> None | Some d \<Rightarrow> if d < length ds then Some (ds ! d) else None)"

definition type_kind_number :: "type_kind \<Rightarrow> nat" where
  "type_kind_number k =
     (case k of TYPE_I32 \<Rightarrow> 0 | TYPE_F32 \<Rightarrow> 1 | TYPE_BOOL \<Rightarrow> 2 | TYPE_U8 \<Rightarrow> 3 | TYPE_USIZE \<Rightarrow> 4 | TYPE_RAW \<Rightarrow> 5
      | TYPE_STR \<Rightarrow> 6 | TYPE_ARRAY \<Rightarrow> 7 | TYPE_SLICE \<Rightarrow> 8 | TYPE_STRUCT \<Rightarrow> 9 | TYPE_REF \<Rightarrow> 10 | TYPE_PARAM \<Rightarrow> 11
      | TYPE_UNKNOWN \<Rightarrow> 12 | TYPE_ERROR \<Rightarrow> 13)"

definition hash_step :: "size_t \<Rightarrow> size_t \<Rightarrow> size_t" where
  "hash_step hash x = (push_bit 5 hash + hash) + x"

fun type_args_hash :: "(gtype option \<Rightarrow> size_t) \<Rightarrow> size_t \<Rightarrow> type_arg list \<Rightarrow> size_t" where
  "type_args_hash at hash [] = hash"
| "type_args_hash at hash (a # as) =
     type_args_hash at
       (hash_step (hash_step hash (case a of TYPE_ARG_TYPE _ \<Rightarrow> 0 | TYPE_ARG_CONST _ \<Rightarrow> 1)) (type_arg_hash at a)) as"

definition type_structural_hash ::
  "type_decl list \<Rightarrow> (gtype option \<Rightarrow> size_t) \<Rightarrow> (string option \<Rightarrow> size_t) \<Rightarrow> gtype \<Rightarrow> size_t option" where
  "type_structural_hash ds at name_at t =
     (let hash = hash_step 5381 (of_nat (type_kind_number (ty_kind t))) in
      case ty_kind t of
        TYPE_REF \<Rightarrow> Some (hash_step hash (at (ty_pointee t)))
      | TYPE_RAW \<Rightarrow> Some (hash_step hash (at (ty_pointee t)))
      | k \<Rightarrow>
          if k = TYPE_ARRAY \<or> k = TYPE_SLICE \<or> k = TYPE_STRUCT then
            map_option (\<lambda>d. type_args_hash at (hash_step hash (decl_id_hash name_at (td_id d))) (ty_args t))
              (decl_of ds t)
          else Some hash)"

fun type_args_equal :: "type_arg list \<Rightarrow> type_arg list \<Rightarrow> bool" where
  "type_args_equal [] [] = True"
| "type_args_equal (a # as) (b # bs) \<longleftrightarrow> type_arg_equals a b \<and> type_args_equal as bs"
| "type_args_equal _ _ = False"

definition type_structurally_equals :: "type_decl list \<Rightarrow> gtype \<Rightarrow> gtype \<Rightarrow> bool option" where
  "type_structurally_equals ds t u =
     (if ty_kind t \<noteq> ty_kind u then Some False
      else case ty_kind t of
        TYPE_REF \<Rightarrow> Some (ty_pointee t = ty_pointee u)
      | TYPE_RAW \<Rightarrow> Some (ty_pointee t = ty_pointee u)
      | k \<Rightarrow>
          if k = TYPE_ARRAY \<or> k = TYPE_SLICE \<or> k = TYPE_STRUCT then
            (case (decl_of ds t, decl_of ds u) of
               (Some d, Some e) \<Rightarrow>
                 Some (if \<not> decl_id_equals (td_id d) (td_id e) \<or> length (ty_args t) \<noteq> length (ty_args u) then False
                       else type_args_equal (ty_args t) (ty_args u))
             | _ \<Rightarrow> None)
          else Some (t = u))"

section \<open>Instances and conformances\<close>

record instance_id =
  ii_decl :: decl_id
  ii_args :: "type_arg list"

definition instance_id_of :: "decl_id \<Rightarrow> type_arg list \<Rightarrow> instance_id" where
  "instance_id_of decl args = \<lparr>ii_decl = decl, ii_args = take GAB_MAX_TYPE_PARAMS args\<rparr>"

definition instance_id_equals :: "instance_id \<Rightarrow> instance_id \<Rightarrow> bool" where
  "instance_id_equals a b =
     (if \<not> decl_id_equals (ii_decl a) (ii_decl b) \<or> length (ii_args a) \<noteq> length (ii_args b) then False
      else type_args_equal (ii_args a) (ii_args b))"

definition instance_id_hash ::
  "(gtype option \<Rightarrow> size_t) \<Rightarrow> (string option \<Rightarrow> size_t) \<Rightarrow> instance_id \<Rightarrow> size_t" where
  "instance_id_hash at name_at i =
     foldl (\<lambda>hash a. hash * 31 + type_arg_hash at a) (decl_id_hash name_at (ii_decl i)) (ii_args i)"

record conformance_key =
  ck_owner :: decl_id
  ck_interface :: instance_id

definition type_owner_id :: "type_decl list \<Rightarrow> gtype \<Rightarrow> decl_id" where
  "type_owner_id ds t = (case decl_of ds t of Some d \<Rightarrow> td_id d | None \<Rightarrow> no_decl_id)"

definition conformance_key_of ::
  "type_decl list \<Rightarrow> gtype \<Rightarrow> decl_id \<Rightarrow> type_arg list \<Rightarrow> conformance_key" where
  "conformance_key_of ds t interface args =
     \<lparr>ck_owner = type_owner_id ds t, ck_interface = instance_id_of interface args\<rparr>"

definition conformance_key_equals :: "conformance_key \<Rightarrow> conformance_key \<Rightarrow> bool" where
  "conformance_key_equals a b \<longleftrightarrow>
     decl_id_equals (ck_owner a) (ck_owner b) \<and> instance_id_equals (ck_interface a) (ck_interface b)"

definition conformance_key_hash_of ::
  "(gtype option \<Rightarrow> size_t) \<Rightarrow> (string option \<Rightarrow> size_t) \<Rightarrow> conformance_key \<Rightarrow> size_t" where
  "conformance_key_hash_of at name_at k =
     decl_id_hash name_at (ck_owner k) * 31 + instance_id_hash at name_at (ck_interface k)"

record type_member_key =
  mk_owner :: decl_id
  mk_name :: string

definition type_member_key_of :: "type_decl list \<Rightarrow> gtype \<Rightarrow> string \<Rightarrow> type_member_key" where
  "type_member_key_of ds t name = \<lparr>mk_owner = type_owner_id ds t, mk_name = name\<rparr>"

end
