(* ===== verification/Type_Registry.thy ===== *)
theory Type_Registry
  imports Types Arena
begin

text \<open>
  The type registry: \<^verbatim>\<open>src/type/type_registry.c\<close>, \<^verbatim>\<open>src/type/type_registry.h\<close> and
  \<^verbatim>\<open>src/type/type_layout.h\<close>.  Its state is the table of declarations, the declared conformances, the
  intrinsics and the well-known names; the hash tables \<^verbatim>\<open>applications\<close> and \<^verbatim>\<open>layouts\<close> and the cache in
  \<^verbatim>\<open>record.substituted\<close> only remember results of the functions below and are left out (a map answers
  as \<^verbatim>\<open>Hash_Map\<close> proves).  \<open>None\<close> is a failed assertion or a recursion that does not end, which is
  what a type that contains itself by value causes.
\<close>

section \<open>State\<close>

record known_names =
  kn_i32 :: string  kn_f32 :: string  kn_boolean :: string  kn_u8 :: string  kn_usize :: string
  kn_str :: string  kn_slice :: string  kn_raw :: string  kn_array :: string  kn_self :: string
  kn_error :: string
  kn_destroy_interface :: decl_id
  kn_destroy_method :: string  kn_unique :: string  kn_index :: string  kn_len :: string
  kn_as_bytes :: string  kn_caller :: string  kn_size_of :: string

definition known_names :: known_names where
  "known_names =
     \<lparr>kn_i32 = ''i32'', kn_f32 = ''f32'', kn_boolean = ''bool'', kn_u8 = ''u8'', kn_usize = ''usize'',
      kn_str = ''str'', kn_slice = ''slice'', kn_raw = ''raw'', kn_array = ''array'', kn_self = ''Self'',
      kn_error = ''<error>'',
      kn_destroy_interface = \<lparr>di_module = Some ''core'', di_owner = None, di_name = Some ''Destroy'', di_block = 0\<rparr>,
      kn_destroy_method = ''destroy'', kn_unique = ''Unique'', kn_index = ''index'', kn_len = ''len'',
      kn_as_bytes = ''as_bytes'', kn_caller = ''caller'', kn_size_of = ''size_of''\<rparr>"

record intrinsic_lowering =
  il_owner :: string
  il_name :: string

record type_registry =
  tr_decls :: "type_decl list"
  tr_conformances :: "conformance_key list"
  tr_names :: known_names
  tr_intrinsics :: "intrinsic_lowering list"
  tr_slice_decl :: nat
  tr_array_decl :: nat
  tr_raw_decl :: nat

text \<open>The declarations \<^verbatim>\<open>register_primitives\<close> makes, in the order it makes them: each primitive's
  type points to its own.\<close>

definition builtin_decl :: "string \<Rightarrow> nat \<Rightarrow> type_decl" where
  "builtin_decl name params =
     \<lparr>td_id = no_decl_id\<lparr>di_name := Some name\<rparr>, td_param_count = params, td_fields = []\<rparr>"

definition register_builtin :: "type_kind \<Rightarrow> string \<Rightarrow> nat \<Rightarrow> gtype" where
  "register_builtin kind name decl =
     (case type_init kind (Some name) of Type k n _ as hp p i \<Rightarrow> Type k n (Some decl) as hp p i)"

definition type_registry_create :: "known_names \<Rightarrow> type_registry" where
  "type_registry_create names =
     \<lparr>tr_decls =
        [builtin_decl (kn_i32 names) 0, builtin_decl (kn_f32 names) 0, builtin_decl (kn_boolean names) 0,
         builtin_decl (kn_u8 names) 0, builtin_decl (kn_usize names) 0, builtin_decl (kn_str names) 0,
         builtin_decl (kn_error names) 0, builtin_decl (kn_slice names) 1, builtin_decl (kn_array names) 2,
         builtin_decl (kn_raw names) 1],
      tr_conformances = [],
      tr_names = names,
      tr_intrinsics =
        [\<lparr>il_owner = kn_array names, il_name = kn_index names\<rparr>, \<lparr>il_owner = kn_array names, il_name = kn_len names\<rparr>,
         \<lparr>il_owner = kn_slice names, il_name = kn_index names\<rparr>, \<lparr>il_owner = kn_slice names, il_name = kn_len names\<rparr>,
         \<lparr>il_owner = kn_raw names, il_name = kn_index names\<rparr>, \<lparr>il_owner = kn_str names, il_name = kn_as_bytes names\<rparr>],
      tr_slice_decl = 7, tr_array_decl = 8, tr_raw_decl = 9\<rparr>"

fun type_registry_get_primitive :: "type_registry \<Rightarrow> type_kind \<Rightarrow> gtype option" where
  "type_registry_get_primitive reg kind =
     (case kind of
        TYPE_I32 \<Rightarrow> Some (register_builtin TYPE_I32 (kn_i32 (tr_names reg)) 0)
      | TYPE_F32 \<Rightarrow> Some (register_builtin TYPE_F32 (kn_f32 (tr_names reg)) 1)
      | TYPE_BOOL \<Rightarrow> Some (register_builtin TYPE_BOOL (kn_boolean (tr_names reg)) 2)
      | TYPE_U8 \<Rightarrow> Some (register_builtin TYPE_U8 (kn_u8 (tr_names reg)) 3)
      | TYPE_USIZE \<Rightarrow> Some (register_builtin TYPE_USIZE (kn_usize (tr_names reg)) 4)
      | TYPE_STR \<Rightarrow> Some (register_builtin TYPE_STR (kn_str (tr_names reg)) 5)
      | TYPE_ERROR \<Rightarrow> Some (register_builtin TYPE_ERROR (kn_error (tr_names reg)) 6)
      | _ \<Rightarrow> None)"

definition type_registry_error_type :: "type_registry \<Rightarrow> gtype" where
  "type_registry_error_type reg = register_builtin TYPE_ERROR (kn_error (tr_names reg)) 6"

definition type_registry_names :: "type_registry \<Rightarrow> known_names" where
  "type_registry_names reg = tr_names reg"

section \<open>Making types\<close>

definition decl_name :: "type_registry \<Rightarrow> nat \<Rightarrow> string option" where
  "decl_name reg d = (if d < length (tr_decls reg) then di_name (td_id (tr_decls reg ! d)) else None)"

definition arg_has_param :: "type_arg \<Rightarrow> bool" where
  "arg_has_param a =
     (case a of TYPE_ARG_TYPE t \<Rightarrow> type_has_param t
      | TYPE_ARG_CONST (CONST_PARAM _) \<Rightarrow> True | TYPE_ARG_CONST (CONST_VALUE _) \<Rightarrow> False)"

definition type_registry_slice_of :: "type_registry \<Rightarrow> gtype option \<Rightarrow> gtype" where
  "type_registry_slice_of reg element =
     Type TYPE_SLICE (decl_name reg (tr_slice_decl reg)) (Some (tr_slice_decl reg)) [TYPE_ARG_TYPE element]
       (type_has_param element) None 0"

definition type_registry_array_with :: "type_registry \<Rightarrow> gtype option \<Rightarrow> type_arg \<Rightarrow> gtype" where
  "type_registry_array_with reg element len =
     Type TYPE_ARRAY (decl_name reg (tr_array_decl reg)) (Some (tr_array_decl reg)) [TYPE_ARG_TYPE element, len]
       (type_has_param element \<or> (case len of TYPE_ARG_CONST (CONST_PARAM _) \<Rightarrow> True | _ \<Rightarrow> False)) None 0"

definition type_registry_array_of :: "type_registry \<Rightarrow> gtype option \<Rightarrow> int32_t \<Rightarrow> gtype" where
  "type_registry_array_of reg element len =
     type_registry_array_with reg element
       (TYPE_ARG_CONST (CONST_VALUE (constant_int (type_registry_get_primitive reg TYPE_I32) (scast len))))"

definition indirect_to :: "type_kind \<Rightarrow> gtype option \<Rightarrow> gtype" where
  "indirect_to kind inner = Type kind None None [] (type_has_param inner) inner 0"

definition type_registry_ref_to :: "gtype option \<Rightarrow> gtype" where
  "type_registry_ref_to inner = indirect_to TYPE_REF inner"

definition type_registry_raw_of :: "type_registry \<Rightarrow> gtype option \<Rightarrow> gtype" where
  "type_registry_raw_of reg element =
     Type TYPE_RAW (decl_name reg (tr_raw_decl reg)) (Some (tr_raw_decl reg)) [TYPE_ARG_TYPE element]
       (type_has_param element) element 0"

definition type_registry_param :: "nat \<Rightarrow> gtype option" where
  "type_registry_param index =
     (if index < GAB_MAX_TYPE_PARAMS then Some (Type TYPE_PARAM None None [] True None index) else None)"

definition type_registry_instantiate :: "type_registry \<Rightarrow> nat \<Rightarrow> type_arg list \<Rightarrow> gtype option" where
  "type_registry_instantiate reg d args =
     (if d < length (tr_decls reg) \<and> length args = td_param_count (tr_decls reg ! d) then
        Some (Type TYPE_STRUCT (decl_name reg d) (Some d) args (list_ex arg_has_param args) None 0)
      else None)"

definition type_registry_apply :: "type_registry \<Rightarrow> nat \<Rightarrow> gtype option list \<Rightarrow> gtype option" where
  "type_registry_apply reg d args =
     (if length args \<le> GAB_MAX_TYPE_PARAMS then type_registry_instantiate reg d (map TYPE_ARG_TYPE args)
      else None)"

definition type_registry_deref_of :: "type_registry \<Rightarrow> gtype option \<Rightarrow> gtype option option" where
  "type_registry_deref_of reg t =
     (if kind_is TYPE_ARRAY t then map_option (\<lambda>e. Some (type_registry_slice_of reg e)) (type_array_element t)
      else Some None)"

section \<open>Substitution\<close>

definition substitute_arg :: "type_arg \<Rightarrow> type_arg list \<Rightarrow> type_arg option" where
  "substitute_arg arg args =
     (case arg of
        TYPE_ARG_CONST (CONST_PARAM i) \<Rightarrow>
          (if i < length args then (case args ! i of TYPE_ARG_CONST c \<Rightarrow> Some (args ! i) | _ \<Rightarrow> None) else None)
      | _ \<Rightarrow> Some arg)"

definition opt_size :: "gtype option \<Rightarrow> nat" where
  "opt_size t = (case t of None \<Rightarrow> 0 | Some u \<Rightarrow> Suc (size u))"

lemma opt_size_pointee: "opt_size (ty_pointee t) < opt_size (Some t)"
  by (cases t) (auto simp: opt_size_def split: option.split)

lemma opt_size_arg: "TYPE_ARG_TYPE e \<in> set (ty_args t) \<Longrightarrow> opt_size e < opt_size (Some t)"
proof -
  assume "TYPE_ARG_TYPE e \<in> set (ty_args t)"
  then have "size (TYPE_ARG_TYPE e) \<le> size_list size (ty_args t)" by (rule size_list_estimation') simp
  then show ?thesis by (cases t; cases e) (auto simp: opt_size_def)
qed

lemma type_array_element_arg: "type_array_element (Some t) = Some e \<Longrightarrow> TYPE_ARG_TYPE e \<in> set (ty_args t)"
  by (auto split: list.splits type_arg.splits if_splits)

lemma type_slice_element_arg: "type_slice_element (Some t) = Some e \<Longrightarrow> TYPE_ARG_TYPE e \<in> set (ty_args t)"
  by (auto split: list.splits type_arg.splits if_splits)

text \<open>The outer \<open>None\<close> is a failed assertion; the argument of a struct type that mentions a parameter
  is not looked at: the struct is instantiated with the given arguments as they come.\<close>

function type_registry_substitute ::
  "type_registry \<Rightarrow> gtype option \<Rightarrow> type_arg list \<Rightarrow> gtype option option" where
  "type_registry_substitute reg None args = Some None"
| "type_registry_substitute reg (Some t) args =
     (if \<not> ty_has_param t then Some (Some t)
      else case ty_kind t of
        TYPE_PARAM \<Rightarrow>
          (if ty_index t < length args then
             (case args ! ty_index t of TYPE_ARG_TYPE u \<Rightarrow> Some u | TYPE_ARG_CONST _ \<Rightarrow> None)
           else None)
      | TYPE_REF \<Rightarrow>
          map_option (\<lambda>u. Some (type_registry_ref_to u)) (type_registry_substitute reg (ty_pointee t) args)
      | TYPE_RAW \<Rightarrow>
          map_option (\<lambda>u. Some (type_registry_raw_of reg u)) (type_registry_substitute reg (ty_pointee t) args)
      | TYPE_ARRAY \<Rightarrow>
          (case type_array_element (Some t) of
             None \<Rightarrow> None
           | Some e \<Rightarrow>
               do { u \<leftarrow> type_registry_substitute reg e args;
                    n \<leftarrow> substitute_arg (ty_args t ! 1) args;
                    Some (Some (type_registry_array_with reg u n)) })
      | TYPE_SLICE \<Rightarrow>
          (case type_slice_element (Some t) of
             None \<Rightarrow> None
           | Some e \<Rightarrow>
               map_option (\<lambda>u. Some (type_registry_slice_of reg u)) (type_registry_substitute reg e args))
      | TYPE_STRUCT \<Rightarrow>
          (case ty_decl t of
             None \<Rightarrow> None
           | Some d \<Rightarrow>
               if d < length (tr_decls reg) \<and> td_param_count (tr_decls reg ! d) \<le> length args then
                 map_option Some
                   (type_registry_instantiate reg d (take (td_param_count (tr_decls reg ! d)) args))
               else None)
      | _ \<Rightarrow> None)"
  by pat_completeness auto
termination
  by (relation "measure (\<lambda>(reg, t, args). opt_size t)")
    (auto intro: opt_size_pointee opt_size_arg type_array_element_arg type_slice_element_arg
      simp del: type_array_element.simps type_slice_element.simps)

section \<open>Fields and conformances\<close>

fun substitute_fields :: "type_registry \<Rightarrow> type_field list \<Rightarrow> type_arg list \<Rightarrow> type_field list option" where
  "substitute_fields reg [] args = Some []"
| "substitute_fields reg (f # fs) args =
     do { u \<leftarrow> type_registry_substitute reg (tf_type f) args;
          us \<leftarrow> substitute_fields reg fs args;
          Some (\<lparr>tf_name = tf_name f, tf_type = u\<rparr> # us) }"

definition type_registry_fields_of :: "type_registry \<Rightarrow> gtype option \<Rightarrow> type_field list option" where
  "type_registry_fields_of reg t =
     (case t of
        None \<Rightarrow> Some []
      | Some u \<Rightarrow>
          if ty_kind u \<noteq> TYPE_STRUCT then Some []
          else case decl_of (tr_decls reg) u of
            None \<Rightarrow> None
          | Some decl \<Rightarrow>
              if length (ty_args u) = 0 then Some (td_fields decl)
              else substitute_fields reg (td_fields decl) (ty_args u))"

definition type_registry_find_field :: "type_registry \<Rightarrow> gtype option \<Rightarrow> string \<Rightarrow> type_field option option" where
  "type_registry_find_field reg t name =
     map_option (find (\<lambda>f. tf_name f = name)) (type_registry_fields_of reg t)"

definition type_registry_conforms :: "type_registry \<Rightarrow> gtype \<Rightarrow> decl_id \<Rightarrow> type_arg list \<Rightarrow> bool" where
  "type_registry_conforms reg t interface args =
     list_ex (conformance_key_equals (conformance_key_of (tr_decls reg) t interface args)) (tr_conformances reg)"

definition type_registry_conforms_at_any :: "type_registry \<Rightarrow> gtype \<Rightarrow> decl_id \<Rightarrow> bool" where
  "type_registry_conforms_at_any reg t interface =
     (let wanted = conformance_key_of (tr_decls reg) t interface []
      in list_ex (\<lambda>k. decl_id_equals (ck_owner k) (ck_owner wanted) \<and>
                      decl_id_equals (ii_decl (ck_interface k)) (ii_decl (ck_interface wanted)))
           (tr_conformances reg))"

definition type_registry_declare_conformance ::
  "type_registry \<Rightarrow> gtype \<Rightarrow> decl_id \<Rightarrow> type_arg list \<Rightarrow> bool \<times> type_registry" where
  "type_registry_declare_conformance reg t interface args =
     (if type_registry_conforms_at_any reg t interface then (False, reg)
      else (True, reg\<lparr>tr_conformances :=
                        conformance_key_of (tr_decls reg) t interface args # tr_conformances reg\<rparr>))"

definition type_registry_is_unique :: "type_registry \<Rightarrow> gtype \<Rightarrow> bool" where
  "type_registry_is_unique reg t =
     (case decl_of (tr_decls reg) t of
        None \<Rightarrow> False | Some d \<Rightarrow> di_name (td_id d) = Some (kn_unique (tr_names reg)))"

definition type_registry_unique_pointee :: "type_registry \<Rightarrow> gtype \<Rightarrow> gtype option" where
  "type_registry_unique_pointee reg t =
     (if \<not> type_registry_is_unique reg t then None
      else case ty_args t of [TYPE_ARG_TYPE u] \<Rightarrow> u | _ \<Rightarrow> None)"

definition type_registry_intrinsic :: "type_registry \<Rightarrow> string \<Rightarrow> string \<Rightarrow> intrinsic_lowering option" where
  "type_registry_intrinsic reg owner name =
     find (\<lambda>i. il_owner i = owner \<and> il_name i = name) (tr_intrinsics reg)"

section \<open>Ownership\<close>

text \<open>The loop over the fields: it stops at the first field the test holds of.\<close>

fun any_field :: "(gtype option \<Rightarrow> bool option) \<Rightarrow> type_field list \<Rightarrow> bool option" where
  "any_field test [] = Some False"
| "any_field test (f # fs) = do { b \<leftarrow> test (tf_type f); if b then Some True else any_field test fs }"

lemma any_field_mono [partial_function_mono]:
  "mono_option (\<lambda>f. any_field (\<lambda>t. B t f) fs)" if "\<And>t. mono_option (B t)"
proof (induction fs)
  case Nil
  then show ?case by (simp add: option.const_mono)
next
  case (Cons x fs)
  have "mono_option (\<lambda>f. Option.bind (B (tf_type x) f) (\<lambda>b. if b then Some True else any_field (\<lambda>t. B t f) fs))"
    by (intro bind_mono that if_mono option.const_mono Cons)
  then show ?case by simp
qed

partial_function (option) type_registry_owns :: "type_registry \<Rightarrow> gtype option \<Rightarrow> bool option" where
  "type_registry_owns reg t =
     (case t of
        None \<Rightarrow> Some False
      | Some u \<Rightarrow>
          (case ty_kind u of
             TYPE_REF \<Rightarrow> Some False
           | TYPE_RAW \<Rightarrow> Some False
           | TYPE_ARRAY \<Rightarrow> Option.bind (type_array_element t) (type_registry_owns reg)
           | TYPE_STR \<Rightarrow> Some False
           | TYPE_SLICE \<Rightarrow> Some False
           | TYPE_PARAM \<Rightarrow> Some True
           | _ \<Rightarrow>
               if type_registry_is_unique reg u then Some True
               else if type_registry_conforms reg u (kn_destroy_interface (tr_names reg)) [] then Some True
               else Option.bind (type_registry_fields_of reg t) (\<lambda>fs. any_field (\<lambda>v. type_registry_owns reg v) fs)))"

partial_function (option) type_registry_borrows :: "type_registry \<Rightarrow> gtype option \<Rightarrow> bool option" where
  "type_registry_borrows reg t =
     (case t of
        None \<Rightarrow> Some False
      | Some u \<Rightarrow>
          (case ty_kind u of
             TYPE_REF \<Rightarrow> Some True
           | TYPE_RAW \<Rightarrow> Some False
           | TYPE_ARRAY \<Rightarrow> Option.bind (type_array_element t) (type_registry_borrows reg)
           | TYPE_STR \<Rightarrow> Some False
           | TYPE_SLICE \<Rightarrow> Some False
           | _ \<Rightarrow>
               Option.bind (type_registry_fields_of reg t) (\<lambda>fs. any_field (\<lambda>v. type_registry_borrows reg v) fs)))"

text \<open>\<^verbatim>\<open>type_registry_copies\<close> returns at the first field that does not copy.\<close>

fun all_fields :: "(gtype option \<Rightarrow> bool option) \<Rightarrow> type_field list \<Rightarrow> bool option" where
  "all_fields test [] = Some True"
| "all_fields test (f # fs) = do { b \<leftarrow> test (tf_type f); if \<not> b then Some False else all_fields test fs }"

lemma all_fields_mono [partial_function_mono]:
  "mono_option (\<lambda>f. all_fields (\<lambda>t. B t f) fs)" if "\<And>t. mono_option (B t)"
proof (induction fs)
  case Nil
  then show ?case by (simp add: option.const_mono)
next
  case (Cons x fs)
  have "mono_option (\<lambda>f. Option.bind (B (tf_type x) f) (\<lambda>b. if \<not> b then Some False else all_fields (\<lambda>t. B t f) fs))"
    by (intro bind_mono that if_mono option.const_mono Cons)
  then show ?case by simp
qed

partial_function (option) type_registry_copies :: "type_registry \<Rightarrow> gtype option \<Rightarrow> bool option" where
  "type_registry_copies reg t =
     (case t of
        None \<Rightarrow> Some True
      | Some u \<Rightarrow>
          (case ty_kind u of
             TYPE_REF \<Rightarrow> Some True
           | TYPE_RAW \<Rightarrow> Some True
           | TYPE_ARRAY \<Rightarrow> Option.bind (type_array_element t) (type_registry_copies reg)
           | TYPE_STR \<Rightarrow> Some True
           | TYPE_SLICE \<Rightarrow> Some True
           | TYPE_PARAM \<Rightarrow> Some False
           | _ \<Rightarrow>
               if type_registry_is_unique reg u then Some False
               else if type_registry_conforms reg u (kn_destroy_interface (tr_names reg)) [] then Some False
               else Option.bind (type_registry_fields_of reg t) (\<lambda>fs. all_fields (\<lambda>v. type_registry_copies reg v) fs)))"

section \<open>Layout\<close>

record type_layout =
  tl_size :: size_t
  tl_alignment :: size_t
  tl_offsets :: "size_t list"

definition empty_layout :: type_layout where
  "empty_layout = \<lparr>tl_size = 0, tl_alignment = 1, tl_offsets = []\<rparr>"

text \<open>Sizes and alignments of the 64-bit targets.\<close>

fun layout_of_scalar :: "type_kind \<Rightarrow> (size_t \<times> size_t) option" where
  "layout_of_scalar kind =
     (case kind of
        TYPE_I32 \<Rightarrow> Some (4, 4) | TYPE_F32 \<Rightarrow> Some (4, 4) | TYPE_BOOL \<Rightarrow> Some (1, 1) | TYPE_U8 \<Rightarrow> Some (1, 1)
      | TYPE_USIZE \<Rightarrow> Some (8, 8) | TYPE_STR \<Rightarrow> Some (0, 1) | TYPE_SLICE \<Rightarrow> Some (0, 1) | TYPE_ERROR \<Rightarrow> Some (0, 1)
      | _ \<Rightarrow> None)"

definition layout_of_indirect :: "gtype \<Rightarrow> size_t \<times> size_t" where
  "layout_of_indirect t =
     (if type_metadata_of (type_pointee (Some t)) = TYPE_META_LENGTH then (align_up (8 + 4) 8, 8) else (8, 8))"

text \<open>The loop of \<^verbatim>\<open>layout_of_fields\<close> over the fields' layouts: the offset and alignment so far, and
  the offsets assigned.\<close>

fun place_fields :: "type_layout list \<Rightarrow> size_t \<Rightarrow> size_t \<Rightarrow> size_t list \<times> size_t \<times> size_t" where
  "place_fields [] off alignment = ([], off, alignment)"
| "place_fields (f # fs) off alignment =
     (let off1 = align_up off (tl_alignment f);
          alignment1 = (if tl_alignment f > alignment then tl_alignment f else alignment);
          (offs, off2, alignment2) = place_fields fs (off1 + tl_size f) alignment1
      in (off1 # offs, off2, alignment2))"

definition layout_of_fields :: "type_layout list \<Rightarrow> type_layout" where
  "layout_of_fields fs =
     (let (offs, off, alignment) = place_fields fs 0 1
      in \<lparr>tl_size = align_up off alignment, tl_alignment = alignment, tl_offsets = offs\<rparr>)"

fun map_fields :: "(gtype option \<Rightarrow> 'a option) \<Rightarrow> type_field list \<Rightarrow> 'a list option" where
  "map_fields get [] = Some []"
| "map_fields get (f # fs) = do { x \<leftarrow> get (tf_type f); xs \<leftarrow> map_fields get fs; Some (x # xs) }"

lemma map_fields_mono [partial_function_mono]:
  "mono_option (\<lambda>f. map_fields (\<lambda>t. B t f) fs)" if "\<And>t. mono_option (B t)"
proof (induction fs)
  case Nil
  then show ?case by (simp add: option.const_mono)
next
  case (Cons x fs)
  have "mono_option (\<lambda>f. Option.bind (B (tf_type x) f)
          (\<lambda>b. Option.bind (map_fields (\<lambda>t. B t f) fs) (\<lambda>xs. Some (b # xs))))"
    by (intro bind_mono that option.const_mono Cons)
  then show ?case by simp
qed

partial_function (option) type_registry_layout_of :: "type_registry \<Rightarrow> gtype option \<Rightarrow> type_layout option" where
  "type_registry_layout_of reg t =
     (case t of
        None \<Rightarrow> Some empty_layout
      | Some u \<Rightarrow>
          (case layout_of_scalar (ty_kind u) of
             Some (s, a) \<Rightarrow> Some \<lparr>tl_size = s, tl_alignment = a, tl_offsets = []\<rparr>
           | None \<Rightarrow>
               (case ty_kind u of
                  TYPE_ARRAY \<Rightarrow>
                    Option.bind (type_array_element t) (\<lambda>e.
                      Option.bind (type_registry_layout_of reg e) (\<lambda>l.
                        Option.bind (type_array_length t) (\<lambda>n.
                          Some \<lparr>tl_size = tl_size l * scast n, tl_alignment = tl_alignment l, tl_offsets = []\<rparr>)))
                | TYPE_REF \<Rightarrow>
                    Some \<lparr>tl_size = fst (layout_of_indirect u), tl_alignment = snd (layout_of_indirect u),
                          tl_offsets = []\<rparr>
                | TYPE_RAW \<Rightarrow>
                    Some \<lparr>tl_size = fst (layout_of_indirect u), tl_alignment = snd (layout_of_indirect u),
                          tl_offsets = []\<rparr>
                | _ \<Rightarrow>
                    Option.bind (type_registry_fields_of reg t) (\<lambda>fs.
                      Option.bind (map_fields (\<lambda>v. type_registry_layout_of reg v) fs) (\<lambda>ls.
                        Some (layout_of_fields ls))))))"

definition type_registry_size_of :: "type_registry \<Rightarrow> gtype option \<Rightarrow> size_t option" where
  "type_registry_size_of reg t = map_option tl_size (type_registry_layout_of reg t)"

definition type_registry_align_of :: "type_registry \<Rightarrow> gtype option \<Rightarrow> size_t option" where
  "type_registry_align_of reg t = map_option tl_alignment (type_registry_layout_of reg t)"

section \<open>Declaring\<close>

text \<open>A declaration without parameters is instantiated and laid out at once; the result is the type
  or NULL.\<close>

definition type_registry_declare :: "type_registry \<Rightarrow> nat \<Rightarrow> gtype option option" where
  "type_registry_declare reg d =
     (if d < length (tr_decls reg) \<and> di_name (td_id (tr_decls reg ! d)) \<noteq> None then
        if td_param_count (tr_decls reg ! d) = 0 then
          do { t \<leftarrow> type_registry_apply reg d [];
               l \<leftarrow> type_registry_layout_of reg (Some t);
               Some (Some t) }
        else Some None
      else None)"

definition type_registry_declare_struct ::
  "type_registry \<Rightarrow> string \<Rightarrow> type_field list \<Rightarrow> (gtype option \<times> type_registry) option" where
  "type_registry_declare_struct reg name specs =
     (let decl = \<lparr>td_id = no_decl_id\<lparr>di_name := Some name\<rparr>, td_param_count = 0, td_fields = specs\<rparr>;
          reg' = reg\<lparr>tr_decls := tr_decls reg @ [decl]\<rparr>
      in map_option (\<lambda>t. (t, reg')) (type_registry_declare reg' (length (tr_decls reg))))"

end
