(* ===== verification/Types_Correct.thy ===== *)
theory Types_Correct
  imports Type_Registry
begin

text \<open>
  Correctness of the type registry: what types it makes (\<open>type_made\<close>), that substitution closes
  them, that owning and copying are opposites, that layouts are aligned and do not overlap, that
  the recursive questions end on a type of finite size, and that the interning key identifies types.
\<close>

section \<open>Types the registry makes\<close>

text \<open>A constant argument is a parameter or an integer constant of a primitive type.\<close>

definition const_made :: "type_registry \<Rightarrow> type_const \<Rightarrow> bool" where
  "const_made reg c =
     (case c of CONST_PARAM i \<Rightarrow> True
      | CONST_VALUE v \<Rightarrow> (\<exists>k n. ct_type v = type_registry_get_primitive reg k \<and>
          type_is_integer (ct_type v) \<and> ct_value v = Const_int n))"

inductive type_made :: "type_registry \<Rightarrow> gtype option \<Rightarrow> bool"
  and arg_made :: "type_registry \<Rightarrow> type_arg \<Rightarrow> bool"
  for reg where
  made_null: "type_made reg None"
| made_primitive: "type_registry_get_primitive reg k = Some t \<Longrightarrow> type_made reg (Some t)"
| made_param: "type_registry_param i = Some t \<Longrightarrow> type_made reg (Some t)"
| made_ref: "type_made reg u \<Longrightarrow> type_made reg (Some (type_registry_ref_to u))"
| made_raw: "type_made reg u \<Longrightarrow> type_made reg (Some (type_registry_raw_of reg u))"
| made_slice: "type_made reg u \<Longrightarrow> type_made reg (Some (type_registry_slice_of reg u))"
| made_array: "type_made reg u \<Longrightarrow> const_made reg c \<Longrightarrow>
    type_made reg (Some (type_registry_array_with reg u (TYPE_ARG_CONST c)))"
| made_struct: "\<forall>a \<in> set args. arg_made reg a \<Longrightarrow> type_registry_instantiate reg d args = Some t \<Longrightarrow>
    type_made reg (Some t)"
| made_type_arg: "type_made reg u \<Longrightarrow> arg_made reg (TYPE_ARG_TYPE u)"
| made_const_arg: "const_made reg c \<Longrightarrow> arg_made reg (TYPE_ARG_CONST c)"

text \<open>The arguments given to a substitution: made, and free of parameters.\<close>

definition args_closed :: "type_registry \<Rightarrow> type_arg list \<Rightarrow> bool" where
  "args_closed reg args \<longleftrightarrow> (\<forall>a \<in> set args. arg_made reg a \<and> \<not> arg_has_param a)"

text \<open>The parameters a type mentions, outside the arguments of its structs, are given arguments of the
  right kind, and its structs take no more parameters than there are arguments.\<close>

definition const_fits :: "type_arg list \<Rightarrow> type_arg \<Rightarrow> bool" where
  "const_fits args c =
     (case c of TYPE_ARG_CONST (CONST_PARAM i) \<Rightarrow> i < length args \<and> (\<exists>v. args ! i = TYPE_ARG_CONST v) | _ \<Rightarrow> True)"

inductive fits :: "type_registry \<Rightarrow> type_arg list \<Rightarrow> gtype option \<Rightarrow> bool" for reg args where
  fits_closed: "\<not> type_has_param t \<Longrightarrow> fits reg args t"
| fits_param: "ty_kind t = TYPE_PARAM \<Longrightarrow> ty_index t < length args \<Longrightarrow>
    args ! ty_index t = TYPE_ARG_TYPE u \<Longrightarrow> fits reg args (Some t)"
| fits_ref: "fits reg args u \<Longrightarrow> fits reg args (Some (type_registry_ref_to u))"
| fits_raw: "fits reg args u \<Longrightarrow> fits reg args (Some (type_registry_raw_of reg u))"
| fits_slice: "fits reg args u \<Longrightarrow> fits reg args (Some (type_registry_slice_of reg u))"
| fits_array: "fits reg args u \<Longrightarrow> const_fits args c \<Longrightarrow>
    fits reg args (Some (type_registry_array_with reg u c))"
| fits_struct: "ty_kind t = TYPE_STRUCT \<Longrightarrow> ty_decl t = Some d \<Longrightarrow> d < length (tr_decls reg) \<Longrightarrow>
    td_param_count (tr_decls reg ! d) \<le> length args \<Longrightarrow> fits reg args (Some t)"

lemmas made_defs = type_registry_ref_to_def indirect_to_def type_registry_raw_of_def
  type_registry_slice_of_def type_registry_array_with_def

lemma substitute_closed: "\<not> type_has_param t \<Longrightarrow> type_registry_substitute reg t args = Some t"
  by (cases t) auto

lemma substitute_made_simps:
  "type_has_param u \<Longrightarrow> type_registry_substitute reg (Some (type_registry_ref_to u)) args =
     map_option (\<lambda>u. Some (type_registry_ref_to u)) (type_registry_substitute reg u args)"
  "type_has_param u \<Longrightarrow> type_registry_substitute reg (Some (type_registry_raw_of reg u)) args =
     map_option (\<lambda>u. Some (type_registry_raw_of reg u)) (type_registry_substitute reg u args)"
  "type_has_param u \<Longrightarrow> type_registry_substitute reg (Some (type_registry_slice_of reg u)) args =
     map_option (\<lambda>u. Some (type_registry_slice_of reg u)) (type_registry_substitute reg u args)"
  "type_has_param (Some (type_registry_array_with reg u c)) \<Longrightarrow>
     type_registry_substitute reg (Some (type_registry_array_with reg u c)) args =
     do { u \<leftarrow> type_registry_substitute reg u args; n \<leftarrow> substitute_arg c args;
          Some (Some (type_registry_array_with reg u n)) }"
  by (simp_all add: made_defs)

lemma substitute_arg_fits:
  assumes "args_closed reg args" "const_made reg c" "const_fits args (TYPE_ARG_CONST c)"
  shows "\<exists>d. substitute_arg (TYPE_ARG_CONST c) args = Some (TYPE_ARG_CONST d) \<and> const_made reg d \<and>
           \<not> arg_has_param (TYPE_ARG_CONST d)"
proof (cases c)
  case (CONST_PARAM i)
  then obtain v where v: "i < length args" "args ! i = TYPE_ARG_CONST v"
    using assms(3) by (auto simp: const_fits_def)
  then have "arg_made reg (TYPE_ARG_CONST v)" "\<not> arg_has_param (TYPE_ARG_CONST v)"
    using assms(1) nth_mem [OF v(1)] by (auto simp: args_closed_def)
  then show ?thesis using v CONST_PARAM by (auto simp: substitute_arg_def elim: arg_made.cases)
next
  case (CONST_VALUE v)
  then show ?thesis using assms(2) by (auto simp: substitute_arg_def arg_has_param_def)
qed

lemma primitive_kind:
  "type_registry_get_primitive reg k = Some t \<Longrightarrow> ty_kind t = k \<and> \<not> ty_has_param t \<and>
     k \<in> {TYPE_I32, TYPE_F32, TYPE_BOOL, TYPE_U8, TYPE_USIZE, TYPE_STR, TYPE_ERROR}"
  by (cases k) (auto simp: register_builtin_def type_init_def)

text \<open>What a type of each kind was made from.\<close>

definition made_shape :: "type_registry \<Rightarrow> gtype \<Rightarrow> bool" where
  "made_shape reg t =
     (case ty_kind t of
        TYPE_REF \<Rightarrow> t = type_registry_ref_to (ty_pointee t) \<and> type_made reg (ty_pointee t)
      | TYPE_RAW \<Rightarrow> t = type_registry_raw_of reg (ty_pointee t) \<and> type_made reg (ty_pointee t)
      | TYPE_SLICE \<Rightarrow> (\<exists>u. t = type_registry_slice_of reg u \<and> type_made reg u)
      | TYPE_ARRAY \<Rightarrow> (\<exists>u c. t = type_registry_array_with reg u (TYPE_ARG_CONST c) \<and> type_made reg u \<and> const_made reg c)
      | TYPE_STRUCT \<Rightarrow> (\<exists>d. type_registry_instantiate reg d (ty_args t) = Some t \<and> (\<forall>a \<in> set (ty_args t). arg_made reg a))
      | TYPE_PARAM \<Rightarrow> type_registry_param (ty_index t) = Some t
      | TYPE_UNKNOWN \<Rightarrow> False
      | k \<Rightarrow> type_registry_get_primitive reg k = Some t)"

lemma instantiate_shape:
  "type_registry_instantiate reg d args = Some t \<Longrightarrow>
     ty_kind t = TYPE_STRUCT \<and> ty_args t = args \<and> ty_decl t = Some d \<and> d < length (tr_decls reg) \<and>
     length args = td_param_count (tr_decls reg ! d) \<and> ty_has_param t = list_ex arg_has_param args"
  by (auto simp: type_registry_instantiate_def split: if_splits)

lemma type_made_shape: "type_made reg (Some t) \<Longrightarrow> made_shape reg t"
proof (erule type_made.cases, goal_cases)
  case (2 k t')
  then show ?case using primitive_kind [of reg k t] by (auto simp: made_shape_def)
next
  case (3 i t')
  then show ?case by (auto simp: made_shape_def type_registry_param_def split: if_splits)
next
  case (8 args d t')
  then have "made_shape reg t'" using instantiate_shape [OF 8(3)] by (auto simp: made_shape_def)
  then show ?case using 8(1) by simp
qed (auto simp: made_shape_def made_defs)

lemma type_made_ref: "type_made reg (Some (type_registry_ref_to u)) \<longleftrightarrow> type_made reg u"
  using type_made_shape [of reg "type_registry_ref_to u"] made_ref by (auto simp: made_shape_def made_defs)

lemma type_made_raw: "type_made reg (Some (type_registry_raw_of reg u)) \<longleftrightarrow> type_made reg u"
  using type_made_shape [of reg "type_registry_raw_of reg u"] made_raw by (auto simp: made_shape_def made_defs)

lemma type_made_slice: "type_made reg (Some (type_registry_slice_of reg u)) \<longleftrightarrow> type_made reg u"
  using type_made_shape [of reg "type_registry_slice_of reg u"] made_slice by (auto simp: made_shape_def made_defs)

lemma type_made_array:
  "type_made reg (Some (type_registry_array_with reg u c)) \<longleftrightarrow>
     type_made reg u \<and> (\<exists>d. c = TYPE_ARG_CONST d \<and> const_made reg d)"
  using type_made_shape [of reg "type_registry_array_with reg u c"] made_array by (auto simp: made_shape_def made_defs)

lemma has_param_simps:
  "type_has_param (Some (type_registry_ref_to u)) = type_has_param u"
  "type_has_param (Some (type_registry_raw_of reg u)) = type_has_param u"
  "type_has_param (Some (type_registry_slice_of reg u)) = type_has_param u"
  "type_has_param (Some (type_registry_array_with reg u (TYPE_ARG_CONST c))) \<longleftrightarrow>
     type_has_param u \<or> arg_has_param (TYPE_ARG_CONST c)"
  by (auto simp: made_defs arg_has_param_def split: type_const.split)

declare type_registry_substitute.simps(2) [simp del] type_has_param.simps [simp del]

lemma substitute_closes:
  assumes "fits reg args t" "type_made reg t" "args_closed reg args"
  shows "\<exists>u. type_registry_substitute reg t args = Some u \<and> type_made reg u \<and> \<not> type_has_param u"
  using assms(1,2)
proof (induction rule: fits.induct)
  case (fits_closed t)
  then show ?case using substitute_closed by blast
next
  case (fits_param t u)
  then have "arg_made reg (TYPE_ARG_TYPE u)" "\<not> arg_has_param (TYPE_ARG_TYPE u)"
    using assms(3) nth_mem [OF fits_param(2)] by (auto simp: args_closed_def)
  then show ?case using fits_param substitute_closed [of "Some t"]
    by (cases "ty_has_param t")
      (auto simp: arg_has_param_def type_registry_substitute.simps type_has_param.simps elim: arg_made.cases)
next
  case (fits_ref u)
  then obtain v where "type_registry_substitute reg u args = Some v" "type_made reg v" "\<not> type_has_param v"
    using type_made_ref by blast
  then show ?case using fits_ref(3) substitute_closed [of "Some (type_registry_ref_to u)" reg args]
    by (cases "type_has_param u") (auto simp: substitute_made_simps type_made_ref has_param_simps)
next
  case (fits_raw u)
  then obtain v where "type_registry_substitute reg u args = Some v" "type_made reg v" "\<not> type_has_param v"
    using type_made_raw by blast
  then show ?case using fits_raw(3) substitute_closed [of "Some (type_registry_raw_of reg u)" reg args]
    by (cases "type_has_param u") (auto simp: substitute_made_simps type_made_raw has_param_simps)
next
  case (fits_slice u)
  then obtain v where "type_registry_substitute reg u args = Some v" "type_made reg v" "\<not> type_has_param v"
    using type_made_slice by blast
  then show ?case using fits_slice(3) substitute_closed [of "Some (type_registry_slice_of reg u)" reg args]
    by (cases "type_has_param u") (auto simp: substitute_made_simps type_made_slice has_param_simps)
next
  case (fits_array u c)
  let ?t = "Some (type_registry_array_with reg u c)"
  obtain d where d: "c = TYPE_ARG_CONST d" "const_made reg d" "type_made reg u"
    using fits_array(4) type_made_array by blast
  then obtain v where v: "type_registry_substitute reg u args = Some v" "type_made reg v" "\<not> type_has_param v"
    using fits_array by blast
  obtain e where "substitute_arg c args = Some (TYPE_ARG_CONST e)" "const_made reg e" "\<not> arg_has_param (TYPE_ARG_CONST e)"
    using substitute_arg_fits [OF assms(3) d(2)] fits_array(2) d(1) by blast
  then show ?case using fits_array(4) substitute_closed [of ?t reg args] v
    by (cases "type_has_param ?t") (auto simp: substitute_made_simps type_made_array has_param_simps)
next
  case (fits_struct t d)
  let ?args = "take (td_param_count (tr_decls reg ! d)) args"
  obtain u where u: "type_registry_instantiate reg d ?args = Some u"
    using fits_struct by (auto simp: type_registry_instantiate_def)
  have "\<forall>a \<in> set ?args. arg_made reg a \<and> \<not> arg_has_param a"
    using assms(3) set_take_subset [of _ args] by (force simp: args_closed_def)
  then have "type_made reg (Some u)" "\<not> ty_has_param u"
    using made_struct [OF _ u] instantiate_shape [OF u] by (auto simp: list_ex_iff)
  then show ?case using fits_struct u substitute_closed [of "Some t"]
    by (cases "ty_has_param t") (auto simp: type_registry_substitute.simps type_has_param.simps)
qed

section \<open>Ownership and copying\<close>

lemma owns_of_copies: "type_registry_copies reg t = Some b \<Longrightarrow> type_registry_owns reg t = Some (\<not> b)"
proof (induction rule: type_registry_copies.raw_induct [rotated, consumes 1])
  case (1 f reg t b)
  have fields: "all_fields (f reg) fs = Some c \<Longrightarrow> any_field (type_registry_owns reg) fs = Some (\<not> c)" for fs c
    using 1(1) by (induction fs) (auto simp: bind_eq_Some_conv split: if_splits)
  show ?case using 1(2)
    by (subst type_registry_owns.simps)
      (auto simp: bind_eq_Some_conv 1(1) fields split: option.splits type_kind.splits if_splits)
qed

lemma copies_of_owns: "type_registry_owns reg t = Some b \<Longrightarrow> type_registry_copies reg t = Some (\<not> b)"
proof (induction rule: type_registry_owns.raw_induct [rotated, consumes 1])
  case (1 f reg t b)
  have fields: "any_field (f reg) fs = Some c \<Longrightarrow> all_fields (type_registry_copies reg) fs = Some (\<not> c)" for fs c
    using 1(1) by (induction fs) (auto simp: bind_eq_Some_conv split: if_splits)
  show ?case using 1(2)
    by (subst type_registry_copies.simps)
      (auto simp: bind_eq_Some_conv 1(1) fields split: option.splits type_kind.splits if_splits)
qed

section \<open>Layout\<close>

definition alignment_ok :: "size_t \<Rightarrow> bool" where
  "alignment_ok a \<longleftrightarrow> a = 1 \<or> a = 4 \<or> a = 8"

definition layout_ok :: "type_layout \<Rightarrow> bool" where
  "layout_ok l \<longleftrightarrow> alignment_ok (tl_alignment l) \<and> unat (tl_alignment l) dvd unat (tl_size l)"

lemma alignment_cases:
  assumes "alignment_ok a"
  obtains k where "k \<le> 3" "a = 2 ^ k" "unat a = 2 ^ k"
proof -
  from assms consider "a = 2 ^ 0 \<and> unat a = 2 ^ 0" | "a = 2 ^ 2 \<and> unat a = 2 ^ 2" | "a = 2 ^ 3 \<and> unat a = 2 ^ 3"
    by (auto simp: alignment_ok_def)
  then show thesis
  proof cases
    case 1 then show ?thesis using that [of 0] by simp
  next
    case 2 then show ?thesis using that [of 2] by simp
  next
    case 3 then show ?thesis using that [of 3] by simp
  qed
qed

lemma alignment_max: "alignment_ok a \<Longrightarrow> alignment_ok b \<Longrightarrow> alignment_ok (if a > b then a else b)"
  by simp

lemma alignment_dvd:
  "alignment_ok a \<Longrightarrow> alignment_ok b \<Longrightarrow> a \<le> b \<Longrightarrow> unat a dvd unat b"
  by (auto simp: alignment_ok_def word_le_nat_alt)

lemma align_up_ok:
  assumes "alignment_ok a" "unat off < 2 ^ 63"
  shows "unat off \<le> unat (align_up off a)" "unat (align_up off a) < unat off + 8"
    "unat a dvd unat (align_up off a)"
proof -
  obtain k where k: "k \<le> 3" "a = 2 ^ k" "unat a = 2 ^ k" using alignment_cases [OF assms(1)] by blast
  then have "(2 :: nat) ^ k \<le> 2 ^ 3" by (intro power_increasing) auto
  then have p: "(2 :: nat) ^ k \<le> 8" by simp
  have e: "unat (align_up off a) = (unat off + (2 ^ k - 1)) div 2 ^ k * 2 ^ k"
    unfolding k(2) using assms(2) k(1) p by (intro unat_align_up) auto
  show "unat a dvd unat (align_up off a)" using e k(3) by simp
  have pos: "(0 :: nat) < 2 ^ k" by simp
  have "unat off + (2 ^ k - 1) < (unat off + (2 ^ k - 1)) div 2 ^ k * 2 ^ k + 2 ^ k"
    using pos by (metis add.commute div_mult_mod_eq mod_less_divisor nat_add_left_cancel_less)
  then show "unat off \<le> unat (align_up off a)" using e by linarith
  have "(unat off + (2 ^ k - 1)) div 2 ^ k * 2 ^ k \<le> unat off + (2 ^ k - 1)" by simp
  then show "unat (align_up off a) < unat off + 8" using e p pos by linarith
qed

text \<open>The fields lie one after the other from \<open>from\<close>, aligned, and end at or before \<open>to\<close>.\<close>

fun placed :: "type_layout list \<Rightarrow> size_t list \<Rightarrow> nat \<Rightarrow> nat \<Rightarrow> bool" where
  "placed [] [] from to \<longleftrightarrow> from \<le> to"
| "placed (l # ls) (off # offs) from to \<longleftrightarrow>
     from \<le> unat off \<and> unat (tl_alignment l) dvd unat off \<and> placed ls offs (unat off + unat (tl_size l)) to"
| "placed _ _ _ _ \<longleftrightarrow> False"

lemma placed_le: "placed ls offs a b \<Longrightarrow> a \<le> b"
  by (induction ls offs a b rule: placed.induct) auto

lemma placed_length: "placed ls offs a b \<Longrightarrow> length offs = length ls"
  by (induction ls offs a b rule: placed.induct) auto

lemma placed_weaken: "placed ls offs a b \<Longrightarrow> b \<le> c \<Longrightarrow> placed ls offs a c"
  by (induction ls offs a b rule: placed.induct) auto

lemma placed_nth:
  assumes "placed ls offs from to" "i < j" "j < length ls"
  shows "unat (offs ! i) + unat (tl_size (ls ! i)) \<le> unat (offs ! j)"
  using assms
proof (induction ls offs "from" to arbitrary: i j rule: placed.induct)
  case (2 l ls off offs a b)
  have first: "k < length ls \<Longrightarrow> placed ls offs c b \<Longrightarrow> c \<le> unat (offs ! k)" for k c
  proof (induction ls offs c b arbitrary: k rule: placed.induct)
    case (2 l ls off offs a b)
    then show ?case by (cases k) fastforce+
  qed auto
  show ?case
  proof (cases i)
    case 0
    then show ?thesis using 2 first [of "j - 1"] by (cases j) auto
  next
    case (Suc i')
    then show ?thesis using 2 by (cases j) auto
  qed
qed auto

lemma placed_in:
  assumes "placed ls offs from to" "i < length ls"
  shows "unat (offs ! i) + unat (tl_size (ls ! i)) \<le> to" "unat (tl_alignment (ls ! i)) dvd unat (offs ! i)"
    "from \<le> unat (offs ! i)"
  using assms
proof (induction ls offs "from" to arbitrary: i rule: placed.induct)
  case (2 l ls off offs a b)
  {
    case 1 then show ?case using 2 placed_le by (cases i) auto
  next
    case 2 then show ?case using "2.IH"(2) by (cases i) auto
  next
    case 3 then show ?case using "2.IH"(3) by (cases i) fastforce+
  }
qed auto

definition room_for :: "type_layout list \<Rightarrow> nat" where
  "room_for ls = sum_list (map (\<lambda>l. unat (tl_size l) + 8) ls)"

lemma place_fields_ok:
  assumes "\<forall>l \<in> set ls. alignment_ok (tl_alignment l)" "alignment_ok a" "unat off + room_for ls < 2 ^ 63"
    "place_fields ls off a = (offs, off', a')"
  shows "placed ls offs (unat off) (unat off') \<and> length offs = length ls \<and> alignment_ok a' \<and> a \<le> a' \<and>
    (\<forall>l \<in> set ls. tl_alignment l \<le> a') \<and> unat off' \<le> unat off + room_for ls"
  using assms
proof (induction ls arbitrary: off a offs off' a')
  case Nil
  then show ?case by (auto simp: room_for_def)
next
  case (Cons l ls)
  let ?off1 = "align_up off (tl_alignment l)"
  let ?a1 = "if tl_alignment l > a then tl_alignment l else a"
  have al: "alignment_ok (tl_alignment l)" using Cons.prems(1) by simp
  have room: "unat off + (unat (tl_size l) + 8) + room_for ls < 2 ^ 63" using Cons.prems(3) by (simp add: room_for_def)
  then have off1: "unat off \<le> unat ?off1" "unat ?off1 < unat off + 8" "unat (tl_alignment l) dvd unat ?off1"
    using align_up_ok [OF al, of off] by auto
  have sum: "unat (?off1 + tl_size l) = unat ?off1 + unat (tl_size l)"
    using off1 room by (intro unat_add_lem [THEN iffD1]) simp
  obtain offs1 off2 a2 where p: "place_fields ls (?off1 + tl_size l) ?a1 = (offs1, off2, a2)" by (metis prod_cases3)
  have "unat (?off1 + tl_size l) + room_for ls < 2 ^ 63" using sum off1 room by linarith
  from Cons.IH [OF _ alignment_max [OF al Cons.prems(2)] this p] Cons.prems(1)
  have IH: "placed ls offs1 (unat ?off1 + unat (tl_size l)) (unat off2)" "length offs1 = length ls" "alignment_ok a2"
      "?a1 \<le> a2" "\<forall>l \<in> set ls. tl_alignment l \<le> a2" "unat off2 \<le> unat ?off1 + unat (tl_size l) + room_for ls"
    using sum by auto
  have res: "offs = ?off1 # offs1" "off' = off2" "a' = a2" using Cons.prems(4) p by (simp_all add: Let_def)
  have "a \<le> a2" "tl_alignment l \<le> a2" using IH(4) by (auto split: if_splits)
  then show ?case using res IH off1 by (auto simp: room_for_def)
qed

lemma layout_of_fields_ok:
  assumes "\<forall>l \<in> set ls. alignment_ok (tl_alignment l)" "room_for ls < 2 ^ 62"
  shows "let r = layout_of_fields ls in
     layout_ok r \<and> placed ls (tl_offsets r) 0 (unat (tl_size r)) \<and>
     (\<forall>l \<in> set ls. unat (tl_alignment l) dvd unat (tl_alignment r))"
proof -
  obtain offs off a where p: "place_fields ls 0 1 = (offs, off, a)" by (metis prod_cases3)
  have one: "alignment_ok 1" by (simp add: alignment_ok_def)
  have ok: "placed ls offs 0 (unat off)" "alignment_ok a" "\<forall>l \<in> set ls. tl_alignment l \<le> a"
      "unat off \<le> room_for ls"
    using place_fields_ok [OF assms(1) one _ p] assms(2) by auto
  then have up: "unat off \<le> unat (align_up off a)" "unat a dvd unat (align_up off a)"
    using align_up_ok [OF ok(2), of off] assms(2) by auto
  show ?thesis
    using ok up assms(1) placed_weaken [OF ok(1) up(1)] alignment_dvd
    by (auto simp: layout_of_fields_def p Let_def layout_ok_def)
qed

lemma align_up_dvd: "alignment_ok a \<Longrightarrow> unat a dvd unat (align_up off a)"
proof -
  assume "alignment_ok a"
  then obtain k where k: "k \<le> 3" "a = 2 ^ k" "unat a = 2 ^ k" by (rule alignment_cases)
  have "align_up off a = (off + (a - 1)) AND NOT (mask k)"
    using k(2) by (simp add: align_up_def mask_eq_exp_minus_1)
  then show ?thesis using k(3) unat_and_not_mask [of "off + (a - 1)" k] by simp
qed

lemma place_fields_alignment:
  "\<forall>l \<in> set ls. alignment_ok (tl_alignment l) \<Longrightarrow> alignment_ok a \<Longrightarrow>
     alignment_ok (snd (snd (place_fields ls off a)))"
proof (induction ls arbitrary: off a)
  case (Cons l ls)
  let ?a1 = "if tl_alignment l > a then tl_alignment l else a"
  have "alignment_ok ?a1" using Cons.prems by simp
  with Cons have "alignment_ok (snd (snd (place_fields ls (align_up off (tl_alignment l) + tl_size l) ?a1)))"
    by (meson list.set_intros(2))
  then show ?case by (simp only: place_fields.simps Let_def case_prod_beta snd_conv)
qed simp

lemma layout_of_fields_invariant:
  "\<forall>l \<in> set ls. layout_ok l \<Longrightarrow> layout_ok (layout_of_fields ls)"
proof -
  assume "\<forall>l \<in> set ls. layout_ok l"
  then have "alignment_ok (snd (snd (place_fields ls 0 1)))"
    by (intro place_fields_alignment) (auto simp: layout_ok_def alignment_ok_def)
  then show ?thesis
    by (auto simp: layout_of_fields_def layout_ok_def align_up_dvd split: prod.splits)
qed

lemma scaled_size_dvd: "alignment_ok a \<Longrightarrow> unat a dvd unat s \<Longrightarrow> unat a dvd unat (s * n :: size_t)"
proof -
  assume "alignment_ok a" and d: "unat a dvd unat s"
  then obtain k where k: "k \<le> 3" "unat a = 2 ^ k" using alignment_cases by metis
  have "(2 :: nat) ^ k dvd 2 ^ 64" using k(1) by (intro le_imp_power_dvd) simp
  then show ?thesis using d k(2) by (simp add: unat_word_ariths dvd_mod dvd_mult2)
qed

lemma map_fields_all:
  "map_fields get fs = Some xs \<Longrightarrow> x \<in> set xs \<Longrightarrow> \<exists>f \<in> set fs. get (tf_type f) = Some x"
  by (induction fs arbitrary: xs) (auto simp: bind_eq_Some_conv)

lemma map_fields_length: "map_fields get fs = Some xs \<Longrightarrow> length xs = length fs"
  by (induction fs arbitrary: xs) (auto simp: bind_eq_Some_conv)

lemma map_fields_nth: "map_fields get fs = Some xs \<Longrightarrow> i < length fs \<Longrightarrow> get (tf_type (fs ! i)) = Some (xs ! i)"
proof (induction fs arbitrary: xs i)
  case (Cons f fs)
  then show ?case by (cases i) (auto simp: bind_eq_Some_conv)
qed simp

lemma layout_of_scalar_ok: "layout_of_scalar k = Some (s, a) \<Longrightarrow> alignment_ok a \<and> unat a dvd unat s"
  by (cases k) (auto simp: alignment_ok_def)

lemma layout_of_indirect_ok: "alignment_ok (snd (layout_of_indirect u)) \<and> unat (snd (layout_of_indirect u)) dvd unat (fst (layout_of_indirect u))"
  using align_up_dvd [of 8] by (simp add: layout_of_indirect_def alignment_ok_def)

lemma layout_of_ok: "type_registry_layout_of reg t = Some l \<Longrightarrow> layout_ok l"
proof (induction rule: type_registry_layout_of.raw_induct [rotated, consumes 1])
  case (1 f reg t l)
  have fields: "map_fields (f reg) fs = Some ls \<Longrightarrow> \<forall>l \<in> set ls. layout_ok l" for fs ls
    using 1(1) map_fields_all by fastforce
  show ?case
  proof (cases t)
    case None
    then show ?thesis using 1(2) by (auto simp: empty_layout_def layout_ok_def alignment_ok_def)
  next
    case (Some u)
    show ?thesis
    proof (cases "layout_of_scalar (ty_kind u)")
      case None
      show ?thesis using 1(2) Some None fields layout_of_fields_invariant layout_of_indirect_ok [of u]
          scaled_size_dvd 1(1)
        by (cases "ty_kind u")
          (auto simp: bind_eq_Some_conv layout_ok_def
            simp del: layout_of_scalar.simps type_array_element.simps type_array_length.simps)
    next
      case (Some p)
      then show ?thesis using 1(2) \<open>t = Some u\<close> layout_of_scalar_ok [of "ty_kind u" "fst p" "snd p"]
        by (auto simp: layout_ok_def simp del: layout_of_scalar.simps split: prod.splits)
    qed
  qed
qed

section \<open>Types of finite size\<close>

text \<open>A type whose values contain, by value, only finitely much: the front end reports a struct that
  contains itself before its layout is asked for.\<close>

inductive finite_by_value :: "type_registry \<Rightarrow> gtype option \<Rightarrow> bool" for reg where
  finite_null: "finite_by_value reg None"
| finite_leaf: "ty_kind u \<noteq> TYPE_ARRAY \<Longrightarrow> ty_kind u \<noteq> TYPE_STRUCT \<Longrightarrow> finite_by_value reg (Some u)"
| finite_array: "ty_kind u = TYPE_ARRAY \<Longrightarrow> type_array_element (Some u) = Some e \<Longrightarrow>
    type_array_length (Some u) \<noteq> None \<Longrightarrow> finite_by_value reg e \<Longrightarrow> finite_by_value reg (Some u)"
| finite_struct: "ty_kind u = TYPE_STRUCT \<Longrightarrow> type_registry_fields_of reg (Some u) = Some fs \<Longrightarrow>
    \<forall>f \<in> set fs. finite_by_value reg (tf_type f) \<Longrightarrow> finite_by_value reg (Some u)"

lemma any_field_total: "\<forall>f \<in> set fs. \<exists>b. test (tf_type f) = Some b \<Longrightarrow> \<exists>b. any_field test fs = Some b"
  by (induction fs) auto

lemma map_fields_total: "\<forall>f \<in> set fs. \<exists>b. get (tf_type f) = Some b \<Longrightarrow> \<exists>b. map_fields get fs = Some b"
  by (induction fs) auto

lemma fields_of_other: "ty_kind u \<noteq> TYPE_STRUCT \<Longrightarrow> type_registry_fields_of reg (Some u) = Some []"
  by (simp add: type_registry_fields_of_def)

lemma finite_owns: "finite_by_value reg t \<Longrightarrow> \<exists>b. type_registry_owns reg t = Some b"
proof (induction rule: finite_by_value.induct)
  case (finite_leaf u)
  then show ?case
    by (subst type_registry_owns.simps) (auto simp: fields_of_other split: type_kind.split)
next
  case (finite_array u e)
  then show ?case by (subst type_registry_owns.simps) (auto simp del: type_array_element.simps)
next
  case (finite_struct u fs)
  then show ?case using any_field_total [of fs "type_registry_owns reg"]
    by (subst type_registry_owns.simps) auto
qed (subst type_registry_owns.simps, auto)

lemma finite_borrows: "finite_by_value reg t \<Longrightarrow> \<exists>b. type_registry_borrows reg t = Some b"
proof (induction rule: finite_by_value.induct)
  case (finite_leaf u)
  then show ?case
    by (subst type_registry_borrows.simps) (auto simp: fields_of_other split: type_kind.split)
next
  case (finite_array u e)
  then show ?case by (subst type_registry_borrows.simps) (auto simp del: type_array_element.simps)
next
  case (finite_struct u fs)
  then show ?case using any_field_total [of fs "type_registry_borrows reg"]
    by (subst type_registry_borrows.simps) auto
qed (subst type_registry_borrows.simps, auto)

lemma finite_layout: "finite_by_value reg t \<Longrightarrow> \<exists>l. type_registry_layout_of reg t = Some l"
proof (induction rule: finite_by_value.induct)
  case (finite_leaf u)
  then show ?case
    by (subst type_registry_layout_of.simps) (auto simp: fields_of_other split: type_kind.split)
next
  case (finite_array u e)
  then show ?case
    by (subst type_registry_layout_of.simps)
      (auto simp del: type_array_element.simps type_array_length.simps)
next
  case (finite_struct u fs)
  then show ?case using map_fields_total [of fs "type_registry_layout_of reg"]
    by (subst type_registry_layout_of.simps) auto
qed (subst type_registry_layout_of.simps, simp)

section \<open>The interning key\<close>

definition registry_ok :: "type_registry \<Rightarrow> bool" where
  "registry_ok reg \<longleftrightarrow> distinct (map td_id (tr_decls reg)) \<and> tr_slice_decl reg < length (tr_decls reg) \<and>
     tr_array_decl reg < length (tr_decls reg) \<and> tr_raw_decl reg < length (tr_decls reg)"

lemma decl_id_equals_iff: "decl_id_equals a b \<longleftrightarrow> (a :: decl_id) = b"
  by (auto simp: decl_id_equals_def)

lemma constant_equals_made:
  assumes "const_made reg (CONST_VALUE c)" "const_made reg (CONST_VALUE d)"
  shows "constant_equals c d \<longleftrightarrow> c = d"
proof -
  have int: "type_is_integer (ct_type c)" "\<exists>n. ct_value c = Const_int n" "\<exists>n. ct_value d = Const_int n"
    using assms by (auto simp: const_made_def)
  then have "\<not> constant_is_string c" "\<not> constant_is_float c" "\<not> constant_is_bool c"
    by (cases "ct_type c"; auto simp: constant_is_string_def constant_is_float_def constant_is_bool_def
        split: type_kind.splits)+
  then show ?thesis using int by (cases c; cases d) (auto simp: constant_equals_def)
qed

lemma arg_made_const: "arg_made reg (TYPE_ARG_CONST c) \<longleftrightarrow> const_made reg c"
  by (auto elim: arg_made.cases intro: made_const_arg)

lemma type_arg_equals_made: "arg_made reg a \<Longrightarrow> arg_made reg b \<Longrightarrow> type_arg_equals a b \<longleftrightarrow> a = b"
  by (induction a b rule: type_arg_equals.induct) (simp_all add: arg_made_const constant_equals_made)

lemma type_args_equal_made:
  "\<forall>a \<in> set as. arg_made reg a \<Longrightarrow> \<forall>b \<in> set bs. arg_made reg b \<Longrightarrow> type_args_equal as bs \<longleftrightarrow> as = bs"
  by (induction as bs rule: type_args_equal.induct) (auto simp: type_arg_equals_made)

text \<open>A type that is not a reference, a raw pointer or a primitive is its declaration and arguments.\<close>

lemma made_applied:
  assumes "type_made reg (Some t)" "registry_ok reg" "ty_kind t \<in> {TYPE_ARRAY, TYPE_SLICE, TYPE_STRUCT}"
  shows "\<exists>d. ty_decl t = Some d \<and> d < length (tr_decls reg) \<and> (\<forall>a \<in> set (ty_args t). arg_made reg a) \<and>
     (\<forall>u. type_made reg (Some u) \<longrightarrow> ty_kind u = ty_kind t \<longrightarrow> ty_decl u = Some d \<longrightarrow> ty_args u = ty_args t \<longrightarrow> u = t)"
proof -
  have shape: "made_shape reg t" using assms(1) by (rule type_made_shape)
  have other: "made_shape reg u" if "type_made reg (Some u)" for u using that by (rule type_made_shape)
  consider (arr) "ty_kind t = TYPE_ARRAY" | (sl) "ty_kind t = TYPE_SLICE" | (st) "ty_kind t = TYPE_STRUCT"
    using assms(3) by auto
  then show ?thesis
  proof cases
    case arr
    then obtain v c where t: "t = type_registry_array_with reg v (TYPE_ARG_CONST c)" "type_made reg v" "const_made reg c"
      using shape by (auto simp: made_shape_def)
    have "u = t" if "type_made reg (Some u)" "ty_kind u = TYPE_ARRAY" "ty_args u = ty_args t" for u
      using other [OF that(1)] that(2,3) t(1) by (auto simp: made_shape_def made_defs)
    then show ?thesis using assms(2) t arr
      by (auto simp: made_defs registry_ok_def intro: made_type_arg made_const_arg)
  next
    case sl
    then obtain v where t: "t = type_registry_slice_of reg v" "type_made reg v"
      using shape by (auto simp: made_shape_def)
    have "u = t" if "type_made reg (Some u)" "ty_kind u = TYPE_SLICE" "ty_args u = ty_args t" for u
      using other [OF that(1)] that(2,3) t(1) by (auto simp: made_shape_def made_defs)
    then show ?thesis using assms(2) t sl
      by (auto simp: made_defs registry_ok_def intro: made_type_arg)
  next
    case st
    then obtain d where t: "type_registry_instantiate reg d (ty_args t) = Some t" "\<forall>a \<in> set (ty_args t). arg_made reg a"
      using shape by (auto simp: made_shape_def)
    have "u = t" if "type_made reg (Some u)" "ty_kind u = TYPE_STRUCT" "ty_decl u = Some d" "ty_args u = ty_args t" for u
    proof -
      have "\<exists>e. type_registry_instantiate reg e (ty_args u) = Some u"
        using other [OF that(1)] that(2) by (auto simp: made_shape_def)
      then obtain e where e: "type_registry_instantiate reg e (ty_args u) = Some u" ..
      have "ty_decl u = Some e" using instantiate_shape [OF e] by blast
      then have "e = d" using that(3) by simp
      then have "Some u = Some t" using e t(1) that(4) by metis
      then show ?thesis by blast
    qed
    note same = this
    have "u = t" if "type_made reg (Some u)" "ty_kind u = ty_kind t" "ty_decl u = Some d" "ty_args u = ty_args t" for u
      using same [OF that(1) _ that(3,4)] that(2) st by simp
    then show ?thesis using instantiate_shape [OF t(1)] t(2) by (intro exI [of _ d]) simp
  qed
qed

lemma structural_equality:
  assumes "registry_ok reg" "type_made reg (Some t)" "type_made reg (Some u)"
  shows "type_structurally_equals (tr_decls reg) t u = Some (t = u)"
proof (cases "ty_kind t = ty_kind u")
  case False
  then show ?thesis by (auto simp: type_structurally_equals_def)
next
  case kind: True
  show ?thesis
  proof (cases "ty_kind t \<in> {TYPE_ARRAY, TYPE_SLICE, TYPE_STRUCT}")
    case True
    obtain d where d: "ty_decl t = Some d" "d < length (tr_decls reg)" "\<forall>a \<in> set (ty_args t). arg_made reg a"
        "type_made reg (Some u) \<Longrightarrow> ty_kind u = ty_kind t \<Longrightarrow> ty_decl u = Some d \<Longrightarrow> ty_args u = ty_args t \<Longrightarrow> u = t"
      using made_applied [OF assms(2,1) True] by metis
    obtain e where e: "ty_decl u = Some e" "e < length (tr_decls reg)" "\<forall>a \<in> set (ty_args u). arg_made reg a"
      using made_applied [OF assms(3,1)] True kind by metis
    have "td_id (tr_decls reg ! d) = td_id (tr_decls reg ! e) \<longleftrightarrow> d = e"
      using assms(1) d(2) e(2) nth_eq_iff_index_eq [of "map td_id (tr_decls reg)" d e] by (simp add: registry_ok_def)
    moreover have "type_args_equal (ty_args t) (ty_args u) \<longleftrightarrow> ty_args t = ty_args u"
      using type_args_equal_made [OF d(3) e(3)] .
    moreover have "t = u \<longleftrightarrow> d = e \<and> ty_args t = ty_args u"
    proof
      assume "t = u"
      then show "d = e \<and> ty_args t = ty_args u" using d(1) e(1) by simp
    next
      assume "d = e \<and> ty_args t = ty_args u"
      then show "t = u" using d(4) [OF assms(3) kind [symmetric]] e(1) by simp
    qed
    moreover have "type_structurally_equals (tr_decls reg) t u =
        Some (td_id (tr_decls reg ! d) = td_id (tr_decls reg ! e) \<and> length (ty_args t) = length (ty_args u) \<and>
              type_args_equal (ty_args t) (ty_args u))"
      using True kind d(1,2) e(1,2)
      by (auto simp: type_structurally_equals_def decl_of_def decl_id_equals_iff)
    ultimately show ?thesis by auto
  next
    case False
    have shapes: "made_shape reg t" "made_shape reg u" using assms(2,3) type_made_shape by blast+
    show ?thesis
    proof (cases "ty_kind t = TYPE_REF \<or> ty_kind t = TYPE_RAW")
      case True
      have "t = u \<longleftrightarrow> ty_pointee t = ty_pointee u"
      proof (cases "ty_kind t = TYPE_REF")
        case True
        then have "t = type_registry_ref_to (ty_pointee t)" "u = type_registry_ref_to (ty_pointee u)"
          using shapes kind by (simp_all add: made_shape_def)
        then show ?thesis by metis
      next
        case False
        then have "t = type_registry_raw_of reg (ty_pointee t)" "u = type_registry_raw_of reg (ty_pointee u)"
          using shapes kind True by (simp_all add: made_shape_def)
        then show ?thesis by metis
      qed
      then show ?thesis using True kind by (cases "ty_kind u") (simp_all add: type_structurally_equals_def)
    next
      case other: False
      then show ?thesis using False kind
        by (cases "ty_kind u") (simp_all add: type_structurally_equals_def)
    qed
  qed
qed

section \<open>Properties\<close>

text \<open>C10: a type copies exactly when it does not own, and one question has an answer exactly when the
  other has: \<^verbatim>\<open>type_registry_copies\<close> and \<^verbatim>\<open>type_registry_owns\<close> are opposites on every type, the empty
  one and unsubstituted parameters included.\<close>

theorem copies_iff_not_owns:
  "type_registry_copies reg t = map_option Not (type_registry_owns reg t)"
proof (cases "type_registry_owns reg t")
  case None
  then have "type_registry_copies reg t \<noteq> Some b" for b using owns_of_copies by fastforce
  then show ?thesis using None by (cases "type_registry_copies reg t") auto
next
  case (Some b)
  then show ?thesis using copies_of_owns by auto
qed

text \<open>C11: substituting closed arguments for the parameters of a type the registry made always
  succeeds, and gives a type the registry makes that mentions no parameter, provided every
  parameter mentioned has an argument of its kind and no struct takes more parameters than given.\<close>

theorem substitution_closes_types:
  assumes "type_made reg t" "fits reg args t" "args_closed reg args"
  shows "\<exists>u. type_registry_substitute reg t args = Some u \<and> type_made reg u \<and> \<not> type_has_param u"
  using substitute_closes [OF assms(2,1,3)] .

definition sample_registry :: type_registry where
  "sample_registry = type_registry_create known_names"

definition sample_type :: "type_kind \<Rightarrow> gtype option" where
  "sample_type k = type_registry_get_primitive sample_registry k"

theorem substitution_closes_types_witness:
  "\<exists>u. type_registry_substitute sample_registry
          (Some (type_registry_array_with sample_registry (type_registry_param 0) (TYPE_ARG_CONST (CONST_PARAM 1))))
          [TYPE_ARG_TYPE (sample_type TYPE_BOOL), TYPE_ARG_CONST (CONST_VALUE (constant_int (sample_type TYPE_I32) 3))]
        = Some u \<and> \<not> type_has_param u"
proof -
  let ?p = "Some (Type TYPE_PARAM None None [] True None 0)"
  let ?t = "Some (type_registry_array_with sample_registry ?p (TYPE_ARG_CONST (CONST_PARAM 1)))"
  let ?args = "[TYPE_ARG_TYPE (sample_type TYPE_BOOL), TYPE_ARG_CONST (CONST_VALUE (constant_int (sample_type TYPE_I32) 3))]"
  have p: "type_registry_param 0 = ?p" by (simp add: type_registry_param_def GAB_MAX_TYPE_PARAMS_def)
  have "type_made sample_registry ?p" using p by (intro made_param [of 0]) simp
  then have made: "type_made sample_registry ?t" by (intro made_array) (simp_all add: const_made_def)
  have "fits sample_registry ?args ?p" by (rule fits_param [of _ _ "sample_type TYPE_BOOL"]) simp_all
  then have fits: "fits sample_registry ?args ?t" by (intro fits_array) (simp_all add: const_fits_def)
  have "const_made sample_registry (CONST_VALUE (constant_int (sample_type TYPE_I32) 3))"
    by (auto simp: const_made_def constant_int_def sample_type_def register_builtin_def type_init_def
        intro: exI [of _ TYPE_I32])
  moreover have "type_made sample_registry (sample_type TYPE_BOOL)"
    by (auto simp: sample_type_def intro: made_primitive [of _ TYPE_BOOL])
  ultimately have "args_closed sample_registry ?args"
    by (auto simp: args_closed_def arg_has_param_def sample_type_def register_builtin_def type_init_def
        type_has_param.simps intro: made_type_arg made_const_arg)
  from substitution_closes_types [OF made fits this] show ?thesis unfolding p by blast
qed

definition holder_registry :: type_registry where
  "holder_registry = sample_registry
     \<lparr>tr_decls := tr_decls sample_registry @
        [\<lparr>td_id = no_decl_id\<lparr>di_name := Some ''Holder''\<rparr>, td_param_count = 1,
          td_fields = [\<lparr>tf_name = ''value'', tf_type = type_registry_param 0\<rparr>]\<rparr>,
         \<lparr>td_id = no_decl_id\<lparr>di_name := Some ''Pair''\<rparr>, td_param_count = 2,
          td_fields = [\<lparr>tf_name = ''second'',
            tf_type = Some (Type TYPE_STRUCT (Some ''Holder'') (Some 10) [TYPE_ARG_TYPE (type_registry_param 1)] True None 0)\<rparr>]\<rparr>]\<rparr>"

text \<open>Substitution does not look at the arguments a struct type was written with.  In a
  declaration of two parameters whose field holds a one-parameter struct at the second, the field of
  the instance at \<^verbatim>\<open>i32\<close> and \<^verbatim>\<open>bool\<close> holds that struct at \<^verbatim>\<open>i32\<close>, the first argument, and not at
  \<^verbatim>\<open>bool\<close>.\<close>

theorem struct_substitution_ignores_own_arguments:
  "type_registry_fields_of holder_registry
     (type_registry_instantiate holder_registry 11
        [TYPE_ARG_TYPE (sample_type TYPE_I32), TYPE_ARG_TYPE (sample_type TYPE_BOOL)]) =
   Some [\<lparr>tf_name = ''second'',
          tf_type = type_registry_instantiate holder_registry 10 [TYPE_ARG_TYPE (sample_type TYPE_I32)]\<rparr>] \<and>
   type_registry_instantiate holder_registry 10 [TYPE_ARG_TYPE (sample_type TYPE_I32)] \<noteq>
   type_registry_instantiate holder_registry 10 [TYPE_ARG_TYPE (sample_type TYPE_BOOL)]"
  by (simp add: holder_registry_def sample_registry_def sample_type_def type_registry_create_def
      type_registry_instantiate_def type_registry_fields_of_def decl_of_def decl_name_def known_names_def
      register_builtin_def type_init_def type_registry_substitute.simps arg_has_param_def type_has_param.simps
      no_decl_id_def)

text \<open>C12: the layout of a struct places every field at an offset aligned for it, after the field
  before it and inside the struct; the struct's alignment is a multiple of every field's and its
  size of its alignment, as long as the fields' sizes and their padding stay below \<open>2 ^ 62\<close>.\<close>

theorem struct_layout_sound:
  assumes "type_registry_layout_of reg (Some t) = Some l" "ty_kind t = TYPE_STRUCT"
    "type_registry_fields_of reg (Some t) = Some fs" "map_fields (type_registry_layout_of reg) fs = Some ls"
    "room_for ls < 2 ^ 62"
  shows "length (tl_offsets l) = length fs \<and> unat (tl_alignment l) dvd unat (tl_size l) \<and>
    (\<forall>i < length fs. unat (tl_alignment (ls ! i)) dvd unat (tl_offsets l ! i) \<and>
       unat (tl_alignment (ls ! i)) dvd unat (tl_alignment l) \<and>
       unat (tl_offsets l ! i) + unat (tl_size (ls ! i)) \<le> unat (tl_size l) \<and>
       (\<forall>j < i. unat (tl_offsets l ! j) + unat (tl_size (ls ! j)) \<le> unat (tl_offsets l ! i)))"
proof -
  have l: "l = layout_of_fields ls"
    using assms(1-4) by (subst (asm) type_registry_layout_of.simps) simp
  have "\<forall>x \<in> set ls. alignment_ok (tl_alignment x)"
    using map_fields_all [OF assms(4)] layout_of_ok by (fastforce simp: layout_ok_def)
  note ok = layout_of_fields_ok [OF this assms(5), unfolded Let_def, folded l]
  then have placed: "placed ls (tl_offsets l) 0 (unat (tl_size l))" by blast
  have len: "length ls = length fs" using assms(4) by (rule map_fields_length)
  have "length (tl_offsets l) = length ls" using placed by (rule placed_length)
  then show ?thesis using ok len placed_in [OF placed] placed_nth [OF placed]
    by (auto simp: layout_ok_def)
qed

definition point_registry :: type_registry where
  "point_registry = sample_registry
     \<lparr>tr_decls := tr_decls sample_registry @
        [\<lparr>td_id = no_decl_id\<lparr>di_name := Some ''Point''\<rparr>, td_param_count = 0,
          td_fields = [\<lparr>tf_name = ''tag'', tf_type = sample_type TYPE_U8\<rparr>,
                       \<lparr>tf_name = ''x'', tf_type = sample_type TYPE_I32\<rparr>]\<rparr>]\<rparr>"

definition point_type :: gtype where
  "point_type = Type TYPE_STRUCT (Some ''Point'') (Some 10) [] False None 0"

lemma point_fields:
  "type_registry_fields_of point_registry (Some point_type) =
     Some [\<lparr>tf_name = ''tag'', tf_type = sample_type TYPE_U8\<rparr>, \<lparr>tf_name = ''x'', tf_type = sample_type TYPE_I32\<rparr>]"
  by (simp add: point_registry_def point_type_def sample_registry_def type_registry_create_def
      type_registry_fields_of_def decl_of_def)

lemma point_field_layouts:
  "map_fields (type_registry_layout_of reg)
     [\<lparr>tf_name = ''tag'', tf_type = sample_type TYPE_U8\<rparr>, \<lparr>tf_name = ''x'', tf_type = sample_type TYPE_I32\<rparr>] =
   Some [\<lparr>tl_size = 1, tl_alignment = 1, tl_offsets = []\<rparr>, \<lparr>tl_size = 4, tl_alignment = 4, tl_offsets = []\<rparr>]"
  by (simp add: type_registry_layout_of.simps sample_type_def register_builtin_def type_init_def)

theorem struct_layout_sound_witness:
  "\<exists>l. type_registry_layout_of point_registry (Some point_type) = Some l \<and> length (tl_offsets l) = 2 \<and>
     unat (tl_offsets l ! 0) + 1 \<le> unat (tl_offsets l ! 1) \<and> unat (tl_offsets l ! 1) + 4 \<le> unat (tl_size l)"
proof -
  let ?ls = "[\<lparr>tl_size = 1, tl_alignment = 1, tl_offsets = []\<rparr>, \<lparr>tl_size = 4, tl_alignment = 4, tl_offsets = []\<rparr>]"
  have kind: "ty_kind point_type = TYPE_STRUCT" by (simp add: point_type_def)
  have "type_registry_layout_of point_registry (Some point_type) = Some (layout_of_fields ?ls)"
    by (subst type_registry_layout_of.simps)
      (simp add: kind point_fields point_field_layouts del: map_fields.simps)
  moreover have "room_for ?ls < 2 ^ 62" by (simp add: room_for_def)
  ultimately show ?thesis
    using struct_layout_sound [OF _ kind point_fields point_field_layouts] by (fastforce simp: All_less_Suc2)
qed

text \<open>C13: on a type of finite size every recursive question ends: whether it owns, borrows or copies,
  and its layout, whose size is a multiple of its alignment.\<close>

theorem finite_types_are_answered:
  assumes "finite_by_value reg t"
  shows "(\<exists>b. type_registry_owns reg t = Some b) \<and> (\<exists>b. type_registry_borrows reg t = Some b) \<and>
    (\<exists>b. type_registry_copies reg t = Some b) \<and> (\<exists>l. type_registry_layout_of reg t = Some l \<and> layout_ok l)"
  using finite_owns [OF assms] finite_borrows [OF assms] finite_layout [OF assms] layout_of_ok copies_of_owns
  by metis

theorem finite_types_are_answered_witness:
  "\<exists>b. type_registry_owns point_registry (Some point_type) = Some b"
proof -
  have "finite_by_value point_registry (sample_type k)" if "k = TYPE_U8 \<or> k = TYPE_I32" for k
    using that by (auto simp: sample_type_def register_builtin_def type_init_def intro!: finite_leaf)
  then have "finite_by_value point_registry (Some point_type)"
    by (intro finite_struct [OF _ point_fields]) (auto simp: point_type_def)
  from finite_types_are_answered [OF this] show ?thesis by blast
qed


lemma sample_registry_ok: "registry_ok sample_registry"
  by (simp add: registry_ok_def sample_registry_def type_registry_create_def known_names_def builtin_decl_def
      no_decl_id_def)


text \<open>Float constants break the law that equal keys hash alike: positive and negative zero are
  equal constants with different hashes.\<close>

theorem equal_float_constants_hash_differently:
  "\<exists>a b. constant_equals (constant_float (sample_type TYPE_F32) a) (constant_float (sample_type TYPE_F32) b) \<and>
     constant_hash (constant_float (sample_type TYPE_F32) a) \<noteq> constant_hash (constant_float (sample_type TYPE_F32) b)"
  by (rule exI [of _ 0], rule exI [of _ "0x80000000"])
    (simp add: constant_equals_def constant_hash_def constant_float_def constant_is_string_def
      constant_is_float_def sample_type_def register_builtin_def type_init_def f32_zeros_equal)

end
