(* ===== verification/Mir.thy ===== *)
theory Mir
  imports Type_Registry Diagnostics
begin

text \<open>
  The intermediate representation: \<^verbatim>\<open>src/mir/mir.h\<close> and \<^verbatim>\<open>src/mir/mir.c\<close>.  Values and blocks are
  32-bit identifiers, here naturals with the C code's sentinel \<open>2 ^ 32 - 1\<close> for none; the growing
  arrays of a function are lists, and a block's id is its index.  The members of the union in
  \<^verbatim>\<open>MIRInst\<close> are fields of their own (each operation reads only the members it stored), zero where
  an initialiser leaves them out: in particular an unset drop flag is value 0, as in the C code.
  \<^verbatim>\<open>Function *\<close> and \<^verbatim>\<open>Symbol *\<close> are the indices of the objects they point to.
\<close>

section \<open>Identifiers\<close>

definition MIR_NO_VALUE :: nat where "MIR_NO_VALUE = 4294967295"
definition MIR_NO_BLOCK :: nat where "MIR_NO_BLOCK = 4294967295"
definition MIR_WHOLE_VALUE :: nat where "MIR_WHOLE_VALUE = 4294967295"

definition mir_value_is_none :: "nat \<Rightarrow> bool" where
  "mir_value_is_none v \<longleftrightarrow> v = 4294967295"

definition mir_block_is_none :: "nat \<Rightarrow> bool" where
  "mir_block_is_none b \<longleftrightarrow> b = 4294967295"

definition mir_field_is_whole :: "nat \<Rightarrow> bool" where
  "mir_field_is_whole f \<longleftrightarrow> f = 4294967295"

section \<open>Instructions\<close>

datatype mir_op =
  MIR_CONST_INT | MIR_CONST_FLOAT | MIR_CONST_BOOL | MIR_CONST_STR | MIR_SIZE_OF
| MIR_ADD | MIR_SUB | MIR_MUL | MIR_DIV | MIR_MOD | MIR_NEG | MIR_CMP | MIR_NOT | MIR_ITOF | MIR_FTOI
| MIR_LOAD | MIR_STORE | MIR_REF | MIR_BOUNDS | MIR_COPY | MIR_MAKE_SLICE | MIR_SLICE_LEN | MIR_CALL
| MIR_NULL | MIR_DROP | MIR_DROP_FLAG | MIR_STORAGE_LIVE | MIR_STORAGE_DEAD | MIR_STORAGE_INIT
| MIR_JMP | MIR_BRANCH | MIR_RETURN | MIR_UNREACHABLE

datatype cmp_predicate = MIR_CMP_LT | MIR_CMP_GT | MIR_CMP_EQ | MIR_CMP_NE | MIR_CMP_LE | MIR_CMP_GE

datatype proj_kind = PROJ_FIELD | PROJ_DEREF | PROJ_INDEX

text \<open>The union of a projection holds a field number or the value that indexes.\<close>

record projection =
  pr_kind :: proj_kind
  pr_id :: nat
  pr_type :: "gtype option"

datatype mir_operand = OPERAND_VALUE nat | OPERAND_CONST const

definition mir_operand_value :: "nat \<Rightarrow> mir_operand" where
  "mir_operand_value v = OPERAND_VALUE v"

definition mir_operand_const :: "const \<Rightarrow> mir_operand" where
  "mir_operand_const c = OPERAND_CONST c"

fun mir_operand_as_value :: "mir_operand \<Rightarrow> nat" where
  "mir_operand_as_value (OPERAND_VALUE v) = v"
| "mir_operand_as_value (OPERAND_CONST c) = MIR_NO_VALUE"

record place =
  pl_base :: nat
  pl_projections :: "projection list"
  pl_binding :: "nat option"

datatype read_kind = READ_COPY | READ_MOVE

record mir_inst =
  mi_op :: mir_op
  mi_type :: "gtype option"
  mi_result :: nat
  mi_args :: "mir_operand list"
  mi_constant :: const
  mi_predicate :: cmp_predicate
  mi_place :: place
  mi_read :: read_kind
  mi_flag :: nat
  mi_callee :: "nat option"
  mi_targets :: "nat \<times> nat"
  mi_ending :: "nat option"
  mi_span :: span

type_synonym mir_block = "mir_inst list"

record mir_value_info =
  vi_type :: "gtype option"
  vi_binding :: "nat option"
  vi_span :: span

record mir_function =
  mf_function :: "nat option"
  mf_blocks :: "mir_block list"
  mf_entry :: nat
  mf_values :: "mir_value_info list"
  mf_params :: "nat list"

text \<open>What a designated initialiser leaves at zero.\<close>

definition zero_place :: place where
  "zero_place = \<lparr>pl_base = 0, pl_projections = [], pl_binding = None\<rparr>"

definition zero_constant :: const where
  "zero_constant = Constant None (Const_int 0)"

definition inst_of :: "mir_op \<Rightarrow> gtype option \<Rightarrow> nat \<Rightarrow> span \<Rightarrow> mir_inst" where
  "inst_of op t result sp =
     \<lparr>mi_op = op, mi_type = t, mi_result = result, mi_args = [], mi_constant = zero_constant,
      mi_predicate = MIR_CMP_LT, mi_place = zero_place, mi_read = READ_COPY, mi_flag = 0,
      mi_callee = None, mi_targets = (0, 0), mi_ending = None, mi_span = sp\<rparr>"

section \<open>Building\<close>

definition mir_block_create :: "mir_function \<Rightarrow> nat \<times> mir_function" where
  "mir_block_create ir = (length (mf_blocks ir), ir\<lparr>mf_blocks := mf_blocks ir @ [[]]\<rparr>)"

definition mir_function_create :: "nat option \<Rightarrow> mir_function" where
  "mir_function_create function =
     (let ir = \<lparr>mf_function = function, mf_blocks = [], mf_entry = MIR_NO_BLOCK, mf_values = [], mf_params = []\<rparr>;
          (entry, ir') = mir_block_create ir
      in ir'\<lparr>mf_entry := entry\<rparr>)"

definition mir_block_at :: "mir_function \<Rightarrow> nat \<Rightarrow> mir_block option" where
  "mir_block_at ir b =
     (if mir_block_is_none b \<or> b \<ge> length (mf_blocks ir) then None else Some (mf_blocks ir ! b))"

definition mir_value_create ::
  "mir_function \<Rightarrow> gtype option \<Rightarrow> nat option \<Rightarrow> span \<Rightarrow> nat \<times> mir_function" where
  "mir_value_create ir t binding sp =
     (length (mf_values ir),
      ir\<lparr>mf_values := mf_values ir @ [\<lparr>vi_type = t, vi_binding = binding, vi_span = sp\<rparr>]\<rparr>)"

definition mir_value_info_at :: "mir_function \<Rightarrow> nat \<Rightarrow> mir_value_info option" where
  "mir_value_info_at ir v =
     (if mir_value_is_none v \<or> v \<ge> length (mf_values ir) then None else Some (mf_values ir ! v))"

definition mir_emit :: "mir_function \<Rightarrow> nat \<Rightarrow> mir_inst \<Rightarrow> mir_function" where
  "mir_emit ir b inst = ir\<lparr>mf_blocks := (mf_blocks ir)[b := mf_blocks ir ! b @ [inst]]\<rparr>"

definition mir_place_of :: "nat \<Rightarrow> nat option \<Rightarrow> place" where
  "mir_place_of base binding = \<lparr>pl_base = base, pl_projections = [], pl_binding = binding\<rparr>"

definition mir_place_project :: "place \<Rightarrow> projection \<Rightarrow> place" where
  "mir_place_project p proj = p\<lparr>pl_projections := pl_projections p @ [proj]\<rparr>"

text \<open>The loop follows references; it ends because a type is a finite tree.\<close>

function mir_indexed_container :: "gtype option \<Rightarrow> gtype option" where
  "mir_indexed_container None = None"
| "mir_indexed_container (Some t) =
     (if ty_kind t = TYPE_REF then mir_indexed_container (ty_pointee t) else Some t)"
  by pat_completeness auto
termination by (relation "measure opt_size") (auto intro: opt_size_pointee)

definition mir_place_index :: "place \<Rightarrow> gtype \<Rightarrow> nat \<Rightarrow> gtype option \<Rightarrow> place" where
  "mir_place_index base container index element =
     (let base' =
        (if ty_kind container = TYPE_RAW then
           mir_place_project base \<lparr>pr_kind = PROJ_DEREF, pr_id = 0, pr_type = Some container\<rparr>
         else if type_is_indirect (Some container) then
           mir_place_project base \<lparr>pr_kind = PROJ_DEREF, pr_id = 0, pr_type = type_pointee (Some container)\<rparr>
         else base)
      in mir_place_project base' \<lparr>pr_kind = PROJ_INDEX, pr_id = index, pr_type = element\<rparr>)"

definition mir_bounds_operands :: "place \<Rightarrow> gtype option \<Rightarrow> nat \<Rightarrow> nat list" where
  "mir_bounds_operands indexed container index =
     (if kind_is TYPE_SLICE (mir_indexed_container container) then [index, pl_base indexed] else [index])"

section \<open>Classification\<close>

text \<open>\<^verbatim>\<open>type && type_registry_owns(registry, type)\<close>, on a type whose question ends.\<close>

definition mir_type_needs_drop :: "type_registry \<Rightarrow> gtype option \<Rightarrow> bool" where
  "mir_type_needs_drop reg t \<longleftrightarrow> t \<noteq> None \<and> type_registry_owns reg t = Some True"

fun mir_op_has_place :: "mir_op \<Rightarrow> bool" where
  "mir_op_has_place op =
     (case op of
        MIR_LOAD \<Rightarrow> True | MIR_STORE \<Rightarrow> True | MIR_REF \<Rightarrow> True | MIR_DROP \<Rightarrow> True | MIR_DROP_FLAG \<Rightarrow> True
      | MIR_NULL \<Rightarrow> True | MIR_STORAGE_LIVE \<Rightarrow> True | MIR_STORAGE_DEAD \<Rightarrow> True | MIR_STORAGE_INIT \<Rightarrow> True
      | _ \<Rightarrow> False)"

fun mir_op_is_terminator :: "mir_op \<Rightarrow> bool" where
  "mir_op_is_terminator op =
     (case op of MIR_JMP \<Rightarrow> True | MIR_BRANCH \<Rightarrow> True | MIR_RETURN \<Rightarrow> True | MIR_UNREACHABLE \<Rightarrow> True | _ \<Rightarrow> False)"

definition mir_block_is_terminated :: "mir_block \<Rightarrow> bool" where
  "mir_block_is_terminated block \<longleftrightarrow> length block > 0 \<and> mir_op_is_terminator (mi_op (last block))"

definition mir_block_successors :: "mir_block \<Rightarrow> nat list" where
  "mir_block_successors block =
     (if \<not> mir_block_is_terminated block then []
      else case mi_op (last block) of
        MIR_JMP \<Rightarrow> [fst (mi_targets (last block))]
      | MIR_BRANCH \<Rightarrow> [fst (mi_targets (last block)), snd (mi_targets (last block))]
      | _ \<Rightarrow> [])"

text \<open>The table of names has no entry for \<^verbatim>\<open>MIR_SIZE_OF\<close>: its pointer is NULL.\<close>

fun mir_op_name :: "mir_op \<Rightarrow> string option" where
  "mir_op_name op =
     (case op of
        MIR_CONST_INT \<Rightarrow> Some ''const.int'' | MIR_CONST_FLOAT \<Rightarrow> Some ''const.float''
      | MIR_CONST_BOOL \<Rightarrow> Some ''const.bool'' | MIR_CONST_STR \<Rightarrow> Some ''const.str'' | MIR_SIZE_OF \<Rightarrow> None
      | MIR_ADD \<Rightarrow> Some ''add'' | MIR_SUB \<Rightarrow> Some ''sub'' | MIR_MUL \<Rightarrow> Some ''mul'' | MIR_DIV \<Rightarrow> Some ''div''
      | MIR_MOD \<Rightarrow> Some ''mod'' | MIR_NEG \<Rightarrow> Some ''neg'' | MIR_CMP \<Rightarrow> Some ''cmp'' | MIR_NOT \<Rightarrow> Some ''not''
      | MIR_ITOF \<Rightarrow> Some ''itof'' | MIR_FTOI \<Rightarrow> Some ''ftoi'' | MIR_LOAD \<Rightarrow> Some ''load'' | MIR_STORE \<Rightarrow> Some ''store''
      | MIR_REF \<Rightarrow> Some ''ref'' | MIR_BOUNDS \<Rightarrow> Some ''bounds'' | MIR_COPY \<Rightarrow> Some ''copy''
      | MIR_MAKE_SLICE \<Rightarrow> Some ''make_slice'' | MIR_SLICE_LEN \<Rightarrow> Some ''slice_len'' | MIR_CALL \<Rightarrow> Some ''call''
      | MIR_NULL \<Rightarrow> Some ''null'' | MIR_DROP_FLAG \<Rightarrow> Some ''drop_flag'' | MIR_DROP \<Rightarrow> Some ''drop''
      | MIR_STORAGE_LIVE \<Rightarrow> Some ''storage_live'' | MIR_STORAGE_DEAD \<Rightarrow> Some ''storage_dead''
      | MIR_STORAGE_INIT \<Rightarrow> Some ''storage_init'' | MIR_JMP \<Rightarrow> Some ''jmp'' | MIR_BRANCH \<Rightarrow> Some ''branch''
      | MIR_RETURN \<Rightarrow> Some ''return'' | MIR_UNREACHABLE \<Rightarrow> Some ''unreachable'')"

fun mir_cmp_predicate_name :: "cmp_predicate \<Rightarrow> string" where
  "mir_cmp_predicate_name MIR_CMP_LT = ''lt''"
| "mir_cmp_predicate_name MIR_CMP_GT = ''gt''"
| "mir_cmp_predicate_name MIR_CMP_EQ = ''eq''"
| "mir_cmp_predicate_name MIR_CMP_NE = ''ne''"
| "mir_cmp_predicate_name MIR_CMP_LE = ''le''"
| "mir_cmp_predicate_name MIR_CMP_GE = ''ge''"

section \<open>Well-formed functions\<close>

text \<open>Every successor is a block and the entry is one; the arrays fit the identifiers.\<close>

definition mir_wf :: "mir_function \<Rightarrow> bool" where
  "mir_wf ir \<longleftrightarrow> mf_entry ir < length (mf_blocks ir) \<and> length (mf_blocks ir) < 4294967295 \<and>
     length (mf_values ir) < 4294967295 \<and>
     (\<forall>b \<in> set (mf_blocks ir). \<forall>s \<in> set (mir_block_successors b). s < length (mf_blocks ir))"

text \<open>Paths through the blocks.\<close>

definition flows :: "mir_function \<Rightarrow> nat \<Rightarrow> nat \<Rightarrow> bool" where
  "flows ir b s \<longleftrightarrow> b < length (mf_blocks ir) \<and> s \<in> set (mir_block_successors (mf_blocks ir ! b))"

fun block_path :: "mir_function \<Rightarrow> nat \<Rightarrow> nat list \<Rightarrow> bool" where
  "block_path ir b [] = True"
| "block_path ir b (s # ss) \<longleftrightarrow> flows ir b s \<and> block_path ir s ss"

lemma mir_wf_flows: "mir_wf ir \<Longrightarrow> flows ir b s \<Longrightarrow> s < length (mf_blocks ir)"
  by (auto simp: mir_wf_def flows_def)

lemma mir_function_create_wf: "mir_wf (mir_function_create f)"
  by (simp add: mir_function_create_def mir_block_create_def mir_wf_def mir_block_successors_def
      mir_block_is_terminated_def)

lemma successors_append_terminator:
  "mir_op_is_terminator (mi_op inst) \<Longrightarrow>
     mir_block_successors (block @ [inst]) =
       (case mi_op inst of MIR_JMP \<Rightarrow> [fst (mi_targets inst)]
        | MIR_BRANCH \<Rightarrow> [fst (mi_targets inst), snd (mi_targets inst)] | _ \<Rightarrow> [])"
  by (simp add: mir_block_successors_def mir_block_is_terminated_def split: mir_op.split)

text \<open>A position for the sample functions of the witnesses.\<close>

definition sample_span :: span where "sample_span = \<lparr>sp_line = 1, sp_column = 1\<rparr>"

end
