(* ===== verification/Mir_Liveness.thy ===== *)
theory Mir_Liveness
  imports Mir
begin

text \<open>
  Liveness of places: \<^verbatim>\<open>src/mir/mir_liveness.c\<close> and \<^verbatim>\<open>src/mir/mir_liveness.h\<close>.  A place is a whole
  value or one of its leading fields and has an index; a set of places is a row of 64-bit words.
  The array of one row per block is a list of rows.  The state of the fixpoint loop is the two
  arrays, and one turn of the loop is \<open>liveness_pass\<close>; a turn that changes nothing ends it.
\<close>

unbundle bit_operations_syntax

type_synonym word_set = "uint64_t list"

record liveness =
  lv_entry :: "word_set list"
  lv_exit :: "word_set list"
  lv_value_base :: "nat list"
  lv_value_fields :: "nat list"
  lv_place_count :: nat
  lv_words_per_block :: nat
  lv_block_count :: nat
  lv_value_count :: nat
  lv_ir :: mir_function

section \<open>Sets of places\<close>

definition place_index :: "liveness \<Rightarrow> nat \<Rightarrow> nat \<Rightarrow> nat" where
  "place_index lv v f =
     (let base = lv_value_base lv ! v
      in if mir_field_is_whole f \<or> f \<ge> lv_value_fields lv ! v then base else base + 1 + f)"

definition word_of :: "nat \<Rightarrow> nat" where "word_of i = i div 64"

definition bit_of :: "nat \<Rightarrow> uint64_t" where "bit_of i = push_bit (i mod 64) 1"

definition set_test :: "word_set \<Rightarrow> nat \<Rightarrow> bool" where
  "set_test s i \<longleftrightarrow> s ! word_of i AND bit_of i \<noteq> 0"

definition set_add :: "nat \<Rightarrow> word_set \<Rightarrow> word_set" where
  "set_add i s = s[word_of i := s ! word_of i OR bit_of i]"

definition set_remove :: "nat \<Rightarrow> word_set \<Rightarrow> word_set" where
  "set_remove i s = s[word_of i := s ! word_of i AND NOT (bit_of i)]"

definition read_place :: "liveness \<Rightarrow> nat \<Rightarrow> nat \<Rightarrow> word_set \<Rightarrow> word_set" where
  "read_place lv v f s =
     (if mir_value_is_none v \<or> v \<ge> lv_value_count lv then s
      else let s1 = set_add (place_index lv v f) s
           in if \<not> mir_field_is_whole f then s1
              else fold (\<lambda>i. set_add (place_index lv v i)) [0..<lv_value_fields lv ! v] s1)"

definition write_place :: "liveness \<Rightarrow> nat \<Rightarrow> nat \<Rightarrow> word_set \<Rightarrow> word_set" where
  "write_place lv v f s =
     (if mir_value_is_none v \<or> v \<ge> lv_value_count lv then s
      else let s1 = set_remove (place_index lv v f) s
           in if \<not> mir_field_is_whole f then s1
              else fold (\<lambda>i. set_remove (place_index lv v i)) [0..<lv_value_fields lv ! v] s1)"

section \<open>One instruction, backwards\<close>

definition leading_field :: "place \<Rightarrow> nat" where
  "leading_field p =
     (case pl_projections p of
        [] \<Rightarrow> MIR_WHOLE_VALUE
      | proj # _ \<Rightarrow> if pr_kind proj = PROJ_FIELD then pr_id proj else MIR_WHOLE_VALUE)"

definition read_indices :: "liveness \<Rightarrow> projection list \<Rightarrow> word_set \<Rightarrow> word_set" where
  "read_indices lv projs s =
     fold (\<lambda>proj s. if pr_kind proj = PROJ_INDEX then read_place lv (pr_id proj) MIR_WHOLE_VALUE s else s) projs s"

definition place_reads :: "liveness \<Rightarrow> place \<Rightarrow> word_set \<Rightarrow> word_set" where
  "place_reads lv p s = read_indices lv (pl_projections p) (read_place lv (pl_base p) (leading_field p) s)"

definition step_backwards :: "liveness \<Rightarrow> mir_inst \<Rightarrow> word_set \<Rightarrow> word_set" where
  "step_backwards lv inst s =
     (let p = mi_place inst;
          s1 = (if \<not> mir_value_is_none (mi_result inst) then write_place lv (mi_result inst) MIR_WHOLE_VALUE s else s);
          s2 = (if mi_op inst = MIR_STORE then
                  let w = write_place lv (pl_base p) (leading_field p) s1;
                      r = (if length (pl_projections p) > 1 then read_place lv (pl_base p) (leading_field p) w else w)
                  in read_indices lv (pl_projections p) r
                else if mi_op inst = MIR_LOAD \<or> mi_op inst = MIR_REF \<or> mi_op inst = MIR_DROP then place_reads lv p s1
                else s1);
          s3 = (if mi_op inst = MIR_STORAGE_LIVE \<or> mi_op inst = MIR_STORAGE_DEAD
                then write_place lv (pl_base p) MIR_WHOLE_VALUE s2 else s2)
      in fold (\<lambda>arg. read_place lv (mir_operand_as_value arg) MIR_WHOLE_VALUE) (mi_args inst) s3)"

text \<open>The loop over a block's instructions, last first.\<close>

definition block_backwards :: "liveness \<Rightarrow> mir_block \<Rightarrow> word_set \<Rightarrow> word_set" where
  "block_backwards lv block s = foldr (step_backwards lv) block s"

section \<open>The fixpoint\<close>

definition or_words :: "word_set \<Rightarrow> word_set \<Rightarrow> word_set" where
  "or_words s t = map2 (OR) s t"

text \<open>The turn for one block: \<open>changed\<close> is whether a word of the exit or entry row changed.\<close>

definition liveness_block :: "nat \<Rightarrow> liveness \<times> bool \<Rightarrow> liveness \<times> bool" where
  "liveness_block b = (\<lambda>(lv, changed).
     let block = mf_blocks (lv_ir lv) ! b;
         exit = fold (\<lambda>s e. or_words e (lv_entry lv ! s)) (mir_block_successors block) (lv_exit lv ! b);
         working = block_backwards lv block exit;
         entry = or_words (lv_entry lv ! b) working
     in (lv\<lparr>lv_exit := (lv_exit lv)[b := exit], lv_entry := (lv_entry lv)[b := entry]\<rparr>,
         changed \<or> exit \<noteq> lv_exit lv ! b \<or> entry \<noteq> lv_entry lv ! b))"

definition liveness_pass :: "liveness \<Rightarrow> liveness \<times> bool" where
  "liveness_pass lv = fold liveness_block (rev [0..<lv_block_count lv]) (lv, False)"

partial_function (option) liveness_loop :: "liveness \<Rightarrow> liveness option" where
  "liveness_loop lv =
     (case liveness_pass lv of (lv', changed) \<Rightarrow> if changed then liveness_loop lv' else Some lv')"

text \<open>The number of fields of a value whose type is a struct.\<close>

definition value_field_count :: "type_registry \<Rightarrow> mir_value_info \<Rightarrow> nat" where
  "value_field_count reg info =
     (if kind_is TYPE_STRUCT (vi_type info) then
        (case type_registry_fields_of reg (vi_type info) of Some fs \<Rightarrow> length fs | None \<Rightarrow> 0)
      else 0)"

fun value_bases :: "nat \<Rightarrow> nat list \<Rightarrow> nat list" where
  "value_bases places [] = []"
| "value_bases places (n # ns) = places # value_bases (places + 1 + n) ns"

definition liveness_init :: "type_registry \<Rightarrow> mir_function \<Rightarrow> liveness" where
  "liveness_init reg ir =
     (let fields = map (value_field_count reg) (mf_values ir);
          places = sum_list (map Suc fields);
          words = (if (places + 63) div 64 = 0 then 1 else (places + 63) div 64);
          empty = replicate (length (mf_blocks ir)) (replicate words 0)
      in \<lparr>lv_entry = empty, lv_exit = empty, lv_value_base = value_bases 0 fields, lv_value_fields = fields,
          lv_place_count = places, lv_words_per_block = words, lv_block_count = length (mf_blocks ir),
          lv_value_count = length (mf_values ir), lv_ir = ir\<rparr>)"

definition mir_liveness_compute :: "type_registry \<Rightarrow> mir_function \<Rightarrow> liveness option" where
  "mir_liveness_compute reg ir = liveness_loop (liveness_init reg ir)"

section \<open>Questions\<close>

definition any_field_live :: "liveness \<Rightarrow> word_set \<Rightarrow> nat \<Rightarrow> bool" where
  "any_field_live lv s v \<longleftrightarrow>
     set_test s (place_index lv v MIR_WHOLE_VALUE) \<or>
     list_ex (\<lambda>i. set_test s (place_index lv v i)) [0..<lv_value_fields lv ! v]"

definition mir_live_on_entry :: "liveness \<Rightarrow> nat \<Rightarrow> nat \<Rightarrow> bool" where
  "mir_live_on_entry lv b v =
     (if mir_block_is_none b \<or> mir_value_is_none v \<or> v \<ge> lv_value_count lv then False
      else any_field_live lv (lv_entry lv ! b) v)"

definition mir_live_on_exit :: "liveness \<Rightarrow> nat \<Rightarrow> nat \<Rightarrow> bool" where
  "mir_live_on_exit lv b v =
     (if mir_block_is_none b \<or> mir_value_is_none v \<or> v \<ge> lv_value_count lv then False
      else any_field_live lv (lv_exit lv ! b) v)"

text \<open>The sets the walk passes to its visitor, in the order it does.\<close>

fun walk_sets :: "liveness \<Rightarrow> mir_inst list \<Rightarrow> word_set \<Rightarrow> word_set list" where
  "walk_sets lv [] s = []"
| "walk_sets lv (inst # insts) s = s # walk_sets lv insts (step_backwards lv inst s)"

definition mir_live_walk_block :: "liveness \<Rightarrow> nat \<Rightarrow> word_set list" where
  "mir_live_walk_block lv b =
     (case mir_block_at (lv_ir lv) b of None \<Rightarrow> [] | Some block \<Rightarrow> walk_sets lv (rev block) (lv_exit lv ! b))"

definition mir_live_set_holds :: "liveness \<Rightarrow> word_set \<Rightarrow> nat \<Rightarrow> bool" where
  "mir_live_set_holds lv s v =
     (if mir_value_is_none v \<or> v \<ge> lv_value_count lv then False else any_field_live lv s v)"

definition mir_live_after :: "liveness \<Rightarrow> nat \<Rightarrow> nat \<Rightarrow> nat \<Rightarrow> nat \<Rightarrow> bool" where
  "mir_live_after lv b index v f =
     (if mir_block_is_none b \<or> mir_value_is_none v \<or> v \<ge> lv_value_count lv then False
      else case mir_block_at (lv_ir lv) b of
        None \<Rightarrow> False
      | Some block \<Rightarrow>
          let working = block_backwards lv (drop (index + 1) block) (lv_exit lv ! b)
          in if mir_field_is_whole f then any_field_live lv working v
             else set_test working (place_index lv v f))"

end
