(* ===== verification/Fixpoint.thy ===== *)
theory Fixpoint
  imports Prelude
begin

text \<open>
  Loops that repeat a pass until it changes nothing.  Three analyses have this shape: liveness, what values
  hold, and the borrow checker.  The locale states what a pass promises - it keeps an invariant, and every
  turn that changes something takes away from a finite room - and what its loop is; the analyses interpret it.
\<close>

locale pass_loop =
  fixes pass :: "'s \<Rightarrow> ('s \<times> bool) option"
    and loop :: "'s \<Rightarrow> 's option"
    and inv :: "'s \<Rightarrow> bool"
    and keeps :: "'s \<Rightarrow> 's \<Rightarrow> bool"
    and room :: "'s \<Rightarrow> nat"
  assumes loop_turn: "loop s = Option.bind (pass s) (\<lambda>(s', changed). if changed then loop s' else Some s')"
    and keeps_refl: "keeps s s"
    and keeps_trans: "keeps s t \<Longrightarrow> keeps t u \<Longrightarrow> keeps s u"
    and pass_returns: "inv s \<Longrightarrow> \<exists>s' changed. pass s = Some (s', changed) \<and> inv s' \<and> keeps s s' \<and> (changed \<longrightarrow> room s' < room s)"
begin

lemma loop_last_pass: "inv s \<Longrightarrow> \<exists>t u. loop s = Some u \<and> inv t \<and> keeps s t \<and> pass t = Some (u, False) \<and> inv u \<and> keeps s u"
proof (induction "room s" arbitrary: s rule: less_induct)
  case less
  obtain s' changed where s': "pass s = Some (s', changed)" "inv s'" "keeps s s'" "changed \<Longrightarrow> room s' < room s"
    using pass_returns [OF less.prems] by blast
  show ?case
  proof (cases changed)
    case True
    from less.hyps [OF s'(4) [OF True] s'(2)] obtain t u where
      "loop s' = Some u" "inv t" "keeps s' t" "pass t = Some (u, False)" "inv u" "keeps s' u" by blast
    then show ?thesis using loop_turn [of s] s'(1) True keeps_trans [OF s'(3)] by auto
  next
    case False
    then have "loop s = Some s'" using loop_turn [of s] s'(1) by simp
    then show ?thesis using s'(1-3) False keeps_refl [of s] less.prems by auto
  qed
qed

lemma loop_returns: "inv s \<Longrightarrow> \<exists>u. loop s = Some u \<and> inv u \<and> keeps s u"
  using loop_last_pass by blast

end

text \<open>A pass that says it changed nothing answers what it was given.\<close>

locale settling_loop = pass_loop +
  assumes settles: "inv s \<Longrightarrow> pass s = Some (t, False) \<Longrightarrow> t = s"
begin

lemma loop_settles: "inv s \<Longrightarrow> \<exists>u. loop s = Some u \<and> inv u \<and> keeps s u \<and> pass u = Some (u, False)"
  using loop_last_pass settles by metis

end

end
