(* ===== verification/Liveness_Correct.thy ===== *)
theory Liveness_Correct
  imports Mir_Liveness Fixpoint
begin

text \<open>
  Correctness of the liveness analysis: rows of words denote sets of place indices (\<open>bits\<close>), an
  instruction removes what it writes and adds what it reads, the fixpoint loop ends, and what it
  computes is exactly liveness along the paths of the control-flow graph (\<open>live_in\<close>).
\<close>

unbundle bit_operations_syntax

section \<open>Rows as sets\<close>

definition bits :: "word_set \<Rightarrow> nat set" where
  "bits s = {i. i < 64 * length s \<and> bit (s ! (i div 64)) (i mod 64)}"

lemma set_test_bits: "i < 64 * length s \<Longrightarrow> set_test s i \<longleftrightarrow> i \<in> bits s"
  unfolding set_test_def word_of_def bit_of_def bits_def bit_iff_and_push_bit_not_eq_0 by blast

lemma length_set_ops [simp]:
  "length (set_add i s) = length s" "length (set_remove i s) = length s"
  by (simp_all add: set_add_def set_remove_def)

lemma div_mod_64_eq: "(j :: nat) div 64 = i div 64 \<Longrightarrow> j mod 64 = i mod 64 \<Longrightarrow> j = i"
  by (metis div_mult_mod_eq)

lemma bits_set_add: "i < 64 * length s \<Longrightarrow> bits (set_add i s) = insert i (bits s)"
  by (auto simp: bits_def set_add_def word_of_def bit_of_def nth_list_update bit_simps
      dest: div_mod_64_eq)

lemma bits_set_remove: "bits (set_remove i s) = bits s - {i}"
proof -
  have "bit (s[i div 64 := s ! (i div 64) AND NOT (push_bit (i mod 64) 1)] ! (j div 64)) (j mod 64) \<longleftrightarrow>
        bit (s ! (j div 64)) (j mod 64) \<and> j \<noteq> i" if "j < 64 * length s" for j
    using that by (cases "j div 64 = i div 64") (auto simp: bit_simps dest: div_mod_64_eq)
  then show ?thesis by (auto simp: bits_def set_remove_def word_of_def bit_of_def)
qed

lemma length_or_words [simp]: "length (or_words s t) = min (length s) (length t)"
  by (simp add: or_words_def)

lemma bits_or_words: "length s = length t \<Longrightarrow> bits (or_words s t) = bits s \<union> bits t"
  by (auto simp: bits_def or_words_def bit_simps)

lemma bits_replicate [simp]: "bits (replicate n 0) = {}"
  by (auto simp: bits_def)

lemma finite_bits [simp]: "finite (bits s)"
  by (rule finite_subset [of _ "{..<64 * length s}"]) (auto simp: bits_def)

lemma card_bits: "card (bits s) \<le> 64 * length s"
proof -
  have "bits s \<subseteq> {..<64 * length s}" by (auto simp: bits_def)
  from card_mono [OF _ this] show ?thesis by simp
qed

lemma bits_inject:
  assumes "length s = length t" "bits s = bits t"
  shows "s = t"
proof (rule nth_equalityI)
  fix k assume k: "k < length s"
  show "s ! k = t ! k"
  proof (rule bit_word_eqI)
    fix n :: nat assume "n < LENGTH(64)"
    then have n: "n < 64" by simp
    have "64 * k + n \<in> bits s \<longleftrightarrow> 64 * k + n \<in> bits t" using assms(2) by simp
    moreover have "64 * k + n < 64 * length s" using k n by linarith
    ultimately show "bit (s ! k) n = bit (t ! k) n" using assms(1) n by (simp add: bits_def)
  qed
qed (rule assms(1))

section \<open>What an instruction reads and writes\<close>

definition place_set :: "liveness \<Rightarrow> nat \<Rightarrow> nat \<Rightarrow> nat set" where
  "place_set lv v f =
     (if mir_value_is_none v \<or> v \<ge> lv_value_count lv then {}
      else if mir_field_is_whole f then
        insert (place_index lv v f) (place_index lv v ` {..<lv_value_fields lv ! v})
      else {place_index lv v f})"

definition index_set :: "liveness \<Rightarrow> projection list \<Rightarrow> nat set" where
  "index_set lv projs = (\<Union>proj \<in> {proj \<in> set projs. pr_kind proj = PROJ_INDEX}. place_set lv (pr_id proj) MIR_WHOLE_VALUE)"

definition inst_writes :: "liveness \<Rightarrow> mir_inst \<Rightarrow> nat set" where
  "inst_writes lv inst =
     (if mir_value_is_none (mi_result inst) then {} else place_set lv (mi_result inst) MIR_WHOLE_VALUE) \<union>
     (if mi_op inst = MIR_STORE then place_set lv (pl_base (mi_place inst)) (leading_field (mi_place inst)) else {}) \<union>
     (if mi_op inst = MIR_STORAGE_LIVE \<or> mi_op inst = MIR_STORAGE_DEAD
      then place_set lv (pl_base (mi_place inst)) MIR_WHOLE_VALUE else {})"

definition inst_reads :: "liveness \<Rightarrow> mir_inst \<Rightarrow> nat set" where
  "inst_reads lv inst =
     (let p = mi_place inst in
      (if mi_op inst = MIR_STORE then
         (if length (pl_projections p) > 1 then place_set lv (pl_base p) (leading_field p) else {}) \<union>
         index_set lv (pl_projections p)
       else if mi_op inst = MIR_LOAD \<or> mi_op inst = MIR_REF \<or> mi_op inst = MIR_DROP then
         place_set lv (pl_base p) (leading_field p) \<union> index_set lv (pl_projections p)
       else {}) \<union>
      (\<Union>arg \<in> set (mi_args inst). place_set lv (mir_operand_as_value arg) MIR_WHOLE_VALUE))"

text \<open>Every place of a value of the function has an index below the place count, and a row has room
  for them all.\<close>

definition indices_ok :: "liveness \<Rightarrow> bool" where
  "indices_ok lv \<longleftrightarrow> lv_place_count lv \<le> 64 * lv_words_per_block lv \<and>
     (\<forall>v < lv_value_count lv. \<forall>f. place_index lv v f < lv_place_count lv)"

abbreviation row_ok :: "liveness \<Rightarrow> word_set \<Rightarrow> bool" where
  "row_ok lv s \<equiv> length s = lv_words_per_block lv"

lemma index_in_row: "indices_ok lv \<Longrightarrow> v < lv_value_count lv \<Longrightarrow> row_ok lv s \<Longrightarrow> place_index lv v f < 64 * length s"
  by (metis indices_ok_def order_less_le_trans)

lemma fold_set_add:
  "\<forall>x \<in> set xs. g x < 64 * length s \<Longrightarrow>
     bits (fold (\<lambda>x. set_add (g x)) xs s) = bits s \<union> g ` set xs \<and> length (fold (\<lambda>x. set_add (g x)) xs s) = length s"
  by (induction xs arbitrary: s) (auto simp: bits_set_add)

lemma fold_set_remove:
  "bits (fold (\<lambda>x. set_remove (g x)) xs s) = bits s - g ` set xs \<and>
     length (fold (\<lambda>x. set_remove (g x)) xs s) = length s"
  by (induction xs arbitrary: s) (auto simp: bits_set_remove)

lemma read_place_bits:
  assumes "indices_ok lv" "row_ok lv s"
  shows "bits (read_place lv v f s) = bits s \<union> place_set lv v f \<and> row_ok lv (read_place lv v f s)"
proof (cases "mir_value_is_none v \<or> v \<ge> lv_value_count lv")
  case True
  then show ?thesis using assms(2) by (simp add: read_place_def place_set_def)
next
  case False
  then have idx: "place_index lv v g < 64 * length s" for g using index_in_row assms by auto
  have "bits (fold (\<lambda>i. set_add (place_index lv v i)) [0..<lv_value_fields lv ! v] (set_add (place_index lv v f) s)) =
      bits s \<union> insert (place_index lv v f) (place_index lv v ` {..<lv_value_fields lv ! v}) \<and>
      length (fold (\<lambda>i. set_add (place_index lv v i)) [0..<lv_value_fields lv ! v] (set_add (place_index lv v f) s)) = length s"
    using fold_set_add [of "[0..<lv_value_fields lv ! v]" "place_index lv v" "set_add (place_index lv v f) s"] idx
    by (auto simp: bits_set_add atLeast_upt lessThan_atLeast0)
  then show ?thesis using False assms(2) idx
    by (auto simp: read_place_def place_set_def Let_def bits_set_add)
qed

lemma write_place_bits:
  assumes "row_ok lv s"
  shows "bits (write_place lv v f s) = bits s - place_set lv v f \<and> row_ok lv (write_place lv v f s)"
proof (cases "mir_value_is_none v \<or> v \<ge> lv_value_count lv")
  case True
  then show ?thesis using assms by (simp add: write_place_def place_set_def)
next
  case False
  have "bits (fold (\<lambda>i. set_remove (place_index lv v i)) [0..<lv_value_fields lv ! v] (set_remove (place_index lv v f) s)) =
      bits s - insert (place_index lv v f) (place_index lv v ` {..<lv_value_fields lv ! v}) \<and>
      length (fold (\<lambda>i. set_remove (place_index lv v i)) [0..<lv_value_fields lv ! v] (set_remove (place_index lv v f) s)) = length s"
    using fold_set_remove [of "place_index lv v" "[0..<lv_value_fields lv ! v]" "set_remove (place_index lv v f) s"]
    by (auto simp: bits_set_remove lessThan_atLeast0)
  then show ?thesis using False assms
    by (auto simp: write_place_def place_set_def Let_def bits_set_remove)
qed

lemma read_indices_bits:
  assumes "indices_ok lv" "row_ok lv s"
  shows "bits (read_indices lv projs s) = bits s \<union> index_set lv projs \<and> row_ok lv (read_indices lv projs s)"
  using assms(2)
proof (induction projs arbitrary: s)
  case Nil
  then show ?case by (simp add: read_indices_def index_set_def)
next
  case (Cons proj projs)
  let ?s = "if pr_kind proj = PROJ_INDEX then read_place lv (pr_id proj) MIR_WHOLE_VALUE s else s"
  have s: "row_ok lv ?s" "bits ?s = bits s \<union> (if pr_kind proj = PROJ_INDEX then place_set lv (pr_id proj) MIR_WHOLE_VALUE else {})"
    using read_place_bits [OF assms(1) Cons.prems] Cons.prems by auto
  have "read_indices lv (proj # projs) s = read_indices lv projs ?s" by (simp add: read_indices_def)
  moreover have "index_set lv (proj # projs) =
      (if pr_kind proj = PROJ_INDEX then place_set lv (pr_id proj) MIR_WHOLE_VALUE else {}) \<union> index_set lv projs"
    by (auto simp: index_set_def)
  ultimately show ?case using Cons.IH [OF s(1)] s(2) by auto
qed

lemma read_args_bits:
  assumes "indices_ok lv" "row_ok lv s"
  shows "bits (fold (\<lambda>arg. read_place lv (mir_operand_as_value arg) MIR_WHOLE_VALUE) args s) =
           bits s \<union> (\<Union>arg \<in> set args. place_set lv (mir_operand_as_value arg) MIR_WHOLE_VALUE) \<and>
         row_ok lv (fold (\<lambda>arg. read_place lv (mir_operand_as_value arg) MIR_WHOLE_VALUE) args s)"
  using assms(2)
proof (induction args arbitrary: s)
  case (Cons a args)
  then show ?case using read_place_bits [OF assms(1) Cons.prems, of "mir_operand_as_value a" MIR_WHOLE_VALUE] by auto
qed simp

lemma step_backwards_bits:
  assumes "indices_ok lv" "row_ok lv s"
  shows "bits (step_backwards lv inst s) = (bits s - inst_writes lv inst) \<union> inst_reads lv inst \<and>
         row_ok lv (step_backwards lv inst s)"
proof -
  let ?p = "mi_place inst"
  define s1 where "s1 = (if \<not> mir_value_is_none (mi_result inst) then write_place lv (mi_result inst) MIR_WHOLE_VALUE s else s)"
  have 1: "row_ok lv s1"
    "bits s1 = bits s - (if mir_value_is_none (mi_result inst) then {} else place_set lv (mi_result inst) MIR_WHOLE_VALUE)"
    using write_place_bits [OF assms(2)] assms(2) by (auto simp: s1_def)
  define w where "w = write_place lv (pl_base ?p) (leading_field ?p) s1"
  have w: "row_ok lv w" "bits w = bits s1 - place_set lv (pl_base ?p) (leading_field ?p)"
    using write_place_bits [OF 1(1)] by (auto simp: w_def)
  define r where "r = (if length (pl_projections ?p) > 1 then read_place lv (pl_base ?p) (leading_field ?p) w else w)"
  have r: "row_ok lv r"
    "bits r = bits w \<union> (if length (pl_projections ?p) > 1 then place_set lv (pl_base ?p) (leading_field ?p) else {})"
    using read_place_bits [OF assms(1) w(1)] w(1) by (auto simp: r_def)
  define s2 where "s2 = (if mi_op inst = MIR_STORE then read_indices lv (pl_projections ?p) r
      else if mi_op inst = MIR_LOAD \<or> mi_op inst = MIR_REF \<or> mi_op inst = MIR_DROP then place_reads lv ?p s1 else s1)"
  have reads: "bits (place_reads lv ?p s1) = bits s1 \<union> place_set lv (pl_base ?p) (leading_field ?p) \<union> index_set lv (pl_projections ?p)"
      "row_ok lv (place_reads lv ?p s1)"
    using read_place_bits [OF assms(1) 1(1)] read_indices_bits [OF assms(1)] by (auto simp: place_reads_def)
  have 2: "row_ok lv s2" "bits s2 =
      (if mi_op inst = MIR_STORE then bits r \<union> index_set lv (pl_projections ?p)
       else if mi_op inst = MIR_LOAD \<or> mi_op inst = MIR_REF \<or> mi_op inst = MIR_DROP then
         bits s1 \<union> place_set lv (pl_base ?p) (leading_field ?p) \<union> index_set lv (pl_projections ?p)
       else bits s1)"
    using read_indices_bits [OF assms(1) r(1)] reads 1(1) by (auto simp: s2_def)
  define s3 where "s3 = (if mi_op inst = MIR_STORAGE_LIVE \<or> mi_op inst = MIR_STORAGE_DEAD
      then write_place lv (pl_base ?p) MIR_WHOLE_VALUE s2 else s2)"
  have 3: "row_ok lv s3" "bits s3 = bits s2 - (if mi_op inst = MIR_STORAGE_LIVE \<or> mi_op inst = MIR_STORAGE_DEAD
      then place_set lv (pl_base ?p) MIR_WHOLE_VALUE else {})"
    using write_place_bits [OF 2(1)] 2(1) by (auto simp: s3_def)
  have step: "step_backwards lv inst s =
      fold (\<lambda>arg. read_place lv (mir_operand_as_value arg) MIR_WHOLE_VALUE) (mi_args inst) s3"
    by (simp add: step_backwards_def Let_def s3_def s2_def r_def w_def s1_def)
  show ?thesis
    using read_args_bits [OF assms(1) 3(1), of "mi_args inst"]
    unfolding step inst_reads_def inst_writes_def Let_def 3(2) 2(2) r(2) w(2) 1(2)
    by auto
qed

section \<open>Blocks and paths\<close>

text \<open>A place is exposed in a block when some instruction reads it before any writes it, and passes
  when none writes it.\<close>

fun exposed :: "liveness \<Rightarrow> mir_block \<Rightarrow> nat \<Rightarrow> bool" where
  "exposed lv [] p = False"
| "exposed lv (i # is) p \<longleftrightarrow> p \<in> inst_reads lv i \<or> p \<notin> inst_writes lv i \<and> exposed lv is p"

fun passes :: "liveness \<Rightarrow> mir_block \<Rightarrow> nat \<Rightarrow> bool" where
  "passes lv [] p = True"
| "passes lv (i # is) p \<longleftrightarrow> p \<notin> inst_writes lv i \<and> passes lv is p"

lemma block_backwards_bits:
  assumes "indices_ok lv" "row_ok lv s"
  shows "bits (block_backwards lv block s) = {p. exposed lv block p \<or> passes lv block p \<and> p \<in> bits s} \<and>
         row_ok lv (block_backwards lv block s)"
proof (induction block)
  case Nil
  then show ?case using assms by (simp add: block_backwards_def)
next
  case (Cons i block)
  then show ?case using step_backwards_bits [OF assms(1), of "block_backwards lv block s" i]
    by (auto simp: block_backwards_def)
qed

text \<open>A place is live on entry to a block when a path starts there that reads it before writing it.\<close>

inductive live_in :: "liveness \<Rightarrow> nat \<Rightarrow> nat \<Rightarrow> bool" for lv where
  live_use: "exposed lv (mf_blocks (lv_ir lv) ! b) p \<Longrightarrow> live_in lv b p"
| live_flow: "passes lv (mf_blocks (lv_ir lv) ! b) p \<Longrightarrow> flows (lv_ir lv) b s \<Longrightarrow> live_in lv s p \<Longrightarrow> live_in lv b p"

definition live_out :: "liveness \<Rightarrow> nat \<Rightarrow> nat \<Rightarrow> bool" where
  "live_out lv b p \<longleftrightarrow> (\<exists>s. flows (lv_ir lv) b s \<and> live_in lv s p)"

section \<open>The loop\<close>

definition same_frame :: "liveness \<Rightarrow> liveness \<Rightarrow> bool" where
  "same_frame lv lv' \<longleftrightarrow> lv' = lv\<lparr>lv_entry := lv_entry lv', lv_exit := lv_exit lv'\<rparr>"

lemma same_frame_refl [simp]: "same_frame lv lv"
  by (simp add: same_frame_def)

lemma same_frame_trans: "same_frame a b \<Longrightarrow> same_frame b c \<Longrightarrow> same_frame a c"
  by (cases a; cases b; cases c) (auto simp: same_frame_def)

lemma same_frame_fields:
  assumes "same_frame lv lv'"
  shows "lv_value_base lv' = lv_value_base lv" "lv_value_fields lv' = lv_value_fields lv"
    "lv_place_count lv' = lv_place_count lv" "lv_words_per_block lv' = lv_words_per_block lv"
    "lv_block_count lv' = lv_block_count lv" "lv_value_count lv' = lv_value_count lv" "lv_ir lv' = lv_ir lv"
  using assms by (cases lv; cases lv'; simp add: same_frame_def)+

lemma same_frame_place_index: "same_frame lv lv' \<Longrightarrow> place_index lv' = place_index lv"
  by (intro ext) (simp add: place_index_def same_frame_fields)

lemma same_frame_place_set: "same_frame lv lv' \<Longrightarrow> place_set lv' = place_set lv"
  by (intro ext) (simp add: place_set_def same_frame_fields same_frame_place_index)

lemma same_frame_inst:
  assumes "same_frame lv lv'"
  shows "inst_reads lv' = inst_reads lv" "inst_writes lv' = inst_writes lv"
proof -
  have index: "index_set lv' = index_set lv"
    by (rule ext) (simp only: index_set_def same_frame_place_set [OF assms])
  show "inst_reads lv' = inst_reads lv"
    by (rule ext) (simp only: inst_reads_def index same_frame_place_set [OF assms])
  show "inst_writes lv' = inst_writes lv"
    by (rule ext) (simp only: inst_writes_def same_frame_place_set [OF assms])
qed

lemma same_frame_block:
  assumes "same_frame lv lv'"
  shows "exposed lv' block p = exposed lv block p" "passes lv' block p = passes lv block p"
  by (induction block) (simp_all add: same_frame_inst [OF assms])

lemma same_frame_live_in:
  assumes "same_frame lv lv'" "live_in lv b p"
  shows "live_in lv' b p"
  using assms(2)
  by (induction rule: live_in.induct)
    (auto intro: live_in.intros simp: same_frame_block [OF assms(1)] same_frame_fields [OF assms(1)])

lemma same_frame_sym: "same_frame lv lv' \<Longrightarrow> same_frame lv' lv"
  by (cases lv; cases lv') (auto simp: same_frame_def)

lemma same_frame_live: "same_frame lv lv' \<Longrightarrow> live_in lv' b p = live_in lv b p"
  using same_frame_live_in same_frame_sym by blast

text \<open>The loop's invariant: the arrays have their shape and hold only live places.\<close>

definition liveness_inv :: "liveness \<Rightarrow> bool" where
  "liveness_inv lv \<longleftrightarrow> indices_ok lv \<and> mir_wf (lv_ir lv) \<and> lv_block_count lv = length (mf_blocks (lv_ir lv)) \<and>
     length (lv_entry lv) = lv_block_count lv \<and> length (lv_exit lv) = lv_block_count lv \<and>
     (\<forall>b < lv_block_count lv. row_ok lv (lv_entry lv ! b) \<and> row_ok lv (lv_exit lv ! b) \<and>
        bits (lv_entry lv ! b) \<subseteq> {p. live_in lv b p} \<and> bits (lv_exit lv ! b) \<subseteq> {p. live_out lv b p})"

definition total_bits :: "liveness \<Rightarrow> nat" where
  "total_bits lv = (\<Sum>b < lv_block_count lv. card (bits (lv_entry lv ! b)) + card (bits (lv_exit lv ! b)))"

definition grows :: "liveness \<Rightarrow> liveness \<Rightarrow> bool" where
  "grows lv lv' \<longleftrightarrow> same_frame lv lv' \<and>
     (\<forall>b < lv_block_count lv. bits (lv_entry lv ! b) \<subseteq> bits (lv_entry lv' ! b) \<and>
                              bits (lv_exit lv ! b) \<subseteq> bits (lv_exit lv' ! b))"

lemma grows_total: "grows lv lv' \<Longrightarrow> total_bits lv \<le> total_bits lv'"
proof -
  assume g: "grows lv lv'"
  then have "lv_block_count lv' = lv_block_count lv" by (simp add: grows_def same_frame_fields)
  then show ?thesis using g unfolding total_bits_def grows_def
    by (auto intro!: sum_mono add_mono card_mono)
qed

lemma total_bits_bound:
  assumes "liveness_inv lv"
  shows "total_bits lv \<le> lv_block_count lv * (128 * lv_words_per_block lv)"
proof -
  have "card (bits (lv_entry lv ! b)) + card (bits (lv_exit lv ! b)) \<le> 128 * lv_words_per_block lv"
    if "b < lv_block_count lv" for b
    using card_bits [of "lv_entry lv ! b"] card_bits [of "lv_exit lv ! b"] assms that
    by (auto simp: liveness_inv_def)
  then have "total_bits lv \<le> (\<Sum>b < lv_block_count lv. 128 * lv_words_per_block lv)"
    unfolding total_bits_def by (intro sum_mono) simp
  then show ?thesis by simp
qed

lemma or_successors_bits:
  assumes "\<forall>s \<in> set ss. row_ok lv (lv_entry lv ! s)" "row_ok lv e"
  shows "bits (fold (\<lambda>s e. or_words e (lv_entry lv ! s)) ss e) = bits e \<union> (\<Union>s \<in> set ss. bits (lv_entry lv ! s)) \<and>
         row_ok lv (fold (\<lambda>s e. or_words e (lv_entry lv ! s)) ss e)"
  using assms
proof (induction ss arbitrary: e)
  case (Cons s ss)
  then have "bits (or_words e (lv_entry lv ! s)) = bits e \<union> bits (lv_entry lv ! s)" "row_ok lv (or_words e (lv_entry lv ! s))"
    by (simp_all add: bits_or_words)
  then show ?case using Cons by auto
qed simp

text \<open>One block's turn: its exit row becomes what its successors need, its entry row what the block
  needs of that.\<close>

lemma liveness_block_ok:
  assumes inv: "liveness_inv lv" and b: "b < lv_block_count lv" and turn: "liveness_block b (lv, c) = (lv', c')"
  shows "liveness_inv lv'" "grows lv lv'" "c \<Longrightarrow> c'"
    "c' \<Longrightarrow> c \<or> total_bits lv < total_bits lv'" "\<not> c' \<Longrightarrow> lv' = lv"
    "(\<Union>s \<in> {s. flows (lv_ir lv) b s}. bits (lv_entry lv ! s)) \<subseteq> bits (lv_exit lv' ! b)"
    "{p. exposed lv (mf_blocks (lv_ir lv) ! b) p \<or> passes lv (mf_blocks (lv_ir lv) ! b) p \<and> p \<in> bits (lv_exit lv' ! b)}
       \<subseteq> bits (lv_entry lv' ! b)"
proof -
  let ?block = "mf_blocks (lv_ir lv) ! b"
  let ?ss = "mir_block_successors ?block"
  define exit where "exit = fold (\<lambda>s e. or_words e (lv_entry lv ! s)) ?ss (lv_exit lv ! b)"
  define entry where "entry = or_words (lv_entry lv ! b) (block_backwards lv ?block exit)"
  have shape: "indices_ok lv" "mir_wf (lv_ir lv)" "lv_block_count lv = length (mf_blocks (lv_ir lv))"
      "length (lv_entry lv) = lv_block_count lv" "length (lv_exit lv) = lv_block_count lv"
      "\<And>k. k < lv_block_count lv \<Longrightarrow> row_ok lv (lv_entry lv ! k) \<and> row_ok lv (lv_exit lv ! k)"
      "\<And>k. k < lv_block_count lv \<Longrightarrow> bits (lv_entry lv ! k) \<subseteq> {p. live_in lv k p}"
      "\<And>k. k < lv_block_count lv \<Longrightarrow> bits (lv_exit lv ! k) \<subseteq> {p. live_out lv k p}"
    using inv by (auto simp: liveness_inv_def)
  have ss: "{s. flows (lv_ir lv) b s} = set ?ss" using b shape(3) by (auto simp: flows_def)
  have ss_lt: "\<forall>s \<in> set ?ss. s < lv_block_count lv"
    using ss mir_wf_flows [OF shape(2)] shape(3) by auto
  have exit: "bits exit = bits (lv_exit lv ! b) \<union> (\<Union>s \<in> set ?ss. bits (lv_entry lv ! s))" "row_ok lv exit"
    using or_successors_bits [of ?ss lv "lv_exit lv ! b"] shape(6) ss_lt b by (auto simp: exit_def)
  have work: "bits (block_backwards lv ?block exit) = {p. exposed lv ?block p \<or> passes lv ?block p \<and> p \<in> bits exit}"
      "row_ok lv (block_backwards lv ?block exit)"
    using block_backwards_bits [OF shape(1) exit(2)] by blast+
  have entry: "bits entry = bits (lv_entry lv ! b) \<union> {p. exposed lv ?block p \<or> passes lv ?block p \<and> p \<in> bits exit}"
      "row_ok lv entry"
    using work shape(6) [OF b] by (simp_all add: entry_def bits_or_words)
  have res: "lv' = lv\<lparr>lv_exit := (lv_exit lv)[b := exit], lv_entry := (lv_entry lv)[b := entry]\<rparr>"
      "c' \<longleftrightarrow> c \<or> exit \<noteq> lv_exit lv ! b \<or> entry \<noteq> lv_entry lv ! b"
    using turn by (auto simp: liveness_block_def Let_def exit_def entry_def)
  have frame: "same_frame lv lv'" by (simp add: res(1) same_frame_def)
  have out: "bits exit \<subseteq> {p. live_out lv b p}"
    using exit(1) shape(7,8) b ss_lt ss by (auto simp: live_out_def) blast+
  have inn: "bits entry \<subseteq> {p. live_in lv b p}"
    using entry(1) shape(7) [OF b] out by (auto simp: live_out_def intro: live_in.intros)
  have rows: "lv_entry lv' = (lv_entry lv)[b := entry]" "lv_exit lv' = (lv_exit lv)[b := exit]" by (simp_all add: res(1))
  have "bits (lv_entry lv ! k) \<subseteq> bits (lv_entry lv' ! k) \<and> bits (lv_exit lv ! k) \<subseteq> bits (lv_exit lv' ! k)"
    if "k < lv_block_count lv" for k
    using that exit(1) entry(1) shape(4,5) by (cases "k = b") (auto simp: rows)
  then show "grows lv lv'" using frame by (simp add: grows_def)
  have live: "live_in lv' = live_in lv" "live_out lv' = live_out lv"
    using same_frame_live [OF frame] same_frame_fields [OF frame] by (auto simp: live_out_def fun_eq_iff)
  have "indices_ok lv'"
    using shape(1) same_frame_fields [OF frame] same_frame_place_index [OF frame] by (simp add: indices_ok_def)
  then show "liveness_inv lv'"
    using shape exit(2) entry(2) out inn same_frame_fields [OF frame] b
    by (auto simp: liveness_inv_def live rows nth_list_update)
  show "c \<Longrightarrow> c'" using res(2) by simp
  show "\<not> c' \<Longrightarrow> lv' = lv" using res by simp
  show "(\<Union>s \<in> {s. flows (lv_ir lv) b s}. bits (lv_entry lv ! s)) \<subseteq> bits (lv_exit lv' ! b)"
    using exit(1) ss b shape(5) by (auto simp: rows)
  show "{p. exposed lv ?block p \<or> passes lv ?block p \<and> p \<in> bits (lv_exit lv' ! b)} \<subseteq> bits (lv_entry lv' ! b)"
    using entry(1) b shape(4,5) by (auto simp: rows)
  assume c': c'
  show "c \<or> total_bits lv < total_bits lv'"
  proof (cases c)
    case False
    then have "exit \<noteq> lv_exit lv ! b \<or> entry \<noteq> lv_entry lv ! b" using c' res(2) by simp
    then have "bits exit \<noteq> bits (lv_exit lv ! b) \<or> bits entry \<noteq> bits (lv_entry lv ! b)"
      using bits_inject exit(2) entry(2) shape(6) [OF b] by metis
    then have "bits (lv_exit lv ! b) \<subset> bits exit \<or> bits (lv_entry lv ! b) \<subset> bits entry"
      using exit(1) entry(1) by blast
    moreover have "bits (lv_exit lv ! b) \<subseteq> bits exit" "bits (lv_entry lv ! b) \<subseteq> bits entry"
      using exit(1) entry(1) by blast+
    then have "card (bits (lv_exit lv ! b)) \<le> card (bits exit)" "card (bits (lv_entry lv ! b)) \<le> card (bits entry)"
      by (simp_all add: card_mono)
    ultimately have lt: "card (bits (lv_entry lv ! b)) + card (bits (lv_exit lv ! b)) < card (bits entry) + card (bits exit)"
      using psubset_card_mono [OF finite_bits, of "bits (lv_exit lv ! b)" exit]
        psubset_card_mono [OF finite_bits, of "bits (lv_entry lv ! b)" entry] by linarith
    have "total_bits lv < total_bits lv'"
      unfolding total_bits_def same_frame_fields(5) [OF frame]
      by (rule sum_strict_mono_ex1)
        (use lt b shape(4,5) in \<open>auto simp: rows nth_list_update intro!: bexI [of _ b]\<close>)
    then show ?thesis by simp
  qed simp
qed

lemma liveness_fold_ok:
  assumes "liveness_inv lv" "\<forall>b \<in> set bs. b < lv_block_count lv" "fold liveness_block bs (lv, c) = (lv', c')"
  shows "liveness_inv lv' \<and> grows lv lv' \<and> (c \<longrightarrow> c') \<and> (c' \<longrightarrow> c \<or> total_bits lv < total_bits lv') \<and>
    (\<not> c' \<longrightarrow> lv' = lv \<and> (\<forall>b \<in> set bs. liveness_block b (lv, False) = (lv, False)))"
  using assms
proof (induction bs arbitrary: lv c)
  case Nil
  then show ?case by (auto simp: grows_def)
next
  case (Cons b bs)
  obtain lv1 c1 where 1: "liveness_block b (lv, c) = (lv1, c1)" by force
  note turn = liveness_block_ok [OF Cons.prems(1) _ 1]
  have b: "b < lv_block_count lv" using Cons.prems(2) by simp
  have count: "lv_block_count lv1 = lv_block_count lv" using turn(2) [OF b] by (simp add: grows_def same_frame_fields)
  have "\<forall>b \<in> set bs. b < lv_block_count lv1" using Cons.prems(2) count by simp
  from Cons.IH [OF turn(1) [OF b] this] Cons.prems(3) 1
  have IH: "liveness_inv lv'" "grows lv1 lv'" "c1 \<longrightarrow> c'" "c' \<longrightarrow> c1 \<or> total_bits lv1 < total_bits lv'"
      "\<not> c' \<longrightarrow> lv' = lv1 \<and> (\<forall>b \<in> set bs. liveness_block b (lv1, False) = (lv1, False))" by auto
  have "grows lv lv'" using turn(2) [OF b] IH(2) count same_frame_trans by (fastforce simp: grows_def)
  moreover have "c' \<longrightarrow> c \<or> total_bits lv < total_bits lv'"
    using IH(4) turn(4) [OF b] grows_total [OF turn(2) [OF b]] grows_total [OF IH(2)] by linarith
  moreover have "lv' = lv \<and> (\<forall>b \<in> set (b # bs). liveness_block b (lv, False) = (lv, False))" if "\<not> c'"
  proof -
    have "\<not> c1" "\<not> c" using that IH(3) turn(3) [OF b] by blast+
    then show ?thesis using that IH(5) turn(5) [OF b] 1 by auto
  qed
  ultimately show ?case using IH(1,3) turn(3) [OF b] by blast
qed

lemma liveness_pass_ok:
  assumes "liveness_inv lv" "liveness_pass lv = (lv', changed)"
  shows "liveness_inv lv'" "grows lv lv'" "changed \<Longrightarrow> total_bits lv < total_bits lv'"
    "\<not> changed \<Longrightarrow> lv' = lv \<and> (\<forall>b < lv_block_count lv. liveness_block b (lv, False) = (lv, False))"
  using liveness_fold_ok [OF assms(1) _ assms(2) [unfolded liveness_pass_def]] by auto

text \<open>The loop ends: every turn that changes something adds a bit, and there are finitely many.\<close>

definition bits_left :: "liveness \<Rightarrow> nat" where
  "bits_left lv = lv_block_count lv * (128 * lv_words_per_block lv) - total_bits lv"

lemma bits_left_decreases:
  assumes "liveness_inv lv" "liveness_pass lv = (lv', True)"
  shows "bits_left lv' < bits_left lv"
proof -
  note pass = liveness_pass_ok [OF assms]
  have frame: "same_frame lv lv'" using pass(2) by (simp add: grows_def)
  have "total_bits lv' \<le> lv_block_count lv * (128 * lv_words_per_block lv)"
    using total_bits_bound [OF pass(1)] same_frame_fields [OF frame] by simp
  then show ?thesis using pass(3) same_frame_fields [OF frame] by (simp add: bits_left_def)
qed

interpretation liveness: settling_loop "\<lambda>lv. Some (liveness_pass lv)" liveness_loop liveness_inv same_frame bits_left
proof (unfold_locales, goal_cases)
  case (1 lv)
  show ?case by (subst liveness_loop.simps) (simp split: prod.split)
next
  case (3 a b c)
  then show ?case by (rule same_frame_trans)
next
  case (4 lv)
  obtain lv' c where "liveness_pass lv = (lv', c)" by force
  then show ?case using liveness_pass_ok(1,2) [OF 4] bits_left_decreases [OF 4] by (auto simp: grows_def)
next
  case (5 lv lv')
  then show ?case using liveness_pass_ok(4) by blast
qed (simp add: same_frame_def)

lemma liveness_loop_ends:
  assumes "liveness_inv lv"
  shows "\<exists>lv'. liveness_loop lv = Some lv' \<and> liveness_inv lv' \<and> same_frame lv lv' \<and> liveness_pass lv' = (lv', False)"
  using liveness.loop_settles [OF assms] by simp

lemma liveness_fixpoint_complete:
  assumes inv: "liveness_inv lv" and fixed: "liveness_pass lv = (lv, False)"
    and "live_in lv b p" "b < lv_block_count lv"
  shows "p \<in> bits (lv_entry lv ! b)"
  using assms(3,4)
proof (induction rule: live_in.induct)
  case (live_use b p)
  have "liveness_block b (lv, False) = (lv, False)" using liveness_pass_ok(4) [OF inv fixed] live_use by simp
  from liveness_block_ok(7) [OF inv live_use(2) this] show ?case using live_use(1) by blast
next
  case (live_flow b p s)
  have turn: "liveness_block b (lv, False) = (lv, False)" using liveness_pass_ok(4) [OF inv fixed] live_flow by simp
  have "s < lv_block_count lv" using mir_wf_flows live_flow(2) inv by (auto simp: liveness_inv_def)
  then have "p \<in> bits (lv_exit lv ! b)"
    using liveness_block_ok(6) [OF inv live_flow(5) turn] live_flow by blast
  then show ?case using liveness_block_ok(7) [OF inv live_flow(5) turn] live_flow(1) by blast
qed

lemma liveness_fixpoint_exact:
  assumes inv: "liveness_inv lv" and fixed: "liveness_pass lv = (lv, False)" and b: "b < lv_block_count lv"
  shows "bits (lv_entry lv ! b) = {p. live_in lv b p}" "bits (lv_exit lv ! b) = {p. live_out lv b p}"
proof -
  show 1: "bits (lv_entry lv ! b) = {p. live_in lv b p}"
    using liveness_fixpoint_complete [OF inv fixed _ b] inv b by (auto simp: liveness_inv_def)
  have turn: "liveness_block b (lv, False) = (lv, False)" using liveness_pass_ok(4) [OF inv fixed] b by simp
  have "p \<in> bits (lv_exit lv ! b)" if "live_out lv b p" for p
  proof -
    from that obtain s where s: "flows (lv_ir lv) b s" "live_in lv s p" by (auto simp: live_out_def)
    then have "s < lv_block_count lv" using mir_wf_flows inv by (auto simp: liveness_inv_def)
    then have "p \<in> bits (lv_entry lv ! s)" using liveness_fixpoint_complete [OF inv fixed s(2)] by blast
    then show ?thesis using liveness_block_ok(6) [OF inv b turn] s(1) by blast
  qed
  then show "bits (lv_exit lv ! b) = {p. live_out lv b p}" using inv b by (auto simp: liveness_inv_def)
qed

section \<open>The first state\<close>

lemma value_bases_nth: "i < length ns \<Longrightarrow> value_bases p ns ! i = p + sum_list (map Suc (take i ns))"
proof (induction ns arbitrary: p i)
  case (Cons n ns)
  then show ?case by (cases i) auto
qed simp

lemma sum_list_take_le: "i < length ns \<Longrightarrow> sum_list (map Suc (take i ns)) + Suc (ns ! i) \<le> sum_list (map Suc ns)"
proof (induction ns arbitrary: i)
  case (Cons n ns)
  then show ?case by (cases i) auto
qed simp

lemma liveness_init_inv: "mir_wf ir \<Longrightarrow> liveness_inv (liveness_init reg ir)"
proof -
  assume wf: "mir_wf ir"
  let ?lv = "liveness_init reg ir"
  let ?fields = "map (value_field_count reg) (mf_values ir)"
  have idx: "place_index ?lv v f < lv_place_count ?lv" if "v < lv_value_count ?lv" for v f
  proof -
    have v: "v < length ?fields" using that by (simp add: liveness_init_def Let_def)
    have "place_index ?lv v f \<le> sum_list (map Suc (take v ?fields)) + ?fields ! v"
      using v value_bases_nth [OF v, of 0] by (simp add: place_index_def liveness_init_def Let_def)
    then show ?thesis using sum_list_take_le [OF v] by (simp add: liveness_init_def Let_def)
  qed
  have "lv_place_count ?lv \<le> 64 * lv_words_per_block ?lv"
    by (simp add: liveness_init_def Let_def) linarith
  then show ?thesis using wf idx
    by (auto simp: liveness_inv_def indices_ok_def liveness_init_def Let_def)
qed

lemma liveness_computed:
  assumes "mir_wf ir"
  shows "\<exists>lv. mir_liveness_compute reg ir = Some lv \<and> same_frame (liveness_init reg ir) lv \<and> liveness_inv lv \<and>
    liveness_pass lv = (lv, False)"
  using liveness_loop_ends [OF liveness_init_inv [OF assms, of reg]] by (auto simp: mir_liveness_compute_def)

lemma any_field_live_bits:
  assumes "indices_ok lv" "row_ok lv s" "v < lv_value_count lv" "\<not> mir_value_is_none v"
  shows "any_field_live lv s v \<longleftrightarrow> place_set lv v MIR_WHOLE_VALUE \<inter> bits s \<noteq> {}"
proof -
  have "set_test s (place_index lv v f) \<longleftrightarrow> place_index lv v f \<in> bits s" for f
    using index_in_row [OF assms(1,3,2)] by (rule set_test_bits)
  then show ?thesis using assms(3,4)
    by (auto simp: any_field_live_def place_set_def mir_field_is_whole_def MIR_WHOLE_VALUE_def list_ex_iff) blast
qed

lemma place_set_nonempty:
  assumes "indices_ok lv" "row_ok lv s" "v < lv_value_count lv" "\<not> mir_value_is_none v" "\<not> mir_field_is_whole f"
  shows "set_test s (place_index lv v f) \<longleftrightarrow> place_set lv v f \<inter> bits s \<noteq> {}"
  using index_in_row [OF assms(1,3,2), of f] assms(3-5) by (auto simp: set_test_bits place_set_def)

section \<open>Properties\<close>

text \<open>C30: on a function whose successors are blocks, the liveness loop ends, and its answers are
  exactly path liveness: a value is reported live on entry to a block when some path from the start
  of that block reads the value or one of its fields before writing it, and live on exit when such
  a path starts at a successor.\<close>

theorem liveness_is_path_liveness:
  assumes "mir_wf ir"
  shows "\<exists>lv. mir_liveness_compute reg ir = Some lv \<and>
    (\<forall>b < length (mf_blocks ir). \<forall>v < length (mf_values ir).
       (mir_live_on_entry lv b v \<longleftrightarrow>
          (\<exists>p \<in> place_set (liveness_init reg ir) v MIR_WHOLE_VALUE. live_in (liveness_init reg ir) b p)) \<and>
       (mir_live_on_exit lv b v \<longleftrightarrow>
          (\<exists>p \<in> place_set (liveness_init reg ir) v MIR_WHOLE_VALUE. live_out (liveness_init reg ir) b p)))"
proof -
  let ?init = "liveness_init reg ir"
  obtain lv where lv: "mir_liveness_compute reg ir = Some lv" "same_frame ?init lv" "liveness_inv lv"
      "liveness_pass lv = (lv, False)"
    using liveness_computed [OF assms] by blast
  have counts: "lv_block_count lv = length (mf_blocks ir)" "lv_value_count lv = length (mf_values ir)" "lv_ir lv = ir"
    using same_frame_fields [OF lv(2)] by (simp_all add: liveness_init_def Let_def)
  have live: "live_in lv = live_in ?init" "live_out lv = live_out ?init"
    using same_frame_live [OF lv(2)] same_frame_fields(7) [OF lv(2)] by (auto simp: live_out_def fun_eq_iff)
  have "(mir_live_on_entry lv b v \<longleftrightarrow> (\<exists>p \<in> place_set ?init v MIR_WHOLE_VALUE. live_in ?init b p)) \<and>
        (mir_live_on_exit lv b v \<longleftrightarrow> (\<exists>p \<in> place_set ?init v MIR_WHOLE_VALUE. live_out ?init b p))"
    if b: "b < length (mf_blocks ir)" and v: "v < length (mf_values ir)" for b v
  proof -
    have ok: "indices_ok lv" "row_ok lv (lv_entry lv ! b)" "row_ok lv (lv_exit lv ! b)"
      using lv(3) b counts by (auto simp: liveness_inv_def)
    have some: "\<not> mir_value_is_none v" "\<not> mir_block_is_none b"
      using assms b v by (auto simp: mir_wf_def mir_value_is_none_def mir_block_is_none_def)
    have v': "v < lv_value_count lv" using v counts by simp
    have b': "b < lv_block_count lv" using b counts by simp
    show ?thesis
      using any_field_live_bits [OF ok(1,2) v' some(1)] any_field_live_bits [OF ok(1,3) v' some(1)]
        liveness_fixpoint_exact [OF lv(3,4) b'] same_frame_place_set [OF lv(2)] v' some
      by (auto simp: mir_live_on_entry_def mir_live_on_exit_def live)
  qed
  with lv(1) show ?thesis by blast
qed

text \<open>A value passed to a second block, which returns it.\<close>

definition two_blocks :: mir_function where
  "two_blocks =
     \<lparr>mf_function = None,
      mf_blocks = [[(inst_of MIR_JMP None MIR_NO_VALUE sample_span)\<lparr>mi_targets := (1, 0)\<rparr>],
                   [(inst_of MIR_RETURN None MIR_NO_VALUE sample_span)\<lparr>mi_args := [OPERAND_VALUE 0]\<rparr>]],
      mf_entry = 0,
      mf_values = [\<lparr>vi_type = None, vi_binding = None, vi_span = sample_span\<rparr>],
      mf_params = [0]\<rparr>"

lemma two_blocks_wf: "mir_wf two_blocks"
  by (simp add: mir_wf_def two_blocks_def mir_block_successors_def mir_block_is_terminated_def inst_of_def)

lemma two_blocks_live:
  "0 \<in> place_set (liveness_init reg two_blocks) 0 MIR_WHOLE_VALUE \<and> live_in (liveness_init reg two_blocks) 0 0 \<and>
   live_out (liveness_init reg two_blocks) 0 0"
proof -
  let ?lv = "liveness_init reg two_blocks"
  have set: "place_set ?lv 0 MIR_WHOLE_VALUE = {0}" "lv_ir ?lv = two_blocks"
    by (simp_all add: place_set_def liveness_init_def two_blocks_def Let_def mir_value_is_none_def
        mir_field_is_whole_def MIR_WHOLE_VALUE_def place_index_def value_field_count_def)
  have "exposed ?lv (mf_blocks two_blocks ! 1) 0"
    using set by (simp add: two_blocks_def inst_reads_def inst_of_def)
  then have 1: "live_in ?lv 1 0" using set by (intro live_use) simp
  have "passes ?lv (mf_blocks two_blocks ! 0) 0"
    by (simp add: two_blocks_def inst_writes_def inst_of_def MIR_NO_VALUE_def mir_value_is_none_def)
  moreover have "flows two_blocks 0 1"
    by (simp add: flows_def two_blocks_def mir_block_successors_def mir_block_is_terminated_def inst_of_def)
  ultimately have "live_in ?lv 0 0" "live_out ?lv 0 0"
    using live_flow [OF _ _ 1, of 0] 1 unfolding live_out_def set(2) by blast+
  then show ?thesis using set(1) by simp
qed

theorem liveness_is_path_liveness_witness:
  "\<exists>lv. mir_liveness_compute (type_registry_create known_names) two_blocks = Some lv \<and> mir_live_on_entry lv 0 0"
proof -
  have "0 < length (mf_blocks two_blocks)" "0 < length (mf_values two_blocks)" by (simp_all add: two_blocks_def)
  then show ?thesis
    using liveness_is_path_liveness [OF two_blocks_wf, of "type_registry_create known_names"] two_blocks_live by blast
qed

text \<open>Liveness after an instruction is path liveness too: a value, or one of its fields, is live
  there when the rest of the block reads it before writing it, or does not write it and a path from
  a successor does.\<close>

theorem live_after_is_path_liveness:
  assumes "mir_wf ir" "mir_liveness_compute reg ir = Some lv" "b < length (mf_blocks ir)" "v < length (mf_values ir)"
  shows "mir_live_after lv b index v f \<longleftrightarrow>
    (\<exists>p \<in> place_set (liveness_init reg ir) v f.
       exposed (liveness_init reg ir) (drop (index + 1) (mf_blocks ir ! b)) p \<or>
       passes (liveness_init reg ir) (drop (index + 1) (mf_blocks ir ! b)) p \<and> live_out (liveness_init reg ir) b p)"
proof -
  let ?init = "liveness_init reg ir"
  have lv: "same_frame ?init lv" "liveness_inv lv" "liveness_pass lv = (lv, False)"
    using liveness_computed [OF assms(1), of reg] assms(2) by auto
  have counts: "lv_block_count lv = length (mf_blocks ir)" "lv_value_count lv = length (mf_values ir)" "lv_ir lv = ir"
    using same_frame_fields [OF lv(1)] by (simp_all add: liveness_init_def Let_def)
  let ?rest = "drop (index + 1) (mf_blocks ir ! b)"
  let ?row = "block_backwards lv ?rest (lv_exit lv ! b)"
  have ok: "indices_ok lv" "row_ok lv (lv_exit lv ! b)" using lv(2) assms(3) counts by (auto simp: liveness_inv_def)
  have row: "bits ?row = {p. exposed lv ?rest p \<or> passes lv ?rest p \<and> p \<in> bits (lv_exit lv ! b)}" "row_ok lv ?row"
    using block_backwards_bits [OF ok] by blast+
  have some: "\<not> mir_value_is_none v" "\<not> mir_block_is_none b"
    using assms by (auto simp: mir_wf_def mir_value_is_none_def mir_block_is_none_def)
  have v: "v < lv_value_count lv" using assms(4) counts by simp
  have whole: "mir_field_is_whole f \<Longrightarrow> f = MIR_WHOLE_VALUE" by (simp add: mir_field_is_whole_def MIR_WHOLE_VALUE_def)
  have "mir_live_after lv b index v f \<longleftrightarrow> place_set lv v f \<inter> bits ?row \<noteq> {}"
    using any_field_live_bits [OF ok(1) row(2) v some(1)] place_set_nonempty [OF ok(1) row(2) v some(1), of f]
      some v assms(3) counts whole
    by (auto simp: mir_live_after_def mir_block_at_def Let_def)
  moreover have "live_out lv = live_out ?init"
    using same_frame_live [OF lv(1)] same_frame_fields(7) [OF lv(1)] by (auto simp: live_out_def fun_eq_iff)
  moreover have "bits (lv_exit lv ! b) = {p. live_out lv b p}"
    using liveness_fixpoint_exact(2) [OF lv(2,3)] assms(3) counts by simp
  ultimately show ?thesis
    using row(1) same_frame_place_set [OF lv(1)] same_frame_block [OF lv(1)] by auto
qed

theorem live_after_is_path_liveness_witness:
  "\<exists>lv. mir_liveness_compute (type_registry_create known_names) two_blocks = Some lv \<and>
     mir_live_after lv 0 0 0 MIR_WHOLE_VALUE"
proof -
  let ?reg = "type_registry_create known_names"
  obtain lv where lv: "mir_liveness_compute ?reg two_blocks = Some lv"
    using liveness_computed [OF two_blocks_wf] by blast
  have "0 < length (mf_blocks two_blocks)" "0 < length (mf_values two_blocks)"
      "drop (0 + 1) (mf_blocks two_blocks ! 0) = []" by (simp_all add: two_blocks_def)
  then show ?thesis
    using live_after_is_path_liveness [OF two_blocks_wf lv, of 0 0 0 MIR_WHOLE_VALUE] two_blocks_live lv by auto
qed

end
