(* ===== verification/Mir_Fold.thy ===== *)
theory Mir_Fold
  imports Mir "HOL-Library.Signed_Division"
begin

text \<open>
  Constant folding: \<^verbatim>\<open>src/mir/mir_fold.c\<close>.  \<open>known\<close> holds, for each value, the constant it is known
  to have; folding rewrites an instruction whose operands are known, and \<open>drop_unread_constants\<close>
  then removes the constant instructions nothing reads.  Integer operands are converted to
  \<^verbatim>\<open>int32_t\<close> and the result is sign-extended to the 64 bits of a constant, whatever the type.
\<close>

section \<open>Known values\<close>

definition inst_is_constant :: "mir_op \<Rightarrow> bool" where
  "inst_is_constant op \<longleftrightarrow> op = MIR_CONST_INT \<or> op = MIR_CONST_FLOAT \<or> op = MIR_CONST_BOOL"

definition note_constant :: "mir_inst \<Rightarrow> const option list \<Rightarrow> const option list" where
  "note_constant inst known =
     (if \<not> inst_is_constant (mi_op inst) \<or> mir_value_is_none (mi_result inst) then known
      else known[mi_result inst := Some (mi_constant inst)])"

definition known_values :: "mir_function \<Rightarrow> const option list" where
  "known_values ir =
     fold (fold note_constant) (mf_blocks ir) (replicate (length (mf_values ir) + 1) None)"

definition known_operand :: "const option list \<Rightarrow> mir_operand \<Rightarrow> const option" where
  "known_operand known operand =
     (case operand of
        OPERAND_CONST c \<Rightarrow> Some c
      | OPERAND_VALUE v \<Rightarrow> if mir_value_is_none v \<or> v \<ge> length known then None else known ! v)"

section \<open>Folding one instruction\<close>

definition fold_neg :: "const \<Rightarrow> mir_inst \<Rightarrow> mir_inst option" where
  "fold_neg c inst =
     (if constant_is_float c then
        Some (inst\<lparr>mi_op := MIR_CONST_FLOAT, mi_constant := constant_float (ct_type c) (f32_neg (as_float (ct_value c)))\<rparr>)
      else if constant_is_int c then
        Some (inst\<lparr>mi_op := MIR_CONST_INT,
                   mi_constant := constant_int (ct_type c) (scast (0 - (ucast (as_int (ct_value c)) :: int32_t)))\<rparr>)
      else None)"

definition fold_not :: "const \<Rightarrow> mir_inst \<Rightarrow> mir_inst option" where
  "fold_not c inst =
     (if \<not> constant_is_bool c then None
      else Some (inst\<lparr>mi_op := MIR_CONST_BOOL, mi_constant := constant_bool (ct_type c) (\<not> as_bool (ct_value c))\<rparr>))"

definition fold_int_binary :: "mir_op \<Rightarrow> int32_t \<Rightarrow> int32_t \<Rightarrow> int32_t option" where
  "fold_int_binary op a b =
     (case op of
        MIR_ADD \<Rightarrow> Some (a + b)
      | MIR_SUB \<Rightarrow> Some (a - b)
      | MIR_MUL \<Rightarrow> Some (a * b)
      | MIR_DIV \<Rightarrow> if b = 0 \<or> a = 0x80000000 \<and> b = -1 then None else Some (word_of_int (sint a sdiv sint b))
      | MIR_MOD \<Rightarrow> if b = 0 \<or> a = 0x80000000 \<and> b = -1 then None else Some (word_of_int (sint a smod sint b))
      | _ \<Rightarrow> None)"

definition fold_float_binary :: "mir_op \<Rightarrow> float32 \<Rightarrow> float32 \<Rightarrow> float32 option" where
  "fold_float_binary op a b =
     (case op of
        MIR_ADD \<Rightarrow> Some (f32_add a b)
      | MIR_SUB \<Rightarrow> Some (f32_sub a b)
      | MIR_MUL \<Rightarrow> Some (f32_mul a b)
      | MIR_DIV \<Rightarrow> Some (f32_div a b)
      | _ \<Rightarrow> None)"

text \<open>A folded float only replaces the member \<^verbatim>\<open>as_float\<close> of the instruction's constant, whose type
  stays what it was.\<close>

definition fold_binary :: "const \<Rightarrow> const \<Rightarrow> mir_inst \<Rightarrow> mir_inst option" where
  "fold_binary left right inst =
     (if ct_type left = None \<or> ct_type left \<noteq> ct_type right then None
      else if constant_is_int left then
        (if type_is_unsigned (ct_type left) \<and> (mi_op inst = MIR_DIV \<or> mi_op inst = MIR_MOD) then None
         else map_option
           (\<lambda>folded. inst\<lparr>mi_op := MIR_CONST_INT, mi_constant := constant_int (ct_type left) (scast folded)\<rparr>)
           (fold_int_binary (mi_op inst) (ucast (as_int (ct_value left))) (ucast (as_int (ct_value right)))))
      else if constant_is_float left then
        map_option
          (\<lambda>folded. inst\<lparr>mi_op := MIR_CONST_FLOAT, mi_constant := Constant (ct_type (mi_constant inst)) (Const_float folded)\<rparr>)
          (fold_float_binary (mi_op inst) (as_float (ct_value left)) (as_float (ct_value right)))
      else None)"

definition fold_with :: "mir_inst \<Rightarrow> const list \<Rightarrow> mir_inst option" where
  "fold_with inst operands =
     (case mi_op inst of
        MIR_NEG \<Rightarrow> (case operands of [c] \<Rightarrow> fold_neg c inst | _ \<Rightarrow> None)
      | MIR_NOT \<Rightarrow> (case operands of [c] \<Rightarrow> fold_not c inst | _ \<Rightarrow> None)
      | MIR_ADD \<Rightarrow> (case operands of [c, d] \<Rightarrow> fold_binary c d inst | _ \<Rightarrow> None)
      | MIR_SUB \<Rightarrow> (case operands of [c, d] \<Rightarrow> fold_binary c d inst | _ \<Rightarrow> None)
      | MIR_MUL \<Rightarrow> (case operands of [c, d] \<Rightarrow> fold_binary c d inst | _ \<Rightarrow> None)
      | MIR_DIV \<Rightarrow> (case operands of [c, d] \<Rightarrow> fold_binary c d inst | _ \<Rightarrow> None)
      | MIR_MOD \<Rightarrow> (case operands of [c, d] \<Rightarrow> fold_binary c d inst | _ \<Rightarrow> None)
      | _ \<Rightarrow> None)"

fun known_operands :: "const option list \<Rightarrow> mir_operand list \<Rightarrow> const list option" where
  "known_operands known [] = Some []"
| "known_operands known (a # as) = do { c \<leftarrow> known_operand known a; cs \<leftarrow> known_operands known as; Some (c # cs) }"

definition fold_inst :: "const option list \<Rightarrow> mir_inst \<Rightarrow> const option list \<times> mir_inst" where
  "fold_inst known inst =
     (if length (mi_args inst) < 1 \<or> length (mi_args inst) > 2 then (known, inst)
      else case known_operands known (mi_args inst) of
        None \<Rightarrow> (known, inst)
      | Some operands \<Rightarrow>
          (case fold_with inst operands of
             None \<Rightarrow> (known, inst)
           | Some folded \<Rightarrow>
               (known[mi_result folded := Some (mi_constant folded)], folded\<lparr>mi_args := []\<rparr>)))"

fun fold_insts :: "const option list \<Rightarrow> mir_block \<Rightarrow> const option list \<times> mir_block" where
  "fold_insts known [] = (known, [])"
| "fold_insts known (i # is) =
     (let (known1, i') = fold_inst known i; (known2, is') = fold_insts known1 is in (known2, i' # is'))"

fun fold_blocks :: "const option list \<Rightarrow> mir_block list \<Rightarrow> const option list \<times> mir_block list" where
  "fold_blocks known [] = (known, [])"
| "fold_blocks known (b # bs) =
     (let (known1, b') = fold_insts known b; (known2, bs') = fold_blocks known1 bs in (known2, b' # bs'))"

section \<open>Dropping what nothing reads\<close>

definition inst_read_values :: "mir_inst \<Rightarrow> nat list" where
  "inst_read_values inst =
     filter (\<lambda>v. \<not> mir_value_is_none v) (map mir_operand_as_value (mi_args inst)) @
     (if mir_op_has_place (mi_op inst) then
        (if mir_value_is_none (pl_base (mi_place inst)) then [] else [pl_base (mi_place inst)]) @
        map pr_id (filter (\<lambda>p. pr_kind p = PROJ_INDEX \<and> \<not> mir_value_is_none (pr_id p)) (pl_projections (mi_place inst)))
      else [])"

definition read_flags :: "mir_function \<Rightarrow> bool list" where
  "read_flags ir =
     fold (fold (\<lambda>inst read. fold (\<lambda>v read. read[v := True]) (inst_read_values inst) read)) (mf_blocks ir)
       (replicate (length (mf_values ir) + 1) False)"

definition constant_is_unread :: "bool list \<Rightarrow> mir_inst \<Rightarrow> bool" where
  "constant_is_unread read inst \<longleftrightarrow>
     inst_is_constant (mi_op inst) \<and> \<not> mir_value_is_none (mi_result inst) \<and> \<not> read ! mi_result inst"

definition drop_unread_constants :: "mir_function \<Rightarrow> mir_function" where
  "drop_unread_constants ir =
     (let read = read_flags ir
      in ir\<lparr>mf_blocks := map (filter (\<lambda>inst. \<not> constant_is_unread read inst)) (mf_blocks ir)\<rparr>)"

definition mir_fold :: "mir_function \<Rightarrow> mir_function" where
  "mir_fold ir = drop_unread_constants (ir\<lparr>mf_blocks := snd (fold_blocks (known_values ir) (mf_blocks ir))\<rparr>)"

end
