(* ===== verification/Mir_Run.thy ===== *)
theory Mir_Run
  imports Mir_Fold
begin

text \<open>
  A reference meaning of the value instructions, against which the passes that rewrite values are
  stated.  A register holds a machine value at the width of its type; the constant instructions and
  the arithmetic the backend emits (\<^verbatim>\<open>emit_inst\<close> and \<^verbatim>\<open>operand_value\<close> of \<^verbatim>\<open>src/llvm/llvm_emit.c\<close>) have
  their meaning here, with division by zero and its overflow undefined.  What every other
  instruction does (memory, calls, the choice of a branch) is the argument \<open>effect\<close>, which sees the
  instruction, the values of its operands and of the values its place names, and the rest of the
  state.
\<close>

section \<open>Machine values\<close>

datatype machine_value = RI32 int32_t | RU8 "8 word" | RUsize size_t | RF32 float32 | RBool bool | ROther int64_t

definition constant_value :: "gtype option \<Rightarrow> const \<Rightarrow> machine_value" where
  "constant_value t c =
     (if kind_is TYPE_I32 t then RI32 (ucast (as_int (ct_value c)))
      else if kind_is TYPE_U8 t then RU8 (ucast (as_int (ct_value c)))
      else if kind_is TYPE_USIZE t then RUsize (as_int (ct_value c))
      else if kind_is TYPE_F32 t then RF32 (as_float (ct_value c))
      else if kind_is TYPE_BOOL t then RBool (as_bool (ct_value c))
      else ROther (as_int (ct_value c)))"

section \<open>Arithmetic\<close>

definition inst_is_arithmetic :: "mir_op \<Rightarrow> bool" where
  "inst_is_arithmetic op \<longleftrightarrow>
     op = MIR_ADD \<or> op = MIR_SUB \<or> op = MIR_MUL \<or> op = MIR_DIV \<or> op = MIR_MOD \<or> op = MIR_NEG \<or> op = MIR_NOT"

fun negated :: "machine_value \<Rightarrow> machine_value option" where
  "negated (RI32 a) = Some (RI32 (- a))"
| "negated (RU8 a) = Some (RU8 (- a))"
| "negated (RUsize a) = Some (RUsize (- a))"
| "negated (RF32 a) = Some (RF32 (f32_neg a))"
| "negated _ = None"

fun complemented :: "machine_value \<Rightarrow> machine_value option" where
  "complemented (RBool a) = Some (RBool (\<not> a))"
| "complemented _ = None"

definition word_arith :: "mir_op \<Rightarrow> 'w::len word \<Rightarrow> 'w word \<Rightarrow> 'w word option" where
  "word_arith op a b =
     (case op of MIR_ADD \<Rightarrow> Some (a + b) | MIR_SUB \<Rightarrow> Some (a - b) | MIR_MUL \<Rightarrow> Some (a * b) | _ \<Rightarrow> None)"

definition signed_arith :: "mir_op \<Rightarrow> int32_t \<Rightarrow> int32_t \<Rightarrow> int32_t option" where
  "signed_arith op a b =
     (if op = MIR_DIV \<or> op = MIR_MOD then
        if b = 0 \<or> sint a = - (2 ^ 31) \<and> sint b = -1 then None
        else Some (word_of_int (if op = MIR_DIV then sint a sdiv sint b else sint a smod sint b))
      else word_arith op a b)"

definition unsigned_arith :: "mir_op \<Rightarrow> 'w::len word \<Rightarrow> 'w word \<Rightarrow> 'w word option" where
  "unsigned_arith op a b =
     (if op = MIR_DIV \<or> op = MIR_MOD then
        if b = 0 then None else Some (if op = MIR_DIV then a div b else a mod b)
      else word_arith op a b)"

definition float_arith :: "mir_op \<Rightarrow> float32 \<Rightarrow> float32 \<Rightarrow> float32 option" where
  "float_arith op a b =
     (case op of
        MIR_ADD \<Rightarrow> Some (f32_add a b) | MIR_SUB \<Rightarrow> Some (f32_sub a b)
      | MIR_MUL \<Rightarrow> Some (f32_mul a b) | MIR_DIV \<Rightarrow> Some (f32_div a b) | _ \<Rightarrow> None)"

fun arith2 :: "mir_op \<Rightarrow> machine_value \<Rightarrow> machine_value \<Rightarrow> machine_value option" where
  "arith2 op (RI32 a) (RI32 b) = map_option RI32 (signed_arith op a b)"
| "arith2 op (RU8 a) (RU8 b) = map_option RU8 (unsigned_arith op a b)"
| "arith2 op (RUsize a) (RUsize b) = map_option RUsize (unsigned_arith op a b)"
| "arith2 op (RF32 a) (RF32 b) = map_option RF32 (float_arith op a b)"
| "arith2 _ _ _ = None"

definition arith :: "mir_op \<Rightarrow> machine_value list \<Rightarrow> machine_value option" where
  "arith op vs =
     (case vs of
        [a] \<Rightarrow> if op = MIR_NEG then negated a else if op = MIR_NOT then complemented a else None
      | [a, b] \<Rightarrow> if op = MIR_NEG \<or> op = MIR_NOT then None else arith2 op a b
      | _ \<Rightarrow> None)"

section \<open>Running instructions\<close>

type_synonym registers = "nat \<Rightarrow> machine_value option"

text \<open>The remainder of floats and everything else is left to the argument.\<close>

type_synonym 's effect =
  "mir_inst \<Rightarrow> machine_value option list \<Rightarrow> machine_value option list \<Rightarrow> 's \<Rightarrow> ('s \<times> machine_value) option"

fun operand_value :: "registers \<Rightarrow> mir_operand \<Rightarrow> machine_value option" where
  "operand_value env (OPERAND_VALUE v) = env v"
| "operand_value env (OPERAND_CONST c) = Some (constant_value (ct_type c) c)"

definition place_values :: "mir_inst \<Rightarrow> nat list" where
  "place_values inst =
     (if mir_op_has_place (mi_op inst) then
        pl_base (mi_place inst) # map pr_id (filter (\<lambda>p. pr_kind p = PROJ_INDEX) (pl_projections (mi_place inst)))
      else [])"

definition set_result :: "mir_inst \<Rightarrow> machine_value \<Rightarrow> registers \<Rightarrow> registers" where
  "set_result inst r env = (if mir_value_is_none (mi_result inst) then env else env(mi_result inst := Some r))"

definition run_inst :: "'s effect \<Rightarrow> mir_inst \<Rightarrow> registers \<times> 's \<Rightarrow> (registers \<times> 's) option" where
  "run_inst effect inst = (\<lambda>(env, s).
     if inst_is_constant (mi_op inst) then
       Some (set_result inst (constant_value (mi_type inst) (mi_constant inst)) env, s)
     else if inst_is_arithmetic (mi_op inst) then
       (case those (map (operand_value env) (mi_args inst)) of
          None \<Rightarrow> None
        | Some vs \<Rightarrow> (case arith (mi_op inst) vs of None \<Rightarrow> None | Some r \<Rightarrow> Some (set_result inst r env, s)))
     else
       (case effect inst (map (operand_value env) (mi_args inst)) (map env (place_values inst)) s of
          None \<Rightarrow> None
        | Some (s', r) \<Rightarrow> Some (set_result inst r env, s')))"

fun run_insts :: "'s effect \<Rightarrow> mir_inst list \<Rightarrow> registers \<times> 's \<Rightarrow> (registers \<times> 's) option" where
  "run_insts effect [] st = Some st"
| "run_insts effect (i # is) st = (case run_inst effect i st of None \<Rightarrow> None | Some st' \<Rightarrow> run_insts effect is st')"

text \<open>The blocks of a path, one after another.\<close>

definition run_path :: "'s effect \<Rightarrow> mir_function \<Rightarrow> nat list \<Rightarrow> registers \<times> 's \<Rightarrow> (registers \<times> 's) option" where
  "run_path effect ir path st = run_insts effect (concat (map (\<lambda>b. mf_blocks ir ! b) path)) st"

lemma run_insts_append:
  "run_insts effect (xs @ ys) st = (case run_insts effect xs st of None \<Rightarrow> None | Some st' \<Rightarrow> run_insts effect ys st')"
  by (induction xs arbitrary: st) (auto split: option.split)

end
