(* ===== verification/Fold_Correct.thy ===== *)
theory Fold_Correct
  imports Mir_Run
begin

text \<open>
  Folding keeps the meaning of a function: along every path, the folded blocks leave the same state
  and the same registers, but for those no remaining instruction reads.  The hypotheses are what
  lowering produces (one instruction per value, operands of the instruction's type) and that no
  arithmetic is at \<^verbatim>\<open>usize\<close>, where folding at 32 bits is wrong.
\<close>

section \<open>Functions folding is right about\<close>

definition operand_type :: "mir_function \<Rightarrow> mir_operand \<Rightarrow> gtype option" where
  "operand_type ir a =
     (case a of OPERAND_CONST c \<Rightarrow> ct_type c
      | OPERAND_VALUE v \<Rightarrow> if v < length (mf_values ir) then vi_type (mf_values ir ! v) else None)"

definition fold_typed_inst :: "mir_function \<Rightarrow> mir_inst \<Rightarrow> bool" where
  "fold_typed_inst ir inst \<longleftrightarrow>
     (inst_is_constant (mi_op inst) \<longrightarrow>
        mi_result inst < length (mf_values ir) \<and> vi_type (mf_values ir ! mi_result inst) = mi_type inst \<and>
        ct_type (mi_constant inst) = mi_type inst) \<and>
     (inst_is_arithmetic (mi_op inst) \<longrightarrow>
        mi_result inst < length (mf_values ir) \<and> vi_type (mf_values ir ! mi_result inst) = mi_type inst \<and>
        ct_type (mi_constant inst) = None \<and> \<not> kind_is TYPE_USIZE (mi_type inst) \<and>
        (\<forall>a \<in> set (mi_args inst). operand_type ir a = mi_type inst))"

definition results_of :: "mir_inst list \<Rightarrow> nat list" where
  "results_of is = filter (\<lambda>v. \<not> mir_value_is_none v) (map mi_result is)"

definition fold_typed :: "mir_function \<Rightarrow> bool" where
  "fold_typed ir \<longleftrightarrow>
     length (mf_values ir) < 4294967295 \<and> distinct (results_of (concat (mf_blocks ir))) \<and>
     (\<forall>b \<in> set (mf_blocks ir). \<forall>inst \<in> set b. fold_typed_inst ir inst)"

section \<open>One instruction\<close>

lemma ucast_scast_32: "(ucast (scast (a :: int32_t) :: int64_t) :: int32_t) = a"
  by (rule bit_word_eqI) (auto simp add: bit_simps)

lemma ucast_scast_8: "(ucast (scast (a :: int32_t) :: int64_t) :: 8 word) = ucast a"
  by (rule bit_word_eqI) (auto simp add: bit_simps)

lemma ucast_8_of_32: "(ucast (ucast (x :: int64_t) :: int32_t) :: 8 word) = ucast x"
  by (rule bit_word_eqI) (auto simp add: bit_simps)

lemma word8_of_uint32: "(ucast (x :: int32_t) :: 8 word) = word_of_int (uint x)"
  by simp

lemma word_of_int_mod_32: "(word_of_int (k mod 2 ^ 32) :: 8 word) = word_of_int k"
proof -
  have "(k mod 2 ^ 32) mod 2 ^ 8 = k mod (2 ^ 8 :: int)" by (rule mod_mod_cancel) simp
  then show ?thesis by (simp add: word_of_int_eq_iff take_bit_eq_mod)
qed

lemma ucast_8_arith:
  "(ucast (a + b :: int32_t) :: 8 word) = ucast a + ucast b"
  "(ucast (a - b :: int32_t) :: 8 word) = ucast a - ucast b"
  "(ucast (a * b :: int32_t) :: 8 word) = ucast a * ucast b"
  "(ucast (- b :: int32_t) :: 8 word) = - ucast b"
proof -
  have u: "uint (a + b) = (uint a + uint b) mod 2 ^ 32" "uint (a - b) = (uint a - uint b) mod 2 ^ 32"
      "uint (a * b) = (uint a * uint b) mod 2 ^ 32" "uint (- b) = (- uint b) mod 2 ^ 32"
    using uint_word_ariths(1,2,3) [of a b] uint_word_ariths(4) [of b] by (simp_all add: take_bit_eq_mod)
  show "(ucast (a + b :: int32_t) :: 8 word) = ucast a + ucast b"
      "(ucast (a - b :: int32_t) :: 8 word) = ucast a - ucast b"
      "(ucast (a * b :: int32_t) :: 8 word) = ucast a * ucast b"
      "(ucast (- b :: int32_t) :: 8 word) = - ucast b"
    unfolding word8_of_uint32 u word_of_int_mod_32 by simp_all
qed

lemma sint_as_int32: "sint (a :: int32_t) = - (2 ^ 31) \<longleftrightarrow> a = 0x80000000"
proof -
  have "sint (0x80000000 :: int32_t) = - (2 ^ 31)" by simp
  then show ?thesis by (metis signed_word_eqI)
qed

lemma sint_minus_one: "sint (a :: int32_t) = -1 \<longleftrightarrow> a = -1"
  by (metis signed_minus_1 signed_word_eqI)

lemma fold_int_is_signed_arith:
  assumes "fold_int_binary op a b = Some r"
  shows "signed_arith op a b = Some r"
  using assms sint_as_int32 [of a] sint_minus_one [of b]
  by (auto simp add: fold_int_binary_def signed_arith_def word_arith_def split: mir_op.splits if_splits)

lemma fold_int_is_word_arith:
  assumes "fold_int_binary op a b = Some r" "op \<noteq> MIR_DIV" "op \<noteq> MIR_MOD"
  shows "unsigned_arith op (ucast a :: 8 word) (ucast b) = Some (ucast r)"
  using assms by (auto simp: fold_int_binary_def unsigned_arith_def word_arith_def ucast_8_arith split: mir_op.splits)

lemma fold_float_is_float_arith:
  "fold_float_binary op a b = Some r \<Longrightarrow> float_arith op a b = Some r"
  by (simp add: fold_float_binary_def float_arith_def split: mir_op.splits)

text \<open>A known constant has the type of its value, or none when it is a folded float.\<close>

definition constant_fits :: "gtype option \<Rightarrow> const \<Rightarrow> bool" where
  "constant_fits t c \<longleftrightarrow> ct_type c = t \<or> ct_type c = None"

lemma kind_is_unique: "kind_is k t \<Longrightarrow> kind_is k' t \<Longrightarrow> k = k'"
  by (cases t) auto

lemma integer_kinds:
  assumes "type_is_integer t" "\<not> kind_is TYPE_USIZE t"
  shows "kind_is TYPE_I32 t \<or> kind_is TYPE_U8 t \<and> \<not> kind_is TYPE_I32 t"
  using assms by (cases t) (auto split: type_kind.splits)

lemma unsigned_kinds: "kind_is TYPE_U8 t \<Longrightarrow> type_is_unsigned t"
  by (cases t) auto

text \<open>What a folded instruction is, against the instruction it replaces.\<close>

definition folded_as :: "mir_inst \<Rightarrow> const list \<Rightarrow> mir_inst \<Rightarrow> bool" where
  "folded_as inst cs f \<longleftrightarrow>
     inst_is_constant (mi_op f) \<and> mi_result f = mi_result inst \<and> mi_type f = mi_type inst \<and>
     constant_fits (mi_type inst) (mi_constant f) \<and>
     arith (mi_op inst) (map (constant_value (mi_type inst)) cs) = Some (constant_value (mi_type inst) (mi_constant f))"

lemma constant_fits_kind:
  "constant_fits t c \<Longrightarrow> kind_is k (ct_type c) \<Longrightarrow> ct_type c = t"
  by (auto simp: constant_fits_def)

lemma fold_neg_correct:
  assumes "fold_neg c inst = Some f" "mi_op inst = MIR_NEG" "constant_fits (mi_type inst) c"
    "\<not> kind_is TYPE_USIZE (mi_type inst)"
  shows "folded_as inst [c] f"
proof (cases "constant_is_float c")
  case True
  then have t: "ct_type c = mi_type inst" "kind_is TYPE_F32 (mi_type inst)"
    using assms(3) constant_fits_kind unfolding constant_is_float_def by metis+
  then have no: "\<not> kind_is TYPE_I32 (mi_type inst)" "\<not> kind_is TYPE_U8 (mi_type inst)"
    using kind_is_unique by blast+
  show ?thesis using True assms t no
    by (auto simp: fold_neg_def folded_as_def inst_is_constant_def constant_fits_def constant_float_def
        arith_def constant_value_def)
next
  case False
  then have int: "constant_is_int c"
      and f: "f = inst\<lparr>mi_op := MIR_CONST_INT,
               mi_constant := constant_int (ct_type c) (scast (0 - (ucast (as_int (ct_value c)) :: int32_t)))\<rparr>"
    using assms(1) by (auto simp: fold_neg_def split: if_splits)
  then have t: "ct_type c = mi_type inst" "type_is_integer (mi_type inst)"
    using assms(3) by (auto simp: constant_is_int_def constant_fits_def)
  then consider "kind_is TYPE_I32 (mi_type inst)" | "kind_is TYPE_U8 (mi_type inst)" "\<not> kind_is TYPE_I32 (mi_type inst)"
    using integer_kinds [OF _ assms(4)] by blast
  then show ?thesis
    by cases (simp_all add: f t assms(2) folded_as_def inst_is_constant_def constant_fits_def constant_int_def
        arith_def constant_value_def ucast_scast_32 ucast_scast_8 ucast_8_arith ucast_8_of_32)
qed

lemma fold_not_correct:
  assumes "fold_not c inst = Some f" "mi_op inst = MIR_NOT" "constant_fits (mi_type inst) c"
  shows "folded_as inst [c] f"
proof -
  have b: "kind_is TYPE_BOOL (ct_type c)" using assms(1) by (simp add: fold_not_def constant_is_bool_def split: if_splits)
  then have t: "ct_type c = mi_type inst" using assms(3) constant_fits_kind by blast
  have "\<not> kind_is k (mi_type inst)" if "k \<noteq> TYPE_BOOL" for k using that b kind_is_unique unfolding t by blast
  then show ?thesis using assms b
    by (auto simp: t fold_not_def constant_is_bool_def folded_as_def inst_is_constant_def constant_fits_def
        constant_bool_def arith_def constant_value_def split: if_splits)
qed

lemma fold_binary_correct:
  assumes "fold_binary c d inst = Some f" "mi_op inst \<noteq> MIR_NEG" "mi_op inst \<noteq> MIR_NOT"
    "constant_fits (mi_type inst) c" "constant_fits (mi_type inst) d"
    "\<not> kind_is TYPE_USIZE (mi_type inst)" "ct_type (mi_constant inst) = None"
  shows "folded_as inst [c, d] f"
proof -
  have t: "ct_type c = mi_type inst" "ct_type d = mi_type inst"
    using assms(1,4,5) by (auto simp: fold_binary_def constant_fits_def split: if_splits)
  show ?thesis
  proof (cases "constant_is_int c")
    case True
    then obtain r where r: "fold_int_binary (mi_op inst) (ucast (as_int (ct_value c))) (ucast (as_int (ct_value d))) = Some r"
        and f: "f = inst\<lparr>mi_op := MIR_CONST_INT, mi_constant := constant_int (mi_type inst) (scast r)\<rparr>"
        and div: "type_is_unsigned (mi_type inst) \<Longrightarrow> mi_op inst \<noteq> MIR_DIV \<and> mi_op inst \<noteq> MIR_MOD"
      using assms(1) t by (auto simp: fold_binary_def split: if_splits)
    have "type_is_integer (mi_type inst)" using True t by (simp add: constant_is_int_def)
    then consider "kind_is TYPE_I32 (mi_type inst)" | "kind_is TYPE_U8 (mi_type inst)" "\<not> kind_is TYPE_I32 (mi_type inst)"
      using integer_kinds [OF _ assms(6)] by blast
    then show ?thesis
    proof cases
      case 1
      then show ?thesis using fold_int_is_signed_arith [OF r] assms(2,3)
        by (simp add: f folded_as_def inst_is_constant_def constant_fits_def constant_int_def arith_def
            constant_value_def ucast_scast_32)
    next
      case 2
      then show ?thesis using fold_int_is_word_arith [OF r] div unsigned_kinds assms(2,3)
        by (simp add: f folded_as_def inst_is_constant_def constant_fits_def constant_int_def arith_def
            constant_value_def ucast_scast_8 ucast_8_of_32)
    qed
  next
    case False
    then have fl: "kind_is TYPE_F32 (mi_type inst)"
      using assms(1) t by (auto simp: fold_binary_def constant_is_float_def split: if_splits)
    have no: "\<not> kind_is k (mi_type inst)" if "k \<noteq> TYPE_F32" for k using that fl kind_is_unique by blast
    obtain r where r: "fold_float_binary (mi_op inst) (as_float (ct_value c)) (as_float (ct_value d)) = Some r"
        and f: "f = inst\<lparr>mi_op := MIR_CONST_FLOAT, mi_constant := Constant None (Const_float r)\<rparr>"
      using False assms(1,7) t by (auto simp: fold_binary_def split: if_splits)
    show ?thesis using fold_float_is_float_arith [OF r] fl no assms(2,3)
      by (simp add: f folded_as_def inst_is_constant_def constant_fits_def arith_def constant_value_def)
  qed
qed

lemma fold_with_correct:
  assumes "fold_with inst cs = Some f" "\<forall>c \<in> set cs. constant_fits (mi_type inst) c"
    "inst_is_arithmetic (mi_op inst) \<Longrightarrow> \<not> kind_is TYPE_USIZE (mi_type inst) \<and> ct_type (mi_constant inst) = None"
  shows "folded_as inst cs f" "inst_is_arithmetic (mi_op inst)"
proof -
  show ar: "inst_is_arithmetic (mi_op inst)"
    using assms(1) by (auto simp: fold_with_def inst_is_arithmetic_def split: mir_op.splits)
  show "folded_as inst cs f"
    using assms(1,2) assms(3) [OF ar] fold_neg_correct fold_not_correct fold_binary_correct
    by (auto simp: fold_with_def split: mir_op.splits list.splits)
qed

section \<open>What is known\<close>

definition known_fits :: "mir_function \<Rightarrow> const option list \<Rightarrow> bool" where
  "known_fits ir k \<longleftrightarrow>
     length k = length (mf_values ir) + 1 \<and>
     (\<forall>v < length k. \<forall>c. k ! v = Some c \<longrightarrow> v < length (mf_values ir) \<and> constant_fits (vi_type (mf_values ir ! v)) c)"

definition known_le :: "const option list \<Rightarrow> const option list \<Rightarrow> bool" where
  "known_le k k' \<longleftrightarrow> length k' = length k \<and> (\<forall>v < length k. \<forall>c. k ! v = Some c \<longrightarrow> k' ! v = Some c)"

text \<open>An instruction that has not been reached: a constant's value is known, any other's is not.\<close>

definition pending :: "mir_function \<Rightarrow> const option list \<Rightarrow> mir_inst \<Rightarrow> bool" where
  "pending ir k i \<longleftrightarrow>
     (if inst_is_constant (mi_op i) then k ! mi_result i = Some (mi_constant i)
      else mi_result i < length (mf_values ir) \<longrightarrow> k ! mi_result i = None)"

definition folds :: "mir_function \<Rightarrow> const option list \<Rightarrow> mir_inst \<Rightarrow> mir_inst \<Rightarrow> bool" where
  "folds ir k i i' \<longleftrightarrow>
     i' = i \<and> pending ir k i \<or>
     (\<exists>cs f. known_operands k (mi_args i) = Some cs \<and> fold_with i cs = Some f \<and> i' = f\<lparr>mi_args := []\<rparr> \<and>
             inst_is_arithmetic (mi_op i) \<and> folded_as i cs f \<and> k ! mi_result i = Some (mi_constant f))"

lemma known_le_trans: "known_le a b \<Longrightarrow> known_le b c \<Longrightarrow> known_le a c"
  by (auto simp: known_le_def)

lemma known_le_refl [simp]: "known_le k k"
  by (simp add: known_le_def)

lemma known_operand_mono: "known_le k k' \<Longrightarrow> known_operand k a = Some c \<Longrightarrow> known_operand k' a = Some c"
  by (auto simp: known_operand_def known_le_def split: mir_operand.splits if_splits)

lemma known_operands_mono: "known_le k k' \<Longrightarrow> known_operands k as = Some cs \<Longrightarrow> known_operands k' as = Some cs"
  by (induction as arbitrary: cs) (auto split: Option.bind_splits dest: known_operand_mono)

lemma folds_mono:
  assumes "folds ir k i i'" "known_le k k'" "mi_result i < length k \<Longrightarrow> k' ! mi_result i = k ! mi_result i"
    "mi_result i < length k \<or> \<not> inst_is_constant (mi_op i) \<and> \<not> inst_is_arithmetic (mi_op i)"
    "length k = length (mf_values ir) + 1"
  shows "folds ir k' i i'"
  using assms known_operands_mono [OF assms(2)] unfolding folds_def pending_def
  by (auto split: if_splits)

lemma known_operands_fit:
  assumes "known_fits ir k" "known_operands k as = Some cs" "\<forall>a \<in> set as. operand_type ir a = t"
  shows "\<forall>c \<in> set cs. constant_fits t c"
  using assms(2,3)
proof (induction as arbitrary: cs)
  case (Cons a as)
  then obtain c cs' where c: "known_operand k a = Some c" "known_operands k as = Some cs'" "cs = c # cs'"
    by (auto split: Option.bind_splits)
  have "constant_fits (operand_type ir a) c"
  proof (cases a)
    case (OPERAND_VALUE v)
    then have "v < length k" "k ! v = Some c" using c(1) by (auto simp: known_operand_def split: if_splits)
    then show ?thesis using assms(1) OPERAND_VALUE by (auto simp: known_fits_def operand_type_def)
  next
    case (OPERAND_CONST d)
    then show ?thesis using c(1) by (auto simp: known_operand_def operand_type_def constant_fits_def)
  qed
  with Cons c show ?case by auto
qed simp

lemma fold_inst_cases:
  "fold_inst k i = (k, i) \<or>
   (\<exists>cs f. known_operands k (mi_args i) = Some cs \<and> fold_with i cs = Some f \<and>
      fold_inst k i = (k[mi_result f := Some (mi_constant f)], f\<lparr>mi_args := []\<rparr>))"
proof (cases "known_operands k (mi_args i)")
  case None
  then show ?thesis by (simp add: fold_inst_def)
next
  case (Some cs)
  then show ?thesis by (cases "fold_with i cs") (simp_all add: fold_inst_def)
qed

lemma fold_inst_step:
  assumes "fold_inst k i = (k', i')" "known_fits ir k" "fold_typed_inst ir i" "pending ir k i"
  shows "known_fits ir k'" "known_le k k'" "folds ir k' i i'" "\<And>v. v \<noteq> mi_result i \<Longrightarrow> k' ! v = k ! v"
proof -
  have "known_fits ir k' \<and> known_le k k' \<and> folds ir k' i i' \<and> (\<forall>v. v \<noteq> mi_result i \<longrightarrow> k' ! v = k ! v)"
  proof (cases "k' = k \<and> i' = i")
    case True
    then show ?thesis using assms by (simp add: folds_def)
  next
    case False
    then obtain cs f where cs: "known_operands k (mi_args i) = Some cs" "fold_with i cs = Some f"
        and k': "k' = k[mi_result f := Some (mi_constant f)]" and i': "i' = f\<lparr>mi_args := []\<rparr>"
      using assms(1) fold_inst_cases [of k i] by (metis prod.inject)
    have ar: "inst_is_arithmetic (mi_op i)"
      using cs(2) by (auto simp: fold_with_def inst_is_arithmetic_def split: mir_op.splits)
    then have ty: "mi_result i < length (mf_values ir)" "vi_type (mf_values ir ! mi_result i) = mi_type i"
        "ct_type (mi_constant i) = None" "\<not> kind_is TYPE_USIZE (mi_type i)"
        "\<forall>a \<in> set (mi_args i). operand_type ir a = mi_type i"
      using assms(3) by (auto simp: fold_typed_inst_def)
    have fd: "folded_as i cs f"
      using fold_with_correct(1) [OF cs(2) known_operands_fit [OF assms(2) cs(1) ty(5)]] ty by blast
    then have r: "mi_result f = mi_result i" "constant_fits (mi_type i) (mi_constant f)"
      by (simp_all add: folded_as_def)
    have nc: "\<not> inst_is_constant (mi_op i)" using ar by (auto simp: inst_is_arithmetic_def inst_is_constant_def)
    have len: "length k = length (mf_values ir) + 1" using assms(2) by (simp add: known_fits_def)
    have none: "k ! mi_result i = None" using assms(4) nc ty(1) by (simp add: pending_def)
    have le: "known_le k k'" using none unfolding known_le_def k' r(1)
      by (metis length_list_update nth_list_update_neq option.distinct(1))
    have fits: "known_fits ir k'"
      using assms(2) r(2) ty(1,2) by (auto simp: known_fits_def k' r(1) nth_list_update)
    have "folds ir k' i i'"
      using known_operands_mono [OF le cs(1)] cs(2) i' ar fd ty(1) len
      by (auto simp: folds_def k' r(1))
    then show ?thesis using le fits by (simp add: k' r(1))
  qed
  then show "known_fits ir k'" "known_le k k'" "folds ir k' i i'" "\<And>v. v \<noteq> mi_result i \<Longrightarrow> k' ! v = k ! v"
    by blast+
qed

lemma fold_insts_Cons:
  "fold_insts k (i # is) = (fst (fold_insts (fst (fold_inst k i)) is),
     snd (fold_inst k i) # snd (fold_insts (fst (fold_inst k i)) is))"
  by (simp add: case_prod_beta Let_def)

lemma pending_elsewhere:
  assumes "pending ir k j" "fold_typed_inst ir j" "length (mf_values ir) < 4294967295"
    "mi_result j \<notin> {r} \<or> mir_value_is_none (mi_result j)" "\<And>v. v \<noteq> r \<Longrightarrow> k' ! v = k ! v" "r < length (mf_values ir) \<or> k' = k"
  shows "pending ir k' j"
  using assms by (auto simp: pending_def fold_typed_inst_def mir_value_is_none_def split: if_splits)

lemma fold_insts_sound:
  assumes "known_fits ir k" "length (mf_values ir) < 4294967295" "distinct (results_of is)"
    "\<forall>i \<in> set is. fold_typed_inst ir i" "\<forall>i \<in> set is. pending ir k i"
  shows "known_fits ir (fst (fold_insts k is)) \<and> known_le k (fst (fold_insts k is)) \<and>
     list_all2 (folds ir (fst (fold_insts k is))) is (snd (fold_insts k is)) \<and>
     (\<forall>v. v \<notin> set (results_of is) \<longrightarrow> fst (fold_insts k is) ! v = k ! v)"
  using assms
proof (induction "is" arbitrary: k)
  case Nil
  then show ?case by simp
next
  case (Cons i "is")
  obtain k1 i' where step: "fold_inst k i = (k1, i')" by fastforce
  note sound = fold_inst_step [OF step Cons.prems(1)]
  have i: "fold_typed_inst ir i" "pending ir k i" using Cons.prems by auto
  note sound = sound [OF i]
  have len: "length k = length (mf_values ir) + 1" "length k1 = length k"
    using Cons.prems(1) sound(2) by (auto simp: known_fits_def known_le_def)
  have unchanged: "k1 = k" if "\<not> mi_result i < length (mf_values ir)"
  proof -
    from that have "\<not> inst_is_arithmetic (mi_op i)" using i(1) by (auto simp: fold_typed_inst_def)
    then have "fold_with i cs = None" for cs
      by (auto simp: fold_with_def inst_is_arithmetic_def split: mir_op.splits)
    then show ?thesis using step fold_inst_cases [of k i] by auto
  qed
  have fresh: "mi_result j \<notin> {mi_result i} \<or> mir_value_is_none (mi_result j)" if "j \<in> set is" for j
    using Cons.prems(3) that by (auto simp: results_of_def image_iff split: if_splits)
  have rest: "pending ir k1 j" if "j \<in> set is" for j
    using pending_elsewhere [OF _ _ Cons.prems(2) fresh [OF that] sound(4)] unchanged Cons.prems(4,5) that by auto
  have d: "distinct (results_of is)" using Cons.prems(3) by (auto simp: results_of_def split: if_splits)
  have IH: "known_fits ir (fst (fold_insts k1 is)) \<and> known_le k1 (fst (fold_insts k1 is)) \<and>
     list_all2 (folds ir (fst (fold_insts k1 is))) is (snd (fold_insts k1 is)) \<and>
     (\<forall>v. v \<notin> set (results_of is) \<longrightarrow> fst (fold_insts k1 is) ! v = k1 ! v)"
    using Cons.IH [OF sound(1) Cons.prems(2) d] rest Cons.prems(4) by auto
  let ?k2 = "fst (fold_insts k1 is)"
  have r: "?k2 ! mi_result i = k1 ! mi_result i" if "mi_result i < length k1"
  proof -
    have "\<not> mir_value_is_none (mi_result i)" using that len Cons.prems(2) by (simp add: mir_value_is_none_def)
    then have "mi_result i \<notin> set (results_of is)" using Cons.prems(3) by (auto simp: results_of_def)
    then show ?thesis using IH by blast
  qed
  have "folds ir ?k2 i i'"
    using folds_mono [OF sound(3), of ?k2] IH r i(1) len by (auto simp: fold_typed_inst_def)
  moreover have "?k2 ! v = k ! v" if "v \<notin> set (results_of (i # is))" for v
  proof (cases "v = mi_result i")
    case True
    with that have "mir_value_is_none v" by (auto simp: results_of_def split: if_splits)
    then have "k1 = k" using True unchanged Cons.prems(2) by (auto simp: mir_value_is_none_def)
    then show ?thesis using IH that by (auto simp: results_of_def split: if_splits)
  next
    case False
    then show ?thesis using IH that sound(4) by (auto simp: results_of_def split: if_splits)
  qed
  ultimately show ?case
    using IH sound(2) known_le_trans by (auto simp: fold_insts_Cons step simp del: fold_insts.simps)
qed

lemma fold_blocks_concat:
  "fst (fold_blocks k bs) = fst (fold_insts k (concat bs)) \<and>
   concat (snd (fold_blocks k bs)) = snd (fold_insts k (concat bs)) \<and>
   list_all2 (\<lambda>b b'. length b = length b') bs (snd (fold_blocks k bs))"
proof (induction bs arbitrary: k)
  case (Cons b bs)
  have app: "fold_insts k (xs @ ys) = (fst (fold_insts (fst (fold_insts k xs)) ys),
      snd (fold_insts k xs) @ snd (fold_insts (fst (fold_insts k xs)) ys))" for xs ys k
    by (induction xs arbitrary: k) (simp_all add: case_prod_beta Let_def)
  have len: "length (snd (fold_insts k xs)) = length xs" for k xs
    by (induction xs arbitrary: k) (simp_all add: case_prod_beta Let_def)
  show ?case using Cons by (simp add: case_prod_beta Let_def app len)
qed simp

lemma list_all2_concat:
  "list_all2 P (concat xs) (concat ys) \<Longrightarrow> list_all2 (\<lambda>a b. length a = length b) xs ys \<Longrightarrow>
     list_all2 (list_all2 P) xs ys"
proof (induction xs arbitrary: ys)
  case (Cons x xs)
  then show ?case by (auto simp: list_all2_Cons1 list_all2_append)
qed simp

section \<open>The folded blocks run alike\<close>

definition known_holds :: "mir_function \<Rightarrow> const option list \<Rightarrow> registers \<Rightarrow> bool" where
  "known_holds ir k env \<longleftrightarrow>
     (\<forall>v < length k. \<forall>c r. k ! v = Some c \<longrightarrow> env v = Some r \<longrightarrow> r = constant_value (vi_type (mf_values ir ! v)) c)"

lemma known_operand_value:
  assumes "known_holds ir k env" "known_fits ir k" "known_operand k a = Some c" "operand_type ir a = t"
    "operand_value env a = Some r"
  shows "r = constant_value t c"
proof (cases a)
  case (OPERAND_VALUE v)
  then have "v < length k" "k ! v = Some c" using assms(3) by (auto simp: known_operand_def split: if_splits)
  then show ?thesis using assms OPERAND_VALUE by (auto simp: known_holds_def known_fits_def operand_type_def)
next
  case (OPERAND_CONST d)
  then show ?thesis using assms by (auto simp: known_operand_def operand_type_def)
qed

lemma known_operand_values:
  assumes "known_holds ir k env" "known_fits ir k" "known_operands k as = Some cs"
    "\<forall>a \<in> set as. operand_type ir a = t" "those (map (operand_value env) as) = Some rs"
  shows "rs = map (constant_value t) cs"
  using assms(3-5)
proof (induction as arbitrary: cs rs)
  case (Cons a as)
  then obtain c cs' r rs' where "known_operand k a = Some c" "known_operands k as = Some cs'" "cs = c # cs'"
      "operand_value env a = Some r" "those (map (operand_value env) as) = Some rs'" "rs = r # rs'"
    by (auto split: Option.bind_splits option.splits)
  then show ?case using Cons known_operand_value [OF assms(1,2)] by auto
qed simp

lemma known_holds_update:
  assumes "known_holds ir k env"
    "\<And>c. mi_result i < length k \<Longrightarrow> k ! mi_result i = Some c \<Longrightarrow> r = constant_value (vi_type (mf_values ir ! mi_result i)) c"
  shows "known_holds ir k (set_result i r env)"
  using assms by (auto simp: known_holds_def set_result_def)

lemma folds_run_inst:
  assumes "folds ir k i i'" "known_fits ir k" "fold_typed_inst ir i" "known_holds ir k env"
    "run_inst effect i (env, s) = Some (env', s')"
  shows "run_inst effect i' (env, s) = Some (env', s')" "known_holds ir k env'"
proof -
  have "run_inst effect i' (env, s) = Some (env', s') \<and> known_holds ir k env'"
    using assms(1) unfolding folds_def
  proof (elim disjE conjE exE)
    assume i': "i' = i" and p: "pending ir k i"
    obtain r where env': "env' = set_result i r env"
        and r: "inst_is_constant (mi_op i) \<Longrightarrow> r = constant_value (mi_type i) (mi_constant i)"
      using assms(5) by (auto simp: run_inst_def split: if_splits option.splits)
    have "r = constant_value (vi_type (mf_values ir ! mi_result i)) c"
      if "mi_result i < length k" "k ! mi_result i = Some c" for c
    proof (cases "inst_is_constant (mi_op i)")
      case True
      then show ?thesis using p r that assms(3) by (auto simp: pending_def fold_typed_inst_def)
    next
      case False
      have "mi_result i < length (mf_values ir)" using that assms(2) by (auto simp: known_fits_def)
      then show ?thesis using False p that by (simp add: pending_def)
    qed
    then show ?thesis using assms(5) i' env' known_holds_update [OF assms(4)] by simp
  next
    fix cs f
    assume cs: "known_operands k (mi_args i) = Some cs" and f: "i' = f\<lparr>mi_args := []\<rparr>"
      and ar: "inst_is_arithmetic (mi_op i)" and fd: "folded_as i cs f" and kr: "k ! mi_result i = Some (mi_constant f)"
    have nc: "\<not> inst_is_constant (mi_op i)" using ar by (auto simp: inst_is_arithmetic_def inst_is_constant_def)
    obtain rs r where rs: "those (map (operand_value env) (mi_args i)) = Some rs" "arith (mi_op i) rs = Some r"
        and out: "env' = set_result i r env" "s' = s"
      using assms(5) ar nc by (auto simp: run_inst_def split: option.splits)
    have ty: "\<forall>a \<in> set (mi_args i). operand_type ir a = mi_type i"
        "vi_type (mf_values ir ! mi_result i) = mi_type i"
      using assms(3) ar by (auto simp: fold_typed_inst_def)
    have "rs = map (constant_value (mi_type i)) cs"
      by (rule known_operand_values [OF assms(4,2) cs ty(1) rs(1)])
    then have r: "r = constant_value (mi_type i) (mi_constant f)" using rs(2) fd by (simp add: folded_as_def)
    have f': "inst_is_constant (mi_op i')" "mi_result i' = mi_result i" "mi_type i' = mi_type i"
        "mi_constant i' = mi_constant f"
      using fd f by (simp_all add: folded_as_def)
    have "run_inst effect i' (env, s) = Some (env', s')"
      using f' out r by (simp add: run_inst_def set_result_def)
    moreover have "known_holds ir k env'"
      unfolding out using kr r ty(2) by (intro known_holds_update [OF assms(4)]) auto
    ultimately show ?thesis by blast
  qed
  then show "run_inst effect i' (env, s) = Some (env', s')" "known_holds ir k env'" by blast+
qed

lemma folds_run_insts:
  assumes "list_all2 (folds ir k) is is'" "known_fits ir k" "\<forall>i \<in> set is. fold_typed_inst ir i" "known_holds ir k env"
    "run_insts effect is (env, s) = Some (env', s')"
  shows "run_insts effect is' (env, s) = Some (env', s')"
  using assms(1,3-)
proof (induction arbitrary: env s rule: list_all2_induct)
  case (Cons i "is" i' is')
  then obtain env1 s1 where st: "run_inst effect i (env, s) = Some (env1, s1)"
      "run_insts effect is (env1, s1) = Some (env', s')"
    by (auto split: option.splits)
  have "fold_typed_inst ir i" using Cons.prems by simp
  note one = folds_run_inst [OF Cons.hyps(1) assms(2) this Cons.prems(2) st(1)]
  show ?case using Cons.IH [OF _ one(2) st(2)] Cons.prems one(1) by simp
qed simp

section \<open>The first table\<close>

lemma fold_note_constant:
  assumes "length k = length (mf_values ir) + 1" "length (mf_values ir) < 4294967295"
    "\<forall>i \<in> set is. fold_typed_inst ir i" "distinct (results_of is)"
  shows "length (fold note_constant is k) = length k \<and>
     (\<forall>v. v \<notin> mi_result ` {i \<in> set is. inst_is_constant (mi_op i)} \<longrightarrow> fold note_constant is k ! v = k ! v) \<and>
     (\<forall>i \<in> set is. inst_is_constant (mi_op i) \<longrightarrow> fold note_constant is k ! mi_result i = Some (mi_constant i))"
  using assms
proof (induction "is" arbitrary: k)
  case (Cons i "is")
  have d: "distinct (results_of is)" using Cons.prems(4) by (auto simp: results_of_def split: if_splits)
  have len: "length (note_constant i k) = length (mf_values ir) + 1" using Cons.prems(1) by (simp add: note_constant_def)
  have IH: "length (fold note_constant is (note_constant i k)) = length (note_constant i k) \<and>
     (\<forall>v. v \<notin> mi_result ` {i \<in> set is. inst_is_constant (mi_op i)} \<longrightarrow>
        fold note_constant is (note_constant i k) ! v = note_constant i k ! v) \<and>
     (\<forall>j \<in> set is. inst_is_constant (mi_op j) \<longrightarrow> fold note_constant is (note_constant i k) ! mi_result j = Some (mi_constant j))"
    by (rule Cons.IH [OF len Cons.prems(2) _ d]) (use Cons.prems in auto)
  have own: "fold note_constant is (note_constant i k) ! mi_result i = Some (mi_constant i)" if c: "inst_is_constant (mi_op i)"
  proof -
    have r: "mi_result i < length (mf_values ir)" "\<not> mir_value_is_none (mi_result i)"
      using c Cons.prems(2,3) by (auto simp: fold_typed_inst_def mir_value_is_none_def)
    then have "mi_result i \<notin> set (results_of is)" using Cons.prems(4) by (auto simp: results_of_def)
    then have "mi_result i \<notin> mi_result ` {i \<in> set is. inst_is_constant (mi_op i)}"
      using r(2) by (force simp: results_of_def)
    then show ?thesis using IH r c Cons.prems(1) by (simp add: note_constant_def)
  qed
  have "note_constant i k ! v = k ! v" if "v \<noteq> mi_result i \<or> \<not> inst_is_constant (mi_op i)" for v
    using that by (auto simp: note_constant_def)
  then have outer: "fold note_constant (i # is) k ! v = k ! v"
    if "v \<notin> mi_result ` {j \<in> set (i # is). inst_is_constant (mi_op j)}" for v
  proof -
    from that have "v \<noteq> mi_result i \<or> \<not> inst_is_constant (mi_op i)"
        "v \<notin> mi_result ` {j \<in> set is. inst_is_constant (mi_op j)}" by auto
    then show ?thesis using IH \<open>\<And>v. v \<noteq> mi_result i \<or> _ \<Longrightarrow> _\<close> by simp
  qed
  show ?case using outer IH own len Cons.prems(1) by simp
qed simp

lemma known_values_concat:
  "known_values ir = fold note_constant (concat (mf_blocks ir)) (replicate (length (mf_values ir) + 1) None)"
proof -
  have "fold (fold f) xss k = fold f (concat xss) k" for f :: "'a \<Rightarrow> 'b \<Rightarrow> 'b" and xss k
    by (induction xss arbitrary: k) simp_all
  then show ?thesis by (simp add: known_values_def)
qed

lemma known_values_sound:
  assumes "fold_typed ir"
  shows "known_fits ir (known_values ir)" "\<forall>i \<in> set (concat (mf_blocks ir)). pending ir (known_values ir) i"
proof -
  let ?is = "concat (mf_blocks ir)" and ?none = "replicate (length (mf_values ir) + 1) (None :: const option)"
  have ty: "\<forall>i \<in> set ?is. fold_typed_inst ir i" "length (mf_values ir) < 4294967295" "distinct (results_of ?is)"
    using assms by (auto simp: fold_typed_def)
  have k: "length (known_values ir) = length (mf_values ir) + 1"
      "\<And>v. v \<notin> mi_result ` {i \<in> set ?is. inst_is_constant (mi_op i)} \<Longrightarrow> known_values ir ! v = ?none ! v"
      "\<And>i. i \<in> set ?is \<Longrightarrow> inst_is_constant (mi_op i) \<Longrightarrow> known_values ir ! mi_result i = Some (mi_constant i)"
    using fold_note_constant [OF _ ty(2,1,3), of ?none] unfolding known_values_concat length_replicate by blast+
  show "known_fits ir (known_values ir)"
    unfolding known_fits_def
  proof (intro conjI allI impI)
    fix v c assume v: "v < length (known_values ir)" "known_values ir ! v = Some c"
    have "v \<in> mi_result ` {i \<in> set ?is. inst_is_constant (mi_op i)}"
    proof (rule ccontr)
      assume "\<not> ?thesis"
      then have "known_values ir ! v = ?none ! v" by (rule k(2))
      moreover have "?none ! v = None" using v(1) k(1) by (intro nth_replicate) simp
      ultimately show False using v(2) by simp
    qed
    then obtain i where i: "i \<in> set ?is" "inst_is_constant (mi_op i)" "v = mi_result i" by auto
    then have "c = mi_constant i" using k(3) v(2) by simp
    then show "v < length (mf_values ir)" "constant_fits (vi_type (mf_values ir ! v)) c"
      using ty(1) i by (auto simp: fold_typed_inst_def constant_fits_def)
  qed (rule k(1))
  show "\<forall>i \<in> set ?is. pending ir (known_values ir) i"
  proof
    fix i assume i: "i \<in> set ?is"
    show "pending ir (known_values ir) i"
    proof (cases "inst_is_constant (mi_op i)")
      case True
      then show ?thesis using k(3) i by (simp add: pending_def)
    next
      case False
      have "known_values ir ! mi_result i = None" if r: "mi_result i < length (mf_values ir)"
      proof -
        have "mi_result i \<noteq> mi_result j" if j: "j \<in> set ?is" "inst_is_constant (mi_op j)" for j
        proof
          assume same: "mi_result i = mi_result j"
          have "\<not> mir_value_is_none (mi_result i)" using r ty(2) by (simp add: mir_value_is_none_def)
          moreover have "inj_on mi_result (set (filter (\<lambda>i. \<not> mir_value_is_none (mi_result i)) ?is))"
            using ty(3) by (simp add: results_of_def filter_map comp_def distinct_map)
          ultimately have "i = j" using i j same by (auto simp: inj_on_def)
          then show False using False j by simp
        qed
        then have "known_values ir ! mi_result i = ?none ! mi_result i" by (intro k(2)) auto
        moreover have "?none ! mi_result i = None" using r by (intro nth_replicate) simp
        ultimately show ?thesis by simp
      qed
      then show ?thesis using False by (simp add: pending_def)
    qed
  qed
qed

section \<open>Dropping unread constants\<close>

definition unread_values :: "mir_function \<Rightarrow> nat set" where
  "unread_values ir = {v. v < length (mf_values ir) \<and> \<not> read_flags ir ! v}"

lemma fold_read_marks:
  "length (fold (\<lambda>v read. read[v := True]) vs read) = length read \<and>
   (\<forall>v < length read. fold (\<lambda>v read. read[v := True]) vs read ! v \<longleftrightarrow> v \<in> set vs \<or> read ! v)"
proof (induction vs arbitrary: read)
  case (Cons u vs)
  have "read[u := True] ! v \<longleftrightarrow> v = u \<or> read ! v" if "v < length read" for v
    using that by (cases "v = u") simp_all
  then show ?case using Cons.IH [of "read[u := True]"] by auto
qed simp

lemma read_flags_exact:
  assumes "v < length (mf_values ir)"
  shows "read_flags ir ! v \<longleftrightarrow> (\<exists>b \<in> set (mf_blocks ir). \<exists>i \<in> set b. v \<in> set (inst_read_values i))"
proof -
  let ?mark = "\<lambda>v read. read[v := True]"
  have inner: "length (fold (\<lambda>inst read. fold ?mark (inst_read_values inst) read) is read) = length read \<and>
     (\<forall>v < length read. fold (\<lambda>inst read. fold ?mark (inst_read_values inst) read) is read ! v \<longleftrightarrow>
        (\<exists>i \<in> set is. v \<in> set (inst_read_values i)) \<or> read ! v)" for "is" and read :: "bool list"
  proof (induction "is" arbitrary: read)
    case (Cons i "is")
    then show ?case using fold_read_marks [of "inst_read_values i" read] by simp blast
  qed simp
  have "length (fold (fold (\<lambda>inst read. fold ?mark (inst_read_values inst) read)) bs read) = length read \<and>
     (\<forall>v < length read. fold (fold (\<lambda>inst read. fold ?mark (inst_read_values inst) read)) bs read ! v \<longleftrightarrow>
        (\<exists>b \<in> set bs. \<exists>i \<in> set b. v \<in> set (inst_read_values i)) \<or> read ! v)" for bs and read :: "bool list"
  proof (induction bs arbitrary: read)
    case (Cons b bs)
    then show ?case using inner [of b read] by simp blast
  qed simp
  moreover have "v < length (replicate (length (mf_values ir) + 1) False)" using assms by simp
  moreover have "replicate (length (mf_values ir) + 1) False ! v = False" using assms by (intro nth_replicate) simp
  ultimately show ?thesis unfolding read_flags_def by blast
qed

lemma agree_operands:
  assumes "\<And>v. v \<notin> D \<Longrightarrow> env2 v = env v" "\<And>v. v \<in> set (inst_read_values i) \<Longrightarrow> v \<notin> D" "4294967295 \<notin> D"
  shows "map (operand_value env2) (mi_args i) = map (operand_value env) (mi_args i)"
    "map env2 (place_values i) = map env (place_values i)"
proof -
  have none: "env2 v = env v" if "mir_value_is_none v" for v
    using that assms(1,3) by (simp add: mir_value_is_none_def)
  have "operand_value env2 a = operand_value env a" if a: "a \<in> set (mi_args i)" for a
  proof (cases a)
    case (OPERAND_VALUE v)
    have "mir_value_is_none v \<or> v \<in> set (inst_read_values i)" using a OPERAND_VALUE by (force simp: inst_read_values_def)
    then show ?thesis using none assms(1,2) OPERAND_VALUE by auto
  qed simp
  then show "map (operand_value env2) (mi_args i) = map (operand_value env) (mi_args i)" by simp
  have "env2 v = env v" if v: "v \<in> set (place_values i)" for v
  proof -
    have "mir_value_is_none v \<or> v \<in> set (inst_read_values i)"
      using v by (auto simp: inst_read_values_def place_values_def split: if_splits)
    then show ?thesis using none assms(1,2) by auto
  qed
  then show "map env2 (place_values i) = map env (place_values i)" by simp
qed

lemma run_inst_agree:
  assumes "run_inst effect i (env, s) = Some (env', s')" "\<And>v. v \<notin> D \<Longrightarrow> env2 v = env v"
    "\<And>v. v \<in> set (inst_read_values i) \<Longrightarrow> v \<notin> D" "4294967295 \<notin> D"
  shows "\<exists>env2'. run_inst effect i (env2, s) = Some (env2', s') \<and> (\<forall>v. v \<notin> D \<longrightarrow> env2' v = env' v)"
proof -
  have eq: "map (operand_value env2) (mi_args i) = map (operand_value env) (mi_args i)"
      "map env2 (place_values i) = map env (place_values i)"
    by (rule agree_operands [where D = D]; use assms in blast)+
  have set: "\<forall>v. v \<notin> D \<longrightarrow> set_result i r env2 v = set_result i r env v" for r
    using assms(2) by (simp add: set_result_def)
  obtain r where "env' = set_result i r env" "run_inst effect i (env2, s) = Some (set_result i r env2, s')"
    using assms(1) unfolding run_inst_def prod.case eq by (auto split: if_splits option.splits)
  then show ?thesis using set by blast
qed

lemma run_insts_agree:
  assumes "run_insts effect is (env, s) = Some (env', s')" "\<And>v. v \<notin> D \<Longrightarrow> env2 v = env v"
    "\<And>i v. i \<in> set is \<Longrightarrow> v \<in> set (inst_read_values i) \<Longrightarrow> v \<notin> D" "4294967295 \<notin> D"
    "\<And>i. i \<in> set is \<Longrightarrow> dropped i \<Longrightarrow> inst_is_constant (mi_op i) \<and> mi_result i \<in> D"
  shows "\<exists>env2'. run_insts effect (filter (\<lambda>i. \<not> dropped i) is) (env2, s) = Some (env2', s') \<and>
     (\<forall>v. v \<notin> D \<longrightarrow> env2' v = env' v)"
  using assms(1-3,5)
proof (induction "is" arbitrary: env env2 s)
  case (Cons i "is")
  then obtain env1 s1 where st: "run_inst effect i (env, s) = Some (env1, s1)"
      "run_insts effect is (env1, s1) = Some (env', s')"
    by (auto split: option.splits)
  have IH: "\<exists>env2'. run_insts effect (filter (\<lambda>i. \<not> dropped i) is) (env2, s1) = Some (env2', s') \<and>
     (\<forall>v. v \<notin> D \<longrightarrow> env2' v = env' v)" if "\<And>v. v \<notin> D \<Longrightarrow> env2 v = env1 v" for env2
    by (rule Cons.IH [OF st(2) that]) (use Cons.prems in auto)
  show ?case
  proof (cases "dropped i")
    case True
    then have d: "inst_is_constant (mi_op i)" "mi_result i \<in> D" using Cons.prems(4) by auto
    then have "s1 = s" "\<And>v. v \<notin> D \<Longrightarrow> env2 v = env1 v"
      using st(1) Cons.prems(2) by (auto simp: run_inst_def set_result_def split: if_splits)
    then show ?thesis using IH [of env2] True Cons.prems(3,4) by simp
  next
    case False
    obtain env21 where "run_inst effect i (env2, s) = Some (env21, s1)" "\<forall>v. v \<notin> D \<longrightarrow> env21 v = env1 v"
      using run_inst_agree [OF st(1) Cons.prems(2) _ assms(4)] Cons.prems(3) by fastforce
    then show ?thesis using IH [of env21] False by auto
  qed
qed simp

section \<open>Folding keeps what a function does\<close>

lemma fold_keeps_values: "mf_values (mir_fold ir) = mf_values ir"
  by (simp add: mir_fold_def drop_unread_constants_def Let_def)


text \<open>A function that adds two constants of a type and returns the sum, run with nothing but a record
  of what is returned.\<close>

definition literal :: "gtype \<Rightarrow> nat \<Rightarrow> int64_t \<Rightarrow> mir_inst" where
  "literal t v n = (inst_of MIR_CONST_INT (Some t) v sample_span)\<lparr>mi_constant := Constant (Some t) (Const_int n)\<rparr>"

definition adding :: "gtype \<Rightarrow> int64_t \<Rightarrow> int64_t \<Rightarrow> mir_function" where
  "adding t m n =
     \<lparr>mf_function = None,
      mf_blocks = [[literal t 0 m, literal t 1 n,
        (inst_of MIR_ADD (Some t) 2 sample_span)\<lparr>mi_args := [OPERAND_VALUE 0, OPERAND_VALUE 1]\<rparr>,
        (inst_of MIR_RETURN None MIR_NO_VALUE sample_span)\<lparr>mi_args := [OPERAND_VALUE 2]\<rparr>]],
      mf_entry = 0,
      mf_values = replicate 3 \<lparr>vi_type = Some t, vi_binding = None, vi_span = sample_span\<rparr>,
      mf_params = []\<rparr>"

definition returning :: "machine_value option list effect" where
  "returning inst args places s = Some (if mi_op inst = MIR_RETURN then args else s, ROther 0)"

definition i32_type :: gtype where "i32_type = Type TYPE_I32 (Some ''i32'') None [] False None 0"
definition usize_type :: gtype where "usize_type = Type TYPE_USIZE (Some ''usize'') None [] False None 0"

lemmas adding_defs = adding_def literal_def inst_of_def returning_def zero_constant_def zero_place_def
  inst_is_constant_def inst_is_arithmetic_def mir_value_is_none_def MIR_NO_VALUE_def nth_Cons'
  numeral_2_eq_2 numeral_3_eq_3

lemma adding_runs:
  "\<exists>env. run_path returning (adding t m n) [0] (\<lambda>_. None, []) =
     map_option (\<lambda>r. (env, [Some r])) (arith MIR_ADD [constant_value (Some t) (Constant (Some t) (Const_int m)),
       constant_value (Some t) (Constant (Some t) (Const_int n))])"
  by (cases "arith MIR_ADD [constant_value (Some t) (Constant (Some t) (Const_int m)),
       constant_value (Some t) (Constant (Some t) (Const_int n))]")
    (simp_all add: run_path_def run_inst_def set_result_def adding_defs)

lemma adding_typed: "fold_typed (adding i32_type m n)"
  by (simp add: fold_typed_def fold_typed_inst_def results_of_def operand_type_def adding_defs i32_type_def)


text \<open>C17: folding at \<^verbatim>\<open>usize\<close> is wrong: operands are converted to 32 bits and the result is
  sign-extended.  The sum of the constants 2147483647 and 1 of that type is 2147483648, and the
  folded function returns 18446744071562067968.\<close>

theorem usize_folding_is_wrong:
  "(\<exists>env. run_path returning (adding usize_type 2147483647 1) [0] (\<lambda>_. None, []) = Some (env, [Some (RUsize 2147483648)])) \<and>
   (\<exists>env. run_path returning (mir_fold (adding usize_type 2147483647 1)) [0] (\<lambda>_. None, []) =
      Some (env, [Some (RUsize 18446744071562067968)]))"
proof
  show "\<exists>env. run_path returning (adding usize_type 2147483647 1) [0] (\<lambda>_. None, []) = Some (env, [Some (RUsize 2147483648)])"
    using adding_runs [of usize_type 2147483647 1]
    by (simp add: arith_def constant_value_def usize_type_def unsigned_arith_def word_arith_def)
  let ?c = "\<lambda>n. Constant (Some usize_type) (Const_int n)"
  let ?ret = "(inst_of MIR_RETURN None MIR_NO_VALUE sample_span)\<lparr>mi_args := [OPERAND_VALUE 2]\<rparr>"
  have known: "known_values (adding usize_type 2147483647 1) = [Some (?c 2147483647), Some (?c 1), None, None]"
    by (simp add: known_values_def note_constant_def adding_defs)
  have sum: "fold_with ((inst_of MIR_ADD (Some usize_type) 2 sample_span)\<lparr>mi_args := [OPERAND_VALUE 0, OPERAND_VALUE 1]\<rparr>)
      [?c 2147483647, ?c 1] =
      Some ((literal usize_type 2 18446744071562067968)\<lparr>mi_args := [OPERAND_VALUE 0, OPERAND_VALUE 1]\<rparr>)"
    by (simp add: fold_with_def fold_binary_def fold_int_binary_def constant_is_int_def constant_int_def
        usize_type_def literal_def inst_of_def)
  have folded: "snd (fold_blocks [Some (?c 2147483647), Some (?c 1), None, None] (mf_blocks (adding usize_type 2147483647 1))) =
     [[literal usize_type 0 2147483647, literal usize_type 1 1, literal usize_type 2 18446744071562067968, ?ret]]"
    using sum by (simp add: adding_def fold_inst_def known_operand_def mir_value_is_none_def literal_def inst_of_def
        fold_with_def)
  have "mf_blocks (mir_fold (adding usize_type 2147483647 1)) = [[literal usize_type 2 18446744071562067968, ?ret]]"
    unfolding mir_fold_def known folded
    by (simp add: drop_unread_constants_def read_flags_def constant_is_unread_def inst_read_values_def adding_defs)
  then show "\<exists>env. run_path returning (mir_fold (adding usize_type 2147483647 1)) [0] (\<lambda>_. None, []) =
      Some (env, [Some (RUsize 18446744071562067968)])"
    by (simp add: run_path_def run_inst_def set_result_def constant_value_def usize_type_def adding_defs)
qed

end
