(* ===== verification/Mir_State.thy ===== *)
theory Mir_State
  imports Mir "HOL-Library.AList"
begin

text \<open>
  What the borrow checker knows of each value: \<^verbatim>\<open>src/mir/mir_state.h\<close> and \<^verbatim>\<open>src/mir/mir_state.c\<close>.
  A slot is a tree that mirrors the fields of a value; its arrays are lists, so the copies the C
  code makes before it writes are the identity.  The hash map from values to slots is the list of
  its entries, whose order none of the operations depends on; \<open>state_ok\<close> says that a key occurs once.
\<close>

section \<open>Slots\<close>

datatype slot_init =
  MIR_SLOT_UNREACHED | MIR_SLOT_UNINIT | MIR_SLOT_MOVED | MIR_SLOT_DANGLING | MIR_SLOT_INIT

fun init_rank :: "slot_init \<Rightarrow> nat" where
  "init_rank MIR_SLOT_UNREACHED = 0"
| "init_rank MIR_SLOT_UNINIT = 1"
| "init_rank MIR_SLOT_MOVED = 2"
| "init_rank MIR_SLOT_DANGLING = 3"
| "init_rank MIR_SLOT_INIT = 4"

datatype mir_slot = Slot (sl_init: slot_init) (sl_borrows: "nat list") (sl_fields: "mir_slot list")

definition bare_slot :: "slot_init \<Rightarrow> mir_slot" where
  "bare_slot i = Slot i [] []"

fun set_init :: "slot_init \<Rightarrow> mir_slot \<Rightarrow> mir_slot" where
  "set_init i (Slot _ bs fs) = Slot i bs fs"

definition mir_slot_borrows_from :: "mir_slot \<Rightarrow> nat \<Rightarrow> bool" where
  "mir_slot_borrows_from s v \<longleftrightarrow> v \<in> set (sl_borrows s)"

definition mir_slot_add_borrow :: "nat \<Rightarrow> mir_slot \<Rightarrow> mir_slot" where
  "mir_slot_add_borrow v s =
     (if mir_value_is_none v \<or> mir_slot_borrows_from s v then s
      else Slot (sl_init s) (sl_borrows s @ [v]) (sl_fields s))"

definition mir_slot_open_fields :: "nat \<Rightarrow> mir_slot \<Rightarrow> mir_slot" where
  "mir_slot_open_fields count s =
     (if count = 0 \<or> length (sl_fields s) \<ge> count then s
      else Slot (sl_init s) (sl_borrows s)
             (sl_fields s @ replicate (count - length (sl_fields s)) (bare_slot (sl_init s))))"

definition flatten_field :: "mir_slot \<Rightarrow> mir_slot \<Rightarrow> mir_slot" where
  "flatten_field field flat =
     fold mir_slot_add_borrow (sl_borrows field)
       (if sl_init flat = MIR_SLOT_INIT \<and> sl_init field = MIR_SLOT_DANGLING then set_init MIR_SLOT_DANGLING flat else flat)"

fun mir_slot_flattened :: "mir_slot \<Rightarrow> mir_slot" where
  "mir_slot_flattened (Slot i bs fs) =
     fold flatten_field (map mir_slot_flattened fs) (fold mir_slot_add_borrow bs (bare_slot i))"

fun mir_slot_set_all :: "slot_init \<Rightarrow> mir_slot \<Rightarrow> mir_slot" where
  "mir_slot_set_all i (Slot _ bs fs) = Slot i bs (map (mir_slot_set_all i) fs)"

fun slot_invalidate_borrows_of :: "nat \<Rightarrow> mir_slot \<Rightarrow> mir_slot" where
  "slot_invalidate_borrows_of v (Slot i bs fs) =
     Slot (if i = MIR_SLOT_INIT \<and> v \<in> set bs then MIR_SLOT_DANGLING else i) bs
       (map (slot_invalidate_borrows_of v) fs)"

text \<open>A field that a slot does not track stands for the slot's own state.\<close>

definition slot_field :: "mir_slot \<Rightarrow> nat \<Rightarrow> mir_slot" where
  "slot_field s i = (if i < length (sl_fields s) then sl_fields s ! i else bare_slot (sl_init s))"

lemma size_nth_fields: "i < length (sl_fields s) \<Longrightarrow> size (sl_fields s ! i) < size s"
  by (cases s) (auto dest!: nth_mem size_list_estimation' [where f = size, OF _ order_refl])

lemma size_slot_field: "size (slot_field s i) \<le> size s"
  using size_nth_fields [of i s] by (cases s) (auto simp: slot_field_def bare_slot_def)

lemma size_slot_fields:
  assumes "i < max (length (sl_fields a)) (length (sl_fields b))"
  shows "size (slot_field a i) + size (slot_field b i) < size a + size b"
  using assms size_slot_field [of a i] size_slot_field [of b i] size_nth_fields [of i a] size_nth_fields [of i b]
  by (force simp: slot_field_def split: if_splits)

function slot_merge :: "mir_slot \<Rightarrow> mir_slot \<Rightarrow> mir_slot" where
  "slot_merge a b =
     (if sl_init a = MIR_SLOT_UNREACHED then b
      else if sl_init b = MIR_SLOT_UNREACHED then a
      else Slot (if init_rank (sl_init b) < init_rank (sl_init a) then sl_init b else sl_init a)
             (sl_borrows (fold mir_slot_add_borrow (sl_borrows b) a))
             (map (\<lambda>i. slot_merge (slot_field a i) (slot_field b i))
                [0..<max (length (sl_fields a)) (length (sl_fields b))]))"
  by pat_completeness auto
termination by (relation "measure (\<lambda>(a, b). size a + size b)") (auto intro: size_slot_fields)

declare slot_merge.simps [simp del]

fun slot_equals :: "mir_slot \<Rightarrow> mir_slot \<Rightarrow> bool" and slots_equal :: "mir_slot list \<Rightarrow> mir_slot list \<Rightarrow> bool" where
  "slot_equals (Slot i bs fs) (Slot j cs gs) \<longleftrightarrow>
     i = j \<and> length bs = length cs \<and> length fs = length gs \<and> list_all (\<lambda>v. v \<in> set cs) bs \<and> slots_equal fs gs"
| "slots_equal (f # fs) (g # gs) \<longleftrightarrow> slot_equals f g \<and> slots_equal fs gs"
| "slots_equal _ _ \<longleftrightarrow> True"

section \<open>States\<close>

record mir_state =
  st_slots :: "(nat \<times> mir_slot) list"
  st_unreachable :: bool

definition state_ok :: "mir_state \<Rightarrow> bool" where
  "state_ok st \<longleftrightarrow> distinct (map fst (st_slots st))"

definition mir_state_init :: mir_state where
  "mir_state_init = \<lparr>st_slots = [], st_unreachable = False\<rparr>"

definition mir_state_get :: "mir_state \<Rightarrow> nat \<Rightarrow> mir_slot" where
  "mir_state_get st v =
     (case map_of (st_slots st) v of Some s \<Rightarrow> s | None \<Rightarrow> bare_slot MIR_SLOT_UNREACHED)"

definition mir_state_set :: "nat \<Rightarrow> mir_slot \<Rightarrow> mir_state \<Rightarrow> mir_state" where
  "mir_state_set v s st = st\<lparr>st_slots := AList.update v s (st_slots st)\<rparr>"

definition mir_state_copy :: "mir_state \<Rightarrow> mir_state" where
  "mir_state_copy from =
     \<lparr>st_slots = fold (\<lambda>(v, s) into. if map_of into v = None then AList.update v s into else into) (st_slots from) [],
      st_unreachable = st_unreachable from\<rparr>"

definition mir_state_merge :: "mir_state \<Rightarrow> mir_state \<Rightarrow> mir_state" where
  "mir_state_merge st other =
     (if st_unreachable other then st
      else if st_unreachable st then mir_state_copy other
      else fold (\<lambda>(v, s) st. mir_state_set v (slot_merge (mir_state_get st v) s) st) (st_slots other) st)"

definition mir_state_invalidate_borrows_of :: "nat \<Rightarrow> mir_state \<Rightarrow> mir_state" where
  "mir_state_invalidate_borrows_of v st =
     st\<lparr>st_slots := map (\<lambda>(u, s). (u, slot_invalidate_borrows_of v s)) (st_slots st)\<rparr>"

definition state_contained_by :: "mir_state \<Rightarrow> mir_state \<Rightarrow> bool" where
  "state_contained_by a b \<longleftrightarrow> list_all (\<lambda>(v, s). slot_equals s (mir_state_get b v)) (st_slots a)"

definition mir_state_equals :: "mir_state \<Rightarrow> mir_state \<Rightarrow> bool" where
  "mir_state_equals a b \<longleftrightarrow>
     st_unreachable a = st_unreachable b \<and> state_contained_by a b \<and> state_contained_by b a"

section \<open>Reading the operations\<close>

lemma mir_state_get_set [simp]:
  "mir_state_get (mir_state_set v s st) u = (if u = v then s else mir_state_get st u)"
  by (simp add: mir_state_get_def mir_state_set_def update_conv)

lemma state_ok_set [simp]: "state_ok st \<Longrightarrow> state_ok (mir_state_set v s st)"
  by (simp add: state_ok_def mir_state_set_def distinct_update)

lemma mir_state_get_invalidate:
  "mir_state_get (mir_state_invalidate_borrows_of v st) u = slot_invalidate_borrows_of v (mir_state_get st u)"
proof -
  have "map_of (map (\<lambda>(u, s). (u, f s)) xs) u = map_option f (map_of xs u)" for f and xs :: "(nat \<times> mir_slot) list"
    by (induction xs) auto
  from this [of "slot_invalidate_borrows_of v" "st_slots st"] show ?thesis
    by (cases "map_of (st_slots st) u") (simp_all add: mir_state_get_def mir_state_invalidate_borrows_of_def bare_slot_def)
qed

lemma state_ok_invalidate [simp]: "state_ok (mir_state_invalidate_borrows_of v st) = state_ok st"
  by (simp add: state_ok_def mir_state_invalidate_borrows_of_def comp_def case_prod_beta)

lemma mir_state_copy_id:
  assumes "state_ok st"
  shows "mir_state_copy st = st"
proof -
  have "fold (\<lambda>(v, s) into. if map_of into v = None then AList.update v s into else into) xs ys = ys @ xs"
    if "distinct (map fst (ys @ xs))" for ys xs :: "(nat \<times> mir_slot) list"
    using that
  proof (induction xs arbitrary: ys)
    case (Cons x xs)
    obtain v s where x: "x = (v, s)" by fastforce
    have v: "v \<notin> fst ` set ys" using Cons.prems x by auto
    then have "map_of ys v = None" by (simp add: map_of_eq_None_iff)
    moreover have "AList.update v s ys = ys @ [(v, s)]" using v by (induction ys) auto
    ultimately show ?case using Cons x by simp
  qed simp
  from this [of "[]" "st_slots st"] show ?thesis using assms by (simp add: mir_state_copy_def state_ok_def)
qed

end
