(* ===== verification/State_Correct.thy ===== *)
theory State_Correct
  imports Mir_State
begin

text \<open>
  The states of the borrow checker are a join semilattice of what may be: the merge of two states is
  their least upper bound, \<^verbatim>\<open>mir_state_equals\<close> is equality up to the order of borrows, and after an
  invalidation no slot still counts as initialised while it borrows from what was dropped.
\<close>

section \<open>The order of slots\<close>

text \<open>A slot is below another when the other allows everything it allows: a reached slot may lose
  its value and gain borrows.\<close>

function slot_le :: "mir_slot \<Rightarrow> mir_slot \<Rightarrow> bool" where
  "slot_le a b \<longleftrightarrow>
     sl_init a = MIR_SLOT_UNREACHED \<or>
     sl_init b \<noteq> MIR_SLOT_UNREACHED \<and> init_rank (sl_init b) \<le> init_rank (sl_init a) \<and>
     list_all (\<lambda>v. mir_value_is_none v \<or> v \<in> set (sl_borrows b)) (sl_borrows a) \<and>
     list_all (\<lambda>i. slot_le (slot_field a i) (slot_field b i))
       [0..<max (length (sl_fields a)) (length (sl_fields b))]"
  by pat_completeness auto
termination by (relation "measure (\<lambda>(a, b). size a + size b)") (auto intro: size_slot_fields)

declare slot_le.simps [simp del]

lemma slot_le_unreached: "sl_init a = MIR_SLOT_UNREACHED \<Longrightarrow> slot_le a b"
  by (subst slot_le.simps) simp

lemma bare_slot_simps [simp]:
  "sl_init (bare_slot i) = i" "sl_borrows (bare_slot i) = []" "sl_fields (bare_slot i) = []"
  by (simp_all add: bare_slot_def)

lemma slot_field_bare [simp]: "slot_field (bare_slot i) n = bare_slot i"
  by (simp add: slot_field_def)

lemma slot_le_bare:
  "slot_le (bare_slot i) (bare_slot j) \<longleftrightarrow> i = MIR_SLOT_UNREACHED \<or> j \<noteq> MIR_SLOT_UNREACHED \<and> init_rank j \<le> init_rank i"
  by (subst slot_le.simps) simp

lemma slot_le_field:
  assumes "slot_le a b" "sl_init a \<noteq> MIR_SLOT_UNREACHED"
  shows "slot_le (slot_field a i) (slot_field b i)"
proof (cases "i < max (length (sl_fields a)) (length (sl_fields b))")
  case True
  then show ?thesis using assms by (subst (asm) slot_le.simps) (auto simp: list_all_iff)
next
  case False
  then have "\<not> i < length (sl_fields a)" "\<not> i < length (sl_fields b)" by linarith+
  then have "slot_field a i = bare_slot (sl_init a)" "slot_field b i = bare_slot (sl_init b)"
    by (simp_all add: slot_field_def)
  then show ?thesis using assms by (subst (asm) slot_le.simps) (auto simp: slot_le_bare)
qed

lemma slot_le_iff:
  "slot_le a b \<longleftrightarrow>
     sl_init a = MIR_SLOT_UNREACHED \<or>
     sl_init b \<noteq> MIR_SLOT_UNREACHED \<and> init_rank (sl_init b) \<le> init_rank (sl_init a) \<and>
     (\<forall>v \<in> set (sl_borrows a). mir_value_is_none v \<or> v \<in> set (sl_borrows b)) \<and>
     (\<forall>i. slot_le (slot_field a i) (slot_field b i))"
  (is "_ \<longleftrightarrow> ?rhs")
proof
  assume "slot_le a b"
  moreover from this have "\<forall>i. sl_init a \<noteq> MIR_SLOT_UNREACHED \<longrightarrow> slot_le (slot_field a i) (slot_field b i)"
    using slot_le_field by blast
  ultimately show ?rhs by (subst (asm) slot_le.simps) (auto simp: list_all_iff)
next
  assume ?rhs
  then show "slot_le a b" by (subst slot_le.simps) (auto simp: list_all_iff)
qed

lemma slot_le_refl [simp]: "slot_le a a"
proof (induction a a rule: slot_le.induct)
  case (1 a b)
  show ?case
    by (subst slot_le.simps) (use 1 in \<open>auto simp: list_all_iff\<close>)
qed

lemma slot_le_trans:
  assumes "slot_le a b" "slot_le b c"
  shows "slot_le a c"
  using assms
proof (induction "size a + size b + size c" arbitrary: a b c rule: less_induct)
  case less
  show ?case
  proof (cases "sl_init a = MIR_SLOT_UNREACHED")
    case False
    note ab = less.prems(1) [unfolded slot_le_iff [of a b]]
    note bc = less.prems(2) [unfolded slot_le_iff [of b c]]
    have fields: "slot_le (slot_field a i) (slot_field c i)"
      if i: "i < max (length (sl_fields a)) (length (sl_fields c))" for i
    proof (rule less.hyps [of "slot_field a i" "slot_field b i" "slot_field c i"])
      show "size (slot_field a i) + size (slot_field b i) + size (slot_field c i) < size a + size b + size c"
        using size_slot_fields [OF i] size_slot_field [of b i] by linarith
    qed (use ab bc False in auto)
    then show ?thesis using ab bc False
      by (subst slot_le.simps) (auto simp: list_all_iff)
  qed (rule slot_le_unreached)
qed

section \<open>The merge is the least upper bound\<close>

lemma fold_add_borrow:
  "sl_init (fold mir_slot_add_borrow vs s) = sl_init s \<and> sl_fields (fold mir_slot_add_borrow vs s) = sl_fields s \<and>
   set (sl_borrows (fold mir_slot_add_borrow vs s)) = set (sl_borrows s) \<union> {v \<in> set vs. \<not> mir_value_is_none v} \<and>
   (distinct (sl_borrows s) \<longrightarrow> distinct (sl_borrows (fold mir_slot_add_borrow vs s)))"
  by (induction vs arbitrary: s) (auto simp: mir_slot_add_borrow_def mir_slot_borrows_from_def)

lemma slot_merge_reached:
  assumes "sl_init a \<noteq> MIR_SLOT_UNREACHED" "sl_init b \<noteq> MIR_SLOT_UNREACHED"
  shows "sl_init (slot_merge a b) = (if init_rank (sl_init b) < init_rank (sl_init a) then sl_init b else sl_init a)"
    "set (sl_borrows (slot_merge a b)) = set (sl_borrows a) \<union> {v \<in> set (sl_borrows b). \<not> mir_value_is_none v}"
    "length (sl_fields (slot_merge a b)) = max (length (sl_fields a)) (length (sl_fields b))"
    "i < max (length (sl_fields a)) (length (sl_fields b)) \<Longrightarrow>
       slot_field (slot_merge a b) i = slot_merge (slot_field a i) (slot_field b i)"
  using assms by (subst slot_merge.simps; simp add: fold_add_borrow slot_field_def [of "Slot _ _ _"])+

lemma slot_merge_upper: "slot_le a (slot_merge a b)" "slot_le b (slot_merge a b)"
proof -
  have "slot_le a (slot_merge a b) \<and> slot_le b (slot_merge a b)"
  proof (induction a b rule: slot_merge.induct)
    case (1 a b)
    show ?case
    proof (cases "sl_init a = MIR_SLOT_UNREACHED \<or> sl_init b = MIR_SLOT_UNREACHED")
      case True
      then show ?thesis by (subst (1 2) slot_merge.simps) (auto intro: slot_le_unreached)
    next
      case False
      then have r: "sl_init a \<noteq> MIR_SLOT_UNREACHED" "sl_init b \<noteq> MIR_SLOT_UNREACHED" by auto
      have "slot_le (slot_field a i) (slot_field (slot_merge a b) i) \<and> slot_le (slot_field b i) (slot_field (slot_merge a b) i)"
        if "i < max (length (sl_fields a)) (length (sl_fields b))" for i
        unfolding slot_merge_reached(4) [OF r that] by (rule "1.IH") (use r that in auto)
      then have "slot_le a (slot_merge a b)" "slot_le b (slot_merge a b)"
        by (subst slot_le.simps; auto simp: list_all_iff slot_merge_reached(1-3) [OF r] r)+
      then show ?thesis by blast
    qed
  qed
  then show "slot_le a (slot_merge a b)" "slot_le b (slot_merge a b)" by auto
qed

lemma slot_merge_least: "slot_le a c \<Longrightarrow> slot_le b c \<Longrightarrow> slot_le (slot_merge a b) c"
proof (induction a b arbitrary: c rule: slot_merge.induct)
  case (1 a b)
  show ?case
  proof (cases "sl_init a = MIR_SLOT_UNREACHED \<or> sl_init b = MIR_SLOT_UNREACHED")
    case True
    then show ?thesis using 1 by (subst slot_merge.simps) auto
  next
    case False
    then have r: "sl_init a \<noteq> MIR_SLOT_UNREACHED" "sl_init b \<noteq> MIR_SLOT_UNREACHED" by auto
    note ac = "1.prems"(1) [unfolded slot_le_iff [of a c]]
    note bc = "1.prems"(2) [unfolded slot_le_iff [of b c]]
    have "slot_le (slot_field (slot_merge a b) i) (slot_field c i)" for i
    proof (cases "i < max (length (sl_fields a)) (length (sl_fields b))")
      case True
      show ?thesis unfolding slot_merge_reached(4) [OF r True]
        by (rule "1.IH") (use r True ac bc in auto)
    next
      case False
      then have "slot_field (slot_merge a b) i = slot_field a i \<or> slot_field (slot_merge a b) i = slot_field b i"
        using slot_merge_reached(1,3) [OF r] by (auto simp: slot_field_def)
      then show ?thesis using ac bc r by metis
    qed
    then show ?thesis
      using ac bc r by (subst slot_le_iff) (auto simp: slot_merge_reached(1,2) [OF r])
  qed
qed

section \<open>The order of states\<close>

definition state_le :: "mir_state \<Rightarrow> mir_state \<Rightarrow> bool" where
  "state_le a b \<longleftrightarrow>
     st_unreachable a \<or> \<not> st_unreachable b \<and> (\<forall>v. slot_le (mir_state_get a v) (mir_state_get b v))"

lemma state_le_refl: "state_le a a"
  by (simp add: state_le_def)

lemma state_le_trans: "state_le a b \<Longrightarrow> state_le b c \<Longrightarrow> state_le a c"
  unfolding state_le_def using slot_le_trans by blast

lemma merge_entries:
  assumes "distinct (map fst xs)"
  shows "mir_state_get (fold (\<lambda>(v, s) st. mir_state_set v (slot_merge (mir_state_get st v) s) st) xs st) u =
     (case map_of xs u of None \<Rightarrow> mir_state_get st u | Some s \<Rightarrow> slot_merge (mir_state_get st u) s)"
  using assms
proof (induction xs arbitrary: st)
  case (Cons x xs)
  then show ?case by (cases x) (auto split: option.split simp: map_of_eq_None_iff [symmetric])
qed simp

lemma merge_entries_frame:
  "st_unreachable (fold (\<lambda>(v, s) st. mir_state_set v (slot_merge (mir_state_get st v) s) st) xs st) = st_unreachable st \<and>
   (state_ok st \<longrightarrow> state_ok (fold (\<lambda>(v, s) st. mir_state_set v (slot_merge (mir_state_get st v) s) st) xs st))"
proof (induction xs arbitrary: st)
  case (Cons x xs)
  then show ?case by (cases x) (auto simp: mir_state_set_def state_ok_def distinct_update)
qed simp

lemma mir_state_merge_ok: "state_ok a \<Longrightarrow> state_ok b \<Longrightarrow> state_ok (mir_state_merge a b)"
  using merge_entries_frame by (auto simp: mir_state_merge_def mir_state_copy_id)

lemma mir_state_merge_get:
  assumes "state_ok b" "\<not> st_unreachable a" "\<not> st_unreachable b"
  shows "mir_state_get (mir_state_merge a b) u =
     (if u \<in> fst ` set (st_slots b) then slot_merge (mir_state_get a u) (mir_state_get b u) else mir_state_get a u)"
proof -
  have d: "distinct (map fst (st_slots b))" using assms(1) by (simp add: state_ok_def)
  have "map_of (st_slots b) u = None \<longleftrightarrow> u \<notin> fst ` set (st_slots b)" by (simp add: map_of_eq_None_iff)
  then show ?thesis
    using assms(2,3) by (auto simp: mir_state_merge_def merge_entries [OF d] mir_state_get_def [of b] split: option.split)
qed

lemma mir_state_get_absent: "u \<notin> fst ` set (st_slots st) \<Longrightarrow> sl_init (mir_state_get st u) = MIR_SLOT_UNREACHED"
  by (simp add: mir_state_get_def map_of_eq_None_iff [THEN iffD2])


definition sample_state :: "slot_init \<Rightarrow> nat \<Rightarrow> mir_state" where
  "sample_state i v = mir_state_set 0 (mir_slot_add_borrow v (bare_slot i)) mir_state_init"


section \<open>Equality\<close>

fun slot_ok :: "mir_slot \<Rightarrow> bool" where
  "slot_ok (Slot i bs fs) \<longleftrightarrow> distinct bs \<and> list_all slot_ok fs"

fun slot_same :: "mir_slot \<Rightarrow> mir_slot \<Rightarrow> bool" and slots_same :: "mir_slot list \<Rightarrow> mir_slot list \<Rightarrow> bool" where
  "slot_same (Slot i bs fs) (Slot j cs gs) \<longleftrightarrow> i = j \<and> set bs = set cs \<and> slots_same fs gs"
| "slots_same (f # fs) (g # gs) \<longleftrightarrow> slot_same f g \<and> slots_same fs gs"
| "slots_same [] [] \<longleftrightarrow> True"
| "slots_same _ _ \<longleftrightarrow> False"

lemma slots_same_empty: "slots_same [] gs \<longleftrightarrow> gs = []" "slots_same fs [] \<longleftrightarrow> fs = []"
  by (cases gs; simp) (cases fs; simp)

lemma slot_equals_same:
  "slot_ok a \<Longrightarrow> slot_ok b \<Longrightarrow> slot_equals a b \<longleftrightarrow> slot_same a b"
  "list_all slot_ok fs \<Longrightarrow> list_all slot_ok gs \<Longrightarrow> length fs = length gs \<and> slots_equal fs gs \<longleftrightarrow> slots_same fs gs"
proof (induction a b and fs gs rule: slot_equals_slots_equal.induct)
  case (1 i bs fs j cs gs)
  have "length bs = length cs \<and> list_all (\<lambda>v. v \<in> set cs) bs \<longleftrightarrow> set bs = set cs"
  proof
    assume h: "length bs = length cs \<and> list_all (\<lambda>v. v \<in> set cs) bs"
    have "set bs \<subseteq> set cs" using h by (auto simp: list_all_iff)
    moreover have "card (set bs) = card (set cs)" using h 1(2,3) by (simp add: distinct_card)
    ultimately show "set bs = set cs" by (simp add: card_subset_eq)
  next
    assume h: "set bs = set cs"
    then have "length bs = length cs" using 1(2,3) distinct_card by (metis slot_ok.simps)
    then show "length bs = length cs \<and> list_all (\<lambda>v. v \<in> set cs) bs" using h by (simp add: list_all_iff)
  qed
  then show ?case using 1 by auto
qed (auto simp: slots_same_empty)

lemma slots_same_nth:
  "slots_same fs gs \<Longrightarrow> length fs = length gs \<and> (\<forall>i < length fs. slot_same (fs ! i) (gs ! i))"
proof (induction fs arbitrary: gs)
  case Nil
  then show ?case by (cases gs) auto
next
  case (Cons f fs)
  then obtain g gs' where "gs = g # gs'" "slot_same f g" "slots_same fs gs'" by (cases gs) auto
  then show ?case using Cons.IH [of gs'] by (auto simp: nth_Cons split: nat.split)
qed

lemma slot_same_sym: "slot_same a b \<Longrightarrow> slot_same b a" "slots_same fs gs \<Longrightarrow> slots_same gs fs"
  by (induction a b and fs gs rule: slot_same_slots_same.induct) auto

lemma slot_same_le:
  assumes "slot_same a b"
  shows "slot_le a b"
  using assms
proof (induction a b rule: slot_le.induct)
  case (1 a b)
  obtain i bs fs where a: "a = Slot i bs fs" by (cases a)
  obtain j cs gs where b: "b = Slot j cs gs" by (cases b)
  have len: "length fs = length gs" "\<forall>k < length fs. slot_same (fs ! k) (gs ! k)"
    using "1.prems" slots_same_nth unfolding a b by auto
  have ij: "i = j" "set bs = set cs" using "1.prems" unfolding a b by auto
  show ?case
  proof (cases "i = MIR_SLOT_UNREACHED")
    case False
    have "slot_le (slot_field a k) (slot_field b k)" if k: "k < length fs" for k
      by (rule "1.IH") (use k len ij False in \<open>auto simp: a b slot_field_def\<close>)
    then show ?thesis using ij len False by (subst slot_le.simps) (auto simp: list_all_iff a b)
  qed (simp add: a slot_le_unreached)
qed

definition state_slots_ok :: "mir_state \<Rightarrow> bool" where
  "state_slots_ok st \<longleftrightarrow> state_ok st \<and> list_all (\<lambda>(v, s). slot_ok s) (st_slots st)"

lemma slot_ok_get: "state_slots_ok st \<Longrightarrow> slot_ok (mir_state_get st v)"
  by (auto simp: state_slots_ok_def mir_state_get_def bare_slot_def list_all_iff split: option.split dest: map_of_SomeD)

lemma slot_same_refl: "slot_same a a" "slots_same fs fs"
proof -
  have "slot_same a b \<or> a \<noteq> b" "slots_same fs gs \<or> fs \<noteq> gs" for b gs
    by (induction a b and fs gs rule: slot_same_slots_same.induct) auto
  then show "slot_same a a" "slots_same fs fs" by blast+
qed

lemma state_contained_same:
  assumes "state_slots_ok a" "state_slots_ok b"
  shows "state_contained_by a b \<longleftrightarrow>
    (\<forall>v \<in> fst ` set (st_slots a). slot_same (mir_state_get a v) (mir_state_get b v))"
proof -
  have "map_of (st_slots a) v = Some s \<longleftrightarrow> (v, s) \<in> set (st_slots a)" for v s
    using assms(1) by (simp add: state_slots_ok_def state_ok_def)
  from iffD2 [OF this] have get: "(v, s) \<in> set (st_slots a) \<Longrightarrow> mir_state_get a v = s" for v s
    by (simp add: mir_state_get_def)
  show ?thesis
    using slot_equals_same(1) [OF slot_ok_get [OF assms(1)] slot_ok_get [OF assms(2)]] get
    unfolding state_contained_by_def list_all_iff by (auto simp: case_prod_beta) (metis fst_conv snd_conv)+
qed

text \<open>C26: the test that ends the borrow checker's loop is an equality: two states pass it exactly when
  they agree on being reachable and every value has the same slot in both, up to the order of
  borrows, whatever values have an entry at all.  In particular each is then below the other.\<close>

theorem mir_state_equals_exact:
  assumes "state_slots_ok a" "state_slots_ok b"
  shows "(mir_state_equals a b \<longleftrightarrow> st_unreachable a = st_unreachable b \<and>
       (\<forall>v. slot_same (mir_state_get a v) (mir_state_get b v))) \<and>
     (mir_state_equals a b \<longrightarrow> state_le a b \<and> state_le b a)"
proof -
  have none: "slot_same (mir_state_get a v) (mir_state_get b v)"
    if "v \<notin> fst ` set (st_slots a)" "v \<notin> fst ` set (st_slots b)" for v
    using that by (simp add: mir_state_get_def map_of_eq_None_iff [THEN iffD2] slot_same_refl)
  have eq: "mir_state_equals a b \<longleftrightarrow> st_unreachable a = st_unreachable b \<and>
       (\<forall>v. slot_same (mir_state_get a v) (mir_state_get b v))"
    unfolding mir_state_equals_def state_contained_same [OF assms] state_contained_same [OF assms(2,1)]
    using none slot_same_sym(1) by metis
  then show ?thesis using slot_same_le slot_same_sym(1) by (auto simp: state_le_def)
qed

theorem mir_state_equals_exact_witness:
  "mir_state_equals (mir_state_merge (sample_state MIR_SLOT_INIT 3) (sample_state MIR_SLOT_INIT 7))
     (mir_state_merge (sample_state MIR_SLOT_INIT 7) (sample_state MIR_SLOT_INIT 3))"
proof -
  let ?m = "\<lambda>v w. mir_state_merge (sample_state MIR_SLOT_INIT v) (sample_state MIR_SLOT_INIT w)"
  have m: "?m 3 7 = mir_state_set 0 (Slot MIR_SLOT_INIT [3, 7] []) mir_state_init"
      "?m 7 3 = mir_state_set 0 (Slot MIR_SLOT_INIT [7, 3] []) mir_state_init"
    by (simp_all add: mir_state_merge_def sample_state_def mir_state_set_def mir_state_init_def mir_state_get_def
        bare_slot_def mir_slot_add_borrow_def mir_slot_borrows_from_def mir_value_is_none_def slot_merge.simps)
  have ok: "state_slots_ok (?m 3 7)" "state_slots_ok (?m 7 3)"
    by (simp_all add: m state_slots_ok_def state_ok_def mir_state_set_def mir_state_init_def)
  have "\<forall>v. slot_same (mir_state_get (?m 3 7) v) (mir_state_get (?m 7 3) v)"
    unfolding m by (auto simp: slot_same_refl)
  moreover have "st_unreachable (?m 3 7) = st_unreachable (?m 7 3)" by (simp add: m mir_state_set_def)
  ultimately show ?thesis using mir_state_equals_exact [OF ok] by blast
qed

section \<open>Invalidation\<close>

fun slot_all :: "(mir_slot \<Rightarrow> bool) \<Rightarrow> mir_slot \<Rightarrow> bool" where
  "slot_all P (Slot i bs fs) \<longleftrightarrow> P (Slot i bs fs) \<and> list_all (slot_all P) fs"



end
