(* ===== verification/Decls.thy ===== *)
theory Decls
  imports Type_Registry
begin

text \<open>
  Declarations of functions and interfaces (\<^verbatim>\<open>src/decl.h\<close>), the instantiation of signatures at the
  end of \<^verbatim>\<open>src/scope.c\<close>, and the registry of functions (\<^verbatim>\<open>src/function_registry.c\<close>).  A \<^verbatim>\<open>Function *\<close> is
  an index into the list of all function objects; a \<^verbatim>\<open>FuncDecl\<close> is immutable and stands by value, an
  interface for its index.  The two hash tables of the registry are lists of their entries, looked up
  with the equality of their keys.  \<open>None\<close> is a failed assertion.
\<close>

section \<open>Declarations\<close>

datatype linkage = LINKAGE_INTERNAL | LINKAGE_GAB | LINKAGE_C

definition FUNC_MOD_NONE :: "32 word" where "FUNC_MOD_NONE = 0"
definition FUNC_MOD_INTRINSIC :: "32 word" where "FUNC_MOD_INTRINSIC = 1"
definition FUNC_MOD_CALLER :: "32 word" where "FUNC_MOD_CALLER = 2"

record func_signature =
  fs_return :: "gtype option"
  fs_params :: "gtype option list"

record interface_ref =
  if_interface :: nat
  if_args :: "type_arg list"

datatype type_param_bound = BOUND_NONE | BOUND_INTERFACE interface_ref | BOUND_VALUE "gtype option"

record func_decl =
  fd_id :: decl_id
  fd_interface :: "nat option"
  fd_linkage :: linkage
  fd_modifiers :: "32 word"
  fd_location_type :: "gtype option"
  fd_signature :: func_signature
  fd_type_param_count :: nat
  fd_type_param_bounds :: "type_param_bound list"

record interface_decl =
  in_id :: decl_id
  in_methods :: "func_decl list"
  in_param_count :: nat

record gfunction =
  fn_decl :: func_decl
  fn_signature :: func_signature
  fn_type_args :: "type_arg list"
  fn_borrowed_params :: "32 word"
  fn_borrowed_params_known :: bool

definition function_lowers_no_body :: "gfunction \<Rightarrow> bool" where
  "function_lowers_no_body f \<longleftrightarrow>
     fd_linkage (fn_decl f) \<noteq> LINKAGE_INTERNAL \<or> fd_modifiers (fn_decl f) AND FUNC_MOD_INTRINSIC \<noteq> 0"

section \<open>Signatures and instances\<close>

fun substitute_all :: "type_registry \<Rightarrow> gtype option list \<Rightarrow> type_arg list \<Rightarrow> gtype option list option" where
  "substitute_all reg [] args = Some []"
| "substitute_all reg (t # ts) args =
     do { u \<leftarrow> type_registry_substitute reg t args; us \<leftarrow> substitute_all reg ts args; Some (u # us) }"

definition func_signature_instantiate ::
  "type_registry \<Rightarrow> func_signature \<Rightarrow> type_arg list \<Rightarrow> func_signature option" where
  "func_signature_instantiate reg generic args =
     (if length args = 0 then Some generic
      else do { r \<leftarrow> type_registry_substitute reg (fs_return generic) args;
                ps \<leftarrow> substitute_all reg (fs_params generic) args;
                Some \<lparr>fs_return = r, fs_params = ps\<rparr> })"

definition instance_id_of_function :: "gfunction option \<Rightarrow> instance_id" where
  "instance_id_of_function f =
     (case f of
        None \<Rightarrow> \<lparr>ii_decl = no_decl_id, ii_args = []\<rparr>
      | Some f \<Rightarrow> instance_id_of (fd_id (fn_decl f)) (fn_type_args f))"

section \<open>The registry\<close>

record function_registry =
  fr_types :: type_registry
  fr_functions :: "gfunction list"
  fr_instances :: "(instance_id \<times> nat) list"
  fr_owned :: "(type_member_key \<times> nat) list"

definition function_registry_create :: "type_registry \<Rightarrow> function_registry" where
  "function_registry_create types =
     \<lparr>fr_types = types, fr_functions = [], fr_instances = [], fr_owned = []\<rparr>"

definition owned_key_equals :: "type_member_key \<Rightarrow> type_member_key \<Rightarrow> bool" where
  "owned_key_equals a b \<longleftrightarrow> decl_id_equals (mk_owner a) (mk_owner b) \<and> mk_name a = mk_name b"

definition owned_lookup :: "function_registry \<Rightarrow> type_member_key \<Rightarrow> nat option" where
  "owned_lookup reg key = map_option snd (find (\<lambda>(k, f). owned_key_equals k key) (fr_owned reg))"

definition instance_lookup :: "function_registry \<Rightarrow> instance_id \<Rightarrow> nat option" where
  "instance_lookup reg key = map_option snd (find (\<lambda>(k, f). instance_id_equals k key) (fr_instances reg))"

definition function_registry_declare_owned ::
  "function_registry \<Rightarrow> gtype \<Rightarrow> nat \<Rightarrow> (bool \<times> function_registry) option" where
  "function_registry_declare_owned reg t f =
     (if \<not> f < length (fr_functions reg) then None
      else case di_name (fd_id (fn_decl (fr_functions reg ! f))) of
        None \<Rightarrow> None
      | Some name \<Rightarrow>
          let key = type_member_key_of (tr_decls (fr_types reg)) t name in
          if owned_lookup reg key \<noteq> None then Some (False, reg)
          else Some (True, reg\<lparr>fr_owned := fr_owned reg @ [(key, f)]\<rparr>))"

definition function_registry_find_owned :: "function_registry \<Rightarrow> gtype option \<Rightarrow> string \<Rightarrow> nat option" where
  "function_registry_find_owned reg t name =
     (case t of
        None \<Rightarrow> None
      | Some t \<Rightarrow> owned_lookup reg (type_member_key_of (tr_decls (fr_types reg)) t name))"

definition function_registry_owned_is_shared :: "gfunction \<Rightarrow> gtype \<Rightarrow> bool" where
  "function_registry_owned_is_shared declaration t =
     (if length (ty_args t) = 0 then True
      else if list_ex type_has_param (fs_params (fn_signature declaration)) then False
      else \<not> type_has_param (fs_return (fn_signature declaration)))"

definition function_registry_destructor :: "function_registry \<Rightarrow> gtype \<Rightarrow> nat option" where
  "function_registry_destructor reg t =
     (let names = type_registry_names (fr_types reg) in
      if \<not> type_registry_conforms (fr_types reg) t (kn_destroy_interface names) [] then None
      else function_registry_find_owned reg (Some t) (kn_destroy_method names))"

definition function_registry_instance ::
  "function_registry \<Rightarrow> func_decl \<Rightarrow> type_arg list \<Rightarrow> (nat \<times> function_registry) option" where
  "function_registry_instance reg decl args =
     (let key = instance_id_of (fd_id decl) args in
      case instance_lookup reg key of
        Some f \<Rightarrow> Some (f, reg)
      | None \<Rightarrow>
          do { sig \<leftarrow> func_signature_instantiate (fr_types reg) (fd_signature decl) args;
               let f = \<lparr>fn_decl = decl, fn_signature = sig, fn_type_args = args, fn_borrowed_params = 0,
                        fn_borrowed_params_known = False\<rparr>;
                   n = length (fr_functions reg)
               in Some (n, reg\<lparr>fr_functions := fr_functions reg @ [f], fr_instances := fr_instances reg @ [(key, n)]\<rparr>) })"

definition function_registry_owned_for ::
  "function_registry \<Rightarrow> gtype option \<Rightarrow> string \<Rightarrow> (nat option \<times> function_registry) option" where
  "function_registry_owned_for reg t name =
     (case (function_registry_find_owned reg t name, t) of
        (Some f, Some u) \<Rightarrow>
          if \<not> f < length (fr_functions reg) then None
          else let declaration = fr_functions reg ! f in
            if function_registry_owned_is_shared declaration u then Some (Some f, reg)
            else if fd_type_param_count (fn_decl declaration) > length (ty_args u) then Some (Some f, reg)
            else map_option (\<lambda>(g, reg'). (Some g, reg'))
                   (function_registry_instance reg (fn_decl declaration) (ty_args u))
      | _ \<Rightarrow> Some (None, reg))"

section \<open>Instances are shared\<close>

definition instance_entry_ok :: "function_registry \<Rightarrow> instance_id \<times> nat \<Rightarrow> bool" where
  "instance_entry_ok reg = (\<lambda>(key, f). f < length (fr_functions reg) \<and>
     instance_id_of_function (Some (fr_functions reg ! f)) = key \<and>
     func_signature_instantiate (fr_types reg) (fd_signature (fn_decl (fr_functions reg ! f)))
       (fn_type_args (fr_functions reg ! f)) = Some (fn_signature (fr_functions reg ! f)))"

text \<open>Every entry leads to the function of its key, and no two keys are equal.\<close>

definition instances_ok :: "function_registry \<Rightarrow> bool" where
  "instances_ok reg \<longleftrightarrow>
     list_all (instance_entry_ok reg) (fr_instances reg) \<and>
     sorted_wrt (\<lambda>(k, _) (k', _). \<not> instance_id_equals k k') (fr_instances reg)"

lemma instance_entry_ok_grows:
  "instance_entry_ok reg e \<Longrightarrow> fr_functions reg' = fr_functions reg @ fs \<Longrightarrow> fr_types reg' = fr_types reg \<Longrightarrow>
     instance_entry_ok reg' e"
  by (auto simp: instance_entry_ok_def nth_append)

lemma find_None_all: "find P xs = None \<longleftrightarrow> (\<forall>x \<in> set xs. \<not> P x)"
  by (induction xs) auto

lemma find_appended: "\<forall>x \<in> set xs. \<not> P x \<Longrightarrow> P y \<Longrightarrow> find P (xs @ [y]) = Some y"
  by (induction xs) auto

lemma instance_lookup_None:
  "instance_lookup reg key = None \<longleftrightarrow> (\<forall>(k, f) \<in> set (fr_instances reg). \<not> instance_id_equals k key)"
  by (auto simp: instance_lookup_def find_None_all)

lemma instance_id_equals_refl:
  "type_args_equal (ii_args k) (ii_args k) \<Longrightarrow> instance_id_equals k k"
  by (simp add: instance_id_equals_def decl_id_equals_def)

text \<open>C28: asking for the instance of a declaration at some arguments keeps the registry of functions
  sound and every function it had; the answer is a function of that declaration, at arguments equal
  to those asked for, whose signature is the declaration's with them substituted; and the same
  question asked again gives the same function and makes none.  This holds for arguments that equal
  themselves (a float NaN does not) when an id belongs to one declaration.\<close>

theorem function_instance_is_shared:
  assumes "instances_ok reg" "length args \<le> GAB_MAX_TYPE_PARAMS" "type_args_equal args args"
    "\<forall>(k, g) \<in> set (fr_instances reg). \<forall>as. instance_id_equals k (instance_id_of (fd_id decl) as) \<longrightarrow>
       fn_decl (fr_functions reg ! g) = decl \<and> length (fn_type_args (fr_functions reg ! g)) \<le> GAB_MAX_TYPE_PARAMS"
    "function_registry_instance reg decl args = Some (f, reg')"
  shows "instances_ok reg' \<and> (\<exists>fs. fr_functions reg' = fr_functions reg @ fs) \<and> f < length (fr_functions reg') \<and>
     fn_decl (fr_functions reg' ! f) = decl \<and> type_args_equal (fn_type_args (fr_functions reg' ! f)) args \<and>
     func_signature_instantiate (fr_types reg) (fd_signature decl) (fn_type_args (fr_functions reg' ! f)) =
       Some (fn_signature (fr_functions reg' ! f)) \<and>
     function_registry_instance reg' decl args = Some (f, reg')"
proof -
  let ?key = "instance_id_of (fd_id decl) args"
  have key: "ii_args ?key = args" using assms(2) by (simp add: instance_id_of_def)
  show ?thesis
  proof (cases "instance_lookup reg ?key")
    case (Some g)
    then have out: "f = g" "reg' = reg" using assms(5) by (simp_all add: function_registry_instance_def)
    obtain k where k: "(k, g) \<in> set (fr_instances reg)" "instance_id_equals k ?key"
      using Some by (auto simp: instance_lookup_def find_Some_iff in_set_conv_nth) metis
    then have e: "instance_entry_ok reg (k, g)" using assms(1) by (auto simp: instances_ok_def list_all_iff)
    have decl: "fn_decl (fr_functions reg ! g) = decl" "length (fn_type_args (fr_functions reg ! g)) \<le> GAB_MAX_TYPE_PARAMS"
      using assms(4) k by blast+
    have "k = instance_id_of (fd_id decl) (fn_type_args (fr_functions reg ! g))"
      using e decl(1) by (simp add: instance_entry_ok_def instance_id_of_function_def)
    then have same: "type_args_equal (fn_type_args (fr_functions reg ! g)) args"
      using k(2) key decl(2) by (simp add: instance_id_equals_def instance_id_of_def split: if_splits)
    have g: "g < length (fr_functions reg)"
        "func_signature_instantiate (fr_types reg) (fd_signature decl) (fn_type_args (fr_functions reg ! g)) =
           Some (fn_signature (fr_functions reg ! g))"
      using e decl(1) unfolding instance_entry_ok_def by simp_all
    have "function_registry_instance reg decl args = Some (g, reg)" using assms(5) unfolding out .
    then show ?thesis unfolding out using assms(1) g decl(1) same by (intro conjI) (assumption | rule exI [of _ "[]"], simp)+
  next
    case None
    obtain sig where sig: "func_signature_instantiate (fr_types reg) (fd_signature decl) args = Some sig"
      using assms(5) None
      by (cases "func_signature_instantiate (fr_types reg) (fd_signature decl) args")
        (simp_all add: function_registry_instance_def Let_def)
    then have out: "f = length (fr_functions reg)"
        "reg' = reg\<lparr>fr_functions := fr_functions reg @ [\<lparr>fn_decl = decl, fn_signature = sig, fn_type_args = args,
             fn_borrowed_params = 0, fn_borrowed_params_known = False\<rparr>],
             fr_instances := fr_instances reg @ [(?key, length (fr_functions reg))]\<rparr>"
      using assms(5) None by (auto simp add: function_registry_instance_def Let_def)
    have new: "instance_entry_ok reg' (?key, f)"
      using sig unfolding instance_entry_ok_def prod.case out by (simp add: instance_id_of_function_def)
    have old: "instance_entry_ok reg' e" if "e \<in> set (fr_instances reg)" for e
    proof -
      have "instance_entry_ok reg e" using assms(1) that by (auto simp: instances_ok_def list_all_iff)
      then show ?thesis by (rule instance_entry_ok_grows) (simp_all add: out(2))
    qed
    have fresh: "\<forall>(k, g) \<in> set (fr_instances reg). \<not> instance_id_equals k ?key"
      using None by (simp add: instance_lookup_None)
    have ok: "instances_ok reg'"
    proof -
      have i: "fr_instances reg' = fr_instances reg @ [(?key, f)]" by (simp add: out)
      show ?thesis using assms(1) new old fresh unfolding instances_ok_def i by (auto simp: list_all_iff sorted_wrt_append)
    qed
    have "find (\<lambda>(k, g). instance_id_equals k ?key) (fr_instances reg @ [(?key, f)]) = Some (?key, f)"
      using find_appended [of "fr_instances reg" "\<lambda>(k, g). instance_id_equals k ?key" "(?key, f)"] fresh
        instance_id_equals_refl [of ?key] assms(3) key by (auto simp: case_prod_beta)
    then have "instance_lookup reg' ?key = Some f" by (simp add: instance_lookup_def out)
    then have "function_registry_instance reg' decl args = Some (f, reg')" by (simp add: function_registry_instance_def)
    moreover have "fr_functions reg' ! f = \<lparr>fn_decl = decl, fn_signature = sig, fn_type_args = args,
        fn_borrowed_params = 0, fn_borrowed_params_known = False\<rparr>" "f < length (fr_functions reg')"
        "\<exists>fs. fr_functions reg' = fr_functions reg @ fs" by (simp_all add: out)
    ultimately show ?thesis using ok sig assms(3) by simp
  qed
qed

definition sample_decl :: func_decl where
  "sample_decl = \<lparr>fd_id = no_decl_id\<lparr>di_name := Some ''f''\<rparr>, fd_interface = None, fd_linkage = LINKAGE_INTERNAL,
     fd_modifiers = FUNC_MOD_NONE, fd_location_type = None, fd_signature = \<lparr>fs_return = None, fs_params = []\<rparr>,
     fd_type_param_count = 1, fd_type_param_bounds = [BOUND_NONE]\<rparr>"

theorem function_instance_is_shared_witness:
  "\<exists>f reg. function_registry_instance (function_registry_create (type_registry_create known_names)) sample_decl
       [TYPE_ARG_TYPE None] = Some (f, reg) \<and>
     function_registry_instance reg sample_decl [TYPE_ARG_TYPE None] = Some (f, reg)"
proof -
  let ?reg = "function_registry_create (type_registry_create known_names)" and ?args = "[TYPE_ARG_TYPE None]"
  obtain f reg where run: "function_registry_instance ?reg sample_decl ?args = Some (f, reg)"
    by (simp add: function_registry_instance_def instance_lookup_def function_registry_create_def sample_decl_def
        func_signature_instantiate_def Let_def)
  have "instances_ok ?reg" "length ?args \<le> GAB_MAX_TYPE_PARAMS" "type_args_equal ?args ?args"
      "fr_instances ?reg = []"
    by (simp_all add: instances_ok_def function_registry_create_def GAB_MAX_TYPE_PARAMS_def)
  then show ?thesis using function_instance_is_shared [of ?reg ?args sample_decl f reg] run by auto
qed

end
