(* ===== verification/Scope.thy ===== *)
theory Scope
  imports Decls
begin

text \<open>
  Scopes: \<^verbatim>\<open>src/scope.h\<close> and \<^verbatim>\<open>src/scope.c\<close>.  Scopes and symbols are objects of a heap, addressed
  by their index; a scope names its parent.  A symbol table is the list of its entries, keyed by the
  interned name.  The walk to the root is a loop that ends when every parent is older than its child,
  which creation establishes.
\<close>

section \<open>State\<close>

record module_scope =
  mo_name :: string
  mo_scope :: nat

datatype symbol_shape =
  SYMBOL_VAR "gtype option" | SYMBOL_FUNC nat | SYMBOL_MODULE module_scope | SYMBOL_TYPE "gtype option"
| SYMBOL_CONST type_const | SYMBOL_TYPE_DECL nat | SYMBOL_INTERFACE nat

record symbol =
  sy_shape :: symbol_shape
  sy_pinned :: bool

datatype scope_kind = SCOPE_GLOBAL | SCOPE_MODULE | SCOPE_FILE | SCOPE_LOCAL

record scope =
  sc_symbols :: "(string \<times> nat) list"
  sc_parent :: "nat option"
  sc_kind :: scope_kind

record scopes =
  sh_scopes :: "scope list"
  sh_symbols :: "symbol list"

section \<open>Creation\<close>

definition scope_create_kind :: "nat option \<Rightarrow> scope_kind \<Rightarrow> scopes \<Rightarrow> nat \<times> scopes" where
  "scope_create_kind parent kind h =
     (length (sh_scopes h),
      h\<lparr>sh_scopes := sh_scopes h @ [\<lparr>sc_symbols = [], sc_parent = parent, sc_kind = kind\<rparr>]\<rparr>)"

definition scope_create :: "nat option \<Rightarrow> scopes \<Rightarrow> nat \<times> scopes" where
  "scope_create parent h =
     scope_create_kind parent (if parent \<noteq> None then SCOPE_LOCAL else SCOPE_GLOBAL) h"

section \<open>Lookup\<close>

definition scope_lookup_local :: "scopes \<Rightarrow> nat \<Rightarrow> string \<Rightarrow> nat option" where
  "scope_lookup_local h s name = map_of (sc_symbols (sh_scopes h ! s)) name"

partial_function (option) scope_lookup :: "scopes \<Rightarrow> nat option \<Rightarrow> string \<Rightarrow> nat option option" where
  "scope_lookup h s name =
     (case s of
        None \<Rightarrow> Some None
      | Some s \<Rightarrow>
          (case scope_lookup_local h s name of
             Some f \<Rightarrow> Some (Some f)
           | None \<Rightarrow> scope_lookup h (sc_parent (sh_scopes h ! s)) name))"

definition symbol_type :: "type_registry \<Rightarrow> symbol option \<Rightarrow> gtype option" where
  "symbol_type reg sy =
     (case sy of
        None \<Rightarrow> None
      | Some sy \<Rightarrow>
          (case sy_shape sy of
             SYMBOL_TYPE t \<Rightarrow> t
           | SYMBOL_TYPE_DECL d \<Rightarrow>
               if td_param_count (tr_decls reg ! d) = 0 then type_registry_apply reg d [] else None
           | _ \<Rightarrow> None))"

definition symbol_at :: "scopes \<Rightarrow> nat option \<Rightarrow> symbol option" where
  "symbol_at h p = map_option ((!) (sh_symbols h)) p"

definition scope_type_lookup :: "type_registry \<Rightarrow> scopes \<Rightarrow> nat option \<Rightarrow> string \<Rightarrow> gtype option option" where
  "scope_type_lookup reg h s name =
     (if s = None then Some None
      else map_option (\<lambda>f. symbol_type reg (symbol_at h f)) (scope_lookup h s name))"

partial_function (option) scope_type_lookup_declaring :: "scopes \<Rightarrow> nat option \<Rightarrow> string \<Rightarrow> nat option option" where
  "scope_type_lookup_declaring h s name =
     (case s of
        None \<Rightarrow> Some None
      | Some s \<Rightarrow>
          (case scope_lookup_local h s name of
             Some f \<Rightarrow> Some (Some f)
           | None \<Rightarrow>
               if sc_kind (sh_scopes h ! s) = SCOPE_MODULE then Some None
               else scope_type_lookup_declaring h (sc_parent (sh_scopes h ! s)) name))"

partial_function (option) scope_lookup_declaring :: "scopes \<Rightarrow> nat \<Rightarrow> string \<Rightarrow> nat option option" where
  "scope_lookup_declaring h s name =
     (case scope_lookup_local h s name of
        Some f \<Rightarrow> Some (Some f)
      | None \<Rightarrow>
          if sc_kind (sh_scopes h ! s) \<noteq> SCOPE_FILE then Some None
          else (case sc_parent (sh_scopes h ! s) of None \<Rightarrow> Some None | Some p \<Rightarrow> scope_lookup_declaring h p name))"

section \<open>Binding\<close>

definition add_symbol :: "nat \<Rightarrow> string \<Rightarrow> symbol \<Rightarrow> scopes \<Rightarrow> nat \<times> scopes" where
  "add_symbol s name sy h =
     (let n = length (sh_symbols h); sc = sh_scopes h ! s
      in (n, h\<lparr>sh_symbols := sh_symbols h @ [sy],
               sh_scopes := (sh_scopes h)[s := sc\<lparr>sc_symbols := sc_symbols sc @ [(name, n)]\<rparr>]\<rparr>))"

definition scope_bind :: "nat \<Rightarrow> string \<Rightarrow> symbol_shape \<Rightarrow> scopes \<Rightarrow> bool \<times> scopes" where
  "scope_bind s name shape h =
     (if scope_lookup_local h s name \<noteq> None then (False, h)
      else (True, snd (add_symbol s name \<lparr>sy_shape = shape, sy_pinned = False\<rparr> h)))"

definition scope_bind_type :: "nat \<Rightarrow> string \<Rightarrow> gtype \<Rightarrow> scopes \<Rightarrow> (bool \<times> scopes) option" where
  "scope_bind_type s name t h =
     (if type_names_itself t then Some (scope_bind s name (SYMBOL_TYPE (Some t)) h) else None)"

definition scope_bind_type_param :: "nat \<Rightarrow> string \<Rightarrow> gtype option \<Rightarrow> scopes \<Rightarrow> bool \<times> scopes" where
  "scope_bind_type_param s name t h = scope_bind s name (SYMBOL_TYPE t) h"

definition scope_bind_const :: "nat \<Rightarrow> string \<Rightarrow> type_const \<Rightarrow> scopes \<Rightarrow> bool \<times> scopes" where
  "scope_bind_const s name c h = scope_bind s name (SYMBOL_CONST c) h"

definition scope_bind_type_decl :: "nat \<Rightarrow> string \<Rightarrow> nat \<Rightarrow> scopes \<Rightarrow> bool \<times> scopes" where
  "scope_bind_type_decl s name d h = scope_bind s name (SYMBOL_TYPE_DECL d) h"

definition scope_bind_interface :: "nat \<Rightarrow> string \<Rightarrow> nat \<Rightarrow> scopes \<Rightarrow> bool \<times> scopes" where
  "scope_bind_interface s name i h = scope_bind s name (SYMBOL_INTERFACE i) h"

definition scope_bind_module :: "nat \<Rightarrow> string \<Rightarrow> module_scope \<Rightarrow> scopes \<Rightarrow> bool \<times> scopes" where
  "scope_bind_module s name m h = scope_bind s name (SYMBOL_MODULE m) h"

text \<open>A declaration checked against one scope and made in another; the insertion answers NULL when
  the table has the name.\<close>

definition declare_against :: "nat \<Rightarrow> nat \<Rightarrow> string \<Rightarrow> symbol_shape \<Rightarrow> scopes \<Rightarrow> (nat option \<times> scopes) option" where
  "declare_against s against name shape h =
     do { found \<leftarrow> scope_lookup_declaring h against name;
          if found \<noteq> None then Some (None, h)
          else if scope_lookup_local h s name \<noteq> None then
            Some (None, h\<lparr>sh_symbols := sh_symbols h @ [\<lparr>sy_shape = shape, sy_pinned = False\<rparr>]\<rparr>)
          else (let (n, h') = add_symbol s name \<lparr>sy_shape = shape, sy_pinned = False\<rparr> h in Some (Some n, h')) }"

definition scope_decl_var_against :: "nat \<Rightarrow> nat \<Rightarrow> string \<Rightarrow> gtype option \<Rightarrow> scopes \<Rightarrow> (nat option \<times> scopes) option" where
  "scope_decl_var_against s against name t h = declare_against s against name (SYMBOL_VAR t) h"

definition scope_decl_var :: "nat \<Rightarrow> string \<Rightarrow> gtype option \<Rightarrow> scopes \<Rightarrow> (nat option \<times> scopes) option" where
  "scope_decl_var s name t h = scope_decl_var_against s s name t h"

definition scope_bind_func_against :: "nat \<Rightarrow> nat \<Rightarrow> string \<Rightarrow> nat \<Rightarrow> scopes \<Rightarrow> (nat option \<times> scopes) option" where
  "scope_bind_func_against s against name f h = declare_against s against name (SYMBOL_FUNC f) h"

definition bind_primitive :: "type_registry \<Rightarrow> nat \<Rightarrow> type_kind \<Rightarrow> scopes \<Rightarrow> scopes option" where
  "bind_primitive reg s kind h =
     (case type_registry_get_primitive reg kind of
        None \<Rightarrow> None
      | Some t \<Rightarrow>
          (case ty_name t of
             None \<Rightarrow> None
           | Some name \<Rightarrow> map_option snd (scope_bind_type s name t h)))"

definition global_scope_create :: "type_registry \<Rightarrow> scopes \<Rightarrow> (nat \<times> scopes) option" where
  "global_scope_create reg h0 =
     (let (s, h) = scope_create None h0 in
      do { h \<leftarrow> bind_primitive reg s TYPE_I32 h;
           h \<leftarrow> bind_primitive reg s TYPE_F32 h;
           h \<leftarrow> bind_primitive reg s TYPE_BOOL h;
           h \<leftarrow> bind_primitive reg s TYPE_U8 h;
           h \<leftarrow> bind_primitive reg s TYPE_USIZE h;
           h \<leftarrow> bind_primitive reg s TYPE_STR h;
           Some (s, h) })"

section \<open>Well-formed scopes\<close>

definition scopes_ok :: "scopes \<Rightarrow> bool" where
  "scopes_ok h \<longleftrightarrow>
     (\<forall>s < length (sh_scopes h).
        (\<forall>p. sc_parent (sh_scopes h ! s) = Some p \<longrightarrow> p < s) \<and>
        distinct (map fst (sc_symbols (sh_scopes h ! s))) \<and>
        (\<forall>(name, n) \<in> set (sc_symbols (sh_scopes h ! s)). n < length (sh_symbols h)))"

text \<open>The scopes a lookup walks through, innermost first.\<close>

function enclosing :: "scopes \<Rightarrow> nat \<Rightarrow> nat list" where
  "enclosing h s =
     s # (case sc_parent (sh_scopes h ! s) of None \<Rightarrow> [] | Some p \<Rightarrow> if p < s then enclosing h p else [])"
  by pat_completeness auto
termination by (relation "measure snd") auto

declare enclosing.simps [simp del]

fun visible :: "scopes \<Rightarrow> nat list \<Rightarrow> string \<Rightarrow> nat option" where
  "visible h [] name = None"
| "visible h (s # ss) name =
     (case scope_lookup_local h s name of Some f \<Rightarrow> Some f | None \<Rightarrow> visible h ss name)"

lemma scopes_ok_parent: "scopes_ok h \<Longrightarrow> s < length (sh_scopes h) \<Longrightarrow> sc_parent (sh_scopes h ! s) = Some p \<Longrightarrow> p < s"
  by (auto simp: scopes_ok_def)

lemma scope_lookup_visible:
  assumes "scopes_ok h" "s < length (sh_scopes h)"
  shows "scope_lookup h (Some s) name = Some (visible h (enclosing h s) name)"
  using assms(2)
proof (induction s rule: less_induct)
  case (less s)
  note unf = scope_lookup.simps [of h "Some s" name] enclosing.simps [of h s]
  show ?case
  proof (cases "sc_parent (sh_scopes h ! s)")
    case None
    then show ?thesis unfolding unf by (simp add: scope_lookup.simps split: option.split)
  next
    case (Some p)
    then have p: "p < s" by (rule scopes_ok_parent [OF assms(1) less.prems])
    have "scope_lookup h (Some p) name = Some (visible h (enclosing h p) name)"
      using p less by simp
    then show ?thesis unfolding unf using Some p by (simp split: option.split)
  qed
qed

lemma scope_lookup_declaring_ends:
  assumes "scopes_ok h" "s < length (sh_scopes h)"
  shows "\<exists>r. scope_lookup_declaring h s name = Some r \<and> (r = None \<longrightarrow> scope_lookup_local h s name = None)"
  using assms(2)
proof (induction s rule: less_induct)
  case (less s)
  note unf = scope_lookup_declaring.simps [of h s name]
  show ?case
  proof (cases "sc_parent (sh_scopes h ! s)")
    case None
    then show ?thesis unfolding unf by (auto split: option.split)
  next
    case (Some p)
    then have p: "p < s" by (rule scopes_ok_parent [OF assms(1) less.prems])
    obtain r where "scope_lookup_declaring h p name = Some r" using less.IH [OF p] p less.prems by auto
    then show ?thesis unfolding unf using Some by (auto split: option.split)
  qed
qed

lemma enclosing_subset:
  assumes "scopes_ok h" "s < length (sh_scopes h)"
  shows "set (enclosing h s) \<subseteq> {..<length (sh_scopes h)}"
  using assms(2)
proof (induction s rule: less_induct)
  case (less s)
  show ?case
    using less.IH less.prems scopes_ok_parent [OF assms(1) less.prems]
    by (subst enclosing.simps) (auto split: option.splits if_splits)
qed

lemma add_symbol_frame:
  assumes "s < length (sh_scopes h)"
  shows "length (sh_scopes (snd (add_symbol s name sy h))) = length (sh_scopes h)"
    "sc_parent (sh_scopes (snd (add_symbol s name sy h)) ! u) = sc_parent (sh_scopes h ! u)"
    "sh_symbols (snd (add_symbol s name sy h)) = sh_symbols h @ [sy]"
    "enclosing (snd (add_symbol s name sy h)) u = enclosing h u"
proof -
  show parent: "sc_parent (sh_scopes (snd (add_symbol s name sy h)) ! u) = sc_parent (sh_scopes h ! u)" for u
    using assms by (cases "u = s") (simp_all add: add_symbol_def Let_def)
  show "enclosing (snd (add_symbol s name sy h)) u = enclosing h u"
  proof (induction u rule: less_induct)
    case (less u)
    show ?case by (subst (1 2) enclosing.simps) (auto simp: parent less split: option.split)
  qed
qed (simp_all add: add_symbol_def Let_def)

lemma add_symbol_local:
  assumes "s < length (sh_scopes h)" "scope_lookup_local h s name = None"
  shows "scope_lookup_local (snd (add_symbol s name sy h)) u x =
     (if u = s \<and> x = name then Some (length (sh_symbols h)) else scope_lookup_local h u x)"
  using assms by (cases "u = s") (auto simp: add_symbol_def Let_def scope_lookup_local_def map_add_def split: option.split)

lemma add_symbol_ok:
  assumes "scopes_ok h" "s < length (sh_scopes h)" "scope_lookup_local h s name = None"
  shows "scopes_ok (snd (add_symbol s name sy h))"
proof -
  have "(\<forall>p. sc_parent (sh_scopes (snd (add_symbol s name sy h)) ! u) = Some p \<longrightarrow> p < u) \<and>
     distinct (map fst (sc_symbols (sh_scopes (snd (add_symbol s name sy h)) ! u))) \<and>
     (\<forall>(x, n) \<in> set (sc_symbols (sh_scopes (snd (add_symbol s name sy h)) ! u)).
        n < length (sh_symbols (snd (add_symbol s name sy h))))"
    if u: "u < length (sh_scopes (snd (add_symbol s name sy h)))" for u
  proof -
    from u have ok: "(\<forall>p. sc_parent (sh_scopes h ! u) = Some p \<longrightarrow> p < u)" "distinct (map fst (sc_symbols (sh_scopes h ! u)))"
      "\<forall>(name, n) \<in> set (sc_symbols (sh_scopes h ! u)). n < length (sh_symbols h)"
    using assms(1) add_symbol_frame(1) [OF assms(2)] by (auto simp: scopes_ok_def)
  have syms: "sc_symbols (sh_scopes (snd (add_symbol s name sy h)) ! u) =
      sc_symbols (sh_scopes h ! u) @ (if u = s then [(name, length (sh_symbols h))] else [])"
    using assms(2) by (cases "u = s") (simp_all add: add_symbol_def Let_def)
  have new: "u = s \<Longrightarrow> name \<notin> fst ` set (sc_symbols (sh_scopes h ! u))"
    using assms(3) by (simp add: scope_lookup_local_def map_of_eq_None_iff)
    show ?thesis using ok new unfolding syms add_symbol_frame(2,3) [OF assms(2)] by fastforce
  qed
  then show ?thesis unfolding scopes_ok_def by blast
qed



end
