(* ===== verification/Mir_Drop.thy ===== *)
theory Mir_Drop
  imports Mir Decls
begin

text \<open>
  Drop elaboration: \<^verbatim>\<open>src/mir/mir_drop.c\<close>.  A move out of a place that owns gets a \<^verbatim>\<open>MIR_NULL\<close> behind
  it, a store over a held object gets a release, and a dataflow analysis of what each value holds
  then removes the drops of emptied values and guards those that are empty on some paths only with a
  flag.  The table of holdings has a row per block and a column per value (and one to spare).
\<close>

section \<open>Editing a block\<close>

definition block_insert :: "nat \<Rightarrow> mir_inst \<Rightarrow> mir_block \<Rightarrow> mir_block" where
  "block_insert at inst block = take at block @ inst # drop at block"

definition block_remove :: "nat \<Rightarrow> mir_block \<Rightarrow> mir_block" where
  "block_remove at block = take at block @ drop (at + 1) block"

text \<open>\<^verbatim>\<open>mir_op_has_place(inst->op)\<close> and a base that is a value of the function.\<close>

definition has_base :: "nat \<Rightarrow> mir_inst \<Rightarrow> bool" where
  "has_base count inst \<longleftrightarrow>
     mir_op_has_place (mi_op inst) \<and> \<not> mir_value_is_none (pl_base (mi_place inst)) \<and> pl_base (mi_place inst) < count"

definition is_whole :: "mir_inst \<Rightarrow> bool" where
  "is_whole inst \<longleftrightarrow> length (pl_projections (mi_place inst)) = 0"

section \<open>Releasing what a store overwrites\<close>

text \<open>One instruction of the loop: the instructions that take its place.\<close>

definition release_inst ::
  "type_registry \<Rightarrow> mir_inst \<Rightarrow> bool list \<times> mir_function \<Rightarrow> (bool list \<times> mir_function) \<times> mir_inst list" where
  "release_inst reg inst = (\<lambda>(stored, ir).
     (let base = pl_base (mi_place inst); sp = mi_span inst in
      if mi_op inst = MIR_NULL \<and> \<not> mir_value_is_none base \<and> base < length (mf_values ir) then
        ((stored[base := False], ir), [inst])
      else if mi_op inst \<noteq> MIR_STORE \<or> \<not> is_whole inst \<or> mir_value_is_none base \<or> base \<ge> length (mf_values ir) then
        ((stored, ir), [inst])
      else if \<not> mir_type_needs_drop reg (mi_type inst) \<or> kind_is TYPE_REF (mi_type inst) then ((stored, ir), [inst])
      else if \<not> stored ! base then ((stored[base := True], ir), [inst])
      else
        (let (held, ir') = mir_value_create ir (mi_type inst) None sp
         in ((stored, ir'),
             [(inst_of MIR_LOAD (mi_type inst) held sp)\<lparr>mi_place := mi_place inst, mi_read := READ_COPY\<rparr>,
              inst,
              (inst_of MIR_DROP (mi_type inst) MIR_NO_VALUE sp)\<lparr>mi_place := mir_place_of held None\<rparr>]))))"

fun release_insts ::
  "type_registry \<Rightarrow> mir_inst list \<Rightarrow> bool list \<times> mir_function \<Rightarrow> (bool list \<times> mir_function) \<times> mir_inst list" where
  "release_insts reg [] st = (st, [])"
| "release_insts reg (i # is) st =
     (let (st1, i') = release_inst reg i st; (st2, is') = release_insts reg is st1 in (st2, i' @ is'))"

fun release_blocks ::
  "type_registry \<Rightarrow> mir_block list \<Rightarrow> bool list \<times> mir_function \<Rightarrow> (bool list \<times> mir_function) \<times> mir_block list" where
  "release_blocks reg [] st = (st, [])"
| "release_blocks reg (b # bs) st =
     (let (st1, b') = release_insts reg b st; (st2, bs') = release_blocks reg bs st1 in (st2, b' # bs'))"

definition release_before_overwrite :: "type_registry \<Rightarrow> mir_function \<Rightarrow> mir_function" where
  "release_before_overwrite reg ir =
     (let ((stored, ir'), bs) = release_blocks reg (mf_blocks ir) (replicate (length (mf_values ir) + 1) False, ir)
      in ir'\<lparr>mf_blocks := bs\<rparr>)"

section \<open>What a value holds\<close>

datatype holding = HOLDS_ITS_OBJECT | HOLDS_NOTHING | HOLDS_EITHER

type_synonym holdings = "holding list"

definition holding_merge :: "holding \<Rightarrow> holding \<Rightarrow> holding" where
  "holding_merge a b = (if a = b then a else HOLDS_EITHER)"

definition walk_inst :: "nat \<Rightarrow> mir_inst \<Rightarrow> holdings \<Rightarrow> holdings" where
  "walk_inst count inst holds =
     (let base = pl_base (mi_place inst) in
      if \<not> has_base count inst \<or> \<not> is_whole inst then holds
      else if mi_op inst = MIR_NULL then holds[base := HOLDS_NOTHING]
      else if mi_op inst = MIR_STORE \<or> mi_op inst = MIR_STORAGE_INIT then holds[base := HOLDS_ITS_OBJECT]
      else holds)"

definition walk_block :: "nat \<Rightarrow> mir_block \<Rightarrow> holdings \<Rightarrow> holdings" where
  "walk_block count block holds = fold (walk_inst count) block holds"

text \<open>The instructions at which \<open>visit\<close> is called, with the holding it is given.\<close>

definition visits_drop :: "nat \<Rightarrow> mir_inst \<Rightarrow> bool" where
  "visits_drop count inst \<longleftrightarrow> has_base count inst \<and> is_whole inst \<and> mi_op inst = MIR_DROP"

text \<open>The edge from a block with the given exit to a target.\<close>

definition join_edge :: "holdings \<Rightarrow> nat \<Rightarrow> holdings list \<times> bool list \<Rightarrow> holdings list \<times> bool list" where
  "join_edge exit target = (\<lambda>(next_entries, reached).
     if \<not> reached ! target then (next_entries[target := exit], reached[target := True])
     else (next_entries[target := map2 holding_merge (next_entries ! target) exit], reached))"

definition holdings_block ::
  "mir_function \<Rightarrow> holdings list \<Rightarrow> nat \<Rightarrow> holdings list \<times> bool list \<Rightarrow> holdings list \<times> bool list" where
  "holdings_block ir entries b st =
     (let exit = walk_block (length (mf_values ir)) (mf_blocks ir ! b) (entries ! b)
      in fold (join_edge exit) (mir_block_successors (mf_blocks ir ! b)) st)"

definition object_rows :: "mir_function \<Rightarrow> holdings list" where
  "object_rows ir = replicate (length (mf_blocks ir)) (replicate (length (mf_values ir) + 1) HOLDS_ITS_OBJECT)"

definition holdings_pass :: "mir_function \<Rightarrow> holdings list \<Rightarrow> holdings list" where
  "holdings_pass ir entries =
     fst (fold (holdings_block ir entries) [0..<length (mf_blocks ir)]
            (object_rows ir, (replicate (length (mf_blocks ir)) False)[mf_entry ir := True]))"

partial_function (option) holdings_loop :: "mir_function \<Rightarrow> holdings list \<Rightarrow> holdings list option" where
  "holdings_loop ir entries =
     (let next_entries = holdings_pass ir entries
      in if next_entries = entries then Some entries else holdings_loop ir next_entries)"

definition entry_holdings :: "mir_function \<Rightarrow> holdings list option" where
  "entry_holdings ir = holdings_loop ir (object_rows ir)"

section \<open>Dropping releases of emptied places\<close>

text \<open>The places found in one block, as block and index.\<close>

fun empty_drops :: "nat \<Rightarrow> nat \<Rightarrow> nat \<Rightarrow> mir_inst list \<Rightarrow> holdings \<Rightarrow> (nat \<times> nat) list" where
  "empty_drops count b j [] holds = []"
| "empty_drops count b j (i # is) holds =
     (if visits_drop count i \<and> holds ! pl_base (mi_place i) = HOLDS_NOTHING then [(b, j)] else []) @
     empty_drops count b (j + 1) is (walk_inst count i holds)"

definition drop_releases_of_emptied_places :: "mir_function \<Rightarrow> mir_function option" where
  "drop_releases_of_emptied_places ir =
     (if length (mf_blocks ir) = 0 then Some ir
      else do {
        entries \<leftarrow> entry_holdings ir;
        let found = concat (map (\<lambda>b. empty_drops (length (mf_values ir)) b 0 (mf_blocks ir ! b) (entries ! b))
                              [0..<length (mf_blocks ir)])
        in Some (ir\<lparr>mf_blocks := fold (\<lambda>(b, j) bs. bs[b := block_remove j (bs ! b)]) (rev found) (mf_blocks ir)\<rparr>) })"

section \<open>Flags for conditional drops\<close>

text \<open>\<^verbatim>\<open>note_conditional_drop\<close> at one instruction: a flag is made the first time a value needs one.\<close>

definition note_conditional_drop ::
  "type_registry \<Rightarrow> mir_inst \<Rightarrow> holding \<Rightarrow> mir_function \<times> nat list \<Rightarrow> (mir_function \<times> nat list) \<times> mir_inst" where
  "note_conditional_drop reg inst held = (\<lambda>(ir, flags).
     if held \<noteq> HOLDS_EITHER then ((ir, flags), inst)
     else
       (let base = pl_base (mi_place inst);
            (ir', flags') =
              (if mir_value_is_none (flags ! base) then
                 (let (flag, ir') = mir_value_create ir (type_registry_get_primitive reg TYPE_BOOL) None (mi_span inst)
                  in (ir', flags[base := flag]))
               else (ir, flags))
        in ((ir', flags'), inst\<lparr>mi_flag := flags' ! base\<rparr>)))"

fun flag_insts ::
  "type_registry \<Rightarrow> mir_inst list \<Rightarrow> holdings \<Rightarrow> mir_function \<times> nat list \<Rightarrow> (mir_function \<times> nat list) \<times> mir_inst list" where
  "flag_insts reg [] holds st = (st, [])"
| "flag_insts reg (i # is) holds st =
     (let count = length (mf_values (fst st));
          (st1, i') = (if visits_drop count i then note_conditional_drop reg i (holds ! pl_base (mi_place i)) st else (st, i));
          (st2, is') = flag_insts reg is (walk_inst count i holds) st1
      in (st2, i' # is'))"

fun flag_blocks ::
  "type_registry \<Rightarrow> mir_block list \<Rightarrow> holdings list \<Rightarrow> mir_function \<times> nat list \<Rightarrow> (mir_function \<times> nat list) \<times> mir_block list" where
  "flag_blocks reg (b # bs) (e # es) st =
     (let (st1, b') = flag_insts reg b e st; (st2, bs') = flag_blocks reg bs es st1 in (st2, b' # bs'))"
| "flag_blocks reg bs es st = (st, bs)"

definition flag_of :: "nat \<Rightarrow> nat list \<Rightarrow> mir_inst \<Rightarrow> nat" where
  "flag_of count flags inst =
     (if has_base count inst \<and> is_whole inst then flags ! pl_base (mi_place inst) else MIR_NO_VALUE)"

definition write_flag :: "type_registry \<Rightarrow> nat \<Rightarrow> nat list \<Rightarrow> mir_inst \<Rightarrow> mir_inst list" where
  "write_flag reg count flags inst =
     (let flag = flag_of count flags inst;
          holds = (mi_op inst = MIR_STORE \<or> mi_op inst = MIR_STORAGE_INIT);
          bool_type = type_registry_get_primitive reg TYPE_BOOL in
      if mir_value_is_none flag \<or> \<not> holds \<and> mi_op inst \<noteq> MIR_NULL then [inst]
      else [inst,
            (inst_of MIR_DROP_FLAG bool_type MIR_NO_VALUE (mi_span inst))
              \<lparr>mi_args := [mir_operand_const (constant_bool bool_type holds)], mi_place := mi_place inst, mi_flag := flag\<rparr>])"

definition write_drop_flags :: "type_registry \<Rightarrow> nat list \<Rightarrow> mir_function \<Rightarrow> mir_function" where
  "write_drop_flags reg flags ir =
     ir\<lparr>mf_blocks := map (\<lambda>b. concat (map (write_flag reg (length (mf_values ir)) flags) b)) (mf_blocks ir)\<rparr>"

definition guard_conditional_drops :: "type_registry \<Rightarrow> mir_function \<Rightarrow> mir_function option" where
  "guard_conditional_drops reg ir =
     (if length (mf_blocks ir) = 0 then Some ir
      else do {
        entries \<leftarrow> entry_holdings ir;
        let ((ir1, flags), bs) =
              flag_blocks reg (mf_blocks ir) entries (ir, replicate (length (mf_values ir) + 1) MIR_NO_VALUE);
            ir2 = write_drop_flags reg flags (ir1\<lparr>mf_blocks := bs\<rparr>)
        in Some (ir2\<lparr>mf_blocks :=
             map (filter (\<lambda>i. \<not> (mi_op i = MIR_NULL \<and> \<not> mir_value_is_none (flag_of (length (mf_values ir2)) flags i))))
               (mf_blocks ir2)\<rparr>) })"

section \<open>The pass\<close>

fun resolve_insts :: "mir_inst list \<Rightarrow> function_registry \<Rightarrow> (mir_inst list \<times> function_registry) option" where
  "resolve_insts [] fr = Some ([], fr)"
| "resolve_insts (i # is) fr =
     (if mi_op i = MIR_DROP then
        do { (e, fr1) \<leftarrow> function_registry_owned_for fr (mi_type i) (kn_destroy_method (type_registry_names (fr_types fr)));
             (is', fr2) \<leftarrow> resolve_insts is fr1;
             Some (i\<lparr>mi_ending := e\<rparr> # is', fr2) }
      else map_option (\<lambda>(is', fr'). (i # is', fr')) (resolve_insts is fr))"

fun resolve_endings :: "mir_block list \<Rightarrow> function_registry \<Rightarrow> (mir_block list \<times> function_registry) option" where
  "resolve_endings [] fr = Some ([], fr)"
| "resolve_endings (b # bs) fr =
     do { (b', fr1) \<leftarrow> resolve_insts b fr; (bs', fr2) \<leftarrow> resolve_endings bs fr1; Some (b' # bs', fr2) }"

definition null_after_move :: "type_registry \<Rightarrow> mir_inst \<Rightarrow> mir_inst list" where
  "null_after_move reg inst =
     (if mi_op inst = MIR_LOAD \<and> mi_read inst = READ_MOVE \<and> mir_type_needs_drop reg (mi_type inst) then
        [inst, (inst_of MIR_NULL (mi_type inst) MIR_NO_VALUE (mi_span inst))\<lparr>mi_place := mi_place inst\<rparr>]
      else [inst])"

definition mir_drop_elaborate ::
  "mir_function \<Rightarrow> function_registry \<Rightarrow> (mir_function \<times> function_registry) option" where
  "mir_drop_elaborate ir fr =
     (let reg = fr_types fr;
          ir1 = ir\<lparr>mf_blocks := map (\<lambda>b. concat (map (null_after_move reg) b)) (mf_blocks ir)\<rparr>;
          ir2 = release_before_overwrite reg ir1
      in do { ir3 \<leftarrow> drop_releases_of_emptied_places ir2;
              ir4 \<leftarrow> guard_conditional_drops reg ir3;
              (bs, fr') \<leftarrow> resolve_endings (mf_blocks ir4) fr;
              Some (ir4\<lparr>mf_blocks := bs\<rparr>, fr') })"

end
