(* ===== verification/Drop_Correct.thy ===== *)
theory Drop_Correct
  imports Mir_Drop Fixpoint
begin

text \<open>
  Drop elaboration is right: the analysis of holdings ends and is sound for every path, removing the
  releases it calls empty changes nothing that happens, and a flag decides at run time exactly what
  the path decided, for values that are written before they are dropped.  A value that arrives from
  outside, as a parameter does, is the case in which the flag is wrong.
\<close>

section \<open>Iterating a distributive function over finite sets\<close>

lemma finite_chain_stops:
  assumes "finite U" "\<And>n. f n \<subseteq> U" "\<And>n. f n \<subseteq> f (Suc n)"
  shows "\<exists>n. f (Suc n) = f (n :: nat)"
proof (rule ccontr)
  assume "\<not> ?thesis"
  then have "f n \<subset> f (Suc n)" for n using assms(3) by blast
  then have "card (f n) < card (f (Suc n))" for n
    using assms(1,2) by (meson finite_subset psubset_card_mono)
  then have "n \<le> card (f n)" for n
    by (induction n) (auto intro: le_less_trans Suc_leI)
  moreover have "card (f n) \<le> card U" for n using assms(1,2) by (simp add: card_mono)
  ultimately have "Suc (card U) \<le> card U" by (meson le_trans)
  then show False by simp
qed

lemma finite_antichain_stops:
  assumes "finite U" "\<And>n. f n \<subseteq> U" "\<And>n. f (Suc n) \<subseteq> f n"
  shows "\<exists>n. f (Suc n) = f (n :: nat)"
proof -
  have "\<exists>n. U - f (Suc n) = U - f n"
    by (rule finite_chain_stops [of U "\<lambda>n. U - f n"]) (use assms in auto)
  then obtain n where "U - f (Suc n) = U - f n" by blast
  then have "f (Suc n) = f n" using assms(2) [of n] assms(2) [of "Suc n"] by blast
  then show ?thesis by blast
qed

text \<open>The iterates of \<open>X \<mapsto> K \<union> L X\<close> become constant when \<open>L\<close> distributes over union and shrinks the
  set they start from: they are the union of a growing and a shrinking chain.\<close>

lemma distributive_iteration_stops:
  assumes "finite U" "K \<subseteq> U" "\<And>X. L X \<subseteq> U" "\<And>X Y. L (X \<union> Y) = L X \<union> L Y" "L S \<subseteq> S" "S \<subseteq> U"
  shows "\<exists>n. ((\<lambda>X. K \<union> L X) ^^ Suc n) S = ((\<lambda>X. K \<union> L X) ^^ n) S"
proof -
  let ?F = "\<lambda>X. K \<union> L X"
  have mono: "L X \<subseteq> L Y" if "X \<subseteq> Y" for X Y
  proof -
    from that have "L Y = L X \<union> L Y" using assms(4) by (metis sup.absorb2)
    then show ?thesis by blast
  qed
  have grow: "(?F ^^ n) {} \<subseteq> (?F ^^ Suc n) {}" for n
    by (induction n) (use mono in auto)
  have shrink: "(L ^^ Suc n) S \<subseteq> (L ^^ n) S" for n
    by (induction n) (use assms(5) mono in auto)
  have "(?F ^^ n) {} \<subseteq> U" "(L ^^ n) S \<subseteq> U" for n
    using assms(2,3,6) by (cases n; auto)+
  then obtain m1 m2 where m: "(?F ^^ Suc m1) {} = (?F ^^ m1) {}" "(L ^^ Suc m2) S = (L ^^ m2) S"
    using finite_chain_stops [OF assms(1), of "\<lambda>n. (?F ^^ n) {}"] grow
      finite_antichain_stops [OF assms(1), of "\<lambda>n. (L ^^ n) S"] shrink by auto
  have later: "(?F ^^ (m1 + k)) {} = (?F ^^ m1) {}" "(L ^^ (m2 + k)) S = (L ^^ m2) S" for k
    using m by (induction k) auto
  have stable: "(?F ^^ Suc n) {} = (?F ^^ n) {}" "(L ^^ Suc n) S = (L ^^ n) S" if "n = m1 + m2" for n
    using later(1) [of m2] later(1) [of "Suc m2"] later(2) [of m1] later(2) [of "Suc m1"] that
    by (simp_all add: ac_simps)
  have split: "(?F ^^ n) S = (?F ^^ n) {} \<union> (L ^^ n) S" for n
    by (induction n) (simp_all add: assms(4) Un_assoc)
  show ?thesis using split stable by metis
qed

section \<open>Holdings as sets of possibilities\<close>

fun gamma :: "holding \<Rightarrow> bool set" where
  "gamma HOLDS_ITS_OBJECT = {True}"
| "gamma HOLDS_NOTHING = {False}"
| "gamma HOLDS_EITHER = {True, False}"

lemma gamma_inj: "gamma a = gamma b \<longleftrightarrow> a = b"
  by (cases a; cases b) auto

lemma gamma_nonempty [simp]: "gamma a \<noteq> {}"
  by (cases a) auto

lemma gamma_merge: "gamma (holding_merge a b) = gamma a \<union> gamma b"
  by (cases a; cases b) (auto simp: holding_merge_def)

text \<open>What an instruction, and then a block, does to the holding of a value.\<close>

definition writes :: "nat \<Rightarrow> nat \<Rightarrow> mir_inst \<Rightarrow> bool option" where
  "writes count v inst =
     (if has_base count inst \<and> is_whole inst \<and> pl_base (mi_place inst) = v then
        (if mi_op inst = MIR_NULL then Some False
         else if mi_op inst = MIR_STORE \<or> mi_op inst = MIR_STORAGE_INIT then Some True else None)
      else None)"

definition last_write :: "nat \<Rightarrow> nat \<Rightarrow> mir_inst list \<Rightarrow> bool option" where
  "last_write count v is = fold (\<lambda>i acc. case writes count v i of None \<Rightarrow> acc | Some x \<Rightarrow> Some x) is None"

lemma last_write_Cons:
  "last_write count v (i # is) = (case last_write count v is of None \<Rightarrow> writes count v i | Some x \<Rightarrow> Some x)"
proof -
  have "fold (\<lambda>i acc. case writes count v i of None \<Rightarrow> acc | Some x \<Rightarrow> Some x) is a =
     (case fold (\<lambda>i acc. case writes count v i of None \<Rightarrow> acc | Some x \<Rightarrow> Some x) is None of None \<Rightarrow> a | Some x \<Rightarrow> Some x)" for a
    by (induction "is" rule: rev_induct) (auto split: option.split)
  from this [of "writes count v i"] show ?thesis
    unfolding last_write_def by (cases "writes count v i") simp_all
qed

lemma length_walk_inst [simp]: "length (walk_inst count i holds) = length holds"
  by (simp add: walk_inst_def Let_def)

lemma length_walk_block [simp]: "length (walk_block count is holds) = length holds"
  unfolding walk_block_def by (induction "is" arbitrary: holds) simp_all

lemma walk_inst_gamma:
  assumes "v < length holds"
  shows "gamma (walk_inst count i holds ! v) = (case writes count v i of None \<Rightarrow> gamma (holds ! v) | Some x \<Rightarrow> {x})"
proof (cases "has_base count i \<and> is_whole i")
  case True
  then show ?thesis
    using assms by (cases "pl_base (mi_place i) = v") (simp_all add: walk_inst_def writes_def Let_def)
next
  case False
  then show ?thesis by (auto simp: walk_inst_def writes_def Let_def)
qed

lemma walk_block_gamma:
  assumes "v < length holds"
  shows "gamma (walk_block count is holds ! v) =
     (case last_write count v is of None \<Rightarrow> gamma (holds ! v) | Some x \<Rightarrow> {x})"
  using assms
proof (induction "is" arbitrary: holds)
  case (Cons i "is")
  then show ?case
    by (auto simp: walk_block_def last_write_Cons walk_inst_gamma split: option.split)
qed (simp add: walk_block_def last_write_def)

section \<open>One pass as a set equation\<close>

definition rows_ok :: "mir_function \<Rightarrow> holdings list \<Rightarrow> bool" where
  "rows_ok ir E \<longleftrightarrow> length E = length (mf_blocks ir) \<and> (\<forall>b < length E. length (E ! b) = length (mf_values ir) + 1)"

text \<open>The edges a pass goes through, with the exit they carry.\<close>

definition edges_of :: "mir_function \<Rightarrow> holdings list \<Rightarrow> (holdings \<times> nat) list" where
  "edges_of ir E =
     concat (map (\<lambda>b. map (\<lambda>s. (walk_block (length (mf_values ir)) (mf_blocks ir ! b) (E ! b), s))
                         (mir_block_successors (mf_blocks ir ! b))) [0..<length (mf_blocks ir)])"

lemma holdings_pass_edges:
  "holdings_pass ir E = fst (fold (\<lambda>(x, t). join_edge x t) (edges_of ir E)
     (object_rows ir, (replicate (length (mf_blocks ir)) False)[mf_entry ir := True]))"
proof -
  have "fold (holdings_block ir E) bs st = fold (\<lambda>(x, t). join_edge x t)
     (concat (map (\<lambda>b. map (\<lambda>s. (walk_block (length (mf_values ir)) (mf_blocks ir ! b) (E ! b), s))
                         (mir_block_successors (mf_blocks ir ! b))) bs)) st" for bs st
    by (induction bs arbitrary: st) (simp_all add: holdings_block_def Let_def fold_map comp_def)
  then show ?thesis by (simp add: holdings_pass_def edges_of_def)
qed

lemma join_edges:
  assumes "\<forall>(x, t) \<in> set es. length x = w \<and> t < length N" "length R = length N" "\<forall>t < length N. length (N ! t) = w"
  shows "length (fst (fold (\<lambda>(x, t). join_edge x t) es (N, R))) = length N \<and>
     (\<forall>t < length N. length (fst (fold (\<lambda>(x, t). join_edge x t) es (N, R)) ! t) = w \<and>
        (\<forall>v < w. gamma (fst (fold (\<lambda>(x, t). join_edge x t) es (N, R)) ! t ! v) =
           (if R ! t \<or> (\<forall>x. (x, t) \<notin> set es) then gamma (N ! t ! v) else {}) \<union> (\<Union>x \<in> {x. (x, t) \<in> set es}. gamma (x ! v))))"
  using assms
proof (induction es arbitrary: N R)
  case (Cons e es)
  obtain x t where e: "e = (x, t)" by fastforce
  define N1 where "N1 = fst (join_edge x t (N, R))"
  define R1 where "R1 = snd (join_edge x t (N, R))"
  have x: "length x = w" "t < length N" using Cons.prems(1) e by auto
  have step: "join_edge x t (N, R) = (N1, R1)" by (simp add: N1_def R1_def)
  have len: "length N1 = length N" "length R1 = length N" "\<forall>u < length N. length (N1 ! u) = w"
    using x Cons.prems(2,3) by (auto simp: N1_def R1_def join_edge_def nth_list_update)
  have R1: "R1 ! u \<longleftrightarrow> R ! u \<or> u = t" if "u < length N" for u
    using x Cons.prems(2) that by (auto simp: R1_def join_edge_def nth_list_update)
  have N1: "gamma (N1 ! u ! v) = (if u = t then (if R ! t then gamma (N ! t ! v) \<union> gamma (x ! v) else gamma (x ! v)) else gamma (N ! u ! v))"
    if "u < length N" "v < w" for u v
    using x Cons.prems(2,3) that by (auto simp: N1_def join_edge_def nth_list_update gamma_merge)
  have es: "\<forall>(x, t) \<in> set es. length x = w \<and> t < length N1" using Cons.prems(1) len by auto
  note IH = Cons.IH [OF es, of R1, unfolded len(1), OF len(2,3)]
  have fold: "fold (\<lambda>(x, t). join_edge x t) (e # es) (N, R) = fold (\<lambda>(x, t). join_edge x t) es (N1, R1)"
    by (simp add: e step)
  have "gamma (fst (fold (\<lambda>(x, t). join_edge x t) es (N1, R1)) ! u ! v) =
     (if R ! u \<or> (\<forall>x. (x, u) \<notin> set (e # es)) then gamma (N ! u ! v) else {}) \<union> (\<Union>x \<in> {x. (x, u) \<in> set (e # es)}. gamma (x ! v))"
    if u: "u < length N" "v < w" for u v
  proof -
    have "gamma (fst (fold (\<lambda>(x, t). join_edge x t) es (N1, R1)) ! u ! v) =
       (if R1 ! u \<or> (\<forall>x. (x, u) \<notin> set es) then gamma (N1 ! u ! v) else {}) \<union> (\<Union>x \<in> {x. (x, u) \<in> set es}. gamma (x ! v))"
      using IH u by blast
    then show ?thesis unfolding R1 [OF u(1)] N1 [OF u] by (auto simp: e)
  qed
  then show ?case unfolding fold using IH len by simp
qed simp

text \<open>What a block passes on, and the possibilities a block starts with by itself.\<close>

definition passes_on :: "mir_function \<Rightarrow> nat \<Rightarrow> nat \<Rightarrow> bool \<Rightarrow> bool" where
  "passes_on ir b v x = (case last_write (length (mf_values ir)) v (mf_blocks ir ! b) of None \<Rightarrow> x | Some y \<Rightarrow> y)"

definition starts_held :: "mir_function \<Rightarrow> nat \<Rightarrow> bool" where
  "starts_held ir t \<longleftrightarrow> t = mf_entry ir \<or> (\<forall>b. \<not> flows ir b t)"

lemma flows_iff: "flows ir b s \<longleftrightarrow> b < length (mf_blocks ir) \<and> s \<in> set (mir_block_successors (mf_blocks ir ! b))"
  by (simp add: flows_def)

lemma gamma_passes_on:
  assumes "v < length holds"
  shows "gamma (walk_block (length (mf_values ir)) (mf_blocks ir ! b) holds ! v) = passes_on ir b v ` gamma (holds ! v)"
  unfolding walk_block_gamma [OF assms]
  by (cases "last_write (length (mf_values ir)) v (mf_blocks ir ! b)"; cases "holds ! v") (auto simp: passes_on_def)

lemma holdings_pass_gamma:
  assumes "mir_wf ir" "rows_ok ir E"
  shows "rows_ok ir (holdings_pass ir E)"
    "t < length (mf_blocks ir) \<Longrightarrow> v < length (mf_values ir) + 1 \<Longrightarrow>
       gamma (holdings_pass ir E ! t ! v) =
         (if starts_held ir t then {True} else {}) \<union> (\<Union>b \<in> {b. flows ir b t}. passes_on ir b v ` gamma (E ! b ! v))"
proof -
  let ?w = "length (mf_values ir) + 1" and ?n = "length (mf_blocks ir)"
  let ?R = "(replicate ?n False)[mf_entry ir := True]"
  have edge: "(x, t) \<in> set (edges_of ir E) \<longleftrightarrow>
      (\<exists>b. flows ir b t \<and> x = walk_block (length (mf_values ir)) (mf_blocks ir ! b) (E ! b))" for x t
    by (auto simp: edges_of_def flows_iff)
  have rows: "length E = ?n" "\<And>b. b < ?n \<Longrightarrow> length (E ! b) = ?w" using assms(2) by (auto simp: rows_ok_def)
  have ok: "\<forall>(x, t) \<in> set (edges_of ir E). length x = ?w \<and> t < length (object_rows ir)"
    using mir_wf_flows [OF assms(1)] rows by (auto simp: edge object_rows_def flows_iff)
  have init: "length ?R = length (object_rows ir)" "\<forall>t < length (object_rows ir). length (object_rows ir ! t) = ?w"
    by (simp_all add: object_rows_def)
  note all = join_edges [OF ok init, folded holdings_pass_edges]
  have n: "length (object_rows ir) = ?n" by (simp add: object_rows_def)
  show "rows_ok ir (holdings_pass ir E)" using all n by (simp add: rows_ok_def)
  assume t: "t < ?n" and v: "v < ?w"
  have entry: "mf_entry ir < ?n" using assms(1) by (simp add: mir_wf_def)
  have "gamma (object_rows ir ! t ! v) = {True}"
  proof -
    have "object_rows ir ! t ! v = HOLDS_ITS_OBJECT"
      using t v unfolding object_rows_def by (simp only: nth_replicate)
    then show ?thesis by simp
  qed
  moreover have "?R ! t \<or> (\<forall>x. (x, t) \<notin> set (edges_of ir E)) \<longleftrightarrow> starts_held ir t"
    using t entry by (auto simp: edge starts_held_def nth_list_update)
  moreover have "(\<Union>x \<in> {x. (x, t) \<in> set (edges_of ir E)}. gamma (x ! v)) =
      (\<Union>b \<in> {b. flows ir b t}. passes_on ir b v ` gamma (E ! b ! v))"
    using gamma_passes_on [of v "E ! b" ir b for b] rows(2) v by (auto simp: edge flows_iff)
  ultimately show "gamma (holdings_pass ir E ! t ! v) =
         (if starts_held ir t then {True} else {}) \<union> (\<Union>b \<in> {b. flows ir b t}. passes_on ir b v ` gamma (E ! b ! v))"
    using all t v n by auto
qed

section \<open>The analysis ends\<close>

definition possibilities :: "mir_function \<Rightarrow> holdings list \<Rightarrow> (nat \<times> nat \<times> bool) set" where
  "possibilities ir E =
     {(t, v, x). t < length (mf_blocks ir) \<and> v < length (mf_values ir) + 1 \<and> x \<in> gamma (E ! t ! v)}"

definition constant_part :: "mir_function \<Rightarrow> (nat \<times> nat \<times> bool) set" where
  "constant_part ir =
     {(t, v, x). t < length (mf_blocks ir) \<and> v < length (mf_values ir) + 1 \<and>
        (starts_held ir t \<and> x \<or>
         (\<exists>b. flows ir b t \<and> last_write (length (mf_values ir)) v (mf_blocks ir ! b) = Some x))}"

definition linear_part :: "mir_function \<Rightarrow> (nat \<times> nat \<times> bool) set \<Rightarrow> (nat \<times> nat \<times> bool) set" where
  "linear_part ir X =
     {(t, v, x). t < length (mf_blocks ir) \<and> v < length (mf_values ir) + 1 \<and>
        (\<exists>b. flows ir b t \<and> last_write (length (mf_values ir)) v (mf_blocks ir ! b) = None \<and> (b, v, x) \<in> X)}"

lemma possibilities_pass:
  assumes "mir_wf ir" "rows_ok ir E"
  shows "possibilities ir (holdings_pass ir E) = constant_part ir \<union> linear_part ir (possibilities ir E)"
proof -
  have "x \<in> gamma (holdings_pass ir E ! t ! v) \<longleftrightarrow>
      (starts_held ir t \<and> x \<or> (\<exists>b. flows ir b t \<and> last_write (length (mf_values ir)) v (mf_blocks ir ! b) = Some x)) \<or>
      (\<exists>b. flows ir b t \<and> last_write (length (mf_values ir)) v (mf_blocks ir ! b) = None \<and> x \<in> gamma (E ! b ! v))"
    if "t < length (mf_blocks ir)" "v < length (mf_values ir) + 1" for t v x
  proof -
    have "y \<in> passes_on ir b v ` gamma (E ! b ! v) \<longleftrightarrow>
        last_write (length (mf_values ir)) v (mf_blocks ir ! b) = Some y \<or>
        last_write (length (mf_values ir)) v (mf_blocks ir ! b) = None \<and> y \<in> gamma (E ! b ! v)" for b y
      by (cases "last_write (length (mf_values ir)) v (mf_blocks ir ! b)")
        (auto simp: passes_on_def image_constant_conv)
    then show ?thesis unfolding holdings_pass_gamma(2) [OF assms that] by auto
  qed
  then show ?thesis
    unfolding possibilities_def constant_part_def linear_part_def by (auto simp: flows_iff)
qed

lemma possibilities_inj:
  assumes "rows_ok ir E" "rows_ok ir E'" "possibilities ir E = possibilities ir E'"
  shows "E = E'"
proof (rule nth_equalityI)
  show "length E = length E'" using assms by (simp add: rows_ok_def)
  fix t assume t: "t < length E"
  show "E ! t = E' ! t"
  proof (rule nth_equalityI)
    show "length (E ! t) = length (E' ! t)" using assms t by (simp add: rows_ok_def)
    fix v assume v: "v < length (E ! t)"
    have "gamma (E ! t ! v) = gamma (E' ! t ! v)"
      using assms t v unfolding possibilities_def rows_ok_def set_eq_iff by fastforce
    then show "E ! t ! v = E' ! t ! v" by (simp add: gamma_inj)
  qed
qed

lemma rows_ok_objects: "rows_ok ir (object_rows ir)"
  by (simp add: rows_ok_def object_rows_def)

text \<open>The loop is at rows from which the pass comes to a halt; the turns until then are its room.\<close>

definition settles_soon :: "mir_function \<Rightarrow> holdings list \<Rightarrow> bool" where
  "settles_soon ir E \<longleftrightarrow> mir_wf ir \<and> rows_ok ir E \<and> (\<exists>n. (holdings_pass ir ^^ Suc n) E = (holdings_pass ir ^^ n) E)"

definition turns_left :: "mir_function \<Rightarrow> holdings list \<Rightarrow> nat" where
  "turns_left ir E = (LEAST n. (holdings_pass ir ^^ Suc n) E = (holdings_pass ir ^^ n) E)"

lemma settles_soon_pass:
  assumes "settles_soon ir E" "holdings_pass ir E \<noteq> E"
  shows "settles_soon ir (holdings_pass ir E)" "turns_left ir (holdings_pass ir E) < turns_left ir E"
proof -
  let ?n = "turns_left ir E"
  have n: "(holdings_pass ir ^^ Suc ?n) E = (holdings_pass ir ^^ ?n) E"
    unfolding turns_left_def by (rule LeastI_ex) (use assms(1) in \<open>simp add: settles_soon_def\<close>)
  then obtain k where k: "?n = Suc k" using assms(2) by (cases ?n) simp_all
  have here: "(holdings_pass ir ^^ Suc k) (holdings_pass ir E) = (holdings_pass ir ^^ k) (holdings_pass ir E)"
    using n unfolding k by (simp add: funpow_swap1)
  then show "settles_soon ir (holdings_pass ir E)"
    using assms(1) holdings_pass_gamma(1) by (auto simp: settles_soon_def)
  have "turns_left ir (holdings_pass ir E) \<le> k" unfolding turns_left_def by (rule Least_le) (rule here)
  then show "turns_left ir (holdings_pass ir E) < turns_left ir E" using k by simp
qed

interpretation holdings: settling_loop "\<lambda>E. Some (holdings_pass ir E, holdings_pass ir E \<noteq> E)" "holdings_loop ir" "settles_soon ir" "\<lambda>E E'. True" "turns_left ir"
  for ir
proof (unfold_locales, goal_cases)
  case (1 E)
  show ?case by (subst holdings_loop.simps) (simp add: Let_def)
next
  case (4 E)
  then show ?case using settles_soon_pass [of ir E] by (cases "holdings_pass ir E = E") auto
qed simp_all

lemma holdings_loop_ends:
  assumes "mir_wf ir"
  shows "\<exists>E. entry_holdings ir = Some E \<and> rows_ok ir E \<and> holdings_pass ir E = E"
proof -
  let ?U = "{..<length (mf_blocks ir)} \<times> {..<length (mf_values ir) + 1} \<times> (UNIV :: bool set)"
  let ?E = "\<lambda>n. (holdings_pass ir ^^ n) (object_rows ir)" and ?S = "possibilities ir (object_rows ir)"
  let ?F = "\<lambda>X. constant_part ir \<union> linear_part ir X"
  have rows: "rows_ok ir (?E n)" for n
    by (induction n) (simp_all add: rows_ok_objects holdings_pass_gamma(1) [OF assms])
  have poss: "possibilities ir (?E n) = (?F ^^ n) ?S" for n
    by (induction n) (simp_all add: possibilities_pass [OF assms rows])
  have held: "(t, v, x) \<in> ?S \<longleftrightarrow> t < length (mf_blocks ir) \<and> v < length (mf_values ir) + 1 \<and> x" for t v x
  proof -
    have "object_rows ir ! t ! v = HOLDS_ITS_OBJECT" if "t < length (mf_blocks ir)" "v < length (mf_values ir) + 1"
      using that unfolding object_rows_def by (simp only: nth_replicate)
    then show ?thesis by (auto simp: possibilities_def)
  qed
  have "\<exists>n. (?F ^^ Suc n) ?S = (?F ^^ n) ?S"
  proof (rule distributive_iteration_stops)
    show "finite ?U" by simp
    show "constant_part ir \<subseteq> ?U" by (auto simp: constant_part_def)
    show "linear_part ir X \<subseteq> ?U" for X by (auto simp: linear_part_def)
    show "linear_part ir (X \<union> Y) = linear_part ir X \<union> linear_part ir Y" for X Y by (auto simp: linear_part_def)
    show "linear_part ir ?S \<subseteq> ?S" by (auto simp: linear_part_def held)
    show "?S \<subseteq> ?U" by (auto simp: held)
  qed
  then obtain n where "(?F ^^ Suc n) ?S = (?F ^^ n) ?S" by blast
  then have "possibilities ir (?E (Suc n)) = possibilities ir (?E n)" by (simp only: poss)
  then have fixed: "holdings_pass ir (?E n) = ?E n"
    using possibilities_inj rows by (metis funpow.simps(2) comp_apply)
  have "(holdings_pass ir ^^ Suc n) (object_rows ir) = (holdings_pass ir ^^ n) (object_rows ir)" using fixed by simp
  then have "settles_soon ir (object_rows ir)" using rows [of 0] assms unfolding settles_soon_def by auto
  from holdings.loop_settles [OF this] show ?thesis
    by (auto simp: entry_holdings_def settles_soon_def Let_def)
qed

section \<open>The analysis is sound\<close>

text \<open>Some path from the entry arrives at a block with the value holding its object, or not.\<close>

inductive arrives :: "mir_function \<Rightarrow> nat \<Rightarrow> nat \<Rightarrow> bool \<Rightarrow> bool" for ir v where
  arrives_entry: "arrives ir v (mf_entry ir) True"
| arrives_flow: "arrives ir v b x \<Longrightarrow> flows ir b s \<Longrightarrow> arrives ir v s (passes_on ir b v x)"

lemma fixpoint_flow:
  assumes "mir_wf ir" "rows_ok ir E" "holdings_pass ir E = E" "v < length (mf_values ir) + 1" "flows ir b s"
    "x \<in> gamma (E ! b ! v)"
  shows "passes_on ir b v x \<in> gamma (E ! s ! v)"
  using holdings_pass_gamma(2) [OF assms(1,2) mir_wf_flows [OF assms(1,5)] assms(4)] assms(3,5,6) by auto

lemma fixpoint_entry:
  assumes "mir_wf ir" "rows_ok ir E" "holdings_pass ir E = E" "v < length (mf_values ir) + 1"
  shows "True \<in> gamma (E ! mf_entry ir ! v)"
proof -
  have "mf_entry ir < length (mf_blocks ir)" using assms(1) by (simp add: mir_wf_def)
  from holdings_pass_gamma(2) [OF assms(1,2) this assms(4)] assms(3) show ?thesis by (simp add: starts_held_def)
qed

text \<open>C20: the analysis of what values hold ends on every function whose successors are blocks, and it is
  sound: whenever a path from the entry arrives at a block with a value holding its object, or having
  given it away, the table allows that for the value at the block.\<close>

theorem entry_holdings_sound:
  assumes "mir_wf ir"
  shows "\<exists>E. entry_holdings ir = Some E \<and>
     (\<forall>v < length (mf_values ir). \<forall>b x. arrives ir v b x \<longrightarrow> b < length (mf_blocks ir) \<and> x \<in> gamma (E ! b ! v))"
proof -
  obtain E where E: "entry_holdings ir = Some E" "rows_ok ir E" "holdings_pass ir E = E"
    using holdings_loop_ends [OF assms] by blast
  have "b < length (mf_blocks ir) \<and> x \<in> gamma (E ! b ! v)" if v: "v < length (mf_values ir)" and a: "arrives ir v b x" for v b x
    using a
  proof induction
    case arrives_entry
    have "True \<in> gamma (E ! mf_entry ir ! v)" by (rule fixpoint_entry [OF assms E(2,3)]) (use v in simp)
    then show ?case using assms unfolding mir_wf_def by blast
  next
    case (arrives_flow b x s)
    have "passes_on ir b v x \<in> gamma (E ! s ! v)"
      by (rule fixpoint_flow [OF assms E(2,3)]) (use v arrives_flow in auto)
    then show ?case using mir_wf_flows [OF assms arrives_flow(2)] by simp
  qed
  then show ?thesis using E(1) by blast
qed

section \<open>The drops that happen\<close>

definition held_after :: "nat \<Rightarrow> mir_inst \<Rightarrow> (nat \<Rightarrow> bool) \<Rightarrow> nat \<Rightarrow> bool" where
  "held_after count i held v = (case writes count v i of None \<Rightarrow> held v | Some x \<Rightarrow> x)"

text \<open>The drops of a sequence of instructions that release something: a drop of a whole value happens
  if the value holds its object, any other drop always.\<close>

fun drops_of :: "nat \<Rightarrow> mir_inst list \<Rightarrow> (nat \<Rightarrow> bool) \<Rightarrow> mir_inst list" where
  "drops_of count [] held = []"
| "drops_of count (i # is) held =
     (if mi_op i = MIR_DROP \<and> (visits_drop count i \<longrightarrow> held (pl_base (mi_place i))) then [i] else []) @
     drops_of count is (held_after count i held)"

definition drops_on :: "mir_function \<Rightarrow> nat list \<Rightarrow> mir_inst list" where
  "drops_on ir path = drops_of (length (mf_values ir)) (concat (map (\<lambda>b. mf_blocks ir ! b) path)) (\<lambda>_. True)"

lemma drops_of_append:
  "drops_of count (xs @ ys) held = drops_of count xs held @ drops_of count ys (fold (held_after count) xs held)"
  by (induction xs arbitrary: held) simp_all

lemma fold_held_after:
  "fold (held_after count) is held v = (case last_write count v is of None \<Rightarrow> held v | Some x \<Rightarrow> x)"
proof (induction "is" arbitrary: held)
  case (Cons i "is")
  then show ?case by (simp add: last_write_Cons held_after_def split: option.split)
qed (simp add: last_write_def)

fun prune :: "nat \<Rightarrow> mir_inst list \<Rightarrow> holdings \<Rightarrow> mir_inst list" where
  "prune count [] holds = []"
| "prune count (i # is) holds =
     (if visits_drop count i \<and> holds ! pl_base (mi_place i) = HOLDS_NOTHING then [] else [i]) @
     prune count is (walk_inst count i holds)"

lemma visits_drop_writes: "visits_drop count i \<Longrightarrow> writes count v i = None"
  by (simp add: visits_drop_def writes_def)

lemma visits_drop_walk: "visits_drop count i \<Longrightarrow> walk_inst count i holds = holds"
  by (simp add: visits_drop_def walk_inst_def Let_def)

lemma prune_drops:
  assumes "length holds = count + 1" "\<forall>v < count + 1. held v \<in> gamma (holds ! v)"
  shows "drops_of count (prune count is holds) held = drops_of count is held"
    "last_write count v (prune count is holds) = last_write count v is"
proof -
  have "drops_of count (prune count is holds) held = drops_of count is held \<and>
     last_write count v (prune count is holds) = last_write count v is"
    using assms
  proof (induction "is" arbitrary: holds held)
    case (Cons i "is")
    have held: "\<forall>v < count + 1. held_after count i held v \<in> gamma (walk_inst count i holds ! v)"
      using Cons.prems by (auto simp: walk_inst_gamma held_after_def split: option.split)
    note IH = Cons.IH [OF _ held]
    show ?case
    proof (cases "visits_drop count i \<and> holds ! pl_base (mi_place i) = HOLDS_NOTHING")
      case True
      then have "pl_base (mi_place i) < count + 1" by (simp add: visits_drop_def has_base_def)
      then have "held (pl_base (mi_place i)) \<in> gamma (holds ! pl_base (mi_place i))" using Cons.prems(2) by blast
      then have "\<not> held (pl_base (mi_place i))" using True by simp
      moreover have "held_after count i held = held" using True by (simp add: held_after_def visits_drop_writes fun_eq_iff)
      ultimately show ?thesis
        using IH Cons.prems(1) True by (simp add: last_write_Cons visits_drop_writes split: option.split)
    next
      case False
      then have "prune count (i # is) holds = i # prune count is (walk_inst count i holds)" by auto
      then show ?thesis using IH Cons.prems(1) by (simp add: last_write_Cons)
    qed
  qed simp
  then show "drops_of count (prune count is holds) held = drops_of count is held"
    "last_write count v (prune count is holds) = last_write count v is" by blast+
qed

section \<open>Removing what is empty\<close>

lemma remove_in_block:
  "fold (\<lambda>(b, j) block. block_remove j block) (rev (empty_drops count b (length pre) is holds)) (pre @ is) =
     pre @ prune count is holds"
proof (induction "is" arbitrary: pre holds)
  case (Cons i "is")
  from Cons.IH [of "pre @ [i]" "walk_inst count i holds"] show ?case
    by (auto simp: block_remove_def)
qed simp

lemma remove_in_blocks:
  assumes "b < length bs"
  shows "fold (\<lambda>(b, j) bs. bs[b := block_remove j (bs ! b)]) (rev (empty_drops count b j is holds)) bs =
     bs[b := fold (\<lambda>(b, j) block. block_remove j block) (rev (empty_drops count b j is holds)) (bs ! b)]"
proof -
  have "fold (\<lambda>(b, j) bs. bs[b := block_remove j (bs ! b)]) es bs =
     bs[b := fold (\<lambda>(b, j) block. block_remove j block) es (bs ! b)]" if "\<forall>(c, j) \<in> set es. c = b" "b < length bs" for es bs
    using that by (induction es arbitrary: bs) auto
  moreover have "\<forall>(c, j) \<in> set (empty_drops count b j is holds). c = b"
    by (induction "is" arbitrary: j holds) (simp, force)
  ultimately show ?thesis using assms by simp
qed

lemma drop_releases_blocks:
  assumes "entry_holdings ir = Some E" "mir_wf ir"
  shows "drop_releases_of_emptied_places ir =
     Some (ir\<lparr>mf_blocks := map (\<lambda>b. prune (length (mf_values ir)) (mf_blocks ir ! b) (E ! b)) [0..<length (mf_blocks ir)]\<rparr>)"
proof -
  let ?c = "length (mf_values ir)" and ?n = "length (mf_blocks ir)"
  let ?f = "\<lambda>b. empty_drops ?c b 0 (mf_blocks ir ! b) (E ! b)"
  let ?g = "\<lambda>(b, j) bs. bs[b := block_remove j (bs ! b)]"
  have "fold ?g (rev (concat (map ?f [0..<m]))) bs =
      map (\<lambda>b. if b < m then prune ?c (mf_blocks ir ! b) (E ! b) else bs ! b) [0..<?n]"
    if "m \<le> ?n" "length bs = ?n" "\<forall>b < m. bs ! b = mf_blocks ir ! b" for m bs
    using that
  proof (induction m arbitrary: bs)
    case 0
    then show ?case using map_nth [of bs] by simp
  next
    case (Suc m)
    let ?bs = "bs[m := prune ?c (mf_blocks ir ! m) (E ! m)]"
    have "fold ?g (rev (?f m)) bs = ?bs"
      using remove_in_blocks [of m bs ?c 0 "mf_blocks ir ! m" "E ! m"]
        remove_in_block [of ?c m "[]" "mf_blocks ir ! m" "E ! m"] Suc.prems by simp
    moreover have "fold ?g (rev (concat (map ?f [0..<m]))) ?bs =
        map (\<lambda>b. if b < m then prune ?c (mf_blocks ir ! b) (E ! b) else ?bs ! b) [0..<?n]"
      by (rule Suc.IH) (use Suc.prems in auto)
    ultimately show ?case using Suc.prems by (auto simp: nth_list_update less_Suc_eq)
  qed
  from this [of ?n "mf_blocks ir"] show ?thesis
    using assms by (auto simp: drop_releases_of_emptied_places_def mir_wf_def)
qed

lemma pruned_path_drops:
  assumes "mir_wf ir" "rows_ok ir E" "holdings_pass ir E = E" "block_path ir b path" "b < length (mf_blocks ir)"
    "\<forall>v < length (mf_values ir) + 1. held v \<in> gamma (E ! b ! v)"
  shows "drops_of (length (mf_values ir)) (concat (map (\<lambda>b. prune (length (mf_values ir)) (mf_blocks ir ! b) (E ! b)) (b # path))) held =
     drops_of (length (mf_values ir)) (concat (map (\<lambda>b. mf_blocks ir ! b) (b # path))) held"
  using assms(4-6)
proof (induction path arbitrary: b held)
  case Nil
  then show ?case using prune_drops(1) [of "E ! b" "length (mf_values ir)" held] assms(2) by (simp add: rows_ok_def)
next
  case (Cons s path)
  let ?c = "length (mf_values ir)"
  have len: "length (E ! b) = ?c + 1" using Cons.prems(2) assms(2) by (simp add: rows_ok_def)
  let ?held = "fold (held_after ?c) (mf_blocks ir ! b) held"
  have fl: "flows ir b s" "block_path ir s path" using Cons.prems(1) by auto
  have onwards: "\<forall>v < ?c + 1. ?held v \<in> gamma (E ! s ! v)"
    using fixpoint_flow [OF assms(1-3) _ fl(1)] Cons.prems(3) by (auto simp: fold_held_after passes_on_def)
  have same: "fold (held_after ?c) (prune ?c (mf_blocks ir ! b) (E ! b)) held = ?held"
    using prune_drops(2) [OF len Cons.prems(3)] by (simp add: fold_held_after fun_eq_iff)
  have "drops_of ?c (concat (map (\<lambda>b. prune ?c (mf_blocks ir ! b) (E ! b)) (s # path))) ?held =
     drops_of ?c (concat (map (\<lambda>b. mf_blocks ir ! b) (s # path))) ?held"
    by (rule Cons.IH [OF fl(2) mir_wf_flows [OF assms(1) fl(1)] onwards])
  then show ?case using prune_drops(1) [OF len Cons.prems(3)] same by (simp add: drops_of_append)
qed

lemma path_blocks:
  assumes "mir_wf ir" "b < length (mf_blocks ir)" "block_path ir b path"
  shows "\<forall>b \<in> set (b # path). b < length (mf_blocks ir)"
  using assms(2,3) by (induction path arbitrary: b) (auto dest: mir_wf_flows [OF assms(1)])

lemma releases_pruned:
  assumes "mir_wf ir" "block_path ir (mf_entry ir) path"
  shows "\<exists>E ir'. entry_holdings ir = Some E \<and> drop_releases_of_emptied_places ir = Some ir' \<and>
     drops_on ir' (mf_entry ir # path) = drops_on ir (mf_entry ir # path) \<and> mf_values ir' = mf_values ir \<and>
     mf_blocks ir' = map (\<lambda>b. prune (length (mf_values ir)) (mf_blocks ir ! b) (E ! b)) [0..<length (mf_blocks ir)]"
proof -
  obtain E where E: "entry_holdings ir = Some E" "rows_ok ir E" "holdings_pass ir E = E"
    using holdings_loop_ends [OF assms(1)] by blast
  let ?bs = "map (\<lambda>b. prune (length (mf_values ir)) (mf_blocks ir ! b) (E ! b)) [0..<length (mf_blocks ir)]"
  have entry: "mf_entry ir < length (mf_blocks ir)" using assms(1) by (simp add: mir_wf_def)
  have eq: "map (\<lambda>b. ?bs ! b) (mf_entry ir # path) =
      map (\<lambda>b. prune (length (mf_values ir)) (mf_blocks ir ! b) (E ! b)) (mf_entry ir # path)"
    using path_blocks [OF assms(1) entry assms(2)] by auto
  have "drops_on (ir\<lparr>mf_blocks := ?bs\<rparr>) (mf_entry ir # path) =
      drops_of (length (mf_values ir)) (concat (map (\<lambda>b. ?bs ! b) (mf_entry ir # path))) (\<lambda>_. True)"
    by (simp add: drops_on_def del: list.map map_map map_eq_conv)
  also have "\<dots> = drops_on ir (mf_entry ir # path)"
    unfolding eq drops_on_def
    by (rule pruned_path_drops [OF assms(1) E(2,3) assms(2) entry]) (use fixpoint_entry [OF assms(1) E(2,3)] in blast)
  finally have "drops_on (ir\<lparr>mf_blocks := ?bs\<rparr>) (mf_entry ir # path) = drops_on ir (mf_entry ir # path)" .
  then show ?thesis using drop_releases_blocks [OF E(1) assms(1)] E(1) by simp
qed

text \<open>C19: dropping the releases of emptied places always returns, and it never changes what is released:
  along every path from the entry, the drops that release something are the same instructions in the
  same order as before.  What it takes out of a block are exactly the drops of values the analysis
  says hold nothing there.\<close>

theorem emptied_releases_release_nothing:
  assumes "mir_wf ir" "block_path ir (mf_entry ir) path"
  shows "\<exists>E ir'. entry_holdings ir = Some E \<and> drop_releases_of_emptied_places ir = Some ir' \<and>
     drops_on ir' (mf_entry ir # path) = drops_on ir (mf_entry ir # path) \<and> mf_values ir' = mf_values ir \<and>
     mf_blocks ir' = map (\<lambda>b. prune (length (mf_values ir)) (mf_blocks ir ! b) (E ! b)) [0..<length (mf_blocks ir)]"
  by (rule releases_pruned [OF assms])

section \<open>The analysis of the pruned function\<close>

lemma prune_append_kept:
  assumes "mi_op x \<noteq> MIR_DROP"
  shows "\<exists>ys. prune count (xs @ [x]) holds = ys @ [x]"
proof (induction xs arbitrary: holds)
  case (Cons y xs)
  obtain ys where "prune count (xs @ [x]) (walk_inst count y holds) = ys @ [x]" using Cons by blast
  then show ?case by (metis append.assoc append_Cons prune.simps(2))
qed (use assms in \<open>simp add: visits_drop_def\<close>)

lemma prune_successors:
  assumes "block = [] \<or> mi_op (last block) \<noteq> MIR_DROP"
  shows "mir_block_successors (prune count block holds) = mir_block_successors block"
proof (cases "block = []")
  case False
  then obtain xs x where b: "block = xs @ [x]" by (cases block rule: rev_cases) auto
  then obtain ys where "prune count block holds = ys @ [x]" using prune_append_kept assms by force
  then have "last (prune count block holds) = x" "length (prune count block holds) > 0" "last block = x" "length block > 0"
    using b by simp_all
  then show ?thesis unfolding mir_block_successors_def mir_block_is_terminated_def by (simp only:)
qed simp

lemma prune_walk: "walk_block count (prune count is holds) other = walk_block count is other"
  unfolding walk_block_def
  by (induction "is" arbitrary: holds other) (auto simp: visits_drop_walk)

definition pruned :: "mir_function \<Rightarrow> holdings list \<Rightarrow> mir_function" where
  "pruned ir E =
     ir\<lparr>mf_blocks := map (\<lambda>b. prune (length (mf_values ir)) (mf_blocks ir ! b) (E ! b)) [0..<length (mf_blocks ir)]\<rparr>"

definition ends_without_drop :: "mir_function \<Rightarrow> bool" where
  "ends_without_drop ir \<longleftrightarrow> (\<forall>b \<in> set (mf_blocks ir). b = [] \<or> mi_op (last b) \<noteq> MIR_DROP)"

lemma pruned_pass:
  assumes "ends_without_drop ir"
  shows "holdings_pass (pruned ir E) X = holdings_pass ir X" "object_rows (pruned ir E) = object_rows ir"
proof -
  have "edges_of (pruned ir E) X = edges_of ir X"
    using assms by (auto simp: edges_of_def pruned_def prune_walk prune_successors ends_without_drop_def
        intro!: arg_cong [where f = concat] map_cong)
  moreover show "object_rows (pruned ir E) = object_rows ir" by (simp add: object_rows_def pruned_def)
  ultimately show "holdings_pass (pruned ir E) X = holdings_pass ir X"
    by (simp add: holdings_pass_edges) (simp add: pruned_def)
qed

lemma holdings_loop_cong:
  assumes "holdings_loop ir X = Some Y" "\<And>X. holdings_pass ir' X = holdings_pass ir X"
  shows "holdings_loop ir' X = Some Y"
proof -
  have "(\<forall>X. holdings_pass ir' X = holdings_pass ir X) \<longrightarrow> holdings_loop ir' X = Some Y"
    using assms(1)
  proof (rule holdings_loop.raw_induct [rotated])
    fix loop :: "mir_function \<Rightarrow> holdings list \<Rightarrow> holdings list option" and ir X Y
    assume IH: "\<And>ir X Y. loop ir X = Some Y \<Longrightarrow> (\<forall>X. holdings_pass ir' X = holdings_pass ir X) \<longrightarrow> holdings_loop ir' X = Some Y"
      and step: "(let next_entries = holdings_pass ir X in if next_entries = X then Some X else loop ir next_entries) = Some Y"
    show "(\<forall>X. holdings_pass ir' X = holdings_pass ir X) \<longrightarrow> holdings_loop ir' X = Some Y"
      using IH step by (subst holdings_loop.simps) (auto simp: Let_def split: if_splits)
  qed
  then show ?thesis using assms(2) by blast
qed

lemma pruned_entry_holdings:
  assumes "ends_without_drop ir" "entry_holdings ir = Some F"
  shows "entry_holdings (pruned ir E) = Some F"
  using holdings_loop_cong [of ir "object_rows ir" F "pruned ir E"] assms(2) pruned_pass [OF assms(1)]
  by (simp add: entry_holdings_def)

section \<open>Which drops get which flag\<close>

text \<open>The instructions of a block once every conditional drop has its flag.\<close>

fun flagged :: "nat \<Rightarrow> nat list \<Rightarrow> mir_inst list \<Rightarrow> holdings \<Rightarrow> mir_inst list" where
  "flagged count flags [] holds = []"
| "flagged count flags (i # is) holds =
     (if visits_drop count i \<and> holds ! pl_base (mi_place i) = HOLDS_EITHER
      then i\<lparr>mi_flag := flags ! pl_base (mi_place i)\<rparr> else i) #
     flagged count flags is (walk_inst count i holds)"

fun either_drops :: "nat \<Rightarrow> mir_inst list \<Rightarrow> holdings \<Rightarrow> nat list" where
  "either_drops count [] holds = []"
| "either_drops count (i # is) holds =
     (if visits_drop count i \<and> holds ! pl_base (mi_place i) = HOLDS_EITHER then [pl_base (mi_place i)] else []) @
     either_drops count is (walk_inst count i holds)"

definition flags_ok :: "nat \<Rightarrow> nat \<Rightarrow> nat list \<Rightarrow> bool" where
  "flags_ok count lim flags \<longleftrightarrow>
     length flags = count + 1 \<and>
     (\<forall>v < count + 1. mir_value_is_none (flags ! v) \<or> count \<le> flags ! v \<and> flags ! v < lim) \<and>
     (\<forall>u < count + 1. \<forall>v < count + 1. flags ! u = flags ! v \<longrightarrow> \<not> mir_value_is_none (flags ! v) \<longrightarrow> u = v)"

definition flags_le :: "nat list \<Rightarrow> nat list \<Rightarrow> bool" where
  "flags_le F G \<longleftrightarrow> length G = length F \<and> (\<forall>v < length F. \<not> mir_value_is_none (F ! v) \<longrightarrow> G ! v = F ! v)"

lemma flags_le_refl [simp]: "flags_le F F"
  by (simp add: flags_le_def)

lemma flags_le_trans: "flags_le F G \<Longrightarrow> flags_le G H \<Longrightarrow> flags_le F H"
  by (auto simp: flags_le_def)

definition bases_known :: "nat \<Rightarrow> mir_inst \<Rightarrow> bool" where
  "bases_known count i \<longleftrightarrow>
     (mir_op_has_place (mi_op i) \<longrightarrow> mir_value_is_none (pl_base (mi_place i)) \<or> pl_base (mi_place i) < count)"

lemma bases_known_simps:
  assumes "bases_known count i" "count \<le> lim"
  shows "has_base lim i = has_base count i" "visits_drop lim i = visits_drop count i"
    "walk_inst lim i = walk_inst count i" "flag_of lim flags i = flag_of count flags i"
proof -
  show h: "has_base lim i = has_base count i" using assms by (auto simp: bases_known_def has_base_def)
  show "visits_drop lim i = visits_drop count i" "walk_inst lim i = walk_inst count i"
      "flag_of lim flags i = flag_of count flags i"
    by (simp_all add: visits_drop_def walk_inst_def flag_of_def h fun_eq_iff)
qed

lemma note_drop_sound:
  assumes "note_conditional_drop reg i h (ir, flags) = ((ir', flags'), i')" "flags_ok count (length (mf_values ir)) flags"
    "pl_base (mi_place i) < count" "count \<le> length (mf_values ir)" "length (mf_values ir') < 4294967295"
  shows "length (mf_values ir) \<le> length (mf_values ir') \<and> flags_ok count (length (mf_values ir')) flags' \<and> flags_le flags flags' \<and>
     i' = (if h = HOLDS_EITHER then i\<lparr>mi_flag := flags' ! pl_base (mi_place i)\<rparr> else i) \<and>
     (h = HOLDS_EITHER \<longrightarrow> \<not> mir_value_is_none (flags' ! pl_base (mi_place i)))"
proof (cases "h = HOLDS_EITHER \<and> mir_value_is_none (flags ! pl_base (mi_place i))")
  case True
  then have out: "flags' = flags[pl_base (mi_place i) := length (mf_values ir)]"
      "length (mf_values ir') = length (mf_values ir) + 1" "i' = i\<lparr>mi_flag := flags' ! pl_base (mi_place i)\<rparr>"
    using assms(1) by (auto simp: note_conditional_drop_def mir_value_create_def Let_def)
  have new: "\<not> mir_value_is_none (length (mf_values ir))" using out(2) assms(5) by (simp add: mir_value_is_none_def)
  have len: "length flags = count + 1" using assms(2) by (simp add: flags_ok_def)
  have "flags_ok count (length (mf_values ir')) flags'"
    unfolding flags_ok_def
  proof (intro conjI allI impI)
    show "length flags' = count + 1" by (simp add: out len)
    fix v assume v: "v < count + 1"
    show "mir_value_is_none (flags' ! v) \<or> count \<le> flags' ! v \<and> flags' ! v < length (mf_values ir')"
      using assms(2,4) v len unfolding out(1,2) flags_ok_def
      by (cases "v = pl_base (mi_place i)") (auto simp: less_SucI)
    fix u assume u: "u < count + 1" and same: "flags' ! v = flags' ! u" and some: "\<not> mir_value_is_none (flags' ! u)"
    have fresh: "flags ! w \<noteq> length (mf_values ir)" if "w < count + 1" for w
      using assms(2) that new by (metis flags_ok_def less_irrefl)
    show "v = u"
    proof (cases "u = pl_base (mi_place i) \<or> v = pl_base (mi_place i)")
      case True
      then show ?thesis using same u v len fresh unfolding out(1) by (metis len nth_list_update)
    next
      case False
      then have "flags ! v = flags ! u" "\<not> mir_value_is_none (flags ! u)" using same some by (simp_all add: out(1))
      then show ?thesis using assms(2) u v unfolding flags_ok_def by blast
    qed
  qed
  moreover have "flags_le flags flags'" using True len assms(3) by (auto simp: flags_le_def out nth_list_update)
  moreover have "flags' ! pl_base (mi_place i) = length (mf_values ir)" using assms(3) len by (simp add: out)
  ultimately show ?thesis using True out new by simp
next
  case False
  then show ?thesis using assms(1,2) by (auto simp: note_conditional_drop_def Let_def)
qed

lemma flag_values_grow:
  "length (mf_values (fst st)) \<le> length (mf_values (fst (fst (flag_insts reg is holds st))))"
proof (induction "is" arbitrary: holds st)
  case (Cons i "is")
  have grows: "length (mf_values (fst st)) \<le> length (mf_values (fst (fst (note_conditional_drop reg i h st))))" for h
    by (cases st) (simp add: note_conditional_drop_def mir_value_create_def Let_def)
  show ?case
    using Cons.IH [of st "walk_inst (length (mf_values (fst st))) i holds"]
      Cons.IH [of "fst (note_conditional_drop reg i (holds ! pl_base (mi_place i)) st)"
        "walk_inst (length (mf_values (fst st))) i holds"] grows [of "holds ! pl_base (mi_place i)"]
    by (auto simp: case_prod_beta Let_def split: if_splits)
qed simp

lemma flag_insts_sound:
  assumes "flag_insts reg is holds (ir, flags) = ((ir', flags'), is')" "flags_ok count (length (mf_values ir)) flags"
    "\<forall>i \<in> set is. bases_known count i" "count \<le> length (mf_values ir)" "length (mf_values ir') < 4294967295"
  shows "flags_ok count (length (mf_values ir')) flags' \<and> flags_le flags flags' \<and>
     (\<forall>G. flags_le flags' G \<longrightarrow> is' = flagged count G is holds) \<and>
     (\<forall>v \<in> set (either_drops count is holds). \<not> mir_value_is_none (flags' ! v)) \<and> set (either_drops count is holds) \<subseteq> {..<count}"
  using assms
proof (induction "is" arbitrary: holds ir flags is')
  case (Cons i "is")
  let ?h = "holds ! pl_base (mi_place i)"
  have base: "bases_known count i" using Cons.prems(3) by simp
  note same = bases_known_simps [OF base Cons.prems(4)]
  obtain ir1 flags1 i1 where one: "(if visits_drop count i then note_conditional_drop reg i ?h (ir, flags) else ((ir, flags), i)) =
      ((ir1, flags1), i1)" by (metis prod.collapse)
  obtain is1 where rest: "flag_insts reg is (walk_inst count i holds) (ir1, flags1) = ((ir', flags'), is1)" and is': "is' = i1 # is1"
    using Cons.prems(1) one unfolding flag_insts.simps Let_def fst_conv same by (auto split: prod.splits)
  have small: "length (mf_values ir1) < 4294967295"
    using flag_values_grow [of "(ir1, flags1)" reg "is" "walk_inst count i holds"] rest Cons.prems(5) by simp
  have step: "count \<le> length (mf_values ir1) \<and> flags_ok count (length (mf_values ir1)) flags1 \<and> flags_le flags flags1 \<and>
     i1 = (if visits_drop count i \<and> ?h = HOLDS_EITHER then i\<lparr>mi_flag := flags1 ! pl_base (mi_place i)\<rparr> else i) \<and>
     (visits_drop count i \<and> ?h = HOLDS_EITHER \<longrightarrow> \<not> mir_value_is_none (flags1 ! pl_base (mi_place i)))"
  proof (cases "visits_drop count i")
    case True
    then have "pl_base (mi_place i) < count" by (simp add: visits_drop_def has_base_def)
    moreover have "note_conditional_drop reg i ?h (ir, flags) = ((ir1, flags1), i1)" using one True by simp
    ultimately have "length (mf_values ir) \<le> length (mf_values ir1) \<and> flags_ok count (length (mf_values ir1)) flags1 \<and>
        flags_le flags flags1 \<and> i1 = (if ?h = HOLDS_EITHER then i\<lparr>mi_flag := flags1 ! pl_base (mi_place i)\<rparr> else i) \<and>
        (?h = HOLDS_EITHER \<longrightarrow> \<not> mir_value_is_none (flags1 ! pl_base (mi_place i)))"
      using note_drop_sound [OF _ Cons.prems(2) _ Cons.prems(4) small] by blast
    then show ?thesis using True Cons.prems(4) by (simp del: One_nat_def)
  next
    case False
    then show ?thesis using one Cons.prems by auto
  qed
  have IH: "flags_ok count (length (mf_values ir')) flags' \<and> flags_le flags1 flags' \<and>
     (\<forall>G. flags_le flags' G \<longrightarrow> is1 = flagged count G is (walk_inst count i holds)) \<and>
     (\<forall>v \<in> set (either_drops count is (walk_inst count i holds)). \<not> mir_value_is_none (flags' ! v)) \<and>
     set (either_drops count is (walk_inst count i holds)) \<subseteq> {..<count}"
    by (rule Cons.IH [OF rest]) (use step Cons.prems in auto)
  have keep: "G ! pl_base (mi_place i) = flags1 ! pl_base (mi_place i)"
    if "flags_le flags' G" "visits_drop count i" "?h = HOLDS_EITHER" for G
  proof -
    have "pl_base (mi_place i) < length flags1" "flags_le flags1 G"
      using that(2) step IH flags_le_trans that(1) by (auto simp: visits_drop_def has_base_def flags_ok_def)
    then show ?thesis using step that(2,3) by (auto simp: flags_le_def)
  qed
  show ?case
  proof (intro conjI allI impI ballI)
    show "flags_ok count (length (mf_values ir')) flags'" using IH by blast
    show "flags_le flags flags'" using IH step flags_le_trans by blast
    show "is' = flagged count G (i # is) holds" if "flags_le flags' G" for G
      using IH step is' keep [OF that] that by auto
    show "\<not> mir_value_is_none (flags' ! v)" if "v \<in> set (either_drops count (i # is) holds)" for v
      using that IH step keep [of flags'] by (auto split: if_splits)
    show "set (either_drops count (i # is) holds) \<subseteq> {..<count}"
      using IH by (auto simp: visits_drop_def has_base_def)
  qed
qed simp

lemma flag_blocks_grow:
  "length (mf_values (fst st)) \<le> length (mf_values (fst (fst (flag_blocks reg bs es st))))"
proof (induction bs arbitrary: es st)
  case (Cons b bs)
  show ?case
  proof (cases es)
    case (Cons e es')
    have "length (mf_values (fst st)) \<le> length (mf_values (fst (fst (flag_insts reg b e st))))" by (rule flag_values_grow)
    also have "\<dots> \<le> length (mf_values (fst (fst (flag_blocks reg bs es' (fst (flag_insts reg b e st))))))" by (rule Cons.IH)
    finally show ?thesis using Cons by (simp add: case_prod_beta Let_def)
  qed simp
qed simp

lemma flag_blocks_sound:
  assumes "flag_blocks reg bs es (ir, flags) = ((ir', flags'), bs')" "flags_ok count (length (mf_values ir)) flags"
    "\<forall>b \<in> set bs. \<forall>i \<in> set b. bases_known count i" "count \<le> length (mf_values ir)" "length (mf_values ir') < 4294967295"
    "length es = length bs"
  shows "flags_ok count (length (mf_values ir')) flags' \<and> flags_le flags flags' \<and> length (mf_values ir) \<le> length (mf_values ir') \<and>
     (\<forall>G. flags_le flags' G \<longrightarrow> bs' = map2 (flagged count G) bs es) \<and>
     (\<forall>b < length bs. \<forall>v \<in> set (either_drops count (bs ! b) (es ! b)). v < count \<and> \<not> mir_value_is_none (flags' ! v))"
  using assms
proof (induction bs arbitrary: es ir flags bs')
  case (Cons b bs)
  obtain e es' where es: "es = e # es'" using Cons.prems(6) by (cases es) auto
  obtain ir1 flags1 b1 where one: "flag_insts reg b e (ir, flags) = ((ir1, flags1), b1)" by (metis prod.collapse)
  obtain st2 bs1 where rest0: "flag_blocks reg bs es' (ir1, flags1) = (st2, bs1)" by fastforce
  have "((ir', flags'), bs') = (st2, b1 # bs1)"
    using Cons.prems(1) unfolding es flag_blocks.simps Let_def one prod.case rest0 by (rule sym)
  then have rest: "flag_blocks reg bs es' (ir1, flags1) = ((ir', flags'), bs1)" and bs': "bs' = b1 # bs1"
    using rest0 by simp_all
  have grow1: "length (mf_values ir) \<le> length (mf_values ir1)"
    using flag_values_grow [of "(ir, flags)" reg b e] one by simp
  have grow2: "length (mf_values ir1) \<le> length (mf_values ir')"
    using flag_blocks_grow [of "(ir1, flags1)" reg bs es'] rest by simp
  have ok1: "flags_ok count (length (mf_values ir1)) flags1 \<and> flags_le flags flags1 \<and>
     (\<forall>G. flags_le flags1 G \<longrightarrow> b1 = flagged count G b e) \<and>
     (\<forall>v \<in> set (either_drops count b e). \<not> mir_value_is_none (flags1 ! v)) \<and> set (either_drops count b e) \<subseteq> {..<count}"
    by (rule flag_insts_sound [OF one Cons.prems(2)]) (use Cons.prems grow2 in auto)
  have IH: "flags_ok count (length (mf_values ir')) flags' \<and> flags_le flags1 flags' \<and> length (mf_values ir1) \<le> length (mf_values ir') \<and>
     (\<forall>G. flags_le flags' G \<longrightarrow> bs1 = map2 (flagged count G) bs es') \<and>
     (\<forall>b < length bs. \<forall>v \<in> set (either_drops count (bs ! b) (es' ! b)). v < count \<and> \<not> mir_value_is_none (flags' ! v))"
    by (rule Cons.IH [OF rest]) (use ok1 Cons.prems grow1 es in auto)
  have kept: "\<not> mir_value_is_none (flags' ! v)" if "v \<in> set (either_drops count b e)" for v
  proof -
    have "v < length flags1" "\<not> mir_value_is_none (flags1 ! v)" using that ok1 by (auto simp: flags_ok_def)
    then show ?thesis using IH by (auto simp: flags_le_def)
  qed
  show ?case
  proof (intro conjI allI impI ballI)
    show "flags_le flags flags'" using ok1 IH flags_le_trans by blast
    show "length (mf_values ir) \<le> length (mf_values ir')" using grow1 grow2 by simp
    show "bs' = map2 (flagged count G) (b # bs) es" if "flags_le flags' G" for G
      using ok1 IH that flags_le_trans by (auto simp: bs' es)
    fix c v assume c: "c < length (b # bs)" and v: "v \<in> set (either_drops count ((b # bs) ! c) (es ! c))"
    show "v < count" using c v ok1 IH by (cases c) (auto simp: es)
    show "\<not> mir_value_is_none (flags' ! v)" using c v kept IH by (cases c) (auto simp: es)
  qed (use IH in blast)
qed simp

section \<open>Flags at run time\<close>

text \<open>The emitted code for a drop releases its place unless it has a flag that is clear; an id that is a
  value of the function itself is no flag.  A flag is clear until it is written.\<close>

definition flag_argument :: "mir_inst \<Rightarrow> bool" where
  "flag_argument i = (case mi_args i of [OPERAND_CONST c] \<Rightarrow> as_bool (ct_value c) | _ \<Rightarrow> False)"

definition set_flag :: "mir_inst \<Rightarrow> (nat \<Rightarrow> bool) \<Rightarrow> nat \<Rightarrow> bool" where
  "set_flag i fv = (if mi_op i = MIR_DROP_FLAG then fv(mi_flag i := flag_argument i) else fv)"

fun guarded_drops :: "nat \<Rightarrow> mir_inst list \<Rightarrow> (nat \<Rightarrow> bool) \<Rightarrow> mir_inst list" where
  "guarded_drops count [] fv = []"
| "guarded_drops count (i # is) fv =
     (if mi_op i = MIR_DROP \<and> (mi_flag i < count \<or> fv (mi_flag i)) then [i] else []) @
     guarded_drops count is (set_flag i fv)"

lemma guarded_drops_append:
  "guarded_drops count (xs @ ys) fv = guarded_drops count xs fv @ guarded_drops count ys (fold set_flag xs fv)"
  by (induction xs arbitrary: fv) simp_all

text \<open>Every conditional drop on the way is of a value written on the way before it.\<close>

fun written_first :: "nat \<Rightarrow> nat set \<Rightarrow> nat set \<Rightarrow> mir_inst list \<Rightarrow> bool" where
  "written_first count conditional written [] = True"
| "written_first count conditional written (i # is) \<longleftrightarrow>
     (visits_drop count i \<longrightarrow> pl_base (mi_place i) \<in> conditional \<longrightarrow> pl_base (mi_place i) \<in> written) \<and>
     written_first count conditional (written \<union> {v. writes count v i \<noteq> None}) is"

definition written_after :: "nat \<Rightarrow> mir_inst \<Rightarrow> nat set \<Rightarrow> nat set" where
  "written_after count i W = W \<union> {v. writes count v i \<noteq> None}"

lemma written_first_append:
  "written_first count C W (xs @ ys) \<longleftrightarrow>
     written_first count C W xs \<and> written_first count C (fold (written_after count) xs W) ys"
  by (induction xs arbitrary: W) (auto simp: written_after_def)

definition guarded_inst :: "type_registry \<Rightarrow> nat \<Rightarrow> nat list \<Rightarrow> mir_inst \<Rightarrow> mir_inst list" where
  "guarded_inst reg count G i =
     filter (\<lambda>j. \<not> (mi_op j = MIR_NULL \<and> \<not> mir_value_is_none (flag_of count G j))) (write_flag reg count G i)"

definition unflag :: "mir_inst \<Rightarrow> mir_inst" where
  "unflag i = i\<lparr>mi_flag := 0\<rparr>"

definition flags_follow :: "nat \<Rightarrow> nat list \<Rightarrow> nat set \<Rightarrow> (nat \<Rightarrow> bool) \<Rightarrow> (nat \<Rightarrow> bool) \<Rightarrow> bool" where
  "flags_follow count G W held fv \<longleftrightarrow>
     (\<forall>v < count. v \<in> W \<longrightarrow> \<not> mir_value_is_none (G ! v) \<longrightarrow> fv (G ! v) = held v)"

lemma flag_of_none:
  "\<not> (has_base count i \<and> is_whole i) \<Longrightarrow> mir_value_is_none (flag_of count G i)"
  by (auto simp add: flag_of_def mir_value_is_none_def MIR_NO_VALUE_def)

lemma guarded_inst_plain:
  assumes "\<And>v. writes count v i = None"
  shows "guarded_inst reg count G i = [i]"
proof (cases "has_base count i \<and> is_whole i")
  case True
  then have "mi_op i \<noteq> MIR_NULL" "mi_op i \<noteq> MIR_STORE" "mi_op i \<noteq> MIR_STORAGE_INIT"
    using assms [of "pl_base (mi_place i)"] by (auto simp: writes_def split: if_splits)
  then show ?thesis by (simp add: guarded_inst_def write_flag_def Let_def)
next
  case False
  then show ?thesis using flag_of_none [OF False, of G] by (simp add: guarded_inst_def write_flag_def Let_def)
qed

lemma guarded_inst_write:
  assumes "writes count v i = Some x"
  shows "fold set_flag (guarded_inst reg count G i) fv =
      (if mir_value_is_none (G ! v) then set_flag i fv else (set_flag i fv)(G ! v := x))"
    "guarded_drops count (guarded_inst reg count G i) fv = []"
proof -
  have i: "has_base count i" "is_whole i" "pl_base (mi_place i) = v"
      "mi_op i = MIR_NULL \<and> \<not> x \<or> (mi_op i = MIR_STORE \<or> mi_op i = MIR_STORAGE_INIT) \<and> x"
    using assms by (auto simp: writes_def split: if_splits)
  let ?flag = "(inst_of MIR_DROP_FLAG (type_registry_get_primitive reg TYPE_BOOL) MIR_NO_VALUE (mi_span i))
              \<lparr>mi_args := [mir_operand_const (constant_bool (type_registry_get_primitive reg TYPE_BOOL) x)],
               mi_place := mi_place i, mi_flag := G ! v\<rparr>"
  have set: "set_flag ?flag fv = fv(G ! v := x)" for fv
    by (simp add: set_flag_def flag_argument_def mir_operand_const_def constant_bool_def inst_of_def)
  have flag: "flag_of count G i = G ! v" using i by (simp add: flag_of_def)
  have list: "guarded_inst reg count G i =
      (if mir_value_is_none (G ! v) then [i] else if mi_op i = MIR_NULL then [?flag] else [i, ?flag])"
    using i(4) unfolding guarded_inst_def write_flag_def Let_def flag
    by (elim disjE conjE) (simp_all add: flag inst_of_def)
  have null: "mi_op i = MIR_NULL \<Longrightarrow> set_flag i fv = fv" by (simp add: set_flag_def)
  show "fold set_flag (guarded_inst reg count G i) fv =
      (if mir_value_is_none (G ! v) then set_flag i fv else (set_flag i fv)(G ! v := x))"
    unfolding list using null set by (simp del: type_registry_get_primitive.simps)
  have "mi_op ?flag \<noteq> MIR_DROP" "mi_op i \<noteq> MIR_DROP" using i(4) by (auto simp: inst_of_def)
  then show "guarded_drops count (guarded_inst reg count G i) fv = []" unfolding list by simp
qed

text \<open>What the instructions that replace one do to the flags, and that they drop what it drops.\<close>

lemma guarded_inst_flags:
  assumes "flags_ok count lim G" "flags_follow count G W held fv" "mi_op i \<noteq> MIR_DROP_FLAG"
  shows "flags_follow count G (written_after count i W) (held_after count i held) (fold set_flag (guarded_inst reg count G i) fv)"
proof (cases "\<exists>v x. writes count v i = Some x")
  case False
  then have none: "\<And>v. writes count v i = None" by auto
  then have "fold set_flag (guarded_inst reg count G i) fv = fv" "written_after count i W = W" "held_after count i held = held"
    using assms(3) by (simp_all add: guarded_inst_plain set_flag_def written_after_def held_after_def fun_eq_iff)
  then show ?thesis using assms(2) by simp
next
  case True
  then obtain v x where w: "writes count v i = Some x" by blast
  have same: "set_flag i fv = fv" using assms(3) by (simp add: set_flag_def)
  have v: "v < count" using w by (auto simp: writes_def has_base_def split: if_splits)
  have other: "writes count u i = None" if "u \<noteq> v" for u
    using w that by (auto simp: writes_def split: if_splits)
  have held: "held_after count i held = held(v := x)" using w other by (auto simp: held_after_def fun_eq_iff)
  have W: "written_after count i W = insert v W" using w other unfolding written_after_def by (auto, metis option.distinct(1))
  have inj: "G ! u \<noteq> G ! v" if "u < count" "u \<noteq> v" "\<not> mir_value_is_none (G ! u)" "\<not> mir_value_is_none (G ! v)" for u
  proof
    assume "G ! u = G ! v"
    moreover have "u < count + 1" "v < count + 1" using that(1) v by simp_all
    ultimately show False using assms(1) that(2,4) unfolding flags_ok_def by blast
  qed
  show ?thesis
    unfolding guarded_inst_write(1) [OF w] same held W
    using assms(2) inj by (auto simp: flags_follow_def)
qed

lemma writes_flag: "writes count v (i\<lparr>mi_flag := f\<rparr>) = writes count v i"
proof -
  have "mi_op (i\<lparr>mi_flag := f\<rparr>) = mi_op i" "mi_place (i\<lparr>mi_flag := f\<rparr>) = mi_place i" by simp_all
  then show ?thesis unfolding writes_def has_base_def is_whole_def by (simp only:)
qed

lemma guarded_insts:
  assumes "flags_ok count lim G" "\<forall>v \<in> set (either_drops count is holds). \<not> mir_value_is_none (G ! v)"
    "length holds = count + 1" "\<forall>v < count + 1. held v \<in> gamma (holds ! v)"
    "\<forall>i \<in> set is. mi_flag i = 0 \<and> mi_op i \<noteq> MIR_DROP_FLAG" "0 < count"
    "flags_follow count G W held fv" "written_first count C W is" "set (either_drops count is holds) \<subseteq> C"
  shows "map unflag (guarded_drops count (concat (map (guarded_inst reg count G) (flagged count G (prune count is holds) holds))) fv) =
      drops_of count is held"
    "flags_follow count G (fold (written_after count) is W) (fold (held_after count) is held)
       (fold set_flag (concat (map (guarded_inst reg count G) (flagged count G (prune count is holds) holds))) fv)"
proof -
  have "map unflag (guarded_drops count (concat (map (guarded_inst reg count G) (flagged count G (prune count is holds) holds))) fv) =
      drops_of count is held \<and>
    flags_follow count G (fold (written_after count) is W) (fold (held_after count) is held)
       (fold set_flag (concat (map (guarded_inst reg count G) (flagged count G (prune count is holds) holds))) fv)"
    using assms(2-)
  proof (induction "is" arbitrary: holds held W fv)
    case (Cons i "is")
    let ?base = "pl_base (mi_place i)"
    have held: "\<forall>v < count + 1. held_after count i held v \<in> gamma (walk_inst count i holds ! v)"
      using Cons.prems(2,3) by (auto simp: walk_inst_gamma held_after_def split: option.split)
    have first: "written_first count C (written_after count i W) is" using Cons.prems(7) by (simp add: written_after_def)
    note IH = Cons.IH [OF _ _ held _ Cons.prems(5) _ first]
    show ?case
    proof (cases "visits_drop count i")
      case True
      have wr: "\<And>v. writes count v i = None" by (rule visits_drop_writes [OF True])
      have same: "walk_inst count i holds = holds" "held_after count i held = held" "written_after count i W = W"
        using True wr by (simp_all add: visits_drop_walk held_after_def written_after_def fun_eq_iff)
      have op: "mi_op i = MIR_DROP" "?base < count" using True by (auto simp: visits_drop_def has_base_def)
      have b: "held ?base \<in> gamma (holds ! ?base)" using Cons.prems(3) op(2) by simp
      have rest: "map unflag (guarded_drops count (concat (map (guarded_inst reg count G) (flagged count G (prune count is holds) holds))) fv) =
            drops_of count is held \<and>
          flags_follow count G (fold (written_after count) is W) (fold (held_after count) is held)
            (fold set_flag (concat (map (guarded_inst reg count G) (flagged count G (prune count is holds) holds))) fv)"
        using IH [of fv] Cons.prems same by simp
      let ?j = "if holds ! ?base = HOLDS_EITHER then i\<lparr>mi_flag := G ! ?base\<rparr> else i"
      show ?thesis
      proof (cases "holds ! ?base")
        case HOLDS_NOTHING
        then have "\<not> held ?base" using b by simp
        then show ?thesis using rest True HOLDS_NOTHING same by simp
      next
        case HOLDS_ITS_OBJECT
        then have h: "held ?base" using b by simp
        have plain: "guarded_inst reg count G i = [i]" by (rule guarded_inst_plain [OF wr])
        have "unflag i = i" "set_flag i fv = fv" using Cons.prems(4) op by (simp_all add: unflag_def set_flag_def)
        then show ?thesis
          using rest True HOLDS_ITS_OBJECT same h op Cons.prems(4,5) by (simp add: plain)
      next
        case HOLDS_EITHER
        then have some: "\<not> mir_value_is_none (G ! ?base)" using Cons.prems(1) True by simp
        have "?base \<in> W" using Cons.prems(7,8) True HOLDS_EITHER by simp
        then have fv: "fv (G ! ?base) = held ?base" using Cons.prems(6) op(2) some by (simp add: flags_follow_def)
        have "?base < count + 1" using op(2) by simp
        then have big: "count \<le> G ! ?base" using assms(1) some unfolding flags_ok_def by blast
        have "writes count v (i\<lparr>mi_flag := G ! ?base\<rparr>) = None" for v
          using wr [of v] by (simp only: writes_flag)
        then have plain: "guarded_inst reg count G (i\<lparr>mi_flag := G ! ?base\<rparr>) = [i\<lparr>mi_flag := G ! ?base\<rparr>]" by (rule guarded_inst_plain)
        have restored: "unflag (i\<lparr>mi_flag := G ! ?base\<rparr>) = i" using Cons.prems(4) by (simp add: unflag_def)
        have "set_flag (i\<lparr>mi_flag := G ! ?base\<rparr>) fv = fv" using op by (simp add: set_flag_def)
        then show ?thesis
          using rest True HOLDS_EITHER same op fv big by (simp add: plain restored)
      qed
    next
      case False
      have fl: "flags_follow count G (written_after count i W) (held_after count i held) (fold set_flag (guarded_inst reg count G i) fv)"
        by (rule guarded_inst_flags [OF assms(1) Cons.prems(6)]) (use Cons.prems(4) in simp)
      have own: "map unflag (guarded_drops count (guarded_inst reg count G i) fv) = (if mi_op i = MIR_DROP then [i] else [])"
      proof (cases "\<exists>v x. writes count v i = Some x")
        case True
        then obtain v x where w: "writes count v i = Some x" by blast
        then have "mi_op i \<noteq> MIR_DROP" by (auto simp: writes_def split: if_splits)
        then show ?thesis using guarded_inst_write(2) [OF w] by simp
      next
        case False
        then have "guarded_inst reg count G i = [i]" by (intro guarded_inst_plain) auto
        then show ?thesis using Cons.prems(4,5) by (simp add: unflag_def)
      qed
      show ?thesis
        using IH [of "fold set_flag (guarded_inst reg count G i) fv"] Cons.prems False fl own
        by (simp add: guarded_drops_append)
    qed
  qed simp
  then show "map unflag (guarded_drops count (concat (map (guarded_inst reg count G) (flagged count G (prune count is holds) holds))) fv) =
      drops_of count is held"
    "flags_follow count G (fold (written_after count) is W) (fold (held_after count) is held)
       (fold set_flag (concat (map (guarded_inst reg count G) (flagged count G (prune count is holds) holds))) fv)" by blast+
qed


lemma guarded_path:
  assumes "mir_wf ir" "rows_ok ir E" "holdings_pass ir E = E" "flags_ok (length (mf_values ir)) lim G" "0 < length (mf_values ir)"
    "\<forall>b \<in> set (mf_blocks ir). \<forall>i \<in> set b. mi_flag i = 0 \<and> mi_op i \<noteq> MIR_DROP_FLAG"
    "\<forall>b < length (mf_blocks ir). \<forall>v \<in> set (either_drops (length (mf_values ir)) (mf_blocks ir ! b) (E ! b)).
       v \<in> C \<and> \<not> mir_value_is_none (G ! v)"
    "block_path ir b path" "b < length (mf_blocks ir)" "\<forall>v < length (mf_values ir) + 1. held v \<in> gamma (E ! b ! v)"
    "flags_follow (length (mf_values ir)) G W held fv"
    "written_first (length (mf_values ir)) C W (concat (map (\<lambda>b. mf_blocks ir ! b) (b # path)))"
  shows "map unflag (guarded_drops (length (mf_values ir)) (concat (map (\<lambda>b. concat (map (guarded_inst reg (length (mf_values ir)) G)
       (flagged (length (mf_values ir)) G (prune (length (mf_values ir)) (mf_blocks ir ! b) (E ! b)) (E ! b)))) (b # path))) fv) =
     drops_of (length (mf_values ir)) (concat (map (\<lambda>b. mf_blocks ir ! b) (b # path))) held"
  using assms(8-)
proof (induction path arbitrary: b held W fv)
  case Nil
  have len: "length (E ! b) = length (mf_values ir) + 1" using Nil.prems(2) assms(2) by (simp add: rows_ok_def)
  show ?case
    by (simp, rule guarded_insts(1) [OF assms(4) _ len Nil.prems(3) _ assms(5) Nil.prems(4), of _ C])
      (use assms(6,7) Nil.prems(2,5) in auto)
next
  case (Cons s path)
  let ?c = "length (mf_values ir)"
  let ?g = "\<lambda>b. concat (map (guarded_inst reg ?c G) (flagged ?c G (prune ?c (mf_blocks ir ! b) (E ! b)) (E ! b)))"
  have len: "length (E ! b) = ?c + 1" using Cons.prems(2) assms(2) by (simp add: rows_ok_def)
  let ?held = "fold (held_after ?c) (mf_blocks ir ! b) held"
  let ?W = "fold (written_after ?c) (mf_blocks ir ! b) W"
  have fl: "flows ir b s" "block_path ir s path" using Cons.prems(1) by auto
  have onwards: "\<forall>v < ?c + 1. ?held v \<in> gamma (E ! s ! v)"
    using fixpoint_flow [OF assms(1-3) _ fl(1)] Cons.prems(3) by (auto simp: fold_held_after passes_on_def)
  have first: "written_first ?c C W (mf_blocks ir ! b)"
      "written_first ?c C ?W (concat (map (\<lambda>b. mf_blocks ir ! b) (s # path)))"
    using Cons.prems(5) by (simp_all add: written_first_append)
  have some: "\<forall>v \<in> set (either_drops ?c (mf_blocks ir ! b) (E ! b)). \<not> mir_value_is_none (G ! v)"
      "set (either_drops ?c (mf_blocks ir ! b) (E ! b)) \<subseteq> C"
      "\<forall>i \<in> set (mf_blocks ir ! b). mi_flag i = 0 \<and> mi_op i \<noteq> MIR_DROP_FLAG"
    using assms(6,7) Cons.prems(2) by auto
  note here = guarded_insts [OF assms(4) some(1) len Cons.prems(3) some(3) assms(5) Cons.prems(4) first(1) some(2), of reg]
  have "map unflag (guarded_drops ?c (concat (map ?g (s # path))) (fold set_flag (?g b) fv)) =
      drops_of ?c (concat (map (\<lambda>b. mf_blocks ir ! b) (s # path))) ?held"
    by (rule Cons.IH [OF fl(2) mir_wf_flows [OF assms(1) fl(1)] onwards here(2) first(2)])
  then show ?case using here(1) by (simp add: guarded_drops_append drops_of_append)
qed

lemma either_drops_prune: "either_drops count (prune count is holds) holds = either_drops count is holds"
proof (induction "is" arbitrary: holds)
  case (Cons i "is")
  show ?case
  proof (cases "visits_drop count i")
    case True
    then show ?thesis using Cons [of holds] by (simp add: visits_drop_walk)
  next
    case False
    then show ?thesis using Cons [of "walk_inst count i holds"] by simp
  qed
qed simp

lemma prune_subset: "set (prune count is holds) \<subseteq> set is"
proof (induction "is" arbitrary: holds)
  case (Cons i "is")
  then show ?case by (simp, blast)
qed simp

lemma flagged_bases:
  assumes "\<forall>i \<in> set is. bases_known count i" "i \<in> set (flagged count G is holds)"
  shows "bases_known count i"
  using assms
proof (induction "is" arbitrary: holds)
  case (Cons j "is")
  have "bases_known count (j\<lparr>mi_flag := f\<rparr>) = bases_known count j" for f
  proof -
    have "mi_op (j\<lparr>mi_flag := f\<rparr>) = mi_op j" "mi_place (j\<lparr>mi_flag := f\<rparr>) = mi_place j" by simp_all
    then show ?thesis unfolding bases_known_def by (simp only:)
  qed
  then show ?case using Cons by (auto split: if_splits)
qed simp

lemma guarded_inst_larger:
  assumes "bases_known count i" "count \<le> lim"
  shows "filter (\<lambda>j. \<not> (mi_op j = MIR_NULL \<and> \<not> mir_value_is_none (flag_of lim G j))) (write_flag reg lim G i) = guarded_inst reg count G i"
proof -
  have flag: "flag_of lim G i = flag_of count G i" by (rule bases_known_simps(4) [OF assms])
  then have "write_flag reg lim G i = write_flag reg count G i" unfolding write_flag_def by (simp only:)
  moreover have only: "j = i \<or> mi_op j = MIR_DROP_FLAG" if "j \<in> set (write_flag reg count G i)" for j
    using that by (auto simp: write_flag_def Let_def inst_of_def split: if_splits)
  then have "(mi_op j = MIR_NULL \<and> \<not> mir_value_is_none (flag_of lim G j)) = (mi_op j = MIR_NULL \<and> \<not> mir_value_is_none (flag_of count G j))"
    if "j \<in> set (write_flag reg count G i)" for j
    using only [OF that] flag by (elim disjE) simp_all
  ultimately show ?thesis unfolding guarded_inst_def by (simp only: cong: filter_cong)
qed

lemma guarded_block_larger:
  assumes "\<forall>i \<in> set is. bases_known count i" "count \<le> lim"
  shows "filter (\<lambda>j. \<not> (mi_op j = MIR_NULL \<and> \<not> mir_value_is_none (flag_of lim G j))) (concat (map (write_flag reg lim G) is)) =
     concat (map (guarded_inst reg count G) is)"
  unfolding filter_concat map_map
  by (rule arg_cong [where f = concat], rule map_cong, rule refl, unfold comp_def, rule guarded_inst_larger [OF _ assms(2)])
    (use assms(1) in blast)

text \<open>The blocks of the function once it is guarded, from those before.\<close>

lemma guard_blocks:
  assumes "mir_wf ir" "rows_ok ir E" "entry_holdings (pruned ir E) = Some E"
    "\<forall>b \<in> set (mf_blocks ir). \<forall>i \<in> set b. bases_known (length (mf_values ir)) i"
    "guard_conditional_drops reg (pruned ir E) = Some ir4" "length (mf_values ir4) < 4294967295"
  shows "\<exists>G lim. flags_ok (length (mf_values ir)) lim G \<and>
     (\<forall>b < length (mf_blocks ir). \<forall>v \<in> set (either_drops (length (mf_values ir)) (mf_blocks ir ! b) (E ! b)). \<not> mir_value_is_none (G ! v)) \<and>
     (\<forall>b < length (mf_blocks ir). mf_blocks ir4 ! b = concat (map (guarded_inst reg (length (mf_values ir)) G)
       (flagged (length (mf_values ir)) G (prune (length (mf_values ir)) (mf_blocks ir ! b) (E ! b)) (E ! b))))"
proof -
  let ?c = "length (mf_values ir)" and ?n = "length (mf_blocks ir)"
  let ?none = "replicate (?c + 1) MIR_NO_VALUE"
  let ?bs = "mf_blocks (pruned ir E)"
  have n: "?n > 0" using assms(1) by (auto simp: mir_wf_def)
  have bs: "length ?bs = ?n" "\<And>b. b < ?n \<Longrightarrow> ?bs ! b = prune ?c (mf_blocks ir ! b) (E ! b)" "mf_values (pruned ir E) = mf_values ir"
    by (simp_all add: pruned_def)
  obtain ir1 flags bs' where fb: "flag_blocks reg ?bs E (pruned ir E, ?none) = ((ir1, flags), bs')" by (metis prod.collapse)
  let ?P = "\<lambda>i. \<not> (mi_op i = MIR_NULL \<and> \<not> mir_value_is_none (flag_of (length (mf_values ir1)) flags i))"
  have ir4: "mf_blocks ir4 = map (\<lambda>b. filter ?P (concat (map (write_flag reg (length (mf_values ir1)) flags) b))) bs'"
      "mf_values ir4 = mf_values ir1"
    using assms(5) fb n bs(1,3) by (auto simp: guard_conditional_drops_def assms(3) write_drop_flags_def)
  have known: "\<forall>b \<in> set ?bs. \<forall>i \<in> set b. bases_known ?c i"
  proof (intro ballI)
    fix b i assume "b \<in> set ?bs" "i \<in> set b"
    then obtain k where "k < ?n" "i \<in> set (prune ?c (mf_blocks ir ! k) (E ! k))" using bs(1,2) by (metis in_set_conv_nth)
    then show "bases_known ?c i" using assms(4) prune_subset by (metis nth_mem subsetD)
  qed
  have init: "flags_ok ?c ?c ?none"
  proof -
    have "mir_value_is_none (?none ! v)" if "v < ?c + 1" for v
      unfolding nth_replicate [OF that] by (simp add: mir_value_is_none_def MIR_NO_VALUE_def)
    then show ?thesis unfolding flags_ok_def by simp
  qed
  have sound: "flags_ok ?c (length (mf_values ir1)) flags \<and> flags_le ?none flags \<and> length (mf_values (pruned ir E)) \<le> length (mf_values ir1) \<and>
     (\<forall>G. flags_le flags G \<longrightarrow> bs' = map2 (flagged ?c G) ?bs E) \<and>
     (\<forall>b < length ?bs. \<forall>v \<in> set (either_drops ?c (?bs ! b) (E ! b)). v < ?c \<and> \<not> mir_value_is_none (flags ! v))"
    by (rule flag_blocks_sound [OF fb]) (use init known bs assms(2,6) ir4(2) in \<open>simp_all add: rows_ok_def\<close>)
  then have more_values: "?c \<le> length (mf_values ir1)" and bs': "bs' = map2 (flagged ?c flags) ?bs E"
    using bs(3) flags_le_refl by (simp, blast)
  have "mf_blocks ir4 ! b = concat (map (guarded_inst reg ?c flags) (flagged ?c flags (prune ?c (mf_blocks ir ! b) (E ! b)) (E ! b)))"
    if b: "b < ?n" for b
  proof -
    have "b < length E" using b assms(2) by (simp add: rows_ok_def)
    then have "bs' ! b = flagged ?c flags (prune ?c (mf_blocks ir ! b) (E ! b)) (E ! b)" "b < length bs'"
      using b bs by (simp_all add: bs')
    moreover have "\<forall>i \<in> set (flagged ?c flags (?bs ! b) (E ! b)). bases_known ?c i"
      using flagged_bases known b bs(1) by (metis nth_mem)
    ultimately show ?thesis
      using guarded_block_larger [OF _ more_values, of "bs' ! b" flags reg] b bs(2) by (simp add: ir4(1))
  qed
  moreover have "\<not> mir_value_is_none (flags ! v)" if "b < ?n" "v \<in> set (either_drops ?c (mf_blocks ir ! b) (E ! b))" for b v
    using sound that bs by (metis either_drops_prune)
  ultimately show ?thesis using sound by blast
qed

definition conditional_values :: "mir_function \<Rightarrow> holdings list \<Rightarrow> nat set" where
  "conditional_values ir E =
     (\<Union>b \<in> {..<length (mf_blocks ir)}. set (either_drops (length (mf_values ir)) (mf_blocks ir ! b) (E ! b)))"

definition unguarded :: "mir_function \<Rightarrow> bool" where
  "unguarded ir \<longleftrightarrow> (\<forall>b \<in> set (mf_blocks ir). \<forall>i \<in> set b.
     bases_known (length (mf_values ir)) i \<and> mi_flag i = 0 \<and> mi_op i \<noteq> MIR_DROP_FLAG)"

text \<open>C18: after the releases of emptied places are gone and the conditional ones are guarded, the function
  run with its flags - all clear at the start - releases along every path exactly what the path released
  before, in the same order, provided each value with a conditional drop is written on the path before
  that drop.\<close>

theorem conditional_drops_decided_at_run_time:
  assumes "mir_wf ir" "ends_without_drop ir" "0 < length (mf_values ir)" "unguarded ir" "block_path ir (mf_entry ir) path"
    "entry_holdings ir = Some E" "drop_releases_of_emptied_places ir = Some ir3" "guard_conditional_drops reg ir3 = Some ir4"
    "length (mf_values ir4) < 4294967295"
    "written_first (length (mf_values ir)) (conditional_values ir E) {} (concat (map (\<lambda>b. mf_blocks ir ! b) (mf_entry ir # path)))"
  shows "map unflag (guarded_drops (length (mf_values ir)) (concat (map (\<lambda>b. mf_blocks ir4 ! b) (mf_entry ir # path))) (\<lambda>_. False)) =
     drops_on ir (mf_entry ir # path)"
proof -
  have E: "rows_ok ir E" "holdings_pass ir E = E" using holdings_loop_ends [OF assms(1)] assms(6) by auto
  have entry: "mf_entry ir < length (mf_blocks ir)" using assms(1) by (simp add: mir_wf_def)
  have ir3: "ir3 = pruned ir E" using drop_releases_blocks [OF assms(6,1)] assms(7) by (simp add: pruned_def)
  obtain G lim where G: "flags_ok (length (mf_values ir)) lim G"
      "\<forall>b < length (mf_blocks ir). \<forall>v \<in> set (either_drops (length (mf_values ir)) (mf_blocks ir ! b) (E ! b)). \<not> mir_value_is_none (G ! v)"
      "\<forall>b < length (mf_blocks ir). mf_blocks ir4 ! b = concat (map (guarded_inst reg (length (mf_values ir)) G)
         (flagged (length (mf_values ir)) G (prune (length (mf_values ir)) (mf_blocks ir ! b) (E ! b)) (E ! b)))"
    using guard_blocks [OF assms(1) E(1) pruned_entry_holdings [OF assms(2,6)] _ assms(8) [unfolded ir3] assms(9)] assms(4)
    unfolding unguarded_def by blast
  have "map (\<lambda>b. mf_blocks ir4 ! b) (mf_entry ir # path) =
      map (\<lambda>b. concat (map (guarded_inst reg (length (mf_values ir)) G)
         (flagged (length (mf_values ir)) G (prune (length (mf_values ir)) (mf_blocks ir ! b) (E ! b)) (E ! b)))) (mf_entry ir # path)"
    using path_blocks [OF assms(1) entry assms(5)] G(3) by auto
  moreover have "map unflag (guarded_drops (length (mf_values ir)) (concat (map (\<lambda>b. concat (map (guarded_inst reg (length (mf_values ir)) G)
         (flagged (length (mf_values ir)) G (prune (length (mf_values ir)) (mf_blocks ir ! b) (E ! b)) (E ! b)))) (mf_entry ir # path))) (\<lambda>_. False)) =
      drops_of (length (mf_values ir)) (concat (map (\<lambda>b. mf_blocks ir ! b) (mf_entry ir # path))) (\<lambda>_. True)"
    by (rule guarded_path [OF assms(1) E G(1) assms(3) _ _ assms(5) entry _ _ assms(10)])
      (use assms(4) G(2) fixpoint_entry [OF assms(1) E] in \<open>auto simp: unguarded_def conditional_values_def flags_follow_def\<close>)
  ultimately show ?thesis unfolding drops_on_def by (simp only:)
qed

section \<open>A function whose drop is conditional\<close>

text \<open>Value 0 is given away on one branch and dropped where the branches meet; it is written first, as a
  local is, or it arrives from the caller, as a parameter does.\<close>

abbreviation at_value :: "mir_op \<Rightarrow> mir_inst" where
  "at_value op \<equiv> inst_of op None MIR_NO_VALUE sample_span"

definition branch_sample :: "bool \<Rightarrow> mir_function" where
  "branch_sample written =
     \<lparr>mf_function = None,
      mf_blocks = [(if written then [at_value MIR_STORAGE_INIT] else []) @ [(at_value MIR_BRANCH)\<lparr>mi_targets := (1, 2)\<rparr>],
                   [at_value MIR_NULL, (at_value MIR_JMP)\<lparr>mi_targets := (3, 0)\<rparr>],
                   [(at_value MIR_JMP)\<lparr>mi_targets := (3, 0)\<rparr>],
                   [at_value MIR_DROP, at_value MIR_RETURN]],
      mf_entry = 0,
      mf_values = [\<lparr>vi_type = None, vi_binding = None, vi_span = sample_span\<rparr>],
      mf_params = []\<rparr>"

definition branch_entries :: "holdings list" where
  "branch_entries =
     [[HOLDS_ITS_OBJECT, HOLDS_ITS_OBJECT], [HOLDS_ITS_OBJECT, HOLDS_ITS_OBJECT], [HOLDS_ITS_OBJECT, HOLDS_ITS_OBJECT],
      [HOLDS_EITHER, HOLDS_ITS_OBJECT]]"

lemmas sample_evals = branch_sample_def inst_of_def zero_place_def mir_block_successors_def mir_block_is_terminated_def
  MIR_NO_VALUE_def mir_value_is_none_def

lemma branch_sample_wf: "mir_wf (branch_sample w)"
  by (simp add: mir_wf_def sample_evals)

lemma branch_sample_rows:
  "object_rows (branch_sample w) =
     [[HOLDS_ITS_OBJECT, HOLDS_ITS_OBJECT], [HOLDS_ITS_OBJECT, HOLDS_ITS_OBJECT],
      [HOLDS_ITS_OBJECT, HOLDS_ITS_OBJECT], [HOLDS_ITS_OBJECT, HOLDS_ITS_OBJECT]]"
  by (simp add: object_rows_def branch_sample_def numeral_eq_Suc)

lemma branch_sample_blocks:
  "length (mf_blocks (branch_sample w)) = 4" "length (mf_values (branch_sample w)) = 1" "mf_entry (branch_sample w) = 0"
  "mir_block_successors (mf_blocks (branch_sample w) ! 0) = [1, 2]"
  "mir_block_successors (mf_blocks (branch_sample w) ! 1) = [3]"
  "mir_block_successors (mf_blocks (branch_sample w) ! 2) = [3]"
  "mir_block_successors (mf_blocks (branch_sample w) ! 3) = []"
  by (simp_all add: sample_evals)

lemma branch_sample_walks:
  "walk_block 1 (mf_blocks (branch_sample w) ! 0) [HOLDS_ITS_OBJECT, x] = [HOLDS_ITS_OBJECT, x]"
  "walk_block 1 (mf_blocks (branch_sample w) ! 1) [h, x] = [HOLDS_NOTHING, x]"
  "walk_block 1 (mf_blocks (branch_sample w) ! 2) [h, x] = [h, x]"
  by (simp_all add: walk_block_def walk_inst_def has_base_def is_whole_def sample_evals)

lemma branch_pass:
  "holdings_pass (branch_sample w) (object_rows (branch_sample w)) = branch_entries"
  "holdings_pass (branch_sample w) branch_entries = branch_entries"
proof -
  have four: "[0..<4] = [0, 1, 2, 3 :: nat]" "(replicate 4 False) = [False, False, False, False]"
    by (simp add: upt_rec, simp add: numeral_eq_Suc)
  show "holdings_pass (branch_sample w) (object_rows (branch_sample w)) = branch_entries"
      "holdings_pass (branch_sample w) branch_entries = branch_entries"
    by (simp_all add: holdings_pass_def branch_sample_rows branch_entries_def holdings_block_def join_edge_def four
        branch_sample_blocks [unfolded One_nat_def] branch_sample_walks [unfolded One_nat_def] holding_merge_def Let_def)
qed

lemma branch_sample_entries: "entry_holdings (branch_sample w) = Some branch_entries"
proof -
  have "object_rows (branch_sample w) \<noteq> branch_entries"
    by (simp add: branch_sample_rows branch_entries_def)
  then show ?thesis
    unfolding entry_holdings_def
    by (subst holdings_loop.simps, subst holdings_loop.simps) (simp add: branch_pass Let_def)
qed


lemma branch_sample_unguarded: "unguarded (branch_sample w)" "ends_without_drop (branch_sample w)"
  by (simp_all add: unguarded_def bases_known_def ends_without_drop_def sample_evals)

text \<open>No release is taken out; the one drop gets flag 1.\<close>

lemma branch_sample_pruned: "drop_releases_of_emptied_places (branch_sample w) = Some (branch_sample w)"
  by (simp add: drop_releases_of_emptied_places_def branch_sample_entries, simp add: upt_rec visits_drop_def walk_inst_def
      has_base_def is_whole_def branch_entries_def sample_evals)

definition flag_write :: "type_registry \<Rightarrow> bool \<Rightarrow> mir_inst" where
  "flag_write reg x =
     (inst_of MIR_DROP_FLAG (type_registry_get_primitive reg TYPE_BOOL) MIR_NO_VALUE sample_span)
       \<lparr>mi_args := [mir_operand_const (constant_bool (type_registry_get_primitive reg TYPE_BOOL) x)], mi_place := zero_place, mi_flag := 1\<rparr>"

lemma branch_sample_guarded:
  "\<exists>ir4. guard_conditional_drops reg (branch_sample w) = Some ir4 \<and> length (mf_values ir4) = 2 \<and>
     mf_blocks ir4 =
      [(if w then [at_value MIR_STORAGE_INIT, flag_write reg True] else []) @ [(at_value MIR_BRANCH)\<lparr>mi_targets := (1, 2)\<rparr>],
       [flag_write reg False, (at_value MIR_JMP)\<lparr>mi_targets := (3, 0)\<rparr>],
       [(at_value MIR_JMP)\<lparr>mi_targets := (3, 0)\<rparr>],
       [(at_value MIR_DROP)\<lparr>mi_flag := 1\<rparr>, at_value MIR_RETURN]]"
  by (simp add: guard_conditional_drops_def branch_sample_entries, simp add: note_conditional_drop_def mir_value_create_def visits_drop_def
      walk_inst_def write_drop_flags_def write_flag_def flag_of_def flag_write_def
      has_base_def is_whole_def branch_entries_def sample_evals Let_def del: type_registry_get_primitive.simps)


lemma branch_sample_path: "block_path (branch_sample w) (mf_entry (branch_sample w)) [2, 3]"
  by (simp add: flows_def branch_sample_blocks [unfolded One_nat_def])

lemma branch_sample_runs:
  "drops_on (branch_sample w) [0, 2, 3] = [at_value MIR_DROP]"
  "drops_on (branch_sample w) [0, 1, 3] = []"
  by (simp_all add: drops_on_def visits_drop_def held_after_def writes_def has_base_def is_whole_def sample_evals)

lemma branch_sample_writes:
  "written_first (length (mf_values (branch_sample True))) C {}
     (concat (map (\<lambda>b. mf_blocks (branch_sample True) ! b) (mf_entry (branch_sample True) # [2, 3])))"
  by (simp add: visits_drop_def writes_def has_base_def is_whole_def sample_evals, blast)

theorem entry_holdings_sound_witness:
  "\<exists>E. entry_holdings (branch_sample True) = Some E \<and> True \<in> gamma (E ! 0 ! 0)"
  using entry_holdings_sound [OF branch_sample_wf, of True] branch_sample_blocks(2,3) [of True] arrives_entry [of "branch_sample True" 0]
  by fastforce

theorem emptied_releases_release_nothing_witness:
  "\<exists>ir'. drop_releases_of_emptied_places (branch_sample True) = Some ir' \<and> drops_on ir' [0, 2, 3] = [at_value MIR_DROP]"
  using emptied_releases_release_nothing [OF branch_sample_wf branch_sample_path, of True]
    branch_sample_runs(1) [of True] branch_sample_blocks(3) [of True] by auto

theorem conditional_drops_decided_at_run_time_witness:
  "\<exists>ir4. guard_conditional_drops (type_registry_create known_names) (branch_sample True) = Some ir4 \<and>
     map unflag (guarded_drops 1 (concat (map (\<lambda>b. mf_blocks ir4 ! b) [0, 2, 3])) (\<lambda>_. False)) = [at_value MIR_DROP]"
proof -
  obtain ir4 where ir4: "guard_conditional_drops (type_registry_create known_names) (branch_sample True) = Some ir4"
      "length (mf_values ir4) = 2" using branch_sample_guarded by blast
  have first: "written_first (length (mf_values (branch_sample True))) (conditional_values (branch_sample True) branch_entries) {}
      (concat (map (\<lambda>b. mf_blocks (branch_sample True) ! b) (mf_entry (branch_sample True) # [2, 3])))"
    by (rule branch_sample_writes)
  have some: "0 < length (mf_values (branch_sample True))" by (simp add: branch_sample_blocks)
  show ?thesis
    using conditional_drops_decided_at_run_time [OF branch_sample_wf branch_sample_unguarded(2) some branch_sample_unguarded(1)
        branch_sample_path branch_sample_entries branch_sample_pruned ir4(1) _ first]
      ir4 branch_sample_runs(1) [of True] branch_sample_blocks(2,3) [of True] by simp
qed

text \<open>C21: a value that is not written before its conditional drop leaks.  In the function whose value 0 comes
  from outside, as an owning parameter does, and is given away on one branch only, the drop is released
  on the path that keeps the value before the pass; after it the flag is clear there and nothing is
  released.\<close>

theorem conditional_drop_of_a_parameter_leaks:
  "\<exists>ir4. drop_releases_of_emptied_places (branch_sample False) = Some (branch_sample False) \<and>
     guard_conditional_drops reg (branch_sample False) = Some ir4 \<and>
     drops_on (branch_sample False) [0, 2, 3] = [at_value MIR_DROP] \<and>
     guarded_drops 1 (concat (map (\<lambda>b. mf_blocks ir4 ! b) [0, 2, 3])) (\<lambda>_. False) = []"
proof -
  obtain ir4 where ir4: "guard_conditional_drops reg (branch_sample False) = Some ir4"
      "mf_blocks ir4 =
      [[(at_value MIR_BRANCH)\<lparr>mi_targets := (1, 2)\<rparr>],
       [flag_write reg False, (at_value MIR_JMP)\<lparr>mi_targets := (3, 0)\<rparr>],
       [(at_value MIR_JMP)\<lparr>mi_targets := (3, 0)\<rparr>],
       [(at_value MIR_DROP)\<lparr>mi_flag := 1\<rparr>, at_value MIR_RETURN]]"
    using branch_sample_guarded [of reg False] by auto
  then have "guarded_drops 1 (concat (map (\<lambda>b. mf_blocks ir4 ! b) [0, 2, 3])) (\<lambda>_. False) = []"
    by (simp add: inst_of_def set_flag_def)
  then show ?thesis using ir4(1) branch_sample_pruned branch_sample_runs(1) by blast
qed

end
