(* ===== verification/Mir_Borrowck.thy ===== *)
theory Mir_Borrowck
  imports Mir_State Mir_Liveness Decls
begin

text \<open>
  The borrow checker: \<^verbatim>\<open>src/mir/mir_borrowck.c\<close>.  A forward analysis computes, for every block, what its
  entry may find in each value (\<open>Mir_State\<close>); a last walk over the blocks with those states reports.
  \<^verbatim>\<open>MIRFlow\<close> is the record the walk threads; its \<^verbatim>\<open>block\<close> and \<^verbatim>\<open>index\<close> are written and never read and are
  left out, as is the scratch arena.  Following definitions to the sources of a value may not end when
  they are cyclic, and the loop over the blocks may not end: both are options.
\<close>

unbundle bit_operations_syntax

record mir_flow =
  fl_state :: mir_state
  fl_diagnostics :: diagnostics
  fl_functions :: "gfunction list"
  fl_registry :: type_registry
  fl_ir :: mir_function
  fl_liveness :: liveness
  fl_return_type :: "gtype option"
  fl_reporting :: bool
  fl_returned_params :: "32 word"

definition report :: "span \<Rightarrow> string \<Rightarrow> mir_flow \<Rightarrow> mir_flow" where
  "report sp message fl =
     (if \<not> fl_reporting fl then fl
      else fl\<lparr>fl_diagnostics := diag_error (fl_diagnostics fl) GAB_ERR_LIFETIME sp message\<rparr>)"

section \<open>Questions about values and places\<close>

definition call_result_may_name :: "gfunction option \<Rightarrow> nat \<Rightarrow> bool" where
  "call_result_may_name callee index =
     (case callee of
        None \<Rightarrow> True
      | Some f \<Rightarrow>
          if \<not> fn_borrowed_params_known f then True
          else index \<ge> 32 \<or> fn_borrowed_params f AND push_bit index 1 \<noteq> 0)"

definition borrows_memory :: "mir_flow \<Rightarrow> gtype option \<Rightarrow> bool" where
  "borrows_memory fl t \<longleftrightarrow> t \<noteq> None \<and> type_registry_borrows (fl_registry fl) t = Some True"

definition root_of :: "place \<Rightarrow> nat" where
  "root_of p = pl_base p"

definition is_parameter :: "mir_flow \<Rightarrow> nat \<Rightarrow> bool" where
  "is_parameter fl v \<longleftrightarrow> v \<in> set (mf_params (fl_ir fl))"

definition type_of :: "mir_flow \<Rightarrow> nat \<Rightarrow> gtype option" where
  "type_of fl v = (case mir_value_info_at (fl_ir fl) v of Some info \<Rightarrow> vi_type info | None \<Rightarrow> None)"

definition holds_its_own_object :: "mir_flow \<Rightarrow> nat \<Rightarrow> bool" where
  "holds_its_own_object fl v =
     (case type_of fl v of Some t \<Rightarrow> type_registry_is_unique (fl_registry fl) t | None \<Rightarrow> False)"

text \<open>The slot under a path of projections, as far as they are fields.\<close>

fun slot_walk :: "projection list \<Rightarrow> mir_slot \<Rightarrow> mir_slot option" where
  "slot_walk [] s = Some s"
| "slot_walk (p # ps) s =
     (if pr_kind p \<noteq> PROJ_FIELD then Some s
      else if pr_id p \<ge> length (sl_fields s) then None
      else slot_walk ps (sl_fields s ! pr_id p))"

definition slot_of :: "mir_flow \<Rightarrow> place \<Rightarrow> mir_slot option" where
  "slot_of fl p =
     (if mir_value_is_none (root_of p) then None
      else slot_walk (pl_projections p) (mir_state_get (fl_state fl) (root_of p)))"

fun slot_replace :: "projection list \<Rightarrow> mir_slot \<Rightarrow> mir_slot \<Rightarrow> mir_slot option" where
  "slot_replace [] stored s = Some stored"
| "slot_replace (p # ps) stored s =
     (if pr_kind p \<noteq> PROJ_FIELD \<or> pr_id p \<ge> length (sl_fields s) then None
      else map_option (\<lambda>f. Slot (sl_init s) (sl_borrows s) ((sl_fields s)[pr_id p := f]))
             (slot_replace ps stored (sl_fields s ! pr_id p)))"

definition set_state :: "nat \<Rightarrow> mir_slot \<Rightarrow> mir_flow \<Rightarrow> mir_flow" where
  "set_state v s fl = fl\<lparr>fl_state := mir_state_set v s (fl_state fl)\<rparr>"

definition store_into :: "place \<Rightarrow> nat \<Rightarrow> mir_slot \<Rightarrow> mir_flow \<Rightarrow> mir_flow option" where
  "store_into p depth stored fl =
     (if mir_value_is_none (root_of p) then None
      else if depth = 0 then Some (set_state (root_of p) stored fl)
      else map_option (\<lambda>s. set_state (root_of p) s fl)
             (slot_replace (take depth (pl_projections p)) stored (mir_state_get (fl_state fl) (root_of p))))"

definition tracked_depth :: "place \<Rightarrow> nat" where
  "tracked_depth p = length (takeWhile (\<lambda>pr. pr_kind pr = PROJ_FIELD) (pl_projections p))"

definition reaches_past_its_root :: "place \<Rightarrow> bool" where
  "reaches_past_its_root p \<longleftrightarrow> list_ex (\<lambda>pr. pr_kind pr = PROJ_DEREF) (pl_projections p)"

definition definition_of :: "mir_function \<Rightarrow> nat \<Rightarrow> mir_inst option" where
  "definition_of ir v =
     (if mir_value_is_none v then None
      else find (\<lambda>i. \<not> mir_value_is_none (mi_result i) \<and> mi_result i = v) (concat (mf_blocks ir)))"

section \<open>What a value names\<close>

definition add_borrows :: "nat list \<Rightarrow> mir_slot \<Rightarrow> mir_slot" where
  "add_borrows vs into = fold mir_slot_add_borrow vs into"

definition collect_place_sources :: "mir_flow \<Rightarrow> place \<Rightarrow> mir_slot \<Rightarrow> mir_slot" where
  "collect_place_sources fl p into =
     (let root = root_of p;
          whole = mir_state_get (fl_state fl) root
      in if mir_value_is_none root then into
         else if holds_its_own_object fl root \<and> sl_init whole \<noteq> MIR_SLOT_MOVED then mir_slot_add_borrow root into
         else
           (let flat = mir_slot_flattened (case slot_of fl p of Some s \<Rightarrow> s | None \<Rightarrow> whole);
                into' = add_borrows (sl_borrows flat) into
            in if length (sl_borrows flat) = 0 \<and> sl_init flat \<noteq> MIR_SLOT_MOVED
               then mir_slot_add_borrow root into' else into'))"

text \<open>A value either adds its sources, or has those of the arguments its definition names.\<close>

definition callee_of :: "mir_flow \<Rightarrow> mir_inst \<Rightarrow> gfunction option" where
  "callee_of fl inst = map_option (\<lambda>f. fl_functions fl ! f) (mi_callee inst)"

definition named_arguments :: "mir_flow \<Rightarrow> mir_inst \<Rightarrow> nat list" where
  "named_arguments fl inst =
     map (\<lambda>(i, a). mir_operand_as_value a)
       (filter (\<lambda>(i, a). mi_op inst = MIR_CALL \<longrightarrow> call_result_may_name (callee_of fl inst) i)
          (zip [0..<length (mi_args inst)] (mi_args inst)))"

definition source_step :: "mir_flow \<Rightarrow> nat \<Rightarrow> mir_slot \<Rightarrow> mir_slot + nat list" where
  "source_step fl v into =
     (case definition_of (fl_ir fl) v of
        None \<Rightarrow>
          (let flat = mir_slot_flattened (mir_state_get (fl_state fl) v);
               into' = add_borrows (sl_borrows flat) into
           in Inl (if length (sl_borrows flat) > 0 then into'
                   else if borrows_memory fl (type_of fl v) \<or> holds_its_own_object fl v then mir_slot_add_borrow v into'
                   else into'))
      | Some inst \<Rightarrow>
          if mi_op inst = MIR_LOAD \<or> mi_op inst = MIR_REF then Inl (collect_place_sources fl (mi_place inst) into)
          else if mi_op inst = MIR_COPY \<or> mi_op inst = MIR_MAKE_SLICE \<or> mi_op inst = MIR_CALL then Inr (named_arguments fl inst)
          else if \<not> borrows_memory fl (mi_type inst) then Inl into
          else Inr (named_arguments fl inst))"

partial_function (option) collect_all :: "mir_flow \<Rightarrow> nat list \<Rightarrow> mir_slot \<Rightarrow> mir_slot option" where
  "collect_all fl vs into =
     (case vs of
        [] \<Rightarrow> Some into
      | v # vs \<Rightarrow>
          (case source_step fl v into of
             Inl into' \<Rightarrow> collect_all fl vs into'
           | Inr args \<Rightarrow> Option.bind (collect_all fl args into) (\<lambda>into'. collect_all fl vs into')))"

definition collect_sources :: "mir_flow \<Rightarrow> nat \<Rightarrow> mir_slot \<Rightarrow> mir_slot option" where
  "collect_sources fl v into = collect_all fl [v] into"

section \<open>Borrows that outlive what they name\<close>

definition live_where_storage_ends :: "mir_flow \<Rightarrow> nat \<Rightarrow> nat \<Rightarrow> nat \<Rightarrow> bool" where
  "live_where_storage_ends fl source held_in f \<longleftrightarrow>
     list_ex (\<lambda>b. list_ex (\<lambda>j.
         (let inst = mf_blocks (fl_ir fl) ! b ! j
          in (mi_op inst = MIR_STORAGE_DEAD \<or> mi_op inst = MIR_DROP) \<and> pl_base (mi_place inst) = source \<and>
             mir_live_after (fl_liveness fl) b j held_in f))
       [0..<length (mf_blocks (fl_ir fl) ! b)]) [0..<length (mf_blocks (fl_ir fl))]"

definition source_is_outlived :: "mir_flow \<Rightarrow> nat \<Rightarrow> bool \<Rightarrow> nat \<Rightarrow> nat \<Rightarrow> bool" where
  "source_is_outlived fl held_in held_in_field f source \<longleftrightarrow>
     \<not> is_parameter fl source \<and>
     \<not> (case type_of fl source of Some t \<Rightarrow> type_registry_is_unique (fl_registry fl) t | None \<Rightarrow> False) \<and>
     (mir_value_is_none held_in \<or>
      live_where_storage_ends fl source held_in (if held_in_field then f else MIR_WHOLE_VALUE))"

definition outlives_its_source :: "mir_flow \<Rightarrow> nat \<Rightarrow> nat \<Rightarrow> bool \<Rightarrow> nat \<Rightarrow> bool option" where
  "outlives_its_source fl borrow held_in held_in_field f =
     map_option (\<lambda>sources. list_ex (source_is_outlived fl held_in held_in_field f) (sl_borrows sources))
       (collect_sources fl borrow (bare_slot MIR_SLOT_UNREACHED))"

definition state_of :: "mir_flow \<Rightarrow> place \<Rightarrow> slot_init" where
  "state_of fl p =
     (let named = (case slot_of fl p of Some s \<Rightarrow> s | None \<Rightarrow> mir_state_get (fl_state fl) (root_of p))
      in if sl_init named = MIR_SLOT_INIT then sl_init (mir_slot_flattened named) else sl_init named)"

definition moved_message :: string where
  "moved_message = ''this was moved out of and no longer holds a value''"

definition freed_message :: string where
  "freed_message = ''this names memory that has been freed''"

definition check_readable :: "place \<Rightarrow> span \<Rightarrow> mir_flow \<Rightarrow> mir_flow" where
  "check_readable p sp fl =
     (if mir_value_is_none (root_of p) then fl
      else case state_of fl p of
        MIR_SLOT_MOVED \<Rightarrow> report sp moved_message fl
      | MIR_SLOT_DANGLING \<Rightarrow> report sp freed_message fl
      | MIR_SLOT_UNINIT \<Rightarrow>
          if type_is_indirect (type_of fl (root_of p)) then report sp ''this is read before it is given a value'' fl else fl
      | _ \<Rightarrow> fl)"

section \<open>One instruction\<close>

definition invalidate :: "nat \<Rightarrow> mir_flow \<Rightarrow> mir_flow" where
  "invalidate v fl = fl\<lparr>fl_state := mir_state_invalidate_borrows_of v (fl_state fl)\<rparr>"

definition flow_load :: "mir_inst \<Rightarrow> mir_flow \<Rightarrow> mir_flow" where
  "flow_load inst fl =
     (let fl1 = check_readable (mi_place inst) (mi_span inst) fl;
          fl2 = set_state (mi_result inst) (collect_place_sources fl1 (mi_place inst) (bare_slot MIR_SLOT_INIT)) fl1;
          root = root_of (mi_place inst)
      in if mi_read inst \<noteq> READ_MOVE then fl2
         else set_state root (mir_slot_set_all MIR_SLOT_MOVED (mir_state_get (fl_state fl2) root)) fl2)"

definition flow_ref :: "mir_inst \<Rightarrow> mir_flow \<Rightarrow> mir_flow" where
  "flow_ref inst fl =
     (let fl1 = check_readable (mi_place inst) (mi_span inst) fl
      in set_state (mi_result inst) (collect_place_sources fl1 (mi_place inst) (bare_slot MIR_SLOT_INIT)) fl1)"

fun open_path :: "projection list \<Rightarrow> mir_slot \<Rightarrow> mir_slot" where
  "open_path [] s = s"
| "open_path (p # ps) s =
     (let s' = mir_slot_open_fields (pr_id p + 1) s
      in Slot (sl_init s') (sl_borrows s') ((sl_fields s')[pr_id p := open_path ps (sl_fields s' ! pr_id p)]))"

definition outlived_message :: "string \<Rightarrow> string" where
  "outlived_message what = ''this borrow outlives what it names, so it cannot be '' @ what"

text \<open>A store ends the borrows of the object it replaces, and opens the fields on its way.\<close>

definition prepare_store :: "place \<Rightarrow> mir_flow \<Rightarrow> mir_flow" where
  "prepare_store p fl =
     (let root = root_of p; depth = tracked_depth p;
          fl1 = (if depth = 0 \<and> holds_its_own_object fl root then invalidate root fl else fl)
      in if depth > 0 then
           set_state root (open_path (take depth (pl_projections p)) (set_init MIR_SLOT_INIT (mir_state_get (fl_state fl1) root))) fl1
         else fl1)"

definition store_value :: "place \<Rightarrow> nat \<Rightarrow> mir_slot \<Rightarrow> mir_flow \<Rightarrow> mir_flow option" where
  "store_value p v stored fl =
     (case store_into p (tracked_depth p) stored fl of
        Some fl' \<Rightarrow> Some fl'
      | None \<Rightarrow>
          map_option (\<lambda>s. set_state (root_of p) s fl)
            (collect_sources fl v (set_init MIR_SLOT_INIT (mir_state_get (fl_state fl) (root_of p)))))"

definition check_outlived :: "mir_inst \<Rightarrow> nat \<Rightarrow> nat \<Rightarrow> bool \<Rightarrow> nat \<Rightarrow> mir_flow \<Rightarrow> mir_flow option" where
  "check_outlived inst v held_in held_in_field f fl =
     (if \<not> borrows_memory fl (type_of fl v) then Some fl
      else map_option (\<lambda>out. if out then report (mi_span inst) (outlived_message ''stored here'') fl else fl)
             (outlives_its_source fl v held_in held_in_field f))"

definition flow_store :: "mir_inst \<Rightarrow> mir_flow \<Rightarrow> mir_flow option" where
  "flow_store inst fl =
     (case mi_args inst of
        [] \<Rightarrow> Some fl
      | arg # _ \<Rightarrow>
          (let p = mi_place inst; root = root_of p; v = mir_operand_as_value arg; depth = tracked_depth p
           in if mir_value_is_none root then Some fl
              else if reaches_past_its_root p then check_outlived inst v MIR_NO_VALUE False MIR_WHOLE_VALUE fl
              else do {
                stored \<leftarrow> collect_sources fl v (bare_slot MIR_SLOT_INIT);
                fl' \<leftarrow> store_value p v stored (prepare_store p fl);
                check_outlived inst v root (depth > 0) (if depth > 0 then pr_id (pl_projections p ! 0) else MIR_WHOLE_VALUE) fl' }))"

definition check_argument :: "span \<Rightarrow> mir_operand \<Rightarrow> mir_flow \<Rightarrow> mir_flow" where
  "check_argument sp arg fl =
     (let named = mir_state_get (fl_state fl) (mir_operand_as_value arg)
      in if sl_init named = MIR_SLOT_UNREACHED then fl
         else case sl_init (mir_slot_flattened named) of
           MIR_SLOT_DANGLING \<Rightarrow> report sp freed_message fl
         | MIR_SLOT_MOVED \<Rightarrow> report sp moved_message fl
         | _ \<Rightarrow> fl)"

definition flow_call :: "mir_inst \<Rightarrow> mir_flow \<Rightarrow> mir_flow option" where
  "flow_call inst fl =
     (let fl1 = fold (check_argument (mi_span inst)) (mi_args inst) fl
      in map_option (\<lambda>s. set_state (mi_result inst) s fl1) (collect_sources fl1 (mi_result inst) (bare_slot MIR_SLOT_INIT)))"

text \<open>The set of returned parameters has a bit for each of the first 32; the C shift is undefined beyond.\<close>

definition note_returned :: "nat list \<Rightarrow> nat list \<Rightarrow> 32 word \<Rightarrow> 32 word" where
  "note_returned params borrows bits =
     fold (\<lambda>b bits. fold (\<lambda>p bits. if params ! p = b then bits OR push_bit p 1 else bits) [0..<length params] bits) borrows bits"

definition flow_return :: "mir_inst \<Rightarrow> mir_flow \<Rightarrow> mir_flow option" where
  "flow_return inst fl =
     (case mi_args inst of
        [] \<Rightarrow> Some fl
      | arg # _ \<Rightarrow>
          (let v = mir_operand_as_value arg
           in if \<not> borrows_memory fl (fl_return_type fl) then Some fl
              else do {
                reached \<leftarrow> collect_sources fl v (bare_slot MIR_SLOT_UNREACHED);
                let fl1 = fl\<lparr>fl_returned_params :=
                            note_returned (mf_params (fl_ir fl)) (sl_borrows reached) (fl_returned_params fl)\<rparr>;
                    returned = mir_state_get (fl_state fl1) v
                in if sl_init returned \<noteq> MIR_SLOT_UNREACHED \<and> sl_init (mir_slot_flattened returned) = MIR_SLOT_DANGLING
                   then Some (report (mi_span inst) freed_message fl1)
                   else do {
                     out \<leftarrow> outlives_its_source fl1 v MIR_NO_VALUE False MIR_WHOLE_VALUE;
                     Some (if out then report (mi_span inst) (outlived_message ''returned'') fl1 else fl1) } }))"

definition flow_inst :: "mir_inst \<Rightarrow> mir_flow \<Rightarrow> mir_flow option" where
  "flow_inst inst fl =
     (let root = root_of (mi_place inst) in
      case mi_op inst of
        MIR_STORAGE_LIVE \<Rightarrow> Some (set_state root (bare_slot MIR_SLOT_UNINIT) fl)
      | MIR_STORAGE_INIT \<Rightarrow> Some (set_state root (set_init MIR_SLOT_INIT (mir_state_get (fl_state fl) root)) fl)
      | MIR_STORAGE_DEAD \<Rightarrow> Some (set_state root (bare_slot MIR_SLOT_UNINIT) (invalidate root fl))
      | MIR_DROP \<Rightarrow> Some (fold (\<lambda>a. invalidate (mir_operand_as_value a)) (mi_args inst) (invalidate root fl))
      | MIR_LOAD \<Rightarrow> Some (flow_load inst fl)
      | MIR_REF \<Rightarrow> Some (flow_ref inst fl)
      | MIR_STORE \<Rightarrow> flow_store inst fl
      | MIR_CALL \<Rightarrow> flow_call inst fl
      | MIR_MAKE_SLICE \<Rightarrow> flow_call inst fl
      | MIR_COPY \<Rightarrow> flow_call inst fl
      | MIR_RETURN \<Rightarrow> flow_return inst fl
      | _ \<Rightarrow> Some fl)"

fun flow_block :: "mir_inst list \<Rightarrow> mir_flow \<Rightarrow> mir_flow option" where
  "flow_block [] fl = Some fl"
| "flow_block (i # is) fl = Option.bind (flow_inst i fl) (flow_block is)"

section \<open>The analysis\<close>

definition flow_from :: "mir_state list \<Rightarrow> nat \<Rightarrow> mir_flow \<Rightarrow> mir_flow option" where
  "flow_from entries b fl =
     flow_block (mf_blocks (fl_ir fl) ! b) (fl\<lparr>fl_state := mir_state_copy (entries ! b)\<rparr>)"

definition merge_edge :: "mir_state \<Rightarrow> nat \<Rightarrow> mir_state list \<times> bool \<Rightarrow> mir_state list \<times> bool" where
  "merge_edge exit target = (\<lambda>(entries, changed).
     (let merged = mir_state_merge (mir_state_copy (entries ! target)) exit
      in if \<not> mir_state_equals merged (entries ! target) then (entries[target := mir_state_copy merged], True)
         else (entries, changed)))"

fun flow_pass :: "nat list \<Rightarrow> mir_state list \<times> bool \<Rightarrow> mir_flow \<Rightarrow> ((mir_state list \<times> bool) \<times> mir_flow) option" where
  "flow_pass [] st fl = Some (st, fl)"
| "flow_pass (b # bs) st fl =
     (if st_unreachable (fst st ! b) then flow_pass bs st fl
      else do {
        fl' \<leftarrow> flow_from (fst st) b fl;
        flow_pass bs (fold (merge_edge (fl_state fl')) (mir_block_successors (mf_blocks (fl_ir fl) ! b)) st) fl' })"

partial_function (option) flow_loop :: "mir_state list \<Rightarrow> mir_flow \<Rightarrow> (mir_state list \<times> mir_flow) option" where
  "flow_loop entries fl =
     do { ((entries', changed), fl') \<leftarrow> flow_pass [0..<length (mf_blocks (fl_ir fl))] (entries, False) fl;
          if changed then flow_loop entries' fl' else Some (entries', fl') }"

fun flow_report :: "nat list \<Rightarrow> mir_state list \<Rightarrow> mir_flow \<Rightarrow> mir_flow option" where
  "flow_report [] entries fl = Some fl"
| "flow_report (b # bs) entries fl =
     (if st_unreachable (entries ! b) then flow_report bs entries fl
      else Option.bind (flow_from entries b fl) (flow_report bs entries))"

definition parameter_slot :: "mir_flow \<Rightarrow> nat \<Rightarrow> mir_slot" where
  "parameter_slot fl p =
     (if mir_value_info_at (fl_ir fl) p \<noteq> None \<and> borrows_memory fl (type_of fl p)
      then mir_slot_add_borrow p (bare_slot MIR_SLOT_INIT) else bare_slot MIR_SLOT_INIT)"

definition first_entries :: "mir_flow \<Rightarrow> mir_state list" where
  "first_entries fl =
     (replicate (length (mf_blocks (fl_ir fl))) (mir_state_init\<lparr>st_unreachable := True\<rparr>))
       [mf_entry (fl_ir fl) := fold (\<lambda>p. mir_state_set p (parameter_slot fl p)) (mf_params (fl_ir fl)) mir_state_init]"

text \<open>The flow the analysis starts with; its state is set for each block.\<close>

definition first_flow ::
  "type_registry \<Rightarrow> mir_function \<Rightarrow> diagnostics \<Rightarrow> gfunction list \<Rightarrow> nat option \<Rightarrow> liveness \<Rightarrow> mir_flow" where
  "first_flow reg ir ds fns function lv =
     \<lparr>fl_state = mir_state_init, fl_diagnostics = ds, fl_functions = fns, fl_registry = reg, fl_ir = ir, fl_liveness = lv,
      fl_return_type = (case function of Some f \<Rightarrow> fs_return (fn_signature (fns ! f)) | None \<Rightarrow> None),
      fl_reporting = False, fl_returned_params = 0\<rparr>"

definition mir_borrowck ::
  "type_registry \<Rightarrow> mir_function \<Rightarrow> diagnostics \<Rightarrow> gfunction list \<Rightarrow> nat option \<Rightarrow> bool \<Rightarrow> (diagnostics \<times> gfunction list) option" where
  "mir_borrowck reg ir ds fns function report_diagnostics =
     (if length (mf_blocks ir) = 0 then Some (ds, fns)
      else do {
        lv \<leftarrow> mir_liveness_compute reg ir;
        let fl = first_flow reg ir ds fns function lv
        in do {
          (entries, fl1) \<leftarrow> flow_loop (first_entries fl) fl;
          fl2 \<leftarrow> flow_report [0..<length (mf_blocks ir)] entries (fl1\<lparr>fl_reporting := report_diagnostics\<rparr>);
          Some (fl_diagnostics fl2,
                (case function of
                   Some f \<Rightarrow>
                     if report_diagnostics then fns
                     else fns[f := (fns ! f)\<lparr>fn_borrowed_params := fl_returned_params fl2, fn_borrowed_params_known := True\<rparr>]
                 | None \<Rightarrow> fns)) } })"

end
