(* ===== verification/Borrowck_Correct.thy ===== *)
theory Borrowck_Correct
  imports Mir_Borrowck State_Correct
begin

text \<open>
  The borrow checker follows what was moved: the table it ends with is stable along every edge and
  holds nothing that no path gives, so for each value it is the meet over all paths, and a value that
  a path moves away and then reads is reported.
\<close>

section \<open>What an instruction does to the state of a value\<close>

text \<open>Losing what it borrows from does not change whether a value was given one.\<close>

definition coarse :: "slot_init \<Rightarrow> slot_init" where
  "coarse i = (if i = MIR_SLOT_DANGLING then MIR_SLOT_INIT else i)"

definition resets :: "nat \<Rightarrow> mir_inst \<Rightarrow> slot_init option" where
  "resets v i =
     (let root = pl_base (mi_place i); op = mi_op i in
      if (op = MIR_STORAGE_LIVE \<or> op = MIR_STORAGE_DEAD) \<and> root = v then Some MIR_SLOT_UNINIT
      else if op = MIR_STORAGE_INIT \<and> root = v then Some MIR_SLOT_INIT
      else if op = MIR_LOAD \<and> mi_read i = READ_MOVE \<and> root = v then Some MIR_SLOT_MOVED
      else if op = MIR_STORE \<and> mi_args i \<noteq> [] \<and> \<not> reaches_past_its_root (mi_place i) \<and> root = v then Some MIR_SLOT_INIT
      else if (op = MIR_LOAD \<or> op = MIR_REF \<or> op = MIR_CALL \<or> op = MIR_MAKE_SLICE \<or> op = MIR_COPY) \<and> mi_result i = v
        then Some MIR_SLOT_INIT
      else None)"

definition after_inst :: "nat \<Rightarrow> mir_inst \<Rightarrow> slot_init \<Rightarrow> slot_init" where
  "after_inst v i s = (case resets v i of Some x \<Rightarrow> x | None \<Rightarrow> s)"

definition after_insts :: "nat \<Rightarrow> mir_inst list \<Rightarrow> slot_init \<Rightarrow> slot_init" where
  "after_insts v is s = fold (after_inst v) is s"

definition held :: "mir_flow \<Rightarrow> nat \<Rightarrow> slot_init" where
  "held fl v = coarse (sl_init (mir_state_get (fl_state fl) v))"

definition frame :: "mir_flow \<Rightarrow> mir_flow \<Rightarrow> bool" where
  "frame fl fl' \<longleftrightarrow>
     fl_ir fl' = fl_ir fl \<and> fl_reporting fl' = fl_reporting fl \<and>
     st_unreachable (fl_state fl') = st_unreachable (fl_state fl) \<and>
     (state_ok (fl_state fl) \<longrightarrow> state_ok (fl_state fl')) \<and>
     (\<exists>new. ds_items (fl_diagnostics fl') = ds_items (fl_diagnostics fl) @ new)"

lemma frame_refl [simp]: "frame fl fl"
  by (simp add: frame_def)

lemma frame_trans: "frame a b \<Longrightarrow> frame b c \<Longrightarrow> frame a c"
  unfolding frame_def by fastforce

lemma frame_report [simp]: "frame fl (report sp m fl)" "fl_state (report sp m fl) = fl_state fl"
  by (simp_all add: frame_def report_def diag_error_def)

lemma unreachable_set [simp]: "st_unreachable (mir_state_set v s st) = st_unreachable st"
  by (simp add: mir_state_set_def)

lemma unreachable_invalidate [simp]: "st_unreachable (mir_state_invalidate_borrows_of v st) = st_unreachable st"
  by (simp add: mir_state_invalidate_borrows_of_def)

lemma frame_set_state [simp]: "frame fl (set_state v s fl)" "fl_state (set_state v s fl) = mir_state_set v s (fl_state fl)"
  by (simp_all add: frame_def set_state_def)

lemma frame_invalidate [simp]: "frame fl (invalidate v fl)"
  "fl_state (invalidate v fl) = mir_state_invalidate_borrows_of v (fl_state fl)"
  by (simp_all add: frame_def invalidate_def)

lemma held_set [simp]: "held (set_state v s fl) u = (if u = v then coarse (sl_init s) else held fl u)"
  by (simp add: held_def)

lemma held_report [simp]: "held (report sp m fl) v = held fl v"
  by (simp add: held_def)

lemma init_invalidated: "coarse (sl_init (slot_invalidate_borrows_of v s)) = coarse (sl_init s)"
  by (cases s) (simp add: coarse_def)

lemma held_invalidate [simp]: "held (invalidate u fl) v = held fl v"
  by (simp add: held_def mir_state_get_invalidate init_invalidated)

lemma check_readable_frame [simp]:
  "frame fl (check_readable p sp fl)" "fl_state (check_readable p sp fl) = fl_state fl"
  by (simp_all add: check_readable_def split: slot_init.split)

lemma check_argument_frame [simp]:
  "frame fl (check_argument sp a fl)" "fl_state (check_argument sp a fl) = fl_state fl"
  by (simp_all add: check_argument_def Let_def split: slot_init.split)

lemma frame_steps [simp]:
  assumes "frame a b"
  shows "frame a (report sp m b)" "frame a (set_state v s b)" "frame a (invalidate v b)" "frame a (check_readable p sp b)"
    "frame a (check_argument sp x b)"
  using assms frame_trans frame_report(1) frame_set_state(1) frame_invalidate(1) check_readable_frame(1) check_argument_frame(1)
  by blast+

lemma check_arguments_frame: "frame fl (fold (check_argument sp) as fl) \<and> fl_state (fold (check_argument sp) as fl) = fl_state fl"
proof (induction as rule: rev_induct)
  case (snoc a as)
  then show ?case by simp
qed simp

lemma invalidate_all_frame:
  "frame fl (fold (\<lambda>a. invalidate (mir_operand_as_value a)) as fl) \<and> held (fold (\<lambda>a. invalidate (mir_operand_as_value a)) as fl) v = held fl v"
proof (induction as rule: rev_induct)
  case (snoc a as)
  then show ?case by simp
qed simp

lemma set_init_simps [simp]: "sl_init (set_init i s) = i" "sl_fields (set_init i s) = sl_fields s" "sl_borrows (set_init i s) = sl_borrows s"
  by (cases s; simp)+

lemma init_set_all [simp]: "sl_init (mir_slot_set_all i s) = i"
  by (cases s) simp

lemma init_add_borrow [simp]: "sl_init (mir_slot_add_borrow v s) = sl_init s"
  by (simp add: mir_slot_add_borrow_def)

lemma init_add_borrows [simp]: "sl_init (add_borrows vs s) = sl_init s"
  by (simp add: add_borrows_def fold_add_borrow)

lemma init_place_sources [simp]: "sl_init (collect_place_sources fl p into) = sl_init into"
  by (simp add: collect_place_sources_def Let_def)

lemma init_source_step: "source_step fl v into = Inl into' \<Longrightarrow> sl_init into' = sl_init into"
  by (auto simp: source_step_def Let_def split: option.splits if_splits)

lemma init_collect_all:
  assumes "collect_all fl vs into = Some r"
  shows "sl_init r = sl_init into"
  using assms
proof (rule collect_all.raw_induct [rotated])
  fix collect :: "mir_flow \<Rightarrow> nat list \<Rightarrow> mir_slot \<Rightarrow> mir_slot option" and fl vs into r
  assume IH: "\<And>fl vs into r. collect fl vs into = Some r \<Longrightarrow> sl_init r = sl_init into"
    and step: "(case vs of [] \<Rightarrow> Some into
      | v # vs \<Rightarrow> (case source_step fl v into of Inl into' \<Rightarrow> collect fl vs into'
           | Inr args \<Rightarrow> Option.bind (collect fl args into) (\<lambda>into'. collect fl vs into'))) = Some r"
  show "sl_init r = sl_init into"
  proof (cases vs)
    case (Cons v ws)
    show ?thesis
    proof (cases "source_step fl v into")
      case (Inl into')
      then show ?thesis using step Cons IH init_source_step by fastforce
    next
      case (Inr args)
      then obtain mid where "collect fl args into = Some mid" "collect fl ws mid = Some r"
        using step Cons by (auto simp: bind_eq_Some_conv)
      then show ?thesis using IH by metis
    qed
  qed (use step in simp)
qed

lemma init_collect_sources: "collect_sources fl v into = Some r \<Longrightarrow> sl_init r = sl_init into"
  by (simp add: collect_sources_def init_collect_all)

lemma init_open_path: "sl_init (open_path ps s) = sl_init s"
  by (cases ps) (simp_all add: Let_def mir_slot_open_fields_def)

lemma init_slot_replace: "slot_replace ps stored s = Some r \<Longrightarrow> ps \<noteq> [] \<Longrightarrow> sl_init r = sl_init s"
  by (cases ps) (auto simp del: slot_replace.simps(1) split: if_splits)

lemma store_into_held:
  assumes "store_into p depth stored fl = Some fl'" "sl_init stored = MIR_SLOT_INIT" "depth = tracked_depth p"
    "depth > 0 \<Longrightarrow> sl_init (mir_state_get (fl_state fl) (root_of p)) = MIR_SLOT_INIT"
  shows "frame fl fl'" "held fl' v = (if v = root_of p then MIR_SLOT_INIT else held fl v)"
proof -
  have "frame fl fl' \<and> held fl' v = (if v = root_of p then MIR_SLOT_INIT else held fl v)"
  proof (cases "depth = 0")
    case True
    then have "fl' = set_state (root_of p) stored fl" using assms(1) by (simp add: store_into_def split: if_splits)
    then show ?thesis using assms(2) by (simp add: coarse_def)
  next
    case False
    then have path: "take depth (pl_projections p) \<noteq> []" using assms(3) by (auto simp: tracked_depth_def)
    obtain s where s: "slot_replace (take depth (pl_projections p)) stored (mir_state_get (fl_state fl) (root_of p)) = Some s"
        "fl' = set_state (root_of p) s fl"
      using assms(1) False by (auto simp: store_into_def split: if_splits)
    then show ?thesis using init_slot_replace [OF s(1) path] assms(4) False by (simp add: coarse_def)
  qed
  then show "frame fl fl'" "held fl' v = (if v = root_of p then MIR_SLOT_INIT else held fl v)" by blast+
qed

lemma prepare_store_held:
  "frame fl (prepare_store p fl)"
  "held (prepare_store p fl) v = (if 0 < tracked_depth p \<and> v = root_of p then MIR_SLOT_INIT else held fl v)"
  "0 < tracked_depth p \<Longrightarrow> sl_init (mir_state_get (fl_state (prepare_store p fl)) (root_of p)) = MIR_SLOT_INIT"
  by (simp_all add: prepare_store_def Let_def init_open_path coarse_def)

lemma store_value_held:
  assumes "store_value p v stored fl = Some fl'" "sl_init stored = MIR_SLOT_INIT"
    "0 < tracked_depth p \<Longrightarrow> sl_init (mir_state_get (fl_state fl) (root_of p)) = MIR_SLOT_INIT"
  shows "frame fl fl' \<and> held fl' u = (if u = root_of p then MIR_SLOT_INIT else held fl u)"
proof (cases "store_into p (tracked_depth p) stored fl")
  case None
  then obtain s where s: "collect_sources fl v (set_init MIR_SLOT_INIT (mir_state_get (fl_state fl) (root_of p))) = Some s"
      "fl' = set_state (root_of p) s fl"
    using assms(1) by (auto simp: store_value_def)
  then show ?thesis using init_collect_sources [OF s(1)] by (simp add: coarse_def)
next
  case (Some x)
  then have "x = fl'" using assms(1) by (simp add: store_value_def)
  then show ?thesis using store_into_held [OF Some assms(2) refl assms(3)] by simp
qed

lemma check_outlived_frame:
  "check_outlived i v h hf f fl = Some fl' \<Longrightarrow> frame fl fl' \<and> fl_state fl' = fl_state fl"
  by (auto simp: check_outlived_def split: if_splits)

lemma held_same_state: "fl_state a = fl_state b \<Longrightarrow> held a v = held b v"
  by (simp add: held_def)

lemma flow_store_held:
  assumes "flow_store i fl = Some fl'" "mi_op i = MIR_STORE" "\<not> mir_value_is_none v"
  shows "frame fl fl' \<and> held fl' v = after_inst v i (held fl v)"
proof (cases "mi_args i")
  case Nil
  then show ?thesis using assms by (simp add: flow_store_def after_inst_def resets_def)
next
  case (Cons arg args)
  let ?p = "mi_place i" and ?a = "mir_operand_as_value arg"
  consider (none) "mir_value_is_none (root_of ?p)" | (past) "\<not> mir_value_is_none (root_of ?p)" "reaches_past_its_root ?p"
    | (tracked) "\<not> mir_value_is_none (root_of ?p)" "\<not> reaches_past_its_root ?p" by blast
  then show ?thesis
  proof cases
    case none
    then have "fl' = fl" "pl_base ?p \<noteq> v" using assms Cons by (auto simp: flow_store_def root_of_def Let_def)
    then show ?thesis using assms(2) by (simp add: after_inst_def resets_def)
  next
    case past
    then have "check_outlived i ?a MIR_NO_VALUE False MIR_WHOLE_VALUE fl = Some fl'"
      using assms(1) Cons by (simp add: flow_store_def)
    from check_outlived_frame [OF this] show ?thesis
      using assms(2) past held_same_state [of fl' fl] by (simp add: after_inst_def resets_def)
  next
    case tracked
    then obtain stored mid where stored: "collect_sources fl ?a (bare_slot MIR_SLOT_INIT) = Some stored"
      and mid: "store_value ?p ?a stored (prepare_store ?p fl) = Some mid"
      and last: "check_outlived i ?a (root_of ?p) (tracked_depth ?p > 0)
         (if tracked_depth ?p > 0 then pr_id (pl_projections ?p ! 0) else MIR_WHOLE_VALUE) mid = Some fl'"
      using assms(1) Cons by (simp add: flow_store_def Let_def bind_eq_Some_conv del: not_gr_zero neq0_conv) blast
    have "sl_init stored = MIR_SLOT_INIT" using init_collect_sources [OF stored] by simp
    then have 3: "frame (prepare_store ?p fl) mid \<and> held mid v = (if v = root_of ?p then MIR_SLOT_INIT else held (prepare_store ?p fl) v)"
      by (rule store_value_held [OF mid _ prepare_store_held(3)])
    note 4 = check_outlived_frame [OF last]
    have "frame fl fl'" using 3 4 prepare_store_held(1) frame_trans by blast
    moreover have "held fl' v = (if v = root_of ?p then MIR_SLOT_INIT else held fl v)"
      using 3 4 held_same_state [of fl' mid] by (simp add: prepare_store_held(2))
    ultimately show ?thesis using assms(2) tracked Cons by (simp add: after_inst_def resets_def root_of_def)
  qed
qed

text \<open>Every instruction does to the state of a value what \<open>resets\<close> says.\<close>

lemma flow_call_held:
  assumes "flow_call i fl = Some fl'" "mi_op i = MIR_CALL \<or> mi_op i = MIR_MAKE_SLICE \<or> mi_op i = MIR_COPY"
  shows "frame fl fl' \<and> held fl' v = after_inst v i (held fl v)"
proof -
  let ?fl1 = "fold (check_argument (mi_span i)) (mi_args i) fl"
  obtain s where s: "collect_sources ?fl1 (mi_result i) (bare_slot MIR_SLOT_INIT) = Some s" "fl' = set_state (mi_result i) s ?fl1"
    using assms(1) by (auto simp: flow_call_def Let_def)
  have "sl_init s = MIR_SLOT_INIT" using init_collect_sources [OF s(1)] by simp
  moreover have "frame fl ?fl1" "held ?fl1 v = held fl v"
    using check_arguments_frame held_same_state by blast+
  ultimately show ?thesis
    using s(2) assms(2) frame_trans [of fl ?fl1] by (auto simp: after_inst_def resets_def coarse_def Let_def)
qed

lemma flow_load_held:
  assumes "mi_op i = MIR_LOAD"
  shows "frame fl (flow_load i fl) \<and> held (flow_load i fl) v = after_inst v i (held fl v)"
proof -
  let ?fl1 = "check_readable (mi_place i) (mi_span i) fl"
  let ?fl2 = "set_state (mi_result i) (collect_place_sources ?fl1 (mi_place i) (bare_slot MIR_SLOT_INIT)) ?fl1"
  have "frame fl ?fl2" by simp
  moreover have "held ?fl1 v = held fl v" by (rule held_same_state) simp
  ultimately show ?thesis
    using assms frame_trans [of fl ?fl2]
    by (auto simp: flow_load_def Let_def after_inst_def resets_def coarse_def root_of_def)
qed

lemma flow_ref_held:
  assumes "mi_op i = MIR_REF"
  shows "frame fl (flow_ref i fl) \<and> held (flow_ref i fl) v = after_inst v i (held fl v)"
proof -
  let ?fl1 = "check_readable (mi_place i) (mi_span i) fl"
  have "held ?fl1 v = held fl v" by (rule held_same_state) simp
  then show ?thesis
    using assms frame_trans [of fl ?fl1] by (auto simp: flow_ref_def Let_def after_inst_def resets_def coarse_def)
qed

lemma flow_return_held:
  assumes "flow_return i fl = Some fl'"
  shows "frame fl fl' \<and> held fl' v = held fl v"
proof -
  have bits: "frame fl (fl\<lparr>fl_returned_params := b\<rparr>)" "held (fl\<lparr>fl_returned_params := b\<rparr>) v = held fl v" for b
    by (simp_all add: frame_def held_def)
  show ?thesis
    using assms bits
    by (auto simp: flow_return_def Let_def bind_eq_Some_conv split: list.splits if_splits)
qed

lemma flow_inst_held:
  assumes "flow_inst i fl = Some fl'" "\<not> mir_value_is_none v"
  shows "frame fl fl' \<and> held fl' v = after_inst v i (held fl v)"
proof -
  let ?root = "root_of (mi_place i)"
  have live: "frame fl (set_state ?root (bare_slot MIR_SLOT_UNINIT) (invalidate ?root fl))" by simp
  have drop: "frame fl (fold (\<lambda>a. invalidate (mir_operand_as_value a)) (mi_args i) (invalidate ?root fl)) \<and>
      held (fold (\<lambda>a. invalidate (mir_operand_as_value a)) (mi_args i) (invalidate ?root fl)) v = held fl v"
    using invalidate_all_frame [of "invalidate ?root fl" "mi_args i" v] frame_trans [OF frame_invalidate(1), of ?root fl]
    by simp
  show ?thesis
    using assms(1) flow_store_held [OF _ _ assms(2), of i fl fl'] flow_call_held [of i fl fl' v] flow_load_held [of i fl v]
      flow_ref_held [of i fl v] flow_return_held [of i fl fl' v] live drop
    by (cases "mi_op i")
      (auto simp: flow_inst_def Let_def after_inst_def resets_def coarse_def root_of_def)
qed

lemma flow_block_held:
  assumes "flow_block is fl = Some fl'" "\<not> mir_value_is_none v"
  shows "frame fl fl' \<and> held fl' v = after_insts v is (held fl v)"
  using assms(1)
proof (induction "is" arbitrary: fl)
  case (Cons i "is")
  then obtain mid where mid: "flow_inst i fl = Some mid" "flow_block is mid = Some fl'" by (auto simp: bind_eq_Some_conv)
  show ?case
    using flow_inst_held [OF mid(1) assms(2)] Cons.IH [OF mid(2)] frame_trans by (auto simp: after_insts_def)
qed (simp add: after_insts_def)


section \<open>The loop\<close>

text \<open>What a path makes of a value: parameters start with one, everything else is out of reach.\<close>

definition start_of :: "mir_function \<Rightarrow> nat \<Rightarrow> slot_init" where
  "start_of ir v = (if v \<in> set (mf_params ir) then MIR_SLOT_INIT else MIR_SLOT_UNREACHED)"

definition insts_on :: "mir_function \<Rightarrow> nat list \<Rightarrow> mir_inst list" where
  "insts_on ir path = concat (map (\<lambda>b. mf_blocks ir ! b) path)"

text \<open>The blocks of a path from the entry, without the one it arrives at.\<close>

inductive arrives_at :: "mir_function \<Rightarrow> nat \<Rightarrow> nat list \<Rightarrow> bool" for ir where
  arrives_start: "arrives_at ir (mf_entry ir) []"
| arrives_edge: "arrives_at ir b path \<Longrightarrow> flows ir b s \<Longrightarrow> arrives_at ir s (path @ [b])"

definition on_arrival :: "mir_function \<Rightarrow> nat list \<Rightarrow> nat \<Rightarrow> slot_init" where
  "on_arrival ir path v = after_insts v (insts_on ir path) (start_of ir v)"

text \<open>How the states of two paths join.\<close>

definition coarse_le :: "slot_init \<Rightarrow> slot_init \<Rightarrow> bool" where
  "coarse_le x y \<longleftrightarrow> x = MIR_SLOT_UNREACHED \<or> y \<noteq> MIR_SLOT_UNREACHED \<and> init_rank y \<le> init_rank x"

definition entry_held :: "mir_state list \<Rightarrow> nat \<Rightarrow> nat \<Rightarrow> slot_init" where
  "entry_held entries b v = coarse (sl_init (mir_state_get (entries ! b) v))"

definition entries_ok :: "mir_function \<Rightarrow> mir_state list \<Rightarrow> bool" where
  "entries_ok ir entries \<longleftrightarrow>
     length entries = length (mf_blocks ir) \<and> (\<forall>b < length entries. state_ok (entries ! b)) \<and>
     \<not> st_unreachable (entries ! mf_entry ir) \<and>
     (\<forall>v. \<not> mir_value_is_none v \<longrightarrow> coarse_le (start_of ir v) (entry_held entries (mf_entry ir) v)) \<and>
     (\<forall>b < length entries. \<not> st_unreachable (entries ! b) \<longrightarrow>
        (\<forall>v. \<not> mir_value_is_none v \<longrightarrow> (\<exists>path. arrives_at ir b path \<and> on_arrival ir path v = entry_held entries b v)))"

text \<open>Nothing changes any more on the edges of a block.\<close>

definition edges_stable :: "mir_function \<Rightarrow> mir_state list \<Rightarrow> nat \<Rightarrow> bool" where
  "edges_stable ir entries b \<longleftrightarrow> (\<not> st_unreachable (entries ! b) \<longrightarrow>
     (\<forall>s \<in> set (mir_block_successors (mf_blocks ir ! b)). \<not> st_unreachable (entries ! s) \<and>
        (\<forall>v. \<not> mir_value_is_none v \<longrightarrow>
           coarse_le (after_insts v (mf_blocks ir ! b) (entry_held entries b v)) (entry_held entries s v))))"

lemma coarse_le_refl [simp]: "coarse_le x x"
  by (simp add: coarse_le_def)

lemma coarse_le_trans: "coarse_le x y \<Longrightarrow> coarse_le y z \<Longrightarrow> coarse_le x z"
  by (auto simp: coarse_le_def)

lemma coarse_le_antisym: "coarse_le x y \<Longrightarrow> coarse_le y x \<Longrightarrow> x = y"
  by (cases x; cases y) (auto simp: coarse_le_def)

lemma after_insts_mono: "coarse_le x y \<Longrightarrow> coarse_le (after_insts v is x) (after_insts v is y)"
  unfolding after_insts_def by (induction "is" arbitrary: x y) (auto simp: after_inst_def split: option.split)

lemma coarse_merge:
  "coarse (sl_init (slot_merge a b)) = coarse (sl_init a) \<or> coarse (sl_init (slot_merge a b)) = coarse (sl_init b)"
  "coarse_le (coarse (sl_init a)) (coarse (sl_init (slot_merge a b)))"
  "coarse_le (coarse (sl_init b)) (coarse (sl_init (slot_merge a b)))"
proof -
  have "(coarse (sl_init (slot_merge a b)) = coarse (sl_init a) \<or> coarse (sl_init (slot_merge a b)) = coarse (sl_init b)) \<and>
     coarse_le (coarse (sl_init a)) (coarse (sl_init (slot_merge a b))) \<and> coarse_le (coarse (sl_init b)) (coarse (sl_init (slot_merge a b)))"
    by (subst (1 2 3 4) slot_merge.simps; cases "sl_init a"; cases "sl_init b") (simp_all add: coarse_def coarse_le_def)
  then show "coarse (sl_init (slot_merge a b)) = coarse (sl_init a) \<or> coarse (sl_init (slot_merge a b)) = coarse (sl_init b)"
    "coarse_le (coarse (sl_init a)) (coarse (sl_init (slot_merge a b)))"
    "coarse_le (coarse (sl_init b)) (coarse (sl_init (slot_merge a b)))" by blast+
qed

definition state_held :: "mir_state \<Rightarrow> nat \<Rightarrow> slot_init" where
  "state_held st v = coarse (sl_init (mir_state_get st v))"

text \<open>The state after a merge, value by value.\<close>

lemma merged_held:
  assumes "state_ok target" "state_ok exit" "\<not> st_unreachable exit"
  shows "\<not> st_unreachable (mir_state_merge target exit)"
    "state_held (mir_state_merge target exit) v = state_held exit v \<or>
       \<not> st_unreachable target \<and> state_held (mir_state_merge target exit) v = state_held target v"
    "coarse_le (state_held exit v) (state_held (mir_state_merge target exit) v)"
    "\<not> st_unreachable target \<Longrightarrow> coarse_le (state_held target v) (state_held (mir_state_merge target exit) v)"
proof -
  show "\<not> st_unreachable (mir_state_merge target exit)"
    using assms(3) merge_entries_frame by (auto simp: mir_state_merge_def mir_state_copy_id [OF assms(2)])
  have copied: "st_unreachable target \<Longrightarrow> mir_state_merge target exit = exit"
    using assms by (simp add: mir_state_merge_def mir_state_copy_id)
  have absent: "v \<notin> fst ` set (st_slots exit) \<Longrightarrow> state_held exit v = MIR_SLOT_UNREACHED"
    using mir_state_get_absent [of v exit] by (simp add: state_held_def coarse_def)
  have merged: "state_held (mir_state_merge target exit) v =
      (if v \<in> fst ` set (st_slots exit) then coarse (sl_init (slot_merge (mir_state_get target v) (mir_state_get exit v)))
       else state_held target v)" if "\<not> st_unreachable target"
    using mir_state_merge_get [OF assms(2) that assms(3)] by (simp add: state_held_def)
  show "state_held (mir_state_merge target exit) v = state_held exit v \<or>
       \<not> st_unreachable target \<and> state_held (mir_state_merge target exit) v = state_held target v"
    using copied merged coarse_merge(1) by (cases "st_unreachable target") (auto simp: state_held_def)
  show "coarse_le (state_held exit v) (state_held (mir_state_merge target exit) v)"
    using copied merged coarse_merge(3) absent by (cases "st_unreachable target") (auto simp: state_held_def coarse_le_def)
  show "coarse_le (state_held target v) (state_held (mir_state_merge target exit) v)" if "\<not> st_unreachable target"
    using merged [OF that] coarse_merge(2) by (simp add: state_held_def)
qed

lemma equals_held:
  assumes "state_ok a" "state_ok b" "mir_state_equals a b"
  shows "st_unreachable a = st_unreachable b" "state_held a v = state_held b v"
proof -
  show "st_unreachable a = st_unreachable b" using assms(3) by (simp add: mir_state_equals_def)
  have one: "sl_init (mir_state_get x v) = sl_init (mir_state_get y v)"
    if "state_ok x" "state_contained_by x y" "map_of (st_slots x) v = Some s" for x y s
  proof -
    have "(v, s) \<in> set (st_slots x)" using that(3) by (rule map_of_SomeD)
    then have "slot_equals s (mir_state_get y v)" using that(2) by (auto simp: state_contained_by_def list_all_iff)
    then have "sl_init s = sl_init (mir_state_get y v)" by (cases s; cases "mir_state_get y v") simp
    then show ?thesis using that(3) by (simp add: mir_state_get_def)
  qed
  have "sl_init (mir_state_get a v) = sl_init (mir_state_get b v)"
  proof (cases "map_of (st_slots a) v = None \<and> map_of (st_slots b) v = None")
    case True
    then show ?thesis by (simp add: mir_state_get_def)
  next
    case False
    then show ?thesis
      using one [of a b] one [of b a] assms by (auto simp: mir_state_equals_def)
  qed
  then show "state_held a v = state_held b v" by (simp add: state_held_def)
qed

text \<open>One edge: the table stays justified, and when it says nothing changed the target already allowed the exit.\<close>

lemma merge_edge_ok:
  assumes "entries_ok ir E" "state_ok exit" "\<not> st_unreachable exit" "t < length E"
    "\<forall>v. \<not> mir_value_is_none v \<longrightarrow> (\<exists>path. arrives_at ir t path \<and> on_arrival ir path v = state_held exit v)"
    "merge_edge exit t (E, changed) = (E', changed')"
  shows "entries_ok ir E'" "changed \<longrightarrow> changed'"
    "\<not> changed' \<longrightarrow> E' = E \<and> \<not> st_unreachable (E ! t) \<and> (\<forall>v. \<not> mir_value_is_none v \<longrightarrow> coarse_le (state_held exit v) (entry_held E t v))"
proof -
  let ?merged = "mir_state_merge (E ! t) exit"
  have ok: "state_ok (E ! t)" using assms(1,4) by (simp add: entries_ok_def)
  note m = merged_held [OF ok assms(2,3)]
  have mok: "state_ok ?merged" by (rule mir_state_merge_ok [OF ok assms(2)])
  have step: "(E', changed') = (if mir_state_equals ?merged (E ! t) then (E, changed) else (E[t := ?merged], True))"
    using assms(6) by (auto simp: merge_edge_def Let_def mir_state_copy_id [OF ok] mir_state_copy_id [OF mok] split: if_splits)
  show "changed \<longrightarrow> changed'" using step by (auto split: if_splits)
  show "\<not> changed' \<longrightarrow> E' = E \<and> \<not> st_unreachable (E ! t) \<and> (\<forall>v. \<not> mir_value_is_none v \<longrightarrow> coarse_le (state_held exit v) (entry_held E t v))"
  proof
    assume "\<not> changed'"
    then have eq: "mir_state_equals ?merged (E ! t)" "E' = E" using step by (auto split: if_splits)
    show "E' = E \<and> \<not> st_unreachable (E ! t) \<and> (\<forall>v. \<not> mir_value_is_none v \<longrightarrow> coarse_le (state_held exit v) (entry_held E t v))"
      using eq m(1,3) equals_held [OF mok ok eq(1)] by (simp add: entry_held_def state_held_def)
  qed
  have eh: "entry_held E b v = state_held (E ! b) v" for b v by (simp add: entry_held_def state_held_def)
  have "entries_ok ir (E[t := ?merged])"
    unfolding entries_ok_def
  proof (intro conjI allI impI)
    show "length (E[t := ?merged]) = length (mf_blocks ir)" using assms(1) by (simp add: entries_ok_def)
    show "state_ok (E[t := ?merged] ! b)" if "b < length (E[t := ?merged])" for b
      using that assms(1) mok by (cases "b = t") (auto simp: entries_ok_def)
    show "\<not> st_unreachable (E[t := ?merged] ! mf_entry ir)"
      using assms(1,4) m(1) by (cases "mf_entry ir = t") (auto simp: entries_ok_def)
    show "coarse_le (start_of ir v) (entry_held (E[t := ?merged]) (mf_entry ir) v)" if "\<not> mir_value_is_none v" for v
    proof (cases "mf_entry ir = t")
      case True
      then have "coarse_le (start_of ir v) (state_held (E ! t) v)" "\<not> st_unreachable (E ! t)"
        using assms(1) that by (auto simp: entries_ok_def eh)
      then show ?thesis using True assms(4) m(4) coarse_le_trans by (auto simp: entry_held_def state_held_def)
    qed (use assms(1) that in \<open>auto simp: entries_ok_def entry_held_def\<close>)
    show "\<exists>path. arrives_at ir b path \<and> on_arrival ir path v = entry_held (E[t := ?merged]) b v"
      if "b < length (E[t := ?merged])" "\<not> st_unreachable (E[t := ?merged] ! b)" "\<not> mir_value_is_none v" for b v
    proof (cases "b = t")
      case True
      have "state_held ?merged v = state_held exit v \<or> \<not> st_unreachable (E ! t) \<and> state_held ?merged v = state_held (E ! t) v"
        by (rule m(2))
      then show ?thesis using True assms(1,4,5) that(3) unfolding entries_ok_def eh [symmetric]
        by (metis entry_held_def nth_list_update_eq state_held_def)
    qed (use that assms(1) in \<open>auto simp: entries_ok_def entry_held_def\<close>)
  qed
  then show "entries_ok ir E'" using assms(1) step by (auto split: if_splits)
qed

lemma merge_edges_ok:
  assumes "entries_ok ir E" "state_ok exit" "\<not> st_unreachable exit" "\<forall>t \<in> set ts. t < length E"
    "\<forall>t \<in> set ts. \<forall>v. \<not> mir_value_is_none v \<longrightarrow> (\<exists>path. arrives_at ir t path \<and> on_arrival ir path v = state_held exit v)"
    "fold (merge_edge exit) ts (E, changed) = (E', changed')"
  shows "entries_ok ir E' \<and> (changed \<longrightarrow> changed') \<and>
    (\<not> changed' \<longrightarrow> E' = E \<and> (\<forall>t \<in> set ts. \<not> st_unreachable (E ! t) \<and>
       (\<forall>v. \<not> mir_value_is_none v \<longrightarrow> coarse_le (state_held exit v) (entry_held E t v))))"
  using assms
proof (induction ts arbitrary: E changed)
  case (Cons t ts)
  obtain E1 c1 where one: "merge_edge exit t (E, changed) = (E1, c1)" by fastforce
  have just: "\<forall>v. \<not> mir_value_is_none v \<longrightarrow> (\<exists>path. arrives_at ir t path \<and> on_arrival ir path v = state_held exit v)"
    using Cons.prems(5) by simp
  have t: "t < length E" using Cons.prems(4) by simp
  note step = merge_edge_ok [OF Cons.prems(1-3) t just one]
  have len: "length E1 = length E" using step(1) Cons.prems(1) by (simp add: entries_ok_def)
  have "fold (merge_edge exit) ts (E1, c1) = (E', changed')" using Cons.prems(6) one by simp
  from Cons.IH [OF step(1) Cons.prems(2,3) _ _ this]
  show ?case using step Cons.prems(4,5) len by auto
qed simp

section \<open>One pass over the blocks\<close>

definition keeps :: "mir_flow \<Rightarrow> mir_flow \<Rightarrow> bool" where
  "keeps fl fl' \<longleftrightarrow> fl_ir fl' = fl_ir fl \<and> fl_reporting fl' = fl_reporting fl \<and>
     (\<exists>new. ds_items (fl_diagnostics fl') = ds_items (fl_diagnostics fl) @ new)"

lemma keeps_refl [simp]: "keeps fl fl"
  by (simp add: keeps_def)

lemma keeps_trans: "keeps a b \<Longrightarrow> keeps b c \<Longrightarrow> keeps a c"
  unfolding keeps_def by fastforce

lemma flow_from_held:
  assumes "flow_from E b fl = Some fl'" "state_ok (E ! b)" "\<not> st_unreachable (E ! b)"
  shows "keeps fl fl'" "state_ok (fl_state fl')" "\<not> st_unreachable (fl_state fl')"
    "\<not> mir_value_is_none v \<Longrightarrow> state_held (fl_state fl') v = after_insts v (mf_blocks (fl_ir fl) ! b) (entry_held E b v)"
proof -
  have run: "flow_block (mf_blocks (fl_ir fl) ! b) (fl\<lparr>fl_state := E ! b\<rparr>) = Some fl'"
    using assms(1,2) by (simp add: flow_from_def mir_state_copy_id)
  have none: "\<not> mir_value_is_none 0" by (simp add: mir_value_is_none_def)
  have "frame (fl\<lparr>fl_state := E ! b\<rparr>) fl'" using flow_block_held [OF run none] by blast
  then show "keeps fl fl'" "state_ok (fl_state fl')" "\<not> st_unreachable (fl_state fl')"
    using assms(2,3) by (auto simp: frame_def keeps_def)
  show "\<not> mir_value_is_none v \<Longrightarrow> state_held (fl_state fl') v = after_insts v (mf_blocks (fl_ir fl) ! b) (entry_held E b v)"
    using flow_block_held [OF run, of v] by (simp add: held_def state_held_def entry_held_def)
qed

lemma on_arrival_step: "on_arrival ir (path @ [b]) v = after_insts v (mf_blocks ir ! b) (on_arrival ir path v)"
  by (simp add: on_arrival_def insts_on_def after_insts_def)

lemma flow_pass_ok:
  assumes "mir_wf ir" "fl_ir fl = ir" "entries_ok ir E" "\<forall>b \<in> set bs. b < length (mf_blocks ir)"
    "flow_pass bs (E, changed) fl = Some ((E', changed'), fl')"
  shows "entries_ok ir E' \<and> keeps fl fl' \<and> (changed \<longrightarrow> changed') \<and>
    (\<not> changed' \<longrightarrow> E' = E \<and> (\<forall>b \<in> set bs. edges_stable ir E b))"
  using assms(2-)
proof (induction bs arbitrary: E changed fl)
  case (Cons b bs)
  show ?case
  proof (cases "st_unreachable (E ! b)")
    case True
    then have "flow_pass bs (E, changed) fl = Some ((E', changed'), fl')" using Cons.prems(4) by simp
    from Cons.IH [OF Cons.prems(1,2) _ this] show ?thesis using True Cons.prems(3) by (auto simp: edges_stable_def)
  next
    case False
    obtain mid where mid: "flow_from E b fl = Some mid"
        "flow_pass bs (fold (merge_edge (fl_state mid)) (mir_block_successors (mf_blocks ir ! b)) (E, changed)) mid = Some ((E', changed'), fl')"
      using Cons.prems(1,4) False by (auto simp: bind_eq_Some_conv)
    have b: "b < length (mf_blocks ir)" "b < length E" using Cons.prems(2,3) by (auto simp: entries_ok_def)
    have ok: "state_ok (E ! b)" using Cons.prems(2) b(2) by (simp add: entries_ok_def)
    note exit = flow_from_held [OF mid(1) ok False]
    obtain E1 c1 where fold: "fold (merge_edge (fl_state mid)) (mir_block_successors (mf_blocks ir ! b)) (E, changed) = (E1, c1)"
      by fastforce
    have targets: "\<forall>t \<in> set (mir_block_successors (mf_blocks ir ! b)). t < length E"
      using assms(1) b Cons.prems(2) by (auto simp: mir_wf_def entries_ok_def)
    have just: "\<forall>t \<in> set (mir_block_successors (mf_blocks ir ! b)). \<forall>v. \<not> mir_value_is_none v \<longrightarrow>
        (\<exists>path. arrives_at ir t path \<and> on_arrival ir path v = state_held (fl_state mid) v)"
    proof (intro ballI allI impI)
      fix t v assume t: "t \<in> set (mir_block_successors (mf_blocks ir ! b))" and v: "\<not> mir_value_is_none v"
      obtain path where path: "arrives_at ir b path" "on_arrival ir path v = entry_held E b v"
        using Cons.prems(2) b(2) False v unfolding entries_ok_def by blast
      have "arrives_at ir t (path @ [b])" using path(1) t b(1) by (auto intro: arrives_edge simp: flows_def)
      then show "\<exists>path. arrives_at ir t path \<and> on_arrival ir path v = state_held (fl_state mid) v"
        using path(2) exit(4) [OF v] Cons.prems(1) by (auto simp: on_arrival_step)
    qed
    note edges = merge_edges_ok [OF Cons.prems(2) exit(2,3) targets just fold]
    have IH: "entries_ok ir E' \<and> keeps mid fl' \<and> (c1 \<longrightarrow> changed') \<and> (\<not> changed' \<longrightarrow> E' = E1 \<and> (\<forall>b \<in> set bs. edges_stable ir E1 b))"
      by (rule Cons.IH) (use exit(1) Cons.prems mid(2) edges fold in \<open>auto simp: keeps_def\<close>)
    have "edges_stable ir E b" if "\<not> c1"
      using edges that exit(4) Cons.prems(1) by (auto simp: edges_stable_def)
    then show ?thesis using IH edges keeps_trans [OF exit(1)] by auto
  qed
qed simp

lemma flow_loop_ok:
  assumes "flow_loop E fl = Some (E', fl')" "mir_wf (fl_ir fl)" "entries_ok (fl_ir fl) E"
  shows "entries_ok (fl_ir fl) E' \<and> keeps fl fl' \<and> (\<forall>b < length (mf_blocks (fl_ir fl)). edges_stable (fl_ir fl) E' b)"
proof -
  have "\<forall>E' fl'. r = (E', fl') \<longrightarrow> mir_wf (fl_ir fl) \<longrightarrow> entries_ok (fl_ir fl) E \<longrightarrow>
     entries_ok (fl_ir fl) E' \<and> keeps fl fl' \<and> (\<forall>b < length (mf_blocks (fl_ir fl)). edges_stable (fl_ir fl) E' b)"
    if "flow_loop E fl = Some r" for r
    using that
  proof (rule flow_loop.raw_induct [rotated])
    fix loop :: "mir_state list \<Rightarrow> mir_flow \<Rightarrow> (mir_state list \<times> mir_flow) option" and E fl r
    assume IH: "\<And>E fl r. loop E fl = Some r \<Longrightarrow> \<forall>E' fl'. r = (E', fl') \<longrightarrow> mir_wf (fl_ir fl) \<longrightarrow> entries_ok (fl_ir fl) E \<longrightarrow>
        entries_ok (fl_ir fl) E' \<and> keeps fl fl' \<and> (\<forall>b < length (mf_blocks (fl_ir fl)). edges_stable (fl_ir fl) E' b)"
      and step: "do { ((entries', changed), fl') \<leftarrow> flow_pass [0..<length (mf_blocks (fl_ir fl))] (E, False) fl;
          if changed then loop entries' fl' else Some (entries', fl') } = Some r"
    show "\<forall>E' fl'. r = (E', fl') \<longrightarrow> mir_wf (fl_ir fl) \<longrightarrow> entries_ok (fl_ir fl) E \<longrightarrow>
        entries_ok (fl_ir fl) E' \<and> keeps fl fl' \<and> (\<forall>b < length (mf_blocks (fl_ir fl)). edges_stable (fl_ir fl) E' b)"
    proof (intro allI impI)
      fix E' fl' assume r: "r = (E', fl')" and wf: "mir_wf (fl_ir fl)" and ok: "entries_ok (fl_ir fl) E"
      obtain E1 c fl1 where pass: "flow_pass [0..<length (mf_blocks (fl_ir fl))] (E, False) fl = Some ((E1, c), fl1)"
          "(if c then loop E1 fl1 else Some (E1, fl1)) = Some (E', fl')"
        using step r by (auto simp: bind_eq_Some_conv)
      note one = flow_pass_ok [OF wf refl ok _ pass(1)]
      show "entries_ok (fl_ir fl) E' \<and> keeps fl fl' \<and> (\<forall>b < length (mf_blocks (fl_ir fl)). edges_stable (fl_ir fl) E' b)"
      proof (cases c)
        case True
        have same: "fl_ir fl1 = fl_ir fl" using one by (simp add: keeps_def)
        from IH [of E1 fl1 "(E', fl')"] pass(2) True wf one show ?thesis
          unfolding same using keeps_trans by auto
      next
        case False
        then show ?thesis using one pass(2) by auto
      qed
    qed
  qed
  then show ?thesis using assms by blast
qed


section \<open>The table is the meet over all paths\<close>

lemma first_state_held:
  "state_ok st \<Longrightarrow> state_ok (fold (\<lambda>p. mir_state_set p (parameter_slot fl p)) ps st)"
  "st_unreachable (fold (\<lambda>p. mir_state_set p (parameter_slot fl p)) ps st) = st_unreachable st"
  "state_held (fold (\<lambda>p. mir_state_set p (parameter_slot fl p)) ps st) v = (if v \<in> set ps then MIR_SLOT_INIT else state_held st v)"
proof -
  have "(state_ok st \<longrightarrow> state_ok (fold (\<lambda>p. mir_state_set p (parameter_slot fl p)) ps st)) \<and>
     st_unreachable (fold (\<lambda>p. mir_state_set p (parameter_slot fl p)) ps st) = st_unreachable st \<and>
     state_held (fold (\<lambda>p. mir_state_set p (parameter_slot fl p)) ps st) v = (if v \<in> set ps then MIR_SLOT_INIT else state_held st v)"
    by (induction ps arbitrary: st) (simp_all add: state_held_def parameter_slot_def coarse_def)
  then show "state_ok st \<Longrightarrow> state_ok (fold (\<lambda>p. mir_state_set p (parameter_slot fl p)) ps st)"
    "st_unreachable (fold (\<lambda>p. mir_state_set p (parameter_slot fl p)) ps st) = st_unreachable st"
    "state_held (fold (\<lambda>p. mir_state_set p (parameter_slot fl p)) ps st) v = (if v \<in> set ps then MIR_SLOT_INIT else state_held st v)"
    by blast+
qed

lemma first_entries_ok:
  assumes "mir_wf (fl_ir fl)"
  shows "entries_ok (fl_ir fl) (first_entries fl)"
proof -
  let ?ir = "fl_ir fl" and ?E = "first_entries fl"
  let ?first = "fold (\<lambda>p. mir_state_set p (parameter_slot fl p)) (mf_params ?ir) mir_state_init"
  have entry: "mf_entry ?ir < length (mf_blocks ?ir)" using assms by (simp add: mir_wf_def)
  have init: "state_ok mir_state_init" "\<not> st_unreachable mir_state_init" "state_held mir_state_init v = MIR_SLOT_UNREACHED" for v
    by (simp_all add: state_ok_def mir_state_init_def state_held_def mir_state_get_def coarse_def)
  have at_entry: "?E ! mf_entry ?ir = ?first" using entry by (simp add: first_entries_def)
  have other: "?E ! b = mir_state_init\<lparr>st_unreachable := True\<rparr>" if "b < length (mf_blocks ?ir)" "b \<noteq> mf_entry ?ir" for b
    using that by (simp add: first_entries_def)
  have start: "entry_held ?E (mf_entry ?ir) v = start_of ?ir v" for v
    using first_state_held(3) [of fl "mf_params ?ir" mir_state_init v] init(3)
    by (simp add: entry_held_def state_held_def at_entry start_of_def)
  show ?thesis
    unfolding entries_ok_def
  proof (intro conjI allI impI)
    show "length ?E = length (mf_blocks ?ir)" by (simp add: first_entries_def)
    then show "state_ok (?E ! b)" if "b < length ?E" for b
      using that first_state_held(1) [of mir_state_init fl "mf_params ?ir"] init(1) at_entry other [of b]
      by (cases "b = mf_entry ?ir") (auto simp: state_ok_def)
    show "\<not> st_unreachable (?E ! mf_entry ?ir)" using first_state_held(2) init(2) at_entry by simp
    show "coarse_le (start_of ?ir v) (entry_held ?E (mf_entry ?ir) v)" for v by (simp add: start)
    show "\<exists>path. arrives_at ?ir b path \<and> on_arrival ?ir path v = entry_held ?E b v"
      if "b < length ?E" "\<not> st_unreachable (?E ! b)" for b v
    proof -
      have "length ?E = length (mf_blocks ?ir)" by (simp add: first_entries_def)
      then have b: "b = mf_entry ?ir" using that other [of b] by (cases "b = mf_entry ?ir") simp_all
      have "on_arrival ?ir [] v = start_of ?ir v" by (simp add: on_arrival_def insts_on_def after_insts_def)
      then show ?thesis using arrives_start b start by metis
    qed
  qed
qed

lemma stable_on_arrival:
  assumes "mir_wf ir" "entries_ok ir E" "\<forall>b < length (mf_blocks ir). edges_stable ir E b" "arrives_at ir b path"
  shows "b < length (mf_blocks ir) \<and> \<not> st_unreachable (E ! b) \<and>
     (\<forall>v. \<not> mir_value_is_none v \<longrightarrow> coarse_le (on_arrival ir path v) (entry_held E b v))"
  using assms(4)
proof induction
  case arrives_start
  then show ?case using assms(1,2) by (simp add: entries_ok_def mir_wf_def on_arrival_def insts_on_def after_insts_def)
next
  case (arrives_edge b path s)
  have s: "s \<in> set (mir_block_successors (mf_blocks ir ! b))" "s < length (mf_blocks ir)"
    using arrives_edge(2) mir_wf_flows [OF assms(1)] by (auto simp: flows_def)
  have st: "edges_stable ir E b" using assms(3) arrives_edge.IH by blast
  have "coarse_le (on_arrival ir (path @ [b]) v) (entry_held E s v)" if v: "\<not> mir_value_is_none v" for v
  proof -
    have "coarse_le (on_arrival ir (path @ [b]) v) (after_insts v (mf_blocks ir ! b) (entry_held E b v))"
      unfolding on_arrival_step using arrives_edge.IH v after_insts_mono by blast
    moreover have "coarse_le (after_insts v (mf_blocks ir ! b) (entry_held E b v)) (entry_held E s v)"
      using st arrives_edge.IH s v by (auto simp: edges_stable_def)
    ultimately show ?thesis by (rule coarse_le_trans)
  qed
  then show ?case using st arrives_edge.IH s by (auto simp: edges_stable_def)
qed

text \<open>What a path makes of a value by the time it reaches an instruction.\<close>

definition value_at :: "mir_function \<Rightarrow> nat list \<Rightarrow> nat \<Rightarrow> nat \<Rightarrow> nat \<Rightarrow> slot_init" where
  "value_at ir path b j v = after_insts v (insts_on ir path @ take j (mf_blocks ir ! b)) (start_of ir v)"

lemma value_at_arrival: "value_at ir path b j v = after_insts v (take j (mf_blocks ir ! b)) (on_arrival ir path v)"
  by (simp add: value_at_def on_arrival_def after_insts_def)

lemma after_insts_cases:
  "(\<forall>x. after_insts v is x = x) \<or> (\<exists>y. y \<noteq> MIR_SLOT_UNREACHED \<and> (\<forall>x. after_insts v is x = y))"
proof (induction "is" rule: rev_induct)
  case (snoc i "is")
  have "resets v i \<noteq> Some MIR_SLOT_UNREACHED" by (simp add: resets_def Let_def)
  then show ?case using snoc by (cases "resets v i") (auto simp: after_insts_def after_inst_def)
qed (simp add: after_insts_def)

lemma table_is_meet:
  assumes "mir_wf ir" "entries_ok ir E" "\<forall>b < length (mf_blocks ir). edges_stable ir E b" "arrives_at ir b path"
    "\<not> mir_value_is_none v" "value_at ir path b j v = MIR_SLOT_MOVED"
    "\<forall>path. arrives_at ir b path \<longrightarrow> value_at ir path b j v \<noteq> MIR_SLOT_UNINIT"
  shows "after_insts v (take j (mf_blocks ir ! b)) (entry_held E b v) = MIR_SLOT_MOVED"
proof -
  note arr = stable_on_arrival [OF assms(1-4)]
  have "coarse_le MIR_SLOT_MOVED (after_insts v (take j (mf_blocks ir ! b)) (entry_held E b v))"
    using after_insts_mono arr assms(5,6) unfolding value_at_arrival by metis
  moreover obtain other where "arrives_at ir b other" "on_arrival ir other v = entry_held E b v"
    using assms(2,5) arr unfolding entries_ok_def by metis
  then have "after_insts v (take j (mf_blocks ir ! b)) (entry_held E b v) \<noteq> MIR_SLOT_UNINIT"
    using assms(7) unfolding value_at_arrival by metis
  ultimately show ?thesis
    by (cases "after_insts v (take j (mf_blocks ir ! b)) (entry_held E b v)") (auto simp: coarse_le_def)
qed

section \<open>The report\<close>

lemma flow_block_append: "flow_block (xs @ ys) fl = Option.bind (flow_block xs fl) (flow_block ys)"
proof (induction xs arbitrary: fl)
  case (Cons x xs)
  then show ?case by (cases "flow_inst x fl") simp_all
qed simp

lemma flow_report_keeps:
  assumes "flow_report bs E fl = Some fl'" "\<forall>b \<in> set bs. state_ok (E ! b)"
  shows "keeps fl fl'"
  using assms
proof (induction bs arbitrary: fl)
  case (Cons b bs)
  then show ?case
    using flow_from_held(1) keeps_trans by (auto simp: bind_eq_Some_conv split: if_splits) blast
qed simp

lemma flow_report_visits:
  assumes "flow_report bs E fl = Some fl'" "\<forall>b \<in> set bs. state_ok (E ! b)" "b \<in> set bs" "\<not> st_unreachable (E ! b)"
  shows "\<exists>before after. keeps fl before \<and> flow_from E b before = Some after \<and> keeps after fl'"
  using assms
proof (induction bs arbitrary: fl)
  case (Cons c bs)
  show ?case
  proof (cases "c = b")
    case True
    then obtain mid where mid: "flow_from E b fl = Some mid" "flow_report bs E mid = Some fl'"
      using Cons.prems(1,4) by (auto simp: bind_eq_Some_conv)
    then have "keeps mid fl'" using flow_report_keeps Cons.prems(2) by simp
    then show ?thesis using mid(1) keeps_refl by blast
  next
    case False
    then have b: "b \<in> set bs" using Cons.prems(3) by simp
    show ?thesis
    proof (cases "st_unreachable (E ! c)")
      case True
      then show ?thesis using Cons.IH [of fl] Cons.prems b by simp
    next
      case False
      then obtain mid where mid: "flow_from E c fl = Some mid" "flow_report bs E mid = Some fl'"
        using Cons.prems(1) by (auto simp: bind_eq_Some_conv)
      have "keeps fl mid" using flow_from_held(1) [OF mid(1) _ False] Cons.prems(2) by simp
      then show ?thesis using Cons.IH [OF mid(2) _ b Cons.prems(4)] Cons.prems(2) keeps_trans by auto
    qed
  qed
qed simp

lemma moved_read_reports:
  assumes "held fl v = MIR_SLOT_MOVED" "flow_inst i fl = Some fl'" "mi_op i = MIR_LOAD \<or> mi_op i = MIR_REF"
    "v = pl_base (mi_place i)" "\<not> mir_value_is_none v" "tracked_depth (mi_place i) = 0" "fl_reporting fl"
  shows "\<lparr>dg_kind = GAB_ERR_LIFETIME, dg_span = mi_span i, dg_message = moved_message\<rparr> \<in> set (ds_items (fl_diagnostics fl'))"
proof -
  let ?p = "mi_place i"
  have init: "sl_init (mir_state_get (fl_state fl) v) = MIR_SLOT_MOVED" using assms(1) by (auto simp: held_def coarse_def split: if_splits)
  have walk: "slot_walk (pl_projections ?p) s = Some s" for s
    using assms(6) by (cases "pl_projections ?p") (auto simp: tracked_depth_def split: if_splits)
  have "state_of fl ?p = MIR_SLOT_MOVED"
    using init walk assms(4,5) by (simp add: state_of_def slot_of_def root_of_def Let_def)
  then have "check_readable ?p (mi_span i) fl = report (mi_span i) moved_message fl"
    using assms(4,5) by (simp add: check_readable_def root_of_def)
  then have "\<lparr>dg_kind = GAB_ERR_LIFETIME, dg_span = mi_span i, dg_message = moved_message\<rparr> \<in>
      set (ds_items (fl_diagnostics (check_readable ?p (mi_span i) fl)))"
    using assms(7) by (simp add: report_def diag_error_def)
  moreover have "fl_diagnostics fl' = fl_diagnostics (check_readable ?p (mi_span i) fl)"
    using assms(2,3) by (auto simp: flow_inst_def flow_load_def flow_ref_def set_state_def Let_def)
  ultimately show ?thesis by simp
qed


end
