(* ===== verification/Borrowck_Ends.thy ===== *)
theory Borrowck_Ends
  imports Borrowck_Correct Liveness_Correct Fixpoint
begin

text \<open>
  The borrow checker always returns.  Following the definitions of values ends when no value is defined
  through itself, and the loop over the blocks ends because a state in the table only grows - a value
  loses what it holds, gains borrows or gains tracked fields - within the finite vocabulary of the
  function: its values, its field numbers and the depth of its places.
\<close>

section \<open>Slots over a finite vocabulary\<close>

fun slot_in :: "nat set \<Rightarrow> nat \<Rightarrow> nat \<Rightarrow> mir_slot \<Rightarrow> bool" where
  "slot_in V W D (Slot i bs fs) \<longleftrightarrow>
     i \<noteq> MIR_SLOT_UNREACHED \<and> set bs \<subseteq> V \<and> distinct bs \<and> length fs \<le> W \<and> (fs \<noteq> [] \<longrightarrow> 0 < D) \<and> list_all (slot_in V W (D - 1)) fs"

declare slot_in.simps [simp del]

lemma slot_in_parts:
  assumes "slot_in V W D s"
  shows "sl_init s \<noteq> MIR_SLOT_UNREACHED" "set (sl_borrows s) \<subseteq> V" "distinct (sl_borrows s)" "length (sl_fields s) \<le> W"
    "sl_fields s \<noteq> [] \<Longrightarrow> 0 < D" "i < length (sl_fields s) \<Longrightarrow> slot_in V W (D - 1) (sl_fields s ! i)"
  using assms by (cases s; simp add: slot_in.simps list_all_length)+

lemma slot_in_bare [simp]: "slot_in V W D (bare_slot i) \<longleftrightarrow> i \<noteq> MIR_SLOT_UNREACHED"
  by (simp add: bare_slot_def slot_in.simps)

lemma slot_in_field: "slot_in V W D s \<Longrightarrow> slot_in V W (D - 1) (slot_field s i)"
  using slot_in_parts(1,6) by (auto simp: slot_field_def)

lemma slot_in_deeper: "slot_in V W D s \<Longrightarrow> D \<le> D' \<Longrightarrow> slot_in V W D' s"
proof (induction V W D s arbitrary: D' rule: slot_in.induct)
  case (1 V W D i bs fs)
  have "list_all (slot_in V W (D' - 1)) fs"
    using 1 by (auto simp: slot_in.simps list_all_iff intro: diff_le_mono)
  then show ?case using 1 by (auto simp: slot_in.simps)
qed

lemma slot_in_set_init: "slot_in V W D s \<Longrightarrow> i \<noteq> MIR_SLOT_UNREACHED \<Longrightarrow> slot_in V W D (set_init i s)"
  by (cases s) (simp add: slot_in.simps)

lemma slot_in_set_all: "slot_in V W D s \<Longrightarrow> i \<noteq> MIR_SLOT_UNREACHED \<Longrightarrow> slot_in V W D (mir_slot_set_all i s)"
  by (induction V W D s rule: slot_in.induct) (auto simp: slot_in.simps list_all_iff)

lemma slot_in_invalidate: "slot_in V W D s \<Longrightarrow> slot_in V W D (slot_invalidate_borrows_of v s)"
  by (induction V W D s rule: slot_in.induct) (auto simp: slot_in.simps list_all_iff)

lemma slot_in_add_borrow: "slot_in V W D s \<Longrightarrow> v \<in> V \<Longrightarrow> slot_in V W D (mir_slot_add_borrow v s)"
  by (cases s) (auto simp: mir_slot_add_borrow_def mir_slot_borrows_from_def slot_in.simps)

lemma slot_in_add_borrows: "slot_in V W D s \<Longrightarrow> set vs \<subseteq> V \<Longrightarrow> slot_in V W D (fold mir_slot_add_borrow vs s)"
  by (induction vs arbitrary: s) (auto intro: slot_in_add_borrow)

lemma flattened_borrows: "slot_in V W D s \<or> s = bare_slot MIR_SLOT_UNREACHED \<Longrightarrow> set (sl_borrows (mir_slot_flattened s)) \<subseteq> V"
proof (induction s arbitrary: D rule: mir_slot_flattened.induct)
  case (1 i bs fs)
  have fields: "set (sl_borrows (mir_slot_flattened f)) \<subseteq> V" if "f \<in> set fs" for f
    using 1 that by (auto simp: slot_in.simps list_all_iff bare_slot_def)
  have "set (sl_borrows (fold flatten_field gs t)) \<subseteq> V"
    if "\<forall>g \<in> set gs. set (sl_borrows g) \<subseteq> V" "set (sl_borrows t) \<subseteq> V" for gs t
    using that
  proof (induction gs arbitrary: t)
    case (Cons g gs)
    have "set (sl_borrows (flatten_field g t)) \<subseteq> V" using Cons.prems by (auto simp: flatten_field_def fold_add_borrow)
    then show ?case using Cons by simp
  qed simp
  moreover have "set (sl_borrows (fold mir_slot_add_borrow bs (bare_slot i))) \<subseteq> V"
    using "1.prems" by (auto simp: fold_add_borrow slot_in.simps bare_slot_def)
  ultimately show ?case using fields by (auto simp: mir_slot_flattened.simps)
qed

lemma slot_in_open_fields:
  "slot_in V W D s \<Longrightarrow> n \<le> W \<Longrightarrow> 0 < D \<Longrightarrow> slot_in V W D (mir_slot_open_fields n s)"
  by (cases s) (auto simp: mir_slot_open_fields_def slot_in.simps list_all_iff)

lemma slot_in_update_field:
  "slot_in V W D s \<Longrightarrow> slot_in V W (D - 1) f \<Longrightarrow> 0 < D \<Longrightarrow> slot_in V W D (Slot (sl_init s) (sl_borrows s) ((sl_fields s)[n := f]))"
  by (cases s) (auto simp: slot_in.simps list_all_iff dest!: set_update_subset_insert [THEN subsetD])

lemma slot_in_open_path:
  "slot_in V W D s \<Longrightarrow> length ps \<le> D \<Longrightarrow> \<forall>p \<in> set ps. pr_id p < W \<Longrightarrow> slot_in V W D (open_path ps s)"
proof (induction ps arbitrary: s D)
  case (Cons p ps)
  let ?s = "mir_slot_open_fields (pr_id p + 1) s"
  have s: "slot_in V W D ?s" using Cons.prems by (intro slot_in_open_fields) auto
  have "pr_id p < length (sl_fields ?s)" by (auto simp: mir_slot_open_fields_def)
  then have "slot_in V W (D - 1) (sl_fields ?s ! pr_id p)" by (rule slot_in_parts(6) [OF s])
  then have "slot_in V W (D - 1) (open_path ps (sl_fields ?s ! pr_id p))" using Cons.prems by (intro Cons.IH) auto
  then show ?case using slot_in_update_field [OF s] Cons.prems(2) by (simp add: Let_def)
qed simp

lemma slot_in_replace:
  "slot_replace ps stored s = Some r \<Longrightarrow> slot_in V W D s \<Longrightarrow> slot_in V W 0 stored \<Longrightarrow> slot_in V W D r"
proof (induction ps arbitrary: s D r)
  case Nil
  then show ?case using slot_in_deeper [of V W 0 stored D] by simp
next
  case (Cons p ps)
  then obtain f where f: "slot_replace ps stored (sl_fields s ! pr_id p) = Some f" "pr_id p < length (sl_fields s)"
      "r = Slot (sl_init s) (sl_borrows s) ((sl_fields s)[pr_id p := f])"
    by (auto split: if_splits)
  have "slot_in V W (D - 1) f" using Cons.IH [OF f(1)] slot_in_parts(6) [OF Cons.prems(2) f(2)] Cons.prems(3) by blast
  moreover have "0 < D" using slot_in_parts(5) [OF Cons.prems(2)] f(2) by fastforce
  ultimately show ?case using slot_in_update_field [OF Cons.prems(2)] f(3) by simp
qed


section \<open>A merge only grows\<close>

fun weight :: "nat \<Rightarrow> nat \<Rightarrow> mir_slot \<Rightarrow> nat" where
  "weight W 0 s = (4 - init_rank (sl_init s)) + length (sl_borrows s) + length (sl_fields s)"
| "weight W (Suc D) s =
     (4 - init_rank (sl_init s)) + length (sl_borrows s) + length (sl_fields s) + (\<Sum>i < W. weight W D (slot_field s i))"

definition own_weight :: "mir_slot \<Rightarrow> nat" where
  "own_weight s = (4 - init_rank (sl_init s)) + length (sl_borrows s) + length (sl_fields s)"

lemma weight_bare_mono: "init_rank j \<le> init_rank i \<Longrightarrow> weight W D (bare_slot i) \<le> weight W D (bare_slot j)"
  by (induction D) (simp_all add: add_mono sum_mono diff_le_mono2)

lemma length_add_borrows:
  "length (sl_borrows s) \<le> length (sl_borrows (fold mir_slot_add_borrow vs s))"
  "length (sl_borrows (fold mir_slot_add_borrow vs s)) = length (sl_borrows s) \<Longrightarrow> sl_borrows (fold mir_slot_add_borrow vs s) = sl_borrows s"
proof -
  have "\<exists>xs. sl_borrows (fold mir_slot_add_borrow vs s) = sl_borrows s @ xs"
  proof (induction vs arbitrary: s)
    case (Cons v vs)
    obtain xs where "sl_borrows (fold mir_slot_add_borrow vs (mir_slot_add_borrow v s)) = sl_borrows (mir_slot_add_borrow v s) @ xs"
      using Cons by blast
    moreover have "\<exists>ys. sl_borrows (mir_slot_add_borrow v s) = sl_borrows s @ ys" by (auto simp: mir_slot_add_borrow_def)
    ultimately show ?case by auto
  qed simp
  then show "length (sl_borrows s) \<le> length (sl_borrows (fold mir_slot_add_borrow vs s))"
    "length (sl_borrows (fold mir_slot_add_borrow vs s)) = length (sl_borrows s) \<Longrightarrow> sl_borrows (fold mir_slot_add_borrow vs s) = sl_borrows s"
    by auto
qed

lemma slot_in_merge: "slot_in V W D a \<Longrightarrow> slot_in V W D b \<Longrightarrow> slot_in V W D (slot_merge a b)"
proof (induction a b arbitrary: D rule: slot_merge.induct)
  case (1 a b)
  note ra = slot_in_parts(1) [OF "1.prems"(1)] and rb = slot_in_parts(1) [OF "1.prems"(2)]
  let ?n = "max (length (sl_fields a)) (length (sl_fields b))"
  have fields: "slot_in V W (D - 1) (slot_merge (slot_field a i) (slot_field b i))" if "i < ?n" for i
    by (rule "1.IH") (use ra rb that "1.prems" slot_in_field in auto)
  have "?n \<le> W" using slot_in_parts(4) "1.prems" by simp
  moreover have "sl_fields a \<noteq> [] \<or> sl_fields b \<noteq> [] \<longrightarrow> 0 < D" using slot_in_parts(5) "1.prems" by blast
  moreover have "set (sl_borrows (fold mir_slot_add_borrow (sl_borrows b) a)) \<subseteq> V" "distinct (sl_borrows (fold mir_slot_add_borrow (sl_borrows b) a))"
    using slot_in_parts(2,3) [OF "1.prems"(1)] slot_in_parts(2) [OF "1.prems"(2)] by (auto simp: fold_add_borrow)
  ultimately show ?case
    using ra rb fields by (subst slot_merge.simps) (auto simp: slot_in.simps list_all_iff)
qed

lemma slot_merge_weight:
  assumes "slot_in V W D a" "slot_in V W D b"
  shows "weight W D a \<le> weight W D (slot_merge a b) \<and> (weight W D a = weight W D (slot_merge a b) \<longrightarrow> slot_merge a b = a)"
  using assms
proof (induction D arbitrary: a b)
  case 0
  note r = slot_in_parts(1) [OF 0(1)] slot_in_parts(1) [OF 0(2)]
  have "sl_fields a = []" "sl_fields b = []" using 0 slot_in_parts(5) by blast+
  then have m: "slot_merge a b = Slot (if init_rank (sl_init b) < init_rank (sl_init a) then sl_init b else sl_init a)
      (sl_borrows (fold mir_slot_add_borrow (sl_borrows b) a)) []"
    using r by (subst slot_merge.simps) simp
  have rank: "init_rank (sl_init a) \<le> 4" by (cases "sl_init a") simp_all
  have a: "a = Slot (sl_init a) (sl_borrows a) []" using \<open>sl_fields a = []\<close> by (cases a) simp
  have grow: "length (sl_borrows a) \<le> length (sl_borrows (fold mir_slot_add_borrow (sl_borrows b) a))"
    by (rule length_add_borrows)
  show ?case
  proof (cases "init_rank (sl_init b) < init_rank (sl_init a)")
    case True
    have "weight W 0 a < weight W 0 (slot_merge a b)"
      using True grow rank \<open>sl_fields a = []\<close> unfolding m by simp
    then show ?thesis by simp
  next
    case False
    then have m': "slot_merge a b = Slot (sl_init a) (sl_borrows (fold mir_slot_add_borrow (sl_borrows b) a)) []"
      using m by simp
    show ?thesis
    proof (intro conjI impI)
      show "weight W 0 a \<le> weight W 0 (slot_merge a b)" using grow \<open>sl_fields a = []\<close> unfolding m' by simp
      assume "weight W 0 a = weight W 0 (slot_merge a b)"
      then have "length (sl_borrows (fold mir_slot_add_borrow (sl_borrows b) a)) = length (sl_borrows a)"
        using \<open>sl_fields a = []\<close> unfolding m' by simp
      then show "slot_merge a b = a" using length_add_borrows(2) a unfolding m' by metis
    qed
  qed
next
  case (Suc D)
  note r = slot_in_parts(1) [OF Suc.prems(1)] slot_in_parts(1) [OF Suc.prems(2)]
  let ?m = "slot_merge a b" and ?n = "max (length (sl_fields a)) (length (sl_fields b))"
  have m: "sl_init ?m = (if init_rank (sl_init b) < init_rank (sl_init a) then sl_init b else sl_init a)"
      "sl_borrows ?m = sl_borrows (fold mir_slot_add_borrow (sl_borrows b) a)" "length (sl_fields ?m) = ?n"
    using slot_merge_reached(1,3) [OF r] r by (simp_all, subst slot_merge.simps, simp)
  have rank: "init_rank (sl_init ?m) \<le> init_rank (sl_init a)" "init_rank (sl_init a) \<le> 4"
    by (simp add: m(1), cases "sl_init a") simp_all
  have n: "?n \<le> W" using slot_in_parts(4) Suc.prems by simp
  have field: "weight W D (slot_field a i) \<le> weight W D (slot_field ?m i) \<and>
      (i < ?n \<longrightarrow> weight W D (slot_field a i) = weight W D (slot_field ?m i) \<longrightarrow> slot_field ?m i = slot_field a i)" for i
  proof (cases "i < ?n")
    case True
    have "slot_in V W D (slot_field a i)" "slot_in V W D (slot_field b i)"
      using slot_in_field [OF Suc.prems(1)] slot_in_field [OF Suc.prems(2)] by simp_all
    from Suc.IH [OF this] show ?thesis using slot_merge_reached(4) [OF r True] by simp
  next
    case False
    then have "\<not> i < length (sl_fields a)" "\<not> i < length (sl_fields ?m)" using m(3) by linarith+
    then have "slot_field a i = bare_slot (sl_init a)" "slot_field ?m i = bare_slot (sl_init ?m)"
      by (simp_all add: slot_field_def)
    then show ?thesis using weight_bare_mono [OF rank(1)] False by simp
  qed
  have own: "own_weight a \<le> own_weight ?m"
    using rank length_add_borrows(1) [of a "sl_borrows b"] unfolding own_weight_def m(2,3) by linarith
  have sums: "(\<Sum>i < W. weight W D (slot_field a i)) \<le> (\<Sum>i < W. weight W D (slot_field ?m i))"
    by (rule sum_mono) (use field in blast)
  have "?m = a" if eq: "weight W (Suc D) a = weight W (Suc D) ?m"
  proof -
    have o: "own_weight a = own_weight ?m" "(\<Sum>i < W. weight W D (slot_field a i)) = (\<Sum>i < W. weight W D (slot_field ?m i))"
      using eq own sums unfolding own_weight_def by simp_all
    have parts: "init_rank (sl_init ?m) = init_rank (sl_init a)" "length (sl_borrows ?m) = length (sl_borrows a)" "length (sl_fields ?m) = length (sl_fields a)"
      using o(1) rank length_add_borrows(1) [of a "sl_borrows b"] unfolding own_weight_def m(2,3) by linarith+
    have "sl_init ?m = sl_init a" using parts(1) m(1) by auto
    moreover have "sl_borrows ?m = sl_borrows a" using parts(2) length_add_borrows(2) unfolding m(2) by blast
    moreover have "sl_fields ?m = sl_fields a"
    proof (rule nth_equalityI)
      fix i assume i: "i < length (sl_fields ?m)"
      have "weight W D (slot_field a i) = weight W D (slot_field ?m i)"
      proof (rule ccontr)
        assume "weight W D (slot_field a i) \<noteq> weight W D (slot_field ?m i)"
        then have "weight W D (slot_field a i) < weight W D (slot_field ?m i)" using field [of i] by simp
        moreover have "i \<in> {..<W}" using i [unfolded m(3)] n by (meson lessThan_iff less_le_trans)
        ultimately have "(\<Sum>i < W. weight W D (slot_field a i)) < (\<Sum>i < W. weight W D (slot_field ?m i))"
          using field by (intro sum_strict_mono_ex1) auto
        then show False using o(2) by simp
      qed
      then have "slot_field ?m i = slot_field a i" using field [of i] i m(3) by simp
      then show "sl_fields ?m ! i = sl_fields a ! i" using i parts(3) by (simp add: slot_field_def)
    qed (use parts(3) in simp)
    ultimately show ?thesis by (cases a; cases ?m) simp
  qed
  then show ?case using own sums unfolding own_weight_def by simp
qed

lemma weight_bound: "slot_in V W D s \<Longrightarrow> finite V \<Longrightarrow> weight W D s \<le> (4 + card V + W) * (\<Sum>k \<le> D. W ^ k)"
proof (induction D arbitrary: s)
  case 0
  have "length (sl_borrows s) \<le> card V" using slot_in_parts(2,3) [OF 0(1)] 0(2) by (metis card_mono distinct_card)
  then show ?case using slot_in_parts(4) [OF 0(1)] by simp
next
  case (Suc D)
  have len: "length (sl_borrows s) \<le> card V" using slot_in_parts(2,3) [OF Suc.prems(1)] Suc.prems(2) by (metis card_mono distinct_card)
  have "weight W D (slot_field s i) \<le> (4 + card V + W) * (\<Sum>k \<le> D. W ^ k)" for i
    using Suc.IH [OF _ Suc.prems(2)] slot_in_field [OF Suc.prems(1), of i] by simp
  then have "(\<Sum>i < W. weight W D (slot_field s i)) \<le> W * ((4 + card V + W) * (\<Sum>k \<le> D. W ^ k))"
    using sum_bounded_above [of "{..<W}" "\<lambda>i. weight W D (slot_field s i)"] by simp
  moreover have "W * (\<Sum>k \<le> D. W ^ k) + 1 = (\<Sum>k \<le> Suc D. W ^ k)"
    by (subst sum.atMost_Suc_shift) (simp add: sum_distrib_left)
  then have "(4 + card V + W) * (\<Sum>k \<le> Suc D. W ^ k) = W * ((4 + card V + W) * (\<Sum>k \<le> D. W ^ k)) + (4 + card V + W)"
    by (metis add_mult_distrib2 mult.left_commute mult.right_neutral)
  ultimately show ?case using len slot_in_parts(4) [OF Suc.prems(1)] by simp
qed


section \<open>States over a finite vocabulary\<close>

definition state_in :: "nat set \<Rightarrow> nat \<Rightarrow> nat \<Rightarrow> mir_state \<Rightarrow> bool" where
  "state_in V W D st \<longleftrightarrow> state_ok st \<and> (\<forall>(v, s) \<in> set (st_slots st). v \<in> V \<and> slot_in V W D s)"

lemma state_in_init [simp]: "state_in V W D mir_state_init" "state_in V W D (mir_state_init\<lparr>st_unreachable := u\<rparr>)"
  by (simp_all add: state_in_def state_ok_def mir_state_init_def)

lemma state_in_get:
  assumes "state_in V W D st"
  shows "slot_in V W D (mir_state_get st v) \<or> mir_state_get st v = bare_slot MIR_SLOT_UNREACHED"
    "v \<notin> V \<Longrightarrow> mir_state_get st v = bare_slot MIR_SLOT_UNREACHED"
proof -
  show "slot_in V W D (mir_state_get st v) \<or> mir_state_get st v = bare_slot MIR_SLOT_UNREACHED"
    using assms by (auto simp: state_in_def mir_state_get_def split: option.split dest!: map_of_SomeD)
  show "v \<notin> V \<Longrightarrow> mir_state_get st v = bare_slot MIR_SLOT_UNREACHED"
    using assms by (auto simp: state_in_def mir_state_get_def split: option.split dest!: map_of_SomeD)
qed

lemma state_in_set:
  assumes "state_in V W D st" "v \<in> V" "slot_in V W D s"
  shows "state_in V W D (mir_state_set v s st)"
proof -
  have "set (AList.update v s xs) \<subseteq> insert (v, s) (set xs)" for xs by (induction xs) auto
  then show ?thesis using assms by (fastforce simp: state_in_def mir_state_set_def state_ok_def distinct_update)
qed

lemma state_in_invalidate: "state_in V W D st \<Longrightarrow> state_in V W D (mir_state_invalidate_borrows_of v st)"
  by (auto simp: state_in_def mir_state_invalidate_borrows_of_def state_ok_def comp_def case_prod_beta intro: slot_in_invalidate)

text \<open>An absent slot weighs nothing.\<close>

definition slot_weight :: "nat \<Rightarrow> nat \<Rightarrow> mir_slot \<Rightarrow> nat" where
  "slot_weight W D s = (if s = bare_slot MIR_SLOT_UNREACHED then 0 else 1 + weight W D s)"

definition state_weight :: "nat set \<Rightarrow> nat \<Rightarrow> nat \<Rightarrow> mir_state \<Rightarrow> nat" where
  "state_weight V W D st = (if st_unreachable st then 0 else 1 + (\<Sum>v \<in> V. slot_weight W D (mir_state_get st v)))"

definition slot_fits :: "nat set \<Rightarrow> nat \<Rightarrow> nat \<Rightarrow> mir_slot \<Rightarrow> bool" where
  "slot_fits V W D s \<longleftrightarrow> slot_in V W D s \<or> s = bare_slot MIR_SLOT_UNREACHED"

lemma slot_merge_unreached [simp]:
  "slot_merge (bare_slot MIR_SLOT_UNREACHED) b = b"
  "sl_init a \<noteq> MIR_SLOT_UNREACHED \<Longrightarrow> slot_merge a (bare_slot MIR_SLOT_UNREACHED) = a"
  by (subst slot_merge.simps, simp)+

lemma slot_fits_merge:
  assumes "slot_fits V W D a" "slot_fits V W D b"
  shows "slot_fits V W D (slot_merge a b)" "slot_weight W D a \<le> slot_weight W D (slot_merge a b)"
    "slot_weight W D a = slot_weight W D (slot_merge a b) \<Longrightarrow> slot_merge a b = a"
proof -
  have "slot_fits V W D (slot_merge a b) \<and> slot_weight W D a \<le> slot_weight W D (slot_merge a b) \<and>
     (slot_weight W D a = slot_weight W D (slot_merge a b) \<longrightarrow> slot_merge a b = a)"
  proof (cases "slot_in V W D a \<and> slot_in V W D b")
    case True
    have "slot_in V W D (slot_merge a b)" by (rule slot_in_merge) (use True in auto)
    moreover from this have "slot_merge a b \<noteq> bare_slot MIR_SLOT_UNREACHED" by auto
    moreover have "a \<noteq> bare_slot MIR_SLOT_UNREACHED" using True by auto
    ultimately show ?thesis using slot_merge_weight [of V W D a b] True by (simp add: slot_weight_def slot_fits_def)
  next
    case False
    then consider "a = bare_slot MIR_SLOT_UNREACHED" | "slot_in V W D a" "b = bare_slot MIR_SLOT_UNREACHED"
      using assms unfolding slot_fits_def by blast
    then show ?thesis
    proof cases
      case 1
      then show ?thesis using assms(2) by (auto simp: slot_weight_def split: if_splits)
    next
      case 2
      then show ?thesis using assms(1) slot_in_parts(1) [OF 2(1)] by simp
    qed
  qed
  then show "slot_fits V W D (slot_merge a b)" "slot_weight W D a \<le> slot_weight W D (slot_merge a b)"
    "slot_weight W D a = slot_weight W D (slot_merge a b) \<Longrightarrow> slot_merge a b = a" by blast+
qed

lemma slot_fits_get: "state_in V W D st \<Longrightarrow> slot_fits V W D (mir_state_get st v)"
  using state_in_get(1) by (simp add: slot_fits_def)

lemma slot_equals_refl: "slot_equals s s"
proof -
  have "slot_equals a b \<or> a \<noteq> b" "slots_equal fs gs \<or> fs \<noteq> gs" for a b fs gs
    by (induction a b and fs gs rule: slot_equals_slots_equal.induct) (auto simp: list_all_iff)
  then show ?thesis by blast
qed

lemma same_gets_equal:
  assumes "state_ok a" "state_ok b" "st_unreachable a = st_unreachable b" "\<forall>v. mir_state_get a v = mir_state_get b v"
  shows "mir_state_equals a b"
proof -
  have "state_contained_by x y" if "state_ok x" "\<forall>v. mir_state_get x v = mir_state_get y v" for x y
  proof -
    have "slot_equals s (mir_state_get y v)" if "(v, s) \<in> set (st_slots x)" for v s
    proof -
      have "mir_state_get x v = s" using that \<open>state_ok x\<close> by (simp add: mir_state_get_def state_ok_def)
      then show ?thesis using \<open>\<forall>v. mir_state_get x v = mir_state_get y v\<close> slot_equals_refl by metis
    qed
    then show ?thesis by (auto simp: state_contained_by_def list_all_iff)
  qed
  then show ?thesis using assms by (simp add: mir_state_equals_def)
qed

lemma merge_get_all:
  assumes "state_in V W D target" "state_in V W D exit" "\<not> st_unreachable target" "\<not> st_unreachable exit"
  shows "mir_state_get (mir_state_merge target exit) v = slot_merge (mir_state_get target v) (mir_state_get exit v)"
proof (cases "v \<in> fst ` set (st_slots exit)")
  case True
  then show ?thesis using assms by (simp add: mir_state_merge_get state_in_def)
next
  case False
  then have none: "mir_state_get exit v = bare_slot MIR_SLOT_UNREACHED" by (simp add: mir_state_get_def map_of_eq_None_iff [THEN iffD2])
  have "slot_merge (mir_state_get target v) (bare_slot MIR_SLOT_UNREACHED) = mir_state_get target v"
    using state_in_get(1) [OF assms(1), of v] slot_in_parts(1) by fastforce
  then show ?thesis using False assms none by (simp add: mir_state_merge_get state_in_def)
qed

lemma state_in_merge:
  assumes "state_in V W D target" "state_in V W D exit"
  shows "state_in V W D (mir_state_merge target exit)"
proof (cases "st_unreachable exit \<or> st_unreachable target")
  case True
  then show ?thesis using assms by (auto simp: mir_state_merge_def mir_state_copy_id state_in_def)
next
  case False
  have fold: "state_in V W D (fold (\<lambda>(v, s) st. mir_state_set v (slot_merge (mir_state_get st v) s) st) xs st)"
    if "state_in V W D st" "\<forall>(v, s) \<in> set xs. v \<in> V \<and> slot_in V W D s" for xs st
    using that
  proof (induction xs arbitrary: st)
    case (Cons x xs)
    obtain v s where x: "x = (v, s)" by fastforce
    have s: "v \<in> V" "slot_in V W D s" using Cons.prems(2) x by auto
    have "slot_in V W D (slot_merge (mir_state_get st v) s)"
      using state_in_get(1) [OF Cons.prems(1), of v] slot_in_merge s(2) by auto
    then have "state_in V W D (mir_state_set v (slot_merge (mir_state_get st v) s) st)" by (rule state_in_set [OF Cons.prems(1) s(1)])
    then show ?case using Cons x by simp
  qed simp
  have "\<forall>(v, s) \<in> set (st_slots exit). v \<in> V \<and> slot_in V W D s" using assms(2) by (simp add: state_in_def)
  from fold [OF assms(1) this] show ?thesis using False by (simp add: mir_state_merge_def)
qed

lemma merge_weight:
  assumes "state_in V W D target" "state_in V W D exit" "\<not> st_unreachable exit" "finite V"
  shows "state_weight V W D target \<le> state_weight V W D (mir_state_merge target exit)"
    "state_weight V W D target = state_weight V W D (mir_state_merge target exit) \<Longrightarrow> mir_state_equals (mir_state_merge target exit) target"
proof -
  let ?m = "mir_state_merge target exit"
  let ?w = "\<lambda>st v. slot_weight W D (mir_state_get st v)"
  have reached: "\<not> st_unreachable ?m"
    using merged_held(1) [of target exit] assms(1-3) by (simp add: state_in_def)
  have ok: "state_ok target" "state_ok ?m" using assms(1) state_in_merge [OF assms(1,2)] by (simp_all add: state_in_def)
  have "state_weight V W D target \<le> state_weight V W D ?m \<and> (state_weight V W D target = state_weight V W D ?m \<longrightarrow> mir_state_equals ?m target)"
  proof (cases "st_unreachable target")
    case True
    then show ?thesis using reached by (simp add: state_weight_def)
  next
    case False
    have each: "?w target v \<le> ?w ?m v" "?w target v = ?w ?m v \<Longrightarrow> mir_state_get ?m v = mir_state_get target v" for v
      unfolding merge_get_all [OF assms(1,2) False assms(3)]
      using slot_fits_merge(2,3) [OF slot_fits_get [OF assms(1)] slot_fits_get [OF assms(2)]] by blast+
    have le: "(\<Sum>v \<in> V. ?w target v) \<le> (\<Sum>v \<in> V. ?w ?m v)" by (rule sum_mono) (rule each)
    moreover have "mir_state_equals ?m target" if sums: "(\<Sum>v \<in> V. ?w target v) = (\<Sum>v \<in> V. ?w ?m v)"
    proof (rule same_gets_equal [OF ok(2,1)])
      have "mir_state_get ?m v = mir_state_get target v" for v
      proof (cases "v \<in> V")
        case True
        have "?w target v = ?w ?m v"
        proof (rule ccontr)
          assume "?w target v \<noteq> ?w ?m v"
          then have "?w target v < ?w ?m v" using each(1) [of v] by linarith
          then have "(\<Sum>v \<in> V. ?w target v) < (\<Sum>v \<in> V. ?w ?m v)"
            using each(1) True assms(4) by (intro sum_strict_mono_ex1) blast+
          then show False using sums by simp
        qed
        then show ?thesis by (rule each(2))
      next
        case False
        then show ?thesis using state_in_get(2) assms(1,2) state_in_merge by metis
      qed
      then show "\<forall>v. mir_state_get ?m v = mir_state_get target v" by blast
    qed (use reached False in simp)
    ultimately show ?thesis using reached False by (simp add: state_weight_def)
  qed
  then show "state_weight V W D target \<le> state_weight V W D ?m"
    "state_weight V W D target = state_weight V W D ?m \<Longrightarrow> mir_state_equals ?m target" by blast+
qed

lemma state_weight_bound:
  assumes "state_in V W D st" "finite V"
  shows "state_weight V W D st \<le> 1 + card V * (1 + (4 + card V + W) * (\<Sum>k \<le> D. W ^ k))"
proof -
  have "slot_weight W D (mir_state_get st v) \<le> 1 + (4 + card V + W) * (\<Sum>k \<le> D. W ^ k)" for v
    using state_in_get(1) [OF assms(1), of v] weight_bound [OF _ assms(2)] by (auto simp: slot_weight_def)
  then have "(\<Sum>v \<in> V. slot_weight W D (mir_state_get st v)) \<le> of_nat (card V) * (1 + (4 + card V + W) * (\<Sum>k \<le> D. W ^ k))"
    by (intro sum_bounded_above)
  then show ?thesis by (simp add: state_weight_def)
qed


section \<open>Every instruction stays in the vocabulary\<close>

definition spoken :: "mir_function \<Rightarrow> nat set \<Rightarrow> nat \<Rightarrow> nat \<Rightarrow> bool" where
  "spoken ir V W D \<longleftrightarrow>
     finite V \<and> MIR_NO_VALUE \<in> V \<and> set (mf_params ir) \<subseteq> V \<and>
     (\<forall>i \<in> set (concat (mf_blocks ir)). mi_result i \<in> V \<and> pl_base (mi_place i) \<in> V \<and>
        mir_operand_as_value ` set (mi_args i) \<subseteq> V \<and> length (pl_projections (mi_place i)) \<le> D \<and>
        (\<forall>p \<in> set (pl_projections (mi_place i)). pr_id p < W))"

lemma has_vocabulary: "\<exists>V W D. spoken ir V W D"
proof -
  let ?is = "concat (mf_blocks ir)"
  let ?V = "insert MIR_NO_VALUE (set (mf_params ir) \<union> (\<Union>i \<in> set ?is. {mi_result i, pl_base (mi_place i)} \<union> mir_operand_as_value ` set (mi_args i)))"
  let ?D = "\<Sum>i \<leftarrow> ?is. length (pl_projections (mi_place i))"
  let ?W = "\<Sum>p \<leftarrow> concat (map (\<lambda>i. pl_projections (mi_place i)) ?is). pr_id p + 1"
  have "length (pl_projections (mi_place i)) \<le> ?D" if "i \<in> set ?is" for i
    using that by (intro member_le_sum_list) auto
  moreover have "pr_id p < ?W" if "i \<in> set ?is" "p \<in> set (pl_projections (mi_place i))" for i p
  proof -
    have "pr_id p + 1 \<le> ?W" using that by (intro member_le_sum_list) auto
    then show ?thesis by simp
  qed
  moreover have "mi_result i \<in> ?V" "pl_base (mi_place i) \<in> ?V" "mir_operand_as_value ` set (mi_args i) \<subseteq> ?V" if "i \<in> set ?is" for i
    using that by blast+
  moreover have "finite ?V" by simp
  ultimately have "spoken ir ?V ?W ?D" unfolding spoken_def by blast
  then show ?thesis by blast
qed

lemma definition_of_in: "definition_of ir v = Some i \<Longrightarrow> i \<in> set (concat (mf_blocks ir))"
  unfolding definition_of_def by (auto simp: find_Some_iff simp del: set_concat split: if_splits)

lemma slot_walk_in: "slot_walk ps s = Some t \<Longrightarrow> slot_in V W D s \<Longrightarrow> \<exists>D'. slot_in V W D' t"
proof (induction ps arbitrary: s D)
  case (Cons p ps)
  then have "slot_in V W (D - 1) (sl_fields s ! pr_id p)" if "pr_id p < length (sl_fields s)"
    using slot_in_parts(6) that by blast
  then show ?case using Cons by (auto split: if_splits)
qed auto

lemma slot_walk_unreached: "slot_walk ps (bare_slot i) = Some t \<Longrightarrow> t = bare_slot i"
  by (cases ps) (auto split: if_splits)

lemma named_borrows:
  assumes "state_in V W D (fl_state fl)"
  shows "set (sl_borrows (mir_slot_flattened (case slot_of fl p of Some s \<Rightarrow> s | None \<Rightarrow> mir_state_get (fl_state fl) (root_of p)))) \<subseteq> V"
proof (cases "slot_of fl p")
  case None
  then show ?thesis using flattened_borrows [OF state_in_get(1) [OF assms]] by simp
next
  case (Some t)
  then have walk: "slot_walk (pl_projections p) (mir_state_get (fl_state fl) (root_of p)) = Some t"
    by (simp add: slot_of_def split: if_splits)
  have "(\<exists>D'. slot_in V W D' t) \<or> t = bare_slot MIR_SLOT_UNREACHED"
    using state_in_get(1) [OF assms, of "root_of p"] slot_walk_in [OF walk] slot_walk_unreached walk by metis
  then have "set (sl_borrows (mir_slot_flattened t)) \<subseteq> V" using flattened_borrows by blast
  then show ?thesis using Some by simp
qed

lemma place_sources_in:
  assumes "state_in V W D (fl_state fl)" "slot_in V W E into" "root_of p \<in> V"
  shows "slot_in V W E (collect_place_sources fl p into)"
  using assms(2,3) named_borrows [OF assms(1), of p]
  by (auto simp: collect_place_sources_def add_borrows_def Let_def intro!: slot_in_add_borrow slot_in_add_borrows)

lemma source_step_in:
  assumes "spoken (fl_ir fl) V W D" "state_in V W D (fl_state fl)" "v \<in> V"
  shows "source_step fl v into = Inl into' \<Longrightarrow> slot_in V W E into \<Longrightarrow> slot_in V W E into'"
    "source_step fl v into = Inr args \<Longrightarrow> set args \<subseteq> V"
proof -
  have flat: "set (sl_borrows (mir_slot_flattened (mir_state_get (fl_state fl) v))) \<subseteq> V"
    by (rule flattened_borrows) (rule state_in_get(1) [OF assms(2)])
  have inst: "root_of (mi_place i) \<in> V \<and> mir_operand_as_value ` set (mi_args i) \<subseteq> V" if "definition_of (fl_ir fl) v = Some i" for i
    using definition_of_in [OF that] assms(1) unfolding spoken_def root_of_def by blast
  show "source_step fl v into = Inl into' \<Longrightarrow> slot_in V W E into \<Longrightarrow> slot_in V W E into'"
  proof (cases "definition_of (fl_ir fl) v")
    case None
    show "source_step fl v into = Inl into' \<Longrightarrow> slot_in V W E into \<Longrightarrow> slot_in V W E into'"
      using None flat assms(3)
      by (auto simp: source_step_def add_borrows_def Let_def split: if_splits intro!: slot_in_add_borrow slot_in_add_borrows)
  next
    case (Some i)
    show "source_step fl v into = Inl into' \<Longrightarrow> slot_in V W E into \<Longrightarrow> slot_in V W E into'"
      using Some inst [OF Some] place_sources_in [OF assms(2)] by (auto simp: source_step_def split: if_splits)
  qed
  show "source_step fl v into = Inr args \<Longrightarrow> set args \<subseteq> V"
  proof (cases "definition_of (fl_ir fl) v")
    case (Some i)
    have "set (named_arguments fl i) \<subseteq> mir_operand_as_value ` set (mi_args i)"
      by (auto simp: named_arguments_def dest: set_zip_rightD)
    then show "source_step fl v into = Inr args \<Longrightarrow> set args \<subseteq> V"
      using Some inst [OF Some] by (auto simp: source_step_def split: if_splits)
  qed (auto simp: source_step_def Let_def)
qed

lemma collect_all_in:
  assumes "collect_all fl vs into = Some r" "spoken (fl_ir fl) V W D" "state_in V W D (fl_state fl)" "set vs \<subseteq> V" "slot_in V W E into"
  shows "slot_in V W E r"
proof -
  have "spoken (fl_ir fl) V W D \<longrightarrow> state_in V W D (fl_state fl) \<longrightarrow> set vs \<subseteq> V \<longrightarrow> slot_in V W E into \<longrightarrow> slot_in V W E r"
    using assms(1)
  proof (rule collect_all.raw_induct [rotated])
    fix collect :: "mir_flow \<Rightarrow> nat list \<Rightarrow> mir_slot \<Rightarrow> mir_slot option" and fl vs into r
    assume IH: "\<And>fl vs into r. collect fl vs into = Some r \<Longrightarrow>
        spoken (fl_ir fl) V W D \<longrightarrow> state_in V W D (fl_state fl) \<longrightarrow> set vs \<subseteq> V \<longrightarrow> slot_in V W E into \<longrightarrow> slot_in V W E r"
      and step: "(case vs of [] \<Rightarrow> Some into
        | v # vs \<Rightarrow> (case source_step fl v into of Inl into' \<Rightarrow> collect fl vs into'
             | Inr args \<Rightarrow> Option.bind (collect fl args into) (\<lambda>into'. collect fl vs into'))) = Some r"
    show "spoken (fl_ir fl) V W D \<longrightarrow> state_in V W D (fl_state fl) \<longrightarrow> set vs \<subseteq> V \<longrightarrow> slot_in V W E into \<longrightarrow> slot_in V W E r"
    proof (intro impI)
      assume sp: "spoken (fl_ir fl) V W D" and st: "state_in V W D (fl_state fl)" and vs: "set vs \<subseteq> V" and into: "slot_in V W E into"
      show "slot_in V W E r"
      proof (cases vs)
        case (Cons v ws)
        then have v: "v \<in> V" "set ws \<subseteq> V" using vs by auto
        show ?thesis
        proof (cases "source_step fl v into")
          case (Inl into')
          then have "collect fl ws into' = Some r" "slot_in V W E into'"
            using step Cons source_step_in(1) [OF sp st v(1) Inl into] by auto
          then show ?thesis using IH sp st v(2) by blast
        next
          case (Inr args)
          then obtain mid where "collect fl args into = Some mid" "collect fl ws mid = Some r"
            using step Cons by (auto simp: bind_eq_Some_conv)
          then show ?thesis using IH sp st v(2) into source_step_in(2) [OF sp st v(1) Inr] by blast
        qed
      qed (use step into in simp)
    qed
  qed
  then show ?thesis using assms by blast
qed

text \<open>No value is defined through itself.\<close>

definition sources_acyclic :: "mir_function \<Rightarrow> (nat \<Rightarrow> nat) \<Rightarrow> bool" where
  "sources_acyclic ir rank \<longleftrightarrow>
     (\<forall>v i. definition_of ir v = Some i \<longrightarrow> (\<forall>a \<in> set (mi_args i). rank (mir_operand_as_value a) < rank v))"

lemma collect_all_ends:
  assumes "sources_acyclic (fl_ir fl) rank"
  shows "\<forall>v \<in> set vs. rank v < n \<Longrightarrow> \<exists>r. collect_all fl vs into = Some r"
proof (induction n arbitrary: vs into)
  case 0
  then have "vs = []" by (cases vs) auto
  then show ?case by (simp add: collect_all.simps)
next
  case (Suc n)
  show ?case using Suc.prems
  proof (induction vs arbitrary: into)
    case (Cons v vs)
    show ?case
    proof (cases "source_step fl v into")
      case (Inl into')
      then show ?thesis using Cons by (subst collect_all.simps) simp
    next
      case (Inr args)
      then obtain i where i: "definition_of (fl_ir fl) v = Some i" "args = named_arguments fl i"
        by (auto simp: source_step_def Let_def split: option.splits if_splits)
      have "\<forall>a \<in> set args. rank a < n"
      proof
        fix a assume "a \<in> set args"
        then have "a \<in> mir_operand_as_value ` set (mi_args i)" by (auto simp: i(2) named_arguments_def dest: set_zip_rightD)
        then have "rank a < rank v" using assms i(1) by (auto simp: sources_acyclic_def)
        then show "rank a < n" using Cons.prems by simp
      qed
      then obtain mid where mid: "collect_all fl args into = Some mid" using Suc.IH by blast
      then show ?thesis using Inr Cons by (subst collect_all.simps) simp
    qed
  qed (simp add: collect_all.simps)
qed

lemma collect_sources_ends:
  assumes "sources_acyclic (fl_ir fl) rank"
  shows "\<exists>r. collect_sources fl v into = Some r"
  using collect_all_ends [OF assms, of "[v]" "Suc (rank v)"] by (simp add: collect_sources_def)

lemma outlives_ends:
  assumes "sources_acyclic (fl_ir fl) rank"
  shows "\<exists>r. outlives_its_source fl v h hf f = Some r"
  using collect_sources_ends [OF assms] by (fastforce simp: outlives_its_source_def)


definition flow_in :: "mir_function \<Rightarrow> nat set \<Rightarrow> nat \<Rightarrow> nat \<Rightarrow> mir_flow \<Rightarrow> bool" where
  "flow_in ir V W D fl \<longleftrightarrow> fl_ir fl = ir \<and> state_in V W D (fl_state fl)"

lemma flow_in_steps:
  assumes "flow_in ir V W D fl"
  shows "v \<in> V \<Longrightarrow> slot_in V W D s \<Longrightarrow> flow_in ir V W D (set_state v s fl)" "flow_in ir V W D (invalidate v fl)"
    "flow_in ir V W D (report sp m fl)" "flow_in ir V W D (check_readable p sp fl)" "flow_in ir V W D (check_argument sp a fl)"
  using assms state_in_set state_in_invalidate check_readable_frame(1) [of fl p sp] check_argument_frame(1) [of fl sp a]
  by (simp_all add: flow_in_def set_state_def invalidate_def report_def frame_def)

lemma get_or_given:
  assumes "flow_in ir V W D fl" "i \<noteq> MIR_SLOT_UNREACHED"
  shows "slot_in V W D (set_init i (mir_state_get (fl_state fl) v))" "slot_in V W D (mir_slot_set_all i (mir_state_get (fl_state fl) v))"
  using state_in_get(1) [of V W D "fl_state fl" v] assms slot_in_set_init slot_in_set_all
  by (auto simp: flow_in_def bare_slot_def slot_in.simps)

lemma flow_store_in:
  assumes "spoken ir V W D" "sources_acyclic ir rank" "flow_in ir V W D fl" "i \<in> set (concat (mf_blocks ir))"
  shows "\<exists>fl'. flow_store i fl = Some fl' \<and> flow_in ir V W D fl'"
proof -
  let ?p = "mi_place i"
  have i: "root_of ?p \<in> V" "mir_operand_as_value ` set (mi_args i) \<subseteq> V" "length (pl_projections ?p) \<le> D" "\<forall>p \<in> set (pl_projections ?p). pr_id p < W"
    using assms(1,4) unfolding spoken_def root_of_def by blast+
  have acyclic: "sources_acyclic (fl_ir f) rank" if "flow_in ir V W D f" for f using that assms(2) by (simp add: flow_in_def)
  have check: "\<exists>fl'. check_outlived i v h hf n f = Some fl' \<and> flow_in ir V W D fl'" if "flow_in ir V W D f" for f v h hf n
    using outlives_ends [OF acyclic [OF that], of v h hf n] that flow_in_steps(3) by (fastforce simp: check_outlived_def)
  show ?thesis
  proof (cases "mi_args i")
    case Nil
    then show ?thesis using assms(3) by (simp add: flow_store_def)
  next
    case (Cons arg args)
    let ?a = "mir_operand_as_value arg"
    have a: "?a \<in> V" using i(2) Cons by simp
    consider "mir_value_is_none (root_of ?p)" | "\<not> mir_value_is_none (root_of ?p)" "reaches_past_its_root ?p"
      | (tracked) "\<not> mir_value_is_none (root_of ?p)" "\<not> reaches_past_its_root ?p" by blast
    then show ?thesis
    proof cases
      case tracked
      obtain stored where stored: "collect_sources fl ?a (bare_slot MIR_SLOT_INIT) = Some stored"
        using collect_sources_ends [OF acyclic [OF assms(3)]] by blast
      have sin: "slot_in V W 0 stored"
        using collect_all_in [of fl "[?a]" "bare_slot MIR_SLOT_INIT" stored V W D 0] stored assms(1,3) a by (simp add: collect_sources_def flow_in_def)
      have "length (take (tracked_depth ?p) (pl_projections ?p)) \<le> D" "\<forall>p \<in> set (take (tracked_depth ?p) (pl_projections ?p)). pr_id p < W"
        using i(3,4) by (auto dest: in_set_takeD)
      then have prep: "flow_in ir V W D (prepare_store ?p fl)"
        using flow_in_steps(1) [OF _ i(1)] flow_in_steps(2) assms(3) get_or_given(1) slot_in_open_path
        by (simp add: prepare_store_def Let_def)
      have "\<exists>fl'. store_value ?p ?a stored (prepare_store ?p fl) = Some fl' \<and> flow_in ir V W D fl'"
      proof (cases "store_into ?p (tracked_depth ?p) stored (prepare_store ?p fl)")
        case None
        obtain s where s: "collect_sources (prepare_store ?p fl) ?a (set_init MIR_SLOT_INIT (mir_state_get (fl_state (prepare_store ?p fl)) (root_of ?p))) = Some s"
          using collect_sources_ends [OF acyclic [OF prep]] by blast
        then have "slot_in V W D s"
          using collect_all_in [OF s [unfolded collect_sources_def], of V W D D] prep assms(1) a get_or_given(1) [OF prep, of MIR_SLOT_INIT]
          by (simp add: flow_in_def)
        then show ?thesis using None s flow_in_steps(1) [OF prep i(1)] by (simp add: store_value_def)
      next
        case (Some f)
        have "flow_in ir V W D f"
        proof (cases "tracked_depth ?p = 0")
          case True
          then have "f = set_state (root_of ?p) stored (prepare_store ?p fl)" using Some by (simp add: store_into_def split: if_splits)
          then show ?thesis using flow_in_steps(1) [OF prep i(1) slot_in_deeper [OF sin, of D]] by simp
        next
          case False
          then obtain s where s: "slot_replace (take (tracked_depth ?p) (pl_projections ?p)) stored (mir_state_get (fl_state (prepare_store ?p fl)) (root_of ?p)) = Some s"
              "f = set_state (root_of ?p) s (prepare_store ?p fl)"
            using Some tracked by (auto simp: store_into_def)
          have "sl_init (mir_state_get (fl_state (prepare_store ?p fl)) (root_of ?p)) = MIR_SLOT_INIT"
            using prepare_store_held(3) False by simp
          then have "slot_in V W D (mir_state_get (fl_state (prepare_store ?p fl)) (root_of ?p))"
            using state_in_get(1) [of V W D "fl_state (prepare_store ?p fl)" "root_of ?p"] prep by (auto simp: flow_in_def)
          then show ?thesis using slot_in_replace [OF s(1) _ sin] flow_in_steps(1) [OF prep i(1)] s(2) by simp
        qed
        then show ?thesis using Some by (simp add: store_value_def)
      qed
      then show ?thesis using check stored tracked Cons by (auto simp: flow_store_def Let_def)
    qed (use Cons check [OF assms(3)] assms(3) in \<open>simp_all add: flow_store_def\<close>)
  qed
qed

lemma flow_call_in:
  assumes "spoken ir V W D" "sources_acyclic ir rank" "flow_in ir V W D fl" "i \<in> set (concat (mf_blocks ir))"
  shows "\<exists>fl'. flow_call i fl = Some fl' \<and> flow_in ir V W D fl'"
proof -
  let ?fl1 = "fold (check_argument (mi_span i)) (mi_args i) fl"
  have fl1: "flow_in ir V W D ?fl1"
    using check_arguments_frame [of fl "mi_span i" "mi_args i"] assms(3) by (auto simp: flow_in_def frame_def)
  obtain s where s: "collect_sources ?fl1 (mi_result i) (bare_slot MIR_SLOT_INIT) = Some s"
    using collect_sources_ends fl1 assms(2) unfolding flow_in_def by blast
  have r: "mi_result i \<in> V" using assms(1,4) unfolding spoken_def by blast
  have "slot_in V W D s"
    using collect_all_in [OF s [unfolded collect_sources_def], of V W D D] fl1 assms(1) r by (simp add: flow_in_def)
  then show ?thesis using s flow_in_steps(1) [OF fl1 r] by (simp add: flow_call_def)
qed

lemma flow_return_in:
  assumes "sources_acyclic ir rank" "flow_in ir V W D fl"
  shows "\<exists>fl'. flow_return i fl = Some fl' \<and> flow_in ir V W D fl'"
proof (cases "mi_args i")
  case (Cons arg args)
  let ?a = "mir_operand_as_value arg"
  obtain reached where reached: "collect_sources fl ?a (bare_slot MIR_SLOT_UNREACHED) = Some reached"
    using collect_sources_ends assms unfolding flow_in_def by blast
  let ?fl1 = "fl\<lparr>fl_returned_params := note_returned (mf_params (fl_ir fl)) (sl_borrows reached) (fl_returned_params fl)\<rparr>"
  have fl1: "flow_in ir V W D ?fl1" using assms(2) by (simp add: flow_in_def)
  have "sources_acyclic (fl_ir ?fl1) rank" using assms by (simp add: flow_in_def)
  then obtain out where "outlives_its_source ?fl1 ?a MIR_NO_VALUE False MIR_WHOLE_VALUE = Some out"
    using outlives_ends [of ?fl1 rank ?a MIR_NO_VALUE False MIR_WHOLE_VALUE] by blast
  then show ?thesis using Cons reached assms(2) flow_in_steps(3) [OF fl1] fl1 by (simp add: flow_return_def Let_def)
qed (use assms in \<open>simp add: flow_return_def\<close>)

lemma flow_load_in:
  assumes "spoken ir V W D" "flow_in ir V W D fl" "i \<in> set (concat (mf_blocks ir))"
  shows "flow_in ir V W D (flow_load i fl)" "flow_in ir V W D (flow_ref i fl)"
proof -
  have i: "root_of (mi_place i) \<in> V" "mi_result i \<in> V" using assms(1,3) unfolding spoken_def root_of_def by blast+
  let ?fl1 = "check_readable (mi_place i) (mi_span i) fl"
  have fl1: "flow_in ir V W D ?fl1" by (rule flow_in_steps(4) [OF assms(2)])
  have "slot_in V W D (collect_place_sources ?fl1 (mi_place i) (bare_slot MIR_SLOT_INIT))"
    using place_sources_in [of V W D ?fl1 D] fl1 i(1) by (simp add: flow_in_def)
  then have fl2: "flow_in ir V W D (set_state (mi_result i) (collect_place_sources ?fl1 (mi_place i) (bare_slot MIR_SLOT_INIT)) ?fl1)"
    by (rule flow_in_steps(1) [OF fl1 i(2)])
  then show "flow_in ir V W D (flow_ref i fl)" by (simp add: flow_ref_def Let_def)
  show "flow_in ir V W D (flow_load i fl)"
    using fl2 flow_in_steps(1) [OF fl2 i(1) get_or_given(2) [OF fl2]] by (simp add: flow_load_def Let_def del: frame_set_state(2))
qed

lemma flow_inst_in:
  assumes "spoken ir V W D" "sources_acyclic ir rank" "flow_in ir V W D fl" "i \<in> set (concat (mf_blocks ir))"
  shows "\<exists>fl'. flow_inst i fl = Some fl' \<and> flow_in ir V W D fl'"
proof -
  have r: "root_of (mi_place i) \<in> V" using assms(1,4) unfolding spoken_def root_of_def by blast
  have dead: "flow_in ir V W D (set_state (root_of (mi_place i)) (bare_slot MIR_SLOT_UNINIT) (invalidate (root_of (mi_place i)) fl))"
    by (rule flow_in_steps(1) [OF flow_in_steps(2) [OF assms(3)] r]) simp
  have live: "flow_in ir V W D (set_state (root_of (mi_place i)) (bare_slot MIR_SLOT_UNINIT) fl)"
    by (rule flow_in_steps(1) [OF assms(3) r]) simp
  have init: "flow_in ir V W D (set_state (root_of (mi_place i)) (set_init MIR_SLOT_INIT (mir_state_get (fl_state fl) (root_of (mi_place i)))) fl)"
    by (rule flow_in_steps(1) [OF assms(3) r get_or_given(1) [OF assms(3)]]) simp
  have drop: "flow_in ir V W D (fold (\<lambda>a. invalidate (mir_operand_as_value a)) as f)" if "flow_in ir V W D f" for as f
    using that by (induction as arbitrary: f) (auto intro: flow_in_steps(2))
  show ?thesis
    using flow_store_in [OF assms] flow_call_in [OF assms] flow_return_in [OF assms(2,3)] flow_load_in [OF assms(1,3,4)] dead live init
      drop [OF flow_in_steps(2) [OF assms(3)]] assms(3)
    by (cases "mi_op i") (simp_all add: flow_inst_def Let_def)
qed

lemma flow_block_in:
  assumes "spoken ir V W D" "sources_acyclic ir rank" "flow_in ir V W D fl" "set is \<subseteq> set (concat (mf_blocks ir))"
  shows "\<exists>fl'. flow_block is fl = Some fl' \<and> flow_in ir V W D fl'"
  using assms(3,4)
proof (induction "is" arbitrary: fl)
  case (Cons i "is")
  then obtain mid where "flow_inst i fl = Some mid" "flow_in ir V W D mid" using flow_inst_in [OF assms(1,2)] by force
  then show ?case using Cons by simp
qed simp

section \<open>The loop ends\<close>

definition entries_in :: "mir_function \<Rightarrow> nat set \<Rightarrow> nat \<Rightarrow> nat \<Rightarrow> mir_state list \<Rightarrow> bool" where
  "entries_in ir V W D E \<longleftrightarrow> length E = length (mf_blocks ir) \<and> (\<forall>b < length E. state_in V W D (E ! b))"

definition entries_weight :: "nat set \<Rightarrow> nat \<Rightarrow> nat \<Rightarrow> mir_state list \<Rightarrow> nat" where
  "entries_weight V W D E = (\<Sum>b < length E. state_weight V W D (E ! b))"

lemma flow_from_in:
  assumes "spoken ir V W D" "sources_acyclic ir rank" "fl_ir fl = ir" "entries_in ir V W D E" "b < length E" "\<not> st_unreachable (E ! b)"
  shows "\<exists>fl'. flow_from E b fl = Some fl' \<and> flow_in ir V W D fl' \<and> \<not> st_unreachable (fl_state fl')"
proof -
  have "state_in V W D (E ! b)" using assms(4,5) by (simp add: entries_in_def)
  then have copy: "mir_state_copy (E ! b) = E ! b" "state_ok (E ! b)" by (simp_all add: state_in_def mir_state_copy_id)
  have "flow_in ir V W D (fl\<lparr>fl_state := mir_state_copy (E ! b)\<rparr>)"
    using \<open>state_in V W D (E ! b)\<close> assms(3) copy by (simp add: flow_in_def)
  moreover have "mf_blocks ir ! b \<in> set (mf_blocks ir)" using assms(4,5) by (simp add: entries_in_def)
  then have "set (mf_blocks ir ! b) \<subseteq> set (concat (mf_blocks ir))" by auto
  ultimately obtain fl' where fl': "flow_block (mf_blocks ir ! b) (fl\<lparr>fl_state := mir_state_copy (E ! b)\<rparr>) = Some fl'" "flow_in ir V W D fl'"
    using flow_block_in [OF assms(1,2)] by blast
  then have "flow_from E b fl = Some fl'" using assms(3) by (simp add: flow_from_def)
  then show ?thesis using fl'(2) flow_from_held(3) copy(2) assms(6) by blast
qed

lemma merge_edge_in:
  assumes "entries_in ir V W D E" "state_in V W D exit" "\<not> st_unreachable exit" "t < length E" "finite V"
    "merge_edge exit t (E, changed) = (E', changed')"
  shows "entries_in ir V W D E' \<and> entries_weight V W D E \<le> entries_weight V W D E' \<and>
    (changed' \<longrightarrow> changed \<or> entries_weight V W D E < entries_weight V W D E')"
proof -
  let ?m = "mir_state_merge (E ! t) exit"
  have tin: "state_in V W D (E ! t)" using assms(1,4) by (simp add: entries_in_def)
  have min: "state_in V W D ?m" by (rule state_in_merge [OF tin assms(2)])
  have step: "(E', changed') = (if mir_state_equals ?m (E ! t) then (E, changed) else (E[t := ?m], True))"
    using assms(6) tin min by (auto simp: merge_edge_def Let_def state_in_def mir_state_copy_id split: if_splits)
  show ?thesis
  proof (cases "mir_state_equals ?m (E ! t)")
    case True
    then show ?thesis using step assms(1) by simp
  next
    case False
    then have less: "state_weight V W D (E ! t) < state_weight V W D ?m"
      using merge_weight [OF tin assms(2,3,5)] by (meson le_neq_implies_less)
    have "entries_weight V W D E < entries_weight V W D (E[t := ?m])"
      unfolding entries_weight_def length_list_update
      by (rule sum_strict_mono_ex1) (use less assms(4) in \<open>auto simp: nth_list_update intro: less_imp_le\<close>)
    moreover have "state_in V W D (E[t := ?m] ! c)" if "c < length E" for c
      using assms(1) min that by (cases "c = t") (simp_all add: entries_in_def)
    then have "entries_in ir V W D (E[t := ?m])" using assms(1) by (simp add: entries_in_def)
    ultimately show ?thesis using step False by simp
  qed
qed

lemma merge_edges_in:
  assumes "entries_in ir V W D E" "state_in V W D exit" "\<not> st_unreachable exit" "\<forall>t \<in> set ts. t < length E" "finite V"
    "fold (merge_edge exit) ts (E, changed) = (E', changed')"
  shows "entries_in ir V W D E' \<and> entries_weight V W D E \<le> entries_weight V W D E' \<and>
    (changed' \<longrightarrow> changed \<or> entries_weight V W D E < entries_weight V W D E')"
  using assms(1,4,6)
proof (induction ts arbitrary: E changed)
  case (Cons t ts)
  obtain E1 c1 where one: "merge_edge exit t (E, changed) = (E1, c1)" by fastforce
  note step = merge_edge_in [OF Cons.prems(1) assms(2,3) _ assms(5) one]
  have "length E1 = length E" using step Cons.prems(1,2) by (simp add: entries_in_def)
  then show ?case using Cons.IH [of E1 c1] Cons.prems step one by fastforce
qed simp

lemma flow_pass_in:
  assumes "spoken ir V W D" "sources_acyclic ir rank" "mir_wf ir" "fl_ir fl = ir" "entries_in ir V W D E" "\<forall>b \<in> set bs. b < length E"
  shows "\<exists>E' changed' fl'. flow_pass bs (E, changed) fl = Some ((E', changed'), fl') \<and> fl_ir fl' = ir \<and> entries_in ir V W D E' \<and>
    entries_weight V W D E \<le> entries_weight V W D E' \<and> (changed' \<longrightarrow> changed \<or> entries_weight V W D E < entries_weight V W D E')"
  using assms(4-6)
proof (induction bs arbitrary: fl E changed)
  case (Cons b bs)
  show ?case
  proof (cases "st_unreachable (E ! b)")
    case True
    then show ?thesis using Cons by simp
  next
    case False
    obtain mid where mid: "flow_from E b fl = Some mid" "flow_in ir V W D mid" "\<not> st_unreachable (fl_state mid)"
      using flow_from_in [OF assms(1,2) Cons.prems(1,2) _ False] Cons.prems(3) by auto
    obtain E1 c1 where fold: "fold (merge_edge (fl_state mid)) (mir_block_successors (mf_blocks ir ! b)) (E, changed) = (E1, c1)" by fastforce
    have len: "length E = length (mf_blocks ir)" using Cons.prems(2) by (simp add: entries_in_def)
    have targets: "\<forall>t \<in> set (mir_block_successors (mf_blocks ir ! b)). t < length E"
      using assms(3) Cons.prems(3) len by (auto simp: mir_wf_def)
    have edges: "entries_in ir V W D E1 \<and> entries_weight V W D E \<le> entries_weight V W D E1 \<and> (c1 \<longrightarrow> changed \<or> entries_weight V W D E < entries_weight V W D E1)"
      by (rule merge_edges_in [OF Cons.prems(2) _ mid(3) targets _ fold]) (use mid(2) assms(1) in \<open>auto simp: flow_in_def spoken_def\<close>)
    then have "\<forall>b \<in> set bs. b < length E1" using Cons.prems(3) len by (simp add: entries_in_def)
    moreover have "fl_ir mid = ir" using mid(2) by (simp add: flow_in_def)
    ultimately obtain E' c' fl' where rest: "flow_pass bs (E1, c1) mid = Some ((E', c'), fl')" "fl_ir fl' = ir" "entries_in ir V W D E'"
        "entries_weight V W D E1 \<le> entries_weight V W D E'" "c' \<longrightarrow> c1 \<or> entries_weight V W D E1 < entries_weight V W D E'"
      using Cons.IH [of mid E1 c1] edges by blast
    have "flow_pass (b # bs) (E, changed) fl = Some ((E', c'), fl')" using False mid(1) Cons.prems(1) fold rest(1) by simp
    then show ?thesis using rest edges by (intro exI [of _ E'] exI [of _ c'] exI [of _ fl']) auto
  qed
qed simp

text \<open>What the loop over the blocks keeps, and the room it still has.\<close>

definition flow_inv :: "mir_function \<Rightarrow> nat set \<Rightarrow> nat \<Rightarrow> nat \<Rightarrow> (nat \<Rightarrow> nat) \<Rightarrow> mir_state list \<times> mir_flow \<Rightarrow> bool" where
  "flow_inv ir V W D rank s \<longleftrightarrow> spoken ir V W D \<and> sources_acyclic ir rank \<and> mir_wf ir \<and> fl_ir (snd s) = ir \<and> entries_in ir V W D (fst s)"

definition flow_room :: "mir_function \<Rightarrow> nat set \<Rightarrow> nat \<Rightarrow> nat \<Rightarrow> mir_state list \<times> mir_flow \<Rightarrow> nat" where
  "flow_room ir V W D s =
     length (mf_blocks ir) * (1 + card V * (1 + (4 + card V + W) * (\<Sum>k \<le> D. W ^ k))) - entries_weight V W D (fst s)"

definition flow_turn :: "mir_state list \<times> mir_flow \<Rightarrow> ((mir_state list \<times> mir_flow) \<times> bool) option" where
  "flow_turn s = map_option (\<lambda>((E', changed), fl'). ((E', fl'), changed))
     (flow_pass [0..<length (mf_blocks (fl_ir (snd s)))] (fst s, False) (snd s))"

lemma entries_weight_bound:
  assumes "spoken ir V W D" "entries_in ir V W D E"
  shows "entries_weight V W D E \<le> length (mf_blocks ir) * (1 + card V * (1 + (4 + card V + W) * (\<Sum>k \<le> D. W ^ k)))"
proof -
  have fin: "finite V" using assms(1) by (simp add: spoken_def)
  have "entries_weight V W D E \<le> of_nat (card {..<length E}) * (1 + card V * (1 + (4 + card V + W) * (\<Sum>k \<le> D. W ^ k)))"
    unfolding entries_weight_def
    by (rule sum_bounded_above) (use assms(2) state_weight_bound fin in \<open>auto simp: entries_in_def\<close>)
  then show ?thesis using assms(2) by (simp add: entries_in_def)
qed

interpretation flow: pass_loop flow_turn "\<lambda>(E, fl). flow_loop E fl" "flow_inv ir V W D rank" "\<lambda>s s'. True" "flow_room ir V W D" for ir V W D rank
proof (unfold_locales, goal_cases)
  case (1 s)
  show ?case
  proof (cases s)
    case (Pair E fl)
    show ?thesis
      unfolding Pair prod.case
      by (subst flow_loop.simps, cases "flow_pass [0..<length (mf_blocks (fl_ir fl))] (E, False) fl")
        (auto simp: flow_turn_def split: prod.split)
  qed
next
  case (4 s)
  obtain E fl where s: "s = (E, fl)" by force
  have inv: "spoken ir V W D" "sources_acyclic ir rank" "mir_wf ir" "fl_ir fl = ir" "entries_in ir V W D E"
    using 4 s by (simp_all add: flow_inv_def)
  obtain E1 c1 fl1 where pass: "flow_pass [0..<length (mf_blocks ir)] (E, False) fl = Some ((E1, c1), fl1)" "fl_ir fl1 = ir"
      "entries_in ir V W D E1" "c1 \<longrightarrow> entries_weight V W D E < entries_weight V W D E1"
    using flow_pass_in [OF inv(1-5), of "[0..<length (mf_blocks ir)]" False] inv(5) by (auto simp: entries_in_def)
  have "c1 \<longrightarrow> flow_room ir V W D (E1, fl1) < flow_room ir V W D (E, fl)"
    using pass(4) entries_weight_bound [OF inv(1) pass(3)] unfolding flow_room_def fst_conv by linarith
  then show ?case using pass inv s by (simp add: flow_turn_def flow_inv_def)
qed simp_all

lemma flow_loop_ends:
  assumes "spoken ir V W D" "sources_acyclic ir rank" "mir_wf ir" "fl_ir fl = ir" "entries_in ir V W D E"
  shows "\<exists>E' fl'. flow_loop E fl = Some (E', fl') \<and> fl_ir fl' = ir \<and> entries_in ir V W D E'"
  using flow.loop_returns [of ir V W D rank "(E, fl)"] assms by (auto simp: flow_inv_def)

lemma flow_report_ends:
  assumes "spoken ir V W D" "sources_acyclic ir rank" "fl_ir fl = ir" "entries_in ir V W D E" "\<forall>b \<in> set bs. b < length E"
  shows "\<exists>fl'. flow_report bs E fl = Some fl'"
  using assms(3,5)
proof (induction bs arbitrary: fl)
  case (Cons b bs)
  show ?case
  proof (cases "st_unreachable (E ! b)")
    case False
    then obtain mid where "flow_from E b fl = Some mid" "flow_in ir V W D mid"
      using flow_from_in [OF assms(1,2) Cons.prems(1) assms(4)] Cons.prems(2) by auto
    then show ?thesis using Cons False by (simp add: flow_in_def)
  qed (use Cons in simp)
qed simp

lemma borrowck_ends:
  assumes "mir_wf ir" "sources_acyclic ir rank"
  shows "\<exists>ds' fns'. mir_borrowck reg ir ds fns function r = Some (ds', fns')"
proof -
  obtain V W D where sp: "spoken ir V W D" using has_vocabulary by blast
  obtain lv where lv: "mir_liveness_compute reg ir = Some lv" using liveness_computed [OF assms(1)] by blast
  let ?fl = "first_flow reg ir ds fns function lv"
  have ir: "fl_ir ?fl = ir" by (simp add: first_flow_def)
  have params: "set (mf_params ir) \<subseteq> V" using sp by (simp add: spoken_def)
  have "slot_in V W D (parameter_slot ?fl p)" if "p \<in> V" for p
    using that by (simp add: parameter_slot_def slot_in_add_borrow)
  then have given: "state_in V W D (fold (\<lambda>p. mir_state_set p (parameter_slot ?fl p)) ps st)" if "set ps \<subseteq> V" "state_in V W D st" for ps st
    using that by (induction ps arbitrary: st) (auto intro: state_in_set)
  have "state_in V W D mir_state_init" "state_in V W D (mir_state_init\<lparr>st_unreachable := True\<rparr>)"
    by (simp_all add: state_in_def mir_state_init_def state_ok_def)
  then have "state_in V W D (first_entries ?fl ! b)" if "b < length (mf_blocks ir)" for b
    using given [OF params] that unfolding first_entries_def ir by (cases "b = mf_entry ir") simp_all
  then have "entries_in ir V W D (first_entries ?fl)"
    by (simp add: entries_in_def first_entries_def ir)
  then obtain E fl1 where loop: "flow_loop (first_entries ?fl) ?fl = Some (E, fl1)" "fl_ir fl1 = ir" "entries_in ir V W D E"
    using flow_loop_ends [OF sp assms(2,1) ir] by blast
  obtain fl2 where "flow_report [0..<length (mf_blocks ir)] E (fl1\<lparr>fl_reporting := r\<rparr>) = Some fl2"
    using flow_report_ends [OF sp assms(2) _ loop(3), of "fl1\<lparr>fl_reporting := r\<rparr>" "[0..<length (mf_blocks ir)]"] loop(2,3)
    by (auto simp: entries_in_def)
  then show ?thesis using lv loop(1) by (auto simp: mir_borrowck_def Let_def)
qed


end
