(* ===== verification/Borrowck_Samples.thy ===== *)
theory Borrowck_Samples
  imports Borrowck_Ends
begin

text \<open>
  The borrow checker on four small functions: one whose second read it reports, two it accepts although
  they read what was moved away, and one it refuses although it copies a plain number.
\<close>

section \<open>Sample functions\<close>

text \<open>Functions whose values have no type.  The first gives a parameter away and reads it again; the
  second does so on one branch and has not given the value anything on the other; the third stores a field
  of it in between; in the fourth a value is copied into another whose storage lasts longer.\<close>

definition sample_place :: "nat \<Rightarrow> projection list \<Rightarrow> place" where
  "sample_place v ps = \<lparr>pl_base = v, pl_projections = ps, pl_binding = None\<rparr>"

definition sample_inst :: "mir_op \<Rightarrow> nat \<Rightarrow> nat list \<Rightarrow> place \<Rightarrow> mir_inst" where
  "sample_inst op result args p = (inst_of op None result sample_span)\<lparr>mi_args := map OPERAND_VALUE args, mi_place := p\<rparr>"

definition sample_move :: "nat \<Rightarrow> nat \<Rightarrow> mir_inst" where
  "sample_move v result = (sample_inst MIR_LOAD result [] (sample_place v []))\<lparr>mi_read := READ_MOVE\<rparr>"

definition sample_read :: "nat \<Rightarrow> nat \<Rightarrow> mir_inst" where
  "sample_read v result = sample_inst MIR_LOAD result [] (sample_place v [])"

definition sample_return :: mir_inst where
  "sample_return = sample_inst MIR_RETURN MIR_NO_VALUE [] zero_place"

definition sample_function :: "mir_block list \<Rightarrow> nat list \<Rightarrow> mir_function" where
  "sample_function blocks params =
     \<lparr>mf_function = None, mf_blocks = blocks, mf_entry = 0,
      mf_values = replicate 5 \<lparr>vi_type = None, vi_binding = None, vi_span = sample_span\<rparr>, mf_params = params\<rparr>"

definition moved_twice :: mir_function where
  "moved_twice = sample_function [[sample_move 0 1, sample_read 0 2, sample_return]] [0]"

definition moved_on_a_branch :: mir_function where
  "moved_on_a_branch = sample_function
     [[sample_inst MIR_STORAGE_LIVE MIR_NO_VALUE [] (sample_place 0 []), (sample_inst MIR_BRANCH MIR_NO_VALUE [] zero_place)\<lparr>mi_targets := (1, 2)\<rparr>],
      [sample_inst MIR_STORE MIR_NO_VALUE [3] (sample_place 0 []), sample_move 0 1, (sample_inst MIR_JMP MIR_NO_VALUE [] zero_place)\<lparr>mi_targets := (2, 0)\<rparr>],
      [sample_read 0 2, sample_return]] [3]"

definition moved_then_field :: mir_function where
  "moved_then_field = sample_function
     [[sample_move 0 1, sample_inst MIR_STORE MIR_NO_VALUE [3] (sample_place 0 [\<lparr>pr_kind = PROJ_FIELD, pr_id = 0, pr_type = None\<rparr>]),
       sample_read 0 2, sample_return]] [0, 3]"

definition copied_out :: mir_function where
  "copied_out = sample_function
     [[sample_inst MIR_STORAGE_LIVE MIR_NO_VALUE [] (sample_place 0 []), sample_inst MIR_STORAGE_LIVE MIR_NO_VALUE [] (sample_place 1 []),
       sample_inst MIR_STORE MIR_NO_VALUE [4] (sample_place 1 []), sample_read 1 2, sample_inst MIR_STORE MIR_NO_VALUE [2] (sample_place 0 []),
       sample_inst MIR_STORAGE_DEAD MIR_NO_VALUE [] (sample_place 1 []), sample_read 0 3, sample_return]] [4]"

lemmas sample_insts = sample_inst_def sample_move_def sample_read_def sample_return_def sample_place_def inst_of_def zero_place_def

lemma sample_values: "mf_values (sample_function blocks params) = [x, x, x, x, x]"
  if "x = \<lparr>vi_type = None, vi_binding = None, vi_span = sample_span\<rparr>"
  using that by (simp add: sample_function_def numeral_eq_Suc)

lemma sample_types: "type_of fl v = None" if "fl_ir fl = sample_function blocks params"
proof (cases "v < 5")
  case True
  then have "mf_values (sample_function blocks params) ! v = \<lparr>vi_type = None, vi_binding = None, vi_span = sample_span\<rparr>"
    unfolding sample_function_def by (simp only: mir_function.simps nth_replicate)
  then show ?thesis using that by (simp add: type_of_def mir_value_info_at_def)
next
  case False
  then show ?thesis using that by (simp add: type_of_def mir_value_info_at_def sample_function_def)
qed

lemma sample_answers:
  assumes "fl_ir fl = sample_function blocks params"
  shows "borrows_memory fl (type_of fl v) = False" "holds_its_own_object fl v = False" "type_is_indirect (type_of fl v) = False"
  by (simp_all add: borrows_memory_def holds_its_own_object_def sample_types [OF assms])

lemmas sample_flow = flow_inst_def flow_load_def flow_store_def prepare_store_def store_value_def check_outlived_def store_into_def
  collect_sources_def collect_place_sources_def check_readable_def state_of_def slot_of_def root_of_def tracked_depth_def
  reaches_past_its_root_def set_state_def invalidate_def mir_state_get_def mir_state_set_def

text \<open>A function of one block that jumps nowhere is walked twice, and only the second walk reports.\<close>

definition sample_start :: "nat list \<Rightarrow> mir_state" where
  "sample_start params = fold (\<lambda>p. mir_state_set p (bare_slot MIR_SLOT_INIT)) params mir_state_init"

lemma single_block_checked:
  assumes "ir = sample_function [is] params" "mir_block_successors is = []"
    "\<And>fl. fl_ir fl = ir \<Longrightarrow> fl_state fl = sample_start params \<Longrightarrow> \<exists>fl'. flow_block is fl = Some fl' \<and> fl_ir fl' = ir \<and>
       fl_diagnostics fl' = (if fl_reporting fl then D (fl_diagnostics fl) else fl_diagnostics fl) \<and> fl_reporting fl' = fl_reporting fl"
  shows "mir_borrowck reg ir ds fns None True = Some (D ds, fns)"
proof -
  have blocks: "mf_blocks ir = [is]" "mf_entry ir = 0" "mf_params ir = params" using assms(1) by (simp_all add: sample_function_def)
  have wf: "mir_wf ir" using assms(1,2) by (simp add: mir_wf_def sample_function_def)
  obtain lv where lv: "mir_liveness_compute reg ir = Some lv" using liveness_computed [OF wf] by blast
  let ?fl = "first_flow reg ir ds fns None lv"
  have ir: "fl_ir ?fl = ir" by (simp add: first_flow_def)
  have "parameter_slot ?fl p = bare_slot MIR_SLOT_INIT" for p
    using sample_answers(1) [of ?fl "[is]" params p] assms(1) by (simp add: parameter_slot_def first_flow_def)
  then have first: "first_entries ?fl = [sample_start params]"
    by (simp add: first_entries_def ir blocks sample_start_def)
  have ok: "state_ok (sample_start params)" "\<not> st_unreachable (sample_start params)"
    using first_entries_ok [of ?fl] wf ir blocks by (simp_all add: entries_ok_def first)
  have from_ok: "\<exists>fl'. flow_from (first_entries ?fl) 0 fl = Some fl' \<and> fl_ir fl' = ir \<and>
       fl_diagnostics fl' = (if fl_reporting fl then D (fl_diagnostics fl) else fl_diagnostics fl) \<and> fl_reporting fl' = fl_reporting fl"
    if "fl_ir fl = ir" for fl
    using assms(3) [of "fl\<lparr>fl_state := sample_start params\<rparr>"] that
    by (simp add: flow_from_def blocks first mir_state_copy_id [OF ok(1)] cong: if_cong)
  obtain fl1 where fl1: "flow_from (first_entries ?fl) 0 ?fl = Some fl1" "fl_ir fl1 = ir" "fl_diagnostics fl1 = ds"
    using from_ok [OF ir] by (auto simp: first_flow_def)
  have loop: "flow_loop (first_entries ?fl) ?fl = Some (first_entries ?fl, fl1)"
    using fl1(1) ok(2) by (subst flow_loop.simps) (simp add: ir blocks assms(2) first)
  obtain fl2 where fl2: "flow_from (first_entries ?fl) 0 (fl1\<lparr>fl_reporting := True\<rparr>) = Some fl2" "fl_diagnostics fl2 = D ds"
    using from_ok [of "fl1\<lparr>fl_reporting := True\<rparr>"] fl1(2,3) by auto
  show ?thesis using fl2 ok(2) by (simp add: mir_borrowck_def blocks lv loop [unfolded first] first)
qed

lemma check_readable_ir [simp]: "fl_ir (check_readable p sp fl) = fl_ir fl"
  using check_readable_frame(1) [of fl p sp] by (simp add: frame_def)

text \<open>The steps the samples take.\<close>

lemma add_fresh_borrows:
  assumes "distinct (as @ cs)" "\<forall>b \<in> set cs. \<not> mir_value_is_none b"
  shows "fold mir_slot_add_borrow cs (Slot i as []) = Slot i (as @ cs) []"
  using assms by (induction cs arbitrary: as) (simp_all add: mir_slot_add_borrow_def mir_slot_borrows_from_def)

lemma sample_read_step:
  assumes "fl_ir fl = sample_function blocks params" "mir_slot_flattened (mir_state_get (fl_state fl) v) = Slot s bs []"
    "sl_init (mir_state_get (fl_state fl) v) = s" "\<not> mir_value_is_none v" "distinct bs" "\<forall>b \<in> set bs. \<not> mir_value_is_none b"
  shows "flow_inst (sample_read v r) fl = Some (set_state r (Slot MIR_SLOT_INIT (if bs = [] \<and> s \<noteq> MIR_SLOT_MOVED then [v] else bs) [])
     (if s = MIR_SLOT_MOVED then report sample_span moved_message fl
      else if s = MIR_SLOT_DANGLING then report sample_span freed_message fl else fl))"
proof -
  have place: "mi_place (sample_read v r) = sample_place v []" "mi_op (sample_read v r) = MIR_LOAD" "mi_read (sample_read v r) = READ_COPY"
      "mi_result (sample_read v r) = r" "mi_span (sample_read v r) = sample_span"
    by (simp_all add: sample_read_def sample_inst_def inst_of_def)
  have slot: "slot_of f (sample_place v []) = Some (mir_state_get (fl_state fl) v)" if "fl_state f = fl_state fl" for f
    using assms(4) that by (simp add: slot_of_def sample_place_def root_of_def)
  have state: "state_of fl (sample_place v []) = s" using assms(2,3) by (simp add: state_of_def slot Let_def)
  have check: "check_readable (sample_place v []) sample_span fl = (if s = MIR_SLOT_MOVED then report sample_span moved_message fl
      else if s = MIR_SLOT_DANGLING then report sample_span freed_message fl else fl)"
    using assms(4) sample_answers(3) [OF assms(1)] state
    by (cases s) (simp_all add: check_readable_def sample_place_def root_of_def)
  have own: "holds_its_own_object f v = False" if "fl_ir f = fl_ir fl" for f
    by (rule sample_answers(2)) (use that assms(1) in simp)
  have "collect_place_sources f (sample_place v []) (bare_slot MIR_SLOT_INIT) =
      Slot MIR_SLOT_INIT (if bs = [] \<and> s \<noteq> MIR_SLOT_MOVED then [v] else bs) []" if "fl_state f = fl_state fl" "fl_ir f = fl_ir fl" for f
    using assms slot [OF that(1)] own [OF that(2)] add_fresh_borrows [of "[]" bs MIR_SLOT_INIT]
    by (simp add: collect_place_sources_def add_borrows_def bare_slot_def sample_place_def root_of_def Let_def
        mir_slot_add_borrow_def mir_slot_borrows_from_def)
  from this [of "check_readable (sample_place v []) sample_span fl"] show ?thesis
    by (simp add: flow_inst_def flow_load_def place Let_def, simp add: check)
qed

lemma flattened_bare [simp]: "mir_slot_flattened (bare_slot i) = Slot i [] []"
  by (simp add: bare_slot_def)

lemma bare_slot_slot: "bare_slot i = Slot i [] []"
  by (simp add: bare_slot_def)

lemma sample_move_step:
  assumes "fl_ir fl = sample_function blocks params" "mir_state_get (fl_state fl) v = bare_slot MIR_SLOT_INIT" "\<not> mir_value_is_none v"
    "r \<noteq> v"
  shows "flow_inst (sample_move v r) fl = Some (set_state v (bare_slot MIR_SLOT_MOVED) (set_state r (Slot MIR_SLOT_INIT [v] []) fl))"
proof -
  have "flow_inst (sample_read v r) fl = Some (set_state r (Slot MIR_SLOT_INIT [v] []) fl)"
    using sample_read_step [OF assms(1) _ _ assms(3), of MIR_SLOT_INIT "[]"] assms(2) by simp
  then show ?thesis
    using assms(2,4) by (simp add: flow_inst_def flow_load_def sample_read_def sample_move_def sample_inst_def inst_of_def
        sample_place_def root_of_def Let_def, simp add: bare_slot_def)
qed

lemma sample_storage_steps:
  "flow_inst (sample_inst MIR_STORAGE_LIVE r as (sample_place v [])) fl = Some (set_state v (bare_slot MIR_SLOT_UNINIT) fl)"
  "flow_inst (sample_inst MIR_STORAGE_DEAD r as (sample_place v [])) fl = Some (set_state v (bare_slot MIR_SLOT_UNINIT) (invalidate v fl))"
  "flow_inst sample_return fl = Some fl"
  by (simp_all add: flow_inst_def sample_return_def sample_inst_def inst_of_def flow_return_def sample_place_def root_of_def)

lemma fl_ir_set [simp]: "fl_ir (set_state v s fl) = fl_ir fl" "fl_ir (report sp m fl) = fl_ir fl" "fl_ir (invalidate v fl) = fl_ir fl"
  "fl_reporting (set_state v s fl) = fl_reporting fl" "fl_reporting (report sp m fl) = fl_reporting fl"
  "fl_reporting (invalidate v fl) = fl_reporting fl" "fl_diagnostics (set_state v s fl) = fl_diagnostics fl"
  "fl_diagnostics (invalidate v fl) = fl_diagnostics fl"
  "fl_diagnostics (report sp m fl) =
     (if fl_reporting fl then diag_error (fl_diagnostics fl) GAB_ERR_LIFETIME sp m else fl_diagnostics fl)"
  by (simp_all add: set_state_def report_def invalidate_def)

text \<open>Storing a value that names \<open>bs\<close> into the whole of a place.\<close>

lemma sample_store_step:
  assumes "fl_ir fl = sample_function blocks params" "collect_sources fl a (bare_slot MIR_SLOT_INIT) = Some stored" "\<not> mir_value_is_none v"
  shows "flow_inst (sample_inst MIR_STORE r [a] (sample_place v [])) fl = Some (set_state v stored fl)"
  using assms sample_answers [OF assms(1)]
  by (simp add: flow_inst_def flow_store_def sample_inst_def inst_of_def sample_place_def root_of_def reaches_past_its_root_def
      tracked_depth_def prepare_store_def store_value_def store_into_def check_outlived_def sample_answers [of "set_state v stored fl"])

lemma collect_undefined:
  assumes "fl_ir fl = sample_function blocks params" "definition_of (sample_function blocks params) a = None"
    "mir_state_get (fl_state fl) a = bare_slot MIR_SLOT_INIT"
  shows "collect_sources fl a into = Some into"
  using assms sample_answers [OF assms(1)]
  by (simp add: collect_sources_def collect_all.simps source_step_def add_borrows_def)

lemma run_moved_twice:
  assumes "fl_ir fl = moved_twice" "fl_state fl = sample_start [0]"
  shows "\<exists>fl'. flow_block [sample_move 0 1, sample_read 0 2, sample_return] fl = Some fl' \<and> fl_ir fl' = moved_twice \<and>
    fl_diagnostics fl' = (if fl_reporting fl then diag_error (fl_diagnostics fl) GAB_ERR_LIFETIME sample_span moved_message
      else fl_diagnostics fl) \<and> fl_reporting fl' = fl_reporting fl"
proof -
  note ir = assms(1) [unfolded moved_twice_def]
  have start: "mir_state_get (fl_state fl) 0 = bare_slot MIR_SLOT_INIT" by (simp add: assms(2) sample_start_def)
  have some: "\<not> mir_value_is_none 0" by (simp add: mir_value_is_none_def)
  let ?mid = "set_state 0 (bare_slot MIR_SLOT_MOVED) (set_state 1 (Slot MIR_SLOT_INIT [0] []) fl)"
  have one: "flow_inst (sample_move 0 1) fl = Some ?mid" by (rule sample_move_step [OF ir start some]) simp
  have mid_ir: "fl_ir ?mid = sample_function [[sample_move 0 1, sample_read 0 2, sample_return]] [0]" using ir by simp
  have two: "flow_inst (sample_read 0 2) ?mid = Some (set_state 2 (Slot MIR_SLOT_INIT [] []) (report sample_span moved_message ?mid))"
    using sample_read_step [OF mid_ir _ _ some, of MIR_SLOT_MOVED "[]" 2] by simp
  show ?thesis using assms(1) by (simp add: one two sample_storage_steps del: One_nat_def)
qed




section \<open>What is let through, and what is refused\<close>

lemma sample_result_none: "mi_result (sample_inst op MIR_NO_VALUE as p) = MIR_NO_VALUE" "mi_result (sample_move v r) = r" "mi_result (sample_read v r) = r"
  "mi_result sample_return = MIR_NO_VALUE" "mi_result ((sample_inst op MIR_NO_VALUE as p)\<lparr>mi_targets := t\<rparr>) = MIR_NO_VALUE"
  by (simp_all add: sample_insts)

lemma no_value_none [simp]: "mir_value_is_none MIR_NO_VALUE"
  by (simp add: mir_value_is_none_def MIR_NO_VALUE_def)

lemma value_some: "n < 4294967295 \<Longrightarrow> \<not> mir_value_is_none n"
  by (simp add: mir_value_is_none_def)

abbreviation first_field :: projection where
  "first_field \<equiv> \<lparr>pr_kind = PROJ_FIELD, pr_id = 0, pr_type = None\<rparr>"

lemma run_moved_then_field:
  assumes "fl_ir fl = moved_then_field" "fl_state fl = sample_start [0, 3]"
  shows "\<exists>fl'. flow_block [sample_move 0 1, sample_inst MIR_STORE MIR_NO_VALUE [3] (sample_place 0 [first_field]),
       sample_read 0 2, sample_return] fl = Some fl' \<and> fl_ir fl' = moved_then_field \<and>
    fl_diagnostics fl' = (if fl_reporting fl then (\<lambda>ds. ds) (fl_diagnostics fl) else fl_diagnostics fl) \<and> fl_reporting fl' = fl_reporting fl"
proof -
  note ir = assms(1) [unfolded moved_then_field_def]
  let ?store = "sample_inst MIR_STORE MIR_NO_VALUE [3] (sample_place 0 [first_field])"
  let ?f = "sample_function [[sample_move 0 1, ?store, sample_read 0 2, sample_return]] [0, 3]"
  have start: "mir_state_get (fl_state fl) 0 = bare_slot MIR_SLOT_INIT" "mir_state_get (fl_state fl) 3 = bare_slot MIR_SLOT_INIT"
    by (simp_all add: assms(2) sample_start_def)
  have some: "\<not> mir_value_is_none 0" by (simp add: value_some)
  let ?mid = "set_state 0 (bare_slot MIR_SLOT_MOVED) (set_state 1 (Slot MIR_SLOT_INIT [0] []) fl)"
  have mid_ir: "fl_ir ?mid = ?f" using ir by simp
  have one: "flow_inst (sample_move 0 1) fl = Some ?mid" by (rule sample_move_step [OF ir start(1) some]) simp
  have "definition_of ?f 3 = None"
    by (simp add: definition_of_def sample_function_def sample_result_none value_some)
  then have stored: "collect_sources ?mid 3 into = Some into" for into
    using collect_undefined [OF mid_ir] start(2) by simp
  let ?slot = "Slot MIR_SLOT_INIT [] [bare_slot MIR_SLOT_INIT]"
  let ?last = "set_state 0 ?slot (set_state 0 ?slot ?mid)"
  have last_ir: "fl_ir ?last = ?f" using ir by simp
  have two: "flow_inst ?store ?mid = Some ?last"
    using stored some sample_answers [OF mid_ir] sample_answers [OF last_ir]
    by (simp add: flow_inst_def flow_store_def sample_inst_def inst_of_def sample_place_def root_of_def reaches_past_its_root_def
        tracked_depth_def prepare_store_def store_value_def store_into_def check_outlived_def mir_slot_open_fields_def bare_slot_slot
        Let_def)
  have three: "flow_inst (sample_read 0 2) ?last = Some (set_state 2 (Slot MIR_SLOT_INIT [0] []) ?last)"
    using sample_read_step [OF last_ir _ _ some, of MIR_SLOT_INIT "[]" 2] by (simp add: bare_slot_slot flatten_field_def)
  show ?thesis using assms(1) by (simp add: one two three sample_storage_steps del: One_nat_def)
qed

lemma run_copied_out:
  assumes "fl_ir fl = copied_out" "fl_state fl = sample_start [4]"
  shows "\<exists>fl'. flow_block
     [sample_inst MIR_STORAGE_LIVE MIR_NO_VALUE [] (sample_place 0 []), sample_inst MIR_STORAGE_LIVE MIR_NO_VALUE [] (sample_place 1 []),
       sample_inst MIR_STORE MIR_NO_VALUE [4] (sample_place 1 []), sample_read 1 2, sample_inst MIR_STORE MIR_NO_VALUE [2] (sample_place 0 []),
       sample_inst MIR_STORAGE_DEAD MIR_NO_VALUE [] (sample_place 1 []), sample_read 0 3, sample_return] fl = Some fl' \<and>
    fl_ir fl' = copied_out \<and>
    fl_diagnostics fl' = (if fl_reporting fl then diag_error (fl_diagnostics fl) GAB_ERR_LIFETIME sample_span freed_message
      else fl_diagnostics fl) \<and> fl_reporting fl' = fl_reporting fl"
proof -
  obtain blocks where f: "copied_out = sample_function blocks [4]"
    and blocks: "blocks = [[sample_inst MIR_STORAGE_LIVE MIR_NO_VALUE [] (sample_place 0 []), sample_inst MIR_STORAGE_LIVE MIR_NO_VALUE [] (sample_place 1 []),
       sample_inst MIR_STORE MIR_NO_VALUE [4] (sample_place 1 []), sample_read 1 2, sample_inst MIR_STORE MIR_NO_VALUE [2] (sample_place 0 []),
       sample_inst MIR_STORAGE_DEAD MIR_NO_VALUE [] (sample_place 1 []), sample_read 0 3, sample_return]]"
    by (simp add: copied_out_def)
  note ir = assms(1) [unfolded f]
  have some: "\<not> mir_value_is_none 0" "\<not> mir_value_is_none 1" by (simp_all add: value_some)
  let ?live = "set_state 1 (bare_slot MIR_SLOT_UNINIT) (set_state 0 (bare_slot MIR_SLOT_UNINIT) fl)"
  have live_ir: "fl_ir ?live = sample_function blocks [4]" using ir by simp
  have defs: "definition_of (sample_function blocks [4]) 4 = None" "definition_of (sample_function blocks [4]) 2 = Some (sample_read 1 2)"
    by (simp_all add: definition_of_def sample_function_def blocks sample_result_none value_some)
  have "mir_state_get (fl_state ?live) 4 = bare_slot MIR_SLOT_INIT" by (simp add: assms(2) sample_start_def)
  from collect_undefined [OF live_ir defs(1) this]
  have one: "flow_inst (sample_inst MIR_STORE MIR_NO_VALUE [4] (sample_place 1 [])) ?live = Some (set_state 1 (bare_slot MIR_SLOT_INIT) ?live)"
    by (rule sample_store_step [OF live_ir _ some(2)])
  let ?stored = "set_state 1 (bare_slot MIR_SLOT_INIT) ?live"
  have stored_ir: "fl_ir ?stored = sample_function blocks [4]" using ir by simp
  have two: "flow_inst (sample_read 1 2) ?stored = Some (set_state 2 (Slot MIR_SLOT_INIT [1] []) ?stored)"
    using sample_read_step [OF stored_ir _ _ some(2), of MIR_SLOT_INIT "[]" 2] by simp
  let ?read = "set_state 2 (Slot MIR_SLOT_INIT [1] []) ?stored"
  have read_ir: "fl_ir ?read = sample_function blocks [4]" using ir by simp
  have "collect_sources ?read 2 (bare_slot MIR_SLOT_INIT) = Some (Slot MIR_SLOT_INIT [1] [])"
    using defs(2) read_ir sample_answers [OF read_ir] some(2)
    by (simp add: collect_sources_def collect_all.simps source_step_def collect_place_sources_def sample_insts root_of_def slot_of_def
        add_borrows_def mir_slot_add_borrow_def mir_slot_borrows_from_def bare_slot_slot Let_def)
  from sample_store_step [OF read_ir this some(1), of MIR_NO_VALUE]
  have three: "flow_inst (sample_inst MIR_STORE MIR_NO_VALUE [2] (sample_place 0 [])) ?read = Some (set_state 0 (Slot MIR_SLOT_INIT [1] []) ?read)" .
  let ?dead = "set_state 1 (bare_slot MIR_SLOT_UNINIT) (invalidate 1 (set_state 0 (Slot MIR_SLOT_INIT [1] []) ?read))"
  have dead_ir: "fl_ir ?dead = sample_function blocks [4]" using ir by simp
  have "mir_state_get (fl_state ?dead) 0 = Slot MIR_SLOT_DANGLING [1] []"
    by (simp add: mir_state_get_invalidate)
  moreover have "mir_slot_flattened (Slot MIR_SLOT_DANGLING [1] []) = Slot MIR_SLOT_DANGLING [1] []"
    using some(2) by (simp add: bare_slot_slot mir_slot_add_borrow_def mir_slot_borrows_from_def)
  ultimately have four: "flow_inst (sample_read 0 3) ?dead = Some (set_state 3 (Slot MIR_SLOT_INIT [1] []) (report sample_span freed_message ?dead))"
    using sample_read_step [OF dead_ir _ _ some(1), of MIR_SLOT_DANGLING "[1]" 3] some(2) by simp
  show ?thesis using assms(1) by (simp add: one two three four sample_storage_steps del: One_nat_def)
qed


text \<open>The two-branch sample, block by block.\<close>

abbreviation (input) branch_blocks :: "mir_block list" where
  "branch_blocks \<equiv>
     [[sample_inst MIR_STORAGE_LIVE MIR_NO_VALUE [] (sample_place 0 []), (sample_inst MIR_BRANCH MIR_NO_VALUE [] zero_place)\<lparr>mi_targets := (1, 2)\<rparr>],
      [sample_inst MIR_STORE MIR_NO_VALUE [3] (sample_place 0 []), sample_move 0 1, (sample_inst MIR_JMP MIR_NO_VALUE [] zero_place)\<lparr>mi_targets := (2, 0)\<rparr>],
      [sample_read 0 2, sample_return]]"

definition slots_of :: "(nat \<times> mir_slot) list \<Rightarrow> mir_state" where
  "slots_of xs = \<lparr>st_slots = xs, st_unreachable = False\<rparr>"

definition given :: mir_slot where "given = bare_slot MIR_SLOT_INIT"
definition taken :: mir_slot where "taken = Slot MIR_SLOT_INIT [0] []"
definition gone :: mir_slot where "gone = bare_slot MIR_SLOT_MOVED"
definition begun :: mir_slot where "begun = bare_slot MIR_SLOT_UNINIT"

definition at_first :: mir_state where "at_first = slots_of [(3, given)]"
definition at_branch :: mir_state where "at_branch = slots_of [(3, given), (0, begun)]"
definition at_jump :: mir_state where "at_jump = slots_of [(3, given), (0, gone), (1, taken)]"
definition at_join :: mir_state where "at_join = slots_of [(3, given), (0, begun), (1, taken)]"

lemmas at_defs = at_first_def at_branch_def at_jump_def at_join_def slots_of_def
lemmas slot_defs = given_def taken_def gone_def begun_def bare_slot_def

lemma branch_states:
  "state_ok at_first" "state_ok at_branch" "state_ok at_jump" "state_ok at_join"
  by (simp_all add: at_defs state_ok_def)

lemma slot_merges:
  "slot_merge given given = given" "slot_merge begun begun = begun" "slot_merge begun gone = begun" "slot_merge taken taken = taken"
  "slot_merge (bare_slot MIR_SLOT_UNREACHED) taken = taken"
  by (simp_all add: slot_merge.simps slot_defs mir_slot_add_borrow_def mir_slot_borrows_from_def)

lemma state_merges:
  "mir_state_merge at_branch at_branch = at_branch" "mir_state_merge at_branch at_jump = at_join"
  "mir_state_merge at_join at_branch = at_join" "mir_state_merge at_join at_jump = at_join"
  by (simp_all add: at_defs mir_state_merge_def mir_state_get_def mir_state_set_def slot_merges)

lemma state_comparisons:
  "mir_state_equals at_branch at_branch" "mir_state_equals at_join at_join" "\<not> mir_state_equals at_join at_branch"
  by (simp_all add: at_defs mir_state_equals_def state_contained_by_def mir_state_get_def slot_defs)

lemma branch_runs:
  assumes "fl_ir fl = moved_on_a_branch"
  shows "\<exists>fl'. flow_from [at_first, e1, e2] 0 fl = Some fl' \<and> fl_ir fl' = moved_on_a_branch \<and> fl_state fl' = at_branch \<and>
      fl_diagnostics fl' = fl_diagnostics fl"
    "\<exists>fl'. flow_from [e0, at_branch, e2] 1 fl = Some fl' \<and> fl_ir fl' = moved_on_a_branch \<and> fl_state fl' = at_jump \<and>
      fl_diagnostics fl' = fl_diagnostics fl"
    "e = at_branch \<or> e = at_join \<Longrightarrow> \<exists>fl'. flow_from [e0, e1, e] 2 fl = Some fl' \<and> fl_ir fl' = moved_on_a_branch \<and>
      fl_diagnostics fl' = fl_diagnostics fl"
proof -
  note ir = assms [unfolded moved_on_a_branch_def]
  let ?f = "sample_function branch_blocks [3]"
  have some: "\<not> mir_value_is_none 0" by (simp add: value_some)
  have blocks: "mf_blocks moved_on_a_branch = branch_blocks" by (simp add: moved_on_a_branch_def sample_function_def)
  have other: "flow_inst ((sample_inst op MIR_NO_VALUE [] zero_place)\<lparr>mi_targets := t\<rparr>) f = Some f" if "op = MIR_BRANCH \<or> op = MIR_JMP" for op t f
    using that by (auto simp: flow_inst_def sample_inst_def inst_of_def Let_def)
  let ?e0 = "fl\<lparr>fl_state := at_first\<rparr>"
  show "\<exists>fl'. flow_from [at_first, e1, e2] 0 fl = Some fl' \<and> fl_ir fl' = moved_on_a_branch \<and> fl_state fl' = at_branch \<and>
      fl_diagnostics fl' = fl_diagnostics fl"
    using assms by (simp add: flow_from_def blocks mir_state_copy_id branch_states sample_storage_steps other)
      (simp add: at_defs mir_state_set_def begun_def)
  let ?e1 = "fl\<lparr>fl_state := at_branch\<rparr>"
  have ir1: "fl_ir ?e1 = ?f" using ir by simp
  have "definition_of ?f 3 = None"
    by (simp add: definition_of_def sample_function_def sample_result_none value_some)
  moreover have "mir_state_get (fl_state ?e1) 3 = bare_slot MIR_SLOT_INIT" by (simp add: at_defs mir_state_get_def given_def)
  ultimately have "collect_sources ?e1 3 (bare_slot MIR_SLOT_INIT) = Some (bare_slot MIR_SLOT_INIT)" by (rule collect_undefined [OF ir1])
  from sample_store_step [OF ir1 this some, of MIR_NO_VALUE]
  have store: "flow_inst (sample_inst MIR_STORE MIR_NO_VALUE [3] (sample_place 0 [])) ?e1 = Some (set_state 0 (bare_slot MIR_SLOT_INIT) ?e1)" .
  let ?s1 = "set_state 0 (bare_slot MIR_SLOT_INIT) ?e1"
  have ir1': "fl_ir ?s1 = ?f" using ir by simp
  have move: "flow_inst (sample_move 0 1) ?s1 = Some (set_state 0 (bare_slot MIR_SLOT_MOVED) (set_state 1 (Slot MIR_SLOT_INIT [0] []) ?s1))"
    by (rule sample_move_step [OF ir1' _ some]) simp_all
  show "\<exists>fl'. flow_from [e0, at_branch, e2] 1 fl = Some fl' \<and> fl_ir fl' = moved_on_a_branch \<and> fl_state fl' = at_jump \<and>
      fl_diagnostics fl' = fl_diagnostics fl"
    using assms by (simp add: flow_from_def blocks mir_state_copy_id branch_states store move other del: One_nat_def)
      (simp add: at_defs mir_state_set_def gone_def taken_def)
  show "\<exists>fl'. flow_from [e0, e1, e] 2 fl = Some fl' \<and> fl_ir fl' = moved_on_a_branch \<and> fl_diagnostics fl' = fl_diagnostics fl"
    if "e = at_branch \<or> e = at_join"
  proof -
    let ?e2 = "fl\<lparr>fl_state := e\<rparr>"
    have ir2: "fl_ir ?e2 = ?f" using ir by simp
    have get: "mir_state_get e 0 = bare_slot MIR_SLOT_UNINIT" using that by (auto simp: at_defs mir_state_get_def begun_def)
    have read: "flow_inst (sample_read 0 2) ?e2 = Some (set_state 2 (Slot MIR_SLOT_INIT [0] []) ?e2)"
      using sample_read_step [OF ir2 _ _ some, of MIR_SLOT_UNINIT "[]" 2] by (simp add: get)
    have "state_ok e" using that branch_states by auto
    then show ?thesis using assms by (simp add: flow_from_def blocks mir_state_copy_id read sample_storage_steps)
  qed
qed

lemma branch_sample_frame:
  "mf_entry moved_on_a_branch = 0" "mf_params moved_on_a_branch = [3]" "length (mf_blocks moved_on_a_branch) = 3"
  by (simp_all add: moved_on_a_branch_def sample_function_def)

lemma branch_successors:
  "mir_block_successors (mf_blocks moved_on_a_branch ! 0) = [1, 2]" "mir_block_successors (mf_blocks moved_on_a_branch ! 1) = [2]"
  "mir_block_successors (mf_blocks moved_on_a_branch ! 2) = []"
  by (simp_all add: moved_on_a_branch_def sample_function_def mir_block_successors_def mir_block_is_terminated_def sample_insts)


lemma moved_on_a_branch_wf: "mir_wf moved_on_a_branch"
proof -
  have "\<forall>b < length (mf_blocks moved_on_a_branch). \<forall>s \<in> set (mir_block_successors (mf_blocks moved_on_a_branch ! b)). s < 3"
  proof (intro allI impI)
    fix b assume "b < length (mf_blocks moved_on_a_branch)"
    then have "b = 0 \<or> b = 1 \<or> b = 2" by (auto simp: branch_sample_frame)
    then show "\<forall>s \<in> set (mir_block_successors (mf_blocks moved_on_a_branch ! b)). s < 3" using branch_successors by auto
  qed
  then show ?thesis
    unfolding mir_wf_def branch_sample_frame all_set_conv_all_nth [of "mf_blocks moved_on_a_branch"]
    by (simp add: moved_on_a_branch_def sample_function_def)
qed

lemma moved_on_a_branch_checked: "mir_borrowck reg moved_on_a_branch ds fns None True = Some (ds, fns)"
proof -
  obtain lv where lv: "mir_liveness_compute reg moved_on_a_branch = Some lv" using liveness_computed [OF moved_on_a_branch_wf] by blast
  let ?fl = "first_flow reg moved_on_a_branch ds fns None lv" and ?u = "mir_state_init\<lparr>st_unreachable := True\<rparr>"
  have ir: "fl_ir ?fl = moved_on_a_branch" "fl_diagnostics ?fl = ds" by (simp_all add: first_flow_def)
  have "parameter_slot ?fl 3 = given"
    using sample_answers(1) [of ?fl branch_blocks "[3]" 3] by (simp add: parameter_slot_def first_flow_def moved_on_a_branch_def given_def)
  then have first: "first_entries ?fl = [at_first, ?u, ?u]"
    by (simp add: first_entries_def ir branch_sample_frame mir_state_set_def mir_state_init_def at_defs numeral_eq_Suc)
  have reached: "\<not> st_unreachable at_first" "\<not> st_unreachable at_branch" "\<not> st_unreachable at_jump" "\<not> st_unreachable at_join"
    by (simp_all add: at_defs)
  have three: "[0..<3] = [0, 1, 2 :: nat]" by (simp add: upt_rec)
  have to_fresh: "mir_state_merge (mir_state_copy ?u) at_branch = at_branch" "\<not> mir_state_equals at_branch ?u"
    using reached by (simp_all add: mir_state_merge_def mir_state_copy_def [of ?u] mir_state_copy_id branch_states mir_state_equals_def)
  note copies = branch_states [THEN mir_state_copy_id]
  have updates: "[a, b, c][1 := x] = [a, x, c]" "[a, b, c][2 := x] = [a, b, x]" for a b c x :: mir_state by simp_all
  obtain f0 where f0: "flow_from [at_first, ?u, ?u] 0 ?fl = Some f0" "fl_ir f0 = moved_on_a_branch" "fl_state f0 = at_branch" "fl_diagnostics f0 = ds"
    using branch_runs(1) [OF ir(1)] ir(2) by metis
  obtain f1 where f1: "flow_from [at_first, at_branch, at_branch] 1 f0 = Some f1" "fl_ir f1 = moved_on_a_branch" "fl_state f1 = at_jump" "fl_diagnostics f1 = ds"
    using branch_runs(2) [OF f0(2)] f0(4) by metis
  obtain f2 where f2: "flow_from [at_first, at_branch, at_join] 2 f1 = Some f2" "fl_ir f2 = moved_on_a_branch" "fl_diagnostics f2 = ds"
    using branch_runs(3) [OF f1(2), of at_join] f1(4) by metis
  have pass1: "flow_pass [0, 1, 2] ([at_first, ?u, ?u], False) ?fl = Some (([at_first, at_branch, at_join], True), f2)"
    using f0 f1 f2 reached
    by (simp add: ir branch_sample_frame branch_successors merge_edge_def to_fresh copies state_merges state_comparisons updates Let_def
        del: One_nat_def list_update.simps)
  let ?E = "[at_first, at_branch, at_join]"
  have again: "\<exists>g. flow_pass [0, 1, 2] (?E, False) f = Some ((?E, False), g) \<and> flow_report [0, 1, 2] ?E f = Some g \<and> fl_ir g = moved_on_a_branch \<and> fl_diagnostics g = ds"
    if f: "fl_ir f = moved_on_a_branch" and f': "fl_diagnostics f = ds" for f
  proof -
    obtain g0 where g0: "flow_from ?E 0 f = Some g0" "fl_ir g0 = moved_on_a_branch" "fl_state g0 = at_branch" "fl_diagnostics g0 = ds"
      using branch_runs(1) [OF f] f' by metis
    obtain g1 where g1: "flow_from ?E 1 g0 = Some g1" "fl_ir g1 = moved_on_a_branch" "fl_state g1 = at_jump" "fl_diagnostics g1 = ds"
      using branch_runs(2) [OF g0(2)] g0(4) by metis
    obtain g2 where g2: "flow_from ?E 2 g1 = Some g2" "fl_ir g2 = moved_on_a_branch" "fl_diagnostics g2 = ds"
      using branch_runs(3) [OF g1(2), of at_join] g1(4) by metis
    show ?thesis
      using g0 g1 g2 reached
      by (simp add: f branch_sample_frame branch_successors merge_edge_def copies state_merges state_comparisons updates Let_def
        del: One_nat_def list_update.simps)
  qed
  obtain g where g: "flow_pass [0, 1, 2] (?E, False) f2 = Some ((?E, False), g)" "fl_ir g = moved_on_a_branch" "fl_diagnostics g = ds"
    using again [OF f2(2,3)] by blast
  have loop: "flow_loop [at_first, ?u, ?u] ?fl = Some (?E, g)"
    by (subst flow_loop.simps, simp only: ir branch_sample_frame three pass1, simp)
      (subst flow_loop.simps, simp only: f2(2) branch_sample_frame three g, simp)
  obtain h where h: "flow_report [0, 1, 2] ?E (g\<lparr>fl_reporting := True\<rparr>) = Some h" "fl_diagnostics h = ds"
    using again [of "g\<lparr>fl_reporting := True\<rparr>"] g(2,3) by (auto simp del: flow_report.simps One_nat_def)
  then show ?thesis
    by (simp add: mir_borrowck_def lv first loop branch_sample_frame three h del: One_nat_def flow_report.simps)
qed


text \<open>C24: three gaps of the check.  A read of a value that one branch moved away is accepted when the other
  branch has not given the value anything yet, although the path through the first branch reads what is
  gone; a read of a whole value that was moved away is accepted once one of its fields has been stored
  again; and copying a plain number out of a block is refused, because the copy counts as a borrow of
  the variable it was read from.\<close>

theorem borrow_check_gaps:
  "mir_borrowck reg moved_on_a_branch ds fns None True = Some (ds, fns) \<and>
   arrives_at moved_on_a_branch 2 [0, 1] \<and> value_at moved_on_a_branch [0, 1] 2 0 0 = MIR_SLOT_MOVED \<and>
   mir_borrowck reg moved_then_field ds fns None True = Some (ds, fns) \<and>
   mir_borrowck reg copied_out ds fns None True = Some (diag_error ds GAB_ERR_LIFETIME sample_span freed_message, fns)"
proof -
  have "flows moved_on_a_branch 0 1" "flows moved_on_a_branch 1 2"
    using branch_successors by (simp_all add: flows_def branch_sample_frame)
  then have "arrives_at moved_on_a_branch 2 (([] @ [0]) @ [1])"
    using arrives_start [of moved_on_a_branch] unfolding branch_sample_frame(1) by (intro arrives_edge)
  then have "arrives_at moved_on_a_branch 2 [0, 1]" by simp
  moreover have "value_at moved_on_a_branch [0, 1] 2 0 0 = MIR_SLOT_MOVED"
    by (simp add: value_at_def moved_on_a_branch_def sample_function_def insts_on_def after_insts_def after_inst_def resets_def
        reaches_past_its_root_def sample_insts)
  moreover have "mir_borrowck reg moved_then_field ds fns None True = Some (ds, fns)"
    by (rule single_block_checked [OF moved_then_field_def _ run_moved_then_field])
      (simp_all add: mir_block_successors_def mir_block_is_terminated_def sample_insts)
  moreover have "mir_borrowck reg copied_out ds fns None True = Some (diag_error ds GAB_ERR_LIFETIME sample_span freed_message, fns)"
    by (rule single_block_checked [OF copied_out_def _ run_copied_out])
      (simp_all add: mir_block_successors_def mir_block_is_terminated_def sample_insts)
  ultimately show ?thesis using moved_on_a_branch_checked by blast
qed

end
