(* ===== verification/Ast.thy ===== *)
theory Ast
  imports Types String_Pool Float32 Diagnostics
begin

text \<open>
  The syntax tree: \<^verbatim>\<open>src/ast/ident.h\<close>, \<^verbatim>\<open>type_expr.h\<close>, \<^verbatim>\<open>expr.h\<close>, \<^verbatim>\<open>stmt.h\<close> and \<^verbatim>\<open>ast.h\<close> with their
  constructors.  A tree is a value: the parser never shares a node it changes later.  The two type
  parameters are what a name is - the parser's trees hold the index of an interned string - and what a
  span is, so that the datatype's own map function says what two trees agree on.  A \<^verbatim>\<open>GAB_LIST\<close> is a
  list, an array with its count is a list, and a pointer that may be NULL is an option.
\<close>

section \<open>Names and type expressions\<close>

datatype ('n, 'a) ast_ident = ASTIdent (id_name: 'n) (id_span: 'a)

definition ast_ident_create :: "string_pool \<Rightarrow> span \<Rightarrow> string \<Rightarrow> ((nat, span) ast_ident \<times> string_pool) option" where
  "ast_ident_create strings sp name =
     map_option (\<lambda>(i, strings'). (ASTIdent i sp, strings')) (string_from_ref strings name)"

datatype ('n, 'a) type_expr =
  TYPE_EXPR_NAME (te_qualifier: "('n, 'a) ast_ident option") (te_name: "('n, 'a) ast_ident")
| TYPE_EXPR_RAW (te_inner: "('n, 'a) type_expr")
| TYPE_EXPR_REF (te_inner: "('n, 'a) type_expr")
| TYPE_EXPR_CONST (te_constant: int32_t)
| TYPE_EXPR_APPLY (te_base: "('n, 'a) type_expr") (te_args: "('n, 'a) type_expr list")

definition type_expr_name :: "('n, 'a) ast_ident \<Rightarrow> ('n, 'a) type_expr" where
  "type_expr_name name = TYPE_EXPR_NAME None name"

definition type_expr_qualified :: "('n, 'a) ast_ident \<Rightarrow> ('n, 'a) ast_ident \<Rightarrow> ('n, 'a) type_expr" where
  "type_expr_qualified qualifier name = TYPE_EXPR_NAME (Some qualifier) name"

text \<open>The kind argument is one of the two constructors.\<close>

definition type_expr_indirect ::
  "(('n, 'a) type_expr \<Rightarrow> ('n, 'a) type_expr) \<Rightarrow> ('n, 'a) type_expr \<Rightarrow> ('n, 'a) type_expr" where
  "type_expr_indirect kind inner = kind inner"

definition type_expr_apply :: "('n, 'a) type_expr \<Rightarrow> ('n, 'a) type_expr" where
  "type_expr_apply base = TYPE_EXPR_APPLY base []"

definition type_expr_const :: "int32_t \<Rightarrow> ('n, 'a) type_expr" where
  "type_expr_const c = TYPE_EXPR_CONST c"

section \<open>Expressions\<close>

datatype 'n literal = LITERAL_INT int64_t | LITERAL_FLOAT float32 | LITERAL_BOOL bool | LITERAL_STRING 'n

fun literal_type_kind :: "'n literal \<Rightarrow> type_kind" where
  "literal_type_kind (LITERAL_FLOAT f) = TYPE_F32"
| "literal_type_kind (LITERAL_BOOL b) = TYPE_BOOL"
| "literal_type_kind (LITERAL_STRING s) = TYPE_STR"
| "literal_type_kind (LITERAL_INT i) = TYPE_I32"

datatype bin_op =
  BIN_OP_ADD | BIN_OP_SUB | BIN_OP_MUL | BIN_OP_DIV | BIN_OP_MOD | BIN_OP_LESS | BIN_OP_GREATER | BIN_OP_EQUAL
| BIN_OP_NEQUAL | BIN_OP_LEQUAL | BIN_OP_GEQUAL | BIN_OP_AND | BIN_OP_OR

datatype ('n, 'a) ast_expr =
  EXPR_LITERAL (ex_span: 'a) "'n literal"
| EXPR_BIN_OP (ex_span: 'a) "('n, 'a) ast_expr" bin_op "('n, 'a) ast_expr"
| EXPR_NAME (ex_span: 'a) "('n, 'a) ast_ident" "('n, 'a) type_expr option"
| EXPR_QUALIFIED (ex_span: 'a) "('n, 'a) ast_ident" "('n, 'a) ast_ident" "('n, 'a) type_expr option"
| EXPR_CALL (ex_span: 'a) "('n, 'a) ast_expr" "('n, 'a) ast_expr list"
| EXPR_FIELD (ex_span: 'a) "('n, 'a) ast_expr" "('n, 'a) ast_ident"
| EXPR_ADDR_OF (ex_span: 'a) "('n, 'a) ast_expr"
| EXPR_DEREF (ex_span: 'a) "('n, 'a) ast_expr"
| EXPR_NEG (ex_span: 'a) "('n, 'a) ast_expr"
| EXPR_NOT (ex_span: 'a) "('n, 'a) ast_expr"
| EXPR_CAST (ex_span: 'a) "('n, 'a) type_expr"
| EXPR_BUILTIN (ex_span: 'a) "('n, 'a) ast_ident" "('n, 'a) type_expr option"
| EXPR_INDEX (ex_span: 'a) "('n, 'a) ast_expr" "('n, 'a) ast_expr"
| EXPR_ARRAY_LIT (ex_span: 'a) "('n, 'a) ast_expr list"
| EXPR_STRUCT_LIT (ex_span: 'a) "('n, 'a) type_expr" "(('n, 'a) ast_ident \<times> ('n, 'a) ast_expr) list"

definition ast_literal_expr_create :: "'a \<Rightarrow> 'n literal \<Rightarrow> ('n, 'a) ast_expr" where
  "ast_literal_expr_create sp l = EXPR_LITERAL sp l"

definition ast_bin_op_expr_create :: "'a \<Rightarrow> ('n, 'a) ast_expr \<Rightarrow> bin_op \<Rightarrow> ('n, 'a) ast_expr \<Rightarrow> ('n, 'a) ast_expr" where
  "ast_bin_op_expr_create sp left op right = EXPR_BIN_OP sp left op right"

definition ast_name_expr_create :: "'a \<Rightarrow> ('n, 'a) ast_ident \<Rightarrow> ('n, 'a) ast_expr" where
  "ast_name_expr_create sp name = EXPR_NAME sp name None"

definition ast_qualified_expr_create ::
  "'a \<Rightarrow> ('n, 'a) ast_ident \<Rightarrow> ('n, 'a) ast_ident \<Rightarrow> ('n, 'a) type_expr option \<Rightarrow> ('n, 'a) ast_expr" where
  "ast_qualified_expr_create sp qualifier name owner = EXPR_QUALIFIED sp qualifier name owner"

definition ast_builtin_expr_create :: "'a \<Rightarrow> ('n, 'a) ast_ident \<Rightarrow> ('n, 'a) type_expr option \<Rightarrow> ('n, 'a) ast_expr" where
  "ast_builtin_expr_create sp name t = EXPR_BUILTIN sp name t"

definition ast_call_expr_create :: "'a \<Rightarrow> ('n, 'a) ast_expr \<Rightarrow> ('n, 'a) ast_expr list \<Rightarrow> ('n, 'a) ast_expr" where
  "ast_call_expr_create sp target args = EXPR_CALL sp target args"

definition ast_field_expr_create :: "'a \<Rightarrow> ('n, 'a) ast_expr \<Rightarrow> ('n, 'a) ast_ident \<Rightarrow> ('n, 'a) ast_expr" where
  "ast_field_expr_create sp target name = EXPR_FIELD sp target name"

definition ast_addr_of_expr_create :: "'a \<Rightarrow> ('n, 'a) ast_expr \<Rightarrow> ('n, 'a) ast_expr" where
  "ast_addr_of_expr_create sp target = EXPR_ADDR_OF sp target"

definition ast_deref_expr_create :: "'a \<Rightarrow> ('n, 'a) ast_expr \<Rightarrow> ('n, 'a) ast_expr" where
  "ast_deref_expr_create sp target = EXPR_DEREF sp target"

definition ast_neg_expr_create :: "'a \<Rightarrow> ('n, 'a) ast_expr \<Rightarrow> ('n, 'a) ast_expr" where
  "ast_neg_expr_create sp target = EXPR_NEG sp target"

definition ast_not_expr_create :: "'a \<Rightarrow> ('n, 'a) ast_expr \<Rightarrow> ('n, 'a) ast_expr" where
  "ast_not_expr_create sp target = EXPR_NOT sp target"

definition ast_cast_expr_create :: "'a \<Rightarrow> ('n, 'a) type_expr \<Rightarrow> ('n, 'a) ast_expr" where
  "ast_cast_expr_create sp t = EXPR_CAST sp t"

definition ast_array_lit_expr_create :: "'a \<Rightarrow> ('n, 'a) ast_expr list \<Rightarrow> ('n, 'a) ast_expr" where
  "ast_array_lit_expr_create sp elements = EXPR_ARRAY_LIT sp elements"

definition ast_struct_lit_expr_create ::
  "'a \<Rightarrow> ('n, 'a) type_expr \<Rightarrow> (('n, 'a) ast_ident \<times> ('n, 'a) ast_expr) list \<Rightarrow> ('n, 'a) ast_expr" where
  "ast_struct_lit_expr_create sp t inits = EXPR_STRUCT_LIT sp t inits"

definition ast_index_expr_create :: "'a \<Rightarrow> ('n, 'a) ast_expr \<Rightarrow> ('n, 'a) ast_expr \<Rightarrow> ('n, 'a) ast_expr" where
  "ast_index_expr_create sp target index = EXPR_INDEX sp target index"

lemmas ast_expr_creates =
  ast_literal_expr_create_def ast_bin_op_expr_create_def ast_name_expr_create_def ast_qualified_expr_create_def
  ast_builtin_expr_create_def ast_call_expr_create_def ast_field_expr_create_def ast_addr_of_expr_create_def
  ast_deref_expr_create_def ast_neg_expr_create_def ast_not_expr_create_def ast_cast_expr_create_def
  ast_array_lit_expr_create_def ast_struct_lit_expr_create_def ast_index_expr_create_def

section \<open>Statements\<close>

datatype ('n, 'a) ast_field = ASTField (fd_field_name: "('n, 'a) ast_ident") (fd_field_type: "('n, 'a) type_expr")

definition ast_field_create :: "('n, 'a) ast_ident \<Rightarrow> ('n, 'a) type_expr \<Rightarrow> ('n, 'a) ast_field" where
  "ast_field_create name t = ASTField name t"

text \<open>\<^verbatim>\<open>FuncSyntax\<close>: the bits a function's modifiers set.\<close>

definition FUNC_SYN_NONE :: "32 word" where "FUNC_SYN_NONE = 0"
definition FUNC_SYN_INTRINSIC :: "32 word" where "FUNC_SYN_INTRINSIC = 1"
definition FUNC_SYN_EXTERN :: "32 word" where "FUNC_SYN_EXTERN = 2"
definition FUNC_SYN_FOREIGN :: "32 word" where "FUNC_SYN_FOREIGN = 4"
definition FUNC_SYN_CALLER :: "32 word" where "FUNC_SYN_CALLER = 8"

text \<open>The parts of declarations; \<open>'s\<close> is the type of statements.  A type parameter stands with its bound,
  and there are at most \<^const>\<open>GAB_MAX_TYPE_PARAMS\<close> of them.\<close>

type_synonym ('n, 'a) type_params = "(('n, 'a) ast_ident \<times> ('n, 'a) type_expr option) list"

datatype ('n, 'a, 's) ast_func_decl =
  ASTFuncDecl (fc_name: "('n, 'a) ast_ident") (fc_owner: "('n, 'a) type_expr option")
    (fc_return_type: "('n, 'a) type_expr option") (fc_params: "('n, 'a) ast_field list") (fc_body: "'s option")
    (fc_type_params: "(('n, 'a) ast_ident \<times> ('n, 'a) type_expr option) list") (fc_syntax: "32 word")

datatype ('n, 'a) ast_struct_decl =
  ASTStructDecl (sd_name: "('n, 'a) ast_ident") (sd_fields: "('n, 'a) ast_field list")
    (sd_params: "('n, 'a) ast_ident list") (sd_intrinsic: bool)

datatype ('n, 'a, 's) ast_interface_decl =
  ASTInterfaceDecl (in_name: "('n, 'a) ast_ident") (in_members: "'s list") (in_params: "('n, 'a) ast_ident list")

datatype ('n, 'a, 's) ast_impl =
  ASTImplStmt (im_type: "('n, 'a) type_expr") (im_members: "'s list") (im_interface_name: "('n, 'a) ast_ident option")
    (im_interface_args: "('n, 'a) type_expr list")
    (im_params: "(('n, 'a) ast_ident \<times> ('n, 'a) type_expr option) list")

datatype ('n, 'a) ast_stmt =
  STMT_EXPR (st_span: 'a) "('n, 'a) ast_expr"
| STMT_VAR_DECL (st_span: 'a) "('n, 'a) ast_ident" "('n, 'a) type_expr option" "('n, 'a) ast_expr option"
| STMT_FUNC_DECL (st_span: 'a) "('n, 'a, ('n, 'a) ast_stmt) ast_func_decl"
| STMT_STRUCT_DECL (st_span: 'a) "('n, 'a) ast_struct_decl"
| STMT_IMPL (st_span: 'a) "('n, 'a, ('n, 'a) ast_stmt) ast_impl"
| STMT_INTERFACE_DECL (st_span: 'a) "('n, 'a, ('n, 'a) ast_stmt) ast_interface_decl"
| STMT_ASSIGN (st_span: 'a) "('n, 'a) ast_expr" "('n, 'a) ast_expr"
| STMT_COMPOUND_ASSIGN (st_span: 'a) "('n, 'a) ast_expr" bin_op "('n, 'a) ast_expr"
| STMT_BLOCK (st_span: 'a) "('n, 'a) ast_stmt list"
| STMT_IF (st_span: 'a) "('n, 'a) ast_expr" "('n, 'a) ast_stmt" "('n, 'a) ast_stmt option"
| STMT_FOR (st_span: 'a) "('n, 'a) ast_stmt option" "('n, 'a) ast_expr option" "('n, 'a) ast_stmt option" "('n, 'a) ast_stmt"
| STMT_JUMP (st_span: 'a) bool
| STMT_RETURN (st_span: 'a) "('n, 'a) ast_expr"

definition ast_expr_stmt_create :: "'a \<Rightarrow> ('n, 'a) ast_expr \<Rightarrow> ('n, 'a) ast_stmt" where
  "ast_expr_stmt_create sp e = STMT_EXPR sp e"

definition ast_var_decl_stmt_create ::
  "'a \<Rightarrow> ('n, 'a) ast_ident \<Rightarrow> ('n, 'a) type_expr option \<Rightarrow> ('n, 'a) ast_expr option \<Rightarrow> ('n, 'a) ast_stmt" where
  "ast_var_decl_stmt_create sp name t initializer = STMT_VAR_DECL sp name t initializer"

definition ast_func_decl_stmt_create ::
  "'a \<Rightarrow> ('n, 'a) ast_ident \<Rightarrow> ('n, 'a) type_expr option \<Rightarrow> ('n, 'a) ast_field list \<Rightarrow> ('n, 'a) ast_stmt option \<Rightarrow>
   ('n, 'a) ast_stmt" where
  "ast_func_decl_stmt_create sp name return_type params body =
     STMT_FUNC_DECL sp (ASTFuncDecl name None return_type params body [] FUNC_SYN_NONE)"

definition ast_struct_decl_stmt_create ::
  "'a \<Rightarrow> ('n, 'a) ast_ident \<Rightarrow> ('n, 'a) ast_ident list \<Rightarrow> ('n, 'a) ast_field list \<Rightarrow> bool \<Rightarrow> ('n, 'a) ast_stmt" where
  "ast_struct_decl_stmt_create sp name params members intrinsic =
     STMT_STRUCT_DECL sp (ASTStructDecl name members params intrinsic)"

definition ast_assign_stmt_create :: "'a \<Rightarrow> ('n, 'a) ast_expr \<Rightarrow> ('n, 'a) ast_expr \<Rightarrow> ('n, 'a) ast_stmt" where
  "ast_assign_stmt_create sp target e = STMT_ASSIGN sp target e"

definition ast_compound_assign_stmt_create ::
  "'a \<Rightarrow> ('n, 'a) ast_expr \<Rightarrow> bin_op \<Rightarrow> ('n, 'a) ast_expr \<Rightarrow> ('n, 'a) ast_stmt" where
  "ast_compound_assign_stmt_create sp target op e = STMT_COMPOUND_ASSIGN sp target op e"

definition ast_if_stmt_create ::
  "'a \<Rightarrow> ('n, 'a) ast_expr \<Rightarrow> ('n, 'a) ast_stmt \<Rightarrow> ('n, 'a) ast_stmt option \<Rightarrow> ('n, 'a) ast_stmt" where
  "ast_if_stmt_create sp condition then_block else_block = STMT_IF sp condition then_block else_block"

definition ast_for_stmt_create ::
  "'a \<Rightarrow> ('n, 'a) ast_stmt option \<Rightarrow> ('n, 'a) ast_expr option \<Rightarrow> ('n, 'a) ast_stmt option \<Rightarrow> ('n, 'a) ast_stmt \<Rightarrow> ('n, 'a) ast_stmt" where
  "ast_for_stmt_create sp init condition post body = STMT_FOR sp init condition post body"

definition ast_jump_stmt_create :: "'a \<Rightarrow> bool \<Rightarrow> ('n, 'a) ast_stmt" where
  "ast_jump_stmt_create sp is_break = STMT_JUMP sp is_break"

definition ast_block_stmt_create :: "'a \<Rightarrow> ('n, 'a) ast_stmt list \<Rightarrow> ('n, 'a) ast_stmt" where
  "ast_block_stmt_create sp stmts = STMT_BLOCK sp stmts"

definition ast_return_stmt_create :: "'a \<Rightarrow> ('n, 'a) ast_expr \<Rightarrow> ('n, 'a) ast_stmt" where
  "ast_return_stmt_create sp result = STMT_RETURN sp result"

text \<open>The constructor leaves the interface and the parameters of an implementation to its caller, as it does
  the parameters of an interface; here they are arguments.\<close>

definition ast_impl_stmt_create ::
  "'a \<Rightarrow> ('n, 'a) type_expr \<Rightarrow> ('n, 'a) ast_stmt list \<Rightarrow> ('n, 'a) ast_ident option \<Rightarrow> ('n, 'a) type_expr list \<Rightarrow>
   ('n, 'a) type_params \<Rightarrow> ('n, 'a) ast_stmt" where
  "ast_impl_stmt_create sp t members interface_name interface_args params =
     STMT_IMPL sp (ASTImplStmt t members interface_name interface_args params)"

definition ast_interface_decl_stmt_create ::
  "'a \<Rightarrow> ('n, 'a) ast_ident \<Rightarrow> ('n, 'a) ast_stmt list \<Rightarrow> ('n, 'a) ast_ident list \<Rightarrow> ('n, 'a) ast_stmt" where
  "ast_interface_decl_stmt_create sp name members params = STMT_INTERFACE_DECL sp (ASTInterfaceDecl name members params)"

section \<open>Files and modules\<close>

record ('n, 'a) ast_file =
  af_statements :: "('n, 'a) ast_stmt list"
  af_imports :: "('n, 'a) ast_ident list"
  af_module_name :: "('n, 'a) ast_ident option"

record ('n, 'a) ast_module =
  am_files :: "('n, 'a) ast_file list"
  am_name :: "('n, 'a) ast_ident option"

definition ast_file_create :: "('n, 'a) ast_file" where
  "ast_file_create = \<lparr>af_statements = [], af_imports = [], af_module_name = None\<rparr>"

definition ast_module_create :: "('n, 'a) ast_module" where
  "ast_module_create = \<lparr>am_files = [], am_name = None\<rparr>"

definition ast_file_add_statement :: "('n, 'a) ast_file \<Rightarrow> ('n, 'a) ast_stmt \<Rightarrow> ('n, 'a) ast_file" where
  "ast_file_add_statement f s = f\<lparr>af_statements := af_statements f @ [s]\<rparr>"

definition ast_module_add_file :: "('n, 'a) ast_module \<Rightarrow> ('n, 'a) ast_file \<Rightarrow> ('n, 'a) ast_module" where
  "ast_module_add_file m f = m\<lparr>am_files := am_files m @ [f]\<rparr>"

text \<open>The statements of the first file; a module without files is given an empty one.\<close>

definition ast_module_statements :: "('n, 'a) ast_module \<Rightarrow> ('n, 'a) ast_module \<times> ('n, 'a) ast_stmt list" where
  "ast_module_statements m =
     (let m' = (if am_files m = [] then ast_module_add_file m ast_file_create else m)
      in (m', af_statements (am_files m' ! 0)))"

end
