(* ===== verification/Parser.thy ===== *)
theory Parser
  imports Ast Lexer
begin

text \<open>
  The parser: \<^verbatim>\<open>src/syntax/parser.c\<close>.  A parsing function takes the parser and answers its result - \<open>None\<close>
  where the C function returns NULL or false - with the parser after it.  The lexer and the parser write
  to the same diagnostics and string pool, which the lexer's record holds.  The functions that call
  themselves or loop are given a number of steps; the answer \<open>None\<close> says that the steps did not
  suffice, or that the lexer did not return.  \<open>Parser_Ends\<close> bounds the steps a source needs.
\<close>

section \<open>The parser's state\<close>

datatype expr_context = EXPR_ANY | EXPR_NO_STRUCT_LIT

record parser =
  ps_lexer :: lexer
  ps_current :: token

type_synonym 'r parsed = "('r option \<times> parser) option"
type_synonym name = nat
type_synonym ident = "(nat, span) ast_ident"
type_synonym texpr = "(nat, span) type_expr"
type_synonym expr = "(nat, span) ast_expr"
type_synonym stmt = "(nat, span) ast_stmt"

abbreviation ps_type :: "parser \<Rightarrow> token_type" where
  "ps_type ps \<equiv> tok_type (ps_current ps)"

definition parsed :: "'r \<Rightarrow> parser \<Rightarrow> 'r parsed" where
  "parsed r ps = Some (Some r, ps)"

definition no_parse :: "parser \<Rightarrow> 'r parsed" where
  "no_parse ps = Some (None, ps)"

text \<open>Go on with a result, or return NULL as the call did.\<close>

definition then_parse :: "'q parsed \<Rightarrow> ('q \<Rightarrow> parser \<Rightarrow> 'r parsed) \<Rightarrow> 'r parsed" where
  "then_parse p k =
     (case p of None \<Rightarrow> None | Some (None, ps) \<Rightarrow> no_parse ps | Some (Some q, ps) \<Rightarrow> k q ps)"

definition parser_create :: "lexer \<Rightarrow> parser" where
  "parser_create lx =
     \<lparr>ps_lexer = lx,
      ps_current = \<lparr>tok_type = TOKEN_INVALID, tok_lexeme = [], tok_value = As_int 0, tok_line = 0, tok_column = 0\<rparr>\<rparr>"

definition parser_next_token :: "parser \<Rightarrow> parser option" where
  "parser_next_token ps = map_option (\<lambda>(t, lx). \<lparr>ps_lexer = lx, ps_current = t\<rparr>) (lexer_next (ps_lexer ps))"

definition parser_span :: "parser \<Rightarrow> span" where
  "parser_span ps = token_span (ps_current ps)"

definition parser_diag :: "diag_kind \<Rightarrow> span \<Rightarrow> string \<Rightarrow> parser \<Rightarrow> parser" where
  "parser_diag kind sp message ps = ps\<lparr>ps_lexer := lexer_error (ps_lexer ps) kind sp message\<rparr>"

definition parser_error :: "string \<Rightarrow> parser \<Rightarrow> parser" where
  "parser_error message ps = parser_diag GAB_ERR_SYNTAX (parser_span ps) message ps"

definition parser_error_found :: "string \<Rightarrow> parser \<Rightarrow> parser" where
  "parser_error_found message ps =
     parser_diag GAB_ERR_SYNTAX (parser_span ps) (message @ '', found '' @ token_description (ps_type ps)) ps"

definition parser_expect :: "token_type \<Rightarrow> string \<Rightarrow> parser \<Rightarrow> bool \<times> parser" where
  "parser_expect type message ps =
     (if ps_type ps \<noteq> type then (False, parser_error_found message ps) else (True, ps))"

text \<open>\<^verbatim>\<open>if (!parser_expect(..)) return NULL;\<close> before the rest.\<close>

definition expecting :: "token_type \<Rightarrow> string \<Rightarrow> parser \<Rightarrow> (parser \<Rightarrow> 'r parsed) \<Rightarrow> 'r parsed" where
  "expecting type message ps k =
     (case parser_expect type message ps of (True, ps') \<Rightarrow> k ps' | (False, ps') \<Rightarrow> no_parse ps')"

definition quoted :: "string \<Rightarrow> string" where
  "quoted s = [CHR 0x27] @ s @ [CHR 0x27]"

text \<open>\<^verbatim>\<open>ast_ident_create\<close> on the parser's pool.\<close>

definition parser_ident :: "span \<Rightarrow> string \<Rightarrow> parser \<Rightarrow> (ident \<times> parser) option" where
  "parser_ident sp name ps =
     do { (i, strings) \<leftarrow> ast_ident_create (lx_strings (ps_lexer ps)) sp name;
          Some (i, ps\<lparr>ps_lexer := (ps_lexer ps)\<lparr>lx_strings := strings\<rparr>\<rparr>) }"

text \<open>The identifier of the current token, and the token after it.\<close>

definition parser_take_ident :: "parser \<Rightarrow> (ident \<times> parser) option" where
  "parser_take_ident ps =
     do { (i, ps1) \<leftarrow> parser_ident (parser_span ps) (tok_lexeme (ps_current ps)) ps;
          ps2 \<leftarrow> parser_next_token ps1;
          Some (i, ps2) }"

fun token_int :: "token \<Rightarrow> int64_t" where
  "token_int t = (case tok_value t of As_int i \<Rightarrow> i | _ \<Rightarrow> 0)"

fun token_float :: "token \<Rightarrow> float32" where
  "token_float t = (case tok_value t of As_float f \<Rightarrow> f | _ \<Rightarrow> 0)"

fun token_string :: "token \<Rightarrow> nat" where
  "token_string t = (case tok_value t of As_string s \<Rightarrow> s | _ \<Rightarrow> 0)"

section \<open>Type expressions\<close>

fun parse_type_expr :: "nat \<Rightarrow> parser \<Rightarrow> texpr parsed"
  and parse_type_args :: "nat \<Rightarrow> parser \<Rightarrow> texpr list parsed"
  and parse_type_args_loop :: "nat \<Rightarrow> texpr list \<Rightarrow> parser \<Rightarrow> texpr list parsed"
where
  "parse_type_expr 0 ps = None"
| "parse_type_expr (Suc n) ps =
     (if ps_type ps = TOKEN_AMP \<or> ps_type ps = TOKEN_MUL \<or> ps_type ps = TOKEN_AND then
        let kind = (if ps_type ps = TOKEN_MUL then TYPE_EXPR_RAW else TYPE_EXPR_REF)
        in do { ps1 \<leftarrow> (if ps_type ps = TOKEN_AND then Some (ps\<lparr>ps_current := (ps_current ps)\<lparr>tok_type := TOKEN_AMP\<rparr>\<rparr>)
                       else parser_next_token ps);
                then_parse (parse_type_expr n ps1) (\<lambda>inner. parsed (type_expr_indirect kind inner)) }
      else
        expecting TOKEN_IDENT ''expected a type'' ps (\<lambda>ps.
          let name_span = parser_span ps; name = tok_lexeme (ps_current ps)
          in do {
            ps \<leftarrow> parser_next_token ps;
            then_parse
              (if ps_type ps = TOKEN_COLON_COLON then do {
                 (qualifier, ps) \<leftarrow> parser_ident name_span name ps;
                 ps \<leftarrow> parser_next_token ps;
                 expecting TOKEN_IDENT (''expected a type name after '' @ quoted ''::'') ps (\<lambda>ps.
                   let name = tok_lexeme (ps_current ps)
                   in do {
                     ps \<leftarrow> parser_next_token ps;
                     if ps_type ps = TOKEN_COLON_COLON then
                       no_parse (parser_error (''a qualified type name has one '' @ quoted ''::'' @ '', as '' @ quoted ''Module::Type'') ps)
                     else parsed (Some qualifier, name) ps }) }
               else parsed (None, name) ps)
              (\<lambda>(qualifier, name) ps. do {
                 (i, ps) \<leftarrow> parser_ident name_span name ps;
                 let base = TYPE_EXPR_NAME qualifier i
                 in if ps_type ps = TOKEN_LESS then
                      then_parse (parse_type_args n ps) (\<lambda>args. parsed (TYPE_EXPR_APPLY base args))
                    else parsed base ps }) }))"
| "parse_type_args 0 ps = None"
| "parse_type_args (Suc n) ps = do { ps \<leftarrow> parser_next_token ps; parse_type_args_loop n [] ps }"
| "parse_type_args_loop 0 args ps = None"
| "parse_type_args_loop (Suc n) args ps =
     then_parse
       (if ps_type ps = TOKEN_INT then
          let c = type_expr_const (ucast (token_int (ps_current ps)))
          in do { ps \<leftarrow> parser_next_token ps; parsed c ps }
        else parse_type_expr n ps)
       (\<lambda>argument ps.
          if ps_type ps \<noteq> TOKEN_COMMA then
            expecting TOKEN_GREATER (''expected '' @ quoted ''>'' @ '' after a type'' @ [CHR 0x27] @ ''s arguments'') ps
              (\<lambda>ps. do { ps \<leftarrow> parser_next_token ps; parsed (args @ [argument]) ps })
          else do { ps \<leftarrow> parser_next_token ps; parse_type_args_loop n (args @ [argument]) ps })"

text \<open>\<open>name : type\<close>, of a field or a parameter.\<close>

definition parse_field :: "nat \<Rightarrow> string \<Rightarrow> parser \<Rightarrow> (nat, span) ast_field parsed" where
  "parse_field n name_message ps =
     expecting TOKEN_IDENT name_message ps (\<lambda>ps. do {
       (name, ps) \<leftarrow> parser_take_ident ps;
       expecting TOKEN_COLON (''expected '' @ quoted '':'' @ '' after name'') ps (\<lambda>ps. do {
         ps \<leftarrow> parser_next_token ps;
         then_parse (parse_type_expr n ps) (\<lambda>type. parsed (ast_field_create name type)) }) })"

fun parse_type_params_loop :: "nat \<Rightarrow> (nat, span) type_params \<Rightarrow> string \<Rightarrow> parser \<Rightarrow> (nat, span) type_params parsed" where
  "parse_type_params_loop 0 out owner ps = None"
| "parse_type_params_loop (Suc n) out owner ps =
     expecting TOKEN_IDENT ''expected a type parameter name'' ps (\<lambda>ps.
       if length out = GAB_MAX_TYPE_PARAMS then
         no_parse (parser_error (owner @ '' takes at most '' @ show_nat GAB_MAX_TYPE_PARAMS @ '' type parameters'') ps)
       else do {
         (name, ps) \<leftarrow> parser_take_ident ps;
         then_parse
           (if ps_type ps = TOKEN_COLON then do {
              ps \<leftarrow> parser_next_token ps;
              then_parse (parse_type_expr n ps) (\<lambda>bound. parsed (Some bound)) }
            else parsed None ps)
           (\<lambda>bound ps.
              if ps_type ps \<noteq> TOKEN_COMMA then
                expecting TOKEN_GREATER (''expected '' @ quoted ''>'' @ '' after the type parameters '' @ owner @ '' takes'') ps
                  (\<lambda>ps. do { ps \<leftarrow> parser_next_token ps; parsed (out @ [(name, bound)]) ps })
              else do { ps \<leftarrow> parser_next_token ps; parse_type_params_loop n (out @ [(name, bound)]) owner ps }) })"

definition parse_type_params :: "nat \<Rightarrow> string \<Rightarrow> parser \<Rightarrow> (nat, span) type_params parsed" where
  "parse_type_params n owner ps =
     (if ps_type ps \<noteq> TOKEN_LESS then parsed [] ps
      else do { ps \<leftarrow> parser_next_token ps; parse_type_params_loop n [] owner ps })"

section \<open>Looking ahead\<close>

text \<open>\<^verbatim>\<open>*parser->lexer = saved_lexer\<close>: the diagnostics and the pool are reached through pointers and keep what
  the look ahead did to them.\<close>

definition parser_restore :: "parser \<Rightarrow> parser \<Rightarrow> parser" where
  "parser_restore saved ps =
     saved\<lparr>ps_lexer := (ps_lexer saved)\<lparr>lx_diagnostics := lx_diagnostics (ps_lexer ps), lx_strings := lx_strings (ps_lexer ps)\<rparr>\<rparr>"

fun scan_type_args_loop :: "nat \<Rightarrow> nat \<Rightarrow> token_type \<Rightarrow> parser \<Rightarrow> (bool \<times> parser) option" where
  "scan_type_args_loop 0 depth after ps = None"
| "scan_type_args_loop (Suc n) depth after ps =
     (if depth = 0 then Some (ps_type ps = after, ps)
      else if ps_type ps = TOKEN_LESS then do { ps \<leftarrow> parser_next_token ps; scan_type_args_loop n (depth + 1) after ps }
      else if ps_type ps = TOKEN_GREATER then do { ps \<leftarrow> parser_next_token ps; scan_type_args_loop n (depth - 1) after ps }
      else if ps_type ps \<in> set [TOKEN_IDENT, TOKEN_COMMA, TOKEN_AMP, TOKEN_MUL, TOKEN_LBRACKET, TOKEN_RBRACKET, TOKEN_SEMICOLON, TOKEN_INT]
        then do { ps \<leftarrow> parser_next_token ps; scan_type_args_loop n depth after ps }
      else Some (False, ps))"

definition parser_scan_type_args :: "nat \<Rightarrow> token_type \<Rightarrow> parser \<Rightarrow> (bool \<times> parser) option" where
  "parser_scan_type_args n after ps = do { ps \<leftarrow> parser_next_token ps; scan_type_args_loop n 1 after ps }"

definition parser_type_args_close_with :: "nat \<Rightarrow> token_type \<Rightarrow> parser \<Rightarrow> (bool \<times> parser) option" where
  "parser_type_args_close_with n after ps =
     do { (ok, ps') \<leftarrow> parser_scan_type_args n after ps; Some (ok, parser_restore ps ps') }"

definition parser_star_precedes_a_cast :: "nat \<Rightarrow> parser \<Rightarrow> (bool \<times> parser) option" where
  "parser_star_precedes_a_cast n ps =
     do { ps1 \<leftarrow> parser_next_token ps;
          (ok, ps2) \<leftarrow>
            (if ps_type ps1 = TOKEN_IDENT then do {
               ps2 \<leftarrow> parser_next_token ps1;
               if ps_type ps2 = TOKEN_LESS then parser_scan_type_args n TOKEN_LPAREN ps2
               else Some (ps_type ps2 = TOKEN_LPAREN, ps2) }
             else Some (False, ps1));
          Some (ok, parser_restore ps ps2) }"

definition parser_type_args_precede_a_brace :: "nat \<Rightarrow> parser \<Rightarrow> (bool \<times> parser) option" where
  "parser_type_args_precede_a_brace n ps = parser_type_args_close_with n TOKEN_LBRACE ps"

definition parser_type_args_precede_colons :: "nat \<Rightarrow> parser \<Rightarrow> (bool \<times> parser) option" where
  "parser_type_args_precede_colons n ps = parser_type_args_close_with n TOKEN_COLON_COLON ps"

definition parser_type_args_precede_a_call :: "nat \<Rightarrow> parser \<Rightarrow> (bool \<times> parser) option" where
  "parser_type_args_precede_a_call n ps = parser_type_args_close_with n TOKEN_LPAREN ps"

section \<open>Expressions\<close>

fun get_precedence :: "token_type \<Rightarrow> nat" where
  "get_precedence type =
     (if type \<in> {TOKEN_AND, TOKEN_OR} then 1
      else if type \<in> {TOKEN_EQUAL, TOKEN_NEQUAL} then 2
      else if type \<in> {TOKEN_LESS, TOKEN_GREATER, TOKEN_LEQUAL, TOKEN_GEQUAL} then 3
      else if type \<in> {TOKEN_PLUS, TOKEN_MINUS} then 5
      else if type \<in> {TOKEN_MUL, TOKEN_DIV, TOKEN_MOD} then 6
      else 0)"

text \<open>Any other token is an assertion failure.\<close>

fun parse_bin_op :: "token_type \<Rightarrow> bin_op option" where
  "parse_bin_op TOKEN_EQUAL = Some BIN_OP_EQUAL"
| "parse_bin_op TOKEN_NEQUAL = Some BIN_OP_NEQUAL"
| "parse_bin_op TOKEN_LESS = Some BIN_OP_LESS"
| "parse_bin_op TOKEN_GREATER = Some BIN_OP_GREATER"
| "parse_bin_op TOKEN_LEQUAL = Some BIN_OP_LEQUAL"
| "parse_bin_op TOKEN_GEQUAL = Some BIN_OP_GEQUAL"
| "parse_bin_op TOKEN_PLUS = Some BIN_OP_ADD"
| "parse_bin_op TOKEN_MINUS = Some BIN_OP_SUB"
| "parse_bin_op TOKEN_MUL = Some BIN_OP_MUL"
| "parse_bin_op TOKEN_DIV = Some BIN_OP_DIV"
| "parse_bin_op TOKEN_MOD = Some BIN_OP_MOD"
| "parse_bin_op TOKEN_AND = Some BIN_OP_AND"
| "parse_bin_op TOKEN_OR = Some BIN_OP_OR"
| "parse_bin_op _ = None"

fun struct_lit_type_expr :: "expr \<Rightarrow> texpr option" where
  "struct_lit_type_expr (EXPR_QUALIFIED sp qualifier name owner) = Some (type_expr_qualified qualifier name)"
| "struct_lit_type_expr (EXPR_NAME sp name owner) = Some (type_expr_name name)"
| "struct_lit_type_expr _ = None"

fun expr_is_a_name :: "expr \<Rightarrow> bool" where
  "expr_is_a_name (EXPR_NAME sp name owner) = True"
| "expr_is_a_name (EXPR_QUALIFIED sp qualifier name owner) = True"
| "expr_is_a_name _ = False"

definition starts_struct_lit :: "nat \<Rightarrow> expr \<Rightarrow> expr_context \<Rightarrow> parser \<Rightarrow> (bool \<times> parser) option" where
  "starts_struct_lit n expr ctx ps =
     (if ctx \<noteq> EXPR_ANY \<or> \<not> expr_is_a_name expr then Some (False, ps)
      else if ps_type ps = TOKEN_LBRACE then Some (True, ps)
      else parser_type_args_precede_a_brace n ps)"

definition parse_type_args_for :: "nat \<Rightarrow> ident \<Rightarrow> parser \<Rightarrow> texpr parsed" where
  "parse_type_args_for n name ps =
     then_parse (parse_type_args n ps) (\<lambda>args. parsed (TYPE_EXPR_APPLY (type_expr_name name) args))"

text \<open>A token that is a literal by itself.\<close>

fun token_literal :: "token \<Rightarrow> nat literal option" where
  "token_literal t =
     (if tok_type t = TOKEN_INT then Some (LITERAL_INT (token_int t))
      else if tok_type t = TOKEN_FLOAT then Some (LITERAL_FLOAT (token_float t))
      else if tok_type t = TOKEN_STRING then Some (LITERAL_STRING (token_string t))
      else if tok_type t = TOKEN_TRUE then Some (LITERAL_BOOL True)
      else if tok_type t = TOKEN_FALSE then Some (LITERAL_BOOL False)
      else None)"

definition parse_builtin :: "nat \<Rightarrow> parser \<Rightarrow> expr parsed" where
  "parse_builtin n ps =
     (let sp = parser_span ps; name = tok_lexeme (ps_current ps)
      in do {
        ps \<leftarrow> parser_next_token ps;
        then_parse
          (if ps_type ps = TOKEN_LESS then do {
             (i, ps) \<leftarrow> parser_ident sp name ps;
             then_parse (parse_type_args_for n i ps) (\<lambda>t. parsed (Some t)) }
           else parsed None ps)
          (\<lambda>type_expr ps. do {
             (i, ps) \<leftarrow> parser_ident sp name ps;
             parsed (ast_builtin_expr_create sp i type_expr) ps }) })"

text \<open>The arguments of the type a name belongs to, where what follows \<open><\<close> closes before \<open>::\<close> or a call.\<close>

definition parse_owner :: "nat \<Rightarrow> span \<Rightarrow> string \<Rightarrow> parser \<Rightarrow> texpr option parsed" where
  "parse_owner n sp lexeme ps =
     (if ps_type ps \<noteq> TOKEN_LESS then parsed None ps
      else do {
        (colons, ps) \<leftarrow> parser_type_args_precede_colons n ps;
        (owned, ps) \<leftarrow> (if colons then Some (True, ps) else parser_type_args_precede_a_call n ps);
        if owned then do {
          (i, ps) \<leftarrow> parser_ident sp lexeme ps;
          then_parse (parse_type_args_for n i ps) (\<lambda>t. parsed (Some t)) }
        else parsed None ps })"

definition parse_name :: "nat \<Rightarrow> parser \<Rightarrow> expr parsed" where
  "parse_name n ps =
     (let sp = parser_span ps; lexeme = tok_lexeme (ps_current ps)
      in do {
        ps \<leftarrow> parser_next_token ps;
        then_parse (parse_owner n sp lexeme ps) (\<lambda>owner ps.
          if ps_type ps = TOKEN_COLON_COLON then do {
            (qualifier, ps) \<leftarrow> parser_ident sp lexeme ps;
            ps \<leftarrow> parser_next_token ps;
            expecting TOKEN_IDENT (''expected a name after '' @ quoted ''::'') ps (\<lambda>ps. do {
              (member, ps) \<leftarrow> parser_take_ident ps;
              if ps_type ps = TOKEN_COLON_COLON then
                no_parse (parser_error (''a qualified name has one '' @ quoted ''::'' @ '', as '' @ quoted ''Module::name'') ps)
              else parsed (ast_qualified_expr_create sp qualifier member owner) ps }) }
          else do {
            (name, ps) \<leftarrow> parser_ident sp lexeme ps;
            parsed (EXPR_NAME sp name owner) ps }) })"

text \<open>The functions below call each other through \<^verbatim>\<open>parse_precedence\<close>, which they take as the argument \<open>ex\<close>;
  it is tied to itself in \<open>parse_precedence\<close>.\<close>

type_synonym expr_parser = "nat \<Rightarrow> expr_context \<Rightarrow> parser \<Rightarrow> expr parsed"

fun parse_elements :: "nat \<Rightarrow> expr_parser \<Rightarrow> expr list \<Rightarrow> parser \<Rightarrow> expr list parsed" where
  "parse_elements 0 ex elements ps = None"
| "parse_elements (Suc n) ex elements ps =
     (if ps_type ps = TOKEN_RBRACKET then parsed elements ps
      else if ps_type ps = TOKEN_EOF then no_parse (parser_error (''expected '' @ quoted '']'' @ '' to close the elements'') ps)
      else then_parse (ex 0 EXPR_ANY ps) (\<lambda>element ps.
        if ps_type ps \<noteq> TOKEN_COMMA then parsed (elements @ [element]) ps
        else do { ps \<leftarrow> parser_next_token ps; parse_elements n ex (elements @ [element]) ps }))"

fun parse_call_args_loop :: "nat \<Rightarrow> expr_parser \<Rightarrow> expr list \<Rightarrow> parser \<Rightarrow> expr list parsed" where
  "parse_call_args_loop 0 ex args ps = None"
| "parse_call_args_loop (Suc n) ex args ps =
     (if ps_type ps = TOKEN_RPAREN then do { ps \<leftarrow> parser_next_token ps; parsed args ps }
      else if ps_type ps = TOKEN_EOF then no_parse (parser_error (''expected '' @ quoted '')'' @ '' to close the argument list'') ps)
      else then_parse (ex 0 EXPR_ANY ps) (\<lambda>arg ps.
        if ps_type ps \<noteq> TOKEN_COMMA \<and> ps_type ps \<noteq> TOKEN_RPAREN then
          no_parse (parser_error_found (''expected '' @ quoted '','' @ '' or '' @ quoted '')'' @ '' after argument'') ps)
        else do {
          ps \<leftarrow> (if ps_type ps = TOKEN_COMMA then parser_next_token ps else Some ps);
          parse_call_args_loop n ex (args @ [arg]) ps }))"

definition parse_call_args :: "nat \<Rightarrow> expr_parser \<Rightarrow> parser \<Rightarrow> expr list parsed" where
  "parse_call_args n ex ps = do { ps \<leftarrow> parser_next_token ps; parse_call_args_loop n ex [] ps }"

fun parse_field_inits :: "nat \<Rightarrow> expr_parser \<Rightarrow> (ident \<times> expr) list \<Rightarrow> parser \<Rightarrow> (ident \<times> expr) list parsed" where
  "parse_field_inits 0 ex inits ps = None"
| "parse_field_inits (Suc n) ex inits ps =
     (if ps_type ps = TOKEN_RBRACE then parsed inits ps
      else expecting TOKEN_IDENT ''expected a field name'' ps (\<lambda>ps. do {
        (field_name, ps) \<leftarrow> parser_take_ident ps;
        expecting TOKEN_COLON (''expected '' @ quoted '':'' @ '' after a field name'') ps (\<lambda>ps. do {
          ps \<leftarrow> parser_next_token ps;
          then_parse (ex 0 EXPR_ANY ps) (\<lambda>expr ps.
            if ps_type ps \<noteq> TOKEN_COMMA then
              expecting TOKEN_RBRACE (''expected '' @ quoted ''}'' @ '' or '' @ quoted '','' @ '' after a field value'') ps
                (parsed (inits @ [(field_name, expr)]))
            else do { ps \<leftarrow> parser_next_token ps; parse_field_inits n ex (inits @ [(field_name, expr)]) ps }) }) }))"

definition parse_struct_lit_expr :: "nat \<Rightarrow> expr_parser \<Rightarrow> expr \<Rightarrow> parser \<Rightarrow> expr parsed" where
  "parse_struct_lit_expr n ex target ps =
     do { base \<leftarrow> struct_lit_type_expr target;
          then_parse
            (if ps_type ps = TOKEN_LESS then then_parse (parse_type_args n ps) (\<lambda>args. parsed (TYPE_EXPR_APPLY base args))
             else parsed base ps)
            (\<lambda>type_expr ps.
               expecting TOKEN_LBRACE (''expected '' @ quoted ''{'' @ '' after a struct'' @ [CHR 0x27] @ ''s name'') ps (\<lambda>ps. do {
                 ps \<leftarrow> parser_next_token ps;
                 then_parse (parse_field_inits n ex [] ps) (\<lambda>inits ps. do {
                   ps \<leftarrow> parser_next_token ps;
                   parsed (ast_struct_lit_expr_create (ex_span target) type_expr inits) ps }) })) }"

definition parse_call_expr :: "nat \<Rightarrow> expr_parser \<Rightarrow> expr \<Rightarrow> parser \<Rightarrow> expr parsed" where
  "parse_call_expr n ex target ps =
     then_parse (parse_call_args n ex ps) (\<lambda>args. parsed (ast_call_expr_create (ex_span target) target args))"

definition parse_method_call_expr :: "nat \<Rightarrow> expr_parser \<Rightarrow> expr \<Rightarrow> ident \<Rightarrow> span \<Rightarrow> parser \<Rightarrow> expr parsed" where
  "parse_method_call_expr n ex receiver name sp ps =
     then_parse (parse_call_args n ex ps) (\<lambda>args.
       parsed (ast_call_expr_create sp (ast_field_expr_create sp receiver name) args))"

definition parse_index_expr :: "expr_parser \<Rightarrow> expr \<Rightarrow> parser \<Rightarrow> expr parsed" where
  "parse_index_expr ex target ps =
     (let sp = parser_span ps
      in do {
        ps \<leftarrow> parser_next_token ps;
        then_parse (ex 0 EXPR_ANY ps) (\<lambda>index ps.
          expecting TOKEN_RBRACKET (''expected '' @ quoted '']'' @ '' after an index'') ps (\<lambda>ps. do {
            ps \<leftarrow> parser_next_token ps;
            parsed (ast_index_expr_create sp target index) ps })) })"

definition parse_field_expr :: "nat \<Rightarrow> expr_parser \<Rightarrow> expr \<Rightarrow> parser \<Rightarrow> expr parsed" where
  "parse_field_expr n ex target ps =
     (let sp = parser_span ps
      in do {
        ps \<leftarrow> parser_next_token ps;
        expecting TOKEN_IDENT (''expected a field name after '' @ quoted ''.'') ps (\<lambda>ps. do {
          (name, ps) \<leftarrow> parser_take_ident ps;
          if ps_type ps = TOKEN_LPAREN then parse_method_call_expr n ex target name sp ps
          else parsed (ast_field_expr_create sp target name) ps }) })"

fun parse_postfix :: "nat \<Rightarrow> expr_parser \<Rightarrow> expr \<Rightarrow> expr_context \<Rightarrow> parser \<Rightarrow> expr parsed" where
  "parse_postfix 0 ex expr ctx ps = None"
| "parse_postfix (Suc n) ex expr ctx ps =
     (let again = (\<lambda>p. then_parse p (\<lambda>expr ps. parse_postfix n ex expr ctx ps))
      in if ps_type ps = TOKEN_LPAREN then again (parse_call_expr n ex expr ps)
         else if ps_type ps = TOKEN_LBRACKET then again (parse_index_expr ex expr ps)
         else if ps_type ps = TOKEN_DOT then again (parse_field_expr n ex expr ps)
         else if ps_type ps = TOKEN_LBRACE \<or> ps_type ps = TOKEN_LESS then do {
           (starts, ps) \<leftarrow> starts_struct_lit n expr ctx ps;
           if \<not> starts then parsed expr ps else again (parse_struct_lit_expr n ex expr ps) }
         else parsed expr ps)"

definition parse_array_lit :: "nat \<Rightarrow> expr_parser \<Rightarrow> parser \<Rightarrow> expr parsed" where
  "parse_array_lit n ex ps =
     (let sp = parser_span ps
      in do {
        ps \<leftarrow> parser_next_token ps;
        then_parse (parse_elements n ex [] ps) (\<lambda>elements ps.
          expecting TOKEN_RBRACKET (''expected '' @ quoted '']'' @ '' after an array'' @ [CHR 0x27] @ ''s elements'') ps (\<lambda>ps. do {
            ps \<leftarrow> parser_next_token ps;
            parsed (ast_array_lit_expr_create sp elements) ps })) })"

definition parse_parenthesised :: "expr_parser \<Rightarrow> parser \<Rightarrow> expr parsed" where
  "parse_parenthesised ex ps =
     do { ps \<leftarrow> parser_next_token ps;
          then_parse (ex 0 EXPR_ANY ps) (\<lambda>node ps.
            expecting TOKEN_RPAREN (''expected '' @ quoted '')'') ps (\<lambda>ps. do {
              ps \<leftarrow> parser_next_token ps;
              parsed node ps })) }"

definition parse_primary :: "nat \<Rightarrow> expr_parser \<Rightarrow> parser \<Rightarrow> expr parsed" where
  "parse_primary n ex ps =
     (if ps_type ps = TOKEN_LBRACKET then parse_array_lit n ex ps
      else if ps_type ps = TOKEN_BUILTIN then parse_builtin n ps
      else if ps_type ps = TOKEN_IDENT then parse_name n ps
      else if ps_type ps = TOKEN_LPAREN then parse_parenthesised ex ps
      else case token_literal (ps_current ps) of
        Some l \<Rightarrow>
          (let sp = parser_span ps
           in do { ps \<leftarrow> parser_next_token ps; parsed (ast_literal_expr_create sp l) ps })
      | None \<Rightarrow> no_parse (parser_error_found ''expected an expression'' ps))"

definition is_prefix :: "token_type \<Rightarrow> bool" where
  "is_prefix type \<longleftrightarrow> type = TOKEN_MUL \<or> type = TOKEN_MINUS \<or> type = TOKEN_NOT"

definition prefix_expr_create :: "token_type \<Rightarrow> span \<Rightarrow> expr \<Rightarrow> expr" where
  "prefix_expr_create prefix sp target =
     (if prefix = TOKEN_MUL then ast_deref_expr_create sp target
      else if prefix = TOKEN_NOT then ast_not_expr_create sp target
      else ast_neg_expr_create sp target)"

definition parse_cast :: "nat \<Rightarrow> expr_parser \<Rightarrow> expr_context \<Rightarrow> parser \<Rightarrow> expr parsed" where
  "parse_cast n ex ctx ps =
     (let sp = parser_span ps
      in then_parse (parse_type_expr n ps) (\<lambda>type_expr ps.
           then_parse (parse_call_args n ex ps) (\<lambda>args.
             parse_postfix n ex (ast_call_expr_create sp (ast_cast_expr_create sp type_expr) args) ctx)))"

fun parse_unary :: "nat \<Rightarrow> expr_parser \<Rightarrow> expr_context \<Rightarrow> parser \<Rightarrow> expr parsed" where
  "parse_unary 0 ex ctx ps = None"
| "parse_unary (Suc n) ex ctx ps =
     do { (is_cast, ps) \<leftarrow> (if ps_type ps = TOKEN_MUL then parser_star_precedes_a_cast n ps else Some (False, ps));
          if is_cast then parse_cast n ex ctx ps
          else if is_prefix (ps_type ps) then do {
            ps1 \<leftarrow> parser_next_token ps;
            then_parse (parse_unary n ex ctx ps1) (\<lambda>target.
              parsed (prefix_expr_create (ps_type ps) (parser_span ps) target)) }
          else then_parse (parse_primary n ex ps) (\<lambda>expr. parse_postfix n ex expr ctx) }"

fun parse_precedence_loop :: "nat \<Rightarrow> expr_parser \<Rightarrow> nat \<Rightarrow> expr_context \<Rightarrow> expr \<Rightarrow> parser \<Rightarrow> expr parsed" where
  "parse_precedence_loop 0 ex min_precedence ctx lhs ps = None"
| "parse_precedence_loop (Suc n) ex min_precedence ctx lhs ps =
     (let token = ps_current ps; precedence = get_precedence (tok_type token)
      in if precedence = 0 \<or> precedence < min_precedence then parsed lhs ps
         else do {
           ps \<leftarrow> parser_next_token ps;
           op \<leftarrow> parse_bin_op (tok_type token);
           then_parse (ex (precedence + 1) ctx ps) (\<lambda>rhs ps.
             parse_precedence_loop n ex min_precedence ctx (ast_bin_op_expr_create (token_span token) lhs op rhs) ps) })"

fun parse_precedence :: "nat \<Rightarrow> nat \<Rightarrow> expr_context \<Rightarrow> parser \<Rightarrow> expr parsed" where
  "parse_precedence 0 min_precedence ctx ps = None"
| "parse_precedence (Suc n) min_precedence ctx ps =
     then_parse (parse_unary n (parse_precedence n) ctx ps) (\<lambda>lhs.
       parse_precedence_loop n (parse_precedence n) min_precedence ctx lhs)"

definition parse_expression :: "nat \<Rightarrow> expr_context \<Rightarrow> parser \<Rightarrow> expr parsed" where
  "parse_expression n ctx ps = parse_precedence n 0 ctx ps"

end
