(* ===== verification/Parser_Stmts.thy ===== *)
theory Parser_Stmts
  imports Parser
begin

text \<open>
  The parser's declarations, statements and files: the rest of \<^verbatim>\<open>src/syntax/parser.c\<close>.  Everything that can
  hold a block takes the block parser as the argument \<open>blk\<close>, which \<open>parse_block_stmt\<close> ties to itself.
\<close>

section \<open>Recovering\<close>

definition starts_statement :: "token_type \<Rightarrow> bool" where
  "starts_statement type \<longleftrightarrow>
     type \<in> set [TOKEN_LET, TOKEN_FUNC, TOKEN_EXTERN, TOKEN_INTRINSIC, TOKEN_CALLER, TOKEN_STRUCT, TOKEN_IMPL,
       TOKEN_MODULE, TOKEN_IF, TOKEN_FOR, TOKEN_BREAK, TOKEN_CONTINUE, TOKEN_RETURN]"

fun parser_synchronize :: "nat \<Rightarrow> parser \<Rightarrow> parser option" where
  "parser_synchronize 0 ps = None"
| "parser_synchronize (Suc n) ps =
     (if ps_type ps = TOKEN_EOF then Some ps
      else if ps_type ps = TOKEN_SEMICOLON then parser_next_token ps
      else if ps_type ps = TOKEN_RBRACE \<or> starts_statement (ps_type ps) then Some ps
      else do { ps \<leftarrow> parser_next_token ps; parser_synchronize n ps })"

section \<open>Simple statements\<close>

fun stmt_needs_terminator :: "stmt \<Rightarrow> bool" where
  "stmt_needs_terminator (STMT_IF sp c t e) = False"
| "stmt_needs_terminator (STMT_FOR sp i c p b) = False"
| "stmt_needs_terminator (STMT_BLOCK sp ss) = False"
| "stmt_needs_terminator (STMT_STRUCT_DECL sp d) = False"
| "stmt_needs_terminator (STMT_IMPL sp d) = False"
| "stmt_needs_terminator (STMT_INTERFACE_DECL sp d) = False"
| "stmt_needs_terminator (STMT_FUNC_DECL sp d) = (fc_body d = None)"
| "stmt_needs_terminator _ = True"

text \<open>What \<^verbatim>\<open>parse_statement\<close> and \<^verbatim>\<open>parse_decl_statement\<close> do with the statement they have parsed.\<close>

definition terminated :: "stmt \<Rightarrow> parser \<Rightarrow> stmt parsed" where
  "terminated s ps =
     (if \<not> stmt_needs_terminator s then parsed s ps
      else expecting TOKEN_SEMICOLON (''expected '' @ quoted '';'') ps (\<lambda>ps. do {
        ps \<leftarrow> parser_next_token ps;
        parsed s ps }))"

definition parse_var_decl_stmt :: "nat \<Rightarrow> expr_context \<Rightarrow> parser \<Rightarrow> stmt parsed" where
  "parse_var_decl_stmt n ctx ps =
     (let sp = parser_span ps
      in do {
        ps \<leftarrow> parser_next_token ps;
        expecting TOKEN_IDENT (''expected a variable name after '' @ quoted ''let'') ps (\<lambda>ps. do {
          (name, ps) \<leftarrow> parser_take_ident ps;
          then_parse
            (if ps_type ps = TOKEN_COLON then do {
               ps \<leftarrow> parser_next_token ps;
               then_parse (parse_type_expr n ps) (\<lambda>type. parsed (Some type)) }
             else parsed None ps)
            (\<lambda>type ps.
               if ps_type ps = TOKEN_SEMICOLON then
                 (if type = None then no_parse (parser_error ''expected a type or an initializer'' ps)
                  else parsed (ast_var_decl_stmt_create sp name type None) ps)
               else expecting TOKEN_ASSIGN (''expected '' @ quoted '';'' @ '' or '' @ quoted ''='') ps (\<lambda>ps. do {
                 ps \<leftarrow> parser_next_token ps;
                 then_parse (parse_expression n ctx ps) (\<lambda>initializer.
                   parsed (ast_var_decl_stmt_create sp name type (Some initializer))) })) }) })"

fun compound_assign_op :: "token_type \<Rightarrow> bin_op option" where
  "compound_assign_op TOKEN_PLUS_EQ = Some BIN_OP_ADD"
| "compound_assign_op TOKEN_MINUS_EQ = Some BIN_OP_SUB"
| "compound_assign_op TOKEN_MUL_EQ = Some BIN_OP_MUL"
| "compound_assign_op TOKEN_DIV_EQ = Some BIN_OP_DIV"
| "compound_assign_op TOKEN_MOD_EQ = Some BIN_OP_MOD"
| "compound_assign_op _ = None"

fun expr_is_assignable :: "expr \<Rightarrow> bool" where
  "expr_is_assignable (EXPR_NAME sp name owner) = True"
| "expr_is_assignable (EXPR_FIELD sp target name) = True"
| "expr_is_assignable (EXPR_DEREF sp target) = True"
| "expr_is_assignable (EXPR_INDEX sp target index) = True"
| "expr_is_assignable _ = False"

definition parse_expr_stmt :: "nat \<Rightarrow> expr_context \<Rightarrow> parser \<Rightarrow> stmt parsed" where
  "parse_expr_stmt n ctx ps =
     (let sp = parser_span ps
      in then_parse (parse_expression n ctx ps) (\<lambda>expr ps.
           let compound = compound_assign_op (ps_type ps)
           in if ps_type ps \<noteq> TOKEN_ASSIGN \<and> compound = None then parsed (ast_expr_stmt_create sp expr) ps
              else if \<not> expr_is_assignable expr then no_parse (parser_error ''expression is not assignable'' ps)
              else do {
                ps \<leftarrow> parser_next_token ps;
                then_parse (parse_expression n ctx ps) (\<lambda>assigned.
                  parsed (case compound of
                    Some op \<Rightarrow> ast_compound_assign_stmt_create sp expr op assigned
                  | None \<Rightarrow> ast_assign_stmt_create sp expr assigned)) }))"

definition parse_jump_stmt :: "parser \<Rightarrow> stmt parsed" where
  "parse_jump_stmt ps =
     do { ps1 \<leftarrow> parser_next_token ps;
          parsed (ast_jump_stmt_create (parser_span ps) (ps_type ps = TOKEN_BREAK)) ps1 }"

definition parse_return_stmt :: "nat \<Rightarrow> parser \<Rightarrow> stmt parsed" where
  "parse_return_stmt n ps =
     do { ps1 \<leftarrow> parser_next_token ps;
          then_parse (parse_expression n EXPR_ANY ps1) (\<lambda>result. parsed (ast_return_stmt_create (parser_span ps) result)) }"

section \<open>Statements with blocks\<close>

type_synonym block_parser = "parser \<Rightarrow> stmt parsed"

definition parse_if_stmt :: "nat \<Rightarrow> block_parser \<Rightarrow> parser \<Rightarrow> stmt parsed" where
  "parse_if_stmt n blk ps =
     (let sp = parser_span ps
      in do {
        ps \<leftarrow> parser_next_token ps;
        then_parse (parse_expression n EXPR_NO_STRUCT_LIT ps) (\<lambda>condition ps.
          then_parse (blk ps) (\<lambda>then_block ps.
            if ps_type ps \<noteq> TOKEN_ELSE then parsed (ast_if_stmt_create sp condition then_block None) ps
            else do {
              ps \<leftarrow> parser_next_token ps;
              then_parse (blk ps) (\<lambda>else_block. parsed (ast_if_stmt_create sp condition then_block (Some else_block))) })) })"

text \<open>The clause is missing where the terminator stands; that is no failure of the call.\<close>

definition parse_for_clause :: "nat \<Rightarrow> token_type \<Rightarrow> parser \<Rightarrow> stmt parsed" where
  "parse_for_clause n terminator ps =
     (if ps_type ps = terminator then no_parse ps
      else if ps_type ps = TOKEN_LET then parse_var_decl_stmt n EXPR_NO_STRUCT_LIT ps
      else parse_expr_stmt n EXPR_NO_STRUCT_LIT ps)"

definition parse_for_while :: "block_parser \<Rightarrow> span \<Rightarrow> stmt option \<Rightarrow> parser \<Rightarrow> stmt parsed" where
  "parse_for_while blk sp first ps =
     (case first of
        None \<Rightarrow> no_parse (parser_error_found (''expected a loop condition or '' @ quoted ''{'') ps)
      | Some (STMT_EXPR esp condition) \<Rightarrow>
          then_parse (blk ps) (\<lambda>body. parsed (ast_for_stmt_create sp None (Some condition) None body))
      | Some _ \<Rightarrow> no_parse (parser_error ''a loop condition must be an expression'' ps))"

definition parse_for_stmt :: "nat \<Rightarrow> block_parser \<Rightarrow> parser \<Rightarrow> stmt parsed" where
  "parse_for_stmt n blk ps =
     (let sp = parser_span ps
      in do {
        ps \<leftarrow> parser_next_token ps;
        if ps_type ps = TOKEN_LBRACE then
          then_parse (blk ps) (\<lambda>body. parsed (ast_for_stmt_create sp None None None body))
        else do {
          (first, ps) \<leftarrow> parse_for_clause n TOKEN_SEMICOLON ps;
          if ps_type ps \<noteq> TOKEN_SEMICOLON then parse_for_while blk sp first ps
          else do {
            ps \<leftarrow> parser_next_token ps;
            then_parse
              (if ps_type ps \<noteq> TOKEN_SEMICOLON then
                 then_parse (parse_expression n EXPR_NO_STRUCT_LIT ps) (\<lambda>condition. parsed (Some condition))
               else parsed None ps)
              (\<lambda>condition ps.
                 expecting TOKEN_SEMICOLON (''expected '' @ quoted '';'' @ '' after the loop condition'') ps (\<lambda>ps. do {
                   ps \<leftarrow> parser_next_token ps;
                   (post, ps) \<leftarrow> parse_for_clause n TOKEN_LBRACE ps;
                   then_parse (blk ps) (\<lambda>body. parsed (ast_for_stmt_create sp first condition post body)) })) } } })"

section \<open>Structs\<close>

fun parse_struct_fields :: "nat \<Rightarrow> (nat, span) ast_field list \<Rightarrow> parser \<Rightarrow> (nat, span) ast_field list parsed" where
  "parse_struct_fields 0 members ps = None"
| "parse_struct_fields (Suc n) members ps =
     (if ps_type ps = TOKEN_RBRACE then do { ps \<leftarrow> parser_next_token ps; parsed members ps }
      else if ps_type ps = TOKEN_EOF then no_parse (parser_error (''expected '' @ quoted ''}'' @ '' to close the struct'') ps)
      else then_parse (parse_field n ''expected a field name'' ps) (\<lambda>field ps.
        if ps_type ps \<noteq> TOKEN_COMMA \<and> ps_type ps \<noteq> TOKEN_RBRACE then
          no_parse (parser_error_found (''expected '' @ quoted '','' @ '' or '' @ quoted ''}'' @ '' after field'') ps)
        else do {
          ps \<leftarrow> (if ps_type ps = TOKEN_COMMA then parser_next_token ps else Some ps);
          parse_struct_fields n (members @ [field]) ps }))"

definition parse_struct_decl_stmt_at :: "nat \<Rightarrow> bool \<Rightarrow> span \<Rightarrow> parser \<Rightarrow> stmt parsed" where
  "parse_struct_decl_stmt_at n intrinsic sp ps =
     do { ps \<leftarrow> parser_next_token ps;
          expecting TOKEN_IDENT ''expected a struct name'' ps (\<lambda>ps. do {
            (name, ps) \<leftarrow> parser_take_ident ps;
            then_parse (parse_type_params n ''a struct'' ps) (\<lambda>type_params ps.
              expecting TOKEN_LBRACE (''expected '' @ quoted ''{'' @ '' after struct name'') ps (\<lambda>ps. do {
                ps \<leftarrow> parser_next_token ps;
                then_parse (parse_struct_fields n [] ps) (\<lambda>members.
                  parsed (ast_struct_decl_stmt_create sp name (map fst type_params) members intrinsic)) })) }) }"

definition parse_struct_decl_stmt :: "nat \<Rightarrow> parser \<Rightarrow> stmt parsed" where
  "parse_struct_decl_stmt n ps = parse_struct_decl_stmt_at n False (parser_span ps) ps"

section \<open>Functions\<close>

text \<open>The block's parameters come first; what does not fit is dropped.\<close>

fun func_decl_take_type_params :: "(nat, span) type_params \<Rightarrow> stmt \<Rightarrow> stmt" where
  "func_decl_take_type_params params (STMT_FUNC_DECL sp (ASTFuncDecl name owner return_type ps body own syntax)) =
     STMT_FUNC_DECL sp (ASTFuncDecl name owner return_type ps body (take GAB_MAX_TYPE_PARAMS (params @ own)) syntax)"
| "func_decl_take_type_params params s = s"

fun func_decl_set_syntax :: "32 word \<Rightarrow> stmt \<Rightarrow> stmt" where
  "func_decl_set_syntax syntax (STMT_FUNC_DECL sp (ASTFuncDecl name owner return_type ps body own old)) =
     STMT_FUNC_DECL sp (ASTFuncDecl name owner return_type ps body own syntax)"
| "func_decl_set_syntax syntax s = s"

fun func_decl_set_owner :: "texpr \<Rightarrow> stmt \<Rightarrow> stmt" where
  "func_decl_set_owner owner (STMT_FUNC_DECL sp (ASTFuncDecl name old return_type ps body own syntax)) =
     STMT_FUNC_DECL sp (ASTFuncDecl name (Some owner) return_type ps body own syntax)"
| "func_decl_set_owner owner s = s"

fun func_decl_owner :: "stmt \<Rightarrow> texpr option" where
  "func_decl_owner (STMT_FUNC_DECL sp d) = fc_owner d"
| "func_decl_owner s = None"

text \<open>\<^verbatim>\<open>strcmp(as_string->data, "C") == 0\<close>: the text up to its first NUL.\<close>

definition names_c_abi :: "parser \<Rightarrow> bool" where
  "names_c_abi ps =
     (let text' = sp_strings (lx_strings (ps_lexer ps)) ! token_string (ps_current ps)
      in take (strlen text') text' = ''C'')"

fun parse_func_syntax_loop :: "nat \<Rightarrow> 32 word \<Rightarrow> parser \<Rightarrow> 32 word parsed" where
  "parse_func_syntax_loop 0 out ps = None"
| "parse_func_syntax_loop (Suc n) out ps =
     (if ps_type ps = TOKEN_CALLER then
        do { ps \<leftarrow> parser_next_token ps; parse_func_syntax_loop n (out OR FUNC_SYN_CALLER) ps }
      else if ps_type ps = TOKEN_INTRINSIC then
        do { ps \<leftarrow> parser_next_token ps; parse_func_syntax_loop n (out OR FUNC_SYN_INTRINSIC) ps }
      else if ps_type ps = TOKEN_EXTERN then do {
        ps \<leftarrow> parser_next_token ps;
        if ps_type ps = TOKEN_STRING then
          (if \<not> names_c_abi ps then
             no_parse (parser_error (''the only foreign ABI is '' @ [CHR 0x22] @ ''C'' @ [CHR 0x22]) ps)
           else do {
             ps \<leftarrow> parser_next_token ps;
             parse_func_syntax_loop n (out OR FUNC_SYN_EXTERN OR FUNC_SYN_FOREIGN) ps })
        else parse_func_syntax_loop n (out OR FUNC_SYN_EXTERN) ps }
      else parsed out ps)"

definition parse_func_syntax :: "nat \<Rightarrow> bool \<Rightarrow> parser \<Rightarrow> 32 word parsed" where
  "parse_func_syntax n signature_only ps =
     parse_func_syntax_loop n (if signature_only then FUNC_SYN_EXTERN else FUNC_SYN_NONE) ps"

fun parse_func_params :: "nat \<Rightarrow> (nat, span) ast_field list \<Rightarrow> parser \<Rightarrow> (nat, span) ast_field list parsed" where
  "parse_func_params 0 params ps = None"
| "parse_func_params (Suc n) params ps =
     (if ps_type ps = TOKEN_RPAREN then do { ps \<leftarrow> parser_next_token ps; parsed params ps }
      else then_parse (parse_field n ''expected a parameter name'' ps) (\<lambda>param ps.
        if ps_type ps \<noteq> TOKEN_COMMA \<and> ps_type ps \<noteq> TOKEN_RPAREN then
          no_parse (parser_error_found (''expected '' @ quoted '','' @ '' or '' @ quoted '')'' @ '' after parameter'') ps)
        else do {
          ps \<leftarrow> (if ps_type ps = TOKEN_COMMA then parser_next_token ps else Some ps);
          parse_func_params n (params @ [param]) ps }))"

text \<open>What follows a function's parameters: the type and the body, or the end of a declaration without one.\<close>

definition parse_func_rest ::
  "nat \<Rightarrow> block_parser \<Rightarrow> bool \<Rightarrow> span \<Rightarrow> 32 word \<Rightarrow> ident \<Rightarrow> (nat, span) type_params \<Rightarrow> (nat, span) ast_field list \<Rightarrow> parser \<Rightarrow> stmt parsed" where
  "parse_func_rest n blk signature_only sp syntax name declared params ps =
     then_parse
       (if ps_type ps = TOKEN_COLON then do {
          ps \<leftarrow> parser_next_token ps;
          then_parse (parse_type_expr n ps) (\<lambda>type. parsed (Some type)) }
        else parsed None ps)
       (\<lambda>return_type ps.
          let finish = (\<lambda>body. func_decl_take_type_params declared (func_decl_set_syntax syntax
                         (ast_func_decl_stmt_create sp name return_type params body)))
          in if syntax AND (FUNC_SYN_EXTERN OR FUNC_SYN_INTRINSIC) \<noteq> 0 then
               (if ps_type ps = TOKEN_LBRACE then do {
                  (body, ps) \<leftarrow> blk (parser_error
                    (if signature_only then ''an interface declares a signature, which has no body''
                     else ''an '' @ quoted ''extern'' @ '' function is defined by the host and cannot have a body'') ps);
                  no_parse ps }
                else parsed (finish None) ps)
             else then_parse (blk ps) (\<lambda>body. parsed (finish (Some body))))"

definition parse_func_decl_stmt_at :: "nat \<Rightarrow> block_parser \<Rightarrow> bool \<Rightarrow> span \<Rightarrow> 32 word \<Rightarrow> parser \<Rightarrow> stmt parsed" where
  "parse_func_decl_stmt_at n blk signature_only sp prefix ps =
     then_parse (parse_func_syntax n signature_only ps) (\<lambda>own_syntax ps.
       let syntax = own_syntax OR prefix
       in expecting TOKEN_FUNC (''expected '' @ quoted ''func'' @ '' after a function'' @ [CHR 0x27] @ ''s modifiers'') ps (\<lambda>ps. do {
            ps \<leftarrow> parser_next_token ps;
            expecting TOKEN_IDENT ''expected a function name'' ps (\<lambda>ps. do {
              (name, ps) \<leftarrow> parser_take_ident ps;
              then_parse (parse_type_params n ''a function'' ps) (\<lambda>declared ps.
                if ps_type ps = TOKEN_COLON_COLON then
                  no_parse (parser_error (''a function on a type is declared in an '' @ quoted ''impl'' @ '' block for that type'') ps)
                else expecting TOKEN_LPAREN (''expected '' @ quoted ''('' @ '' after function name'') ps (\<lambda>ps. do {
                  ps \<leftarrow> parser_next_token ps;
                  then_parse (parse_func_params n [] ps) (\<lambda>params.
                    parse_func_rest n blk signature_only sp syntax name declared params) })) }) }))"

definition parse_func_decl_stmt :: "nat \<Rightarrow> block_parser \<Rightarrow> parser \<Rightarrow> stmt parsed" where
  "parse_func_decl_stmt n blk ps = parse_func_decl_stmt_at n blk False (parser_span ps) FUNC_SYN_NONE ps"

definition parse_func_decl_stmt_after_intrinsic :: "nat \<Rightarrow> block_parser \<Rightarrow> span \<Rightarrow> parser \<Rightarrow> stmt parsed" where
  "parse_func_decl_stmt_after_intrinsic n blk sp ps = parse_func_decl_stmt_at n blk False sp FUNC_SYN_INTRINSIC ps"

definition parse_func_signature_stmt :: "nat \<Rightarrow> block_parser \<Rightarrow> parser \<Rightarrow> stmt parsed" where
  "parse_func_signature_stmt n blk ps = parse_func_decl_stmt_at n blk True (parser_span ps) FUNC_SYN_NONE ps"

section \<open>Implementations and interfaces\<close>

definition starts_function :: "token_type \<Rightarrow> bool" where
  "starts_function type \<longleftrightarrow>
     type = TOKEN_FUNC \<or> type = TOKEN_EXTERN \<or> type = TOKEN_INTRINSIC \<or> type = TOKEN_CALLER"

fun parse_impl_members ::
  "nat \<Rightarrow> block_parser \<Rightarrow> texpr \<Rightarrow> (nat, span) type_params \<Rightarrow> stmt list \<Rightarrow> parser \<Rightarrow> stmt list parsed" where
  "parse_impl_members 0 blk owner declared members ps = None"
| "parse_impl_members (Suc n) blk owner declared members ps =
     (if ps_type ps = TOKEN_RBRACE then do { ps \<leftarrow> parser_next_token ps; parsed members ps }
      else if ps_type ps = TOKEN_EOF then no_parse (parser_error (''expected '' @ quoted ''}'' @ '' to close the impl block'') ps)
      else if \<not> starts_function (ps_type ps) then
        no_parse (parser_error_found (''expected a function in an '' @ quoted ''impl'' @ '' block'') ps)
      else then_parse (parse_func_decl_stmt n blk ps) (\<lambda>member ps.
        if func_decl_owner member \<noteq> None then
          no_parse (parser_error (''a function in an '' @ quoted ''impl'' @ '' block is named without its type'') ps)
        else
          let member = func_decl_take_type_params declared (func_decl_set_owner owner member)
          in then_parse (terminated member ps) (\<lambda>member ps.
               parse_impl_members n blk owner declared (members @ [member]) ps)))"

definition parse_impl_interface :: "nat \<Rightarrow> parser \<Rightarrow> (ident option \<times> texpr list) parsed" where
  "parse_impl_interface n ps =
     (if ps_type ps \<noteq> TOKEN_AS then parsed (None, []) ps
      else do {
        ps \<leftarrow> parser_next_token ps;
        expecting TOKEN_IDENT (''expected the name of an interface after '' @ quoted ''as'') ps (\<lambda>ps. do {
          (name, ps) \<leftarrow> parser_take_ident ps;
          if ps_type ps = TOKEN_LESS then then_parse (parse_type_args n ps) (\<lambda>args. parsed (Some name, args))
          else parsed (Some name, []) ps }) })"

definition parse_impl_stmt :: "nat \<Rightarrow> block_parser \<Rightarrow> parser \<Rightarrow> stmt parsed" where
  "parse_impl_stmt n blk ps =
     (let sp = parser_span ps
      in do {
        ps \<leftarrow> parser_next_token ps;
        then_parse (parse_type_params n ''an impl block'' ps) (\<lambda>declared ps.
          then_parse (parse_type_expr n ps) (\<lambda>type ps.
            then_parse (parse_impl_interface n ps) (\<lambda>(interface_name, interface_args) ps.
              expecting TOKEN_LBRACE (''expected '' @ quoted ''{'' @ '' after the type an '' @ quoted ''impl'' @ '' block is for'') ps (\<lambda>ps. do {
                ps \<leftarrow> parser_next_token ps;
                then_parse (parse_impl_members n blk type declared [] ps) (\<lambda>members.
                  parsed (ast_impl_stmt_create sp type members interface_name interface_args
                            (take GAB_MAX_TYPE_PARAMS declared))) })))) })"

fun parse_interface_members :: "nat \<Rightarrow> block_parser \<Rightarrow> stmt list \<Rightarrow> parser \<Rightarrow> stmt list parsed" where
  "parse_interface_members 0 blk members ps = None"
| "parse_interface_members (Suc n) blk members ps =
     (if ps_type ps = TOKEN_RBRACE then do { ps \<leftarrow> parser_next_token ps; parsed members ps }
      else if ps_type ps = TOKEN_EOF then no_parse (parser_error (''expected '' @ quoted ''}'' @ '' to close the interface'') ps)
      else if ps_type ps \<noteq> TOKEN_FUNC then no_parse (parser_error_found ''expected a function signature in an interface'' ps)
      else then_parse (parse_func_signature_stmt n blk ps) (\<lambda>member ps.
        expecting TOKEN_SEMICOLON (''expected '' @ quoted '';'') ps (\<lambda>ps. do {
          ps \<leftarrow> parser_next_token ps;
          parse_interface_members n blk (members @ [member]) ps })))"

definition parse_interface_decl_stmt :: "nat \<Rightarrow> block_parser \<Rightarrow> parser \<Rightarrow> stmt parsed" where
  "parse_interface_decl_stmt n blk ps =
     (let sp = parser_span ps
      in do {
        ps \<leftarrow> parser_next_token ps;
        expecting TOKEN_IDENT ''expected an interface name'' ps (\<lambda>ps. do {
          (name, ps) \<leftarrow> parser_take_ident ps;
          then_parse (parse_type_params n ''an interface'' ps) (\<lambda>type_params ps.
            expecting TOKEN_LBRACE (''expected '' @ quoted ''{'' @ '' after an interface'' @ [CHR 0x27] @ ''s name'') ps (\<lambda>ps. do {
              ps \<leftarrow> parser_next_token ps;
              then_parse (parse_interface_members n blk [] ps) (\<lambda>members.
                parsed (ast_interface_decl_stmt_create sp name members (map fst type_params))) })) }) })"

section \<open>Blocks\<close>

text \<open>A declaration that is not allowed in a function is parsed, reported and dropped.\<close>

definition parse_and_drop :: "stmt parsed \<Rightarrow> stmt parsed" where
  "parse_and_drop p = Option.bind p (\<lambda>(dropped, ps). no_parse ps)"

definition parse_intrinsic :: "nat \<Rightarrow> block_parser \<Rightarrow> span \<Rightarrow> parser \<Rightarrow> stmt parsed" where
  "parse_intrinsic n blk sp ps =
     do { ps \<leftarrow> parser_next_token ps;
          if ps_type ps = TOKEN_STRUCT then parse_struct_decl_stmt_at n True sp ps
          else parse_func_decl_stmt_after_intrinsic n blk sp ps }"

definition parse_statement :: "nat \<Rightarrow> block_parser \<Rightarrow> parser \<Rightarrow> stmt parsed" where
  "parse_statement n blk ps =
     (case ps_type ps of
        TOKEN_FUNC \<Rightarrow>
          parse_and_drop (parse_func_decl_stmt n blk
            (parser_error ''a function cannot be declared inside another; declare it at module level'' ps))
      | TOKEN_INTRINSIC \<Rightarrow>
          parse_and_drop (parse_intrinsic n blk (parser_span ps)
            (parser_error ''an intrinsic cannot be declared inside a function; declare it at module level'' ps))
      | TOKEN_IMPL \<Rightarrow>
          parse_and_drop (parse_impl_stmt n blk
            (parser_error (''an '' @ quoted ''impl'' @ '' block cannot be declared inside a function; declare it at module level'') ps))
      | TOKEN_INTERFACE \<Rightarrow>
          parse_and_drop (parse_interface_decl_stmt n blk
            (parser_error (''an '' @ quoted ''interface'' @ '' cannot be declared inside a function; declare it at module level'') ps))
      | TOKEN_LET \<Rightarrow> then_parse (parse_var_decl_stmt n EXPR_ANY ps) terminated
      | TOKEN_STRUCT \<Rightarrow> then_parse (parse_struct_decl_stmt n ps) terminated
      | TOKEN_IF \<Rightarrow> then_parse (parse_if_stmt n blk ps) terminated
      | TOKEN_FOR \<Rightarrow> then_parse (parse_for_stmt n blk ps) terminated
      | TOKEN_BREAK \<Rightarrow> then_parse (parse_jump_stmt ps) terminated
      | TOKEN_CONTINUE \<Rightarrow> then_parse (parse_jump_stmt ps) terminated
      | TOKEN_LBRACE \<Rightarrow> then_parse (blk ps) terminated
      | TOKEN_RETURN \<Rightarrow> then_parse (parse_return_stmt n ps) terminated
      | _ \<Rightarrow> then_parse (parse_expr_stmt n EXPR_ANY ps) terminated)"

fun parse_block_loop :: "nat \<Rightarrow> block_parser \<Rightarrow> stmt list \<Rightarrow> parser \<Rightarrow> stmt list parsed" where
  "parse_block_loop 0 blk stmts ps = None"
| "parse_block_loop (Suc n) blk stmts ps =
     (if ps_type ps = TOKEN_RBRACE then do { ps \<leftarrow> parser_next_token ps; parsed stmts ps }
      else if ps_type ps = TOKEN_EOF then no_parse (parser_error_found (''expected '' @ quoted ''}'' @ '' to close the block'') ps)
      else do {
        (s, ps) \<leftarrow> parse_statement n blk ps;
        (case s of
           None \<Rightarrow> do { ps \<leftarrow> parser_synchronize n ps; parse_block_loop n blk stmts ps }
         | Some s \<Rightarrow> parse_block_loop n blk (stmts @ [s]) ps) })"

fun parse_block_stmt :: "nat \<Rightarrow> parser \<Rightarrow> stmt parsed" where
  "parse_block_stmt 0 ps = None"
| "parse_block_stmt (Suc n) ps =
     (let sp = parser_span ps
      in expecting TOKEN_LBRACE (''expected '' @ quoted ''{'') ps (\<lambda>ps. do {
           ps \<leftarrow> parser_next_token ps;
           then_parse (parse_block_loop n (parse_block_stmt n) [] ps) (\<lambda>stmts. parsed (ast_block_stmt_create sp stmts)) }))"

section \<open>Files\<close>

definition parse_decl_statement :: "nat \<Rightarrow> parser \<Rightarrow> stmt parsed" where
  "parse_decl_statement n ps =
     (let blk = parse_block_stmt n in
      case ps_type ps of
        TOKEN_LET \<Rightarrow> then_parse (parse_var_decl_stmt n EXPR_ANY ps) terminated
      | TOKEN_INTRINSIC \<Rightarrow> then_parse (parse_intrinsic n blk (parser_span ps) ps) terminated
      | TOKEN_FUNC \<Rightarrow> then_parse (parse_func_decl_stmt n blk ps) terminated
      | TOKEN_EXTERN \<Rightarrow> then_parse (parse_func_decl_stmt n blk ps) terminated
      | TOKEN_CALLER \<Rightarrow> then_parse (parse_func_decl_stmt n blk ps) terminated
      | TOKEN_STRUCT \<Rightarrow> then_parse (parse_struct_decl_stmt n ps) terminated
      | TOKEN_IMPL \<Rightarrow> then_parse (parse_impl_stmt n blk ps) terminated
      | TOKEN_INTERFACE \<Rightarrow> then_parse (parse_interface_decl_stmt n blk ps) terminated
      | _ \<Rightarrow> no_parse (parser_error_found
               (''expected a declaration ('' @ quoted ''let'' @ '', '' @ quoted ''func'' @ '', '' @ quoted ''extern'' @ '', '' @
                quoted ''struct'' @ '', '' @ quoted ''impl'' @ '', or '' @ quoted ''interface'' @ '')'') ps))"

text \<open>\<^verbatim>\<open>%.*s\<close> on the source between two positions.\<close>

definition source_between :: "nat \<Rightarrow> nat \<Rightarrow> parser \<Rightarrow> string" where
  "source_between begin ends ps = take (ends - begin) (drop begin (lx_source (ps_lexer ps)))"

text \<open>The lexer stands behind the token it has just read.\<close>

definition nested_name_message :: "string \<Rightarrow> string" where
  "nested_name_message name = ''module names cannot be nested; '' @ quoted name @ '' must be a single identifier''"

fun skip_nested_names :: "nat \<Rightarrow> nat \<Rightarrow> parser \<Rightarrow> (nat \<times> parser) option" where
  "skip_nested_names 0 ends ps = None"
| "skip_nested_names (Suc n) ends ps =
     (if ps_type ps \<noteq> TOKEN_COLON_COLON then Some (ends, ps)
      else do {
        ps1 \<leftarrow> parser_next_token ps;
        if ps_type ps1 \<noteq> TOKEN_IDENT then Some (ends, ps1)
        else do {
          ps2 \<leftarrow> parser_next_token ps1;
          skip_nested_names n (lx_pos (ps_lexer ps1)) ps2 } })"

text \<open>The name a file declares: absent where the directive was not accepted.\<close>

definition parse_module_directive :: "nat \<Rightarrow> parser \<Rightarrow> (ident option \<times> parser) option" where
  "parse_module_directive n ps =
     (let sp = parser_span ps
      in do {
        ps1 \<leftarrow> parser_next_token ps;
        (case parser_expect TOKEN_IDENT (''expected a module name after '' @ quoted ''module'') ps1 of
           (False, ps1) \<Rightarrow> Some (None, ps1)
         | (True, ps1) \<Rightarrow>
             let name = tok_lexeme (ps_current ps1); ends = lx_pos (ps_lexer ps1)
             in do {
               ps2 \<leftarrow> parser_next_token ps1;
               if ps_type ps2 = TOKEN_COLON_COLON then do {
                 (ends', ps3) \<leftarrow> skip_nested_names n ends ps2;
                 Some (None, parser_diag GAB_ERR_SYNTAX sp
                   (nested_name_message (source_between (ends - length name) ends' ps3)) ps3) }
               else do {
                 (i, ps3) \<leftarrow> parser_ident sp name ps2;
                 (case parser_expect TOKEN_SEMICOLON (''expected '' @ quoted '';'' @ '' after the module name'') ps3 of
                    (True, ps3) \<Rightarrow> do { ps4 \<leftarrow> parser_next_token ps3; Some (Some i, ps4) }
                  | (False, ps3) \<Rightarrow> Some (Some i, ps3)) } }) })"

definition parse_import_directive :: "parser \<Rightarrow> (ident option \<times> parser) option" where
  "parse_import_directive ps =
     (let sp = parser_span ps
      in do {
        ps1 \<leftarrow> parser_next_token ps;
        (case parser_expect TOKEN_IDENT (''expected a module name after '' @ quoted ''import'') ps1 of
           (False, ps1) \<Rightarrow> Some (None, ps1)
         | (True, ps1) \<Rightarrow>
             let name = tok_lexeme (ps_current ps1)
             in do {
               ps2 \<leftarrow> parser_next_token ps1;
               if ps_type ps2 = TOKEN_COLON_COLON then
                 Some (None, parser_diag GAB_ERR_SYNTAX sp (nested_name_message name) ps2)
               else do {
                 (i, ps3) \<leftarrow> parser_ident sp name ps2;
                 (case parser_expect TOKEN_SEMICOLON (''expected '' @ quoted '';'' @ '' after the module name'') ps3 of
                    (True, ps3) \<Rightarrow> do { ps4 \<leftarrow> parser_next_token ps3; Some (Some i, ps4) }
                  | (False, ps3) \<Rightarrow> Some (Some i, ps3)) } }) })"

type_synonym parsed_file = "(nat, span) ast_file"

fun parse_imports :: "nat \<Rightarrow> parsed_file \<Rightarrow> parser \<Rightarrow> (parsed_file \<times> parser) option" where
  "parse_imports 0 file ps = None"
| "parse_imports (Suc n) file ps =
     (if ps_type ps \<noteq> TOKEN_IMPORT then Some (file, ps)
      else do {
        (name, ps) \<leftarrow> parse_import_directive ps;
        parse_imports n (file\<lparr>af_imports := af_imports file @ (case name of Some i \<Rightarrow> [i] | None \<Rightarrow> [])\<rparr>) ps })"

definition parser_parse_header :: "nat \<Rightarrow> parsed_file \<Rightarrow> parser \<Rightarrow> (parsed_file \<times> parser) option" where
  "parser_parse_header n file ps =
     do { ps \<leftarrow> parser_next_token ps;
          (file, ps) \<leftarrow>
            (if ps_type ps = TOKEN_MODULE then do {
               (name, ps) \<leftarrow> parse_module_directive n ps;
               Some (case name of Some i \<Rightarrow> file\<lparr>af_module_name := Some i\<rparr> | None \<Rightarrow> file, ps) }
             else Some (file, parser_diag GAB_ERR_SYNTAX (parser_span ps)
               (''a file must name its module: write '' @ quoted ''module <name>;'' @ '' before anything else'') ps));
          parse_imports n file ps }"

fun parser_parse_loop :: "nat \<Rightarrow> parsed_file \<Rightarrow> parser \<Rightarrow> (parsed_file \<times> parser) option" where
  "parser_parse_loop 0 file ps = None"
| "parser_parse_loop (Suc n) file ps =
     (if ps_type ps = TOKEN_EOF then Some (file, ps)
      else if ps_type ps = TOKEN_SEMICOLON then do { ps \<leftarrow> parser_next_token ps; parser_parse_loop n file ps }
      else if ps_type ps = TOKEN_IMPORT then do {
        (discarded, ps) \<leftarrow> parse_import_directive
          (parser_diag GAB_ERR_SYNTAX (parser_span ps) (quoted ''import'' @ '' must appear before any declaration'') ps);
        parser_parse_loop n file ps }
      else if ps_type ps = TOKEN_MODULE then do {
        (discarded, ps) \<leftarrow> parse_module_directive n
          (parser_diag GAB_ERR_SYNTAX (parser_span ps) (quoted ''module'' @ '' must appear once, before any declaration'') ps);
        parser_parse_loop n file ps }
      else do {
        (s, ps1) \<leftarrow> parse_decl_statement n ps;
        (case s of
           Some s \<Rightarrow> parser_parse_loop n (ast_file_add_statement file s) ps1
         | None \<Rightarrow> do {
             ps2 \<leftarrow> parser_synchronize n ps1;
             ps3 \<leftarrow> (if ps_type ps2 = ps_type ps1 \<and> lx_pos (ps_lexer ps2) = lx_pos (ps_lexer ps1)
                    then parser_next_token ps2 else Some ps2);
             parser_parse_loop n file ps3 }) })"

definition parser_errors :: "parser \<Rightarrow> nat" where
  "parser_errors ps = diagnostics_count (lx_diagnostics (ps_lexer ps))"

definition parser_parse :: "nat \<Rightarrow> parsed_file \<Rightarrow> parser \<Rightarrow> (bool \<times> parsed_file \<times> parser) option" where
  "parser_parse n file ps =
     do { (file, ps1) \<leftarrow> parser_parse_header n file ps;
          (file, ps2) \<leftarrow> parser_parse_loop n file ps1;
          Some (parser_errors ps2 = parser_errors ps, file, ps2) }"

text \<open>The answer, the file where there is one, and the pool and the diagnostics after the call.\<close>

type_synonym 'r outcome = "'r option \<times> string_pool \<times> diagnostics"

definition parser_outcome :: "'r option \<Rightarrow> parser \<Rightarrow> 'r outcome" where
  "parser_outcome r ps = (r, lx_strings (ps_lexer ps), lx_diagnostics (ps_lexer ps))"

definition parse_file :: "nat \<Rightarrow> string \<Rightarrow> string_pool \<Rightarrow> diagnostics \<Rightarrow> parsed_file outcome option" where
  "parse_file n source strings diags =
     do { (ok, file, ps) \<leftarrow> parser_parse n ast_file_create (parser_create (lexer_create source strings diags));
          Some (parser_outcome (if ok then Some file else None) ps) }"

definition parse_header :: "nat \<Rightarrow> string \<Rightarrow> string_pool \<Rightarrow> diagnostics \<Rightarrow> parsed_file outcome option" where
  "parse_header n source strings diags =
     (let ps = parser_create (lexer_create source strings diags)
      in do {
        (file, ps1) \<leftarrow> parser_parse_header n ast_file_create ps;
        Some (parser_outcome (if parser_errors ps1 > parser_errors ps then None else Some file) ps1) })"

text \<open>\<^verbatim>\<open>i == 0\<close> is the module without files.  A file without diagnostics has a module name.\<close>

definition other_module_message :: "string option \<Rightarrow> string \<Rightarrow> string \<Rightarrow> string" where
  "other_module_message name declared module =
     (case name of Some f \<Rightarrow> f | None \<Rightarrow> ''this file'') @ '' declares module '' @ quoted declared @
     '', which is compiled as part of '' @ quoted module"

fun parse_module_files ::
  "nat \<Rightarrow> (string \<times> string option) list \<Rightarrow> (nat, span) ast_module \<Rightarrow> string_pool \<Rightarrow> diagnostics \<Rightarrow> (nat, span) ast_module outcome option" where
  "parse_module_files n [] m strings diags = Some (Some m, strings, diags)"
| "parse_module_files n ((source, name) # sources) m strings diags =
     do { (file, strings, diags) \<leftarrow> parse_file n source strings diags;
          (case file of
             None \<Rightarrow> Some (None, strings, diags)
           | Some file \<Rightarrow>
               if am_files m = [] then
                 parse_module_files n sources (ast_module_add_file (m\<lparr>am_name := af_module_name file\<rparr>) file) strings diags
               else do {
                 declared \<leftarrow> af_module_name file;
                 module \<leftarrow> am_name m;
                 if id_name module \<noteq> id_name declared then
                   Some (None, strings, diag_error diags GAB_ERR_NAME (id_span declared)
                     (other_module_message name (sp_strings strings ! id_name declared) (sp_strings strings ! id_name module)))
                 else parse_module_files n sources (ast_module_add_file m file) strings diags }) }"

definition parse_module ::
  "nat \<Rightarrow> (string \<times> string option) list \<Rightarrow> string_pool \<Rightarrow> diagnostics \<Rightarrow> (nat, span) ast_module outcome option" where
  "parse_module n sources strings diags = parse_module_files n sources ast_module_create strings diags"

end
