(* ===== verification/Lexer_Twins.thy ===== *)
theory Lexer_Twins
  imports Lexer_Correct
begin

text \<open>
  What the lexer reads does not depend on the diagnostics or the pool: two lexers at the same place of the
  same source read tokens of the same types and stay together.  The parser's look ahead relies on
  it, because it goes back to a saved lexer and keeps the diagnostics and the pool.
\<close>

section \<open>Lexers at the same place\<close>

definition twin :: "lexer \<Rightarrow> lexer \<Rightarrow> bool" where
  "twin a b \<longleftrightarrow> lx_source a = lx_source b \<and> lx_pos a = lx_pos b \<and> lx_line a = lx_line b \<and> lx_column a = lx_column b \<and>
     lx_start_line a = lx_start_line b \<and> lx_start_column a = lx_start_column b \<and>
     lx_scratch a = lx_scratch b \<and> lx_scratch_capacity a = lx_scratch_capacity b"

lemma twin_refl [simp]: "twin a a"
  by (simp add: twin_def)

lemma twin_sym: "twin a b \<Longrightarrow> twin b a"
  by (simp add: twin_def)

lemma twin_updates [simp]:
  "twin (a\<lparr>lx_diagnostics := d\<rparr>) b \<longleftrightarrow> twin a b" "twin a (b\<lparr>lx_diagnostics := d\<rparr>) \<longleftrightarrow> twin a b"
  "twin (a\<lparr>lx_strings := p\<rparr>) b \<longleftrightarrow> twin a b" "twin a (b\<lparr>lx_strings := p\<rparr>) \<longleftrightarrow> twin a b"
  "twin (lexer_error a k sp m) b \<longleftrightarrow> twin a b" "twin a (lexer_error b k sp m) \<longleftrightarrow> twin a b"
  by (simp_all add: twin_def lexer_error_def)

lemma twin_peek: "twin a b \<Longrightarrow> lexer_peek a = lexer_peek b" "twin a b \<Longrightarrow> lexer_peek2 a = lexer_peek2 b"
  by (simp_all add: twin_def lexer_peek_def lexer_peek2_def)

lemma twin_eat: "twin a b \<Longrightarrow> twin (lexer_eat a) (lexer_eat b)"
  by (simp add: twin_def lexer_eat_def lexer_peek_def)

lemma twin_eat_while: "twin a b \<Longrightarrow> twin (lexer_eat_while P a) (lexer_eat_while P b)"
proof (induction P a arbitrary: b rule: lexer_eat_while.induct)
  case (1 P a)
  then show ?case
    using twin_peek(1) [OF "1.prems"] twin_eat [OF "1.prems"]
    by (subst (1 2) lexer_eat_while.simps) (auto simp: twin_def)
qed

lemma twin_reserve: "twin a b \<Longrightarrow> twin (lexer_reserve a n) (lexer_reserve b n)"
  by (simp add: twin_def lexer_reserve_def Let_def)

lemma twin_scratch: "twin a b \<Longrightarrow> twin (a\<lparr>lx_scratch := (lx_scratch a)[i := c]\<rparr>) (b\<lparr>lx_scratch := (lx_scratch b)[i := c]\<rparr>)"
  by (simp add: twin_def)

text \<open>The answers of a step from two twins: tokens of one type and twins again, or results that agree.\<close>

definition twin_tokens :: "token \<times> lexer \<Rightarrow> token \<times> lexer \<Rightarrow> bool" where
  "twin_tokens x y \<longleftrightarrow> tok_type (fst x) = tok_type (fst y) \<and> twin (snd x) (snd y)"

fun twin_steps :: "(token \<times> lexer) + ('r \<times> lexer) \<Rightarrow> (token \<times> lexer) + ('r \<times> lexer) \<Rightarrow> bool" where
  "twin_steps (Inl x) (Inl y) \<longleftrightarrow> twin_tokens x y"
| "twin_steps (Inr (r, a)) (Inr (s, b)) \<longleftrightarrow> r = s \<and> twin a b"
| "twin_steps _ _ \<longleftrightarrow> False"

lemmas twin_token_defs = twin_tokens_def token_create_defs Let_def

lemma twin_number: "twin a b \<Longrightarrow> twin_tokens (lexer_number a) (lexer_number b)"
  using twin_eat_while [of a b is_digit] twin_peek [of "lexer_eat_while is_digit a" "lexer_eat_while is_digit b"]
    twin_eat_while [OF twin_eat [OF twin_eat_while [of a b is_digit]], of is_digit]
  by (auto simp: lexer_number_def twin_token_defs twin_def [of a b] split: option.split)

lemma twin_string_char: "twin a b \<Longrightarrow> twin_steps (lexer_string_char a o1) (lexer_string_char b o1)"
  using twin_peek [of a b] twin_peek(1) [OF twin_eat [of a b]] twin_eat [of a b]
  by (auto simp: lexer_string_char_def twin_token_defs split: option.split)

lemma twin_string_loop: "twin a b \<Longrightarrow> twin_steps (lexer_string_loop a o1 n) (lexer_string_loop b o1 n)"
proof (induction a o1 n arbitrary: b rule: lexer_string_loop.induct)
  case (1 a o1 n)
  note char = twin_string_char [OF "1.prems", of o1] and peek = twin_peek(1) [OF "1.prems"]
  show ?case
  proof (cases "lexer_peek a = CHR 0x22")
    case True
    then show ?thesis using peek "1.prems" by (subst (1 2) lexer_string_loop.simps) simp
  next
    case False
    show ?thesis
    proof (cases "lexer_string_char a o1")
      case (Inl e)
      then obtain e' where "lexer_string_char b o1 = Inl e'" "twin_tokens e e'"
        using char by (cases "lexer_string_char b o1") auto
      then show ?thesis using Inl False peek by (subst (1 2) lexer_string_loop.simps) simp
    next
      case (Inr r)
      obtain c a1 where r: "r = (c, a1)" by fastforce
      then obtain b1 where b1: "lexer_string_char b o1 = Inr (c, b1)" "twin a1 b1"
        using char Inr by (cases "lexer_string_char b o1") auto
      let ?x = "\<lambda>l. lexer_eat ((lexer_reserve l (n + 1))\<lparr>lx_scratch := (lx_scratch (lexer_reserve l (n + 1)))[n := c]\<rparr>)"
      have "twin (?x a1) (?x b1)" by (intro twin_eat twin_scratch twin_reserve b1(2))
      from "1.IH" [OF False Inr r [symmetric] refl refl this]
      show ?thesis using Inr r b1(1) False peek
        by (subst (1 2) lexer_string_loop.simps) (simp add: Let_def)
    qed
  qed
qed

lemma twin_identifier: "twin a b \<Longrightarrow> twin_tokens (lexer_identifier a) (lexer_identifier b)"
  using twin_eat_while [of a b is_ident_char]
  by (auto simp: lexer_identifier_def twin_token_defs twin_def [of a b] twin_def [of "lexer_eat_while is_ident_char a"]
      split: option.split)

lemma twin_builtin: "twin a b \<Longrightarrow> twin_tokens (lexer_builtin a) (lexer_builtin b)"
  using twin_eat_while [of a b is_ident_char]
  by (auto simp: lexer_builtin_def twin_token_defs twin_def [of a b] twin_def [of "lexer_eat_while is_ident_char a"])

lemma twin_handle_eq: "twin a b \<Longrightarrow> twin_tokens (lexer_handle_eq a x y) (lexer_handle_eq b x y)"
  using twin_peek(1) [of a b] twin_eat [of a b] by (simp add: lexer_handle_eq_def twin_token_defs)

lemma twin_invalid: "twin a b \<Longrightarrow> twin_tokens (lexer_invalid a c) (lexer_invalid b c)"
  by (simp add: lexer_invalid_def twin_token_defs)

lemma twin_handle_op_eq: "twin a b \<Longrightarrow> twin_tokens (lexer_handle_op_eq a x y c z) (lexer_handle_op_eq b x y c z)"
  using twin_peek(1) [of a b] twin_eat [of a b] twin_invalid [of a b c] twin_invalid [OF twin_eat [of a b], of c]
  by (simp add: lexer_handle_op_eq_def Let_def) (auto simp: twin_token_defs)

lemma twin_tokens_if:
  "(P \<Longrightarrow> twin_tokens x y) \<Longrightarrow> (\<not> P \<Longrightarrow> twin_tokens x' y') \<Longrightarrow> twin_tokens (if P then x else x') (if P then y else y')"
  by simp

lemma twin_operator:
  assumes "twin a b"
  shows "twin_tokens (lexer_operator a c) (lexer_operator b c)"
proof -
  have plain: "twin_tokens (token_create a t, a) (token_create b t, b)" for t
    using assms by (simp add: twin_token_defs)
  have dot: "twin_tokens (if lexer_peek a = CHR ''.'' then (token_create (lexer_eat a) TOKEN_DOT_DOT, lexer_eat a) else (token_create a TOKEN_DOT, a))
      (if lexer_peek b = CHR ''.'' then (token_create (lexer_eat b) TOKEN_DOT_DOT, lexer_eat b) else (token_create b TOKEN_DOT, b))"
    using twin_peek(1) [OF assms] twin_eat [OF assms] assms by (simp add: twin_token_defs)
  show ?thesis
    unfolding lexer_operator_def
    by (intro twin_tokens_if plain dot twin_handle_eq [OF assms] twin_handle_op_eq [OF assms] twin_builtin [OF assms] twin_invalid [OF assms])
qed

lemma twin_skip_block:
  "twin a b \<Longrightarrow> snd (lexer_skip_block a) = snd (lexer_skip_block b) \<and> twin (fst (lexer_skip_block a)) (fst (lexer_skip_block b))"
proof (induction a arbitrary: b rule: lexer_skip_block.induct)
  case (1 a)
  then show ?case
    using twin_peek [OF "1.prems"] twin_eat [OF "1.prems"]
    by (subst (1 2 3 4) lexer_skip_block.simps) auto
qed

lemma twin_skip_trivia: "twin a b \<Longrightarrow> twin (lexer_skip_trivia a) (lexer_skip_trivia b)"
proof (induction a arbitrary: b rule: lexer_skip_trivia.induct)
  case (1 a)
  let ?a = "lexer_eat_while is_space a" and ?b = "lexer_eat_while is_space b"
  have ab: "twin ?a ?b" by (rule twin_eat_while [OF "1.prems"])
  note peek = twin_peek [OF ab]
  consider (stop) "lexer_peek ?a \<noteq> CHR ''/'' \<or> lexer_peek2 ?a \<noteq> CHR ''/'' \<and> lexer_peek2 ?a \<noteq> CHR ''*''"
    | (line) "lexer_peek ?a = CHR ''/''" "lexer_peek2 ?a = CHR ''/''"
    | (block) "lexer_peek ?a = CHR ''/''" "lexer_peek2 ?a = CHR ''*''" by blast
  then show ?case
  proof cases
    case stop
    then show ?thesis using ab peek by (subst (1 2) lexer_skip_trivia.simps) (auto simp: Let_def)
  next
    case line
    let ?P = "\<lambda>c. c \<noteq> CHR 0x0A \<and> c \<noteq> NUL"
    have "twin (lexer_skip_trivia (lexer_eat_while ?P ?a)) (lexer_skip_trivia (lexer_eat_while ?P ?b))"
      using "1.IH"(1) [OF refl _ line(2) twin_eat_while [OF ab]] line(1) by simp
    then show ?thesis using line peek by (subst (1 2) lexer_skip_trivia.simps) (simp add: Let_def)
  next
    case block
    have inner: "snd (lexer_skip_block (lexer_eat (lexer_eat ?a))) = snd (lexer_skip_block (lexer_eat (lexer_eat ?b)))"
      "twin (fst (lexer_skip_block (lexer_eat (lexer_eat ?a)))) (fst (lexer_skip_block (lexer_eat (lexer_eat ?b))))"
      using twin_skip_block [OF twin_eat [OF twin_eat [OF ab]]] by blast+
    obtain a2 closed where a2: "lexer_skip_block (lexer_eat (lexer_eat ?a)) = (a2, closed)" by fastforce
    then obtain b2 where b2: "lexer_skip_block (lexer_eat (lexer_eat ?b)) = (b2, closed)" "twin a2 b2"
      using inner by (cases "lexer_skip_block (lexer_eat (lexer_eat ?b))") simp
    show ?thesis
    proof (cases closed)
      case True
      have "twin (lexer_skip_trivia (lexer_eat (lexer_eat a2))) (lexer_skip_trivia (lexer_eat (lexer_eat b2)))"
        using "1.IH"(2) [OF refl _ _ block(2) a2 [symmetric] _ twin_eat [OF twin_eat [OF b2(2)]]] block True by simp
      then show ?thesis using block peek a2 b2(1) True by (subst (1 2) lexer_skip_trivia.simps) (simp add: Let_def)
    next
      case False
      then show ?thesis using block peek a2 b2 by (subst (1 2) lexer_skip_trivia.simps) (simp add: Let_def)
    qed
  qed
qed

lemma twin_string:
  assumes "twin a b" "lexer_string a = Some x" "lexer_string b = Some y"
  shows "twin_tokens x y"
proof -
  let ?o = "\<lparr>sp_line = lx_start_line a, sp_column = lx_start_column a\<rparr>"
  have same: "\<lparr>sp_line = lx_start_line b, sp_column = lx_start_column b\<rparr> = ?o" using assms(1) by (simp add: twin_def)
  have loop: "twin_steps (lexer_string_loop (lexer_eat a) ?o 0) (lexer_string_loop (lexer_eat b) ?o 0)"
    by (rule twin_string_loop [OF twin_eat [OF assms(1)]])
  show ?thesis
  proof (cases "lexer_string_loop (lexer_eat a) ?o 0")
    case (Inl e)
    then show ?thesis using loop assms same
      by (cases "lexer_string_loop (lexer_eat b) ?o 0") (auto simp: lexer_string_def Let_def)
  next
    case (Inr r)
    then obtain n a1 b1 where "lexer_string_loop (lexer_eat a) ?o 0 = Inr (n, a1)"
        "lexer_string_loop (lexer_eat b) ?o 0 = Inr (n, b1)" "twin a1 b1"
      using loop by (cases r; cases "lexer_string_loop (lexer_eat b) ?o 0") auto
    then show ?thesis using assms same twin_eat [of a1 b1]
      by (auto simp: lexer_string_def Let_def twin_token_defs bind_eq_Some_conv)
  qed
qed

fun twin_answers :: "(token \<times> lexer) option \<Rightarrow> (token \<times> lexer) option \<Rightarrow> bool" where
  "twin_answers (Some x) (Some y) \<longleftrightarrow> twin_tokens x y"
| "twin_answers _ _ \<longleftrightarrow> True"

lemma twin_answers_if:
  "(P \<Longrightarrow> twin_answers x y) \<Longrightarrow> (\<not> P \<Longrightarrow> twin_answers x' y') \<Longrightarrow> twin_answers (if P then x else x') (if P then y else y')"
  by simp

lemma twin_next:
  assumes "twin a b" "lexer_next a = Some x" "lexer_next b = Some y"
  shows "twin_tokens x y"
proof -
  let ?start = "\<lambda>l. l\<lparr>lx_start_line := lx_line l, lx_start_column := lx_column l\<rparr>"
  let ?next = "\<lambda>l p q. if is_digit p \<or> p = CHR ''.'' \<and> is_digit q then Some (lexer_number l)
      else if is_alpha p \<or> p = CHR ''_'' then Some (lexer_identifier l)
      else if p = CHR 0x22 then lexer_string l
      else if p = NUL then Some (token_create l TOKEN_EOF, l)
      else Some (lexer_operator (lexer_eat l) p)"
  have unfold: "lexer_next l = ?next (?start (lexer_skip_trivia l)) (lexer_peek (?start (lexer_skip_trivia l))) (lexer_peek2 (?start (lexer_skip_trivia l)))" for l
    by (simp add: lexer_next_def Let_def)
  define a1 b1 where ab1: "a1 = ?start (lexer_skip_trivia a)" "b1 = ?start (lexer_skip_trivia b)"
  have ab: "twin a1 b1" using twin_skip_trivia [OF assms(1)] by (simp add: twin_def ab1)
  have string: "twin_answers (lexer_string a1) (lexer_string b1)"
    using twin_string [OF ab] by (cases "lexer_string a1"; cases "lexer_string b1") simp_all
  have "twin_answers (?next a1 p q) (?next b1 p q)" for p q
    using string twin_number [OF ab] twin_identifier [OF ab] twin_operator [OF twin_eat [OF ab]] ab
    by (intro twin_answers_if) (simp_all add: twin_token_defs)
  then have "twin_answers (lexer_next a) (lexer_next b)"
    unfolding unfold ab1 [symmetric] twin_peek(1) [OF ab] twin_peek(2) [OF ab] .
  then show ?thesis using assms(2,3) by simp
qed

section \<open>What lexing adds\<close>

text \<open>Diagnostics and interned strings are only ever added.\<close>

definition adds :: "lexer \<Rightarrow> lexer \<Rightarrow> bool" where
  "adds a b \<longleftrightarrow> (\<exists>ds. ds_items (lx_diagnostics b) = ds_items (lx_diagnostics a) @ ds) \<and>
     (\<exists>ss. sp_strings (lx_strings b) = sp_strings (lx_strings a) @ ss)"

lemma adds_trans: "adds a b \<Longrightarrow> adds b c \<Longrightarrow> adds a c"
  by (fastforce simp: adds_def)

lemma adds_same: "lx_diagnostics b = lx_diagnostics a \<Longrightarrow> lx_strings b = lx_strings a \<Longrightarrow> adds a b"
  by (simp add: adds_def)

lemma adds_error [simp]: "adds a (lexer_error a k sp m)"
  by (simp add: adds_def lexer_error_def)

lemma adds_like: "adds a b \<Longrightarrow> lx_diagnostics a' = lx_diagnostics a \<Longrightarrow> lx_strings a' = lx_strings a \<Longrightarrow>
    lx_diagnostics b' = lx_diagnostics b \<Longrightarrow> lx_strings b' = lx_strings b \<Longrightarrow> adds a' b'"
  by (simp add: adds_def)

lemma adds_error_like: "lx_diagnostics b = lx_diagnostics a \<Longrightarrow> lx_strings b = lx_strings a \<Longrightarrow> adds a (lexer_error b k sp m)"
  by (simp add: adds_def lexer_error_def)

lemma adds_number: "adds a (snd (lexer_number a))"
  by (simp add: lexer_number_def Let_def adds_same adds_error_like split: option.split)

lemma adds_string_char:
  "lexer_string_char a o1 = Inl (t, b) \<Longrightarrow> adds a b" "lexer_string_char a o1 = Inr (c, b) \<Longrightarrow> adds a b"
  by (auto simp: lexer_string_char_def Let_def intro!: adds_same adds_error_like split: if_splits option.splits)

lemma adds_string_loop:
  "case lexer_string_loop a o1 n of Inl (t, b) \<Rightarrow> adds a b | Inr (m, b) \<Rightarrow> adds a b"
proof (induction a o1 n rule: lexer_string_loop.induct)
  case (1 a o1 n)
  show ?case
  proof (cases "lexer_peek a = CHR 0x22")
    case True
    then show ?thesis by (subst lexer_string_loop.simps) (simp add: adds_same)
  next
    case False
    show ?thesis
    proof (cases "lexer_string_char a o1")
      case (Inl e)
      then show ?thesis using False adds_string_char(1) by (subst lexer_string_loop.simps) (cases e; simp)
    next
      case (Inr r)
      obtain c b where r: "r = (c, b)" by fastforce
      let ?b = "lexer_eat ((lexer_reserve b (n + 1))\<lparr>lx_scratch := (lx_scratch (lexer_reserve b (n + 1)))[n := c]\<rparr>)"
      have "adds a ?b" using adds_string_char(2) [of a o1 c b] Inr r adds_like [of a b a ?b] by simp
      then show ?thesis
        using "1.IH" [OF False Inr r [symmetric] refl refl] False Inr r
        by (subst lexer_string_loop.simps) (auto simp: Let_def intro: adds_trans split: sum.splits)
    qed
  qed
qed

lemma adds_string:
  assumes "lexer_inv src (lexer_eat a)" "lexer_string a = Some (t, b)"
  shows "adds a b"
proof -
  let ?o = "\<lparr>sp_line = lx_start_line a, sp_column = lx_start_column a\<rparr>"
  note loop = adds_string_loop [of "lexer_eat a" ?o 0] and moves = lexer_moves_string_loop [OF assms(1), of ?o 0]
  have eat: "adds a (lexer_eat a)" by (rule adds_same) simp_all
  show ?thesis
  proof (cases "lexer_string_loop (lexer_eat a) ?o 0")
    case (Inl e)
    then show ?thesis using loop assms(2) adds_trans [OF eat] by (cases e) (auto simp: lexer_string_def Let_def)
  next
    case (Inr r)
    obtain n c where r: "r = (n, c)" by fastforce
    have c: "adds a c" "pool_inv (lx_strings (lexer_eat c))"
      using loop Inr r adds_trans [OF eat] moves by (auto simp: lexer_moves_def lexer_inv_def)
    obtain i pool where found: "string_from_cstr_len (lx_strings (lexer_eat c)) (take n (lx_scratch (lexer_eat c))) = Some (i, pool)"
        "\<exists>newer. sp_strings pool = sp_strings (lx_strings (lexer_eat c)) @ newer"
      using string_from_cstr_len_ok [OF c(2)] by blast
    have "adds c ((lexer_eat c)\<lparr>lx_strings := pool\<rparr>)" using found(2) by (simp add: adds_def)
    then show ?thesis
      using adds_trans [OF c(1)] assms(2) Inr r found(1) by (simp add: lexer_string_def string_from_ref_def Let_def)
  qed
qed

lemma adds_identifier: "adds a (snd (lexer_identifier a))"
  by (simp add: lexer_identifier_def Let_def adds_same split: option.split)

lemma adds_operator: "adds a (snd (lexer_operator a c))"
proof -
  have eq: "adds a (snd (lexer_handle_eq a x y))" for x y by (simp add: lexer_handle_eq_def adds_same)
  have invalid: "adds a (snd (lexer_invalid b d))" if "lx_diagnostics b = lx_diagnostics a" "lx_strings b = lx_strings a" for b d
    using that by (simp add: lexer_invalid_def Let_def adds_error_like)
  have op_eq: "adds a (snd (lexer_handle_op_eq a x y d z))" for x y d z
    by (simp add: lexer_handle_op_eq_def Let_def adds_same invalid)
  have builtin: "adds a (snd (lexer_builtin a))" by (simp add: lexer_builtin_def Let_def adds_same)
  show ?thesis
    unfolding lexer_operator_def by (simp add: eq op_eq builtin invalid adds_same)
qed

lemma skip_block_keeps:
  "lx_diagnostics (fst (lexer_skip_block a)) = lx_diagnostics a" "lx_strings (fst (lexer_skip_block a)) = lx_strings a"
proof -
  have "lx_diagnostics (fst (lexer_skip_block a)) = lx_diagnostics a \<and> lx_strings (fst (lexer_skip_block a)) = lx_strings a"
  proof (induction a rule: lexer_skip_block.induct)
    case (1 a)
    then show ?case by (subst (1 2) lexer_skip_block.simps) simp
  qed
  then show "lx_diagnostics (fst (lexer_skip_block a)) = lx_diagnostics a" "lx_strings (fst (lexer_skip_block a)) = lx_strings a"
    by blast+
qed

lemma adds_skip_trivia: "adds a (lexer_skip_trivia a)"
proof (induction a rule: lexer_skip_trivia.induct)
  case (1 a)
  let ?a = "lexer_eat_while is_space a"
  have a: "adds a ?a" by (rule adds_same) simp_all
  consider (stop) "lexer_peek ?a \<noteq> CHR ''/'' \<or> lexer_peek2 ?a \<noteq> CHR ''/'' \<and> lexer_peek2 ?a \<noteq> CHR ''*''"
    | (line) "lexer_peek ?a = CHR ''/''" "lexer_peek2 ?a = CHR ''/''"
    | (block) "lexer_peek ?a = CHR ''/''" "lexer_peek2 ?a = CHR ''*''" by blast
  then show ?case
  proof cases
    case stop
    then show ?thesis using a by (subst lexer_skip_trivia.simps) (auto simp: Let_def)
  next
    case line
    let ?l = "lexer_eat_while (\<lambda>c. c \<noteq> CHR 0x0A \<and> c \<noteq> NUL) ?a"
    have "adds a ?l" by (rule adds_same) simp_all
    then have "adds a (lexer_skip_trivia ?l)" using "1.IH"(1) [OF refl _ line(2)] line(1) by (blast intro: adds_trans)
    then show ?thesis using line by (subst lexer_skip_trivia.simps) (simp add: Let_def)
  next
    case block
    obtain b closed where b: "lexer_skip_block (lexer_eat (lexer_eat ?a)) = (b, closed)" by fastforce
    have keeps: "lx_diagnostics b = lx_diagnostics a" "lx_strings b = lx_strings a"
      using skip_block_keeps [of "lexer_eat (lexer_eat ?a)"] b by simp_all
    have "adds a (lexer_eat (lexer_eat b))" by (rule adds_same) (simp_all add: keeps)
    then show ?thesis
      using "1.IH"(2) [OF refl _ _ block(2) b [symmetric]] block b keeps
      by (subst lexer_skip_trivia.simps) (cases closed; auto simp: Let_def intro: adds_trans adds_error_like)
  qed
qed

lemma adds_next:
  assumes "lexer_inv src a" "lexer_next a = Some (t, b)"
  shows "adds a b"
proof -
  let ?a = "(lexer_skip_trivia a)\<lparr>lx_start_line := lx_line (lexer_skip_trivia a), lx_start_column := lx_column (lexer_skip_trivia a)\<rparr>"
  have skip: "adds a ?a" by (rule adds_like [OF adds_skip_trivia [of a]]) simp_all
  have inv: "lexer_inv src ?a" using lexer_moves_inv [OF lexer_moves_skip_trivia [OF assms(1)]] by simp
  have eat: "adds ?a (lexer_eat ?a)" by (rule adds_same) simp_all
  consider "lexer_number ?a = (t, b)" | "lexer_identifier ?a = (t, b)" | "lexer_peek ?a = CHR 0x22" "lexer_string ?a = Some (t, b)"
    | "b = ?a" | "lexer_operator (lexer_eat ?a) (lexer_peek ?a) = (t, b)"
    using assms(2) by (auto simp: lexer_next_def Let_def split: if_splits)
  then have "adds ?a b"
  proof cases
    case 3
    then have "lexer_inv src (lexer_eat ?a)" using lexer_inv_eat [OF inv] by (simp add: NUL_def)
    then show ?thesis using adds_string 3(2) by blast
  next
    case 5
    then show ?thesis using adds_trans [OF eat] adds_operator [of "lexer_eat ?a" "lexer_peek ?a"] by simp
  qed (use adds_number [of ?a] adds_identifier [of ?a] adds_same in auto)
  then show ?thesis by (rule adds_trans [OF skip])
qed

section \<open>The types of the tokens to come\<close>

definition types_from :: "lexer \<Rightarrow> token_type list" where
  "types_from lx = map tok_type (fst (the (lexer_tokens (Suc (length (lx_source lx) - lx_pos lx)) lx)))"

lemma lexer_tokens_more: "lexer_tokens n lx = Some r \<Longrightarrow> n \<le> m \<Longrightarrow> lexer_tokens m lx = Some r"
proof (induction n arbitrary: m lx r)
  case (Suc n)
  then obtain k where m: "m = Suc k" "n \<le> k" by (cases m) auto
  obtain t b where t: "lexer_next lx = Some (t, b)" using Suc.prems(1) by (auto simp: bind_eq_Some_conv)
  show ?case
  proof (cases "tok_type t = TOKEN_EOF")
    case False
    then obtain x where x: "lexer_tokens n b = Some x" using Suc.prems(1) t by (auto simp: bind_eq_Some_conv)
    then show ?thesis using Suc.prems(1) Suc.IH [OF x m(2)] t m(1) False by simp
  qed (use Suc.prems(1) t m(1) in simp)
qed simp

lemma types_from_next:
  assumes "lexer_inv src lx" "lexer_next lx = Some (t, lx')"
  shows "types_from lx = (if tok_type t = TOKEN_EOF then [TOKEN_EOF] else tok_type t # types_from lx')"
    "tok_type t = TOKEN_EOF \<Longrightarrow> types_from lx' = [TOKEN_EOF]"
proof -
  note ok = lexer_next_ok [OF assms(1)]
  have inv: "lexer_inv src lx'" and step: "tok_type t \<noteq> TOKEN_EOF \<Longrightarrow> lx_pos lx < lx_pos lx'"
    and eof: "tok_type t = TOKEN_EOF \<Longrightarrow> lx_pos lx' = length src"
    using ok assms(2) lexer_moves_skip_trivia [OF assms(1)] by (auto simp: lexer_moves_def)
  have src: "lx_source lx = src" "lx_source lx' = src" "lx_pos lx' \<le> length src" using assms(1) inv by (simp_all add: lexer_inv_def)
  show "types_from lx = (if tok_type t = TOKEN_EOF then [TOKEN_EOF] else tok_type t # types_from lx')"
  proof (cases "tok_type t = TOKEN_EOF")
    case False
    obtain ts lx2 where ts: "lexer_tokens (Suc (length src - lx_pos lx')) lx' = Some (ts, lx2)"
      using lexer_tokens_ok [OF inv, of "Suc (length src - lx_pos lx')"] by blast
    have "Suc (length src - lx_pos lx') \<le> length src - lx_pos lx" using step [OF False] src(3) by linarith
    from lexer_tokens_more [OF ts this] show ?thesis
      using ts False assms(2) by (simp add: types_from_def src)
  qed (use assms(2) in \<open>simp add: types_from_def\<close>)
  show "types_from lx' = [TOKEN_EOF]" if t: "tok_type t = TOKEN_EOF"
  proof -
    obtain u lx2 where u: "lexer_next lx' = Some (u, lx2)" "tok_type u \<noteq> TOKEN_EOF \<longrightarrow> lx_pos (lexer_skip_trivia lx') < lx_pos lx2" "lexer_inv src lx2"
      using lexer_next_ok [OF inv] by blast
    moreover have "length src \<le> lx_pos (lexer_skip_trivia lx')" using lexer_moves_skip_trivia [OF inv] eof [OF t] by (simp add: lexer_moves_def)
    ultimately have "tok_type u = TOKEN_EOF" by (auto simp: lexer_inv_def)
    then show ?thesis using u(1) by (simp add: types_from_def)
  qed
qed

lemma types_from_twin:
  assumes "lexer_inv src a" "lexer_inv src b" "twin a b"
  shows "types_from a = types_from b"
  using assms
proof (induction "length src - lx_pos a" arbitrary: a b rule: less_induct)
  case less
  obtain t a' where a: "lexer_next a = Some (t, a')" "lexer_inv src a'" "tok_type t \<noteq> TOKEN_EOF \<Longrightarrow> lx_pos a < lx_pos a'"
    using lexer_next_ok [OF less.prems(1)] lexer_moves_skip_trivia [OF less.prems(1)] by (auto simp: lexer_moves_def)
  obtain u b' where b: "lexer_next b = Some (u, b')" "lexer_inv src b'"
    using lexer_next_ok [OF less.prems(2)] by blast
  have tu: "tok_type t = tok_type u" "twin a' b'" using twin_next [OF less.prems(3) a(1) b(1)] by (simp_all add: twin_tokens_def)
  have "types_from a' = types_from b'" if "tok_type t \<noteq> TOKEN_EOF"
    by (rule less.hyps [OF _ a(2) b(2) tu(2)]) (use a(2,3) that less.prems(1) in \<open>auto simp: lexer_inv_def\<close>)
  then show ?case
    using types_from_next(1) [OF less.prems(1) a(1)] types_from_next(1) [OF less.prems(2) b(1)] tu(1) by simp
qed

end
