(* ===== verification/Parser_Ends.thy ===== *)
theory Parser_Ends
  imports Parser_Stmts Lexer_Twins
begin

text \<open>
  The parser returns.  A parser's size counts the characters its lexer has not passed and the token it
  holds; reading a token makes it smaller.  Every parsing function ends with a parser that is no larger,
  and reports an error whenever it answers NULL; eight steps for each unit of size are enough.  The one
  loop that may stand still is the recovery inside a block, at a keyword that only opens a declaration:
  no such keyword may follow a brace.
\<close>

section \<open>Size and soundness of a parser\<close>

definition size_of :: "parser \<Rightarrow> nat" where
  "size_of ps =
     2 * (length (lx_source (ps_lexer ps)) - lx_pos (ps_lexer ps)) +
     (if ps_type ps = TOKEN_EOF then 0 else if ps_type ps = TOKEN_AND then 2 else 1)"

definition blocking :: "token_type set" where
  "blocking = {TOKEN_EXTERN, TOKEN_CALLER, TOKEN_MODULE}"

text \<open>Inside a block no such keyword may come; outside, none after the next brace.\<close>

definition calm :: "bool \<Rightarrow> token_type list \<Rightarrow> bool" where
  "calm inside types \<longleftrightarrow> set (if inside then types else dropWhile (\<lambda>t. t \<noteq> TOKEN_LBRACE) types) \<inter> blocking = {}"

definition parser_ok :: "string \<Rightarrow> bool \<Rightarrow> parser \<Rightarrow> bool" where
  "parser_ok src inside ps \<longleftrightarrow> lexer_inv src (ps_lexer ps) \<and>
     (ps_type ps = TOKEN_EOF \<longrightarrow> lx_pos (ps_lexer ps) = length src) \<and>
     calm inside (ps_type ps # types_from (ps_lexer ps))"

lemma calm_tail: "calm m (t # ts) \<Longrightarrow> calm m ts"
  by (auto simp: calm_def split: if_splits dest: set_dropWhileD)

lemma calm_outside: "calm True ts \<Longrightarrow> calm False ts"
  by (auto simp: calm_def dest: set_dropWhileD)

lemma calm_brace: "calm m (TOKEN_LBRACE # ts) \<Longrightarrow> calm True ts"
  by (cases m) (auto simp: calm_def)

lemma calm_eof: "calm m [TOKEN_EOF, TOKEN_EOF]"
  by (simp add: calm_def blocking_def)

lemma calm_amp: "calm m (TOKEN_AND # ts) \<Longrightarrow> calm m (TOKEN_AMP # ts)"
  by (auto simp: calm_def blocking_def split: if_splits)

text \<open>The parser after a step: sound, no larger, the same token unless smaller, and no diagnostic lost.\<close>

definition goes :: "string \<Rightarrow> bool \<Rightarrow> parser \<Rightarrow> parser \<Rightarrow> bool" where
  "goes src m ps ps' \<longleftrightarrow> parser_ok src m ps' \<and> size_of ps' \<le> size_of ps \<and> parser_errors ps \<le> parser_errors ps' \<and>
     (size_of ps' = size_of ps \<longrightarrow> ps_type ps' = ps_type ps)"

lemma goes_refl: "parser_ok src m ps \<Longrightarrow> goes src m ps ps"
  by (simp add: goes_def)

lemma goes_trans: "goes src m a b \<Longrightarrow> goes src m b c \<Longrightarrow> goes src m a c"
  by (auto simp: goes_def)

lemma goes_ok: "goes src m a b \<Longrightarrow> parser_ok src m b"
  by (simp add: goes_def)

lemma next_token:
  assumes "parser_ok src m ps"
  obtains ps' where "parser_next_token ps = Some ps'" "goes src m ps ps'" "ps_type ps \<noteq> TOKEN_EOF \<Longrightarrow> size_of ps' < size_of ps"
    "ps_type ps = TOKEN_LBRACE \<Longrightarrow> parser_ok src True ps'"
proof -
  have inv: "lexer_inv src (ps_lexer ps)" using assms by (simp add: parser_ok_def)
  obtain t lx where t: "lexer_next (ps_lexer ps) = Some (t, lx)" "lexer_inv src lx" "lx_pos (ps_lexer ps) \<le> lx_pos lx"
      "tok_type t = TOKEN_EOF \<Longrightarrow> lx_pos lx = length src" "tok_type t \<noteq> TOKEN_EOF \<Longrightarrow> lx_pos (ps_lexer ps) < lx_pos lx"
    using lexer_next_ok [OF inv] lexer_moves_skip_trivia [OF inv] by (fastforce simp: lexer_moves_def)
  let ?ps = "\<lparr>ps_lexer = lx, ps_current = t\<rparr>"
  have src: "lx_source (ps_lexer ps) = src" "lx_source lx = src" "lx_pos lx \<le> length src" "lx_pos (ps_lexer ps) \<le> length src"
    using inv t(2) by (simp_all add: lexer_inv_def)
  have types: "types_from (ps_lexer ps) = (if tok_type t = TOKEN_EOF then [TOKEN_EOF] else tok_type t # types_from lx)"
    "tok_type t = TOKEN_EOF \<Longrightarrow> types_from lx = [TOKEN_EOF]"
    using types_from_next [OF inv t(1)] by blast+
  have calm: "calm m (tok_type t # types_from lx)"
    using assms types calm_tail calm_eof by (cases "tok_type t = TOKEN_EOF") (auto simp: parser_ok_def)
  have eof: "tok_type t = TOKEN_EOF" if "ps_type ps = TOKEN_EOF"
    using t(5) src(3) assms that by (cases "tok_type t = TOKEN_EOF") (auto simp: parser_ok_def)
  have ok: "parser_ok src m ?ps" using t(2,4) calm by (simp add: parser_ok_def)
  have size: "size_of ?ps < size_of ps" if "ps_type ps \<noteq> TOKEN_EOF"
  proof -
    obtain a b where ab: "a = length src - lx_pos lx" "b = length src - lx_pos (ps_lexer ps)" by blast
    have "a \<le> b" "tok_type t \<noteq> TOKEN_EOF \<longrightarrow> Suc a \<le> b" using t(3,5) src(3) by (auto simp: ab)
    moreover have "size_of ?ps = 2 * a + (if tok_type t = TOKEN_EOF then 0 else if tok_type t = TOKEN_AND then 2 else 1)"
      "size_of ps = 2 * b + (if ps_type ps = TOKEN_AND then 2 else 1)"
      using src that by (simp_all add: size_of_def ab)
    ultimately show ?thesis by (auto split: if_splits)
  qed
  have "parser_errors ps \<le> parser_errors ?ps"
    using adds_next [OF inv t(1)] by (auto simp: adds_def parser_errors_def diagnostics_count_def)
  moreover have "size_of ?ps = size_of ps" if "ps_type ps = TOKEN_EOF"
    using eof [OF that] that t(4) src assms by (simp add: size_of_def parser_ok_def)
  ultimately have "goes src m ps ?ps"
    using ok size eof by (cases "ps_type ps = TOKEN_EOF") (auto simp: goes_def)
  moreover have "parser_ok src True ?ps" if "ps_type ps = TOKEN_LBRACE"
  proof -
    have "calm True (types_from (ps_lexer ps))" using assms calm_brace that by (auto simp: parser_ok_def)
    then have "calm True (tok_type t # types_from lx)" using types calm_eof by (cases "tok_type t = TOKEN_EOF") auto
    then show ?thesis using t(2,4) by (simp add: parser_ok_def)
  qed
  moreover have "parser_next_token ps = Some ?ps" using t(1) by (simp add: parser_next_token_def)
  ultimately show ?thesis using that size by blast
qed

lemma diag_goes:
  assumes "parser_ok src m ps"
  shows "goes src m ps (parser_diag k sp msg ps)" "parser_errors ps < parser_errors (parser_diag k sp msg ps)"
    "size_of (parser_diag k sp msg ps) = size_of ps" "ps_type (parser_diag k sp msg ps) = ps_type ps"
proof -
  let ?lx = "lexer_error (ps_lexer ps) k sp msg"
  have inv: "lexer_inv src (ps_lexer ps)" "lexer_inv src ?lx" using assms by (simp_all add: parser_ok_def)
  have "types_from ?lx = types_from (ps_lexer ps)" by (rule types_from_twin [OF inv(2,1)]) simp
  moreover show "size_of (parser_diag k sp msg ps) = size_of ps" "ps_type (parser_diag k sp msg ps) = ps_type ps"
    by (simp_all add: size_of_def parser_diag_def)
  moreover show "parser_errors ps < parser_errors (parser_diag k sp msg ps)"
    by (simp add: parser_errors_def parser_diag_def lexer_error_def)
  ultimately show "goes src m ps (parser_diag k sp msg ps)"
    using assms inv(2) by (simp add: goes_def parser_ok_def parser_diag_def)
qed

lemmas error_goes = diag_goes [where k = GAB_ERR_SYNTAX and sp = "parser_span ps" and ps = ps for ps]

lemma strings_goes:
  assumes "parser_ok src m ps" "pool_inv pool"
  shows "goes src m ps (ps\<lparr>ps_lexer := (ps_lexer ps)\<lparr>lx_strings := pool\<rparr>\<rparr>)"
    "size_of (ps\<lparr>ps_lexer := (ps_lexer ps)\<lparr>lx_strings := pool\<rparr>\<rparr>) = size_of ps"
proof -
  have inv: "lexer_inv src (ps_lexer ps)" "lexer_inv src ((ps_lexer ps)\<lparr>lx_strings := pool\<rparr>)"
    using assms by (simp_all add: parser_ok_def lexer_inv_def)
  have "types_from ((ps_lexer ps)\<lparr>lx_strings := pool\<rparr>) = types_from (ps_lexer ps)"
    by (rule types_from_twin [OF inv(2,1)]) simp
  then show "goes src m ps (ps\<lparr>ps_lexer := (ps_lexer ps)\<lparr>lx_strings := pool\<rparr>\<rparr>)"
    using assms inv(2) by (simp add: goes_def parser_ok_def size_of_def parser_errors_def)
  show "size_of (ps\<lparr>ps_lexer := (ps_lexer ps)\<lparr>lx_strings := pool\<rparr>\<rparr>) = size_of ps" by (simp add: size_of_def)
qed

lemma ident_goes:
  assumes "parser_ok src m ps"
  obtains i ps' where "parser_ident sp name ps = Some (i, ps')" "goes src m ps ps'" "size_of ps' = size_of ps" "ps_type ps' = ps_type ps"
proof -
  have "pool_inv (lx_strings (ps_lexer ps))" using assms by (simp add: parser_ok_def lexer_inv_def)
  from string_from_cstr_len_ok [OF this, of name] obtain i pool where
    "string_from_cstr_len (lx_strings (ps_lexer ps)) name = Some (i, pool)" "pool_inv pool" by blast
  then show ?thesis
    using that strings_goes [OF assms] by (simp add: parser_ident_def ast_ident_create_def string_from_ref_def)
qed

lemma take_ident_goes:
  assumes "parser_ok src m ps" "ps_type ps = TOKEN_IDENT"
  obtains i ps' where "parser_take_ident ps = Some (i, ps')" "goes src m ps ps'" "size_of ps' < size_of ps"
proof -
  obtain i ps1 where 1: "parser_ident (parser_span ps) (tok_lexeme (ps_current ps)) ps = Some (i, ps1)" "goes src m ps ps1"
      "size_of ps1 = size_of ps" "ps_type ps1 = ps_type ps"
    by (rule ident_goes [OF assms(1)])
  obtain ps2 where 2: "parser_next_token ps1 = Some ps2" "goes src m ps1 ps2" "size_of ps2 < size_of ps1"
    using next_token [OF goes_ok [OF 1(2)]] 1(4) assms(2) by (metis token_type.distinct)
  show ?thesis using that 1 2 goes_trans by (fastforce simp: parser_take_ident_def)
qed

lemma restore_goes:
  assumes "parser_ok src m ps" "parser_ok src m' ps'" "parser_errors ps \<le> parser_errors ps'"
  shows "goes src m ps (parser_restore ps ps')" "size_of (parser_restore ps ps') = size_of ps" "ps_type (parser_restore ps ps') = ps_type ps"
proof -
  let ?lx = "(ps_lexer ps)\<lparr>lx_diagnostics := lx_diagnostics (ps_lexer ps'), lx_strings := lx_strings (ps_lexer ps')\<rparr>"
  have inv: "lexer_inv src (ps_lexer ps)" "lexer_inv src ?lx" using assms(1,2) by (simp_all add: parser_ok_def lexer_inv_def)
  have "types_from ?lx = types_from (ps_lexer ps)" by (rule types_from_twin [OF inv(2,1)]) simp
  then show "goes src m ps (parser_restore ps ps')"
    using assms inv(2) by (simp add: goes_def parser_ok_def parser_restore_def size_of_def parser_errors_def)
  show "size_of (parser_restore ps ps') = size_of ps" "ps_type (parser_restore ps ps') = ps_type ps"
    by (simp_all add: size_of_def parser_restore_def)
qed

section \<open>Parsing functions that end\<close>

text \<open>A result reached from \<open>ps\<close>: an absent one comes with an error; \<open>f\<close> and \<open>s\<close> say that something was
  read where the call failed and where it succeeded.\<close>

definition runs :: "string \<Rightarrow> bool \<Rightarrow> bool \<Rightarrow> bool \<Rightarrow> parser \<Rightarrow> 'r parsed \<Rightarrow> bool" where
  "runs src m f s ps r \<longleftrightarrow> (\<exists>q ps'. r = Some (q, ps') \<and> goes src m ps ps' \<and>
     (q = None \<longrightarrow> parser_errors ps < parser_errors ps' \<and> (f \<longrightarrow> size_of ps' < size_of ps)) \<and>
     (q \<noteq> None \<longrightarrow> s \<longrightarrow> size_of ps' < size_of ps))"

lemma runs_any: "runs src m f s ps r \<Longrightarrow> runs src m False False ps r"
  by (auto simp: runs_def)

lemma runs_unfailing: "runs src m f s ps r \<Longrightarrow> runs src m False s ps r"
  by (auto simp: runs_def)

lemma runs_parsed: "parser_ok src m ps \<Longrightarrow> runs src m f False ps (parsed r ps)"
  by (simp add: runs_def parsed_def goes_refl)

lemma runs_error:
  assumes "parser_ok src m ps"
  shows "runs src m False s ps (no_parse (parser_error msg ps))" "runs src m False s ps (no_parse (parser_error_found msg ps))"
  using diag_goes [OF assms] by (simp_all add: runs_def no_parse_def parser_error_def parser_error_found_def)

lemma runs_later: "goes src m ps ps' \<Longrightarrow> runs src m f s ps' r \<Longrightarrow> runs src m f s ps r"
  by (auto simp: runs_def goes_def)

lemma runs_past: "goes src m ps ps' \<Longrightarrow> size_of ps' < size_of ps \<Longrightarrow> runs src m f' s' ps' r \<Longrightarrow> runs src m f s ps r"
  by (fastforce simp: runs_def goes_def)

lemma runs_then:
  assumes "runs src m f True ps p"
    "\<And>q ps'. goes src m ps ps' \<Longrightarrow> parser_ok src m ps' \<Longrightarrow> size_of ps' < size_of ps \<Longrightarrow> runs src m False False ps' (k q ps')"
  shows "runs src m f True ps (then_parse p k)"
proof -
  obtain q ps' where p: "p = Some (q, ps')" "goes src m ps ps'" "q = None \<Longrightarrow> parser_errors ps < parser_errors ps' \<and> (f \<longrightarrow> size_of ps' < size_of ps)"
      "q \<noteq> None \<Longrightarrow> size_of ps' < size_of ps"
    using assms(1) by (auto simp: runs_def)
  show ?thesis
  proof (cases q)
    case None
    then show ?thesis using p by (simp add: then_parse_def no_parse_def runs_def)
  next
    case (Some x)
    then have "runs src m False False ps' (k x ps')" using assms(2) p goes_ok by blast
    then show ?thesis using runs_past [OF p(2)] p(1,4) Some by (simp add: then_parse_def)
  qed
qed

lemma runs_then_weak:
  assumes "runs src m f False ps p"
    "\<And>q ps'. goes src m ps ps' \<Longrightarrow> parser_ok src m ps' \<Longrightarrow> size_of ps' \<le> size_of ps \<Longrightarrow> runs src m f s ps' (k q ps')"
  shows "runs src m f s ps (then_parse p k)"
proof -
  obtain q ps' where p: "p = Some (q, ps')" "goes src m ps ps'" "q = None \<Longrightarrow> parser_errors ps < parser_errors ps' \<and> (f \<longrightarrow> size_of ps' < size_of ps)"
    using assms(1) by (auto simp: runs_def)
  show ?thesis
  proof (cases q)
    case None
    then show ?thesis using p by (simp add: then_parse_def no_parse_def runs_def)
  next
    case (Some x)
    then have "runs src m f s ps' (k x ps')" using assms(2) p goes_ok by (auto simp: goes_def)
    then show ?thesis using runs_later [OF p(2)] p(1) Some by (simp add: then_parse_def)
  qed
qed

lemma runs_next:
  assumes "parser_ok src m ps" "ps_type ps \<noteq> TOKEN_EOF"
    "\<And>ps'. goes src m ps ps' \<Longrightarrow> parser_ok src m ps' \<Longrightarrow> size_of ps' < size_of ps \<Longrightarrow> runs src m False False ps' (k ps')"
  shows "runs src m f s ps (Option.bind (parser_next_token ps) k)"
proof -
  obtain ps' where p: "parser_next_token ps = Some ps'" "goes src m ps ps'" "size_of ps' < size_of ps"
    using next_token [OF assms(1)] assms(2) by metis
  show ?thesis using runs_past [OF p(2,3) assms(3) [OF p(2) goes_ok [OF p(2)] p(3)]] p(1) by simp
qed

lemma runs_next_weak:
  assumes "parser_ok src m ps"
    "\<And>ps'. goes src m ps ps' \<Longrightarrow> parser_ok src m ps' \<Longrightarrow> size_of ps' \<le> size_of ps \<Longrightarrow> runs src m f s ps' (k ps')"
  shows "runs src m f s ps (Option.bind (parser_next_token ps) k)"
proof -
  obtain ps' where p: "parser_next_token ps = Some ps'" "goes src m ps ps'"
    using next_token [OF assms(1)] by metis
  show ?thesis using runs_later [OF p(2) assms(2) [OF p(2) goes_ok [OF p(2)]]] p by (simp add: goes_def)
qed

lemma runs_expecting:
  assumes "parser_ok src m ps" "ps_type ps = type \<Longrightarrow> runs src m False s ps (k ps)"
  shows "runs src m False s ps (expecting type msg ps k)"
  using assms by (simp add: expecting_def parser_expect_def runs_error)

lemma runs_ident:
  assumes "parser_ok src m ps"
    "\<And>i ps'. goes src m ps ps' \<Longrightarrow> parser_ok src m ps' \<Longrightarrow> size_of ps' = size_of ps \<Longrightarrow> ps_type ps' = ps_type ps \<Longrightarrow> runs src m f s ps' (k i ps')"
  shows "runs src m f s ps (Option.bind (parser_ident sp name ps) (\<lambda>(i, ps). k i ps))"
proof -
  obtain i ps' where p: "parser_ident sp name ps = Some (i, ps')" "goes src m ps ps'" "size_of ps' = size_of ps" "ps_type ps' = ps_type ps"
    by (rule ident_goes [OF assms(1)])
  show ?thesis using runs_later [OF p(2) assms(2) [OF p(2) goes_ok [OF p(2)] p(3,4)]] p(1) by simp
qed

lemma runs_take_ident:
  assumes "parser_ok src m ps" "ps_type ps = TOKEN_IDENT"
    "\<And>i ps'. goes src m ps ps' \<Longrightarrow> parser_ok src m ps' \<Longrightarrow> size_of ps' < size_of ps \<Longrightarrow> runs src m False False ps' (k i ps')"
  shows "runs src m f s ps (Option.bind (parser_take_ident ps) (\<lambda>(i, ps). k i ps))"
proof -
  obtain i ps' where p: "parser_take_ident ps = Some (i, ps')" "goes src m ps ps'" "size_of ps' < size_of ps"
    by (rule take_ident_goes [OF assms(1,2)])
  show ?thesis using runs_past [OF p(2,3) assms(3) [OF p(2) goes_ok [OF p(2)] p(3)]] p(1) by simp
qed

lemma runs_if: "(P \<Longrightarrow> runs src m f s ps a) \<Longrightarrow> (\<not> P \<Longrightarrow> runs src m f s ps b) \<Longrightarrow> runs src m f s ps (if P then a else b)"
  by simp

lemmas runs_seq = runs_then_weak [where f = False and s = False]

lemmas runs_intros = runs_if runs_next runs_then runs_seq runs_expecting runs_ident runs_take_ident runs_error runs_parsed

section \<open>Type expressions\<close>

lemma split_and_runs:
  assumes "parser_ok src m ps" "ps_type ps = TOKEN_AND"
  shows "goes src m ps (ps\<lparr>ps_current := (ps_current ps)\<lparr>tok_type := TOKEN_AMP\<rparr>\<rparr>)"
    "size_of (ps\<lparr>ps_current := (ps_current ps)\<lparr>tok_type := TOKEN_AMP\<rparr>\<rparr>) < size_of ps"
  using assms calm_amp by (auto simp: goes_def parser_ok_def size_of_def parser_errors_def)

lemma types_run:
  "\<And>ps. parser_ok src m ps \<Longrightarrow> 8 * size_of ps + 1 \<le> n \<Longrightarrow> runs src m False True ps (parse_type_expr n ps)"
  "\<And>ps. parser_ok src m ps \<Longrightarrow> ps_type ps \<noteq> TOKEN_EOF \<Longrightarrow> 8 * size_of ps + 1 \<le> n \<Longrightarrow> runs src m True True ps (parse_type_args n ps)"
  "\<And>ps args. parser_ok src m ps \<Longrightarrow> 8 * size_of ps + 2 \<le> n \<Longrightarrow> runs src m False True ps (parse_type_args_loop n args ps)"
proof (induction n)
  case (Suc n)
  note type_runs = Suc.IH(1) and args_run = Suc.IH(2) and loop_runs = Suc.IH(3)
  {
    case (1 ps)
    show ?case
    proof (cases "ps_type ps = TOKEN_AND")
      case True
      note split = split_and_runs [OF "1.prems"(1) True]
      show ?thesis
        using True runs_past [OF split runs_then [OF type_runs [OF goes_ok [OF split(1)]] runs_any [OF runs_parsed]]] split(2) "1.prems"(2)
        by simp
    next
      case False
      show ?thesis
        using False "1.prems" by (auto intro!: runs_intros runs_any [OF args_run] type_runs runs_any [OF type_runs] simp: Let_def)
    qed
  next
    case (2 ps)
    then show ?case by (auto intro!: runs_next runs_any [OF loop_runs])
  next
    case (3 ps args)
    then show ?case by (auto intro!: runs_intros runs_any [OF loop_runs] type_runs simp: Let_def)
  }
qed simp_all

lemmas type_runs = types_run(1) runs_any [OF types_run(1)]
lemmas type_args_run = types_run(2) runs_any [OF types_run(2)]

lemma field_runs: "parser_ok src m ps \<Longrightarrow> 8 * size_of ps + 1 \<le> n \<Longrightarrow> runs src m False True ps (parse_field n msg ps)"
  by (auto simp: parse_field_def intro!: runs_intros type_runs)

lemma runs_bind_if:
  "(P \<Longrightarrow> runs src m f s ps (Option.bind a k)) \<Longrightarrow> (\<not> P \<Longrightarrow> runs src m f s ps (Option.bind b k)) \<Longrightarrow>
   runs src m f s ps (Option.bind (if P then a else b) k)"
  by simp

lemma type_params_loop_runs:
  "parser_ok src m ps \<Longrightarrow> 8 * size_of ps + 1 \<le> n \<Longrightarrow> runs src m False True ps (parse_type_params_loop n out owner ps)"
proof (induction n arbitrary: out ps)
  case (Suc n)
  show ?case unfolding parse_type_params_loop.simps
    by (intro runs_intros runs_any [OF Suc.IH] type_runs Suc.prems) (use Suc.prems in simp_all)
qed simp

lemma type_params_run: "parser_ok src m ps \<Longrightarrow> 8 * size_of ps + 1 \<le> n \<Longrightarrow> runs src m False False ps (parse_type_params n owner ps)"
  unfolding parse_type_params_def by (intro runs_intros runs_any [OF type_params_loop_runs]) simp_all

section \<open>Looking ahead\<close>

lemma ends_if:
  "(P \<Longrightarrow> \<exists>b ps'. x = Some (b, ps') \<and> goes src m ps ps') \<Longrightarrow> (\<not> P \<Longrightarrow> \<exists>b ps'. y = Some (b, ps') \<and> goes src m ps ps') \<Longrightarrow>
   \<exists>b ps'. (if P then x else y) = Some (b, ps') \<and> goes src m ps ps'"
  by simp

lemma scan_loop_ends:
  "parser_ok src m ps \<Longrightarrow> size_of ps < n \<Longrightarrow> \<exists>b ps'. scan_type_args_loop n depth after ps = Some (b, ps') \<and> goes src m ps ps'"
proof (induction n arbitrary: depth ps)
  case (Suc n)
  have step: "\<exists>b ps'. Option.bind (parser_next_token ps) (\<lambda>ps. scan_type_args_loop n d after ps) = Some (b, ps') \<and> goes src m ps ps'"
    if reads: "ps_type ps \<noteq> TOKEN_EOF" for d
  proof -
    obtain ps1 where 1: "parser_next_token ps = Some ps1" "goes src m ps ps1" "size_of ps1 < size_of ps"
      using next_token [OF Suc.prems(1)] reads by metis
    have "size_of ps1 < n" using 1(3) Suc.prems(2) by simp
    from Suc.IH [OF goes_ok [OF 1(2)] this, of d] obtain b ps2 where
      2: "scan_type_args_loop n d after ps1 = Some (b, ps2)" "goes src m ps1 ps2" by blast
    show ?thesis using 1(1) 2(1) goes_trans [OF 1(2) 2(2)] by simp
  qed
  have stop: "\<exists>b ps'. Some (c, ps) = Some (b, ps') \<and> goes src m ps ps'" for c
    using goes_refl [OF Suc.prems(1)] by simp
  show ?case
    unfolding scan_type_args_loop.simps by (intro ends_if stop step) auto
qed simp

lemma scan_ends:
  assumes "parser_ok src m ps" "size_of ps < n"
  obtains b ps' where "parser_scan_type_args n after ps = Some (b, ps')" "goes src m ps ps'"
proof -
  obtain ps1 where 1: "parser_next_token ps = Some ps1" "goes src m ps ps1" using next_token [OF assms(1)] by metis
  then obtain b ps2 where "scan_type_args_loop n 1 after ps1 = Some (b, ps2)" "goes src m ps1 ps2"
    using scan_loop_ends [OF goes_ok [OF 1(2)], of n 1 after] assms(2) by (auto simp: goes_def)
  then show ?thesis using that 1 goes_trans by (fastforce simp: parser_scan_type_args_def)
qed

definition looks :: "string \<Rightarrow> bool \<Rightarrow> parser \<Rightarrow> (bool \<times> parser) option \<Rightarrow> bool" where
  "looks src m ps r \<longleftrightarrow> (\<exists>b ps'. r = Some (b, ps') \<and> goes src m ps ps' \<and> size_of ps' = size_of ps \<and> ps_type ps' = ps_type ps)"

lemma looks_close:
  assumes "parser_ok src m ps" "size_of ps < n"
  shows "looks src m ps (parser_type_args_close_with n after ps)"
proof -
  obtain b ps' where scan: "parser_scan_type_args n after ps = Some (b, ps')" "goes src m ps ps'"
    by (rule scan_ends [OF assms])
  then have "parser_errors ps \<le> parser_errors ps'" "parser_ok src m ps'" by (simp_all add: goes_def)
  then show ?thesis
    using scan(1) restore_goes [OF assms(1)] unfolding looks_def parser_type_args_close_with_def by simp
qed

lemma looks_cast:
  assumes "parser_ok src m ps" "size_of ps < n"
  shows "looks src m ps (parser_star_precedes_a_cast n ps)"
proof -
  obtain ps1 where 1: "parser_next_token ps = Some ps1" "goes src m ps ps1" using next_token [OF assms(1)] by metis
  obtain ps2 where 2: "parser_next_token ps1 = Some ps2" "goes src m ps1 ps2" using next_token [OF goes_ok [OF 1(2)]] by metis
  have "size_of ps2 < n" using 1(2) 2(2) assms(2) by (simp add: goes_def)
  then obtain b ps3 where 3: "parser_scan_type_args n TOKEN_LPAREN ps2 = Some (b, ps3)" "goes src m ps2 ps3"
    by (rule scan_ends [OF goes_ok [OF 2(2)]])
  have later: "looks src m ps (Some (b, parser_restore ps ps'))" if "goes src m ps ps'" for b ps'
    using that restore_goes [OF assms(1), of m ps'] by (simp add: looks_def goes_def)
  show ?thesis
    using 1 2 3 later goes_trans [OF 1(2) 2(2)] goes_trans [OF goes_trans [OF 1(2) 2(2)] 3(2)]
    by (simp add: parser_star_precedes_a_cast_def)
qed

lemma looks_some: "parser_ok src m ps \<Longrightarrow> looks src m ps (Some (b, ps))"
  by (simp add: looks_def goes_refl)

lemma looks_struct_lit: "parser_ok src m ps \<Longrightarrow> size_of ps < n \<Longrightarrow> looks src m ps (starts_struct_lit n expr ctx ps)"
  using looks_close by (auto simp: starts_struct_lit_def parser_type_args_precede_a_brace_def looks_def goes_refl ex_bool_eq)

lemma runs_look:
  assumes "looks src m ps p"
    "\<And>b ps'. p = Some (b, ps') \<Longrightarrow> parser_ok src m ps' \<Longrightarrow> size_of ps' = size_of ps \<Longrightarrow> ps_type ps' = ps_type ps \<Longrightarrow> runs src m f s ps' (k b ps')"
  shows "runs src m f s ps (Option.bind p (\<lambda>(b, ps). k b ps))"
proof -
  obtain b ps' where p: "p = Some (b, ps')" "goes src m ps ps'" "size_of ps' = size_of ps" "ps_type ps' = ps_type ps"
    using assms(1) by (auto simp: looks_def)
  show ?thesis using runs_later [OF p(2) assms(2) [OF p(1) goes_ok [OF p(2)] p(3,4)]] p(1) by simp
qed

section \<open>Expressions\<close>

definition ex_runs :: "string \<Rightarrow> bool \<Rightarrow> nat \<Rightarrow> expr_parser \<Rightarrow> bool" where
  "ex_runs src m bound ex \<longleftrightarrow> (\<forall>ps p ctx. parser_ok src m ps \<longrightarrow> size_of ps < bound \<longrightarrow> runs src m False True ps (ex p ctx ps))"

lemma ex_runsD:
  "ex_runs src m bound ex \<Longrightarrow> parser_ok src m ps \<Longrightarrow> size_of ps < bound \<Longrightarrow> runs src m False True ps (ex p ctx ps)"
  "ex_runs src m bound ex \<Longrightarrow> parser_ok src m ps \<Longrightarrow> size_of ps < bound \<Longrightarrow> runs src m False False ps (ex p ctx ps)"
  by (auto simp: ex_runs_def intro: runs_any)

lemma type_args_for_runs:
  "parser_ok src m ps \<Longrightarrow> ps_type ps \<noteq> TOKEN_EOF \<Longrightarrow> 8 * size_of ps + 1 \<le> n \<Longrightarrow> runs src m True True ps (parse_type_args_for n i ps)"
  by (auto simp: parse_type_args_for_def intro!: runs_intros type_args_run)

lemma owner_runs:
  "parser_ok src m ps \<Longrightarrow> 8 * size_of ps + 1 \<le> n \<Longrightarrow> runs src m False False ps (parse_owner n sp lexeme ps)"
  unfolding parse_owner_def parser_type_args_precede_colons_def parser_type_args_precede_a_call_def
  by (auto intro!: runs_intros runs_look runs_bind_if looks_close looks_some runs_any [OF type_args_for_runs])

lemma builtin_runs:
  "parser_ok src m ps \<Longrightarrow> ps_type ps \<noteq> TOKEN_EOF \<Longrightarrow> 8 * size_of ps + 1 \<le> n \<Longrightarrow> runs src m True True ps (parse_builtin n ps)"
  by (auto simp: parse_builtin_def Let_def intro!: runs_intros runs_any [OF type_args_for_runs])

lemma name_runs:
  "parser_ok src m ps \<Longrightarrow> ps_type ps \<noteq> TOKEN_EOF \<Longrightarrow> 8 * size_of ps + 1 \<le> n \<Longrightarrow> runs src m True True ps (parse_name n ps)"
  by (auto simp: parse_name_def Let_def intro!: runs_intros owner_runs)

lemma elements_run:
  "ex_runs src m bound ex \<Longrightarrow> parser_ok src m ps \<Longrightarrow> size_of ps < bound \<Longrightarrow> size_of ps < n \<Longrightarrow>
   runs src m False False ps (parse_elements n ex elements ps)"
proof (induction n arbitrary: elements ps)
  case (Suc n)
  show ?case using Suc.prems
    by (auto intro!: runs_intros ex_runsD Suc.IH)
qed simp

lemma call_args_loop_runs:
  "ex_runs src m bound ex \<Longrightarrow> parser_ok src m ps \<Longrightarrow> size_of ps < bound \<Longrightarrow> size_of ps < n \<Longrightarrow>
   runs src m False True ps (parse_call_args_loop n ex args ps)"
proof (induction n arbitrary: args ps)
  case (Suc n)
  show ?case using Suc.prems
    by (auto intro!: runs_intros runs_bind_if ex_runsD runs_any [OF Suc.IH])
qed simp

lemma call_args_run:
  "ex_runs src m bound ex \<Longrightarrow> parser_ok src m ps \<Longrightarrow> size_of ps \<le> bound \<Longrightarrow> ps_type ps \<noteq> TOKEN_EOF \<Longrightarrow> size_of ps \<le> n \<Longrightarrow>
   runs src m True True ps (parse_call_args n ex ps)"
  by (auto simp: parse_call_args_def intro!: runs_intros runs_any [OF call_args_loop_runs])

lemma field_inits_run:
  "ex_runs src m bound ex \<Longrightarrow> parser_ok src m ps \<Longrightarrow> size_of ps < bound \<Longrightarrow> size_of ps < n \<Longrightarrow>
   runs src m False False ps (parse_field_inits n ex inits ps)"
proof (induction n arbitrary: inits ps)
  case (Suc n)
  show ?case
    unfolding parse_field_inits.simps using Suc.prems by (auto intro!: runs_intros ex_runsD Suc.IH)
qed simp

lemma name_is_struct_type: "expr_is_a_name e \<Longrightarrow> \<exists>t. struct_lit_type_expr e = Some t"
  by (cases e) simp_all

lemma starts_struct_lit_name: "starts_struct_lit n e ctx ps = Some (True, ps') \<Longrightarrow> expr_is_a_name e"
  by (auto simp: starts_struct_lit_def split: if_splits)

lemma struct_lit_runs:
  assumes "ex_runs src m bound ex" "parser_ok src m ps" "size_of ps \<le> bound" "8 * size_of ps + 1 \<le> n" "expr_is_a_name target"
  shows "runs src m False True ps (parse_struct_lit_expr n ex target ps)"
proof -
  obtain base where base: "struct_lit_type_expr target = Some base" using name_is_struct_type [OF assms(5)] by blast
  have "runs src m False True ps (then_parse
      (if ps_type ps = TOKEN_LESS then then_parse (parse_type_args n ps) (\<lambda>args. parsed (TYPE_EXPR_APPLY base args)) else parsed base ps)
      (\<lambda>type_expr ps. expecting TOKEN_LBRACE msg ps (\<lambda>ps. Option.bind (parser_next_token ps) (\<lambda>ps.
        then_parse (parse_field_inits n ex [] ps) (\<lambda>inits ps. Option.bind (parser_next_token ps)
          (parsed (ast_struct_lit_expr_create (ex_span target) type_expr inits)))))))" for msg
    by (rule runs_then_weak) (use assms in \<open>auto intro!: runs_intros runs_next_weak [where s = False] type_args_run field_inits_run\<close>)
  then show ?thesis by (simp add: parse_struct_lit_expr_def base)
qed

lemma call_expr_runs:
  "ex_runs src m bound ex \<Longrightarrow> parser_ok src m ps \<Longrightarrow> size_of ps \<le> bound \<Longrightarrow> ps_type ps \<noteq> TOKEN_EOF \<Longrightarrow> size_of ps \<le> n \<Longrightarrow>
   runs src m True True ps (parse_call_expr n ex target ps)"
  by (auto simp: parse_call_expr_def intro!: runs_intros call_args_run)

lemma method_call_runs:
  "ex_runs src m bound ex \<Longrightarrow> parser_ok src m ps \<Longrightarrow> size_of ps \<le> bound \<Longrightarrow> ps_type ps \<noteq> TOKEN_EOF \<Longrightarrow> size_of ps \<le> n \<Longrightarrow>
   runs src m True True ps (parse_method_call_expr n ex receiver name sp ps)"
  by (auto simp: parse_method_call_expr_def intro!: runs_intros call_args_run)

lemma index_runs:
  assumes "ex_runs src m bound ex" "parser_ok src m ps" "size_of ps \<le> bound" "ps_type ps \<noteq> TOKEN_EOF"
  shows "runs src m True True ps (parse_index_expr ex target ps)"
  using assms by (auto simp: parse_index_expr_def Let_def intro!: runs_intros ex_runsD [OF assms(1)])

lemma field_expr_runs:
  "ex_runs src m bound ex \<Longrightarrow> parser_ok src m ps \<Longrightarrow> size_of ps \<le> bound \<Longrightarrow> ps_type ps \<noteq> TOKEN_EOF \<Longrightarrow> size_of ps \<le> n \<Longrightarrow>
   runs src m True True ps (parse_field_expr n ex target ps)"
  by (auto simp: parse_field_expr_def Let_def intro!: runs_intros runs_any [OF method_call_runs])

lemma postfix_runs:
  "ex_runs src m bound ex \<Longrightarrow> parser_ok src m ps \<Longrightarrow> size_of ps < bound \<Longrightarrow> 8 * size_of ps + 3 \<le> n \<Longrightarrow>
   runs src m False False ps (parse_postfix n ex expr ctx ps)"
proof (induction n arbitrary: expr ps)
  case (Suc n)
  note prems = Suc.prems
  have again: "runs src m False False ps' (then_parse p (\<lambda>expr ps. parse_postfix n ex expr ctx ps))"
    if p: "runs src m False True ps' p" and size: "size_of ps' = size_of ps" for p ps'
    by (rule runs_any [OF runs_then [OF p Suc.IH [OF prems(1)]]]) (use prems size in auto)
  have now: "runs src m False False ps (then_parse p (\<lambda>expr ps. parse_postfix n ex expr ctx ps))" if "runs src m False True ps p" for p
    by (rule again [OF that refl])
  have lit: "runs src m False True ps' (parse_struct_lit_expr n ex expr ps')"
    if "starts_struct_lit n expr ctx ps = Some (True, ps')" "parser_ok src m ps'" "size_of ps' = size_of ps" for ps'
    using struct_lit_runs [OF prems(1) that(2)] starts_struct_lit_name [OF that(1)] prems(3,4) that(3) by simp
  show ?case
    unfolding parse_postfix.simps Let_def
    using prems
    by (auto intro!: runs_if now runs_look looks_struct_lit again lit runs_parsed
        runs_unfailing [OF call_expr_runs] runs_unfailing [OF index_runs] runs_unfailing [OF field_expr_runs])
qed simp

lemma array_lit_runs:
  "ex_runs src m bound ex \<Longrightarrow> parser_ok src m ps \<Longrightarrow> size_of ps \<le> bound \<Longrightarrow> ps_type ps \<noteq> TOKEN_EOF \<Longrightarrow> size_of ps \<le> n \<Longrightarrow>
   runs src m True True ps (parse_array_lit n ex ps)"
  by (auto simp: parse_array_lit_def Let_def intro!: runs_intros elements_run)

lemma parenthesised_runs:
  assumes "ex_runs src m bound ex" "parser_ok src m ps" "size_of ps \<le> bound" "ps_type ps \<noteq> TOKEN_EOF"
  shows "runs src m True True ps (parse_parenthesised ex ps)"
  using assms by (auto simp: parse_parenthesised_def intro!: runs_intros ex_runsD [OF assms(1)])

lemma literal_token: "token_literal t = Some l \<Longrightarrow> tok_type t \<noteq> TOKEN_EOF"
  by (auto split: if_splits)

lemma primary_runs:
  assumes "ex_runs src m bound ex" "parser_ok src m ps" "size_of ps \<le> bound" "8 * size_of ps + 1 \<le> n"
  shows "runs src m False True ps (parse_primary n ex ps)"
proof -
  have literal: "runs src m False True ps (Option.bind (parser_next_token ps) (parsed e))" if "token_literal (ps_current ps) = Some l" for l and e :: expr
    by (rule runs_next [OF assms(2) literal_token [OF that] runs_parsed])
  show ?thesis
    using assms literal unfolding parse_primary_def Let_def
    by (auto simp del: token_literal.simps split: option.split intro!: runs_if runs_error
        runs_unfailing [OF array_lit_runs] runs_unfailing [OF builtin_runs] runs_unfailing [OF name_runs] runs_unfailing [OF parenthesised_runs])
qed

lemma cast_runs:
  assumes "ex_runs src m bound ex" "parser_ok src m ps" "size_of ps \<le> bound" "8 * size_of ps + 4 \<le> n"
  shows "runs src m False True ps (parse_cast n ex ctx ps)"
proof -
  have args: "runs src m False False ps' (parse_call_args n ex ps')" if "parser_ok src m ps'" "size_of ps' < size_of ps" for ps'
    unfolding parse_call_args_def
    by (rule runs_next_weak [OF that(1)]) (use that assms in \<open>auto intro!: runs_any [OF call_args_loop_runs]\<close>)
  show ?thesis
    unfolding parse_cast_def Let_def using assms by (auto intro!: runs_intros type_runs args postfix_runs)
qed

lemma unary_runs:
  "ex_runs src m bound ex \<Longrightarrow> parser_ok src m ps \<Longrightarrow> size_of ps \<le> bound \<Longrightarrow> 8 * size_of ps + 5 \<le> n \<Longrightarrow>
   runs src m False True ps (parse_unary n ex ctx ps)"
proof (induction n arbitrary: ps)
  case (Suc n)
  note prems = Suc.prems
  have primary: "runs src m False True ps' (then_parse (parse_primary n ex ps') (\<lambda>expr. parse_postfix n ex expr ctx))"
    if "parser_ok src m ps'" "size_of ps' = size_of ps" for ps'
    by (rule runs_then [OF primary_runs [OF prems(1)] postfix_runs [OF prems(1)]]) (use that prems in auto)
  have prefix: "runs src m False True ps' (Option.bind (parser_next_token ps') (\<lambda>ps1. then_parse (parse_unary n ex ctx ps1) (\<lambda>target.
      parsed (prefix_expr_create (ps_type ps') (parser_span ps') target))))"
    if "parser_ok src m ps'" "size_of ps' = size_of ps" "is_prefix (ps_type ps')" for ps'
    by (rule runs_next [OF that(1)]) (use that prems in \<open>auto simp: is_prefix_def intro!: runs_seq runs_any [OF Suc.IH] runs_parsed\<close>)
  have cast: "runs src m False True ps' (parse_cast n ex ctx ps')" if "parser_ok src m ps'" "size_of ps' = size_of ps" for ps'
    by (rule cast_runs [OF prems(1) that(1)]) (use that prems in auto)
  show ?case
    unfolding parse_unary.simps
    by (intro runs_look runs_if primary prefix cast) (use prems looks_cast [of src m ps n] looks_some [of src m ps False] in auto)
qed simp

lemma precedence_op: "get_precedence t \<noteq> 0 \<Longrightarrow> \<exists>op. parse_bin_op t = Some op"
  by (cases t) simp_all

lemma precedence_loop_runs:
  "ex_runs src m bound ex \<Longrightarrow> parser_ok src m ps \<Longrightarrow> size_of ps \<le> bound \<Longrightarrow> size_of ps < n \<Longrightarrow>
   runs src m False False ps (parse_precedence_loop n ex p ctx lhs ps)"
proof (induction n arbitrary: lhs ps)
  case (Suc n)
  show ?case
  proof (cases "get_precedence (ps_type ps) = 0 \<or> get_precedence (ps_type ps) < p")
    case True
    then show ?thesis using runs_parsed [OF Suc.prems(2)] by (simp add: Let_def del: get_precedence.simps)
  next
    case False
    then obtain op where op: "parse_bin_op (ps_type ps) = Some op" using precedence_op by blast
    have eof: "ps_type ps \<noteq> TOKEN_EOF" using False by auto
    have "runs src m False False ps (Option.bind (parser_next_token ps) (\<lambda>ps'. then_parse (ex (get_precedence (ps_type ps) + 1) ctx ps') (\<lambda>rhs ps''.
        parse_precedence_loop n ex p ctx (ast_bin_op_expr_create (token_span (ps_current ps)) lhs op rhs) ps'')))"
      by (rule runs_next [OF Suc.prems(2) eof]) (use Suc.prems in \<open>auto simp del: get_precedence.simps intro!: runs_seq ex_runsD [OF Suc.prems(1)] Suc.IH\<close>)
    then show ?thesis using False op by (simp add: Let_def del: get_precedence.simps)
  qed
qed simp

lemma precedence_runs: "parser_ok src m ps \<Longrightarrow> 8 * size_of ps + 6 \<le> n \<Longrightarrow> runs src m False True ps (parse_precedence n p ctx ps)"
proof (induction n arbitrary: p ctx ps)
  case (Suc n)
  have ex: "ex_runs src m (size_of ps) (parse_precedence n)"
    unfolding ex_runs_def using Suc.IH Suc.prems(2) by auto
  show ?case
    unfolding parse_precedence.simps
    by (rule runs_then [OF unary_runs [OF ex] precedence_loop_runs [OF ex]]) (use Suc.prems in auto)
qed simp

lemma expression_runs: "parser_ok src m ps \<Longrightarrow> 8 * size_of ps + 6 \<le> n \<Longrightarrow> runs src m False True ps (parse_expression n ctx ps)"
  unfolding parse_expression_def by (rule precedence_runs)

end
