(* ===== verification/Parser_Returns.thy ===== *)
theory Parser_Returns
  imports Parser_Ends
begin

text \<open>
  The parser returns, continued: statements, declarations and files.
\<close>

section \<open>Simple statements\<close>

lemma terminated_runs: "parser_ok src m ps \<Longrightarrow> runs src m False False ps (terminated s ps)"
  by (auto simp: terminated_def intro!: runs_intros)

lemma var_decl_runs:
  "parser_ok src m ps \<Longrightarrow> ps_type ps \<noteq> TOKEN_EOF \<Longrightarrow> 8 * size_of ps + 6 \<le> n \<Longrightarrow> runs src m True True ps (parse_var_decl_stmt n ctx ps)"
  by (auto simp: parse_var_decl_stmt_def Let_def intro!: runs_intros type_runs runs_any [OF expression_runs])

lemma expr_stmt_runs:
  "parser_ok src m ps \<Longrightarrow> 8 * size_of ps + 6 \<le> n \<Longrightarrow> runs src m False True ps (parse_expr_stmt n ctx ps)"
  unfolding parse_expr_stmt_def Let_def
proof (rule runs_then [OF expression_runs], goal_cases)
  case (3 e ps')
  have eof: "ps_type ps' \<noteq> TOKEN_EOF" if "ps_type ps' = TOKEN_ASSIGN \<or> compound_assign_op (ps_type ps') \<noteq> None" using that by auto
  show ?case using 3 eof by (auto intro!: runs_intros runs_any [OF expression_runs])
qed simp_all

lemma jump_runs: "parser_ok src m ps \<Longrightarrow> ps_type ps \<noteq> TOKEN_EOF \<Longrightarrow> runs src m True True ps (parse_jump_stmt ps)"
  by (auto simp: parse_jump_stmt_def intro!: runs_intros)

lemma return_runs:
  "parser_ok src m ps \<Longrightarrow> ps_type ps \<noteq> TOKEN_EOF \<Longrightarrow> 8 * size_of ps + 6 \<le> n \<Longrightarrow> runs src m True True ps (parse_return_stmt n ps)"
  by (auto simp: parse_return_stmt_def intro!: runs_intros runs_any [OF expression_runs])

section \<open>What holds blocks\<close>

definition blk_runs :: "string \<Rightarrow> bool \<Rightarrow> nat \<Rightarrow> block_parser \<Rightarrow> bool" where
  "blk_runs src m bound blk \<longleftrightarrow> (\<forall>ps. parser_ok src m ps \<longrightarrow> size_of ps < bound \<longrightarrow> runs src m False True ps (blk ps))"

lemma blk_runsD:
  assumes "blk_runs src m bound blk"
  shows "parser_ok src m ps \<Longrightarrow> size_of ps < bound \<Longrightarrow> runs src m False True ps (blk ps)"
    "parser_ok src m ps \<Longrightarrow> size_of ps < bound \<Longrightarrow> runs src m False False ps (blk ps)"
  using assms by (auto simp: blk_runs_def intro: runs_any)

lemma if_runs:
  assumes "blk_runs src m bound blk" "parser_ok src m ps" "ps_type ps \<noteq> TOKEN_EOF" "size_of ps \<le> bound" "8 * size_of ps + 6 \<le> n"
  shows "runs src m True True ps (parse_if_stmt n blk ps)"
  using assms(2-) by (auto simp: parse_if_stmt_def Let_def intro!: runs_intros runs_any [OF expression_runs] blk_runsD [OF assms(1)])

lemma runs_maybe:
  assumes "runs src m' f' s' ps p \<or> p = no_parse ps" "m' = m" "parser_ok src m ps"
    "\<And>q ps'. goes src m ps ps' \<Longrightarrow> parser_ok src m ps' \<Longrightarrow> size_of ps' \<le> size_of ps \<Longrightarrow> runs src m f s ps' (k q ps')"
  shows "runs src m f s ps (Option.bind p (\<lambda>(q, ps). k q ps))"
proof -
  obtain q ps' where p: "p = Some (q, ps')" "goes src m ps ps'"
    using assms(1-3) goes_refl by (auto simp: runs_def no_parse_def)
  show ?thesis using runs_later [OF p(2) assms(4) [OF p(2) goes_ok [OF p(2)]]] p by (simp add: goes_def)
qed

lemma clause_runs:
  assumes "parser_ok src m ps" "8 * size_of ps + 6 \<le> n"
  shows "runs src m False False ps (parse_for_clause n t ps) \<or> parse_for_clause n t ps = no_parse ps"
  using runs_any [OF var_decl_runs [OF assms(1) _ assms(2)]] runs_any [OF expr_stmt_runs [OF assms]]
  by (auto simp: parse_for_clause_def)

lemma for_while_runs:
  assumes "blk_runs src m bound blk" "parser_ok src m ps" "size_of ps < bound"
  shows "runs src m False False ps (parse_for_while blk sp first ps)"
  using assms(2-)
  by (auto simp: parse_for_while_def intro!: runs_intros blk_runsD [OF assms(1)] split: option.split ast_stmt.split)

lemma for_runs:
  assumes "blk_runs src m bound blk" "parser_ok src m ps" "ps_type ps \<noteq> TOKEN_EOF" "size_of ps \<le> bound" "8 * size_of ps + 6 \<le> n"
  shows "runs src m True True ps (parse_for_stmt n blk ps)"
  unfolding parse_for_stmt_def Let_def
  by (intro runs_intros runs_maybe [OF clause_runs] for_while_runs [OF assms(1)] runs_any [OF expression_runs] blk_runsD [OF assms(1)])
    (use assms(2-) in \<open>simp_all\<close>)

section \<open>Declarations\<close>

lemma struct_fields_run:
  "parser_ok src m ps \<Longrightarrow> 8 * size_of ps + 2 \<le> n \<Longrightarrow> runs src m False False ps (parse_struct_fields n members ps)"
proof (induction n arbitrary: members ps)
  case (Suc n)
  show ?case unfolding parse_struct_fields.simps
    by (intro runs_intros runs_bind_if runs_any [OF runs_then [OF field_runs]]) (use Suc.prems Suc.IH in \<open>auto intro!: runs_intros\<close>)
qed simp

lemma struct_decl_at_runs:
  "parser_ok src m ps \<Longrightarrow> ps_type ps \<noteq> TOKEN_EOF \<Longrightarrow> 8 * size_of ps + 2 \<le> n \<Longrightarrow> runs src m True True ps (parse_struct_decl_stmt_at n intrinsic sp ps)"
  unfolding parse_struct_decl_stmt_at_def by (intro runs_intros type_params_run struct_fields_run) auto

lemma struct_decl_runs:
  "parser_ok src m ps \<Longrightarrow> ps_type ps \<noteq> TOKEN_EOF \<Longrightarrow> 8 * size_of ps + 2 \<le> n \<Longrightarrow> runs src m True True ps (parse_struct_decl_stmt n ps)"
  unfolding parse_struct_decl_stmt_def by (rule struct_decl_at_runs)

lemma func_syntax_loop_runs: "parser_ok src m ps \<Longrightarrow> size_of ps < n \<Longrightarrow> runs src m False False ps (parse_func_syntax_loop n out ps)"
proof (induction n arbitrary: out ps)
  case (Suc n)
  show ?case unfolding parse_func_syntax_loop.simps
    by (intro runs_intros) (use Suc.prems in \<open>auto intro!: Suc.IH\<close>)
qed simp

lemma func_params_run: "parser_ok src m ps \<Longrightarrow> 8 * size_of ps + 2 \<le> n \<Longrightarrow> runs src m False False ps (parse_func_params n params ps)"
proof (induction n arbitrary: params ps)
  case (Suc n)
  show ?case unfolding parse_func_params.simps
    by (intro runs_intros runs_bind_if runs_any [OF runs_then [OF field_runs]]) (use Suc.prems Suc.IH in \<open>auto intro!: runs_intros\<close>)
qed simp

lemma drop_runs:
  assumes "goes src m ps ps1" "parser_errors ps < parser_errors ps1" "runs src m f s ps1 p"
  shows "runs src m (f \<and> s) t ps (parse_and_drop p)"
  using assms by (auto simp: runs_def parse_and_drop_def no_parse_def goes_def)

lemma error_drop_runs:
  assumes "parser_ok src m ps" "runs src m f s (parser_error msg ps) p"
  shows "runs src m (f \<and> s) t ps (parse_and_drop p)"
  using drop_runs [OF _ _ assms(2)] diag_goes [OF assms(1)] by (simp add: parser_error_def)

lemma error_size [simp]: "size_of (parser_error msg ps) = size_of ps" "ps_type (parser_error msg ps) = ps_type ps"
  by (simp_all add: parser_error_def parser_diag_def size_of_def)

lemma error_ok: "parser_ok src m ps \<Longrightarrow> parser_ok src m (parser_error msg ps)"
  using diag_goes(1) goes_ok unfolding parser_error_def by blast

lemma func_rest_runs:
  assumes "blk_runs src m bound blk" "parser_ok src m ps" "size_of ps < bound" "8 * size_of ps + 2 \<le> n"
  shows "runs src m False False ps (parse_func_rest n blk sg sp syntax name declared params ps)"
proof -
  have dropped: "runs src m False False ps' (Option.bind (blk (parser_error msg ps')) (\<lambda>(body, ps). no_parse ps :: stmt parsed))"
    if "parser_ok src m ps'" "size_of ps' < bound" for msg ps'
    using error_drop_runs [OF that(1) blk_runsD(2) [OF assms(1) error_ok [OF that(1)]], of msg False] that(2) by (simp add: parse_and_drop_def)
  show ?thesis
    unfolding parse_func_rest_def Let_def
    by (intro runs_intros dropped blk_runsD [OF assms(1)] type_runs) (use assms(2-) in auto)
qed

lemma then_parse_parsed [simp]: "then_parse (parsed r ps) k = k r ps"
  by (simp add: then_parse_def parsed_def)

lemma expecting_at: "ps_type ps = t \<Longrightarrow> expecting t msg ps k = k ps"
  by (simp add: expecting_def parser_expect_def)

lemma func_decl_at_runs:
  assumes "blk_runs src m bound blk" "parser_ok src m ps" "size_of ps \<le> bound" "8 * size_of ps + 2 \<le> n"
  shows "runs src m (ps_type ps = TOKEN_FUNC) True ps (parse_func_decl_stmt_at n blk sg sp prefix ps)"
proof -
  have named: "runs src m f s ps1 (Option.bind (parser_next_token ps1) (\<lambda>ps.
      expecting TOKEN_IDENT m1 ps (\<lambda>ps. Option.bind (parser_take_ident ps) (\<lambda>(name, ps).
        then_parse (parse_type_params n m2 ps) (\<lambda>declared ps.
          if ps_type ps = TOKEN_COLON_COLON then no_parse (parser_error m3 ps)
          else expecting TOKEN_LPAREN m4 ps (\<lambda>ps. Option.bind (parser_next_token ps) (\<lambda>ps.
            then_parse (parse_func_params n [] ps) (\<lambda>params.
              parse_func_rest n blk sg sp sx name declared params))))))))"
    if "parser_ok src m ps1" "size_of ps1 \<le> size_of ps" "ps_type ps1 = TOKEN_FUNC" for f s ps1 m1 m2 m3 m4 sx
    by (intro runs_intros type_params_run func_params_run func_rest_runs [OF assms(1)]) (use that assms(2-) in auto)
  show ?thesis
  proof (cases "ps_type ps = TOKEN_FUNC")
    case True
    obtain k where "n = Suc k" using assms(4) by (cases n) auto
    then have "parse_func_syntax n sg ps = parsed (if sg then FUNC_SYN_EXTERN else FUNC_SYN_NONE) ps"
      using True by (simp add: parse_func_syntax_def)
    then show ?thesis
      unfolding parse_func_decl_stmt_at_def Let_def then_parse_parsed expecting_at [OF True] using True
      by (simp only: then_parse_parsed expecting_at [OF True] refl) (rule named [OF assms(2) le_refl True])
  next
    case False
    then have unread: "(ps_type ps = TOKEN_FUNC) = False" by simp
    show ?thesis
      unfolding parse_func_decl_stmt_at_def parse_func_syntax_def Let_def unread
    proof (rule runs_then_weak [OF func_syntax_loop_runs], goal_cases)
      case (3 own ps1)
      show ?case by (rule runs_expecting [OF 3(2)]) (rule named [OF 3(2,3)])
    qed (use assms in auto)
  qed
qed

lemma func_decl_runs:
  assumes "blk_runs src m bound blk" "parser_ok src m ps" "size_of ps \<le> bound" "8 * size_of ps + 2 \<le> n"
  shows "runs src m (ps_type ps = TOKEN_FUNC) True ps (parse_func_decl_stmt n blk ps)"
    "runs src m False True ps (parse_func_decl_stmt n blk ps)"
    "runs src m False True ps (parse_func_decl_stmt_after_intrinsic n blk sp ps)"
    "runs src m False True ps (parse_func_signature_stmt n blk ps)"
  using func_decl_at_runs [OF assms] runs_unfailing
  unfolding parse_func_decl_stmt_def parse_func_decl_stmt_after_intrinsic_def parse_func_signature_stmt_def by blast+

lemma impl_members_run:
  assumes "blk_runs src m bound blk"
  shows "parser_ok src m ps \<Longrightarrow> size_of ps \<le> bound \<Longrightarrow> 8 * size_of ps + 3 \<le> n \<Longrightarrow> runs src m False False ps (parse_impl_members n blk owner declared members ps)"
proof (induction n arbitrary: members ps)
  case (Suc n)
  show ?case unfolding parse_impl_members.simps Let_def
    by (intro runs_intros runs_any [OF runs_then [OF func_decl_runs(2) [OF assms]]] terminated_runs Suc.IH) (use Suc.prems in auto)
qed simp

lemma impl_interface_runs: "parser_ok src m ps \<Longrightarrow> 8 * size_of ps + 1 \<le> n \<Longrightarrow> runs src m False False ps (parse_impl_interface n ps)"
  unfolding parse_impl_interface_def by (intro runs_intros type_args_run) auto

lemma runs_case_prod: "(\<And>a b. q = (a, b) \<Longrightarrow> runs src m f s ps (k a b ps)) \<Longrightarrow> runs src m f s ps ((case q of (a, b) \<Rightarrow> k a b) ps)"
  by (cases q) simp

lemma impl_runs:
  assumes "blk_runs src m bound blk" "parser_ok src m ps" "ps_type ps \<noteq> TOKEN_EOF" "size_of ps \<le> bound" "8 * size_of ps + 3 \<le> n"
  shows "runs src m True True ps (parse_impl_stmt n blk ps)"
  unfolding parse_impl_stmt_def Let_def
  by (intro runs_intros runs_case_prod type_params_run type_runs impl_interface_runs impl_members_run [OF assms(1)]) (use assms(2-) in auto)

lemma interface_members_run:
  assumes "blk_runs src m bound blk"
  shows "parser_ok src m ps \<Longrightarrow> size_of ps \<le> bound \<Longrightarrow> 8 * size_of ps + 3 \<le> n \<Longrightarrow> runs src m False False ps (parse_interface_members n blk members ps)"
proof (induction n arbitrary: members ps)
  case (Suc n)
  show ?case unfolding parse_interface_members.simps
    by (intro runs_intros runs_any [OF runs_then [OF func_decl_runs(4) [OF assms]]] Suc.IH) (use Suc.prems in auto)
qed simp

lemma interface_runs:
  assumes "blk_runs src m bound blk" "parser_ok src m ps" "ps_type ps \<noteq> TOKEN_EOF" "size_of ps \<le> bound" "8 * size_of ps + 3 \<le> n"
  shows "runs src m True True ps (parse_interface_decl_stmt n blk ps)"
  unfolding parse_interface_decl_stmt_def Let_def
  by (intro runs_intros type_params_run interface_members_run [OF assms(1)]) (use assms(2-) in auto)

lemma intrinsic_runs:
  assumes "blk_runs src m bound blk" "parser_ok src m ps" "ps_type ps \<noteq> TOKEN_EOF" "size_of ps \<le> bound" "8 * size_of ps + 3 \<le> n"
  shows "runs src m True True ps (parse_intrinsic n blk sp ps)"
  unfolding parse_intrinsic_def
  by (intro runs_intros runs_any [OF struct_decl_at_runs] runs_any [OF func_decl_runs(3) [OF assms(1)]]) (use assms(2-) in auto)

section \<open>Statements and blocks\<close>

lemma synchronize_ends:
  "parser_ok src m ps \<Longrightarrow> size_of ps < n \<Longrightarrow>
   \<exists>ps'. parser_synchronize n ps = Some ps' \<and> goes src m ps ps' \<and>
     (ps_type ps \<in> {TOKEN_EOF, TOKEN_RBRACE} \<or> starts_statement (ps_type ps) \<or> size_of ps' < size_of ps)"
proof (induction n arbitrary: ps)
  case (Suc n)
  show ?case
  proof (cases "ps_type ps \<in> {TOKEN_EOF, TOKEN_RBRACE} \<or> starts_statement (ps_type ps)")
    case True
    then have "parser_synchronize (Suc n) ps = Some ps" by (auto simp: starts_statement_def)
    then show ?thesis using True goes_refl [OF Suc.prems(1)] by blast
  next
    case False
    obtain ps1 where 1: "parser_next_token ps = Some ps1" "goes src m ps ps1" "size_of ps1 < size_of ps"
      using next_token [OF Suc.prems(1)] False by (metis insertI1)
    have "size_of ps1 < n" using 1(3) Suc.prems(2) by simp
    from Suc.IH [OF goes_ok [OF 1(2)] this] obtain ps2 where 2: "parser_synchronize n ps1 = Some ps2" "goes src m ps1 ps2" by blast
    have "size_of ps2 < size_of ps" using 1(3) 2(2) by (simp add: goes_def)
    then show ?thesis using False 1 2 goes_trans [OF 1(2) 2(2)] by auto
  qed
qed simp

text \<open>The tokens on which a failed statement has been read in part.\<close>

definition consumers :: "token_type set" where
  "consumers = {TOKEN_LET, TOKEN_FUNC, TOKEN_INTRINSIC, TOKEN_STRUCT, TOKEN_IMPL, TOKEN_INTERFACE, TOKEN_IF, TOKEN_FOR,
     TOKEN_BREAK, TOKEN_CONTINUE, TOKEN_RETURN}"

lemma starts_consumers: "starts_statement t \<Longrightarrow> t \<in> consumers \<or> t \<in> blocking"
  by (auto simp: starts_statement_def consumers_def blocking_def)

lemma terminated_after: "runs src m f True ps p \<Longrightarrow> runs src m f True ps (then_parse p terminated)"
  by (rule runs_then) (auto intro: terminated_runs)

lemma drop_after_error:
  assumes "parser_ok src m ps" "\<And>ps'. parser_ok src m ps' \<Longrightarrow> size_of ps' = size_of ps \<Longrightarrow> ps_type ps' = ps_type ps \<Longrightarrow> runs src m True True ps' (k ps')"
  shows "runs src m True True ps (parse_and_drop (k (parser_error msg ps)))"
  using error_drop_runs [OF assms(1) assms(2) [OF error_ok [OF assms(1)] error_size], where t = True] by simp

lemma statement_runs:
  assumes "blk_runs src m bound blk" "parser_ok src m ps" "ps_type ps \<noteq> TOKEN_EOF" "size_of ps < bound" "8 * size_of ps + 6 \<le> n"
  shows "runs src m (ps_type ps \<in> consumers) True ps (parse_statement n blk ps)"
proof -
  have le: "size_of ps \<le> bound" "8 * size_of ps + 2 \<le> n" "8 * size_of ps + 3 \<le> n" using assms(4,5) by simp_all
  have func: "runs src m True True ps (parse_and_drop (parse_func_decl_stmt n blk (parser_error msg ps)))" if "ps_type ps = TOKEN_FUNC" for msg
  proof (rule drop_after_error [OF assms(2)])
    fix ps' assume "parser_ok src m ps'" "size_of ps' = size_of ps" "ps_type ps' = ps_type ps"
    then show "runs src m True True ps' (parse_func_decl_stmt n blk ps')"
      using func_decl_runs(1) [OF assms(1), of ps' n] le that by simp
  qed
  have intrinsic: "runs src m True True ps (parse_and_drop (parse_intrinsic n blk (parser_span ps) (parser_error msg ps)))" for msg
    by (rule drop_after_error [OF assms(2)]) (use intrinsic_runs [OF assms(1)] le assms(3) in auto)
  have impl: "runs src m True True ps (parse_and_drop (parse_impl_stmt n blk (parser_error msg ps)))" for msg
    by (rule drop_after_error [OF assms(2)]) (use impl_runs [OF assms(1)] le assms(3) in auto)
  have interface: "runs src m True True ps (parse_and_drop (parse_interface_decl_stmt n blk (parser_error msg ps)))" for msg
    by (rule drop_after_error [OF assms(2)]) (use interface_runs [OF assms(1)] le assms(3) in auto)
  note steps = terminated_after [OF var_decl_runs [OF assms(2,3,5)]] terminated_after [OF struct_decl_runs [OF assms(2,3) le(2)]]
    terminated_after [OF if_runs [OF assms(1,2,3) le(1) assms(5)]] terminated_after [OF for_runs [OF assms(1,2,3) le(1) assms(5)]]
    terminated_after [OF jump_runs [OF assms(2,3)]] terminated_after [OF return_runs [OF assms(2,3,5)]]
    terminated_after [OF blk_runsD(1) [OF assms(1,2,4)]] terminated_after [OF expr_stmt_runs [OF assms(2,5)]]
  show ?thesis
    unfolding parse_statement_def
    by (cases "ps_type ps") (simp_all only: token_type.case consumers_def insert_iff empty_iff token_type.distinct simp_thms func intrinsic impl interface steps)
qed

lemma failed_statement:
  assumes "parser_ok src True ps" "ps_type ps \<noteq> TOKEN_RBRACE" "ps_type ps \<noteq> TOKEN_EOF" "goes src True ps ps1"
    "ps_type ps \<in> consumers \<Longrightarrow> size_of ps1 < size_of ps" "size_of ps < n"
  obtains ps2 where "parser_synchronize n ps1 = Some ps2" "goes src True ps ps2" "size_of ps2 < size_of ps"
proof -
  have size: "size_of ps1 \<le> size_of ps" "size_of ps1 = size_of ps \<Longrightarrow> ps_type ps1 = ps_type ps" using assms(4) by (simp_all add: goes_def)
  have "size_of ps1 < n" using size(1) assms(6) by simp
  from synchronize_ends [OF goes_ok [OF assms(4)] this] obtain ps2 where 2: "parser_synchronize n ps1 = Some ps2" "goes src True ps1 ps2"
    "ps_type ps1 \<in> {TOKEN_EOF, TOKEN_RBRACE} \<or> starts_statement (ps_type ps1) \<or> size_of ps2 < size_of ps1" by blast
  have "ps_type ps \<notin> blocking" using assms(1) by (auto simp: parser_ok_def calm_def)
  then have "size_of ps2 < size_of ps1" if "size_of ps1 = size_of ps"
    using 2(3) size(2) [OF that] assms(2,3,5) that starts_consumers by auto
  then have "size_of ps2 < size_of ps" using 2(2) size(1) by (cases "size_of ps1 = size_of ps") (auto simp: goes_def)
  then show ?thesis using that 2(1) goes_trans [OF assms(4) 2(2)] by blast
qed

lemma block_loop_runs:
  assumes "blk_runs src True bound blk"
  shows "parser_ok src True ps \<Longrightarrow> size_of ps < bound \<Longrightarrow> 8 * size_of ps + 7 \<le> n \<Longrightarrow> runs src True False False ps (parse_block_loop n blk stmts ps)"
proof (induction n arbitrary: stmts ps)
  case (Suc n)
  show ?case
  proof (cases "ps_type ps = TOKEN_RBRACE \<or> ps_type ps = TOKEN_EOF")
    case True
    then show ?thesis unfolding parse_block_loop.simps by (intro runs_intros Suc.prems) auto
  next
    case False
    then have ends: "ps_type ps \<noteq> TOKEN_EOF" "ps_type ps \<noteq> TOKEN_RBRACE" by simp_all
    have "8 * size_of ps + 6 \<le> n" using Suc.prems(3) by simp
    from statement_runs [OF assms Suc.prems(1) ends(1) Suc.prems(2) this] obtain q ps1 where
      s: "parse_statement n blk ps = Some (q, ps1)" "goes src True ps ps1" "q = None \<Longrightarrow> ps_type ps \<in> consumers \<Longrightarrow> size_of ps1 < size_of ps"
        "q \<noteq> None \<Longrightarrow> size_of ps1 < size_of ps" by (auto simp: runs_def)
    have again: "runs src True False False ps (parse_block_loop n blk stmts' ps')" if "goes src True ps ps'" "size_of ps' < size_of ps" for stmts' ps'
      by (rule runs_later [OF that(1) Suc.IH [OF goes_ok [OF that(1)]]]) (use that(2) Suc.prems in auto)
    show ?thesis
    proof (cases q)
      case None
      have "size_of ps < n" using Suc.prems(3) by simp
      from failed_statement [OF Suc.prems(1) ends(2,1) s(2) s(3) [OF None] this] obtain ps2 where
        2: "parser_synchronize n ps1 = Some ps2" "goes src True ps ps2" "size_of ps2 < size_of ps" by blast
      then show ?thesis using again [OF 2(2,3)] s(1) None ends by simp
    next
      case (Some x)
      then show ?thesis using again [OF s(2) s(4)] s(1) ends by simp
    qed
  qed
qed simp

lemma parser_ok_outside: "parser_ok src True ps \<Longrightarrow> parser_ok src m ps"
  using calm_outside by (cases m) (auto simp: parser_ok_def)

lemma runs_inside: "runs src True f s ps p \<Longrightarrow> runs src m f s ps p"
  using parser_ok_outside by (auto simp: runs_def goes_def)

lemma block_runs: "parser_ok src m ps \<Longrightarrow> 8 * size_of ps + 8 \<le> n \<Longrightarrow> runs src m False True ps (parse_block_stmt n ps)"
proof (induction n arbitrary: m ps)
  case (Suc n)
  have blk: "blk_runs src True (size_of ps) (parse_block_stmt n)"
    unfolding blk_runs_def using Suc.IH Suc.prems(2) by auto
  show ?case
    unfolding parse_block_stmt.simps Let_def
  proof (rule runs_expecting [OF Suc.prems(1)])
    assume brace: "ps_type ps = TOKEN_LBRACE"
    obtain ps1 where 1: "parser_next_token ps = Some ps1" "goes src m ps ps1" "size_of ps1 < size_of ps" "parser_ok src True ps1"
      using next_token [OF Suc.prems(1)] brace by (metis token_type.distinct)
    have "runs src True False False ps1 (then_parse (parse_block_loop n (parse_block_stmt n) [] ps1) (\<lambda>stmts. parsed (ast_block_stmt_create sp stmts)))" for sp
      by (intro runs_seq block_loop_runs [OF blk] runs_parsed 1) (use 1(3) Suc.prems(2) in auto)
    from runs_past [OF 1(2,3) runs_inside [OF this]]
    show "runs src m False True ps (Option.bind (parser_next_token ps) (\<lambda>ps1. then_parse (parse_block_loop n (parse_block_stmt n) [] ps1)
        (\<lambda>stmts. parsed (ast_block_stmt_create (parser_span ps) stmts))))"
      using 1(1) by simp
  qed
qed simp

lemma blocks_run: "8 * bound + 8 \<le> n + 8 \<Longrightarrow> blk_runs src m bound (parse_block_stmt n)"
  unfolding blk_runs_def using block_runs by auto

section \<open>Files\<close>

lemma decl_statement_runs:
  assumes "parser_ok src m ps" "ps_type ps \<noteq> TOKEN_EOF" "8 * size_of ps + 6 \<le> n"
  shows "runs src m False True ps (parse_decl_statement n ps)"
proof -
  have blk: "blk_runs src m (size_of ps) (parse_block_stmt n)" by (rule blocks_run) (use assms(3) in simp)
  have le: "size_of ps \<le> size_of ps" "8 * size_of ps + 2 \<le> n" "8 * size_of ps + 3 \<le> n" using assms(3) by simp_all
  have done': "runs src m False True ps (then_parse p terminated)" if "runs src m f True ps p" for f p
    by (rule runs_unfailing [OF terminated_after [OF that]])
  note steps = done' [OF var_decl_runs [OF assms(1,2,3)]] done' [OF intrinsic_runs [OF blk assms(1,2) le(1,3)]]
    done' [OF func_decl_runs(2) [OF blk assms(1) le(1,2)]] done' [OF struct_decl_runs [OF assms(1,2) le(2)]]
    done' [OF impl_runs [OF blk assms(1,2) le(1,3)]] done' [OF interface_runs [OF blk assms(1,2) le(1,3)]]
  show ?thesis
    unfolding parse_decl_statement_def Let_def
    by (cases "ps_type ps") (simp_all only: token_type.case steps runs_error [OF assms(1)])
qed

lemma then_next_runs: "parser_ok src m ps \<Longrightarrow> runs src m f False ps (Option.bind (parser_next_token ps) (\<lambda>ps. parsed r ps))"
  by (rule runs_next_weak) (auto intro: runs_parsed)

lemma skip_nested_ends:
  "parser_ok src m ps \<Longrightarrow> size_of ps < n \<Longrightarrow> \<exists>e ps'. skip_nested_names n ends ps = Some (e, ps') \<and> goes src m ps ps'"
proof (induction n arbitrary: ends ps)
  case (Suc n)
  show ?case
  proof (cases "ps_type ps = TOKEN_COLON_COLON")
    case True
    obtain ps1 where 1: "parser_next_token ps = Some ps1" "goes src m ps ps1" "size_of ps1 < size_of ps"
      using next_token [OF Suc.prems(1)] True by (metis token_type.distinct)
    obtain ps2 where 2: "parser_next_token ps1 = Some ps2" "goes src m ps1 ps2" using next_token [OF goes_ok [OF 1(2)]] by metis
    have "size_of ps2 < n" using 1(3) 2(2) Suc.prems(2) by (simp add: goes_def)
    from Suc.IH [OF goes_ok [OF 2(2)] this] obtain e ps3 where
      3: "skip_nested_names n (lx_pos (ps_lexer ps1)) ps2 = Some (e, ps3)" "goes src m ps2 ps3" by blast
    have "goes src m ps ps3" by (rule goes_trans [OF 1(2) goes_trans [OF 2(2) 3(2)]])
    then show ?thesis using True 1(1,2) 2(1) 3(1) by simp
  qed (use goes_refl [OF Suc.prems(1)] in simp)
qed simp

lemma nested_error:
  assumes "parser_ok src m ps" "size_of ps < n"
  shows "runs src m False s ps (Option.bind (skip_nested_names n ends ps) (\<lambda>(e, ps'). Some (None, parser_diag k sp (msg e ps') ps')))"
proof -
  obtain e ps' where 1: "skip_nested_names n ends ps = Some (e, ps')" "goes src m ps ps'" using skip_nested_ends [OF assms] by blast
  have "goes src m ps (parser_diag k sp (msg e ps') ps')" by (rule goes_trans [OF 1(2) diag_goes(1) [OF goes_ok [OF 1(2)]]])
  moreover have "parser_errors ps < parser_errors (parser_diag k sp (msg e ps') ps')"
    using diag_goes(2) [OF goes_ok [OF 1(2)], of k sp "msg e ps'"] 1(2) by (simp add: goes_def)
  ultimately show ?thesis using 1(1) by (simp add: runs_def)
qed

text \<open>The end of both directives, where a missing semicolon is reported and the name kept.\<close>

lemma directive_end:
  assumes "parser_ok src m ps"
  shows "runs src m False False ps (Option.bind (parser_ident sp name ps) (\<lambda>(i, ps3).
    case parser_expect TOKEN_SEMICOLON msg ps3 of (True, ps3) \<Rightarrow> Option.bind (parser_next_token ps3) (\<lambda>ps4. Some (Some i, ps4)) | (False, ps3) \<Rightarrow> Some (Some i, ps3)))"
proof (rule runs_ident [OF assms], goal_cases)
  case (1 i ps')
  have "runs src m False False ps' (Some (Some i, parser_error_found msg ps'))"
    using diag_goes(1) [OF 1(2)] by (simp add: runs_def parser_error_found_def)
  then show ?case using then_next_runs [OF 1(2), of False i] by (simp add: parser_expect_def parsed_def)
qed

lemma directive_runs:
  assumes "parser_ok src m ps" "ps_type ps \<noteq> TOKEN_EOF" "size_of ps < n"
  shows "runs src m True True ps (parse_module_directive n ps)" "runs src m True True ps (parse_import_directive ps)"
proof -
  have expect: "(case parser_expect t msg ps1 of (False, ps1) \<Rightarrow> Some (None, ps1) | (True, ps1) \<Rightarrow> k ps1) = expecting t msg ps1 k"
    for t msg ps1 and k :: "parser \<Rightarrow> ident parsed"
    by (simp add: expecting_def no_parse_def split: prod.split bool.split)
  have diag: "runs src m False s ps1 (Some (None, parser_diag k sp msg ps1))" if "parser_ok src m ps1" for s k sp msg ps1
    using diag_goes [OF that] by (simp add: runs_def)
  show "runs src m True True ps (parse_module_directive n ps)"
    unfolding parse_module_directive_def Let_def expect
    by (intro runs_next [OF assms(1,2)] runs_expecting runs_next_weak runs_if nested_error directive_end) (use assms(3) in simp_all)
  show "runs src m True True ps (parse_import_directive ps)"
    unfolding parse_import_directive_def Let_def expect
    by (intro runs_next [OF assms(1,2)] runs_expecting runs_next_weak runs_if diag directive_end) simp_all
qed

lemma runs_reads:
  assumes "runs src m True True ps p"
  obtains q ps' where "p = Some (q, ps')" "goes src m ps ps'" "size_of ps' < size_of ps"
proof -
  obtain q ps' where "p = Some (q, ps')" "goes src m ps ps'" "q = None \<longrightarrow> size_of ps' < size_of ps" "q \<noteq> None \<longrightarrow> size_of ps' < size_of ps"
    using assms by (auto simp: runs_def)
  then show ?thesis using that by blast
qed

text \<open>What both loops over a file keep.\<close>

definition file_goes :: "string \<Rightarrow> parser \<Rightarrow> parsed_file \<Rightarrow> (parsed_file \<times> parser) option \<Rightarrow> bool" where
  "file_goes src ps f r \<longleftrightarrow> (\<exists>f' ps'. r = Some (f', ps') \<and> goes src False ps ps' \<and> af_module_name f' = af_module_name f)"

lemma file_goes_later: "goes src False ps ps' \<Longrightarrow> af_module_name f' = af_module_name f \<Longrightarrow> file_goes src ps' f' r \<Longrightarrow> file_goes src ps f r"
  using goes_trans by (fastforce simp: file_goes_def)

lemma file_goes_stop: "parser_ok src False ps \<Longrightarrow> file_goes src ps f (Some (f, ps))"
  by (simp add: file_goes_def goes_refl)

lemma imports_end: "parser_ok src False ps \<Longrightarrow> size_of ps < n \<Longrightarrow> file_goes src ps f (parse_imports n f ps)"
proof (induction n arbitrary: f ps)
  case (Suc n)
  show ?case
  proof (cases "ps_type ps = TOKEN_IMPORT")
    case True
    then have "ps_type ps \<noteq> TOKEN_EOF" by simp
    from directive_runs(2) [OF Suc.prems(1) this Suc.prems(2)] obtain q ps1 where
      1: "parse_import_directive ps = Some (q, ps1)" "goes src False ps ps1" "size_of ps1 < size_of ps" by (rule runs_reads)
    have "size_of ps1 < n" using 1(3) Suc.prems(2) by simp
    from file_goes_later [OF 1(2) _ Suc.IH [OF goes_ok [OF 1(2)] this]] show ?thesis using True 1(1) by simp
  qed (use file_goes_stop [OF Suc.prems(1)] in simp)
qed simp

lemma after_failed_declaration:
  assumes "parser_ok src m ps" "ps_type ps \<noteq> TOKEN_EOF" "goes src m ps ps1" "size_of ps < n"
  obtains ps2 ps3 where "parser_synchronize n ps1 = Some ps2"
    "(if ps_type ps2 = ps_type ps1 \<and> lx_pos (ps_lexer ps2) = lx_pos (ps_lexer ps1) then parser_next_token ps2 else Some ps2) = Some ps3"
    "goes src m ps ps3" "size_of ps3 < size_of ps"
proof -
  have "size_of ps1 < n" using assms(3,4) by (simp add: goes_def)
  from synchronize_ends [OF goes_ok [OF assms(3)] this] obtain ps2 where
    2: "parser_synchronize n ps1 = Some ps2" "goes src m ps1 ps2" by blast
  note both = goes_trans [OF assms(3) 2(2)]
  obtain ps3 where 3: "parser_next_token ps2 = Some ps3" "goes src m ps2 ps3" "ps_type ps2 \<noteq> TOKEN_EOF \<Longrightarrow> size_of ps3 < size_of ps2"
    using next_token [OF goes_ok [OF both]] by metis
  show ?thesis
  proof (cases "size_of ps2 = size_of ps")
    case True
    then have same: "size_of ps2 = size_of ps1" "ps_type ps2 = ps_type ps1" "ps_type ps2 = ps_type ps"
      using assms(3) 2(2) both by (auto simp: goes_def)
    moreover have "lx_pos (ps_lexer ps2) = lx_pos (ps_lexer ps1)"
      using same(1,2) goes_ok [OF assms(3)] goes_ok [OF both] by (auto simp: size_of_def parser_ok_def lexer_inv_def)
    ultimately show ?thesis using that 2(1) 3(1) goes_trans [OF both 3(2)] 3(3) True assms(2) by simp
  next
    case False
    then have less: "size_of ps2 < size_of ps" using both by (simp add: goes_def)
    show ?thesis
    proof (cases "ps_type ps2 = ps_type ps1 \<and> lx_pos (ps_lexer ps2) = lx_pos (ps_lexer ps1)")
      case True
      have "size_of ps3 < size_of ps" using less 3(2) by (simp add: goes_def)
      then show ?thesis using that True 2(1) 3(1) goes_trans [OF both 3(2)] by simp
    qed (use that 2(1) both less in auto)
  qed
qed

lemma parse_loop_ends: "parser_ok src False ps \<Longrightarrow> 8 * size_of ps + 7 \<le> n \<Longrightarrow> file_goes src ps f (parser_parse_loop n f ps)"
proof (induction n arbitrary: f ps)
  case (Suc n)
  have again: "file_goes src ps f (parser_parse_loop n f' ps')"
    if "goes src False ps ps'" "size_of ps' < size_of ps" "af_module_name f' = af_module_name f" for f' ps'
    by (rule file_goes_later [OF that(1,3) Suc.IH [OF goes_ok [OF that(1)]]]) (use that(2) Suc.prems(2) in simp)
  have directive: "file_goes src ps f (Option.bind (p (parser_diag k sp msg ps)) (\<lambda>(discarded, ps). parser_parse_loop n f ps))"
    if reads: "runs src False True True (parser_diag k sp msg ps) (p (parser_diag k sp msg ps))" for p :: "parser \<Rightarrow> ident parsed" and k sp msg
  proof -
    note diag = diag_goes [OF Suc.prems(1), of k sp msg]
    obtain q ps1 where 1: "p (parser_diag k sp msg ps) = Some (q, ps1)" "goes src False (parser_diag k sp msg ps) ps1"
      "size_of ps1 < size_of (parser_diag k sp msg ps)" by (rule runs_reads [OF reads])
    show ?thesis using again [OF goes_trans [OF diag(1) 1(2)]] 1(1,3) diag(3) by simp
  qed
  have diag_type: "ps_type (parser_diag k sp msg ps) = ps_type ps" "size_of (parser_diag k sp msg ps) = size_of ps"
    "parser_ok src False (parser_diag k sp msg ps)" for k sp msg
    using diag_goes [OF Suc.prems(1)] goes_ok by blast+
  have small: "size_of ps < n" using Suc.prems(2) by simp
  consider "ps_type ps = TOKEN_EOF" | "ps_type ps = TOKEN_SEMICOLON" | "ps_type ps = TOKEN_IMPORT" | "ps_type ps = TOKEN_MODULE"
    | "ps_type ps \<notin> {TOKEN_EOF, TOKEN_SEMICOLON, TOKEN_IMPORT, TOKEN_MODULE}" by blast
  then show ?case
  proof cases
    case 1
    then show ?thesis using file_goes_stop [OF Suc.prems(1)] by simp
  next
    case 2
    obtain ps1 where "parser_next_token ps = Some ps1" "goes src False ps ps1" "size_of ps1 < size_of ps"
      using next_token [OF Suc.prems(1)] 2 by (metis token_type.distinct)
    then show ?thesis using again [of ps1 f] 2 by simp
  next
    case 3
    have "runs src False True True (parser_diag k sp msg ps) (parse_import_directive (parser_diag k sp msg ps))" for k sp msg
      by (rule directive_runs(2) [where n = n]) (use diag_type small 3 in simp_all)
    from directive [where p = parse_import_directive, OF this] show ?thesis using 3 by simp
  next
    case 4
    have "runs src False True True (parser_diag k sp msg ps) (parse_module_directive n (parser_diag k sp msg ps))" for k sp msg
      by (rule directive_runs(1)) (use diag_type small 4 in simp_all)
    from directive [where p = "parse_module_directive n", OF this] show ?thesis using 4 by simp
  next
    case 5
    then have eof: "ps_type ps \<noteq> TOKEN_EOF" by simp
    have "8 * size_of ps + 6 \<le> n" using Suc.prems(2) by simp
    from decl_statement_runs [OF Suc.prems(1) eof this] obtain q ps1 where
      s: "parse_decl_statement n ps = Some (q, ps1)" "goes src False ps ps1" "q \<noteq> None \<longrightarrow> size_of ps1 < size_of ps" by (auto simp: runs_def)
    show ?thesis
    proof (cases q)
      case None
      obtain ps2 ps3 where "parser_synchronize n ps1 = Some ps2"
          "(if ps_type ps2 = ps_type ps1 \<and> lx_pos (ps_lexer ps2) = lx_pos (ps_lexer ps1) then parser_next_token ps2 else Some ps2) = Some ps3"
          "goes src False ps ps3" "size_of ps3 < size_of ps"
        by (rule after_failed_declaration [OF Suc.prems(1) eof s(2) small])
      then show ?thesis using again [of ps3 f] 5 s(1) None by simp
    next
      case (Some x)
      then show ?thesis using again [OF s(2), of "ast_file_add_statement f x"] s(1,3) 5 by (simp add: ast_file_add_statement_def)
    qed
  qed
qed simp

lemma header_ends:
  assumes "parser_ok src False ps" "size_of ps < n" "af_module_name f = None"
  obtains f' ps' where "parser_parse_header n f ps = Some (f', ps')" "goes src False ps ps'"
    "af_module_name f' = None \<Longrightarrow> parser_errors ps < parser_errors ps'"
proof -
  obtain ps1 where 1: "parser_next_token ps = Some ps1" "goes src False ps ps1" using next_token [OF assms(1)] by metis
  note ok1 = goes_ok [OF 1(2)]
  have size: "size_of ps1 < n" using 1(2) assms(2) by (simp add: goes_def)
  have rest: "\<exists>f' ps'. parser_parse_header n f ps = Some (f', ps') \<and> goes src False ps ps' \<and>
      (af_module_name f' = None \<longrightarrow> parser_errors ps < parser_errors ps')"
    if name: "(if ps_type ps1 = TOKEN_MODULE then Option.bind (parse_module_directive n ps1)
           (\<lambda>(name, ps). Some (case name of Some i \<Rightarrow> f\<lparr>af_module_name := Some i\<rparr> | None \<Rightarrow> f, ps))
         else Some (f, parser_diag GAB_ERR_SYNTAX (parser_span ps1)
           (''a file must name its module: write '' @ quoted ''module <name>;'' @ '' before anything else'') ps1)) = Some (f2, ps2)"
      "goes src False ps1 ps2" "af_module_name f2 = None \<longrightarrow> parser_errors ps1 < parser_errors ps2" for f2 ps2
  proof -
    have "size_of ps2 < n" using name(2) size by (simp add: goes_def)
    from imports_end [OF goes_ok [OF name(2)] this, of f2] obtain f3 ps3 where
      3: "parse_imports n f2 ps2 = Some (f3, ps3)" "goes src False ps2 ps3" "af_module_name f3 = af_module_name f2"
      by (auto simp: file_goes_def)
    have "parser_parse_header n f ps = Some (f3, ps3)"
      unfolding parser_parse_header_def using 1(1) name(1) 3(1) by (simp only: bind.simps prod.case)
    moreover have "goes src False ps ps3" by (rule goes_trans [OF 1(2) goes_trans [OF name(2) 3(2)]])
    ultimately show ?thesis using name(3) 3(2,3) 1(2) by (auto simp: goes_def)
  qed
  show ?thesis
  proof (cases "ps_type ps1 = TOKEN_MODULE")
    case True
    then have "ps_type ps1 \<noteq> TOKEN_EOF" by simp
    from directive_runs(1) [OF ok1 this size] obtain q ps2 where
      2: "parse_module_directive n ps1 = Some (q, ps2)" "goes src False ps1 ps2" "q = None \<longrightarrow> parser_errors ps1 < parser_errors ps2"
      by (auto simp: runs_def)
    show ?thesis
      using that rest [of "case q of Some i \<Rightarrow> f\<lparr>af_module_name := Some i\<rparr> | None \<Rightarrow> f" ps2] 2 True by (auto split: option.splits)
  next
    case False
    note diag = diag_goes [OF ok1, of GAB_ERR_SYNTAX "parser_span ps1"
      "''a file must name its module: write '' @ quoted ''module <name>;'' @ '' before anything else''"]
    show ?thesis
      using that rest [OF _ diag(1), of f] diag(2) False by auto
  qed
qed

section \<open>The parser returns\<close>

text \<open>The types of a source's tokens; a pool and a list of diagnostics are needed to ask the lexer, and do not matter.\<close>

definition source_types :: "string \<Rightarrow> token_type list" where
  "source_types src = types_from (lexer_create src (the string_pool_init) (diagnostics_init None))"

text \<open>Sources without \<^verbatim>\<open>extern\<close>, \<^verbatim>\<open>caller\<close> or \<^verbatim>\<open>module\<close> after their first brace.\<close>

definition calm_source :: "string \<Rightarrow> bool" where
  "calm_source src \<longleftrightarrow> calm False (source_types src)"

lemma parser_create_ok:
  assumes "nul_free src" "pool_inv pool" "calm_source src"
  shows "parser_ok src False (parser_create (lexer_create src pool ds))" "size_of (parser_create (lexer_create src pool ds)) = 2 * length src + 1"
    "parser_errors (parser_create (lexer_create src pool ds)) = diagnostics_count ds"
proof -
  obtain pool0 where pool0: "string_pool_init = Some pool0" "pool_inv pool0" using string_pool_init_inv by blast
  have "types_from (lexer_create src pool ds) = source_types src"
    unfolding source_types_def pool0(1) option.sel
    by (rule types_from_twin [OF lexer_create_inv [OF assms(1,2)] lexer_create_inv [OF assms(1) pool0(2)]]) (simp add: twin_def lexer_create_def)
  then show "parser_ok src False (parser_create (lexer_create src pool ds))"
    using assms(3) lexer_create_inv [OF assms(1,2)] by (simp add: parser_ok_def parser_create_def calm_source_def calm_def)
qed (simp_all add: size_of_def parser_create_def lexer_create_def parser_errors_def)

lemma parse_file_ends:
  assumes "nul_free src" "pool_inv pool" "calm_source src" "16 * length src + 20 \<le> n"
  obtains r pool' ds' where "parse_file n src pool ds = Some (r, pool', ds')" "pool_inv pool'" "diagnostics_count ds \<le> diagnostics_count ds'"
    "r = None \<longleftrightarrow> diagnostics_count ds < diagnostics_count ds'" "\<And>f. r = Some f \<Longrightarrow> af_module_name f \<noteq> None"
proof -
  let ?ps = "parser_create (lexer_create src pool ds)"
  note ok = parser_create_ok [OF assms(1-3), of ds]
  have "size_of ?ps < n" using ok(2) assms(4) by simp
  from header_ends [OF ok(1) this, of ast_file_create] obtain f1 ps1 where
    1: "parser_parse_header n ast_file_create ?ps = Some (f1, ps1)" "goes src False ?ps ps1"
      "af_module_name f1 = None \<Longrightarrow> parser_errors ?ps < parser_errors ps1"
    by (auto simp: ast_file_create_def)
  have "8 * size_of ps1 + 7 \<le> n" using 1(2) ok(2) assms(4) by (simp add: goes_def)
  from parse_loop_ends [OF goes_ok [OF 1(2)] this, of f1] obtain f2 ps2 where
    2: "parser_parse_loop n f1 ps1 = Some (f2, ps2)" "goes src False ps1 ps2" "af_module_name f2 = af_module_name f1"
    by (auto simp: file_goes_def)
  let ?r = "if parser_errors ps2 = parser_errors ?ps then Some f2 else None"
  have "parse_file n src pool ds = Some (?r, lx_strings (ps_lexer ps2), lx_diagnostics (ps_lexer ps2))"
    using 1(1) 2(1) by (simp add: parse_file_def parser_parse_def parser_outcome_def)
  moreover have "pool_inv (lx_strings (ps_lexer ps2))" using goes_ok [OF 2(2)] by (simp add: parser_ok_def lexer_inv_def)
  moreover have "parser_errors ?ps \<le> parser_errors ps1" "parser_errors ps1 \<le> parser_errors ps2" using 1(2) 2(2) by (simp_all add: goes_def)
  ultimately show ?thesis using that [of ?r] 1(3) 2(3) ok(3) by (auto simp: parser_errors_def split: if_splits)
qed

end
