(* ===== verification/Parser_Spelled.thy ===== *)
theory Parser_Spelled
  imports Parser_Returns
begin

text \<open>
  Parsing a text in which a list of lexemes is spelled.  \<open>stands\<close> says which lexemes a
  parser has before it, \<open>wp\<close> what a parsing function answers when its steps suffice, so that a proof
  follows the code from lexeme to lexeme.
\<close>

section \<open>A parser before a list of lexemes\<close>

fun lexeme_type :: "lexeme \<Rightarrow> token_type" where
  "lexeme_type (Punct t) = t"
| "lexeme_type (Word w) = (case map_of keyword_table w of Some k \<Rightarrow> k | None \<Rightarrow> TOKEN_IDENT)"
| "lexeme_type (Builtin w) = TOKEN_BUILTIN"
| "lexeme_type (Number n) = TOKEN_INT"
| "lexeme_type (Text s) = TOKEN_STRING"

fun next_type :: "lexeme list \<Rightarrow> token_type" where
  "next_type [] = TOKEN_EOF"
| "next_type (l # ls) = lexeme_type l"

text \<open>The plainest such text has a space after each lexeme.\<close>

definition spelled :: "lexeme list \<Rightarrow> string" where
  "spelled ls = concat (map (\<lambda>l. spelling l @ '' '') ls)"

lemma spelled_simps [simp]: "spelled [] = []" "spelled (l # ls) = spelling l @ CHR '' '' # spelled ls"
  by (simp_all add: spelled_def)

lemma parted_space: "parted l (CHR '' '' # r)"
  by (cases l) (simp_all add: parted_def is_ident_char_def lexer_char_simps)

lemma spells_spelled: "list_all lexeme_ok ls \<Longrightarrow> spells ls (spelled ls)"
  by (induction ls) (auto intro!: spells_lexeme spells_space intro: spells_end simp: parted_space space_facts)

abbreviation strings_of :: "parser \<Rightarrow> string list" where
  "strings_of ps \<equiv> sp_strings (lx_strings (ps_lexer ps))"

fun holds :: "parser \<Rightarrow> lexeme list \<Rightarrow> bool" where
  "holds ps [] \<longleftrightarrow> ps_type ps = TOKEN_EOF \<and> lx_rest (ps_lexer ps) = []"
| "holds ps (l # ls) \<longleftrightarrow> token_of (lx_strings (ps_lexer ps)) l (ps_current ps) \<and> spells ls (lx_rest (ps_lexer ps))"

definition stands :: "string \<Rightarrow> diagnostics \<Rightarrow> parser \<Rightarrow> lexeme list \<Rightarrow> bool" where
  "stands src ds ps ls \<longleftrightarrow> lexer_inv src (ps_lexer ps) \<and> lx_diagnostics (ps_lexer ps) = ds \<and> list_all lexeme_ok ls \<and> holds ps ls"

definition grows :: "parser \<Rightarrow> parser \<Rightarrow> bool" where
  "grows ps ps' \<longleftrightarrow> (\<exists>newer. strings_of ps' = strings_of ps @ newer)"

lemma grows_refl [simp]: "grows ps ps"
  by (simp add: grows_def)

lemma grows_trans [trans]: "grows a b \<Longrightarrow> grows b c \<Longrightarrow> grows a c"
  by (auto simp: grows_def)

lemma token_type_of: "token_of pool l t \<Longrightarrow> tok_type t = lexeme_type l"
  by (cases l) auto

lemma stands_type: "stands src ds ps ls \<Longrightarrow> ps_type ps = next_type ls"
  by (cases ls) (auto simp: stands_def dest: token_type_of)

lemma lexer_reads_spelled:
  assumes "lexer_inv src lx" "spells ls (lx_rest lx)"
  obtains t lx' where "lexer_next lx = Some (t, lx')" "stands src (lx_diagnostics lx) \<lparr>ps_lexer = lx', ps_current = t\<rparr> ls"
    "\<exists>newer. sp_strings (lx_strings lx') = sp_strings (lx_strings lx) @ newer"
proof (rule lexer_reads_spells [OF assms(2,1) refl], goal_cases)
  case (1 t lx')
  then show ?thesis using that spells_ok [OF assms(2)] by (cases ls) (simp_all add: stands_def)
qed

lemma stands_next:
  assumes "stands src ds ps (l # ls)"
  obtains ps' where "parser_next_token ps = Some ps'" "stands src ds ps' ls" "grows ps ps'"
proof -
  have *: "lexer_inv src (ps_lexer ps)" "spells ls (lx_rest (ps_lexer ps))" "lx_diagnostics (ps_lexer ps) = ds"
    using assms by (simp_all add: stands_def)
  obtain t lx' where "lexer_next (ps_lexer ps) = Some (t, lx')" "stands src ds \<lparr>ps_lexer = lx', ps_current = t\<rparr> ls"
      "\<exists>newer. sp_strings (lx_strings lx') = strings_of ps @ newer"
    using lexer_reads_spelled [OF *(1,2)] *(3) by metis
  then show ?thesis using that by (simp add: parser_next_token_def grows_def)
qed

lemma stands_create:
  assumes "spells ls src" "nul_free src" "pool_inv pool"
  obtains ps where "parser_next_token (parser_create (lexer_create src pool ds)) = Some ps" "stands src ds ps ls"
    "grows (parser_create (lexer_create src pool ds)) ps"
proof -
  let ?lx = "lexer_create src pool ds"
  have rest: "lx_rest ?lx = src" "lx_diagnostics ?lx = ds" by (simp_all add: lexer_create_def lx_rest_def)
  obtain t lx' where "lexer_next ?lx = Some (t, lx')" "stands src ds \<lparr>ps_lexer = lx', ps_current = t\<rparr> ls"
      "\<exists>newer. sp_strings (lx_strings lx') = sp_strings (lx_strings ?lx) @ newer"
    using lexer_reads_spelled [OF lexer_create_inv [OF assms(2,3)]] assms(1) rest by metis
  then show ?thesis using that by (simp add: parser_next_token_def parser_create_def grows_def)
qed

lemma stands_grows:
  assumes "stands src ds ps ls" "pool_inv pool" "sp_strings pool = strings_of ps @ newer"
  shows "stands src ds (ps\<lparr>ps_lexer := (ps_lexer ps)\<lparr>lx_strings := pool\<rparr>\<rparr>) ls"
  using assms by (cases ls) (auto simp: stands_def lexer_inv_def lx_rest_def intro: token_of_grows)

lemma stands_ident:
  assumes "stands src ds ps ls"
  obtains a ps' where "parser_ident sp name ps = Some (ASTIdent a sp, ps')" "stands src ds ps' ls" "grows ps ps'"
    "a < length (strings_of ps')" "strings_of ps' ! a = name"
proof -
  have "pool_inv (lx_strings (ps_lexer ps))" using assms by (simp add: stands_def lexer_inv_def)
  from string_from_cstr_len_ok [OF this, of name] obtain a pool newer where
    *: "string_from_cstr_len (lx_strings (ps_lexer ps)) name = Some (a, pool)" "pool_inv pool" "a < length (sp_strings pool)"
      "sp_strings pool ! a = name" "sp_strings pool = strings_of ps @ newer" by blast
  show ?thesis
    using that [of a "ps\<lparr>ps_lexer := (ps_lexer ps)\<lparr>lx_strings := pool\<rparr>\<rparr>"] * stands_grows [OF assms *(2,5)]
    by (simp add: parser_ident_def ast_ident_create_def string_from_ref_def grows_def)
qed

lemma stands_restore:
  assumes "stands src ds ps ls" "stands src ds ps' ls'" "grows ps ps'"
  shows "stands src ds (parser_restore ps ps') ls" "grows ps (parser_restore ps ps')"
proof -
  have "pool_inv (lx_strings (ps_lexer ps'))" using assms(2) by (simp add: stands_def lexer_inv_def)
  moreover obtain newer where "strings_of ps' = strings_of ps @ newer" using assms(3) by (auto simp: grows_def)
  ultimately have "stands src ds (ps\<lparr>ps_lexer := (ps_lexer ps)\<lparr>lx_strings := lx_strings (ps_lexer ps')\<rparr>\<rparr>) ls"
    by (rule stands_grows [OF assms(1)])
  moreover have "lx_diagnostics (ps_lexer ps') = lx_diagnostics (ps_lexer ps)" using assms(1,2) by (simp add: stands_def)
  ultimately show "stands src ds (parser_restore ps ps') ls" by (simp add: parser_restore_def)
  show "grows ps (parser_restore ps ps')" using assms(3) by (simp add: grows_def parser_restore_def)
qed

section \<open>What a parsing function answers\<close>

definition wp :: "'r parsed \<Rightarrow> ('r \<Rightarrow> parser \<Rightarrow> bool) \<Rightarrow> bool" where
  "wp p Q \<longleftrightarrow> (\<forall>q ps. p = Some (q, ps) \<longrightarrow> (\<exists>r. q = Some r \<and> Q r ps))"

lemma wp_None [simp]: "wp None Q"
  by (simp add: wp_def)

lemma wp_parsed: "Q r ps \<Longrightarrow> wp (parsed r ps) Q"
  by (simp add: wp_def parsed_def)

lemma wp_mono: "wp p Q \<Longrightarrow> (\<And>r ps. Q r ps \<Longrightarrow> R r ps) \<Longrightarrow> wp p R"
  by (fastforce simp: wp_def)

lemma wp_then: "wp p (\<lambda>r ps. wp (k r ps) Q) \<Longrightarrow> wp (then_parse p k) Q"
  by (auto simp: wp_def then_parse_def split: option.splits)

lemma wp_then_parsed: "wp (k r ps) Q \<Longrightarrow> wp (then_parse (parsed r ps) k) Q"
  by simp

lemma wp_next:
  "stands src ds ps (l # ls) \<Longrightarrow> (\<And>ps'. stands src ds ps' ls \<Longrightarrow> grows ps ps' \<Longrightarrow> wp (k ps') Q) \<Longrightarrow> wp (Option.bind (parser_next_token ps) k) Q"
  by (erule stands_next) simp

lemma wp_expecting: "ps_type ps = t \<Longrightarrow> wp (k ps) Q \<Longrightarrow> wp (expecting t msg ps k) Q"
  by (simp add: expecting_at)

lemma wp_ident:
  "stands src ds ps ls \<Longrightarrow>
   (\<And>a ps'. stands src ds ps' ls \<Longrightarrow> grows ps ps' \<Longrightarrow> a < length (strings_of ps') \<Longrightarrow> strings_of ps' ! a = name \<Longrightarrow> wp (k (ASTIdent a sp) ps') Q) \<Longrightarrow>
   wp (Option.bind (parser_ident sp name ps) (\<lambda>(i, ps). k i ps)) Q"
  by (erule stands_ident [where sp = sp and name = name]) simp

lemma stands_word: "stands src ds ps (Word w # ls) \<Longrightarrow> tok_lexeme (ps_current ps) = w"
  by (simp add: stands_def)

lemma wp_take_ident:
  assumes "stands src ds ps (Word w # ls)"
    "\<And>a ps'. stands src ds ps' ls \<Longrightarrow> grows ps ps' \<Longrightarrow> a < length (strings_of ps') \<Longrightarrow> strings_of ps' ! a = w \<Longrightarrow> wp (k (ASTIdent a (parser_span ps)) ps') Q"
  shows "wp (Option.bind (parser_take_ident ps) (\<lambda>(i, ps). k i ps)) Q"
proof -
  obtain a ps1 where 1: "parser_ident (parser_span ps) w ps = Some (ASTIdent a (parser_span ps), ps1)" "stands src ds ps1 (Word w # ls)"
      "grows ps ps1" "a < length (strings_of ps1)" "strings_of ps1 ! a = w"
    using stands_ident [OF assms(1)] by metis
  obtain ps2 where 2: "parser_next_token ps1 = Some ps2" "stands src ds ps2 ls" "grows ps1 ps2" by (rule stands_next [OF 1(2)])
  have "a < length (strings_of ps2)" "strings_of ps2 ! a = w" using 1(4,5) 2(3) by (auto simp: grows_def nth_append)
  then show ?thesis
    using assms(2) [OF 2(2) grows_trans [OF 1(3) 2(3)]] 1(1) 2(1) stands_word [OF assms(1)] by (simp add: parser_take_ident_def)
qed

lemma wp_if: "(P \<Longrightarrow> wp a Q) \<Longrightarrow> (\<not> P \<Longrightarrow> wp b Q) \<Longrightarrow> wp (if P then a else b) Q"
  by simp

section \<open>Looking ahead\<close>

lemma scan_stands:
  "stands src ds ps ls \<Longrightarrow> scan_type_args_loop n depth after ps = Some (b, ps') \<Longrightarrow>
   \<exists>ls'. stands src ds ps' ls' \<and> grows ps ps' \<and> (b \<longrightarrow> depth = 0 \<and> next_type ls = after \<or> after \<in> lexeme_type ` set ls \<union> {TOKEN_EOF})"
proof (induction n arbitrary: depth ps ls)
  case (Suc n)
  have go: "\<exists>ls'. stands src ds ps' ls' \<and> grows ps ps' \<and> (b \<longrightarrow> depth = 0 \<and> next_type ls = after \<or> after \<in> lexeme_type ` set ls \<union> {TOKEN_EOF})"
    if step: "Option.bind (parser_next_token ps) (\<lambda>ps. scan_type_args_loop n d after ps) = Some (b, ps')" and reads: "ps_type ps \<noteq> TOKEN_EOF" for d
  proof -
    obtain l ls1 where ls: "ls = l # ls1" using reads stands_type [OF Suc.prems(1)] by (cases ls) auto
    obtain ps1 where 1: "parser_next_token ps = Some ps1" "stands src ds ps1 ls1" "grows ps ps1"
      using stands_next Suc.prems(1) ls by metis
    from step 1(1) have "scan_type_args_loop n d after ps1 = Some (b, ps')" by simp
    from Suc.IH [OF 1(2) this] obtain ls' where "stands src ds ps' ls'" "grows ps1 ps'"
      "b \<longrightarrow> d = 0 \<and> next_type ls1 = after \<or> after \<in> lexeme_type ` set ls1 \<union> {TOKEN_EOF}" by blast
    then show ?thesis using grows_trans [OF 1(3)] ls by (cases ls1) auto
  qed
  show ?case
  proof (cases "depth = 0")
    case True
    then show ?thesis using Suc.prems stands_type [OF Suc.prems(1)] by (cases ls) auto
  next
    case False
    then have "(\<exists>d. Option.bind (parser_next_token ps) (\<lambda>ps. scan_type_args_loop n d after ps) = Some (b, ps') \<and> ps_type ps \<noteq> TOKEN_EOF) \<or> \<not> b \<and> ps' = ps"
      using Suc.prems(2) unfolding scan_type_args_loop.simps by (auto split: if_splits)
    then show ?thesis
    proof (elim disjE exE conjE)
      fix d assume "Option.bind (parser_next_token ps) (\<lambda>ps. scan_type_args_loop n d after ps) = Some (b, ps')" "ps_type ps \<noteq> TOKEN_EOF"
      then show ?thesis by (rule go)
    qed (use Suc.prems(1) in auto)
  qed
qed simp

lemma no_brace_ahead:
  assumes "stands src ds ps (l # ls)" "TOKEN_LBRACE \<notin> lexeme_type ` set ls" "starts_struct_lit n e ctx ps = Some (b, ps')" "ps_type ps \<noteq> TOKEN_LBRACE"
  shows "b = False" "stands src ds ps' (l # ls)" "grows ps ps'"
proof -
  have "b = False \<and> stands src ds ps' (l # ls) \<and> grows ps ps'"
  proof (cases "ctx \<noteq> EXPR_ANY \<or> \<not> expr_is_a_name e")
    case False
    then obtain ps2 where 2: "parser_scan_type_args n TOKEN_LBRACE ps = Some (b, ps2)" "ps' = parser_restore ps ps2"
      using assms(3,4) by (auto simp: starts_struct_lit_def parser_type_args_precede_a_brace_def parser_type_args_close_with_def bind_eq_Some_conv)
    obtain ps1 where 1: "parser_next_token ps = Some ps1" "stands src ds ps1 ls" "grows ps ps1" by (rule stands_next [OF assms(1)])
    from scan_stands [OF 1(2), of n 1 TOKEN_LBRACE b ps2] 2(1) 1(1) obtain ls' where
      "stands src ds ps2 ls'" "grows ps1 ps2" "\<not> b" using assms(2) by (auto simp: parser_scan_type_args_def)
    then show ?thesis using stands_restore [OF assms(1)] grows_trans [OF 1(3)] 2(2) by blast
  qed (use assms in \<open>auto simp: starts_struct_lit_def\<close>)
  then show "b = False" "stands src ds ps' (l # ls)" "grows ps ps'" by blast+
qed

lemma no_cast_ahead:
  assumes "stands src ds ps (l # l2 # ls)" "lexeme_type l2 \<noteq> TOKEN_IDENT" "parser_star_precedes_a_cast n ps = Some (b, ps')"
  shows "b = False" "stands src ds ps' (l # l2 # ls)" "grows ps ps'"
proof -
  obtain ps1 where 1: "parser_next_token ps = Some ps1" "stands src ds ps1 (l2 # ls)" "grows ps ps1" by (rule stands_next [OF assms(1)])
  have "b = False \<and> ps' = parser_restore ps ps1"
    using assms(2,3) 1(1) stands_type [OF 1(2)] by (auto simp: parser_star_precedes_a_cast_def)
  then show "b = False" "stands src ds ps' (l # l2 # ls)" "grows ps ps'" using stands_restore [OF assms(1) 1(2,3)] by simp_all
qed

section \<open>Spelled sources\<close>

lemma nul_free_append: "nul_free (a @ b) \<longleftrightarrow> nul_free a \<and> nul_free b"
  by (auto simp: nul_free_def)

lemma nul_free_escape: "nul_free (concat (map escape_char s))"
  by (induction s) (auto simp: nul_free_def escape_char_def NUL_def)

lemma nul_free_spelling: "lexeme_ok l \<Longrightarrow> nul_free (spelling l)"
proof (cases l)
  case (Punct t)
  assume "lexeme_ok l"
  moreover have "list_all (\<lambda>(t, w). nul_free w) punctuation" by (simp add: punctuation_def nul_free_def NUL_def)
  ultimately show ?thesis using Punct map_of_SomeD [of punctuation t]
    by (cases "map_of punctuation t") (auto simp: list_all_iff map_of_eq_None_iff)
next
  case (Number n)
  have "c \<noteq> NUL" if "is_digit c" for c using that by (auto simp: lexer_char_simps)
  then show ?thesis using Number show_nat_digits [of n] by (auto simp: nul_free_def)
next
  case (Text s)
  then show ?thesis using nul_free_escape [of s] by (auto simp: nul_free_def NUL_def)
next
  case (Word w)
  have "c \<noteq> NUL" if "is_ident_char c" for c using that by (auto simp: is_ident_char_def lexer_char_simps)
  moreover assume "lexeme_ok l"
  ultimately show ?thesis using Word by (auto simp: nul_free_def)
next
  case (Builtin w)
  have "c \<noteq> NUL" if "is_ident_char c" for c using that by (auto simp: is_ident_char_def lexer_char_simps)
  moreover assume "lexeme_ok l"
  ultimately show ?thesis using Builtin by (auto simp: nul_free_def NUL_def)
qed

lemma nul_free_spells: "spells ls r \<Longrightarrow> nul_free r"
proof (induction rule: spells.induct)
  case (spells_space c ls r)
  then show ?case using space_not_NUL by (auto simp: nul_free_def)
qed (simp_all add: nul_free_append nul_free_spelling, simp add: nul_free_def)

lemma nul_free_spelled: "list_all lexeme_ok ls \<Longrightarrow> nul_free (spelled ls)"
  by (rule nul_free_spells [OF spells_spelled])

lemma spells_length: "spells ls r \<Longrightarrow> length ls \<le> length r"
proof (induction rule: spells.induct)
  case (spells_lexeme l r ls)
  then show ?case using spelling_not_space [of l] by auto
qed auto

lemma spells_types:
  assumes "spells ls src"
  shows "source_types src = map lexeme_type ls @ [TOKEN_EOF]"
proof -
  obtain pool where pool: "string_pool_init = Some pool" "pool_inv pool" using string_pool_init_inv by blast
  let ?lx = "lexer_create src pool (diagnostics_init None)"
  have rest: "spells ls (lx_rest ?lx)" using assms by (simp add: lexer_create_def lx_rest_def)
  have inv: "lexer_inv src ?lx" by (rule lexer_create_inv [OF nul_free_spells [OF assms] pool(2)])
  have len: "length ls < Suc (length src)" using spells_length [OF assms] by simp
  obtain ts eof lx' where ts: "lexer_tokens (Suc (length src)) ?lx = Some (ts @ [eof], lx')" "tok_type eof = TOKEN_EOF"
      "list_all2 (token_of (lx_strings lx')) ls ts"
    using lexer_tokens_spelled [OF inv rest len] by blast
  have "map tok_type ts = map lexeme_type ls"
    using ts(3) by (induction rule: list_all2_induct) (auto dest: token_type_of)
  moreover have "length (lx_source ?lx) - lx_pos ?lx = length src" by (simp add: lexer_create_def)
  ultimately show ?thesis using ts(1,2) unfolding source_types_def types_from_def pool(1) option.sel by (simp del: lexer_tokens.simps)
qed

lemma spells_calm: "spells ls src \<Longrightarrow> calm_source src \<longleftrightarrow> calm False (map lexeme_type ls @ [TOKEN_EOF])"
  by (simp add: calm_source_def spells_types)

lemma spells_braceless:
  assumes "spells ls src" "TOKEN_LBRACE \<notin> lexeme_type ` set ls"
  shows "calm_source src"
proof -
  have "dropWhile (\<lambda>t. t \<noteq> TOKEN_LBRACE) (map lexeme_type ls @ [TOKEN_EOF]) = []"
    unfolding dropWhile_eq_Nil_conv using assms(2) by (auto simp: image_iff)
  then show ?thesis unfolding spells_calm [OF assms(1)] calm_def by (simp only: if_False list.set Int_empty_left)
qed

end
