(* ===== verification/Parser_Round_Trip.thy ===== *)
theory Parser_Round_Trip
  imports Parser_Spelled
begin

text \<open>
  Expressions survive the trip through their text.  \<open>expr_lexemes\<close> writes a tree with the parentheses that
  the precedence and the left associativity of its operators call for; the parser reads the text back to
  the same tree, whatever its spans and the places its names are interned at.  Two forms are written with
  parentheses that precedence does not call for, because the parser would look ahead from them and take
  them for something else: the left operand of \<open><\<close>, which after a name could open type arguments, and the
  target of a prefix star, which before a call would be a cast.
\<close>

section \<open>The text of an expression\<close>

type_synonym tree = "(string, unit) ast_expr"

fun op_token :: "bin_op \<Rightarrow> token_type" where
  "op_token BIN_OP_ADD = TOKEN_PLUS"
| "op_token BIN_OP_SUB = TOKEN_MINUS"
| "op_token BIN_OP_MUL = TOKEN_MUL"
| "op_token BIN_OP_DIV = TOKEN_DIV"
| "op_token BIN_OP_MOD = TOKEN_MOD"
| "op_token BIN_OP_LESS = TOKEN_LESS"
| "op_token BIN_OP_GREATER = TOKEN_GREATER"
| "op_token BIN_OP_EQUAL = TOKEN_EQUAL"
| "op_token BIN_OP_NEQUAL = TOKEN_NEQUAL"
| "op_token BIN_OP_LEQUAL = TOKEN_LEQUAL"
| "op_token BIN_OP_GEQUAL = TOKEN_GEQUAL"
| "op_token BIN_OP_AND = TOKEN_AND"
| "op_token BIN_OP_OR = TOKEN_OR"

text \<open>Both logical operators bind alike, then equality, comparison, sums and products.\<close>

fun op_level :: "bin_op \<Rightarrow> nat" where
  "op_level BIN_OP_AND = 1"
| "op_level BIN_OP_OR = 1"
| "op_level BIN_OP_EQUAL = 2"
| "op_level BIN_OP_NEQUAL = 2"
| "op_level BIN_OP_LESS = 3"
| "op_level BIN_OP_GREATER = 3"
| "op_level BIN_OP_LEQUAL = 3"
| "op_level BIN_OP_GEQUAL = 3"
| "op_level BIN_OP_ADD = 5"
| "op_level BIN_OP_SUB = 5"
| "op_level BIN_OP_MUL = 6"
| "op_level BIN_OP_DIV = 6"
| "op_level BIN_OP_MOD = 6"

fun literal_lexeme :: "string literal \<Rightarrow> lexeme" where
  "literal_lexeme (LITERAL_INT i) = Number (unat i)"
| "literal_lexeme (LITERAL_BOOL b) = Word (if b then ''true'' else ''false'')"
| "literal_lexeme (LITERAL_STRING s) = Text s"
| "literal_lexeme (LITERAL_FLOAT f) = Number 0"

definition in_parens :: "lexeme list \<Rightarrow> lexeme list" where
  "in_parens ls = Punct TOKEN_LPAREN # ls @ [Punct TOKEN_RPAREN]"

fun commas :: "lexeme list list \<Rightarrow> lexeme list" where
  "commas [] = []"
| "commas [ls] = ls"
| "commas (ls # lss) = ls @ Punct TOKEN_COMMA # commas lss"

text \<open>The levels are those of the operators, 7 for what a prefix takes and 8 for what a postfix takes.\<close>

fun expr_lexemes :: "nat \<Rightarrow> tree \<Rightarrow> lexeme list" where
  "expr_lexemes p (EXPR_LITERAL sp l) = [literal_lexeme l]"
| "expr_lexemes p (EXPR_NAME sp name owner) = [Word (id_name name)]"
| "expr_lexemes p (EXPR_QUALIFIED sp qualifier name owner) = [Word (id_name qualifier), Punct TOKEN_COLON_COLON, Word (id_name name)]"
| "expr_lexemes p (EXPR_BIN_OP sp left op right) =
     (let ls = (if op = BIN_OP_LESS then in_parens (expr_lexemes 0 left) else expr_lexemes (op_level op) left) @
        Punct (op_token op) # expr_lexemes (op_level op + 1) right
      in if op_level op < p then in_parens ls else ls)"
| "expr_lexemes p (EXPR_NOT sp target) = (let ls = Punct TOKEN_NOT # expr_lexemes 7 target in if 7 < p then in_parens ls else ls)"
| "expr_lexemes p (EXPR_NEG sp target) = (let ls = Punct TOKEN_MINUS # expr_lexemes 7 target in if 7 < p then in_parens ls else ls)"
| "expr_lexemes p (EXPR_DEREF sp target) = (let ls = Punct TOKEN_MUL # in_parens (expr_lexemes 0 target) in if 7 < p then in_parens ls else ls)"
| "expr_lexemes p (EXPR_CALL sp target args) = expr_lexemes 8 target @ in_parens (commas (map (expr_lexemes 0) args))"
| "expr_lexemes p (EXPR_FIELD sp target name) = expr_lexemes 8 target @ [Punct TOKEN_DOT, Word (id_name name)]"
| "expr_lexemes p (EXPR_INDEX sp target index) = expr_lexemes 8 target @ Punct TOKEN_LBRACKET # expr_lexemes 0 index @ [Punct TOKEN_RBRACKET]"
| "expr_lexemes p (EXPR_ARRAY_LIT sp elements) = Punct TOKEN_LBRACKET # commas (map (expr_lexemes 0) elements) @ [Punct TOKEN_RBRACKET]"
| "expr_lexemes p e = []"

definition is_identifier :: "string \<Rightarrow> bool" where
  "is_identifier w \<longleftrightarrow> lexeme_ok (Word w) \<and> map_of keyword_table w = None"

fun literal_ok :: "string literal \<Rightarrow> bool" where
  "literal_ok (LITERAL_INT i) \<longleftrightarrow> unat i < 2 ^ 63"
| "literal_ok (LITERAL_FLOAT f) \<longleftrightarrow> False"
| "literal_ok _ \<longleftrightarrow> True"

text \<open>The trees with such a text: their names are identifiers, their numbers are not negative, and they
  have no float, cast, builtin, structure literal or type arguments.\<close>

fun printable :: "tree \<Rightarrow> bool" where
  "printable (EXPR_LITERAL sp l) \<longleftrightarrow> literal_ok l"
| "printable (EXPR_NAME sp name owner) \<longleftrightarrow> is_identifier (id_name name) \<and> owner = None"
| "printable (EXPR_QUALIFIED sp qualifier name owner) \<longleftrightarrow> is_identifier (id_name qualifier) \<and> is_identifier (id_name name) \<and> owner = None"
| "printable (EXPR_BIN_OP sp left op right) \<longleftrightarrow> printable left \<and> printable right"
| "printable (EXPR_NOT sp target) \<longleftrightarrow> printable target"
| "printable (EXPR_NEG sp target) \<longleftrightarrow> printable target"
| "printable (EXPR_DEREF sp target) \<longleftrightarrow> printable target"
| "printable (EXPR_CALL sp target args) \<longleftrightarrow> printable target \<and> (\<forall>e \<in> set args. printable e)"
| "printable (EXPR_FIELD sp target name) \<longleftrightarrow> printable target \<and> is_identifier (id_name name)"
| "printable (EXPR_INDEX sp target index) \<longleftrightarrow> printable target \<and> printable index"
| "printable (EXPR_ARRAY_LIT sp elements) \<longleftrightarrow> (\<forall>e \<in> set elements. printable e)"
| "printable e \<longleftrightarrow> False"

text \<open>What the parser's tree stands for: names by the strings they are interned as, and no spans.\<close>

definition named :: "parser \<Rightarrow> expr \<Rightarrow> tree" where
  "named ps e = map_ast_expr (\<lambda>a. strings_of ps ! a) (\<lambda>sp. ()) e"

definition denotes :: "parser \<Rightarrow> expr \<Rightarrow> tree \<Rightarrow> bool" where
  "denotes ps e' e \<longleftrightarrow> (\<forall>a \<in> set1_ast_expr e'. a < length (strings_of ps)) \<and> named ps e' = e"

section \<open>The text's first lexeme\<close>

definition expr_starts :: "token_type set" where
  "expr_starts = {TOKEN_LPAREN, TOKEN_LBRACKET, TOKEN_INT, TOKEN_STRING, TOKEN_TRUE, TOKEN_FALSE, TOKEN_IDENT}"

lemma identifier_type: "is_identifier w \<Longrightarrow> lexeme_type (Word w) = TOKEN_IDENT"
  by (simp add: is_identifier_def)

lemma bool_words: "map_of keyword_table ''true'' = Some TOKEN_TRUE" "map_of keyword_table ''false'' = Some TOKEN_FALSE"
  by (simp_all add: keyword_table_def)

lemma literal_starts: "literal_ok l \<Longrightarrow> lexeme_type (literal_lexeme l) \<in> expr_starts"
  by (cases l) (simp_all add: expr_starts_def bool_words)

lemma print_head8: "printable e \<Longrightarrow> \<exists>l ls. expr_lexemes 8 e = l # ls \<and> lexeme_type l \<in> expr_starts"
proof (induction e)
  case (EXPR_BIN_OP sp left op right)
  have "op_level op < 8" by (cases op) simp_all
  then show ?case by (simp add: in_parens_def expr_starts_def Let_def)
qed (auto simp: in_parens_def expr_starts_def Let_def literal_starts identifier_type [unfolded lexeme_type.simps] dest: literal_starts)

lemma print_head: "printable e \<Longrightarrow> \<exists>l ls. expr_lexemes p e = l # ls \<and> lexeme_type l \<in> expr_starts \<union> {TOKEN_NOT, TOKEN_MINUS, TOKEN_MUL}"
proof (induction e arbitrary: p)
  case (EXPR_BIN_OP sp left op right)
  obtain l ls where l: "expr_lexemes (op_level op) left = l # ls" "lexeme_type l \<in> expr_starts \<union> {TOKEN_NOT, TOKEN_MINUS, TOKEN_MUL}"
    using EXPR_BIN_OP by (meson printable.simps(4))
  have paren: "lexeme_type (Punct TOKEN_LPAREN) \<in> expr_starts \<union> {TOKEN_NOT, TOKEN_MINUS, TOKEN_MUL}" by (simp add: expr_starts_def)
  show ?case using l paren by (auto simp only: expr_lexemes.simps Let_def in_parens_def append_Cons split: if_split)
next
  case (EXPR_CALL sp target args)
  then have "printable target" by simp
  from print_head8 [OF this] show ?case by auto
next
  case (EXPR_FIELD sp target name)
  then have "printable target" by simp
  from print_head8 [OF this] show ?case by auto
next
  case (EXPR_INDEX sp target index)
  then have "printable target" by simp
  from print_head8 [OF this] show ?case by auto
next
  case (EXPR_LITERAL sp l)
  then have "literal_ok l" by simp
  from literal_starts [OF this] show ?case by simp
qed (simp_all add: in_parens_def expr_starts_def Let_def identifier_type [unfolded lexeme_type.simps])

lemma print_level: "printable e \<Longrightarrow> p \<le> 7 \<Longrightarrow> (\<And>sp l op r. e = EXPR_BIN_OP sp l op r \<Longrightarrow> op_level op < p) \<Longrightarrow> expr_lexemes p e = expr_lexemes 7 e"
  by (cases e) (auto simp: Let_def dest: meta_spec)

lemma commas_no_brace: "(\<And>ls. ls \<in> set lss \<Longrightarrow> TOKEN_LBRACE \<notin> lexeme_type ` set ls) \<Longrightarrow> TOKEN_LBRACE \<notin> lexeme_type ` set (commas lss)"
  by (induction lss rule: commas.induct) (simp_all add: image_Un)

lemma word_no_brace: "is_identifier w \<Longrightarrow> lexeme_type (Word w) \<noteq> TOKEN_LBRACE"
  using identifier_type by simp

lemma parens_no_brace: "TOKEN_LBRACE \<notin> lexeme_type ` set (in_parens ls) \<longleftrightarrow> TOKEN_LBRACE \<notin> lexeme_type ` set ls"
  by (simp add: in_parens_def image_Un)

lemma print_no_brace: "printable e \<Longrightarrow> TOKEN_LBRACE \<notin> lexeme_type ` set (expr_lexemes p e)"
proof (induction e arbitrary: p)
  case (EXPR_LITERAL sp l)
  then have "lexeme_type (literal_lexeme l) \<in> expr_starts" by (simp add: literal_starts)
  then show ?case by (auto simp: expr_starts_def)
next
  case (EXPR_BIN_OP sp left op right)
  have "TOKEN_LBRACE \<noteq> op_token op" by (cases op) simp_all
  then show ?case using EXPR_BIN_OP by (simp add: Let_def parens_no_brace image_Un)
next
  case (EXPR_CALL sp target args)
  have "TOKEN_LBRACE \<notin> lexeme_type ` set (commas (map (expr_lexemes 0) args))"
  proof (rule commas_no_brace)
    fix ls assume "ls \<in> set (map (expr_lexemes 0) args)"
    then obtain e where "e \<in> set args" "ls = expr_lexemes 0 e" by auto
    then show "TOKEN_LBRACE \<notin> lexeme_type ` set ls" using EXPR_CALL.IH(2) EXPR_CALL.prems by simp
  qed
  then show ?case using EXPR_CALL by (simp add: parens_no_brace image_Un)
next
  case (EXPR_ARRAY_LIT sp elements)
  have "TOKEN_LBRACE \<notin> lexeme_type ` set (commas (map (expr_lexemes 0) elements))"
  proof (rule commas_no_brace)
    fix ls assume "ls \<in> set (map (expr_lexemes 0) elements)"
    then obtain e where "e \<in> set elements" "ls = expr_lexemes 0 e" by auto
    then show "TOKEN_LBRACE \<notin> lexeme_type ` set ls" using EXPR_ARRAY_LIT by simp
  qed
  then show ?case by (simp add: image_Un)
qed (simp_all add: Let_def parens_no_brace image_Un word_no_brace [THEN not_sym] del: lexeme_type.simps(2))

section \<open>What the parser answers on a text\<close>

lemma denotes_grows: "denotes ps e' e \<Longrightarrow> grows ps ps' \<Longrightarrow> denotes ps' e' e"
proof -
  assume e: "denotes ps e' e" and "grows ps ps'"
  then obtain newer where newer: "strings_of ps' = strings_of ps @ newer" by (auto simp: grows_def)
  have "named ps' e' = named ps e'"
    unfolding named_def by (rule ast_expr.map_cong0) (use e newer in \<open>auto simp: denotes_def nth_append\<close>)
  then show ?thesis using e newer by (auto simp: denotes_def)
qed

definition answers :: "string \<Rightarrow> diagnostics \<Rightarrow> parser \<Rightarrow> lexeme list \<Rightarrow> tree \<Rightarrow> expr \<Rightarrow> parser \<Rightarrow> bool" where
  "answers src ds ps rest e e' ps' \<longleftrightarrow> denotes ps' e' e \<and> stands src ds ps' rest \<and> grows ps ps'"

abbreviation braceless :: "lexeme list \<Rightarrow> bool" where
  "braceless ls \<equiv> TOKEN_LBRACE \<notin> lexeme_type ` set ls"

abbreviation postfixes :: "token_type set" where
  "postfixes \<equiv> {TOKEN_LPAREN, TOKEN_LBRACKET, TOKEN_DOT}"

definition closes :: "lexeme list \<Rightarrow> bool" where
  "closes rest \<longleftrightarrow> braceless rest \<and> next_type rest \<notin> postfixes \<union> {TOKEN_LESS, TOKEN_COLON_COLON}"

definition postfix_ok :: "tree \<Rightarrow> bool" where
  "postfix_ok e \<longleftrightarrow> (\<forall>src ds ps rest ctx Q n N. stands src ds ps (expr_lexemes 8 e @ rest) \<longrightarrow> braceless rest \<longrightarrow>
     next_type rest \<notin> {TOKEN_LESS, TOKEN_COLON_COLON} \<longrightarrow>
     (\<forall>m e' ps'. answers src ds ps rest e e' ps' \<longrightarrow> wp (parse_postfix m (parse_precedence N) e' ctx ps') Q) \<longrightarrow>
     wp (then_parse (parse_primary n (parse_precedence N) ps) (\<lambda>x. parse_postfix n (parse_precedence N) x ctx)) Q)"

definition unary_ok :: "tree \<Rightarrow> bool" where
  "unary_ok e \<longleftrightarrow> (\<forall>src ds ps rest ctx n N. stands src ds ps (expr_lexemes 7 e @ rest) \<longrightarrow> closes rest \<longrightarrow>
     wp (parse_unary n (parse_precedence N) ctx ps) (answers src ds ps rest e))"

definition loop_ok :: "nat \<Rightarrow> tree \<Rightarrow> bool" where
  "loop_ok p e \<longleftrightarrow> (\<forall>src ds ps rest ctx Q n N min. stands src ds ps (expr_lexemes p e @ rest) \<longrightarrow> closes rest \<longrightarrow>
     get_precedence (next_type rest) \<le> p \<longrightarrow> min \<le> p \<longrightarrow>
     (\<forall>m e' ps'. answers src ds ps rest e e' ps' \<longrightarrow> wp (parse_precedence_loop m (parse_precedence N) min ctx e' ps') Q) \<longrightarrow>
     wp (then_parse (parse_unary n (parse_precedence N) ctx ps) (\<lambda>lhs. parse_precedence_loop n (parse_precedence N) min ctx lhs)) Q)"

definition expr_ok :: "nat \<Rightarrow> tree \<Rightarrow> bool" where
  "expr_ok p e \<longleftrightarrow> (\<forall>src ds ps rest ctx N. stands src ds ps (expr_lexemes p e @ rest) \<longrightarrow> closes rest \<longrightarrow>
     get_precedence (next_type rest) = 0 \<or> get_precedence (next_type rest) < p \<longrightarrow>
     wp (parse_precedence N p ctx ps) (answers src ds ps rest e))"

definition all_ok :: "tree \<Rightarrow> bool" where
  "all_ok e \<longleftrightarrow> postfix_ok e \<and> unary_ok e \<and> (\<forall>p \<le> 7. expr_ok p e \<and> loop_ok p e)"

lemma answers_grows: "grows ps0 ps \<Longrightarrow> answers src ds ps rest e e' ps' \<Longrightarrow> answers src ds ps0 rest e e' ps'"
  using grows_trans by (auto simp: answers_def)

lemma postfix_stops:
  assumes "stands src ds ps rest" "braceless rest" "next_type rest \<notin> postfixes"
  shows "wp (parse_postfix m ex e' ctx ps) (\<lambda>x ps'. x = e' \<and> stands src ds ps' rest \<and> grows ps ps')"
proof (cases m)
  case (Suc k)
  have type: "ps_type ps = next_type rest" by (rule stands_type [OF assms(1)])
  have brace: "next_type rest \<noteq> TOKEN_LBRACE" using assms(2) by (cases rest) auto
  show ?thesis
  proof (cases "next_type rest = TOKEN_LESS")
    case True
    then obtain l ls where ls: "rest = l # ls" by (cases rest) auto
    have ahead: "braceless ls" "stands src ds ps (l # ls)" using assms(1,2) ls by auto
    note no = no_brace_ahead [OF ahead(2,1), of k e' ctx]
    show ?thesis
      using no type True ls Suc unfolding wp_def
      by (fastforce simp: Let_def bind_eq_Some_conv parsed_def)
  qed (use Suc assms type brace in \<open>simp add: wp_parsed Let_def\<close>)
qed simp

lemma paren_primary:
  assumes "expr_ok 0 e" "stands src ds ps (in_parens (expr_lexemes 0 e) @ rest)" "braceless rest"
    "\<And>m e' ps'. answers src ds ps rest e e' ps' \<Longrightarrow> wp (parse_postfix m (parse_precedence N) e' ctx ps') Q"
  shows "wp (then_parse (parse_primary n (parse_precedence N) ps) (\<lambda>x. parse_postfix n (parse_precedence N) x ctx)) Q"
proof -
  have open': "stands src ds ps (Punct TOKEN_LPAREN # expr_lexemes 0 e @ Punct TOKEN_RPAREN # rest)" using assms(2) by (simp add: in_parens_def)
  have type: "ps_type ps = TOKEN_LPAREN" using stands_type [OF open'] by simp
  have follow: "closes (Punct TOKEN_RPAREN # rest)" using assms(3) by (auto simp: closes_def)
  have "wp (parse_parenthesised (parse_precedence N) ps) (answers src ds ps rest e)"
    unfolding parse_parenthesised_def
  proof (rule wp_next [OF open'], goal_cases)
    case (1 ps1)
    have "wp (parse_precedence N 0 EXPR_ANY ps1) (answers src ds ps1 (Punct TOKEN_RPAREN # rest) e)"
      using assms(1) 1(1) follow unfolding expr_ok_def by simp
    then show ?case
    proof (rule wp_then [OF wp_mono], goal_cases)
      case (1 e' ps2)
      then have e': "denotes ps2 e' e" "stands src ds ps2 (Punct TOKEN_RPAREN # rest)" "grows ps1 ps2" by (simp_all add: answers_def)
      have close': "ps_type ps2 = TOKEN_RPAREN" using stands_type [OF e'(2)] by simp
      have "answers src ds ps rest e e' ps3" if "stands src ds ps3 rest" "grows ps2 ps3" for ps3
        using that denotes_grows [OF e'(1)] grows_trans [OF \<open>grows ps ps1\<close> grows_trans [OF e'(3)]] by (simp add: answers_def)
      then show ?case by (intro wp_expecting close' wp_next [OF e'(2)] wp_parsed)
    qed
  qed
  then show ?thesis
    using type by (intro wp_then) (auto simp: parse_primary_def intro: wp_mono assms(4))
qed

lemma answers_stop:
  assumes "answers src ds ps rest e e' ps'" "closes rest \<or> next_type rest = TOKEN_LESS \<and> braceless rest"
  shows "wp (parse_postfix m ex e' ctx ps') (answers src ds ps rest e)"
proof -
  have at: "stands src ds ps' rest" using assms(1) by (simp add: answers_def)
  have "braceless rest" "next_type rest \<notin> postfixes" using assms(2) by (auto simp: closes_def)
  from postfix_stops [OF at this] show ?thesis
    by (rule wp_mono) (use assms(1) denotes_grows grows_trans in \<open>auto simp: answers_def\<close>)
qed

lemma unary_to_primary:
  assumes "ps_type ps = t" "t \<notin> {TOKEN_MUL, TOKEN_MINUS, TOKEN_NOT}"
    "\<And>n. wp (then_parse (parse_primary n ex ps) (\<lambda>x. parse_postfix n ex x ctx)) Q"
  shows "wp (parse_unary n ex ctx ps) Q"
  using assms by (cases n) (simp_all add: is_prefix_def)

lemma paren_unary:
  assumes "expr_ok 0 e" "stands src ds ps (in_parens (expr_lexemes 0 e) @ rest)" "closes rest \<or> next_type rest = TOKEN_LESS \<and> braceless rest"
  shows "wp (parse_unary n (parse_precedence N) ctx ps) (answers src ds ps rest e)"
proof (rule unary_to_primary)
  show "ps_type ps = TOKEN_LPAREN" using stands_type [OF assms(2)] by (simp add: in_parens_def)
  show "wp (then_parse (parse_primary n (parse_precedence N) ps) (\<lambda>x. parse_postfix n (parse_precedence N) x ctx)) (answers src ds ps rest e)" for n
    by (rule paren_primary [OF assms(1,2)]) (use assms(3) answers_stop in \<open>auto simp: closes_def\<close>)
qed simp

lemma loop_stops:
  assumes "answers src ds ps rest e e' ps'" "get_precedence (next_type rest) = 0 \<or> get_precedence (next_type rest) < p"
  shows "wp (parse_precedence_loop m ex p ctx e' ps') (answers src ds ps rest e)"
proof -
  have "stands src ds ps' rest" using assms(1) by (simp add: answers_def)
  from stands_type [OF this] show ?thesis
    using assms by (cases m) (auto simp: Let_def intro: wp_parsed simp del: get_precedence.simps)
qed

lemma expr_from_loop: "loop_ok p e \<Longrightarrow> expr_ok p e"
proof -
  assume loop: "loop_ok p e"
  have "wp (parse_precedence N p ctx ps) (answers src ds ps rest e)"
    if "stands src ds ps (expr_lexemes p e @ rest)" "closes rest" "get_precedence (next_type rest) = 0 \<or> get_precedence (next_type rest) < p"
    for src ds ps rest ctx N
  proof (cases N)
    case (Suc k)
    have le: "get_precedence (next_type rest) \<le> p" using that(3) by linarith
    have "wp (parse_precedence_loop m (parse_precedence k) p ctx e' ps') (answers src ds ps rest e)" if "answers src ds ps rest e e' ps'" for m e' ps'
      by (rule loop_stops [OF that]) (use \<open>get_precedence (next_type rest) = 0 \<or> get_precedence (next_type rest) < p\<close> in simp)
    then show ?thesis using loop that(1,2) le Suc unfolding loop_ok_def by simp
  qed simp
  then show ?thesis unfolding expr_ok_def by blast
qed

lemma loop_from_unary:
  assumes "unary_ok e" "expr_lexemes p e = expr_lexemes 7 e"
  shows "loop_ok p e"
proof -
  have "wp (then_parse (parse_unary n (parse_precedence N) ctx ps) (\<lambda>lhs. parse_precedence_loop n (parse_precedence N) min ctx lhs)) Q"
    if "stands src ds ps (expr_lexemes p e @ rest)" "closes rest"
      "\<forall>m e' ps'. answers src ds ps rest e e' ps' \<longrightarrow> wp (parse_precedence_loop m (parse_precedence N) min ctx e' ps') Q"
    for src ds ps rest ctx Q n N min
  proof -
    have "wp (parse_unary n (parse_precedence N) ctx ps) (answers src ds ps rest e)"
      using assms that(1,2) unfolding unary_ok_def by simp
    then show ?thesis by (intro wp_then) (erule wp_mono, use that(3) in blast)
  qed
  then show ?thesis unfolding loop_ok_def by blast
qed

lemma parens_postfix: "expr_ok 0 e \<Longrightarrow> expr_lexemes 8 e = in_parens (expr_lexemes 0 e) \<Longrightarrow> postfix_ok e"
  unfolding postfix_ok_def using paren_primary by (metis (no_types, lifting))

lemma unary_from_postfix:
  assumes "postfix_ok e" "expr_lexemes 7 e = expr_lexemes 8 e" "printable e"
  shows "unary_ok e"
proof -
  have "wp (parse_unary n (parse_precedence N) ctx ps) (answers src ds ps rest e)"
    if at: "stands src ds ps (expr_lexemes 7 e @ rest)" and rest: "closes rest" for src ds ps rest ctx n N
  proof -
    obtain l ls where head: "expr_lexemes 8 e = l # ls" "lexeme_type l \<in> expr_starts" using print_head8 [OF assms(3)] by blast
    show ?thesis
    proof (rule unary_to_primary)
    show "ps_type ps = lexeme_type l" using stands_type [OF at] head(1) assms(2) by simp
    show "lexeme_type l \<notin> {TOKEN_MUL, TOKEN_MINUS, TOKEN_NOT}" using head(2) by (auto simp: expr_starts_def)
    show "wp (then_parse (parse_primary n (parse_precedence N) ps) (\<lambda>x. parse_postfix n (parse_precedence N) x ctx)) (answers src ds ps rest e)" for n
      using assms(1,2) at rest answers_stop unfolding postfix_ok_def closes_def by simp
    qed
  qed
  then show ?thesis unfolding unary_ok_def by blast
qed

lemma all_from_postfix:
  assumes "printable e" "postfix_ok e" "\<And>p. expr_lexemes p e = expr_lexemes 8 e"
  shows "all_ok e"
proof -
  have unary: "unary_ok e" by (rule unary_from_postfix [OF assms(2) _ assms(1)]) (rule assms(3))
  have "loop_ok p e" for p by (rule loop_from_unary [OF unary]) (metis assms(3))
  then show ?thesis using assms(2) unary expr_from_loop by (simp add: all_ok_def)
qed

lemma all_from_unary:
  assumes "unary_ok e" "\<And>p. p \<le> 7 \<Longrightarrow> expr_lexemes p e = expr_lexemes 7 e" "expr_lexemes 8 e = in_parens (expr_lexemes 7 e)"
  shows "all_ok e"
proof -
  have loop: "loop_ok p e" if "p \<le> 7" for p by (rule loop_from_unary [OF assms(1,2)]) (rule that)
  have "postfix_ok e"
    by (rule parens_postfix [OF expr_from_loop [OF loop]]) (use assms(2) [of 0] assms(3) in simp_all)
  then show ?thesis using assms(1) loop expr_from_loop by (simp add: all_ok_def)
qed

section \<open>Operators\<close>

lemma op_facts:
  "get_precedence (op_token op) = op_level op" "parse_bin_op (op_token op) = Some op" "op_level op \<noteq> 0" "op_level op \<le> 6"
  "op_token op \<notin> postfixes \<union> {TOKEN_COLON_COLON, TOKEN_LBRACE}" "op_token op = TOKEN_LESS \<longleftrightarrow> op = BIN_OP_LESS"
  by (cases op; simp)+

lemma denotes_bin_op: "denotes ps l' l \<Longrightarrow> denotes ps r' r \<Longrightarrow> denotes ps (EXPR_BIN_OP sp l' op r') (EXPR_BIN_OP sp' l op r)"
  by (auto simp: denotes_def named_def)

lemma op_step:
  assumes "expr_ok (op_level op + 1) r" "answers src ds ps (Punct (op_token op) # expr_lexemes (op_level op + 1) r @ rest) l l' ps1"
    "closes rest" "get_precedence (next_type rest) \<le> op_level op" "lo \<le> op_level op"
    "\<And>m e' ps'. answers src ds ps rest (EXPR_BIN_OP sp l op r) e' ps' \<Longrightarrow> wp (parse_precedence_loop m (parse_precedence N) lo ctx e' ps') Q"
  shows "wp (parse_precedence_loop m (parse_precedence N) lo ctx l' ps1) Q"
proof (cases m)
  case (Suc k)
  have l: "denotes ps1 l' l" "grows ps ps1" and at: "stands src ds ps1 (Punct (op_token op) # expr_lexemes (op_level op + 1) r @ rest)"
    using assms(2) by (simp_all add: answers_def)
  have type: "ps_type ps1 = op_token op" using stands_type [OF at] by simp
  have "wp (Option.bind (parser_next_token ps1) (\<lambda>ps2. then_parse (parse_precedence N (op_level op + 1) ctx ps2) (\<lambda>rhs ps3.
      parse_precedence_loop k (parse_precedence N) lo ctx (ast_bin_op_expr_create (token_span (ps_current ps1)) l' op rhs) ps3))) Q"
  proof (rule wp_next [OF at], goal_cases)
    case (1 ps2)
    have "wp (parse_precedence N (op_level op + 1) ctx ps2) (answers src ds ps2 rest r)"
      using assms(1,3,4) 1(1) unfolding expr_ok_def by (simp add: le_imp_less_Suc)
    then show ?case
    proof (rule wp_then [OF wp_mono], goal_cases)
      case (1 r' ps3)
      then have r: "denotes ps3 r' r" "stands src ds ps3 rest" "grows ps2 ps3" by (simp_all add: answers_def)
      note grown = grows_trans [OF \<open>grows ps1 ps2\<close> r(3)]
      have "answers src ds ps rest (EXPR_BIN_OP sp l op r) (EXPR_BIN_OP sp' l' op r') ps3" for sp'
        unfolding answers_def using denotes_bin_op [OF denotes_grows [OF l(1) grown] r(1)] r(2) grows_trans [OF l(2) grown] by blast
      from assms(6) [OF this] show ?case by (simp add: ast_bin_op_expr_create_def)
    qed
  qed
  then show ?thesis
    using Suc type op_facts [of op] assms(5) by (simp add: Let_def del: get_precedence.simps)
qed simp

lemma bin_op_loop:
  assumes "all_ok l" "all_ok r" "printable l" "printable r" "p \<le> op_level op"
  shows "loop_ok p (EXPR_BIN_OP sp l op r)"
proof -
  let ?e = "EXPR_BIN_OP sp l op r"
  have r: "expr_ok (op_level op + 1) r" and l: "expr_ok 0 l" "loop_ok (op_level op) l"
    using assms(1,2) op_facts(4) [of op] by (simp_all add: all_ok_def)
  have "wp (then_parse (parse_unary n (parse_precedence N) ctx ps) (\<lambda>lhs. parse_precedence_loop n (parse_precedence N) lo ctx lhs)) Q"
    if at: "stands src ds ps (expr_lexemes p ?e @ rest)" and rest: "closes rest" and le: "get_precedence (next_type rest) \<le> p" "lo \<le> p"
      and goal: "\<forall>m e' ps'. answers src ds ps rest ?e e' ps' \<longrightarrow> wp (parse_precedence_loop m (parse_precedence N) lo ctx e' ps') Q"
    for src ds ps rest ctx Q n N lo
  proof -
    let ?rest = "Punct (op_token op) # expr_lexemes (op_level op + 1) r @ rest"
    have le': "get_precedence (next_type rest) \<le> op_level op" "lo \<le> op_level op" using le assms(5) by simp_all
    have goal': "wp (parse_precedence_loop m (parse_precedence N) lo ctx e' ps') Q" if "answers src ds ps rest ?e e' ps'" for m e' ps'
      using goal that by blast
    note step = op_step [where src = src and ds = ds and ps = ps and l = l, OF r _ rest le' goal']
    have braceless: "braceless ?rest"
      using print_no_brace [OF assms(4)] op_facts(5) [of op] rest by (auto simp: closes_def)
    show ?thesis
    proof (cases "op = BIN_OP_LESS")
      case True
      have "stands src ds ps (in_parens (expr_lexemes 0 l) @ ?rest)" using at True assms(5) by (simp add: Let_def)
      moreover have "next_type ?rest = TOKEN_LESS" using True by simp
      ultimately have "wp (parse_unary n (parse_precedence N) ctx ps) (answers src ds ps ?rest l)"
        using paren_unary [OF l(1)] braceless by blast
      then show ?thesis by (intro wp_then) (erule wp_mono, rule step)
    next
      case False
      have "stands src ds ps (expr_lexemes (op_level op) l @ ?rest)" using at False assms(5) by (simp add: Let_def)
      moreover have "closes ?rest" using braceless False op_facts(5,6) [of op] by (simp add: closes_def)
      moreover have "get_precedence (next_type ?rest) \<le> op_level op" using op_facts(1) [of op] by simp
      ultimately show ?thesis using l(2) le'(2) step unfolding loop_ok_def by blast
    qed
  qed
  then show ?thesis unfolding loop_ok_def by blast
qed

lemma bin_op_all:
  assumes "all_ok l" "all_ok r" "printable l" "printable r"
  shows "all_ok (EXPR_BIN_OP sp l op r)"
proof -
  let ?e = "EXPR_BIN_OP sp l op r"
  have paren: "expr_lexemes p ?e = in_parens (expr_lexemes 0 ?e)" if "op_level op < p" for p using that by (simp add: Let_def)
  have print: "expr_lexemes p ?e = expr_lexemes 0 ?e" if "p \<le> op_level op" for p using that by (simp add: Let_def)
  have low: "op_level op < 7" using op_facts(4) [of op] by simp
  have "expr_ok 0 ?e" by (rule expr_from_loop [OF bin_op_loop [OF assms]]) simp
  then have postfix: "postfix_ok ?e" by (rule parens_postfix) (rule paren, use low in simp)
  have unary: "unary_ok ?e" by (rule unary_from_postfix [OF postfix]) (use paren [of 7] paren [of 8] low assms(3,4) in simp_all)
  have "loop_ok p ?e" for p
  proof (cases "p \<le> op_level op")
    case False
    then show ?thesis by (intro loop_from_unary [OF unary]) (use paren [of p] paren [of 7] low in simp)
  qed (rule bin_op_loop [OF assms])
  then show ?thesis using postfix unary expr_from_loop by (simp add: all_ok_def)
qed

section \<open>Prefixes\<close>

lemma denotes_prefix:
  "denotes ps t' t \<Longrightarrow> denotes ps (EXPR_NOT sp t') (EXPR_NOT sp' t)" "denotes ps t' t \<Longrightarrow> denotes ps (EXPR_NEG sp t') (EXPR_NEG sp' t)"
  "denotes ps t' t \<Longrightarrow> denotes ps (EXPR_DEREF sp t') (EXPR_DEREF sp' t)"
  by (auto simp: denotes_def named_def)

text \<open>A prefix before a text that is read back.\<close>

lemma prefix_unary:
  assumes "is_prefix k" "k = TOKEN_MUL \<Longrightarrow> next_type ls \<noteq> TOKEN_IDENT" "ls \<noteq> []" "stands src ds ps (Punct k # ls @ rest)"
    "\<And>ps n. stands src ds ps (ls @ rest) \<Longrightarrow> wp (parse_unary n (parse_precedence N) ctx ps) (answers src ds ps rest t)"
    "\<And>sp ps' t'. denotes ps' t' t \<Longrightarrow> denotes ps' (prefix_expr_create k sp t') e"
  shows "wp (parse_unary n (parse_precedence N) ctx ps) (answers src ds ps rest e)"
proof (cases n)
  case (Suc m)
  let ?after = "\<lambda>ps. Option.bind (parser_next_token ps) (\<lambda>ps1. then_parse (parse_unary m (parse_precedence N) ctx ps1) (\<lambda>target.
      parsed (prefix_expr_create (ps_type ps) (parser_span ps) target)))"
  have after: "wp (?after ps0) (answers src ds ps rest e)" if at: "stands src ds ps0 (Punct k # ls @ rest)" "grows ps ps0" for ps0
  proof (rule wp_next [OF at(1)], goal_cases)
    case (1 ps1)
    have type: "ps_type ps0 = k" using stands_type [OF at(1)] by simp
    from assms(5) [OF 1(1)] show ?case
    proof (rule wp_then [OF wp_mono], goal_cases)
      case (1 t' ps2)
      then have t: "denotes ps2 t' t" "stands src ds ps2 rest" "grows ps1 ps2" by (simp_all add: answers_def)
      have "grows ps ps2" by (rule grows_trans [OF grows_trans [OF at(2) \<open>grows ps0 ps1\<close>] t(3)])
      then show ?case using assms(6) [OF t(1)] t(2) type by (auto intro!: wp_parsed simp: answers_def)
    qed
  qed
  show ?thesis
  proof (cases "k = TOKEN_MUL")
    case True
    obtain l ls' where ls: "ls = l # ls'" using assms(3) by (cases ls) auto
    have at: "stands src ds ps (Punct k # l # ls' @ rest)" "lexeme_type l \<noteq> TOKEN_IDENT" using assms(2,4) True ls by simp_all
    have type: "ps_type ps = TOKEN_MUL" using stands_type [OF at(1)] True by simp
    show ?thesis
    proof (cases "parser_star_precedes_a_cast m ps")
      case (Some r)
      obtain b ps0 where r: "parser_star_precedes_a_cast m ps = Some (b, ps0)" using Some by (cases r) simp
      note no = no_cast_ahead [OF at r]
      have "stands src ds ps0 (Punct k # ls @ rest)" using no(2) ls by simp
      from after [OF this no(3)] stands_type [OF this] show ?thesis using Suc r no(1) type assms(1) by simp
    qed (use Suc type in simp)
  next
    case False
    have type: "ps_type ps = k" using stands_type [OF assms(4)] by simp
    from after [OF assms(4) grows_refl] show ?thesis using Suc type False assms(1) by simp
  qed
qed simp

lemma not_neg_all:
  assumes "all_ok t" "printable t"
  shows "all_ok (EXPR_NOT sp t)" "all_ok (EXPR_NEG sp t)"
proof -
  have unary: "unary_ok t" using assms(1) by (simp add: all_ok_def)
  have start: "expr_lexemes 7 t \<noteq> []" using print_head [OF assms(2), of 7] by auto
  have unary_ok: "unary_ok e" if print: "expr_lexemes 7 e = Punct k # expr_lexemes 7 t" and k: "is_prefix k" "k \<noteq> TOKEN_MUL"
    and e: "\<And>sp ps' t'. denotes ps' t' t \<Longrightarrow> denotes ps' (prefix_expr_create k sp t') e" for k e
  proof -
    have "wp (parse_unary n (parse_precedence N) ctx ps) (answers src ds ps rest e)"
      if "stands src ds ps (expr_lexemes 7 e @ rest)" "closes rest" for src ds ps rest ctx n N
      by (rule prefix_unary [OF k(1) _ start _ _ e]) (use that unary print k(2) in \<open>auto simp: unary_ok_def\<close>)
    then show ?thesis unfolding unary_ok_def by blast
  qed
  show "all_ok (EXPR_NOT sp t)"
    by (rule all_from_unary, rule unary_ok [where k = TOKEN_NOT])
      (auto simp: Let_def is_prefix_def prefix_expr_create_def ast_not_expr_create_def denotes_prefix)
  show "all_ok (EXPR_NEG sp t)"
    by (rule all_from_unary, rule unary_ok [where k = TOKEN_MINUS])
      (auto simp: Let_def is_prefix_def prefix_expr_create_def ast_neg_expr_create_def denotes_prefix)
qed

lemma deref_all:
  assumes "all_ok t" "printable t"
  shows "all_ok (EXPR_DEREF sp t)"
proof (rule all_from_unary)
  have t: "expr_ok 0 t" using assms(1) by (simp add: all_ok_def)
  have "wp (parse_unary n (parse_precedence N) ctx ps) (answers src ds ps rest (EXPR_DEREF sp t))"
    if "stands src ds ps (expr_lexemes 7 (EXPR_DEREF sp t) @ rest)" "closes rest" for src ds ps rest ctx n N
    by (rule prefix_unary [where k = TOKEN_MUL and ls = "in_parens (expr_lexemes 0 t)" and t = t])
      (use that paren_unary [OF t] in
        \<open>auto simp: is_prefix_def in_parens_def prefix_expr_create_def ast_deref_expr_create_def denotes_prefix\<close>)
  then show "unary_ok (EXPR_DEREF sp t)" unfolding unary_ok_def by blast
qed (simp_all add: Let_def)

section \<open>Literals and names\<close>

lemma postfix_from_primary:
  assumes "\<And>src ds ps rest n N. stands src ds ps (expr_lexemes 8 e @ rest) \<Longrightarrow> next_type rest \<notin> {TOKEN_LESS, TOKEN_COLON_COLON} \<Longrightarrow> braceless rest \<Longrightarrow>
    wp (parse_primary n (parse_precedence N) ps) (answers src ds ps rest e)"
  shows "postfix_ok e"
  unfolding postfix_ok_def by (intro allI impI wp_then) (rule wp_mono [OF assms], assumption+, blast)

lemma literal_reads:
  assumes "stands src ds ps (literal_lexeme l # rest)" "literal_ok l"
  obtains l' where "token_literal (ps_current ps) = Some l'" "\<forall>sp sp'. denotes ps (EXPR_LITERAL sp l') (EXPR_LITERAL sp' l)"
    "ps_type ps \<notin> {TOKEN_LBRACKET, TOKEN_BUILTIN, TOKEN_IDENT, TOKEN_LPAREN}"
proof (cases l)
  case (LITERAL_INT i)
  then show ?thesis using assms that [of "LITERAL_INT i"] by (simp add: stands_def denotes_def named_def)
next
  case (LITERAL_BOOL b)
  then show ?thesis using assms that [of "LITERAL_BOOL b"] by (cases b) (simp_all add: stands_def denotes_def named_def bool_words)
next
  case (LITERAL_STRING w)
  then obtain a where a: "ps_type ps = TOKEN_STRING" "tok_value (ps_current ps) = As_string a" "a < length (strings_of ps)" "strings_of ps ! a = w"
    using assms(1) by (auto simp: stands_def)
  then show ?thesis using that [of "LITERAL_STRING a"] LITERAL_STRING by (simp add: denotes_def named_def)
qed (use assms in simp)

lemma literal_all:
  assumes "literal_ok l"
  shows "all_ok (EXPR_LITERAL sp l)"
proof (rule all_from_postfix)
  show "postfix_ok (EXPR_LITERAL sp l)"
  proof (rule postfix_from_primary)
    fix src ds ps rest n N
    assume "stands src ds ps (expr_lexemes 8 (EXPR_LITERAL sp l) @ rest)"
    then have at: "stands src ds ps (literal_lexeme l # rest)" by simp
    obtain l' where l': "token_literal (ps_current ps) = Some l'" "\<forall>sp sp'. denotes ps (EXPR_LITERAL sp l') (EXPR_LITERAL sp' l)"
      "ps_type ps \<notin> {TOKEN_LBRACKET, TOKEN_BUILTIN, TOKEN_IDENT, TOKEN_LPAREN}" by (rule literal_reads [OF at assms])
    have "wp (Option.bind (parser_next_token ps) (parsed (ast_literal_expr_create (parser_span ps) l'))) (answers src ds ps rest (EXPR_LITERAL sp l))"
      using denotes_grows [OF l'(2) [rule_format]] by (auto intro!: wp_next [OF at] wp_parsed simp: answers_def ast_literal_expr_create_def)
    then show "wp (parse_primary n (parse_precedence N) ps) (answers src ds ps rest (EXPR_LITERAL sp l))"
      using l'(1,3) by (simp add: parse_primary_def Let_def del: token_literal.simps)
  qed
qed (use assms in simp_all)

lemma stands_identifier:
  "stands src ds ps (Word w # rest) \<Longrightarrow> is_identifier w \<Longrightarrow> ps_type ps = TOKEN_IDENT \<and> tok_lexeme (ps_current ps) = w"
  using stands_type stands_word identifier_type by fastforce

lemma name_all:
  assumes "is_identifier (id_name name)"
  shows "all_ok (EXPR_NAME sp name None)"
proof (rule all_from_postfix)
  show "postfix_ok (EXPR_NAME sp name None)"
  proof (rule postfix_from_primary)
    fix src ds ps rest n N
    assume "stands src ds ps (expr_lexemes 8 (EXPR_NAME sp name None) @ rest)" and rest: "next_type rest \<notin> {TOKEN_LESS, TOKEN_COLON_COLON}"
    then have at: "stands src ds ps (Word (id_name name) # rest)" by simp
    note ident = stands_identifier [OF at assms]
    have "wp (parse_name n ps) (answers src ds ps rest (EXPR_NAME sp name None))"
      unfolding parse_name_def parse_owner_def Let_def
    proof (rule wp_next [OF at], goal_cases)
      case (1 ps1)
      have "denotes ps2 (EXPR_NAME sp2 (ASTIdent a sp1) None) (EXPR_NAME sp name None)"
        if "a < length (strings_of ps2)" "strings_of ps2 ! a = id_name name" for a ps2 sp1 sp2
        using that by (cases name) (simp add: denotes_def named_def)
      then show ?case
        using stands_type [OF 1(1)] rest ident grows_trans [OF 1(2)]
        by (auto intro!: wp_ident [OF 1(1)] wp_parsed simp: answers_def)
    qed
    then show "wp (parse_primary n (parse_precedence N) ps) (answers src ds ps rest (EXPR_NAME sp name None))"
      using ident by (simp add: parse_primary_def)
  qed
qed (use assms in simp_all)

lemma qualified_all:
  assumes "is_identifier (id_name qualifier)" "is_identifier (id_name name)"
  shows "all_ok (EXPR_QUALIFIED sp qualifier name None)"
proof (rule all_from_postfix)
  let ?e = "EXPR_QUALIFIED sp qualifier name None"
  show "postfix_ok ?e"
  proof (rule postfix_from_primary)
    fix src ds ps rest n N
    assume "stands src ds ps (expr_lexemes 8 ?e @ rest)" and rest: "next_type rest \<notin> {TOKEN_LESS, TOKEN_COLON_COLON}"
    then have at: "stands src ds ps (Word (id_name qualifier) # Punct TOKEN_COLON_COLON # Word (id_name name) # rest)" by simp
    note ident = stands_identifier [OF at assms(1)]
    have "wp (parse_name n ps) (answers src ds ps rest ?e)"
      unfolding parse_name_def parse_owner_def Let_def
    proof (rule wp_next [OF at], goal_cases)
      case (1 ps1)
      have "wp (Option.bind (parser_ident (parser_span ps) (tok_lexeme (ps_current ps)) ps1) (\<lambda>(i, ps2). Option.bind (parser_next_token ps2) (\<lambda>ps3.
          expecting TOKEN_IDENT msg ps3 (\<lambda>ps. Option.bind (parser_take_ident ps) (\<lambda>(member, ps).
            if ps_type ps = TOKEN_COLON_COLON then no_parse (parser_error msg2 ps)
            else parsed (ast_qualified_expr_create sp1 i member None) ps))))) (answers src ds ps rest ?e)" for msg msg2 sp1
      proof (rule wp_ident [OF 1(1)], goal_cases)
        case (1 a ps2)
        show ?case
        proof (rule wp_next [OF 1(1)], goal_cases)
          case (1 ps3)
          have type: "ps_type ps3 = TOKEN_IDENT" using stands_identifier [OF 1(1) assms(2)] by simp
          show ?case
          proof (rule wp_expecting [OF type], rule wp_take_ident [OF 1(1)], goal_cases)
            case (1 b ps4)
            have grown: "grows ps2 ps4" by (rule grows_trans [OF \<open>grows ps2 ps3\<close> 1(2)])
            then have "a < length (strings_of ps4)" "strings_of ps4 ! a = id_name qualifier"
              using \<open>a < length (strings_of ps2)\<close> \<open>strings_of ps2 ! a = tok_lexeme (ps_current ps)\<close> ident by (auto simp: grows_def nth_append)
            then have "denotes ps4 (EXPR_QUALIFIED sp1 (ASTIdent a (parser_span ps)) (ASTIdent b (parser_span ps3)) None) ?e"
              using 1(3,4) by (cases qualifier; cases name) (simp add: denotes_def named_def)
            moreover have "grows ps ps4" by (rule grows_trans [OF \<open>grows ps ps1\<close> grows_trans [OF \<open>grows ps1 ps2\<close> grown]])
            ultimately show ?case
              using stands_type [OF 1(1)] rest 1(1) by (simp add: wp_parsed answers_def ast_qualified_expr_create_def)
          qed
        qed
      qed
      then show ?case using stands_type [OF 1(1)] by simp
    qed
    then show "wp (parse_primary n (parse_precedence N) ps) (answers src ds ps rest ?e)"
      using ident by (simp add: parse_primary_def)
  qed
qed (use assms in simp_all)

section \<open>Lists of expressions\<close>

definition denote_all :: "parser \<Rightarrow> expr list \<Rightarrow> tree list \<Rightarrow> bool" where
  "denote_all ps es' es \<longleftrightarrow> list_all2 (denotes ps) es' es"

lemma denote_all_simps [simp]: "denote_all ps [] []" "denote_all ps (e' # es') (e # es) \<longleftrightarrow> denotes ps e' e \<and> denote_all ps es' es"
  by (simp_all add: denote_all_def)

lemma denote_all_grows: "denote_all ps es' es \<Longrightarrow> grows ps ps' \<Longrightarrow> denote_all ps' es' es"
  unfolding denote_all_def by (erule list_all2_mono) (rule denotes_grows)

lemma denote_all_map: "denote_all ps es' es \<Longrightarrow> map (named ps) es' = es \<and> (\<forall>e' \<in> set es'. \<forall>a \<in> set1_ast_expr e'. a < length (strings_of ps))"
  unfolding denote_all_def by (induction rule: list_all2_induct) (auto simp: denotes_def)

definition list_answers :: "string \<Rightarrow> diagnostics \<Rightarrow> parser \<Rightarrow> lexeme list \<Rightarrow> expr list \<Rightarrow> tree list \<Rightarrow> expr list \<Rightarrow> parser \<Rightarrow> bool" where
  "list_answers src ds ps rest before es es' ps' \<longleftrightarrow> (\<exists>new. es' = before @ new \<and> denote_all ps' new es) \<and> stands src ds ps' rest \<and> grows ps ps'"

lemma list_answers_cons:
  assumes "denotes ps1 e' e" "grows ps ps1" "grows ps1 ps2" "list_answers src ds ps2 rest (before @ [e']) es es' ps'"
  shows "list_answers src ds ps rest before (e # es) es' ps'"
proof -
  obtain new where new: "es' = (before @ [e']) @ new" "denote_all ps' new es" "stands src ds ps' rest" "grows ps2 ps'"
    using assms(4) by (auto simp: list_answers_def)
  have "denotes ps' e' e" by (rule denotes_grows [OF assms(1) grows_trans [OF assms(3) new(4)]])
  moreover have "grows ps ps'" by (rule grows_trans [OF assms(2) grows_trans [OF assms(3) new(4)]])
  ultimately show ?thesis using new by (auto simp: list_answers_def)
qed

lemma list_answers_nil: "stands src ds ps' rest \<Longrightarrow> grows ps ps' \<Longrightarrow> list_answers src ds ps rest before [] before ps'"
  by (simp add: list_answers_def)

lemma print_not_end: "stands src ds ps (expr_lexemes p e @ rest) \<Longrightarrow> printable e \<Longrightarrow> ps_type ps \<notin> {TOKEN_RPAREN, TOKEN_RBRACKET, TOKEN_EOF, TOKEN_COMMA}"
  using print_head [of e p] stands_type by (fastforce simp: expr_starts_def)

lemma commas_cons: "commas (ls # lss) = ls @ (if lss = [] then [] else Punct TOKEN_COMMA # commas lss)"
  by (cases lss) simp_all

text \<open>What follows an element, and what follows the comma behind it.\<close>

definition after_element :: "tree list \<Rightarrow> lexeme list \<Rightarrow> lexeme list" where
  "after_element es ends = (if es = [] then ends else Punct TOKEN_COMMA # commas (map (expr_lexemes 0) es) @ ends)"

lemma commas_element: "commas (map (expr_lexemes 0) (e # es)) @ ends = expr_lexemes 0 e @ after_element es ends"
  by (simp add: commas_cons after_element_def)

lemma list_no_brace: "\<forall>e \<in> set es. printable e \<Longrightarrow> braceless (commas (map (expr_lexemes 0) es))"
proof (rule commas_no_brace)
  fix ls assume "\<forall>e \<in> set es. printable e" "ls \<in> set (map (expr_lexemes 0) es)"
  then show "TOKEN_LBRACE \<notin> lexeme_type ` set ls" using print_no_brace by auto
qed

lemma element_reads:
  assumes "all_ok e" "stands src ds ps (expr_lexemes 0 e @ after_element es (Punct k # rest))" "\<forall>e \<in> set es. printable e"
    "k \<in> {TOKEN_RPAREN, TOKEN_RBRACKET}" "braceless rest"
  shows "wp (parse_precedence N 0 EXPR_ANY ps) (answers src ds ps (after_element es (Punct k # rest)) e)"
proof -
  have "next_type (after_element es (Punct k # rest)) \<in> {TOKEN_COMMA, TOKEN_RPAREN, TOKEN_RBRACKET}"
    using assms(4) by (auto simp: after_element_def)
  moreover have "braceless (after_element es (Punct k # rest))"
    using list_no_brace [OF assms(3)] assms(4,5) by (auto simp: after_element_def)
  ultimately have "closes (after_element es (Punct k # rest))" "get_precedence (next_type (after_element es (Punct k # rest))) = 0"
    by (auto simp: closes_def)
  then show ?thesis using assms(1,2) by (simp add: all_ok_def expr_ok_def)
qed

lemma call_args_read:
  assumes "\<forall>e \<in> set es. all_ok e \<and> printable e" "stands src ds ps (commas (map (expr_lexemes 0) es) @ Punct TOKEN_RPAREN # rest)" "braceless rest"
  shows "wp (parse_call_args_loop n (parse_precedence N) before ps) (list_answers src ds ps rest before es)"
  using assms
proof (induction es arbitrary: n before ps)
  case Nil
  then have at: "stands src ds ps (Punct TOKEN_RPAREN # rest)" by simp
  show ?case
    using stands_type [OF at] by (cases n) (auto intro!: wp_next [OF at] wp_parsed list_answers_nil)
next
  case (Cons e es)
  have at: "stands src ds ps (expr_lexemes 0 e @ after_element es (Punct TOKEN_RPAREN # rest))"
    using Cons.prems(2) by (simp add: commas_element [symmetric])
  have e: "all_ok e" "printable e" and es: "\<forall>e \<in> set es. printable e" "\<forall>e \<in> set es. all_ok e \<and> printable e" using Cons.prems(1) by simp_all
  show ?case
  proof (cases n)
    case (Suc m)
    have "wp (then_parse (parse_precedence N 0 EXPR_ANY ps) (\<lambda>arg ps.
        if ps_type ps \<noteq> TOKEN_COMMA \<and> ps_type ps \<noteq> TOKEN_RPAREN then no_parse (parser_error_found msg ps)
        else Option.bind (if ps_type ps = TOKEN_COMMA then parser_next_token ps else Some ps)
          (parse_call_args_loop m (parse_precedence N) (before @ [arg])))) (list_answers src ds ps rest before (e # es))" for msg
    proof (rule wp_then [OF wp_mono [OF element_reads [OF e(1) at es(1) _ Cons.prems(3)]]], goal_cases)
      case (2 e' ps1)
      then have 1: "denotes ps1 e' e" "stands src ds ps1 (after_element es (Punct TOKEN_RPAREN # rest))" "grows ps ps1" by (simp_all add: answers_def)
      note cons = list_answers_cons [OF 1(1,3)]
      show ?case
      proof (cases "es = []")
        case True
        then have at1: "stands src ds ps1 (commas (map (expr_lexemes 0) es) @ Punct TOKEN_RPAREN # rest)" using 1(2) by (simp add: after_element_def)
        from wp_mono [OF Cons.IH [OF es(2) at1 Cons.prems(3)] cons [OF grows_refl]] show ?thesis
          using stands_type [OF at1] True by simp
      next
        case False
        then have comma: "stands src ds ps1 (Punct TOKEN_COMMA # commas (map (expr_lexemes 0) es) @ Punct TOKEN_RPAREN # rest)"
          using 1(2) by (simp add: after_element_def)
        have "wp (Option.bind (parser_next_token ps1) (parse_call_args_loop m (parse_precedence N) (before @ [e']))) (list_answers src ds ps rest before (e # es))"
          by (rule wp_next [OF comma]) (rule wp_mono [OF Cons.IH [OF es(2) _ Cons.prems(3)] cons])
        then show ?thesis using stands_type [OF comma] by simp
      qed
    qed simp
    then show ?thesis using Suc print_not_end [OF at e(2)] by simp
  qed simp
qed

lemma elements_read:
  assumes "\<forall>e \<in> set es. all_ok e \<and> printable e" "stands src ds ps (commas (map (expr_lexemes 0) es) @ Punct TOKEN_RBRACKET # rest)" "braceless rest"
  shows "wp (parse_elements n (parse_precedence N) before ps) (list_answers src ds ps (Punct TOKEN_RBRACKET # rest) before es)"
  using assms
proof (induction es arbitrary: n before ps)
  case Nil
  then have at: "stands src ds ps (Punct TOKEN_RBRACKET # rest)" by simp
  show ?case
    using stands_type [OF at] at by (cases n) (auto intro!: wp_parsed list_answers_nil)
next
  case (Cons e es)
  have at: "stands src ds ps (expr_lexemes 0 e @ after_element es (Punct TOKEN_RBRACKET # rest))"
    using Cons.prems(2) by (simp add: commas_element [symmetric])
  have e: "all_ok e" "printable e" and es: "\<forall>e \<in> set es. printable e" "\<forall>e \<in> set es. all_ok e \<and> printable e" using Cons.prems(1) by simp_all
  show ?case
  proof (cases n)
    case (Suc m)
    have "wp (then_parse (parse_precedence N 0 EXPR_ANY ps) (\<lambda>element ps.
        if ps_type ps \<noteq> TOKEN_COMMA then parsed (before @ [element]) ps
        else Option.bind (parser_next_token ps) (parse_elements m (parse_precedence N) (before @ [element]))))
        (list_answers src ds ps (Punct TOKEN_RBRACKET # rest) before (e # es))"
    proof (rule wp_then [OF wp_mono [OF element_reads [OF e(1) at es(1) _ Cons.prems(3)]]], goal_cases)
      case (2 e' ps1)
      then have 1: "denotes ps1 e' e" "stands src ds ps1 (after_element es (Punct TOKEN_RBRACKET # rest))" "grows ps ps1" by (simp_all add: answers_def)
      note cons = list_answers_cons [OF 1(1,3)]
      show ?case
      proof (cases "es = []")
        case True
        then have at1: "stands src ds ps1 (Punct TOKEN_RBRACKET # rest)" using 1(2) by (simp add: after_element_def)
        from cons [OF grows_refl list_answers_nil [OF at1 grows_refl]] show ?thesis
          using stands_type [OF at1] True by (simp add: wp_parsed)
      next
        case False
        then have comma: "stands src ds ps1 (Punct TOKEN_COMMA # commas (map (expr_lexemes 0) es) @ Punct TOKEN_RBRACKET # rest)"
          using 1(2) by (simp add: after_element_def)
        have "wp (Option.bind (parser_next_token ps1) (parse_elements m (parse_precedence N) (before @ [e']))) (list_answers src ds ps (Punct TOKEN_RBRACKET # rest) before (e # es))"
          by (rule wp_next [OF comma]) (rule wp_mono [OF Cons.IH [OF es(2) _ Cons.prems(3)] cons])
        then show ?thesis using stands_type [OF comma] by simp
      qed
    qed simp
    then show ?thesis using Suc print_not_end [OF at e(2)] by simp
  qed simp
qed

section \<open>Postfixes and arrays\<close>

lemma postfix_step:
  assumes "postfix_ok t" "expr_lexemes 8 e = expr_lexemes 8 t @ tail" "next_type tail \<in> postfixes" "braceless tail" "tail \<noteq> []"
    "\<And>src ds ps0 ps1 rest t' m N ctx Q. answers src ds ps0 (tail @ rest) t t' ps1 \<Longrightarrow> braceless rest \<Longrightarrow>
      (\<And>m e' ps'. answers src ds ps0 rest e e' ps' \<Longrightarrow> wp (parse_postfix m (parse_precedence N) e' ctx ps') Q) \<Longrightarrow>
      wp (parse_postfix m (parse_precedence N) t' ctx ps1) Q"
  shows "postfix_ok e"
  unfolding postfix_ok_def
proof (intro allI impI, goal_cases)
  case (1 src ds ps rest ctx Q n N)
  have "stands src ds ps (expr_lexemes 8 t @ tail @ rest)" "braceless (tail @ rest)" "next_type (tail @ rest) \<notin> {TOKEN_LESS, TOKEN_COLON_COLON}"
    using 1 assms(2-5) by (auto simp: image_Un neq_Nil_conv)
  then show ?case using assms(1) assms(6) [of src ds ps rest] 1(2,4) unfolding postfix_ok_def by blast
qed

lemma call_answers:
  assumes "answers src ds ps (in_parens (commas (map (expr_lexemes 0) es)) @ rest) t t' ps1" "\<forall>e \<in> set es. all_ok e \<and> printable e" "braceless rest"
  shows "wp (parse_call_args n (parse_precedence N) ps1) (\<lambda>es' ps'. answers src ds ps rest (EXPR_CALL sp t es) (EXPR_CALL sp' t' es') ps')"
proof -
  have t: "denotes ps1 t' t" "grows ps ps1" and at: "stands src ds ps1 (Punct TOKEN_LPAREN # commas (map (expr_lexemes 0) es) @ Punct TOKEN_RPAREN # rest)"
    using assms(1) by (simp_all add: answers_def in_parens_def)
  show ?thesis
    unfolding parse_call_args_def
  proof (rule wp_next [OF at], rule wp_mono [OF call_args_read [where src = src and ds = ds, OF assms(2) _ assms(3)]], goal_cases)
    case (2 ps2 es' ps3)
    then have es: "denote_all ps3 es' es" "stands src ds ps3 rest" "grows ps2 ps3" by (auto simp: list_answers_def)
    have "grows ps1 ps3" by (rule grows_trans [OF 2(2) es(3)])
    then show ?case
      using denotes_grows [OF t(1)] denote_all_map [OF es(1)] es(2) grows_trans [OF t(2)] by (auto simp: answers_def denotes_def named_def)
  qed
qed

lemma call_all:
  assumes "all_ok t" "printable t" "\<forall>e \<in> set es. all_ok e \<and> printable e"
  shows "all_ok (EXPR_CALL sp t es)"
proof (rule all_from_postfix)
  let ?e = "EXPR_CALL sp t es"
  show "postfix_ok ?e"
  proof (rule postfix_step [where t = t and tail = "in_parens (commas (map (expr_lexemes 0) es))"])
    have "\<forall>e \<in> set es. printable e" using assms(3) by blast
    from list_no_brace [OF this] show "braceless (in_parens (commas (map (expr_lexemes 0) es)))" by (auto simp: in_parens_def)
    fix src ds ps0 ps1 rest t' m N ctx Q
    assume t: "answers src ds ps0 (in_parens (commas (map (expr_lexemes 0) es)) @ rest) t t' ps1" and rest: "braceless rest"
      and goal: "\<And>m e' ps'. answers src ds ps0 rest ?e e' ps' \<Longrightarrow> wp (parse_postfix m (parse_precedence N) e' ctx ps') Q"
    have at: "stands src ds ps1 (in_parens (commas (map (expr_lexemes 0) es)) @ rest)" using t by (simp add: answers_def)
    have "wp (then_parse (parse_call_expr k (parse_precedence N) t' ps1) (\<lambda>e. parse_postfix k (parse_precedence N) e ctx)) Q" for k
      unfolding parse_call_expr_def ast_call_expr_create_def
      by (intro wp_then) (rule wp_mono [OF call_answers [OF t assms(3) rest]], rule wp_parsed, rule goal)
    then show "wp (parse_postfix m (parse_precedence N) t' ctx ps1) Q"
      using stands_type [OF at] by (cases m) (simp_all add: in_parens_def)
  qed (use assms(1) in \<open>simp_all add: all_ok_def in_parens_def\<close>)
qed (use assms in simp_all)

lemma denotes_field:
  "denotes ps t' t \<Longrightarrow> a < length (strings_of ps) \<Longrightarrow> strings_of ps ! a = id_name name \<Longrightarrow>
   denotes ps (EXPR_FIELD sp t' (ASTIdent a sp1)) (EXPR_FIELD sp' t name)"
  by (cases name) (simp add: denotes_def named_def)

text \<open>A call of a field is parsed in one step, which answers what the two steps answer.\<close>

lemma field_all:
  assumes "all_ok t" "printable t" "is_identifier (id_name name)"
  shows "all_ok (EXPR_FIELD sp t name)"
proof (rule all_from_postfix)
  let ?e = "EXPR_FIELD sp t name"
  show "postfix_ok ?e"
  proof (rule postfix_step [where t = t and tail = "[Punct TOKEN_DOT, Word (id_name name)]"])
    show "braceless [Punct TOKEN_DOT, Word (id_name name)]" using identifier_type [OF assms(3)] by simp
    fix src ds ps0 ps1 rest t' m N ctx Q
    assume t: "answers src ds ps0 ([Punct TOKEN_DOT, Word (id_name name)] @ rest) t t' ps1" and rest: "braceless rest"
      and goal: "\<And>m e' ps'. answers src ds ps0 rest ?e e' ps' \<Longrightarrow> wp (parse_postfix m (parse_precedence N) e' ctx ps') Q"
    have t': "denotes ps1 t' t" "grows ps0 ps1" and at: "stands src ds ps1 (Punct TOKEN_DOT # Word (id_name name) # rest)" using t by (simp_all add: answers_def)
    have "wp (then_parse (parse_field_expr k (parse_precedence N) t' ps1) (\<lambda>e. parse_postfix k (parse_precedence N) e ctx)) Q" for k
      unfolding parse_field_expr_def Let_def
    proof (rule wp_then, rule wp_next [OF at], goal_cases)
      case (1 ps2)
      have type: "ps_type ps2 = TOKEN_IDENT" using stands_identifier [OF 1(1) assms(3)] by simp
      show ?case
      proof (rule wp_expecting [OF type], rule wp_take_ident [OF 1(1)], goal_cases)
        case (1 a ps3)
        have grown: "grows ps1 ps3" by (rule grows_trans [OF \<open>grows ps1 ps2\<close> 1(2)])
        have "denotes ps3 (EXPR_FIELD (parser_span ps1) t' (ASTIdent a (parser_span ps2))) ?e"
          by (rule denotes_field [OF denotes_grows [OF t'(1) grown] 1(3,4)])
        then have "answers src ds ps0 rest ?e (EXPR_FIELD (parser_span ps1) t' (ASTIdent a (parser_span ps2))) ps3"
          using 1(1) grows_trans [OF t'(2) grown] by (simp add: answers_def)
        note go = goal [OF this]
        have "wp (parse_method_call_expr k (parse_precedence N) t' (ASTIdent a (parser_span ps2)) (parser_span ps1) ps3)
            (\<lambda>e ps. wp (parse_postfix k (parse_precedence N) e ctx ps) Q)" if "ps_type ps3 = TOKEN_LPAREN"
          using go [of "Suc k"] that
          by (simp add: Let_def parse_call_expr_def parse_method_call_expr_def ast_field_expr_create_def wp_def then_parse_def parsed_def no_parse_def
            split: option.splits prod.splits)
        then show ?case using go by (simp add: ast_field_expr_create_def wp_parsed)
      qed
    qed
    then show "wp (parse_postfix m (parse_precedence N) t' ctx ps1) Q"
      using stands_type [OF at] by (cases m) simp_all
  qed (use assms(1) in \<open>simp_all add: all_ok_def\<close>)
qed (use assms in simp_all)

lemma index_all:
  assumes "all_ok t" "printable t" "all_ok i" "printable i"
  shows "all_ok (EXPR_INDEX sp t i)"
proof (rule all_from_postfix)
  let ?e = "EXPR_INDEX sp t i" and ?tail = "Punct TOKEN_LBRACKET # expr_lexemes 0 i @ [Punct TOKEN_RBRACKET]"
  show "postfix_ok ?e"
  proof (rule postfix_step [where t = t and tail = ?tail])
    show "braceless ?tail" using print_no_brace [OF assms(4)] by (simp add: image_Un)
    fix src ds ps0 ps1 rest t' m N ctx Q
    assume t: "answers src ds ps0 (?tail @ rest) t t' ps1" and rest: "braceless rest"
      and goal: "\<And>m e' ps'. answers src ds ps0 rest ?e e' ps' \<Longrightarrow> wp (parse_postfix m (parse_precedence N) e' ctx ps') Q"
    have t': "denotes ps1 t' t" "grows ps0 ps1" and at: "stands src ds ps1 (Punct TOKEN_LBRACKET # expr_lexemes 0 i @ Punct TOKEN_RBRACKET # rest)"
      using t by (simp_all add: answers_def)
    have "wp (parse_index_expr (parse_precedence N) t' ps1) (answers src ds ps0 rest ?e)"
      unfolding parse_index_expr_def Let_def
    proof (rule wp_next [OF at], goal_cases)
      case (1 ps2)
      have "wp (parse_precedence N 0 EXPR_ANY ps2) (answers src ds ps2 (Punct TOKEN_RBRACKET # rest) i)"
        using element_reads [OF assms(3), of src ds ps2 "[]"] 1(1) rest by (simp add: after_element_def)
      then show ?case
      proof (rule wp_then [OF wp_mono], goal_cases)
        case (1 i' ps3)
        then have i: "denotes ps3 i' i" "stands src ds ps3 (Punct TOKEN_RBRACKET # rest)" "grows ps2 ps3" by (simp_all add: answers_def)
        have close': "ps_type ps3 = TOKEN_RBRACKET" using stands_type [OF i(2)] by simp
        show ?case
        proof (rule wp_expecting [OF close'], rule wp_next [OF i(2)], rule wp_parsed, goal_cases)
          case (1 ps4)
          have grown: "grows ps1 ps4" by (rule grows_trans [OF \<open>grows ps1 ps2\<close> grows_trans [OF i(3) 1(2)]])
          have "denotes ps4 (EXPR_INDEX (parser_span ps1) t' i') ?e"
            using denotes_grows [OF t'(1) grown] denotes_grows [OF i(1) 1(2)] by (auto simp: denotes_def named_def)
          then show ?case using 1(1) grows_trans [OF t'(2) grown] by (simp add: answers_def ast_index_expr_create_def)
        qed
      qed
    qed
    from wp_then [OF wp_mono [OF this goal]] show "wp (parse_postfix m (parse_precedence N) t' ctx ps1) Q"
      using stands_type [OF at] by (cases m) (simp_all add: in_parens_def)
  qed (use assms(1) in \<open>simp_all add: all_ok_def\<close>)
qed (use assms in simp_all)

lemma array_all:
  assumes "\<forall>e \<in> set es. all_ok e \<and> printable e"
  shows "all_ok (EXPR_ARRAY_LIT sp es)"
proof (rule all_from_postfix)
  let ?e = "EXPR_ARRAY_LIT sp es"
  show "postfix_ok ?e"
  proof (rule postfix_from_primary)
    fix src ds ps rest n N
    assume "stands src ds ps (expr_lexemes 8 ?e @ rest)" and rest: "braceless rest"
    then have at: "stands src ds ps (Punct TOKEN_LBRACKET # commas (map (expr_lexemes 0) es) @ Punct TOKEN_RBRACKET # rest)" by simp
    have "wp (parse_array_lit n (parse_precedence N) ps) (answers src ds ps rest ?e)"
      unfolding parse_array_lit_def Let_def
    proof (rule wp_next [OF at], rule wp_then [OF wp_mono [OF elements_read [where src = src and ds = ds, OF assms _ rest]]], goal_cases)
      case (2 ps1 es' ps2)
      then have es: "denote_all ps2 es' es" "stands src ds ps2 (Punct TOKEN_RBRACKET # rest)" "grows ps1 ps2" by (auto simp: list_answers_def)
      have close': "ps_type ps2 = TOKEN_RBRACKET" using stands_type [OF es(2)] by simp
      show ?case
      proof (rule wp_expecting [OF close'], rule wp_next [OF es(2)], rule wp_parsed, goal_cases)
        case (1 ps3)
        have "denotes ps3 (EXPR_ARRAY_LIT (parser_span ps) es') ?e"
          using denote_all_map [OF denote_all_grows [OF es(1) 1(2)]] by (auto simp: denotes_def named_def [abs_def])
        moreover have "grows ps ps3" by (rule grows_trans [OF 2(2) grows_trans [OF es(3) 1(2)]])
        ultimately show ?case using 1(1) by (simp add: answers_def ast_array_lit_expr_create_def)
      qed
    qed
    then show "wp (parse_primary n (parse_precedence N) ps) (answers src ds ps rest ?e)"
      using stands_type [OF at] by (simp add: parse_primary_def)
  qed
qed (use assms in simp_all)

lemma printable_all: "printable e \<Longrightarrow> all_ok e"
proof (induction e)
  case (EXPR_CALL sp t es)
  then show ?case by (intro call_all) auto
next
  case (EXPR_ARRAY_LIT sp es)
  then show ?case by (intro array_all) auto
qed (auto intro: literal_all name_all qualified_all bin_op_all not_neg_all deref_all field_all index_all)

section \<open>The round trip\<close>

lemma literal_lexeme_ok: "literal_ok l \<Longrightarrow> lexeme_ok (literal_lexeme l)"
  by (cases l) (simp_all add: is_ident_char_def lexer_char_simps)

lemma identifier_ok: "is_identifier w \<Longrightarrow> lexeme_ok (Word w)"
  by (simp add: is_identifier_def)

lemma commas_ok: "(\<And>ls. ls \<in> set lss \<Longrightarrow> list_all lexeme_ok ls) \<Longrightarrow> list_all lexeme_ok (commas lss)"
  by (induction lss rule: commas.induct) (auto simp: punctuation_def)

lemma punct_ok: "t \<in> fst ` set punctuation \<Longrightarrow> lexeme_ok (Punct t)"
  by simp

lemma punctuation_tokens:
  "lexeme_ok (Punct TOKEN_LPAREN)" "lexeme_ok (Punct TOKEN_RPAREN)" "lexeme_ok (Punct TOKEN_LBRACKET)" "lexeme_ok (Punct TOKEN_RBRACKET)"
  "lexeme_ok (Punct TOKEN_DOT)" "lexeme_ok (Punct TOKEN_COLON_COLON)" "lexeme_ok (Punct TOKEN_SEMICOLON)" "lexeme_ok (Punct TOKEN_NOT)"
  "lexeme_ok (Punct TOKEN_MINUS)" "lexeme_ok (Punct TOKEN_MUL)" "lexeme_ok (Punct (op_token op))"
  by (simp_all add: punctuation_def) (cases op; simp)

lemma print_ok: "printable e \<Longrightarrow> list_all lexeme_ok (expr_lexemes p e)"
proof (induction e arbitrary: p)
  case (EXPR_CALL sp t es)
  have "list_all lexeme_ok (commas (map (expr_lexemes 0) es))" by (rule commas_ok) (use EXPR_CALL in auto)
  then show ?case using EXPR_CALL punctuation_tokens by (simp add: in_parens_def del: lexeme_ok.simps)
next
  case (EXPR_ARRAY_LIT sp es)
  have "list_all lexeme_ok (commas (map (expr_lexemes 0) es))" by (rule commas_ok) (use EXPR_ARRAY_LIT in auto)
  then show ?case using punctuation_tokens by (simp del: lexeme_ok.simps)
qed (simp_all add: in_parens_def Let_def punctuation_tokens literal_lexeme_ok identifier_ok del: lexeme_ok.simps)

definition expr_text :: "tree \<Rightarrow> string" where
  "expr_text e = spelled (expr_lexemes 0 e @ [Punct TOKEN_SEMICOLON])"

text \<open>C32: an expression survives its text.  Take any printable tree, write it with the parentheses its operators
  need and a semicolon behind it, and parse that: with sixteen steps for each character and fourteen more the
  parser answers a tree that denotes the one written - the same operators at the same places, the same names
  and literals - stands at the semicolon and has reported nothing.\<close>

theorem expression_round_trip:
  assumes "printable e" "pool_inv pool" "16 * length (expr_text e) + 14 \<le> n"
  shows "\<exists>ps e' ps'. parser_next_token (parser_create (lexer_create (expr_text e) pool ds)) = Some ps \<and>
    parse_expression n EXPR_ANY ps = Some (Some e', ps') \<and> denotes ps' e' e \<and> ps_type ps' = TOKEN_SEMICOLON \<and>
    lx_diagnostics (ps_lexer ps') = ds"
proof -
  let ?ls = "expr_lexemes 0 e @ [Punct TOKEN_SEMICOLON]"
  have ok: "list_all lexeme_ok ?ls" using print_ok [OF assms(1)] punctuation_tokens(7) by (simp del: lexeme_ok.simps)
  note nul = nul_free_spelled [OF ok] and spells = spells_spelled [OF ok]
  have calm: "calm_source (spelled ?ls)" by (rule spells_braceless [OF spells]) (use print_no_brace [OF assms(1)] in auto)
  obtain ps where ps: "parser_next_token (parser_create (lexer_create (spelled ?ls) pool ds)) = Some ps" "stands (spelled ?ls) ds ps ?ls"
    by (rule stands_create [OF spells nul assms(2)])
  note start = parser_create_ok [OF nul assms(2) calm, of ds]
  have "goes (spelled ?ls) False (parser_create (lexer_create (spelled ?ls) pool ds)) ps"
    by (rule next_token [OF start(1)]) (use ps(1) in simp)
  then have "parser_ok (spelled ?ls) False ps" "size_of ps \<le> 2 * length (spelled ?ls) + 1" using start(2) by (simp_all add: goes_def)
  then have "runs (spelled ?ls) False False True ps (parse_expression n EXPR_ANY ps)"
    using assms(3) by (intro expression_runs) (simp_all add: expr_text_def)
  then obtain q ps' where q: "parse_expression n EXPR_ANY ps = Some (q, ps')" by (auto simp: runs_def)
  have "expr_ok 0 e" using printable_all [OF assms(1)] by (simp add: all_ok_def)
  then have "wp (parse_expression n EXPR_ANY ps) (answers (spelled ?ls) ds ps [Punct TOKEN_SEMICOLON] e)"
    using ps(2) unfolding expr_ok_def parse_expression_def by (simp add: closes_def)
  then obtain e' where "q = Some e'" "answers (spelled ?ls) ds ps [Punct TOKEN_SEMICOLON] e e' ps'" using q by (auto simp: wp_def)
  then have answer: "parse_expression n EXPR_ANY ps = Some (Some e', ps')" "denotes ps' e' e" "stands (spelled ?ls) ds ps' [Punct TOKEN_SEMICOLON]"
    using q by (simp_all add: answers_def)
  have "ps_type ps' = TOKEN_SEMICOLON" "lx_diagnostics (ps_lexer ps') = ds" using stands_type [OF answer(3)] answer(3) by (simp_all add: stands_def)
  then show ?thesis using ps(1) answer(1,2) unfolding expr_text_def by blast
qed

text \<open>\<^verbatim>\<open>a.b(1, -x) * ((c) < d[0])\<close>\<close>

definition round_trip_expr :: tree where
  "round_trip_expr =
     (let n = \<lambda>w. EXPR_NAME () (ASTIdent w ()) None
      in EXPR_BIN_OP ()
           (EXPR_CALL () (EXPR_FIELD () (n ''a'') (ASTIdent ''b'' ())) [EXPR_LITERAL () (LITERAL_INT 1), EXPR_NEG () (n ''x'')]) BIN_OP_MUL
           (EXPR_BIN_OP () (n ''c'') BIN_OP_LESS (EXPR_INDEX () (n ''d'') (EXPR_LITERAL () (LITERAL_INT 0)))))"

theorem expression_round_trip_witness:
  "\<exists>pool ps e' ps'. string_pool_init = Some pool \<and>
     parser_next_token (parser_create (lexer_create (expr_text round_trip_expr) pool (diagnostics_init None))) = Some ps \<and>
     parse_expression (16 * length (expr_text round_trip_expr) + 14) EXPR_ANY ps = Some (Some e', ps') \<and> denotes ps' e' round_trip_expr"
proof -
  obtain pool where pool: "string_pool_init = Some pool" "pool_inv pool" using string_pool_init_inv by blast
  have "printable round_trip_expr"
    by (simp add: round_trip_expr_def Let_def is_identifier_def keyword_table_def is_ident_char_def lexer_char_simps)
  from expression_round_trip [OF this pool(2) le_refl, of "diagnostics_init None"] show ?thesis using pool(1) by blast
qed

end
