(* ===== verification/Parser_Correct.thy ===== *)
theory Parser_Correct
  imports Parser_Round_Trip
begin

text \<open>
  The properties of the parser: it returns on every source whose blocks hold no keyword of a declaration
  that cannot start a statement, a module's files name one module, an expression survives its text, and a
  block with such a keyword is never left.
\<close>

section \<open>The parser returns\<close>

text \<open>C31: parsing a file always ends: for a source without NUL in which none of \<^verbatim>\<open>extern\<close>, \<^verbatim>\<open>caller\<close> and
  \<^verbatim>\<open>module\<close> follows the first brace, sixteen steps for each character and twenty more are enough, the pool
  stays well formed, no diagnostic is lost, the answer is NULL exactly when a diagnostic was added, and a
  file that is answered names its module.\<close>

theorem parse_file_returns:
  assumes "nul_free src" "pool_inv pool" "calm_source src" "16 * length src + 20 \<le> n"
  shows "\<exists>r pool' ds'. parse_file n src pool ds = Some (r, pool', ds') \<and> pool_inv pool' \<and>
    diagnostics_count ds \<le> diagnostics_count ds' \<and> (r = None \<longleftrightarrow> diagnostics_count ds < diagnostics_count ds') \<and>
    (\<forall>f. r = Some f \<longrightarrow> af_module_name f \<noteq> None)"
  by (rule parse_file_ends [OF assms, of ds]) blast

definition module_sample :: "lexeme list" where
  "module_sample =
     [Word ''module'', Word ''m'', Punct TOKEN_SEMICOLON, Word ''extern'', Word ''func'', Word ''g'', Punct TOKEN_LPAREN, Punct TOKEN_RPAREN,
      Punct TOKEN_SEMICOLON, Word ''func'', Word ''f'', Punct TOKEN_LPAREN, Punct TOKEN_RPAREN, Punct TOKEN_LBRACE, Word ''return'',
      Number 1, Punct TOKEN_PLUS, Punct TOKEN_SEMICOLON, Punct TOKEN_RBRACE]"

lemma module_sample_ok: "list_all lexeme_ok module_sample"
  by (simp add: module_sample_def punctuation_def is_ident_char_def lexer_char_simps)

lemma module_sample_calm: "calm_source (spelled module_sample)"
  by (simp add: spells_calm [OF spells_spelled [OF module_sample_ok]]) (simp add: module_sample_def calm_def blocking_def keyword_table_def)

theorem parse_file_returns_witness:
  "\<exists>pool r pool' ds'. string_pool_init = Some pool \<and>
     parse_file (16 * length (spelled module_sample) + 20) (spelled module_sample) pool (diagnostics_init None) = Some (r, pool', ds') \<and>
     (r = None \<longleftrightarrow> 0 < diagnostics_count ds')"
proof -
  obtain pool where pool: "string_pool_init = Some pool" "pool_inv pool" using string_pool_init_inv by blast
  from parse_file_returns [OF nul_free_spelled [OF module_sample_ok] pool(2) module_sample_calm le_refl, of "diagnostics_init None"]
  show ?thesis using pool(1) by (auto simp: diagnostics_init_def diagnostics_count_def)
qed

section \<open>Modules\<close>

definition one_module :: "(nat, span) ast_module \<Rightarrow> bool" where
  "one_module m \<longleftrightarrow> (\<forall>f \<in> set (am_files m). \<exists>i j. af_module_name f = Some i \<and> am_name m = Some j \<and> id_name i = id_name j)"

lemma one_module_add:
  assumes "one_module m" "af_module_name f = Some i"
  shows "am_files m = [] \<Longrightarrow> one_module (ast_module_add_file (m\<lparr>am_name := Some i\<rparr>) f)"
    "am_name m = Some j \<Longrightarrow> id_name j = id_name i \<Longrightarrow> one_module (ast_module_add_file m f)"
  using assms by (auto simp: one_module_def ast_module_add_file_def)

lemma parse_module_files_end:
  assumes "\<forall>(src, name) \<in> set sources. nul_free src \<and> calm_source src \<and> 16 * length src + 20 \<le> n" "pool_inv pool" "one_module m"
  shows "\<exists>r pool' ds'. parse_module_files n sources m pool ds = Some (r, pool', ds') \<and> pool_inv pool' \<and>
    (case r of None \<Rightarrow> diagnostics_count ds < diagnostics_count ds'
     | Some m' \<Rightarrow> diagnostics_count ds' = diagnostics_count ds \<and> one_module m' \<and> length (am_files m') = length (am_files m) + length sources)"
  using assms
proof (induction sources arbitrary: m pool ds)
  case Nil
  then show ?case by simp
next
  case (Cons s sources)
  obtain src name where s: "s = (src, name)" by force
  have source: "nul_free src" "calm_source src" "16 * length src + 20 \<le> n"
    and sources: "\<forall>(src, name) \<in> set sources. nul_free src \<and> calm_source src \<and> 16 * length src + 20 \<le> n"
    using Cons.prems(1) s by auto
  obtain r pool1 ds1 where r: "parse_file n src pool ds = Some (r, pool1, ds1)" "pool_inv pool1" "diagnostics_count ds \<le> diagnostics_count ds1"
      "r = None \<longleftrightarrow> diagnostics_count ds < diagnostics_count ds1" "\<forall>f. r = Some f \<longrightarrow> af_module_name f \<noteq> None"
    using parse_file_ends [OF source(1) Cons.prems(2) source(2,3), of ds] by blast
  show ?case
  proof (cases r)
    case None
    then show ?thesis using r s by simp
  next
    case (Some f)
    then obtain i where i: "af_module_name f = Some i" using r(5) by blast
    have same: "diagnostics_count ds1 = diagnostics_count ds" using r(3,4) Some by simp
    show ?thesis
    proof (cases "am_files m = []")
      case True
      from Cons.IH [OF sources r(2) one_module_add(1) [OF Cons.prems(3) i True], of ds1] show ?thesis
        using r(1) s Some True i same by (auto simp: ast_module_add_file_def split: option.splits)
    next
      case False
      then obtain j where j: "am_name m = Some j" using Cons.prems(3) by (cases "am_files m") (auto simp: one_module_def)
      show ?thesis
      proof (cases "id_name j = id_name i")
        case True
        from Cons.IH [OF sources r(2) one_module_add(2) [OF Cons.prems(3) i j True], of ds1] show ?thesis
          using r(1) s Some False i j True same by (auto simp: ast_module_add_file_def split: option.splits)
      qed (use r s Some False i j same in simp)
    qed
  qed
qed

text \<open>Parsing a module's files always ends, and an accepted module has one file for each source, all
  declaring the module's own name; it is answered exactly when no diagnostic was added.\<close>

theorem parse_module_returns:
  assumes "\<forall>(src, name) \<in> set sources. nul_free src \<and> calm_source src \<and> 16 * length src + 20 \<le> n" "pool_inv pool"
  shows "\<exists>r pool' ds'. parse_module n sources pool ds = Some (r, pool', ds') \<and> pool_inv pool' \<and>
    (case r of None \<Rightarrow> diagnostics_count ds < diagnostics_count ds'
     | Some m \<Rightarrow> diagnostics_count ds' = diagnostics_count ds \<and> one_module m \<and> length (am_files m) = length sources)"
proof -
  have "one_module ast_module_create" "am_files (ast_module_create :: (nat, span) ast_module) = []" by (simp_all add: one_module_def ast_module_create_def)
  then show ?thesis using parse_module_files_end [OF assms, of ast_module_create ds] by (simp add: parse_module_def cong: option.case_cong)
qed

theorem parse_module_returns_witness:
  "\<exists>pool r pool' ds'. string_pool_init = Some pool \<and>
     parse_module (16 * length (spelled module_sample) + 20) [(spelled module_sample, None), (spelled module_sample, Some ''b.gab'')] pool
       (diagnostics_init None) = Some (r, pool', ds') \<and> (r = None \<longrightarrow> 0 < diagnostics_count ds')"
proof -
  obtain pool where pool: "string_pool_init = Some pool" "pool_inv pool" using string_pool_init_inv by blast
  let ?sources = "[(spelled module_sample, None), (spelled module_sample, Some ''b.gab'')]"
  have "\<forall>(src, name) \<in> set ?sources. nul_free src \<and> calm_source src \<and> 16 * length src + 20 \<le> 16 * length (spelled module_sample) + 20"
    using nul_free_spelled [OF module_sample_ok] module_sample_calm by simp
  from parse_module_returns [OF this pool(2), of "diagnostics_init None"] show ?thesis
    using pool(1) by (auto split: option.splits)
qed

section \<open>The block that is never left\<close>

lemma no_expression:
  assumes "ps_type ps \<in> blocking"
  shows "parse_expression n ctx ps = None \<or> parse_expression n ctx ps = no_parse (parser_error_found ''expected an expression'' ps)"
proof (cases n)
  case (Suc k)
  have "ps_type ps \<notin> {TOKEN_MUL, TOKEN_MINUS, TOKEN_NOT, TOKEN_LBRACKET, TOKEN_BUILTIN, TOKEN_IDENT, TOKEN_LPAREN}" "token_literal (ps_current ps) = None"
    using assms by (auto simp: blocking_def)
  then have "parse_unary k ex ctx ps = None \<or> parse_unary k ex ctx ps = no_parse (parser_error_found ''expected an expression'' ps)" for ex
    by (cases k) (simp_all add: is_prefix_def parse_primary_def then_parse_def no_parse_def del: token_literal.simps)
  from this [of "parse_precedence k"] show ?thesis
    using Suc by (auto simp: parse_expression_def then_parse_def no_parse_def)
qed (simp add: parse_expression_def)

lemma block_never_left: "ps_type ps \<in> blocking \<Longrightarrow> parse_block_loop n blk stmts ps = None"
proof (induction n arbitrary: ps)
  case (Suc n)
  let ?ps = "parser_error_found ''expected an expression'' ps"
  have type: "ps_type ?ps = ps_type ps" by (simp add: parser_error_found_def parser_diag_def)
  have "parse_expr_stmt n EXPR_ANY ps = None \<or> parse_expr_stmt n EXPR_ANY ps = no_parse ?ps"
    using no_expression [OF Suc.prems, of n EXPR_ANY] by (auto simp: parse_expr_stmt_def then_parse_def no_parse_def)
  then have "parse_statement n blk ps = None \<or> parse_statement n blk ps = Some (None, ?ps)"
    using Suc.prems by (auto simp: parse_statement_def blocking_def then_parse_def no_parse_def)
  moreover have "parser_synchronize n ?ps = None \<or> parser_synchronize n ?ps = Some ?ps"
    using Suc.prems type by (cases n) (auto simp: blocking_def starts_statement_def)
  moreover have "parse_block_loop n blk stmts ?ps = None" by (rule Suc.IH) (use Suc.prems type in simp)
  moreover have "ps_type ps \<noteq> TOKEN_RBRACE" "ps_type ps \<noteq> TOKEN_EOF" using Suc.prems by (auto simp: blocking_def)
  ultimately show ?case by auto
qed simp


definition hanging_sample :: "lexeme list" where
  "hanging_sample =
     [Word ''module'', Word ''m'', Punct TOKEN_SEMICOLON, Word ''func'', Word ''f'', Punct TOKEN_LPAREN, Punct TOKEN_RPAREN, Punct TOKEN_LBRACE,
      Word ''extern'', Word ''func'', Word ''g'', Punct TOKEN_LPAREN, Punct TOKEN_RPAREN, Punct TOKEN_SEMICOLON, Punct TOKEN_RBRACE]"

lemma hanging_sample_ok: "list_all lexeme_ok hanging_sample"
  by (simp add: hanging_sample_def punctuation_def is_ident_char_def lexer_char_simps)

lemma hanging_words:
  "lexeme_type (Word ''module'') = TOKEN_MODULE" "lexeme_type (Word ''m'') = TOKEN_IDENT" "lexeme_type (Word ''func'') = TOKEN_FUNC"
  "lexeme_type (Word ''f'') = TOKEN_IDENT" "lexeme_type (Word ''extern'') = TOKEN_EXTERN"
  by (simp_all add: keyword_table_def)

lemma module_directive_wp:
  assumes "stands src ds ps (Word ''module'' # Word name # Punct TOKEN_SEMICOLON # ls)" "is_identifier name"
  shows "wp (parse_module_directive n ps) (\<lambda>i ps'. stands src ds ps' ls)"
  unfolding parse_module_directive_def Let_def
proof (rule wp_next [OF assms(1)], goal_cases)
  case (1 ps1)
  have type: "ps_type ps1 = TOKEN_IDENT" using stands_identifier [OF 1(1) assms(2)] by simp
  obtain ps2 where 2: "parser_next_token ps1 = Some ps2" "stands src ds ps2 (Punct TOKEN_SEMICOLON # ls)" by (rule stands_next [OF 1(1)])
  obtain a ps3 where 3: "parser_ident (parser_span ps) (tok_lexeme (ps_current ps1)) ps2 = Some (ASTIdent a (parser_span ps), ps3)"
      "stands src ds ps3 (Punct TOKEN_SEMICOLON # ls)" by (rule stands_ident [OF 2(2)])
  obtain ps4 where 4: "parser_next_token ps3 = Some ps4" "stands src ds ps4 ls" by (rule stands_next [OF 3(2)])
  show ?case
    using type 2(1) 3(1) 4 stands_type [OF 2(2)] stands_type [OF 3(2)] by (simp add: parser_expect_def wp_def)
qed

lemma func_hangs:
  assumes "stands src ds ps (Word ''func'' # Word ''f'' # Punct TOKEN_LPAREN # Punct TOKEN_RPAREN # Punct TOKEN_LBRACE # Word ''extern'' # ls)"
  shows "parse_decl_statement n ps = None"
proof -
  have type: "ps_type ps = TOKEN_FUNC" using stands_type [OF assms] hanging_words by simp
  have ident: "is_identifier ''f''" by (simp add: is_identifier_def keyword_table_def is_ident_char_def lexer_char_simps)
  have block: "wp (parse_block_stmt n ps') (\<lambda>r ps. False)" if "stands src ds ps' (Punct TOKEN_LBRACE # Word ''extern'' # ls)" for ps'
  proof (cases n)
    case (Suc k)
    have brace: "ps_type ps' = TOKEN_LBRACE" using stands_type [OF that] by simp
    have "wp (then_parse (parse_block_loop k (parse_block_stmt k) [] ps1) (\<lambda>stmts. parsed (ast_block_stmt_create sp stmts))) (\<lambda>r ps. False)"
      if "stands src ds ps1 (Word ''extern'' # ls)" for ps1 sp
    proof -
      have "ps_type ps1 \<in> blocking" using stands_type [OF that] hanging_words by (simp add: blocking_def)
      then show ?thesis by (simp add: block_never_left then_parse_def)
    qed
    then show ?thesis
      unfolding Suc parse_block_stmt.simps Let_def by (intro wp_expecting [OF brace] wp_next [OF that])
  qed simp
  have rest: "wp (parse_func_rest n (parse_block_stmt n) False sp (FUNC_SYN_NONE OR FUNC_SYN_NONE) name [] [] ps') (\<lambda>r ps. False)"
    if "stands src ds ps' (Punct TOKEN_LBRACE # Word ''extern'' # ls)" for ps' sp name
  proof -
    have "ps_type ps' = TOKEN_LBRACE" using stands_type [OF that] by simp
    moreover have "then_parse (parse_block_stmt n ps') k = None" for k :: "stmt \<Rightarrow> parser \<Rightarrow> stmt parsed"
      using block [OF that] by (cases "parse_block_stmt n ps'") (auto simp: wp_def then_parse_def)
    ultimately show ?thesis by (simp add: parse_func_rest_def FUNC_SYN_NONE_def Let_def)
  qed
  have params: "wp (then_parse (parse_func_params n [] ps') (\<lambda>params. parse_func_rest n (parse_block_stmt n) False sp
      (FUNC_SYN_NONE OR FUNC_SYN_NONE) name [] params)) (\<lambda>r ps. False)"
    if at: "stands src ds ps' (Punct TOKEN_RPAREN # Punct TOKEN_LBRACE # Word ''extern'' # ls)" for ps' sp name
  proof (cases n)
    case (Suc k)
    have close': "ps_type ps' = TOKEN_RPAREN" using stands_type [OF at] by simp
    obtain ps1 where "parser_next_token ps' = Some ps1" "stands src ds ps1 (Punct TOKEN_LBRACE # Word ''extern'' # ls)" by (rule stands_next [OF at])
    then show ?thesis using rest close' Suc by simp
  qed (simp add: then_parse_def)
  have syntax': "parse_func_syntax n False ps = None \<or> parse_func_syntax n False ps = parsed FUNC_SYN_NONE ps"
    using type by (cases n) (simp_all add: parse_func_syntax_def)
  have after_name: "wp (then_parse (parse_type_params n m1 ps') (\<lambda>declared ps. if ps_type ps = TOKEN_COLON_COLON then no_parse (parser_error m2 ps)
      else expecting TOKEN_LPAREN m3 ps (\<lambda>ps. Option.bind (parser_next_token ps) (\<lambda>ps. then_parse (parse_func_params n [] ps)
        (\<lambda>params. parse_func_rest n (parse_block_stmt n) False sp (FUNC_SYN_NONE OR FUNC_SYN_NONE) name declared params))))) (\<lambda>r ps. False)"
    if at: "stands src ds ps' (Punct TOKEN_LPAREN # Punct TOKEN_RPAREN # Punct TOKEN_LBRACE # Word ''extern'' # ls)" for ps' m1 m2 m3 sp name
  proof -
    have open': "ps_type ps' = TOKEN_LPAREN" using stands_type [OF at] by simp
    then have "parse_type_params n m1 ps' = parsed [] ps'" by (simp add: parse_type_params_def)
    moreover obtain ps1 where "parser_next_token ps' = Some ps1" "stands src ds ps1 (Punct TOKEN_RPAREN # Punct TOKEN_LBRACE # Word ''extern'' # ls)"
      by (rule stands_next [OF at])
    ultimately show ?thesis using params open' by (simp add: expecting_at)
  qed
  obtain ps1 where 1: "parser_next_token ps = Some ps1"
      "stands src ds ps1 (Word ''f'' # Punct TOKEN_LPAREN # Punct TOKEN_RPAREN # Punct TOKEN_LBRACE # Word ''extern'' # ls)"
    by (rule stands_next [OF assms])
  have name: "ps_type ps1 = TOKEN_IDENT" using stands_identifier [OF 1(2) ident] by simp
  have "wp (parse_func_decl_stmt_at n (parse_block_stmt n) False sp FUNC_SYN_NONE ps) (\<lambda>r ps. False)" for sp
  proof (cases "parse_func_syntax n False ps")
    case (Some r)
    then have parsed: "parse_func_syntax n False ps = parsed FUNC_SYN_NONE ps" using syntax' by simp
    show ?thesis
      unfolding parse_func_decl_stmt_at_def parsed then_parse_parsed Let_def expecting_at [OF type] 1(1) bind.simps expecting_at [OF name]
      by (rule wp_take_ident [OF 1(2)]) (rule after_name)
  qed (simp add: parse_func_decl_stmt_at_def then_parse_def)
  then have "parse_func_decl_stmt n (parse_block_stmt n) ps = None"
    unfolding parse_func_decl_stmt_def by (cases "parse_func_decl_stmt_at n (parse_block_stmt n) False (parser_span ps) FUNC_SYN_NONE ps")
      (auto simp: wp_def)
  then show ?thesis using type by (simp add: parse_decl_statement_def Let_def then_parse_def)
qed


end
