(* ===== verification/Facts.thy ===== *)
theory Facts
  imports Ast Scope
begin

text \<open>
  What resolution remembers of the tree, and the bodies it leaves to be lowered: \<^verbatim>\<open>src/ast/facts.h\<close>,
  \<^verbatim>\<open>facts.c\<close>, \<^verbatim>\<open>pending.h\<close> and \<^verbatim>\<open>pending.c\<close>.  The three maps are the hash map of \<open>Hash_Map\<close> with the
  address of a node as its key, so a resolved tree carries at each node its address beside its span:
  the annotation of the tree is the record \<open>node\<close>.  \<^verbatim>\<open>Symbol *\<close> and \<^verbatim>\<open>Function *\<close> are the indices of the
  objects they point to.  \<open>None\<close> is a map that does not answer, which its invariant excludes.
\<close>

unbundle bit_operations_syntax

section \<open>Writing through a returned pointer\<close>

definition hm_set_value :: "('k, 'v) hash_map \<Rightarrow> nat \<Rightarrow> 'v \<Rightarrow> ('k, 'v) hash_map" where
  "hm_set_value m i v =
     m\<lparr>hm_entries := (hm_entries m)[i := HASH_MAP_LIVE (ent_key (hm_entries m ! i)) (ent_hash (hm_entries m ! i)) v]\<rparr>"

section \<open>Nodes and what is known of them\<close>

record node =
  nd_at :: size_t
  nd_span :: span

datatype call_kind = CALL_FUNCTION | CALL_CONVERSION | CALL_METHOD | CALL_INDEX | CALL_DEREF

datatype adjust_kind = ADJUST_NONE | ADJUST_BORROW | ADJUST_UNSIZE

text \<open>The array of the types reached stands with its count as a list.\<close>

record adjustment =
  ad_kind :: adjust_kind
  ad_deref_types :: "gtype option list"
  ad_to :: "gtype option"
  ad_length :: int32_t

record expr_fact =
  ef_type :: "gtype option"
  ef_use :: "nat option"
  ef_callee :: "nat option"
  ef_adjustment :: adjustment
  ef_constant :: const
  ef_field :: nat
  ef_initialized_field :: nat
  ef_call :: call_kind
  ef_moves :: bool
  ef_has_constant :: bool

record stmt_fact =
  sf_function :: "nat option"

definition no_adjustment :: adjustment where
  "no_adjustment = \<lparr>ad_kind = ADJUST_NONE, ad_deref_types = [], ad_to = None, ad_length = 0\<rparr>"

text \<open>\<^verbatim>\<open>(ExprFact){0}\<close> and \<^verbatim>\<open>(StmtFact){0}\<close>.\<close>

definition zero_expr_fact :: expr_fact where
  "zero_expr_fact =
     \<lparr>ef_type = None, ef_use = None, ef_callee = None, ef_adjustment = no_adjustment,
      ef_constant = Constant None (Const_int 0), ef_field = 0, ef_initialized_field = 0,
      ef_call = CALL_FUNCTION, ef_moves = False, ef_has_constant = False\<rparr>"

definition zero_stmt_fact :: stmt_fact where
  "zero_stmt_fact = \<lparr>sf_function = None\<rparr>"

definition expr_fact_hash :: "size_t \<Rightarrow> nat" where
  "expr_fact_hash key = unat (drop_bit 4 key)"

record facts =
  fc_exprs :: "(size_t, expr_fact) hash_map"
  fc_stmts :: "(size_t, stmt_fact) hash_map"
  fc_defs :: "(size_t, nat option) hash_map"

definition FACTS_INITIAL_CAPACITY :: nat where "FACTS_INITIAL_CAPACITY = 64"

definition facts_init :: "facts option" where
  "facts_init =
     do { exprs \<leftarrow> hm_init FACTS_INITIAL_CAPACITY;
          stmts \<leftarrow> hm_init FACTS_INITIAL_CAPACITY;
          defs \<leftarrow> hm_init FACTS_INITIAL_CAPACITY;
          Some \<lparr>fc_exprs = exprs, fc_stmts = stmts, fc_defs = defs\<rparr> }"

section \<open>Noting\<close>

text \<open>\<^verbatim>\<open>fact_mut\<close> and \<^verbatim>\<open>stmt_fact_mut\<close>: the entry of a node, made zero when it has none.\<close>

definition entry_mut :: "'v \<Rightarrow> (size_t, 'v) hash_map \<Rightarrow> size_t \<Rightarrow> (nat \<times> (size_t, 'v) hash_map) option" where
  "entry_mut zero m at =
     do { p \<leftarrow> hm_lookup expr_fact_hash (=) m at;
          (case p of
             Some i \<Rightarrow> Some (i, m)
           | None \<Rightarrow>
               do { (m', q) \<leftarrow> hm_insert expr_fact_hash (=) m at zero;
                    (case q of Some i \<Rightarrow> Some (i, m') | None \<Rightarrow> None) }) }"

definition fact_mut :: "facts \<Rightarrow> size_t \<Rightarrow> (nat \<times> facts) option" where
  "fact_mut facts at = map_option (\<lambda>(i, m). (i, facts\<lparr>fc_exprs := m\<rparr>)) (entry_mut zero_expr_fact (fc_exprs facts) at)"

definition stmt_fact_mut :: "facts \<Rightarrow> size_t \<Rightarrow> (nat \<times> facts) option" where
  "stmt_fact_mut facts at = map_option (\<lambda>(i, m). (i, facts\<lparr>fc_stmts := m\<rparr>)) (entry_mut zero_stmt_fact (fc_stmts facts) at)"

text \<open>Assigning members through the pointer \<^verbatim>\<open>fact_mut\<close> returns.\<close>

definition fact_assign :: "(expr_fact \<Rightarrow> expr_fact) \<Rightarrow> facts \<Rightarrow> size_t \<Rightarrow> facts option" where
  "fact_assign f facts at =
     do { (i, facts') \<leftarrow> fact_mut facts at;
          Some (facts'\<lparr>fc_exprs := hm_set_value (fc_exprs facts') i (f (hm_value (fc_exprs facts') i))\<rparr>) }"

definition fact_set_type :: "facts \<Rightarrow> size_t \<Rightarrow> gtype option \<Rightarrow> facts option" where
  "fact_set_type facts at t = fact_assign (\<lambda>e. e\<lparr>ef_type := t\<rparr>) facts at"

definition fact_set_use :: "facts \<Rightarrow> size_t \<Rightarrow> nat option \<Rightarrow> facts option" where
  "fact_set_use facts at binding = fact_assign (\<lambda>e. e\<lparr>ef_use := binding\<rparr>) facts at"

definition fact_set_callee :: "facts \<Rightarrow> size_t \<Rightarrow> nat option \<Rightarrow> facts option" where
  "fact_set_callee facts at callee = fact_assign (\<lambda>e. e\<lparr>ef_callee := callee\<rparr>) facts at"

definition fact_set_moves :: "facts \<Rightarrow> size_t \<Rightarrow> bool \<Rightarrow> facts option" where
  "fact_set_moves facts at moves = fact_assign (\<lambda>e. e\<lparr>ef_moves := moves\<rparr>) facts at"

definition fact_set_adjustment :: "facts \<Rightarrow> size_t \<Rightarrow> adjustment \<Rightarrow> facts option" where
  "fact_set_adjustment facts at adj = fact_assign (\<lambda>e. e\<lparr>ef_adjustment := adj\<rparr>) facts at"

definition fact_set_call_kind :: "facts \<Rightarrow> size_t \<Rightarrow> call_kind \<Rightarrow> facts option" where
  "fact_set_call_kind facts at kind = fact_assign (\<lambda>e. e\<lparr>ef_call := kind\<rparr>) facts at"

definition fact_set_constant :: "facts \<Rightarrow> size_t \<Rightarrow> const \<Rightarrow> facts option" where
  "fact_set_constant facts at c = fact_assign (\<lambda>e. e\<lparr>ef_constant := c, ef_has_constant := True\<rparr>) facts at"

definition fact_set_field :: "facts \<Rightarrow> size_t \<Rightarrow> nat \<Rightarrow> facts option" where
  "fact_set_field facts at field = fact_assign (\<lambda>e. e\<lparr>ef_field := field\<rparr>) facts at"

definition fact_set_initialized_field :: "facts \<Rightarrow> size_t \<Rightarrow> nat \<Rightarrow> facts option" where
  "fact_set_initialized_field facts at field = fact_assign (\<lambda>e. e\<lparr>ef_initialized_field := field\<rparr>) facts at"

definition fact_set_function :: "facts \<Rightarrow> size_t \<Rightarrow> nat option \<Rightarrow> facts option" where
  "fact_set_function facts at function =
     do { (i, facts') \<leftarrow> stmt_fact_mut facts at;
          Some (facts'\<lparr>fc_stmts := hm_set_value (fc_stmts facts') i
            ((hm_value (fc_stmts facts') i)\<lparr>sf_function := function\<rparr>)\<rparr>) }"

definition fact_set_def :: "facts \<Rightarrow> size_t \<Rightarrow> nat option \<Rightarrow> facts option" where
  "fact_set_def facts at binding =
     do { p \<leftarrow> hm_lookup expr_fact_hash (=) (fc_defs facts) at;
          (case p of
             Some i \<Rightarrow> Some (facts\<lparr>fc_defs := hm_set_value (fc_defs facts) i binding\<rparr>)
           | None \<Rightarrow>
               do { (m, q) \<leftarrow> hm_insert expr_fact_hash (=) (fc_defs facts) at binding;
                    Some (facts\<lparr>fc_defs := m\<rparr>) }) }"

section \<open>Asking\<close>

definition entry_of :: "(size_t, 'v) hash_map \<Rightarrow> size_t \<Rightarrow> 'v option" where
  "entry_of m at = (case hm_lookup expr_fact_hash (=) m at of Some (Some i) \<Rightarrow> Some (hm_value m i) | _ \<Rightarrow> None)"

definition fact_of :: "facts \<Rightarrow> size_t \<Rightarrow> expr_fact option" where
  "fact_of facts at = entry_of (fc_exprs facts) at"

definition fact_type_of :: "facts \<Rightarrow> size_t \<Rightarrow> gtype option" where
  "fact_type_of facts at = (case fact_of facts at of Some f \<Rightarrow> ef_type f | None \<Rightarrow> None)"

definition fact_use_of :: "facts \<Rightarrow> size_t \<Rightarrow> nat option" where
  "fact_use_of facts at = (case fact_of facts at of Some f \<Rightarrow> ef_use f | None \<Rightarrow> None)"

definition fact_callee_of :: "facts \<Rightarrow> size_t \<Rightarrow> nat option" where
  "fact_callee_of facts at = (case fact_of facts at of Some f \<Rightarrow> ef_callee f | None \<Rightarrow> None)"

definition fact_moves :: "facts \<Rightarrow> size_t \<Rightarrow> bool" where
  "fact_moves facts at = (case fact_of facts at of Some f \<Rightarrow> ef_moves f | None \<Rightarrow> False)"

text \<open>The constant comes back through the out parameter exactly when the answer is true.\<close>

definition fact_constant_of :: "facts \<Rightarrow> size_t \<Rightarrow> const option" where
  "fact_constant_of facts at =
     (case fact_of facts at of Some f \<Rightarrow> if ef_has_constant f then Some (ef_constant f) else None | None \<Rightarrow> None)"

definition fact_adjustment :: "facts \<Rightarrow> size_t \<Rightarrow> adjustment" where
  "fact_adjustment facts at = (case fact_of facts at of Some f \<Rightarrow> ef_adjustment f | None \<Rightarrow> no_adjustment)"

definition fact_call_kind :: "facts \<Rightarrow> size_t \<Rightarrow> call_kind" where
  "fact_call_kind facts at = (case fact_of facts at of Some f \<Rightarrow> ef_call f | None \<Rightarrow> CALL_FUNCTION)"

definition fact_field_of :: "facts \<Rightarrow> size_t \<Rightarrow> nat" where
  "fact_field_of facts at = (case fact_of facts at of Some f \<Rightarrow> ef_field f | None \<Rightarrow> 0)"

definition fact_initialized_field_of :: "facts \<Rightarrow> size_t \<Rightarrow> nat" where
  "fact_initialized_field_of facts at = (case fact_of facts at of Some f \<Rightarrow> ef_initialized_field f | None \<Rightarrow> 0)"

definition fact_adjusted_type_of :: "facts \<Rightarrow> size_t \<Rightarrow> gtype option" where
  "fact_adjusted_type_of facts at =
     (case fact_of facts at of
        None \<Rightarrow> None
      | Some f \<Rightarrow> if ad_to (ef_adjustment f) \<noteq> None then ad_to (ef_adjustment f) else ef_type f)"

definition fact_function_of :: "facts \<Rightarrow> size_t \<Rightarrow> nat option" where
  "fact_function_of facts at = (case entry_of (fc_stmts facts) at of Some f \<Rightarrow> sf_function f | None \<Rightarrow> None)"

definition fact_def_of :: "facts \<Rightarrow> size_t \<Rightarrow> nat option" where
  "fact_def_of facts at = (case entry_of (fc_defs facts) at of Some binding \<Rightarrow> binding | None \<Rightarrow> None)"

text \<open>\<^verbatim>\<open>fact_root_local\<close>: the variable an expression is a part of.\<close>

fun fact_root_local :: "facts \<Rightarrow> ('n, node) ast_expr \<Rightarrow> nat option" where
  "fact_root_local facts (EXPR_NAME nd name owner) = fact_use_of facts (nd_at nd)"
| "fact_root_local facts (EXPR_FIELD nd target name) = fact_root_local facts target"
| "fact_root_local facts (EXPR_INDEX nd target index) = fact_root_local facts target"
| "fact_root_local facts (EXPR_DEREF nd target) = fact_root_local facts target"
| "fact_root_local facts (EXPR_ADDR_OF nd target) = fact_root_local facts target"
| "fact_root_local facts _ = None"

section \<open>Facts are kept\<close>

context hash_key
begin

text \<open>The entry an insertion or a lookup points to holds the key.\<close>

lemma entry_found:
  assumes "hm_inv hash eq m" "hm_lookup hash eq m key = Some (Some i)"
  shows "i < hm_capacity m \<and> (\<exists>k. eq key k \<and> hm_entries m ! i = HASH_MAP_LIVE k (hash k) (hm_value m i))"
proof -
  obtain j where j: "j < hm_capacity m" "hm_probe eq (hm_entries m) (hm_capacity m) key (hash key) = Some j"
      "(\<exists>k v. hm_entries m ! j = HASH_MAP_LIVE k (hash k) v \<and> eq key k \<and> hm_abs eq m key = Some v) \<or>
       \<not> hm_is_live (hm_entries m ! j) \<and> hm_abs eq m key = None"
    using inv_probe [OF assms(1), of key] by blast
  then show ?thesis using assms(2) by (auto simp: hm_lookup_def hm_value_def split: if_splits)
qed

lemma entry_inserted:
  assumes "hm_inv hash eq m" "hm_insert hash eq m key val = Some (m', Some i)"
  shows "i < hm_capacity m' \<and> hm_entries m' ! i = HASH_MAP_LIVE key (hash key) val"
proof -
  obtain m1 where m1: "(if 2 * hm_occupied m \<ge> hm_capacity m then hm_resize eq m else Some m) = Some m1" "hm_inv hash eq m1"
    using resize_ok [OF assms(1)] assms(1) by (cases "2 * hm_occupied m \<ge> hm_capacity m") auto
  obtain j where j: "j < hm_capacity m1" "hm_probe eq (hm_entries m1) (hm_capacity m1) key (hash key) = Some j"
    using inv_probe [OF m1(2), of key] by blast
  have "length (hm_entries m1) = hm_capacity m1" using m1(2) by (simp add: hm_inv_def)
  moreover note assms(2) [unfolded hm_insert_def m1(1) Option.bind.bind_lunit j(2)]
  ultimately show ?thesis using j(1) by (auto split: hm_entry.splits)
qed

lemma set_value_ok:
  assumes inv: "hm_inv hash eq m" and i: "i < hm_capacity m" "eq key k" "hm_entries m ! i = HASH_MAP_LIVE k (hash k) w"
  shows "hm_inv hash eq (hm_set_value m i v) \<and>
    (\<forall>q. hm_abs eq (hm_set_value m i v) q = (if eq q key then Some v else hm_abs eq m q))"
proof -
  let ?e = "HASH_MAP_LIVE k (hash k) v" and ?m = "hm_set_value m i v"
  have m: "?m = m\<lparr>hm_entries := (hm_entries m)[i := ?e]\<rparr>" using i(3) by (simp add: hm_set_value_def)
  have len: "length (hm_entries m) = hm_capacity m" and cells: "hm_cells hash eq (hm_capacity m) (hm_entries m)"
    using inv by (auto simp: hm_inv_def)
  have same: "hm_is_live ((hm_entries m)[i := ?e] ! j) = hm_is_live (hm_entries m ! j) \<and>
      ent_key ((hm_entries m)[i := ?e] ! j) = ent_key (hm_entries m ! j) \<and>
      ent_hash ((hm_entries m)[i := ?e] ! j) = ent_hash (hm_entries m ! j)" if "j < hm_capacity m" for j
    using i len by (cases "j = i") simp_all
  have cells': "hm_cells hash eq (hm_capacity m) ((hm_entries m)[i := ?e])"
    using cells same unfolding hm_cells_def by (auto intro!: reaches_update)
  have "length (filter hm_is_live ((hm_entries m)[i := ?e])) = length (filter hm_is_live (hm_entries m))"
    using length_filter_update [of i "hm_entries m" hm_is_live ?e] i len by simp
  moreover have "length (filter (\<lambda>e. e \<noteq> HASH_MAP_EMPTY) ((hm_entries m)[i := ?e])) =
      length (filter (\<lambda>e. e \<noteq> HASH_MAP_EMPTY) (hm_entries m))"
    using length_filter_update [of i "hm_entries m" "\<lambda>e. e \<noteq> HASH_MAP_EMPTY" ?e] i len by simp
  ultimately have inv': "hm_inv hash eq ?m" using inv cells' unfolding m hm_inv_def by simp
  have only: "j = i" if "j < hm_capacity m" "hm_entries m ! j = HASH_MAP_LIVE k' h w'" "eq k k'" for j k' h w'
    using cells that i unfolding hm_cells_def by (metis hm_entry.sel(1) hm_is_live.simps(1))
  have "hm_abs eq ?m q = Some u \<longleftrightarrow> (if eq q key then Some v else hm_abs eq m q) = Some u" for q u
  proof -
    have "hm_abs eq ?m q = Some u \<longleftrightarrow> eq q k \<and> u = v \<or>
        (\<exists>j < hm_capacity m. j \<noteq> i \<and> (\<exists>k' h. hm_entries m ! j = HASH_MAP_LIVE k' h u \<and> eq q k'))"
    proof -
      have l: "length (hm_entries ?m) = hm_capacity ?m" "hm_cells hash eq (hm_capacity ?m) (hm_entries ?m)"
        using inv' by (auto simp: hm_inv_def)
      show ?thesis unfolding abs_Some_iff [OF l] unfolding m using i(1) len by (auto simp: nth_list_update)
    qed
    also have "\<dots> \<longleftrightarrow> (if eq q k then Some v else hm_abs eq m q) = Some u"
    proof (cases "eq q k")
      case True
      then have "\<not> (\<exists>j < hm_capacity m. j \<noteq> i \<and> (\<exists>k' h. hm_entries m ! j = HASH_MAP_LIVE k' h u \<and> eq q k'))"
        using only eq_trans [OF eq_sym [OF True]] by blast
      with True show ?thesis by auto
    next
      case False
      then have "j \<noteq> i" if "hm_entries m ! j = HASH_MAP_LIVE k' h u" "eq q k'" for j k' h using i(3) that by auto
      then have "(\<exists>j < hm_capacity m. j \<noteq> i \<and> (\<exists>k' h. hm_entries m ! j = HASH_MAP_LIVE k' h u \<and> eq q k')) \<longleftrightarrow>
          hm_abs eq m q = Some u" unfolding abs_Some_iff [OF len cells] by blast
      with False show ?thesis by simp
    qed
    also have "eq q k \<longleftrightarrow> eq q key" using i(2) eq_sym eq_trans by blast
    finally show ?thesis .
  qed
  then have "hm_abs eq ?m q = (if eq q key then Some v else hm_abs eq m q)" for q
    by (metis not_Some_eq)
  with inv' show ?thesis by blast
qed

end

interpretation fact_map: hash_key expr_fact_hash "(=)"
  by unfold_locales auto

abbreviation fact_map_ok :: "(size_t, 'v) hash_map \<Rightarrow> bool" where
  "fact_map_ok m \<equiv> hm_inv expr_fact_hash (=) m"

lemma entry_of_abs: "fact_map_ok m \<Longrightarrow> entry_of m at = hm_abs (=) m at"
  using fact_map.lookup_ok [of m at] by (auto simp: entry_of_def split: option.splits)

lemma entry_mut_ok:
  assumes "fact_map_ok m"
  shows "\<exists>i m'. entry_mut zero m at = Some (i, m') \<and> fact_map_ok m' \<and>
    hm_value m' i = (case entry_of m at of Some e \<Rightarrow> e | None \<Rightarrow> zero) \<and>
    (\<forall>v. fact_map_ok (hm_set_value m' i v) \<and> entry_of (hm_set_value m' i v) = (entry_of m)(at \<mapsto> v))"
proof -
  obtain p where p: "hm_lookup expr_fact_hash (=) m at = Some p" "map_option (hm_value m) p = entry_of m at"
    using fact_map.lookup_ok [OF assms, of at] entry_of_abs [OF assms, of at] by auto
  show ?thesis
  proof (cases p)
    case (Some i)
    have i: "i < hm_capacity m" "hm_entries m ! i = HASH_MAP_LIVE at (expr_fact_hash at) (hm_value m i)"
      using fact_map.entry_found [OF assms, of at i] p(1) Some by auto
    have "fact_map_ok (hm_set_value m i v) \<and> entry_of (hm_set_value m i v) = (entry_of m)(at \<mapsto> v)" for v
      using fact_map.set_value_ok [OF assms i(1) refl i(2), of v] entry_of_abs [OF assms]
        entry_of_abs [of "hm_set_value m i v"] by (auto simp: fun_eq_iff)
    then show ?thesis using p Some assms by (auto simp: entry_mut_def split: option.splits)
  next
    case None
    then have none: "hm_abs (=) m at = None" using p(2) entry_of_abs [OF assms, of at] by simp
    obtain m' q where q: "hm_insert expr_fact_hash (=) m at zero = Some (m', q)" "fact_map_ok m'" "q \<noteq> None"
        "\<forall>i. q = Some i \<longrightarrow> hm_value m' i = zero" "\<forall>k. hm_abs (=) m' k = (if k = at then Some zero else hm_abs (=) m k)"
      using fact_map.insert_ok [OF assms, of at zero] none by auto
    then obtain i where i: "q = Some i" by auto
    have e: "i < hm_capacity m'" "hm_entries m' ! i = HASH_MAP_LIVE at (expr_fact_hash at) zero"
      using fact_map.entry_inserted [OF assms, of at zero m' i] q(1) i by auto
    have "fact_map_ok (hm_set_value m' i v) \<and> entry_of (hm_set_value m' i v) = (entry_of m)(at \<mapsto> v)" for v
      using fact_map.set_value_ok [OF q(2) e(1) refl e(2), of v] entry_of_abs [OF assms] q(5)
        entry_of_abs [of "hm_set_value m' i v"] by (auto simp: fun_eq_iff)
    then show ?thesis using p None q i by (auto simp: entry_mut_def)
  qed
qed

definition facts_ok :: "facts \<Rightarrow> bool" where
  "facts_ok f \<longleftrightarrow> fact_map_ok (fc_exprs f) \<and> fact_map_ok (fc_stmts f) \<and> fact_map_ok (fc_defs f)"

lemma facts_init_ok: "\<exists>f. facts_init = Some f \<and> facts_ok f \<and> (\<forall>at. fact_of f at = None)"
proof -
  have c: "FACTS_INITIAL_CAPACITY = 2 ^ Suc 5" by (simp add: FACTS_INITIAL_CAPACITY_def)
  obtain e where e: "hm_init (2 ^ Suc 5) = Some e" "fact_map_ok (e :: (size_t, expr_fact) hash_map)" "\<forall>k. hm_abs (=) e k = None"
    using fact_map.init_ok [of 5] by blast
  obtain s where s: "hm_init (2 ^ Suc 5) = Some s" "fact_map_ok (s :: (size_t, stmt_fact) hash_map)"
    using fact_map.init_ok [of 5] by blast
  obtain d where d: "hm_init (2 ^ Suc 5) = Some d" "fact_map_ok (d :: (size_t, nat option) hash_map)"
    using fact_map.init_ok [of 5] by blast
  show ?thesis unfolding facts_init_def c e(1) s(1) d(1)
    using e s d by (simp add: facts_ok_def fact_of_def entry_of_abs)
qed

lemma fact_assign_ok:
  assumes "facts_ok f"
  shows "\<exists>f'. fact_assign g f at = Some f' \<and> facts_ok f' \<and>
    fact_of f' = (fact_of f)(at \<mapsto> g (case fact_of f at of Some e \<Rightarrow> e | None \<Rightarrow> zero_expr_fact)) \<and>
    fact_function_of f' = fact_function_of f \<and> fact_def_of f' = fact_def_of f"
proof -
  have ok: "fact_map_ok (fc_exprs f)" using assms by (simp add: facts_ok_def)
  obtain i m' where m: "entry_mut zero_expr_fact (fc_exprs f) at = Some (i, m')"
      "hm_value m' i = (case entry_of (fc_exprs f) at of Some e \<Rightarrow> e | None \<Rightarrow> zero_expr_fact)"
      "\<forall>v. fact_map_ok (hm_set_value m' i v) \<and> entry_of (hm_set_value m' i v) = (entry_of (fc_exprs f))(at \<mapsto> v)"
    using entry_mut_ok [OF ok, of zero_expr_fact at] by blast
  show ?thesis using assms m
    by (auto simp: fact_assign_def fact_mut_def facts_ok_def fact_of_def [abs_def] fact_function_of_def [abs_def] fact_def_of_def [abs_def]
        fun_eq_iff)
qed

text \<open>C34: noting something of an expression always returns and keeps the maps sound.  The fact of that
  expression is then what it was, or the zero fact when there was none, with the member assigned; every
  other expression has the fact it had, and the facts of statements and names are untouched.\<close>

theorem fact_assign_refines:
  assumes "facts_ok f"
  shows "\<exists>f'. fact_assign g f at = Some f' \<and> facts_ok f' \<and>
    fact_of f' = (fact_of f)(at \<mapsto> g (case fact_of f at of Some e \<Rightarrow> e | None \<Rightarrow> zero_expr_fact)) \<and>
    fact_function_of f' = fact_function_of f \<and> fact_def_of f' = fact_def_of f"
  by (rule fact_assign_ok [OF assms])

theorem fact_assign_refines_witness:
  "\<exists>f f' f''. facts_init = Some f \<and> fact_set_moves f 16 True = Some f' \<and> fact_set_use f' 32 (Some 3) = Some f'' \<and>
     fact_moves f'' 16 \<and> \<not> fact_moves f'' 32 \<and> fact_use_of f'' 32 = Some 3"
proof -
  obtain f where f: "facts_init = Some f" "facts_ok f" "\<forall>at. fact_of f at = None" using facts_init_ok by blast
  obtain f' where f': "fact_set_moves f 16 True = Some f'" "facts_ok f'"
      "fact_of f' = (fact_of f)(16 \<mapsto> zero_expr_fact\<lparr>ef_moves := True\<rparr>)"
    using fact_assign_refines [OF f(2), of "\<lambda>e. e\<lparr>ef_moves := True\<rparr>" 16] f(3) by (auto simp: fact_set_moves_def)
  obtain f'' where f'': "fact_set_use f' 32 (Some 3) = Some f''"
      "fact_of f'' = (fact_of f')(32 \<mapsto> zero_expr_fact\<lparr>ef_use := Some 3\<rparr>)"
    using fact_assign_refines [OF f'(2), of "\<lambda>e. e\<lparr>ef_use := Some 3\<rparr>" 32] f(3) f'(3) by (auto simp: fact_set_use_def)
  show ?thesis using f(1) f'(1,3) f'' by (auto simp: fact_moves_def fact_use_of_def zero_expr_fact_def)
qed

end
