(* ===== verification/Mir_Lower.thy ===== *)
theory Mir_Lower
  imports Facts Mir
begin

text \<open>
  Lowering of resolved functions: \<^verbatim>\<open>src/mir/mir_lower.c\<close>.  What the C record \<^verbatim>\<open>Lowering\<close> only points to
  and never changes - the registry, the facts, the functions and symbols there are - is the record
  \<open>lower_env\<close>; the rest is \<open>lowering\<close>, which every function takes and answers.  The two parallel arrays of
  locals are a list of pairs, and the array of known constants, grown to the ids it is asked for, is a
  partial map.  A function that lowers a part of an expression takes the functions for its parts as
  arguments, and \<open>lower_expr\<close>, \<open>lower_place\<close> and \<open>lower_into\<close> tie the knot with a number of steps.
  \<open>None\<close> is a NULL dereference, a union member read that was not stored, a failed assertion, or a lack of
  steps.
\<close>

unbundle bit_operations_syntax

type_synonym rexpr = "(nat, node) ast_expr"
type_synonym rstmt = "(nat, node) ast_stmt"

definition expr_at :: "rexpr \<Rightarrow> size_t" where "expr_at e = nd_at (ex_span e)"
definition expr_span :: "rexpr \<Rightarrow> span" where "expr_span e = nd_span (ex_span e)"
definition stmt_span :: "rstmt \<Rightarrow> span" where "stmt_span s = nd_span (st_span s)"

definition zero_span :: span where "zero_span = \<lparr>sp_line = 0, sp_column = 0\<rparr>"

section \<open>State\<close>

record lower_env =
  le_registry :: type_registry
  le_facts :: facts
  le_functions :: "gfunction list"
  le_symbols :: "symbol list"

record lowering =
  lw_ir :: mir_function
  lw_block :: nat
  lw_locals :: "(nat option \<times> nat) list"
  lw_temp_slots :: "nat list"
  lw_break_target :: nat
  lw_continue_target :: nat
  lw_loop_local_floor :: nat
  lw_constants :: "nat \<rightharpoonup> const"
  lw_caller_location :: nat

type_synonym 'a lowers = "lowering \<Rightarrow> ('a \<times> lowering) option"

text \<open>Following a pointer to a function or a symbol.\<close>

definition function_at :: "lower_env \<Rightarrow> nat \<Rightarrow> gfunction option" where
  "function_at env f = (if f < length (le_functions env) then Some (le_functions env ! f) else None)"

definition symbol_of :: "lower_env \<Rightarrow> nat \<Rightarrow> symbol option" where
  "symbol_of env s = (if s < length (le_symbols env) then Some (le_symbols env ! s) else None)"

text \<open>\<^verbatim>\<open>binding ? binding->var.type : NULL\<close>.\<close>

definition var_type_of :: "lower_env \<Rightarrow> nat option \<Rightarrow> gtype option option" where
  "var_type_of env binding =
     (case binding of
        None \<Rightarrow> Some None
      | Some s \<Rightarrow>
          do { sym \<leftarrow> symbol_of env s;
               (case sy_shape sym of SYMBOL_VAR t \<Rightarrow> Some t | _ \<Rightarrow> None) })"

abbreviation type_at :: "lower_env \<Rightarrow> rexpr \<Rightarrow> gtype option" where
  "type_at env e \<equiv> fact_type_of (le_facts env) (expr_at e)"

definition i32_type_of :: "lower_env \<Rightarrow> gtype option" where
  "i32_type_of env = type_registry_get_primitive (le_registry env) TYPE_I32"

section \<open>Values, locals and temporaries\<close>

definition lower_temp :: "gtype option \<Rightarrow> span \<Rightarrow> lowering \<Rightarrow> nat \<times> lowering" where
  "lower_temp t sp lw =
     (let (v, ir) = mir_value_create (lw_ir lw) t None sp in (v, lw\<lparr>lw_ir := ir\<rparr>))"

definition emit :: "mir_inst \<Rightarrow> lowering \<Rightarrow> lowering" where
  "emit inst lw = lw\<lparr>lw_ir := mir_emit (lw_ir lw) (lw_block lw) inst\<rparr>"

definition bind_local :: "nat option \<Rightarrow> nat \<Rightarrow> lowering \<Rightarrow> lowering" where
  "bind_local binding v lw = lw\<lparr>lw_locals := lw_locals lw @ [(binding, v)]\<rparr>"

definition local_value :: "lowering \<Rightarrow> nat option \<Rightarrow> nat" where
  "local_value lw binding =
     (case find (\<lambda>(b, v). b = binding) (rev (lw_locals lw)) of Some (b, v) \<Rightarrow> v | None \<Rightarrow> MIR_NO_VALUE)"

definition lower_temp_slot :: "gtype option \<Rightarrow> span \<Rightarrow> lowering \<Rightarrow> nat \<times> lowering" where
  "lower_temp_slot t sp lw =
     (let (v, lw1) = lower_temp t sp lw;
          lw2 = bind_local None v lw1;
          lw3 = lw2\<lparr>lw_temp_slots := lw_temp_slots lw2 @ [v]\<rparr>
      in (v, emit ((inst_of MIR_STORAGE_LIVE t MIR_NO_VALUE sp)\<lparr>mi_place := mir_place_of v None\<rparr>) lw3))"

definition is_temp_slot :: "lowering \<Rightarrow> nat \<Rightarrow> bool" where
  "is_temp_slot lw v \<longleftrightarrow> \<not> mir_value_is_none v \<and> list_ex (\<lambda>w. w = v) (lw_temp_slots lw)"

definition lower_load_from :: "place \<Rightarrow> gtype option \<Rightarrow> read_kind \<Rightarrow> span \<Rightarrow> lowering \<Rightarrow> nat \<times> lowering" where
  "lower_load_from place t read sp lw =
     (let (result, lw1) = lower_temp t sp lw
      in (result, emit ((inst_of MIR_LOAD t result sp)\<lparr>mi_place := place, mi_read := read\<rparr>) lw1))"

definition lower_moved_temp :: "nat \<Rightarrow> gtype option \<Rightarrow> span \<Rightarrow> lowering \<Rightarrow> nat \<times> lowering" where
  "lower_moved_temp v t sp lw =
     (if \<not> is_temp_slot lw v then (v, lw) else lower_load_from (mir_place_of v None) t READ_MOVE sp lw)"

definition callee_takes_slot :: "lower_env \<Rightarrow> gfunction option \<Rightarrow> nat \<Rightarrow> bool option" where
  "callee_takes_slot env callee index =
     (case callee of
        None \<Rightarrow> Some False
      | Some g \<Rightarrow>
          if index \<ge> length (fs_params (fn_signature g)) then Some False
          else type_registry_owns (le_registry env) (fs_params (fn_signature g) ! index))"

definition lower_note_constant :: "nat \<Rightarrow> const \<Rightarrow> lowering \<Rightarrow> lowering" where
  "lower_note_constant v c lw =
     (if mir_value_is_none v then lw else lw\<lparr>lw_constants := (lw_constants lw)(v \<mapsto> c)\<rparr>)"

definition lower_operand :: "lowering \<Rightarrow> nat \<Rightarrow> mir_operand" where
  "lower_operand lw v =
     (if mir_value_is_none v then mir_operand_value v
      else case lw_constants lw v of Some c \<Rightarrow> mir_operand_const c | None \<Rightarrow> mir_operand_value v)"

definition lower_binary_args :: "lowering \<Rightarrow> nat \<Rightarrow> nat \<Rightarrow> mir_operand list" where
  "lower_binary_args lw a b = [mir_operand_value a, lower_operand lw b]"

definition lower_args :: "nat list \<Rightarrow> mir_operand list" where
  "lower_args vs = map mir_operand_value vs"

definition lower_terminator :: "mir_inst \<Rightarrow> lowering \<Rightarrow> lowering" where
  "lower_terminator inst lw =
     (if mir_block_is_terminated (mf_blocks (lw_ir lw) ! lw_block lw) then lw else emit inst lw)"

definition lower_jump :: "nat \<Rightarrow> lowering \<Rightarrow> lowering" where
  "lower_jump target lw =
     lower_terminator ((inst_of MIR_JMP None MIR_NO_VALUE zero_span)\<lparr>mi_targets := (target, 0)\<rparr>) lw"

definition lower_store_to :: "place \<Rightarrow> nat \<Rightarrow> gtype option \<Rightarrow> span \<Rightarrow> lowering \<Rightarrow> lowering" where
  "lower_store_to place v t sp lw =
     emit ((inst_of MIR_STORE t MIR_NO_VALUE sp)\<lparr>mi_place := place, mi_args := lower_args [v]\<rparr>) lw"

text \<open>A block for later, and the block to fill next.\<close>

definition lower_block :: "lowering \<Rightarrow> nat \<times> lowering" where
  "lower_block lw = (let (b, ir) = mir_block_create (lw_ir lw) in (b, lw\<lparr>lw_ir := ir\<rparr>))"

definition lower_into_block :: "nat \<Rightarrow> lowering \<Rightarrow> lowering" where
  "lower_into_block b lw = lw\<lparr>lw_block := b\<rparr>"

definition lower_branch :: "nat \<Rightarrow> nat \<Rightarrow> nat \<Rightarrow> span \<Rightarrow> lowering \<Rightarrow> lowering" where
  "lower_branch condition yes no sp lw =
     lower_terminator ((inst_of MIR_BRANCH None MIR_NO_VALUE sp)\<lparr>mi_args := lower_args [condition], mi_targets := (yes, no)\<rparr>) lw"

section \<open>Operators\<close>

fun bin_op_to_ir :: "bin_op \<Rightarrow> mir_op" where
  "bin_op_to_ir BIN_OP_ADD = MIR_ADD"
| "bin_op_to_ir BIN_OP_SUB = MIR_SUB"
| "bin_op_to_ir BIN_OP_MUL = MIR_MUL"
| "bin_op_to_ir BIN_OP_DIV = MIR_DIV"
| "bin_op_to_ir BIN_OP_MOD = MIR_MOD"
| "bin_op_to_ir _ = MIR_CMP"

fun bin_op_is_comparison :: "bin_op \<Rightarrow> cmp_predicate option" where
  "bin_op_is_comparison BIN_OP_LESS = Some MIR_CMP_LT"
| "bin_op_is_comparison BIN_OP_GREATER = Some MIR_CMP_GT"
| "bin_op_is_comparison BIN_OP_EQUAL = Some MIR_CMP_EQ"
| "bin_op_is_comparison BIN_OP_NEQUAL = Some MIR_CMP_NE"
| "bin_op_is_comparison BIN_OP_LEQUAL = Some MIR_CMP_LE"
| "bin_op_is_comparison BIN_OP_GEQUAL = Some MIR_CMP_GE"
| "bin_op_is_comparison _ = None"

definition lower_unary :: "lower_env \<Rightarrow> (rexpr \<Rightarrow> nat lowers) \<Rightarrow> mir_op \<Rightarrow> rexpr \<Rightarrow> rexpr \<Rightarrow> nat lowers" where
  "lower_unary env lower_e op e operand lw =
     do { (v, lw1) \<leftarrow> lower_e operand lw;
          let (result, lw2) = lower_temp (type_at env e) (expr_span e) lw1
          in Some (result, emit ((inst_of op (type_at env e) result (expr_span e))\<lparr>mi_args := lower_args [v]\<rparr>) lw2) }"

definition lower_literal :: "lower_env \<Rightarrow> rexpr \<Rightarrow> nat literal \<Rightarrow> lowering \<Rightarrow> nat \<times> lowering" where
  "lower_literal env e lit lw =
     (let t = type_at env e;
          (result, lw1) = lower_temp t (expr_span e) lw;
          (op, c) = (case lit of
              LITERAL_STRING s \<Rightarrow> (MIR_CONST_STR, constant_string t s)
            | LITERAL_FLOAT f \<Rightarrow> (MIR_CONST_FLOAT, constant_float t f)
            | LITERAL_BOOL b \<Rightarrow> (MIR_CONST_BOOL, constant_bool t b)
            | LITERAL_INT i \<Rightarrow> (MIR_CONST_INT, constant_int t i));
          lw2 = emit ((inst_of op t result (expr_span e))\<lparr>mi_constant := c\<rparr>) lw1
      in (result, if op \<noteq> MIR_CONST_STR then lower_note_constant result c lw2 else lw2))"

definition lower_logical :: "lower_env \<Rightarrow> (rexpr \<Rightarrow> nat lowers) \<Rightarrow> rexpr \<Rightarrow> rexpr \<Rightarrow> bin_op \<Rightarrow> rexpr \<Rightarrow> nat lowers" where
  "lower_logical env lower_e e a op b lw =
     (let (result, lw1) = lower_temp (type_at env e) (expr_span e) lw;
          slot = mir_place_of result None
      in do { (left, lw2) \<leftarrow> lower_e a lw1;
              let lw3 = lower_store_to slot left (type_at env e) (expr_span e) lw2;
                  (rhs, lw4) = lower_block lw3;
                  (join, lw5) = lower_block lw4;
                  lw6 = lower_branch left (if op = BIN_OP_AND then rhs else join) (if op = BIN_OP_AND then join else rhs)
                          (expr_span e) lw5
              in do { (right, lw7) \<leftarrow> lower_e b (lower_into_block rhs lw6);
                      let lw8 = lower_store_to slot right (type_at env e) (expr_span e) lw7
                      in Some (result, lower_into_block join (lower_jump join lw8)) } })"

definition lower_bin_op :: "lower_env \<Rightarrow> (rexpr \<Rightarrow> nat lowers) \<Rightarrow> rexpr \<Rightarrow> rexpr \<Rightarrow> bin_op \<Rightarrow> rexpr \<Rightarrow> nat lowers" where
  "lower_bin_op env lower_e e a op b lw =
     (if op = BIN_OP_AND \<or> op = BIN_OP_OR then lower_logical env lower_e e a op b lw
      else do { (left, lw1) \<leftarrow> lower_e a lw;
                (right, lw2) \<leftarrow> lower_e b lw1;
                let (result, lw3) = lower_temp (type_at env e) (expr_span e) lw2;
                    inst = (inst_of (bin_op_to_ir op) (type_at env e) result (expr_span e))
                             \<lparr>mi_args := lower_binary_args lw3 left right\<rparr>
                in Some (result, emit (case bin_op_is_comparison op of
                      Some p \<Rightarrow> inst\<lparr>mi_op := MIR_CMP, mi_predicate := p\<rparr> | None \<Rightarrow> inst) lw3) })"

section \<open>Places\<close>

text \<open>\<^verbatim>\<open>expr->unary.target\<close>, \<^verbatim>\<open>expr->index.target\<close> and \<^verbatim>\<open>expr->call.target->field.target\<close>.\<close>

fun unary_target :: "rexpr \<Rightarrow> rexpr option" where
  "unary_target (EXPR_DEREF nd t) = Some t"
| "unary_target (EXPR_ADDR_OF nd t) = Some t"
| "unary_target (EXPR_NEG nd t) = Some t"
| "unary_target (EXPR_NOT nd t) = Some t"
| "unary_target _ = None"

fun index_target :: "rexpr \<Rightarrow> rexpr option" where
  "index_target (EXPR_INDEX nd t i) = Some t"
| "index_target _ = None"

fun method_target :: "rexpr \<Rightarrow> rexpr option" where
  "method_target (EXPR_CALL nd (EXPR_FIELD nd' t name) args) = Some t"
| "method_target _ = None"

fun call_args :: "rexpr \<Rightarrow> rexpr list option" where
  "call_args (EXPR_INDEX nd t i) = Some [i]"
| "call_args (EXPR_DEREF nd t) = Some []"
| "call_args (EXPR_CALL nd t args) = Some args"
| "call_args _ = None"

definition call_receiver :: "lower_env \<Rightarrow> rexpr \<Rightarrow> rexpr option option" where
  "call_receiver env e =
     (case fact_call_kind (le_facts env) (expr_at e) of
        CALL_INDEX \<Rightarrow> map_option Some (index_target e)
      | CALL_DEREF \<Rightarrow> map_option Some (unary_target e)
      | CALL_METHOD \<Rightarrow> map_option Some (method_target e)
      | _ \<Rightarrow> Some None)"

definition call_result_type :: "lower_env \<Rightarrow> rexpr \<Rightarrow> gtype option option" where
  "call_result_type env e =
     (let callee = fact_callee_of (le_facts env) (expr_at e);
          returned = (case callee of None \<Rightarrow> None | Some f \<Rightarrow> map_option (\<lambda>g. fs_return (fn_signature g)) (function_at env f))
      in case e of
           EXPR_INDEX _ _ _ \<Rightarrow> returned
         | EXPR_DEREF _ _ \<Rightarrow> (if callee \<noteq> None then returned else Some (type_at env e))
         | _ \<Rightarrow> Some (type_at env e))"

definition lower_indexed_place ::
  "lower_env \<Rightarrow> (rexpr \<Rightarrow> nat lowers) \<Rightarrow> (rexpr \<Rightarrow> place lowers) \<Rightarrow> rexpr \<Rightarrow> rexpr \<Rightarrow> gtype option \<Rightarrow> span \<Rightarrow> place lowers" where
  "lower_indexed_place env lower_e lower_p target index_expr element sp lw =
     do { (base, lw1) \<leftarrow> lower_p target lw;
          (index, lw2) \<leftarrow> lower_e index_expr lw1;
          container \<leftarrow> type_at env target;
          held \<leftarrow> mir_indexed_container (Some container);
          let place = mir_place_index base container index element
          in if ty_kind held = TYPE_RAW then Some (place, lw2)
             else Some (place, emit ((inst_of MIR_BOUNDS (Some held) MIR_NO_VALUE sp)
                    \<lparr>mi_args := lower_args (mir_bounds_operands place (Some container) index)\<rparr>) lw2) }"

text \<open>The loop of \<^verbatim>\<open>EXPR_FIELD\<close>: through every reference to what is pointed at.\<close>

function deref_through :: "place \<Rightarrow> gtype option \<Rightarrow> place" where
  "deref_through place None = place"
| "deref_through place (Some t) =
     (if ty_kind t = TYPE_REF then
        deref_through (mir_place_project place \<lparr>pr_kind = PROJ_DEREF, pr_id = 0, pr_type = ty_pointee t\<rparr>) (ty_pointee t)
      else place)"
  by pat_completeness auto
termination by (relation "measure (\<lambda>(p, t). opt_size t)") (auto intro: opt_size_pointee)

text \<open>\<^verbatim>\<open>lower_place\<close>; \<open>lower_c\<close> is \<^verbatim>\<open>lower_call\<close>, defined below.  A field number is cut to 32 bits.\<close>

definition place_step ::
  "lower_env \<Rightarrow> (rexpr \<Rightarrow> nat lowers) \<Rightarrow> (rexpr \<Rightarrow> place lowers) \<Rightarrow> (rexpr \<Rightarrow> nat lowers) \<Rightarrow> rexpr \<Rightarrow> place lowers" where
  "place_step env lower_e lower_p lower_c e lw =
     (let through = (\<lambda>place. mir_place_project place \<lparr>pr_kind = PROJ_DEREF, pr_id = 0, pr_type = type_at env e\<rparr>);
          answered = do { (v, lw1) \<leftarrow> lower_c e lw; Some (through (mir_place_of v None), lw1) }
      in case e of
        EXPR_NAME nd name owner \<Rightarrow>
          (let binding = fact_use_of (le_facts env) (expr_at e);
               base = local_value lw binding
           in if mir_value_is_none base then
                let (v, lw1) = lower_temp (type_at env e) (expr_span e) lw in Some (mir_place_of v binding, lw1)
              else Some (mir_place_of base binding, lw))
      | EXPR_FIELD nd target name \<Rightarrow>
          do { (place, lw1) \<leftarrow> lower_p target lw;
               Some (mir_place_project (deref_through place (type_at env target))
                 \<lparr>pr_kind = PROJ_FIELD, pr_id = fact_field_of (le_facts env) (expr_at e) mod 4294967296, pr_type = type_at env e\<rparr>, lw1) }
      | EXPR_DEREF nd target \<Rightarrow>
          (if fact_call_kind (le_facts env) (expr_at e) = CALL_DEREF then answered
           else do { (place, lw1) \<leftarrow> lower_p target lw; Some (through place, lw1) })
      | EXPR_INDEX nd target index \<Rightarrow>
          (if fact_call_kind (le_facts env) (expr_at e) = CALL_INDEX then answered
           else lower_indexed_place env lower_e lower_p target index (type_at env e) (expr_span e) lw)
      | _ \<Rightarrow> do { (v, lw1) \<leftarrow> lower_e e lw; Some (mir_place_of v None, lw1) })"

section \<open>Calls\<close>

text \<open>\<^verbatim>\<open>lower_location_of\<close>: a value of the type \<^verbatim>\<open>Location\<close>, line and column stored into its two fields.\<close>

definition lower_location_part :: "lower_env \<Rightarrow> nat \<Rightarrow> span \<Rightarrow> nat \<times> nat \<Rightarrow> lowering \<Rightarrow> lowering" where
  "lower_location_part env result sp = (\<lambda>(i, at) lw.
     (let (v, lw1) = lower_temp (i32_type_of env) sp lw;
          lw2 = emit ((inst_of MIR_CONST_INT (i32_type_of env) v sp)
                  \<lparr>mi_constant := constant_int (i32_type_of env) (scast (of_nat at :: int32_t))\<rparr>) lw1
      in lower_store_to (mir_place_project (mir_place_of result None)
           \<lparr>pr_kind = PROJ_FIELD, pr_id = i, pr_type = i32_type_of env\<rparr>) v (i32_type_of env) sp lw2))"

definition lower_location_of :: "lower_env \<Rightarrow> gtype option \<Rightarrow> span \<Rightarrow> lowering \<Rightarrow> nat \<times> lowering" where
  "lower_location_of env t sp lw =
     (let (result, lw1) = lower_temp t sp lw
      in (result, lower_location_part env result sp (1, sp_column sp) (lower_location_part env result sp (0, sp_line sp) lw1)))"

text \<open>\<^verbatim>\<open>lower_intrinsic_call\<close> once the callee is an intrinsic and the call has a receiver.\<close>

definition lower_operation :: "lower_env \<Rightarrow> (rexpr \<Rightarrow> nat lowers) \<Rightarrow> mir_op \<Rightarrow> rexpr \<Rightarrow> rexpr \<Rightarrow> nat lowers" where
  "lower_operation env lower_e op e receiver lw =
     do { (source, lw1) \<leftarrow> lower_e receiver lw;
          let (result, lw2) = lower_temp (type_at env e) (expr_span e) lw1
          in Some (result, emit ((inst_of op (type_at env e) result (expr_span e))\<lparr>mi_args := [mir_operand_value source]\<rparr>) lw2) }"

definition lower_array_length :: "lower_env \<Rightarrow> rexpr \<Rightarrow> gtype \<Rightarrow> nat lowers" where
  "lower_array_length env e base lw =
     (let (result, lw1) = lower_temp (type_at env e) (expr_span e) lw
      in do { c \<leftarrow> (if type_array_length_is_known (Some base)
                    then map_option (\<lambda>n. constant_int (i32_type_of env) (scast n)) (type_array_length (Some base))
                    else Some (constant_int (Some base) 0));
              Some (result, emit ((inst_of MIR_CONST_INT (type_at env e) result (expr_span e))\<lparr>mi_constant := c\<rparr>) lw1) })"

definition lower_lent ::
  "lower_env \<Rightarrow> (rexpr \<Rightarrow> nat lowers) \<Rightarrow> (rexpr \<Rightarrow> place lowers) \<Rightarrow> rexpr \<Rightarrow> rexpr \<Rightarrow> gtype \<Rightarrow> rexpr \<Rightarrow> nat lowers" where
  "lower_lent env lower_e lower_p e receiver container index lw =
     do { element \<leftarrow> (case ty_kind container of
             TYPE_ARRAY \<Rightarrow> type_array_element (Some container)
           | TYPE_RAW \<Rightarrow> Some (type_pointee (Some container))
           | _ \<Rightarrow> type_slice_element (Some container));
          (place, lw1) \<leftarrow> lower_indexed_place env lower_e lower_p receiver index element (expr_span e) lw;
          lent \<leftarrow> call_result_type env e;
          let (result, lw2) = lower_temp lent (expr_span e) lw1
          in Some (result, emit ((inst_of MIR_REF lent result (expr_span e))\<lparr>mi_place := place\<rparr>) lw2) }"

definition lower_intrinsic ::
  "lower_env \<Rightarrow> (rexpr \<Rightarrow> nat lowers) \<Rightarrow> (rexpr \<Rightarrow> place lowers) \<Rightarrow> rexpr \<Rightarrow> rexpr \<Rightarrow> nat lowers" where
  "lower_intrinsic env lower_e lower_p e receiver lw =
     (if type_is_str_ref (type_at env receiver) then lower_operation env lower_e MIR_COPY e receiver lw
      else do {
        args \<leftarrow> call_args e;
        base \<leftarrow> mir_indexed_container (type_at env receiver);
        (case args of
           [] \<Rightarrow>
             if ty_kind base = TYPE_ARRAY then lower_array_length env e base lw
             else lower_operation env lower_e MIR_SLICE_LEN e receiver lw
         | index # _ \<Rightarrow> lower_lent env lower_e lower_p e receiver base index lw) })"

text \<open>The outcome is \<open>None\<close> where \<^verbatim>\<open>lower_intrinsic_call\<close> answers false.\<close>

definition lower_intrinsic_call ::
  "lower_env \<Rightarrow> (rexpr \<Rightarrow> nat lowers) \<Rightarrow> (rexpr \<Rightarrow> place lowers) \<Rightarrow> rexpr \<Rightarrow> nat option lowers" where
  "lower_intrinsic_call env lower_e lower_p e lw =
     do { receiver \<leftarrow> call_receiver env e;
          (case (fact_callee_of (le_facts env) (expr_at e), receiver) of
             (Some f, Some r) \<Rightarrow>
               do { g \<leftarrow> function_at env f;
                    if fd_modifiers (fn_decl g) AND FUNC_MOD_INTRINSIC = 0 then Some (None, lw)
                    else map_option (\<lambda>(v, lw1). (Some v, lw1)) (lower_intrinsic env lower_e lower_p e r lw) }
           | (Some f, None) \<Rightarrow> map_option (\<lambda>g. (None, lw)) (function_at env f)
           | _ \<Rightarrow> Some (None, lw)) }"

text \<open>The receiver and the written arguments, each moved out of its temporary when the callee owns it.\<close>

fun lower_passed ::
  "lower_env \<Rightarrow> (rexpr \<Rightarrow> nat lowers) \<Rightarrow> gfunction option \<Rightarrow> span \<Rightarrow> nat \<Rightarrow> rexpr list \<Rightarrow> nat list lowers" where
  "lower_passed env lower_e callee sp i [] lw = Some ([], lw)"
| "lower_passed env lower_e callee sp i (e # es) lw =
     do { (v, lw1) \<leftarrow> lower_e e lw;
          takes \<leftarrow> callee_takes_slot env callee i;
          let (w, lw2) = (if takes then
                 lower_moved_temp v (case callee of Some g \<Rightarrow> fs_params (fn_signature g) ! i | None \<Rightarrow> None) sp lw1
               else (v, lw1))
          in do { (ws, lw3) \<leftarrow> lower_passed env lower_e callee sp (Suc i) es lw2;
                  Some (w # ws, lw3) } }"

definition lower_conversion :: "lower_env \<Rightarrow> (rexpr \<Rightarrow> nat lowers) \<Rightarrow> rexpr \<Rightarrow> nat lowers" where
  "lower_conversion env lower_e e lw =
     (case e of
        EXPR_CALL nd t (operand # _) \<Rightarrow>
          do { to \<leftarrow> type_at env e;
               from' \<leftarrow> type_at env operand;
               if ty_kind to = ty_kind from' then lower_e operand lw
               else lower_unary env lower_e (if ty_kind to = TYPE_F32 then MIR_ITOF else MIR_FTOI) e operand lw }
      | _ \<Rightarrow> None)"

definition lower_call_of ::
  "lower_env \<Rightarrow> (rexpr \<Rightarrow> nat lowers) \<Rightarrow> rexpr \<Rightarrow> gfunction option \<Rightarrow> rexpr option \<Rightarrow> rexpr list \<Rightarrow> nat lowers" where
  "lower_call_of env lower_e e callee receiver written lw =
     do { (passed, lw1) \<leftarrow> lower_passed env lower_e callee (expr_span e) 0 (case receiver of Some r \<Rightarrow> r # written | None \<Rightarrow> written) lw;
          let (located, lw2) = (case callee of
                 Some g \<Rightarrow>
                   (if fd_modifiers (fn_decl g) AND FUNC_MOD_CALLER = 0 then ([], lw1)
                    else if mir_value_is_none (lw_caller_location lw1) then
                      (let (l, lw2) = lower_location_of env (fd_location_type (fn_decl g)) (expr_span e) lw1 in ([l], lw2))
                    else ([lw_caller_location lw1], lw1))
               | None \<Rightarrow> ([], lw1))
          in do {
            answered \<leftarrow> call_result_type env e;
            let (result, lw3) = lower_temp answered (expr_span e) lw2;
                lw4 = emit ((inst_of MIR_CALL answered result (expr_span e))
                        \<lparr>mi_args := map mir_operand_value (passed @ located),
                         mi_callee := fact_callee_of (le_facts env) (expr_at e)\<rparr>) lw3
            in if \<not> mir_type_needs_drop (le_registry env) answered then Some (result, lw4)
               else let (slot, lw5) = lower_temp_slot answered (expr_span e) lw4
                    in Some (slot, lower_store_to (mir_place_of slot None) result answered (expr_span e) lw5) } }"

fun is_builtin :: "rexpr \<Rightarrow> bool" where
  "is_builtin (EXPR_BUILTIN nd name t) = True"
| "is_builtin _ = False"

fun builtin_target :: "rexpr \<Rightarrow> rexpr option" where
  "builtin_target (EXPR_CALL nd t args) = (if is_builtin t then Some t else None)"
| "builtin_target _ = None"

definition lower_call :: "lower_env \<Rightarrow> (rexpr \<Rightarrow> nat lowers) \<Rightarrow> (rexpr \<Rightarrow> place lowers) \<Rightarrow> rexpr \<Rightarrow> nat lowers" where
  "lower_call env lower_e lower_p e lw =
     (case builtin_target e of
        Some t \<Rightarrow> lower_e t lw
      | None \<Rightarrow>
          do { (intrinsic, lw1) \<leftarrow> lower_intrinsic_call env lower_e lower_p e lw;
               (case intrinsic of
                  Some v \<Rightarrow> Some (v, lw1)
                | None \<Rightarrow>
                    if fact_call_kind (le_facts env) (expr_at e) = CALL_CONVERSION then lower_conversion env lower_e e lw1
                    else do {
                      callee \<leftarrow> (case fact_callee_of (le_facts env) (expr_at e) of
                         None \<Rightarrow> Some None | Some f \<Rightarrow> map_option Some (function_at env f));
                      receiver \<leftarrow> call_receiver env e;
                      written \<leftarrow> call_args e;
                      lower_call_of env lower_e e callee receiver written lw1 }) })"

end
