(* ===== verification/Mir_Lower_Body.thy ===== *)
theory Mir_Lower_Body
  imports Mir_Lower
begin

text \<open>
  The rest of \<^verbatim>\<open>src/mir/mir_lower.c\<close>: literals of structs and arrays, the adjustments of an expression,
  the functions that tie the parts together, statements and whole functions.  One step of \<open>lower_expr\<close>,
  \<open>lower_place\<close> or \<open>lower_into\<close> is one of its calls with the parts of the expression one step lower;
  statements recurse on the tree.
\<close>

unbundle bit_operations_syntax

section \<open>Literals\<close>

type_synonym field_init = "(nat, node) ast_ident \<times> rexpr"

fun is_struct_lit :: "rexpr \<Rightarrow> bool" where
  "is_struct_lit (EXPR_STRUCT_LIT nd t inits) = True"
| "is_struct_lit _ = False"

text \<open>\<^verbatim>\<open>lower_struct_lit_into\<close>: a nested literal goes straight into its field.\<close>

fun lower_inits ::
  "lower_env \<Rightarrow> (rexpr \<Rightarrow> nat lowers) \<Rightarrow> (rexpr \<Rightarrow> place \<Rightarrow> lowering \<Rightarrow> lowering option) \<Rightarrow> place \<Rightarrow> field_init list \<Rightarrow>
   lowering \<Rightarrow> lowering option" where
  "lower_inits env lower_e lower_s base [] lw = Some lw"
| "lower_inits env lower_e lower_s base ((name, e) # inits) lw =
     (let place = mir_place_project base
            \<lparr>pr_kind = PROJ_FIELD, pr_id = fact_initialized_field_of (le_facts env) (expr_at e) mod 4294967296, pr_type = type_at env e\<rparr>
      in if is_struct_lit e then do { lw1 \<leftarrow> lower_s e place lw; lower_inits env lower_e lower_s base inits lw1 }
         else do {
           (v, lw1) \<leftarrow> lower_e e lw;
           let (w, lw2) = lower_moved_temp v (type_at env e) (nd_span (id_span name)) lw1
           in lower_inits env lower_e lower_s base inits
                (lower_store_to place w (type_at env e) (nd_span (id_span name)) lw2) })"

definition into_step ::
  "lower_env \<Rightarrow> (rexpr \<Rightarrow> nat lowers) \<Rightarrow> (rexpr \<Rightarrow> place \<Rightarrow> lowering \<Rightarrow> lowering option) \<Rightarrow> rexpr \<Rightarrow> place \<Rightarrow>
   lowering \<Rightarrow> lowering option" where
  "into_step env lower_e lower_s e base lw =
     (case e of EXPR_STRUCT_LIT nd t inits \<Rightarrow> lower_inits env lower_e lower_s base inits lw | _ \<Rightarrow> None)"

text \<open>Where a literal is built: in a slot that is released later when its type owns something.\<close>

definition lower_home :: "lower_env \<Rightarrow> gtype option \<Rightarrow> span \<Rightarrow> lowering \<Rightarrow> nat \<times> lowering" where
  "lower_home env t sp lw =
     (if mir_type_needs_drop (le_registry env) t then lower_temp_slot t sp lw else lower_temp t sp lw)"

definition lower_struct_lit ::
  "lower_env \<Rightarrow> (rexpr \<Rightarrow> place \<Rightarrow> lowering \<Rightarrow> lowering option) \<Rightarrow> rexpr \<Rightarrow> nat lowers" where
  "lower_struct_lit env lower_s e lw =
     (let (result, lw1) = lower_home env (type_at env e) (expr_span e) lw
      in map_option (\<lambda>lw2. (result, lw2)) (lower_s e (mir_place_of result None) lw1))"

fun lower_elements ::
  "lower_env \<Rightarrow> (rexpr \<Rightarrow> nat lowers) \<Rightarrow> place \<Rightarrow> nat \<Rightarrow> rexpr list \<Rightarrow> lowering \<Rightarrow> lowering option" where
  "lower_elements env lower_e base i [] lw = Some lw"
| "lower_elements env lower_e base i (e # es) lw =
     (let (index, lw1) = lower_temp (i32_type_of env) (expr_span e) lw;
          lw2 = emit ((inst_of MIR_CONST_INT (i32_type_of env) index (expr_span e))
                  \<lparr>mi_constant := Constant None (Const_int (scast (of_nat i :: int32_t)))\<rparr>) lw1
      in do {
        (v, lw3) \<leftarrow> lower_e e lw2;
        let (w, lw4) = lower_moved_temp v (type_at env e) (expr_span e) lw3;
            slot = mir_place_project base \<lparr>pr_kind = PROJ_INDEX, pr_id = index, pr_type = type_at env e\<rparr>
        in lower_elements env lower_e base (Suc i) es (lower_store_to slot w (type_at env e) (expr_span e) lw4) })"

definition lower_array_lit :: "lower_env \<Rightarrow> (rexpr \<Rightarrow> nat lowers) \<Rightarrow> rexpr \<Rightarrow> rexpr list \<Rightarrow> nat lowers" where
  "lower_array_lit env lower_e e elements lw =
     (let (result, lw1) = lower_home env (type_at env e) (expr_span e) lw
      in map_option (\<lambda>lw2. (result, lw2)) (lower_elements env lower_e (mir_place_of result None) 0 elements lw1))"

section \<open>Expressions\<close>

fun is_size_of :: "rexpr \<Rightarrow> bool" where
  "is_size_of (EXPR_BUILTIN nd name t) = True"
| "is_size_of (EXPR_CALL nd t args) = is_builtin t"
| "is_size_of _ = False"

definition lower_answered :: "lower_env \<Rightarrow> rexpr \<Rightarrow> const \<Rightarrow> lowering \<Rightarrow> nat \<times> lowering" where
  "lower_answered env e answered lw =
     (if is_size_of e \<and> type_has_param (ct_type answered) then
        let counted = type_registry_get_primitive (le_registry env) TYPE_USIZE;
            (result, lw1) = lower_temp counted (expr_span e) lw
        in (result, emit (inst_of MIR_SIZE_OF (ct_type answered) result (expr_span e)) lw1)
      else
        let (result, lw1) = lower_temp (ct_type answered) (expr_span e) lw;
            lw2 = emit ((inst_of MIR_CONST_INT (ct_type answered) result (expr_span e))
                    \<lparr>mi_constant := Constant None (Const_int (as_int (ct_value answered)))\<rparr>) lw1
        in (result, lower_note_constant result answered lw2))"

text \<open>Reading the place an expression names.\<close>

definition lower_read :: "lower_env \<Rightarrow> (rexpr \<Rightarrow> place lowers) \<Rightarrow> rexpr \<Rightarrow> nat lowers" where
  "lower_read env lower_p e lw =
     do { (place, lw1) \<leftarrow> lower_p e lw;
          Some (lower_load_from place (type_at env e)
            (if fact_moves (le_facts env) (expr_at e) then READ_MOVE else READ_COPY) (expr_span e) lw1) }"

definition lower_addr_of :: "lower_env \<Rightarrow> (rexpr \<Rightarrow> place lowers) \<Rightarrow> rexpr \<Rightarrow> rexpr \<Rightarrow> nat lowers" where
  "lower_addr_of env lower_p e target lw =
     (let (result, lw1) = lower_temp (type_at env e) (expr_span e) lw
      in do { (place, lw2) \<leftarrow> lower_p target lw1;
              Some (result, emit ((inst_of MIR_REF (type_at env e) result (expr_span e))\<lparr>mi_place := place\<rparr>) lw2) })"

definition lower_unadjusted ::
  "lower_env \<Rightarrow> (rexpr \<Rightarrow> nat lowers) \<Rightarrow> (rexpr \<Rightarrow> place lowers) \<Rightarrow> (rexpr \<Rightarrow> place \<Rightarrow> lowering \<Rightarrow> lowering option) \<Rightarrow>
   rexpr \<Rightarrow> nat lowers" where
  "lower_unadjusted env lower_e lower_p lower_s e lw =
     (case fact_constant_of (le_facts env) (expr_at e) of
        Some answered \<Rightarrow> Some (lower_answered env e answered lw)
      | None \<Rightarrow>
          (case e of
             EXPR_LITERAL nd lit \<Rightarrow> Some (lower_literal env e lit lw)
           | EXPR_BIN_OP nd a op b \<Rightarrow> lower_bin_op env lower_e e a op b lw
           | EXPR_CALL nd t args \<Rightarrow> lower_call env lower_e lower_p e lw
           | EXPR_STRUCT_LIT nd t inits \<Rightarrow> lower_struct_lit env lower_s e lw
           | EXPR_ARRAY_LIT nd elements \<Rightarrow> lower_array_lit env lower_e e elements lw
           | EXPR_NEG nd t \<Rightarrow> lower_unary env lower_e MIR_NEG e t lw
           | EXPR_NOT nd t \<Rightarrow> lower_unary env lower_e MIR_NOT e t lw
           | EXPR_ADDR_OF nd t \<Rightarrow> lower_addr_of env lower_p e t lw
           | EXPR_BUILTIN nd name t \<Rightarrow> Some (lw_caller_location lw, lw)
           | EXPR_NAME nd name owner \<Rightarrow>
               (let v = local_value lw (fact_use_of (le_facts env) (expr_at e))
                in if \<not> mir_value_is_none v \<and> \<not> fact_moves (le_facts env) (expr_at e) then Some (v, lw)
                   else lower_read env lower_p e lw)
           | _ \<Rightarrow> lower_read env lower_p e lw))"

definition deref_projection :: "gtype option \<Rightarrow> projection" where
  "deref_projection t = \<lparr>pr_kind = PROJ_DEREF, pr_id = 0, pr_type = t\<rparr>"

definition lower_adjusted_place :: "(rexpr \<Rightarrow> place lowers) \<Rightarrow> rexpr \<Rightarrow> adjustment \<Rightarrow> place lowers" where
  "lower_adjusted_place lower_p e adj lw =
     do { (place, lw1) \<leftarrow> lower_p e lw;
          Some (fold (\<lambda>t place. mir_place_project place (deref_projection t)) (ad_deref_types adj) place, lw1) }"

text \<open>A value made first, then read or borrowed from the place reached.\<close>

definition lower_reached :: "(rexpr \<Rightarrow> place lowers) \<Rightarrow> mir_op \<Rightarrow> gtype option \<Rightarrow> rexpr \<Rightarrow> adjustment \<Rightarrow> nat lowers" where
  "lower_reached lower_p op t e adj lw =
     (let (result, lw1) = lower_temp t (expr_span e) lw
      in do { (place, lw2) \<leftarrow> lower_adjusted_place lower_p e adj lw1;
              Some (result, emit ((inst_of op t result (expr_span e))\<lparr>mi_place := place\<rparr>) lw2) })"

definition lower_unsize :: "lower_env \<Rightarrow> (rexpr \<Rightarrow> place lowers) \<Rightarrow> rexpr \<Rightarrow> adjustment \<Rightarrow> nat lowers" where
  "lower_unsize env lower_p e adj lw =
     (let reached = (if ad_deref_types adj = [] then type_at env e else last (ad_deref_types adj));
          elements = Some (type_registry_raw_of (le_registry env) reached)
      in do {
        (data, lw1) \<leftarrow> lower_reached lower_p MIR_REF elements e adj lw;
        let (len, lw2) = lower_temp (i32_type_of env) (expr_span e) lw1;
            lw3 = emit ((inst_of MIR_CONST_INT (i32_type_of env) len (expr_span e))
                    \<lparr>mi_constant := Constant None (Const_int (scast (ad_length adj)))\<rparr>) lw2;
            (result, lw4) = lower_temp (ad_to adj) (expr_span e) lw3
        in Some (result, emit ((inst_of MIR_MAKE_SLICE (ad_to adj) result (expr_span e))\<lparr>mi_args := lower_args [data, len]\<rparr>) lw4) })"

definition expr_step ::
  "lower_env \<Rightarrow> (rexpr \<Rightarrow> nat lowers) \<Rightarrow> (rexpr \<Rightarrow> place lowers) \<Rightarrow> (rexpr \<Rightarrow> place \<Rightarrow> lowering \<Rightarrow> lowering option) \<Rightarrow>
   rexpr \<Rightarrow> nat lowers" where
  "expr_step env lower_e lower_p lower_s e lw =
     (let adj = fact_adjustment (le_facts env) (expr_at e)
      in case ad_kind adj of
           ADJUST_UNSIZE \<Rightarrow> lower_unsize env lower_p e adj lw
         | ADJUST_BORROW \<Rightarrow> lower_reached lower_p MIR_REF (ad_to adj) e adj lw
         | ADJUST_NONE \<Rightarrow>
             (if ad_deref_types adj = [] then lower_unadjusted env lower_e lower_p lower_s e lw
              else lower_reached lower_p MIR_LOAD (last (ad_deref_types adj)) e adj lw))"

fun lower_expr :: "nat \<Rightarrow> lower_env \<Rightarrow> rexpr \<Rightarrow> nat lowers"
  and lower_place :: "nat \<Rightarrow> lower_env \<Rightarrow> rexpr \<Rightarrow> place lowers"
  and lower_into :: "nat \<Rightarrow> lower_env \<Rightarrow> rexpr \<Rightarrow> place \<Rightarrow> lowering \<Rightarrow> lowering option" where
  "lower_expr 0 env e lw = None"
| "lower_expr (Suc n) env e lw = expr_step env (lower_expr n env) (lower_place n env) (lower_into n env) e lw"
| "lower_place 0 env e lw = None"
| "lower_place (Suc n) env e lw =
     place_step env (lower_expr n env) (lower_place n env) (lower_call env (lower_expr n env) (lower_place n env)) e lw"
| "lower_into 0 env e base lw = None"
| "lower_into (Suc n) env e base lw = into_step env (lower_expr n env) (lower_into n env) e base lw"

section \<open>Statements\<close>

text \<open>The type of a local that may have to be released: of a temporary the type of its value, of a
  variable its own.\<close>

definition local_type :: "lower_env \<Rightarrow> lowering \<Rightarrow> nat option \<times> nat \<Rightarrow> gtype option option" where
  "local_type env lw = (\<lambda>(binding, v).
     (case binding of
        None \<Rightarrow> Some (case mir_value_info_at (lw_ir lw) v of Some info \<Rightarrow> vi_type info | None \<Rightarrow> None)
      | Some s \<Rightarrow>
          do { sym \<leftarrow> symbol_of env s;
               Some (case sy_shape sym of SYMBOL_VAR t \<Rightarrow> t | _ \<Rightarrow> None) }))"

definition lower_release :: "lower_env \<Rightarrow> span \<Rightarrow> nat option \<times> nat \<Rightarrow> lowering \<Rightarrow> lowering option" where
  "lower_release env sp l lw =
     do { t \<leftarrow> local_type env lw l;
          if t \<noteq> None \<and> mir_type_needs_drop (le_registry env) t
          then Some (emit ((inst_of MIR_DROP t MIR_NO_VALUE sp)\<lparr>mi_place := mir_place_of (snd l) (fst l)\<rparr>) lw)
          else Some lw }"

fun scope_end_loop :: "lower_env \<Rightarrow> span \<Rightarrow> (nat option \<times> nat) list \<Rightarrow> lowering \<Rightarrow> lowering option" where
  "scope_end_loop env sp [] lw = Some lw"
| "scope_end_loop env sp (l # ls) lw =
     do { lw1 \<leftarrow> lower_release env sp l (lw\<lparr>lw_locals := butlast (lw_locals lw)\<rparr>);
          t \<leftarrow> var_type_of env (fst l);
          scope_end_loop env sp ls
            (emit ((inst_of MIR_STORAGE_DEAD t MIR_NO_VALUE sp)\<lparr>mi_place := mir_place_of (snd l) (fst l)\<rparr>) lw1) }"

definition lower_scope_end :: "lower_env \<Rightarrow> nat \<Rightarrow> span \<Rightarrow> lowering \<Rightarrow> lowering option" where
  "lower_scope_end env outer sp lw =
     (if mir_block_is_terminated (mf_blocks (lw_ir lw) ! lw_block lw) then Some (lw\<lparr>lw_locals := take outer (lw_locals lw)\<rparr>)
      else scope_end_loop env sp (rev (drop outer (lw_locals lw))) lw)"

text \<open>The loops of \<^verbatim>\<open>lower_return\<close> and of a jump, which leave the locals as they are.\<close>

fun lower_releases :: "lower_env \<Rightarrow> span \<Rightarrow> (nat option \<times> nat) list \<Rightarrow> lowering \<Rightarrow> lowering option" where
  "lower_releases env sp [] lw = Some lw"
| "lower_releases env sp (l # ls) lw = do { lw1 \<leftarrow> lower_release env sp l lw; lower_releases env sp ls lw1 }"

definition lower_var_decl ::
  "lower_env \<Rightarrow> (rexpr \<Rightarrow> nat lowers) \<Rightarrow> (rexpr \<Rightarrow> place \<Rightarrow> lowering \<Rightarrow> lowering option) \<Rightarrow> span \<Rightarrow> (nat, node) ast_ident \<Rightarrow>
   rexpr option \<Rightarrow> lowering \<Rightarrow> lowering option" where
  "lower_var_decl env lower_e lower_s sp name initializer lw =
     (let binding = fact_def_of (le_facts env) (nd_at (id_span name))
      in do {
        t \<leftarrow> var_type_of env binding;
        let (local, ir) = mir_value_create (lw_ir lw) t binding sp;
            lw1 = bind_local binding local (lw\<lparr>lw_ir := ir\<rparr>);
            place = mir_place_of local binding;
            lw2 = emit ((inst_of MIR_STORAGE_LIVE t MIR_NO_VALUE sp)\<lparr>mi_place := place\<rparr>) lw1
        in (case initializer of
              None \<Rightarrow> Some lw2
            | Some e \<Rightarrow>
                if is_struct_lit e then
                  lower_s e place (emit ((inst_of MIR_STORAGE_INIT (type_at env e) MIR_NO_VALUE sp)\<lparr>mi_place := place\<rparr>) lw2)
                else do {
                  (v, lw3) \<leftarrow> lower_e e lw2;
                  let (w, lw4) = lower_moved_temp v (type_at env e) sp lw3
                  in Some (lower_store_to place w (type_at env e) sp lw4) }) })"

text \<open>What an assignment through a place overwrites is released after the store, except behind a raw
  run.\<close>

fun assigned_container :: "rexpr \<Rightarrow> rexpr option" where
  "assigned_container (EXPR_DEREF nd t) = Some t"
| "assigned_container (EXPR_INDEX nd t i) = Some t"
| "assigned_container _ = None"

fun is_part :: "rexpr \<Rightarrow> bool" where
  "is_part (EXPR_FIELD nd t name) = True"
| "is_part (EXPR_DEREF nd t) = True"
| "is_part (EXPR_INDEX nd t i) = True"
| "is_part _ = False"

definition through_a_raw_run :: "lower_env \<Rightarrow> rexpr \<Rightarrow> bool option" where
  "through_a_raw_run env target =
     (case assigned_container target of
        None \<Rightarrow> Some False
      | Some container \<Rightarrow> map_option (\<lambda>t. ty_kind t = TYPE_RAW) (type_at env container))"

definition lower_assign ::
  "lower_env \<Rightarrow> (rexpr \<Rightarrow> nat lowers) \<Rightarrow> (rexpr \<Rightarrow> place lowers) \<Rightarrow> span \<Rightarrow> rexpr \<Rightarrow> rexpr \<Rightarrow> lowering \<Rightarrow> lowering option" where
  "lower_assign env lower_e lower_p sp target e lw =
     do { raw \<leftarrow> through_a_raw_run env target;
          let overwrites_owned = is_part target \<and> \<not> raw \<and> mir_type_needs_drop (le_registry env) (type_at env target)
          in do {
            (place, lw1) \<leftarrow> lower_p target lw;
            let (held, lw2) = (if overwrites_owned then lower_load_from place (type_at env target) READ_COPY sp lw1
                               else (MIR_NO_VALUE, lw1))
            in do {
              (v, lw3) \<leftarrow> lower_e e lw2;
              let (w, lw4) = lower_moved_temp v (type_at env e) sp lw3;
                  lw5 = lower_store_to place w (type_at env e) sp lw4
              in Some (if overwrites_owned
                       then emit ((inst_of MIR_DROP (type_at env target) MIR_NO_VALUE sp)\<lparr>mi_place := mir_place_of held None\<rparr>) lw5
                       else lw5) } } }"

definition lower_compound_assign ::
  "lower_env \<Rightarrow> (rexpr \<Rightarrow> nat lowers) \<Rightarrow> (rexpr \<Rightarrow> place lowers) \<Rightarrow> span \<Rightarrow> rexpr \<Rightarrow> bin_op \<Rightarrow> rexpr \<Rightarrow> lowering \<Rightarrow> lowering option" where
  "lower_compound_assign env lower_e lower_p sp target op e lw =
     do { (place, lw1) \<leftarrow> lower_p target lw;
          let (left, lw2) = lower_load_from place (type_at env target) READ_COPY (expr_span target) lw1
          in do {
            (right, lw3) \<leftarrow> lower_e e lw2;
            let (result, lw4) = lower_temp (type_at env target) sp lw3;
                lw5 = emit ((inst_of (bin_op_to_ir op) (type_at env target) result sp)\<lparr>mi_args := lower_binary_args lw4 left right\<rparr>) lw4
            in Some (lower_store_to place result (type_at env target) sp lw5) } }"

definition lower_jump_stmt :: "lower_env \<Rightarrow> span \<Rightarrow> bool \<Rightarrow> lowering \<Rightarrow> lowering option" where
  "lower_jump_stmt env sp is_break lw =
     do { lw1 \<leftarrow> lower_releases env sp (rev (drop (lw_loop_local_floor lw) (lw_locals lw))) lw;
          let target = (if is_break then lw_break_target lw1 else lw_continue_target lw1)
          in Some (if mir_block_is_none target then lw1 else lower_jump target lw1) }"

text \<open>The tree of a return always has a result; that the code allows for one without is left out.\<close>

definition lower_return :: "lower_env \<Rightarrow> (rexpr \<Rightarrow> nat lowers) \<Rightarrow> span \<Rightarrow> rexpr \<Rightarrow> lowering \<Rightarrow> lowering option" where
  "lower_return env lower_e sp e lw =
     do { (v, lw1) \<leftarrow> lower_e e lw;
          let (w, lw2) = lower_moved_temp v (type_at env e) sp lw1
          in do { lw3 \<leftarrow> lower_releases env sp (rev (lw_locals lw2)) lw2;
                  Some (lower_terminator ((inst_of MIR_RETURN None MIR_NO_VALUE sp)\<lparr>mi_args := lower_args [w]\<rparr>) lw3) } }"

text \<open>A branch and a loop, over the functions for the statements in them; \<open>els\<close> says whether there is an else.\<close>

definition lower_if ::
  "(rexpr \<Rightarrow> nat lowers) \<Rightarrow> span \<Rightarrow> rexpr \<Rightarrow> (lowering \<Rightarrow> lowering option) \<Rightarrow> bool \<Rightarrow> (lowering \<Rightarrow> lowering option) \<Rightarrow>
   lowering \<Rightarrow> lowering option" where
  "lower_if lower_e sp c lower_then els lower_else lw =
     do { (condition, lw1) \<leftarrow> lower_e c lw;
          let (then_block, lw2) = lower_block lw1;
              (join, lw3) = lower_block lw2;
              (else_block, lw4) = (if els then lower_block lw3 else (join, lw3));
              lw5 = lower_branch condition then_block else_block sp lw4
          in do { lw6 \<leftarrow> lower_then (lower_into_block then_block lw5);
                  let lw7 = lower_jump join lw6
                  in (if els then
                        do { lw8 \<leftarrow> lower_else (lower_into_block else_block lw7);
                             Some (lower_into_block join (lower_jump join lw8)) }
                      else Some (lower_into_block join lw7)) } }"

definition lower_for ::
  "lower_env \<Rightarrow> (rexpr \<Rightarrow> nat lowers) \<Rightarrow> span \<Rightarrow> (lowering \<Rightarrow> lowering option) \<Rightarrow> rexpr option \<Rightarrow>
   (lowering \<Rightarrow> lowering option) \<Rightarrow> (lowering \<Rightarrow> lowering option) \<Rightarrow> lowering \<Rightarrow> lowering option" where
  "lower_for env lower_e sp lower_init condition lower_post lower_body lw =
     do { lw1 \<leftarrow> lower_init lw;
          let (header, lw2) = lower_block lw1;
              (inside, lw3) = lower_block lw2;
              (after, lw4) = lower_block lw3;
              (exit, lw5) = lower_block lw4;
              lw6 = lower_into_block header (lower_jump header lw5)
          in do {
            lw7 \<leftarrow> (case condition of
                 Some c \<Rightarrow> do { (v, lw7) \<leftarrow> lower_e c lw6; Some (lower_branch v inside exit sp lw7) }
               | None \<Rightarrow> Some (lower_jump inside lw6));
            lw8 \<leftarrow> lower_body (lower_into_block inside
                     (lw7\<lparr>lw_break_target := exit, lw_continue_target := after, lw_loop_local_floor := length (lw_locals lw7)\<rparr>));
            lw9 \<leftarrow> lower_post (lower_into_block after ((lower_jump after lw8)
                     \<lparr>lw_break_target := lw_break_target lw7, lw_continue_target := lw_continue_target lw7,
                      lw_loop_local_floor := lw_loop_local_floor lw7\<rparr>));
            lower_scope_end env (length (lw_locals lw)) sp (lower_into_block exit (lower_jump header lw9)) } }"

fun lower_stmt :: "nat \<Rightarrow> lower_env \<Rightarrow> rstmt \<Rightarrow> lowering \<Rightarrow> lowering option"
  and lower_opt :: "nat \<Rightarrow> lower_env \<Rightarrow> rstmt option \<Rightarrow> lowering \<Rightarrow> lowering option"
  and lower_stmts :: "nat \<Rightarrow> lower_env \<Rightarrow> rstmt list \<Rightarrow> lowering \<Rightarrow> lowering option" where
  "lower_stmt n env (STMT_EXPR nd e) lw = map_option snd (lower_expr n env e lw)"
| "lower_stmt n env (STMT_VAR_DECL nd name t initializer) lw =
     lower_var_decl env (lower_expr n env) (lower_into n env) (nd_span nd) name initializer lw"
| "lower_stmt n env (STMT_ASSIGN nd target e) lw =
     lower_assign env (lower_expr n env) (lower_place n env) (nd_span nd) target e lw"
| "lower_stmt n env (STMT_COMPOUND_ASSIGN nd target op e) lw =
     lower_compound_assign env (lower_expr n env) (lower_place n env) (nd_span nd) target op e lw"
| "lower_stmt n env (STMT_BLOCK nd ss) lw =
     do { lw1 \<leftarrow> lower_stmts n env ss lw;
          lower_scope_end env (length (lw_locals lw)) (nd_span nd) lw1 }"
| "lower_stmt n env (STMT_IF nd c then_stmt else_stmt) lw =
     lower_if (lower_expr n env) (nd_span nd) c (lower_stmt n env then_stmt) (else_stmt \<noteq> None) (lower_opt n env else_stmt) lw"
| "lower_stmt n env (STMT_FOR nd init condition post body) lw =
     lower_for env (lower_expr n env) (nd_span nd) (lower_opt n env init) condition (lower_opt n env post) (lower_stmt n env body) lw"
| "lower_stmt n env (STMT_JUMP nd is_break) lw = lower_jump_stmt env (nd_span nd) is_break lw"
| "lower_stmt n env (STMT_RETURN nd e) lw = lower_return env (lower_expr n env) (nd_span nd) e lw"
| "lower_stmt n env (STMT_FUNC_DECL nd d) lw = Some lw"
| "lower_stmt n env (STMT_STRUCT_DECL nd d) lw = Some lw"
| "lower_stmt n env (STMT_IMPL nd d) lw = Some lw"
| "lower_stmt n env (STMT_INTERFACE_DECL nd d) lw = Some lw"
| "lower_opt n env None lw = Some lw"
| "lower_opt n env (Some s) lw = lower_stmt n env s lw"
| "lower_stmts n env [] lw = Some lw"
| "lower_stmts n env (s # ss) lw = do { lw1 \<leftarrow> lower_stmt n env s lw; lower_stmts n env ss lw1 }"

section \<open>Functions\<close>

type_synonym rfield = "(nat, node) ast_field"

text \<open>The values of the parameters, by the types of the signature.\<close>

fun lower_params :: "lower_env \<Rightarrow> rfield list \<Rightarrow> gtype option list \<Rightarrow> lowering \<Rightarrow> lowering option" where
  "lower_params env [] ts lw = Some lw"
| "lower_params env (p # ps) (t # ts) lw =
     (let binding = fact_def_of (le_facts env) (nd_at (id_span (fd_field_name p)));
          (v, ir) = mir_value_create (lw_ir lw) t binding (nd_span (id_span (fd_field_name p)))
      in lower_params env ps ts (bind_local binding v (lw\<lparr>lw_ir := ir\<lparr>mf_params := mf_params ir @ [v]\<rparr>\<rparr>)))"
| "lower_params env (p # ps) [] lw = None"

definition lower_start :: "nat \<Rightarrow> lowering" where
  "lower_start function =
     (let ir = mir_function_create (Some function)
      in \<lparr>lw_ir = ir, lw_block = mf_entry ir, lw_locals = [], lw_temp_slots = [], lw_break_target = MIR_NO_BLOCK,
          lw_continue_target = MIR_NO_BLOCK, lw_loop_local_floor = 0, lw_constants = Map.empty,
          lw_caller_location = MIR_NO_VALUE\<rparr>)"

definition lower_caller_location :: "gfunction \<Rightarrow> rstmt option \<Rightarrow> lowering \<Rightarrow> lowering" where
  "lower_caller_location g body lw =
     (if fd_modifiers (fn_decl g) AND FUNC_MOD_CALLER = 0 then lw
      else let (v, ir) = mir_value_create (lw_ir lw) (fd_location_type (fn_decl g)) None
                 (case body of Some s \<Rightarrow> stmt_span s | None \<Rightarrow> zero_span)
           in lw\<lparr>lw_ir := ir\<lparr>mf_params := mf_params ir @ [v]\<rparr>, lw_caller_location := v\<rparr>)"

definition mir_build_function :: "nat \<Rightarrow> lower_env \<Rightarrow> nat \<Rightarrow> rfield list \<Rightarrow> rstmt option \<Rightarrow> mir_function option" where
  "mir_build_function n env function params body =
     do { g \<leftarrow> function_at env function;
          lw1 \<leftarrow> lower_params env params (fs_params (fn_signature g)) (lower_start function);
          let lw2 = lower_caller_location g body lw1
          in do { lw3 \<leftarrow> lower_opt n env body (lw2\<lparr>lw_loop_local_floor := length (lw_locals lw2)\<rparr>);
                  Some (lw_ir (lower_terminator (inst_of MIR_RETURN None MIR_NO_VALUE zero_span) lw3)) } }"

end
