(* ===== verification/Lower_Inv.thy ===== *)
theory Lower_Inv
  imports Mir_Lower_Body Fold_Correct Drop_Correct Borrowck_Ends "HOL-Library.Multiset"
begin

text \<open>
  Lowering is total on resolved trees and what it makes is well formed.  \<open>lw_ok\<close> is the invariant of the
  record \<open>lowering\<close>: the block being filled exists, the blocks that are neither filled nor waiting (\<open>P\<close>)
  end in a terminator, every instruction is sound, no value is the result of two of them, and the values
  set aside for a result (\<open>R\<close>) are the result of none yet.  \<open>gives\<close> and \<open>leaves\<close> say that a step answers and
  what holds then.
\<close>

section \<open>Answers\<close>

definition gives :: "('a \<times> lowering) option \<Rightarrow> ('a \<Rightarrow> lowering \<Rightarrow> bool) \<Rightarrow> bool" where
  "gives r Q \<longleftrightarrow> (\<exists>v lw. r = Some (v, lw) \<and> Q v lw)"

definition leaves :: "lowering option \<Rightarrow> (lowering \<Rightarrow> bool) \<Rightarrow> bool" where
  "leaves r Q \<longleftrightarrow> (\<exists>lw. r = Some lw \<and> Q lw)"

lemma gives_Some [simp]: "gives (Some (v, lw)) Q \<longleftrightarrow> Q v lw"
  by (simp add: gives_def)

lemma leaves_Some [simp]: "leaves (Some lw) Q \<longleftrightarrow> Q lw"
  by (simp add: leaves_def)

lemma gives_mono: "gives r Q \<Longrightarrow> (\<And>v lw. Q v lw \<Longrightarrow> Q' v lw) \<Longrightarrow> gives r Q'"
  by (auto simp: gives_def)

lemma leaves_mono: "leaves r Q \<Longrightarrow> (\<And>lw. Q lw \<Longrightarrow> Q' lw) \<Longrightarrow> leaves r Q'"
  by (auto simp: leaves_def)

lemma gives_bind: "gives r (\<lambda>v lw. gives (f v lw) Q) \<Longrightarrow> gives (Option.bind r (\<lambda>(v, lw). f v lw)) Q"
  by (auto simp: gives_def)

lemma gives_then: "leaves r (\<lambda>lw. gives (f lw) Q) \<Longrightarrow> gives (Option.bind r f) Q"
  by (auto simp: gives_def leaves_def)

lemma leaves_bind: "gives r (\<lambda>v lw. leaves (f v lw) Q) \<Longrightarrow> leaves (Option.bind r (\<lambda>(v, lw). f v lw)) Q"
  by (auto simp: gives_def leaves_def)

lemma leaves_then: "leaves r (\<lambda>lw. leaves (f lw) Q) \<Longrightarrow> leaves (Option.bind r f) Q"
  by (auto simp: leaves_def)

lemma gives_pair: "leaves r (\<lambda>lw. Q v lw) \<Longrightarrow> gives (map_option (\<lambda>lw. (v, lw)) r) Q"
  by (auto simp: gives_def leaves_def)

section \<open>The invariant\<close>

abbreviation nv :: "lowering \<Rightarrow> nat" where "nv lw \<equiv> length (mf_values (lw_ir lw))"
abbreviation nb :: "lowering \<Rightarrow> nat" where "nb lw \<equiv> length (mf_blocks (lw_ir lw))"

definition insts :: "lowering \<Rightarrow> mir_inst list" where
  "insts lw = concat (mf_blocks (lw_ir lw))"

definition value_ok :: "nat \<Rightarrow> nat \<Rightarrow> bool" where
  "value_ok n v \<longleftrightarrow> mir_value_is_none v \<or> v < n"

text \<open>Targets are blocks, values exist, an instruction reads values older than its result, and there are
  no drop flags yet.\<close>

definition inst_ok :: "nat \<Rightarrow> nat \<Rightarrow> mir_inst \<Rightarrow> bool" where
  "inst_ok blocks vals i \<longleftrightarrow>
     (mi_op i = MIR_JMP \<longrightarrow> fst (mi_targets i) < blocks) \<and>
     (mi_op i = MIR_BRANCH \<longrightarrow> fst (mi_targets i) < blocks \<and> snd (mi_targets i) < blocks) \<and>
     value_ok vals (mi_result i) \<and> (mir_op_has_place (mi_op i) \<longrightarrow> value_ok vals (pl_base (mi_place i))) \<and>
     (\<forall>a \<in> set (mi_args i). value_ok vals (mir_operand_as_value a) \<and>
        (\<not> mir_value_is_none (mi_result i) \<longrightarrow> value_ok (mi_result i) (mir_operand_as_value a))) \<and>
     mi_flag i = 0 \<and> mi_op i \<noteq> MIR_DROP_FLAG"

definition binding_ok :: "lower_env \<Rightarrow> nat option \<Rightarrow> bool" where
  "binding_ok env binding \<longleftrightarrow>
     (\<forall>s. binding = Some s \<longrightarrow> (\<exists>sym t. symbol_of env s = Some sym \<and> sy_shape sym = SYMBOL_VAR t))"

definition lw_ok :: "lower_env \<Rightarrow> nat set \<Rightarrow> nat set \<Rightarrow> lowering \<Rightarrow> bool" where
  "lw_ok env P R lw \<longleftrightarrow>
     lw_block lw < nb lw \<and> lw_block lw \<notin> P \<and> P \<subseteq> {..<nb lw} \<and>
     (\<forall>b < nb lw. b \<noteq> lw_block lw \<longrightarrow> b \<notin> P \<longrightarrow> mir_block_is_terminated (mf_blocks (lw_ir lw) ! b)) \<and>
     (\<forall>i \<in> set (insts lw). inst_ok (nb lw) (nv lw) i) \<and> distinct (results_of (insts lw)) \<and>
     R \<subseteq> {..<nv lw} \<and> R \<inter> set (results_of (insts lw)) = {} \<and>
     (\<forall>(b, v) \<in> set (lw_locals lw). v < nv lw \<and> binding_ok env b) \<and> value_ok (nv lw) (lw_caller_location lw) \<and>
     (\<forall>t \<in> {lw_break_target lw, lw_continue_target lw}. mir_block_is_none t \<or> t < nb lw) \<and> mf_entry (lw_ir lw) < nb lw"

definition grown :: "lowering \<Rightarrow> lowering \<Rightarrow> bool" where
  "grown lw lw' \<longleftrightarrow> nv lw \<le> nv lw' \<and> nb lw \<le> nb lw'"

lemma grown_refl [simp]: "grown lw lw" by (simp add: grown_def)

lemma grown_trans [trans]: "grown a b \<Longrightarrow> grown b c \<Longrightarrow> grown a c" by (simp add: grown_def)

lemma value_ok_none [simp]: "value_ok n MIR_NO_VALUE"
  by (simp add: value_ok_def mir_value_is_none_def MIR_NO_VALUE_def)

lemma value_ok_mono: "value_ok n v \<Longrightarrow> n \<le> m \<Longrightarrow> value_ok m v"
  by (auto simp: value_ok_def)

lemma value_ok_grown: "value_ok (nv lw) v \<Longrightarrow> grown lw lw' \<Longrightarrow> value_ok (nv lw') v"
  by (auto simp: grown_def intro: value_ok_mono)

lemma inst_ok_mono: "inst_ok b v i \<Longrightarrow> b \<le> b' \<Longrightarrow> v \<le> v' \<Longrightarrow> inst_ok b' v' i"
  unfolding inst_ok_def by (auto intro: value_ok_mono)

section \<open>Single steps\<close>

lemma results_of_mset: "mset (results_of is) = filter_mset (\<lambda>v. \<not> mir_value_is_none v) (image_mset mi_result (mset is))"
  by (simp add: results_of_def mset_filter)

lemma mset_concat_update:
  "b < length bs \<Longrightarrow> mset (concat (bs[b := bs ! b @ [i]])) = add_mset i (mset (concat bs))"
  by (induction bs arbitrary: b) (auto simp: nth_Cons split: nat.split)

lemma insts_emit:
  assumes "lw_block lw < nb lw"
  shows "mset (insts (emit i lw)) = add_mset i (mset (insts lw))"
  using assms by (simp add: insts_def emit_def mir_emit_def mset_concat_update)

lemma emit_fields [simp]:
  "mf_values (lw_ir (emit i lw)) = mf_values (lw_ir lw)" "nb (emit i lw) = nb lw" "lw_block (emit i lw) = lw_block lw"
  "lw_locals (emit i lw) = lw_locals lw" "lw_caller_location (emit i lw) = lw_caller_location lw"
  "lw_break_target (emit i lw) = lw_break_target lw" "lw_continue_target (emit i lw) = lw_continue_target lw"
  "lw_loop_local_floor (emit i lw) = lw_loop_local_floor lw" "mf_entry (lw_ir (emit i lw)) = mf_entry (lw_ir lw)"
  by (simp_all add: emit_def mir_emit_def)

lemma lw_okD:
  assumes "lw_ok env P R lw"
  shows "lw_block lw < nb lw" "lw_block lw \<notin> P" "P \<subseteq> {..<nb lw}"
    "\<And>b. b < nb lw \<Longrightarrow> b \<noteq> lw_block lw \<Longrightarrow> b \<notin> P \<Longrightarrow> mir_block_is_terminated (mf_blocks (lw_ir lw) ! b)"
    "\<And>i. i \<in> set (insts lw) \<Longrightarrow> inst_ok (nb lw) (nv lw) i" "distinct (results_of (insts lw))"
    "R \<subseteq> {..<nv lw}" "R \<inter> set (results_of (insts lw)) = {}"
    "\<And>b v. (b, v) \<in> set (lw_locals lw) \<Longrightarrow> v < nv lw \<and> binding_ok env b" "value_ok (nv lw) (lw_caller_location lw)"
    "mir_block_is_none (lw_break_target lw) \<or> lw_break_target lw < nb lw"
    "mir_block_is_none (lw_continue_target lw) \<or> lw_continue_target lw < nb lw" "mf_entry (lw_ir lw) < nb lw"
  using assms unfolding lw_ok_def by blast+

lemma emit_lw_ok:
  assumes ok: "lw_ok env P R lw" and i: "inst_ok (nb lw) (nv lw) i"
    and r: "mir_value_is_none (mi_result i) \<or> mi_result i \<in> R - R'" "R' \<subseteq> R"
  shows "lw_ok env P R' (emit i lw)"
proof -
  note o = lw_okD [OF ok]
  have m: "mset (results_of (insts (emit i lw))) =
      (if mir_value_is_none (mi_result i) then mset (results_of (insts lw)) else add_mset (mi_result i) (mset (results_of (insts lw))))"
    by (simp add: results_of_mset insts_emit [OF o(1)])
  have d: "distinct (results_of (insts (emit i lw))) \<and> R' \<inter> set (results_of (insts (emit i lw))) = {}"
  proof (cases "mir_value_is_none (mi_result i)")
    case True
    then have e: "mset (results_of (insts (emit i lw))) = mset (results_of (insts lw))" using m by simp
    show ?thesis using mset_eq_imp_distinct_iff [OF e] mset_eq_setD [OF e] o(6,8) r(2) by blast
  next
    case False
    then have e: "mset (results_of (insts (emit i lw))) = mset (mi_result i # results_of (insts lw))" using m by simp
    have "mi_result i \<notin> set (results_of (insts lw))" "mi_result i \<notin> R'" using r(1) False o(8) by blast+
    then show ?thesis using mset_eq_imp_distinct_iff [OF e] mset_eq_setD [OF e] o(6,8) r(2) by auto
  qed
  have all: "set (insts (emit i lw)) = insert i (set (insts lw))"
    using arg_cong [OF insts_emit [OF o(1), of i], of set_mset] by simp
  have t: "mf_blocks (lw_ir (emit i lw)) ! b = mf_blocks (lw_ir lw) ! b" if "b \<noteq> lw_block lw" for b
    using that by (simp add: emit_def mir_emit_def)
  show ?thesis unfolding lw_ok_def emit_fields all
  proof (intro conjI)
    show "\<forall>b < nb lw. b \<noteq> lw_block lw \<longrightarrow> b \<notin> P \<longrightarrow> mir_block_is_terminated (mf_blocks (lw_ir (emit i lw)) ! b)"
      using o(4) t by simp
    show "\<forall>j \<in> insert i (set (insts lw)). inst_ok (nb lw) (nv lw) j" using o(5) i by blast
  qed (use o d r(2) in blast)+
qed

lemma emit_effect:
  "lw_ok env P R lw \<Longrightarrow> inst_ok (nb lw) (nv lw) i \<Longrightarrow> mir_value_is_none (mi_result i) \<Longrightarrow> lw_ok env P R (emit i lw)"
  by (rule emit_lw_ok) auto

lemma emit_result:
  "lw_ok env P (insert r R) lw \<Longrightarrow> inst_ok (nb lw) (nv lw) i \<Longrightarrow> mi_result i = r \<Longrightarrow> r \<notin> R \<Longrightarrow> lw_ok env P R (emit i lw)"
  by (rule emit_lw_ok) auto

lemma grown_emit [simp]: "grown lw (emit i lw')  \<longleftrightarrow> grown lw lw'"
  by (simp add: grown_def)

text \<open>A fresh value is set aside for its result.\<close>

lemma value_create_ok:
  assumes ok: "lw_ok env P R lw" and m: "mir_value_create (lw_ir lw) t binding sp = (r, ir)"
  shows "lw_ok env P (insert r R) (lw\<lparr>lw_ir := ir\<rparr>) \<and> r \<notin> R \<and> r = nv lw \<and> length (mf_values ir) = Suc (nv lw) \<and>
    length (mf_blocks ir) = nb lw \<and> grown lw (lw\<lparr>lw_ir := ir\<rparr>)"
proof -
  note o = lw_okD [OF ok]
  let ?lw = "lw\<lparr>lw_ir := ir\<rparr>"
  have ir: "r = nv lw" "mf_blocks ir = mf_blocks (lw_ir lw)" "length (mf_values ir) = Suc (nv lw)" "mf_entry ir = mf_entry (lw_ir lw)"
    using m by (auto simp: mir_value_create_def)
  have e: "insts ?lw = insts lw" "nb ?lw = nb lw" "nv ?lw = Suc (nv lw)" by (simp_all add: insts_def ir)
  have fresh: "r \<notin> set (results_of (insts lw))"
  proof
    assume "r \<in> set (results_of (insts lw))"
    then obtain i where "i \<in> set (insts lw)" "mi_result i = r" "\<not> mir_value_is_none r" by (auto simp: results_of_def)
    then show False using o(5) [of i] by (auto simp: inst_ok_def value_ok_def ir)
  qed
  have "lw_ok env P (insert r R) ?lw" unfolding lw_ok_def e
  proof (intro conjI)
    show "\<forall>i \<in> set (insts lw). inst_ok (nb lw) (Suc (nv lw)) i"
      using o(5) inst_ok_mono [of "nb lw" "nv lw" _ "nb lw" "Suc (nv lw)"] by simp
    show "insert r R \<inter> set (results_of (insts lw)) = {}" using fresh o(8) by blast
    show "value_ok (Suc (nv lw)) (lw_caller_location ?lw)" using o(10) by (auto intro: value_ok_mono)
    show "\<forall>(b, v) \<in> set (lw_locals ?lw). v < Suc (nv lw) \<and> binding_ok env b" using o(9) by (auto simp: less_Suc_eq)
    show "insert r R \<subseteq> {..<Suc (nv lw)}" using o(7) ir(1) by (auto simp: less_Suc_eq)
  qed (use o in \<open>auto simp: ir\<close>)
  then show ?thesis using o(7) e by (auto simp: ir grown_def)
qed

lemma lower_temp_ok:
  assumes "lw_ok env P R lw"
  obtains r lw' where "lower_temp t sp lw = (r, lw')" "lw_ok env P (insert r R) lw'" "r \<notin> R" "r = nv lw"
    "nv lw' = Suc (nv lw)" "nb lw' = nb lw" "grown lw lw'" "lw_locals lw' = lw_locals lw"
    "lw_caller_location lw' = lw_caller_location lw" "lw_constants lw' = lw_constants lw"
proof -
  obtain r ir where m: "mir_value_create (lw_ir lw) t None sp = (r, ir)" by fastforce
  show thesis using value_create_ok [OF assms m] m
    by (intro that [of r "lw\<lparr>lw_ir := ir\<rparr>"]) (auto simp: lower_temp_def)
qed

text \<open>A value set aside need not become a result.\<close>

lemma lw_ok_unreserve: "lw_ok env P R lw \<Longrightarrow> R' \<subseteq> R \<Longrightarrow> lw_ok env P R' lw"
  unfolding lw_ok_def by (elim conjE, intro conjI) (assumption | blast)+

lemma update_lw_ok:
  assumes "lw_ok env P R lw" "lw_ir lw' = lw_ir lw" "lw_block lw' = lw_block lw" "set (lw_locals lw') \<subseteq> set (lw_locals lw)"
    "lw_caller_location lw' = lw_caller_location lw" "lw_break_target lw' = lw_break_target lw"
    "lw_continue_target lw' = lw_continue_target lw"
  shows "lw_ok env P R lw'"
  using assms unfolding lw_ok_def insts_def by auto

lemma note_constant_ok [simp]:
  "lw_ir (lower_note_constant v c lw) = lw_ir lw" "lw_block (lower_note_constant v c lw) = lw_block lw"
  "lw_locals (lower_note_constant v c lw) = lw_locals lw" "lw_caller_location (lower_note_constant v c lw) = lw_caller_location lw"
  "lw_break_target (lower_note_constant v c lw) = lw_break_target lw"
  "lw_continue_target (lower_note_constant v c lw) = lw_continue_target lw"
  by (simp_all add: lower_note_constant_def)

lemma bind_local_ok:
  assumes "lw_ok env P R lw" "v < nv lw" "binding_ok env b"
  shows "lw_ok env P R (bind_local b v lw)"
  using assms unfolding lw_ok_def insts_def bind_local_def by auto

lemma bind_local_fields [simp]:
  "lw_ir (bind_local b v lw) = lw_ir lw" "lw_block (bind_local b v lw) = lw_block lw"
  "lw_locals (bind_local b v lw) = lw_locals lw @ [(b, v)]"
  by (simp_all add: bind_local_def)

text \<open>The instructions lowering makes are checked by unfolding.\<close>

lemmas inst_defs = inst_ok_def inst_of_def zero_place_def mir_operand_value_def lower_args_def mir_place_of_def

lemma none_result [simp]: "mir_value_is_none MIR_NO_VALUE"
  by (simp add: mir_value_is_none_def MIR_NO_VALUE_def)

lemma temp_slot_ok:
  assumes "lw_ok env P R lw"
  obtains v lw' where "lower_temp_slot t sp lw = (v, lw')" "lw_ok env P R lw'" "grown lw lw'" "v < nv lw'"
proof -
  obtain v lw1 where 1: "lower_temp t sp lw = (v, lw1)" "lw_ok env P (insert v R) lw1" "v = nv lw" "nv lw1 = Suc (nv lw)"
      "grown lw lw1" using lower_temp_ok [OF assms] by metis
  let ?lw2 = "bind_local None v lw1"
  have 2: "lw_ok env P (insert v R) ?lw2" by (rule bind_local_ok [OF 1(2)]) (use 1 in \<open>simp_all add: binding_ok_def\<close>)
  let ?lw3 = "?lw2\<lparr>lw_temp_slots := lw_temp_slots ?lw2 @ [v]\<rparr>"
  have 3: "lw_ok env P (insert v R) ?lw3" by (rule update_lw_ok [OF 2]) simp_all
  let ?i = "(inst_of MIR_STORAGE_LIVE t MIR_NO_VALUE sp)\<lparr>mi_place := mir_place_of v None\<rparr>"
  have "lw_ok env P (insert v R) (emit ?i ?lw3)"
    by (rule emit_effect [OF 3]) (use 1 in \<open>simp_all add: inst_defs value_ok_def\<close>)
  then have "lw_ok env P R (emit ?i ?lw3)" by (rule lw_ok_unreserve) blast
  then show thesis using 1 by (intro that [of v "emit ?i ?lw3"]) (simp_all add: lower_temp_slot_def grown_def Let_def)
qed

lemma load_from_ok:
  assumes "lw_ok env P R lw" "value_ok (nv lw) (pl_base p)"
  obtains v lw' where "lower_load_from p t rd sp lw = (v, lw')" "lw_ok env P R lw'" "grown lw lw'" "v < nv lw'"
proof -
  obtain v lw1 where 1: "lower_temp t sp lw = (v, lw1)" "lw_ok env P (insert v R) lw1" "v = nv lw" "nv lw1 = Suc (nv lw)"
      "grown lw lw1" "v \<notin> R" using lower_temp_ok [OF assms(1)] by metis
  let ?i = "(inst_of MIR_LOAD t v sp)\<lparr>mi_place := p, mi_read := rd\<rparr>"
  have "lw_ok env P R (emit ?i lw1)"
    by (rule emit_result [OF 1(2)]) (use 1 assms(2) in \<open>auto simp: inst_defs value_ok_def\<close>)
  then show thesis using 1 by (intro that [of v "emit ?i lw1"]) (simp_all add: lower_load_from_def grown_def)
qed

lemma moved_temp_ok:
  assumes "lw_ok env P R lw" "value_ok (nv lw) v"
  obtains w lw' where "lower_moved_temp v t sp lw = (w, lw')" "lw_ok env P R lw'" "grown lw lw'" "value_ok (nv lw') w"
proof (cases "is_temp_slot lw v")
  case False
  then show thesis using assms that [of v lw] by (simp add: lower_moved_temp_def)
next
  case True
  have p: "value_ok (nv lw) (pl_base (mir_place_of v None))" using assms(2) by (simp add: mir_place_of_def)
  obtain w lw' where "lower_load_from (mir_place_of v None) t READ_MOVE sp lw = (w, lw')" "lw_ok env P R lw'" "grown lw lw'" "w < nv lw'"
    by (rule load_from_ok [OF assms(1) p])
  then show thesis using True that [of w lw'] by (simp add: lower_moved_temp_def value_ok_def)
qed

lemma store_to_ok:
  assumes "lw_ok env P R lw" "value_ok (nv lw) (pl_base p)" "value_ok (nv lw) v"
  shows "lw_ok env P R (lower_store_to p v t sp lw)" "grown lw (lower_store_to p v t sp lw)"
    "nv (lower_store_to p v t sp lw) = nv lw" "nb (lower_store_to p v t sp lw) = nb lw"
  unfolding lower_store_to_def
  using emit_effect [OF assms(1), of "(inst_of MIR_STORE t MIR_NO_VALUE sp)\<lparr>mi_place := p, mi_args := lower_args [v]\<rparr>"] assms(2,3)
  by (simp_all add: inst_defs)

lemma local_value_ok:
  assumes "lw_ok env P R lw"
  shows "value_ok (nv lw) (local_value lw b)"
proof (cases "find (\<lambda>(s, v). s = b) (rev (lw_locals lw))")
  case (Some l)
  then have m: "l \<in> set (lw_locals lw)" by (metis find_Some_iff nth_mem set_rev)
  obtain s v where l: "l = (s, v)" by fastforce
  show ?thesis using Some m l lw_okD(9) [OF assms, of s v] by (simp add: local_value_def value_ok_def)
qed (simp add: local_value_def)

text \<open>The operand noted as a constant is no value.\<close>

lemma lower_operand_ok:
  "value_ok n v \<Longrightarrow> value_ok n (mir_operand_as_value (lower_operand lw v))"
  by (auto simp: lower_operand_def mir_operand_value_def mir_operand_const_def split: option.split)

section \<open>Blocks\<close>

lemma lower_block_ok:
  assumes "lw_ok env P R lw"
  obtains b lw' where "lower_block lw = (b, lw')" "lw_ok env (insert b P) R lw'" "b = nb lw" "nb lw' = Suc (nb lw)"
    "b \<notin> P" "grown lw lw'" "nv lw' = nv lw" "lw_locals lw' = lw_locals lw"
proof -
  note o = lw_okD [OF assms]
  let ?b = "nb lw" and ?lw = "lw\<lparr>lw_ir := (lw_ir lw)\<lparr>mf_blocks := mf_blocks (lw_ir lw) @ [[]]\<rparr>\<rparr>"
  have e: "insts ?lw = insts lw" "nb ?lw = Suc (nb lw)" "nv ?lw = nv lw" by (simp_all add: insts_def)
  have "lw_ok env (insert ?b P) R ?lw" unfolding lw_ok_def e
  proof (intro conjI)
    show "\<forall>i \<in> set (insts lw). inst_ok (Suc (nb lw)) (nv lw) i"
      using o(5) inst_ok_mono [of "nb lw" "nv lw" _ "Suc (nb lw)" "nv lw"] by simp
    show "\<forall>b < Suc (nb lw). b \<noteq> lw_block ?lw \<longrightarrow> b \<notin> insert (nb lw) P \<longrightarrow> mir_block_is_terminated (mf_blocks (lw_ir ?lw) ! b)"
      using o(4) by (auto simp: nth_append)
    show "\<forall>t \<in> {lw_break_target ?lw, lw_continue_target ?lw}. mir_block_is_none t \<or> t < Suc (nb lw)" using o(11,12) by auto
    show "\<forall>(b, v) \<in> set (lw_locals ?lw). v < nv lw \<and> binding_ok env b" using o(9) by auto
  qed (use o in \<open>auto simp: less_Suc_eq\<close>)
  moreover have "lower_block lw = (?b, ?lw)" by (simp add: lower_block_def mir_block_create_def)
  moreover have "?b \<notin> P" using o(3) by blast
  ultimately show thesis using that e by (auto simp: grown_def)
qed

definition current_terminated :: "lowering \<Rightarrow> bool" where
  "current_terminated lw \<longleftrightarrow> mir_block_is_terminated (mf_blocks (lw_ir lw) ! lw_block lw)"

lemma into_block_ok:
  assumes "lw_ok env P R lw" "current_terminated lw" "b \<in> P"
  shows "lw_ok env (P - {b}) R (lower_into_block b lw)"
proof -
  note o = lw_okD [OF assms(1)]
  have "b < nb lw" using o(3) assms(3) by blast
  then show ?thesis using assms(1,2)
    unfolding lw_ok_def lower_into_block_def current_terminated_def insts_def by auto
qed

lemma into_block_fields [simp]:
  "lw_ir (lower_into_block b lw) = lw_ir lw" "lw_locals (lower_into_block b lw) = lw_locals lw"
  "grown lw' (lower_into_block b lw) = grown lw' lw"
  by (simp_all add: lower_into_block_def grown_def)

lemma terminator_ok:
  assumes "lw_ok env P R lw" "inst_ok (nb lw) (nv lw) i" "mir_value_is_none (mi_result i)" "mir_op_is_terminator (mi_op i)"
  shows "lw_ok env P R (lower_terminator i lw)" "current_terminated (lower_terminator i lw)" "grown lw (lower_terminator i lw)"
    "nv (lower_terminator i lw) = nv lw" "nb (lower_terminator i lw) = nb lw" "lw_locals (lower_terminator i lw) = lw_locals lw"
proof -
  have "lw_block lw < nb lw" using lw_okD(1) [OF assms(1)] .
  then show "current_terminated (lower_terminator i lw)" using assms(4)
    by (auto simp: lower_terminator_def current_terminated_def emit_def mir_emit_def mir_block_is_terminated_def)
  show "lw_ok env P R (lower_terminator i lw)" using assms(1) emit_effect [OF assms(1-3)] by (simp add: lower_terminator_def)
qed (simp_all add: lower_terminator_def)

lemma jump_ok:
  assumes "lw_ok env P R lw" "b < nb lw"
  shows "lw_ok env P R (lower_jump b lw)" "current_terminated (lower_jump b lw)" "grown lw (lower_jump b lw)"
    "nv (lower_jump b lw) = nv lw" "nb (lower_jump b lw) = nb lw" "lw_locals (lower_jump b lw) = lw_locals lw"
  unfolding lower_jump_def by (rule terminator_ok [OF assms(1)]; use assms(2) in \<open>simp add: inst_defs\<close>)+

lemma branch_ok:
  assumes "lw_ok env P R lw" "a < nb lw" "b < nb lw" "value_ok (nv lw) c"
  shows "lw_ok env P R (lower_branch c a b sp lw)" "current_terminated (lower_branch c a b sp lw)" "grown lw (lower_branch c a b sp lw)"
    "nv (lower_branch c a b sp lw) = nv lw" "nb (lower_branch c a b sp lw) = nb lw" "lw_locals (lower_branch c a b sp lw) = lw_locals lw"
  unfolding lower_branch_def by (rule terminator_ok [OF assms(1)]; use assms(2-) in \<open>simp add: inst_defs\<close>)+

section \<open>Sound parts\<close>

definition sound_value :: "lower_env \<Rightarrow> nat lowers \<Rightarrow> bool" where
  "sound_value env f \<longleftrightarrow> (\<forall>P R lw. lw_ok env P R lw \<longrightarrow>
     gives (f lw) (\<lambda>v lw'. lw_ok env P R lw' \<and> grown lw lw' \<and> value_ok (nv lw') v))"

definition sound_place :: "lower_env \<Rightarrow> place lowers \<Rightarrow> bool" where
  "sound_place env f \<longleftrightarrow> (\<forall>P R lw. lw_ok env P R lw \<longrightarrow>
     gives (f lw) (\<lambda>p lw'. lw_ok env P R lw' \<and> grown lw lw' \<and> value_ok (nv lw') (pl_base p)))"

definition sound_step :: "lower_env \<Rightarrow> (lowering \<Rightarrow> lowering option) \<Rightarrow> bool" where
  "sound_step env f \<longleftrightarrow> (\<forall>P R lw. lw_ok env P R lw \<longrightarrow> leaves (f lw) (\<lambda>lw'. lw_ok env P R lw' \<and> grown lw lw'))"

definition sound_into :: "lower_env \<Rightarrow> (place \<Rightarrow> lowering \<Rightarrow> lowering option) \<Rightarrow> bool" where
  "sound_into env f \<longleftrightarrow> (\<forall>base P R lw. lw_ok env P R lw \<longrightarrow> value_ok (nv lw) (pl_base base) \<longrightarrow>
     leaves (f base lw) (\<lambda>lw'. lw_ok env P R lw' \<and> grown lw lw'))"

lemma sound_valueE:
  assumes "sound_value env f" "lw_ok env P R lw"
  obtains v lw' where "f lw = Some (v, lw')" "lw_ok env P R lw'" "grown lw lw'" "value_ok (nv lw') v"
  using assms unfolding sound_value_def gives_def by blast

lemma sound_placeE:
  assumes "sound_place env f" "lw_ok env P R lw"
  obtains p lw' where "f lw = Some (p, lw')" "lw_ok env P R lw'" "grown lw lw'" "value_ok (nv lw') (pl_base p)"
  using assms unfolding sound_place_def gives_def by blast

lemma sound_stepE:
  assumes "sound_step env f" "lw_ok env P R lw"
  obtains lw' where "f lw = Some lw'" "lw_ok env P R lw'" "grown lw lw'"
  using assms unfolding sound_step_def leaves_def by blast

lemma sound_intoE:
  assumes "sound_into env f" "lw_ok env P R lw" "value_ok (nv lw) (pl_base base)"
  obtains lw' where "f base lw = Some lw'" "lw_ok env P R lw'" "grown lw lw'"
  using assms unfolding sound_into_def leaves_def by blast

text \<open>An instruction with a fresh result that reads what there was before it.\<close>

definition fresh_inst :: "nat \<Rightarrow> mir_inst \<Rightarrow> bool" where
  "fresh_inst n i \<longleftrightarrow> mi_op i \<notin> {MIR_JMP, MIR_BRANCH, MIR_DROP_FLAG} \<and> mi_flag i = 0 \<and>
     (mir_op_has_place (mi_op i) \<longrightarrow> value_ok n (pl_base (mi_place i))) \<and>
     (\<forall>a \<in> set (mi_args i). value_ok n (mir_operand_as_value a))"

lemmas fresh_defs = fresh_inst_def inst_of_def lower_args_def mir_operand_value_def zero_place_def

lemma made_ok:
  assumes ok: "lw_ok env P R lw" and m: "lower_temp t sp lw = (r, lw1)" and i: "mi_result i = r" "fresh_inst (nv lw) i"
  shows "lw_ok env P R (emit i lw1)" "grown lw (emit i lw1)" "value_ok (nv (emit i lw1)) r" "r < nv (emit i lw1)"
    "lw_locals (emit i lw1) = lw_locals lw"
proof -
  have t: "lw_ok env P (insert r R) lw1" "r \<notin> R" "r = nv lw" "nv lw1 = Suc (nv lw)" "grown lw lw1" "lw_locals lw1 = lw_locals lw"
    using lower_temp_ok [OF ok, of t sp] m by (metis prod.inject)+
  have "inst_ok (nb lw1) (nv lw1) i" using i t(3,4) value_ok_mono [of "nv lw" _ "Suc (nv lw)"]
    by (auto simp: inst_ok_def fresh_inst_def value_ok_def)
  then show "lw_ok env P R (emit i lw1)" using emit_result [OF t(1)] i(1) t(2) by simp
qed (use lower_temp_ok [OF ok, of t sp] m in \<open>fastforce simp: grown_def value_ok_def\<close>)+

text \<open>The same where the result was set aside before its operands were lowered.\<close>

lemma late_ok:
  assumes ok: "lw_ok env P (insert r R) lw" and r: "r \<notin> R" "r < nv lw" and i: "mi_result i = r" "fresh_inst (nv lw) i" "mi_args i = []"
  shows "lw_ok env P R (emit i lw)" "value_ok (nv (emit i lw)) r"
proof -
  have "inst_ok (nb lw) (nv lw) i" using i r(2) by (auto simp: inst_ok_def fresh_inst_def value_ok_def)
  then show "lw_ok env P R (emit i lw)" using emit_result [OF ok] i(1) r(1) by simp
qed (use r in \<open>simp add: value_ok_def\<close>)

section \<open>Operators and literals\<close>

lemma unary_sound:
  assumes "sound_value env (lower_e operand)" "op \<in> {MIR_NEG, MIR_NOT, MIR_ITOF, MIR_FTOI}"
  shows "sound_value env (lower_unary env lower_e op e operand)"
  unfolding sound_value_def
proof (intro allI impI)
  fix P R lw assume ok: "lw_ok env P R lw"
  obtain v lw1 where 1: "lower_e operand lw = Some (v, lw1)" "lw_ok env P R lw1" "grown lw lw1" "value_ok (nv lw1) v"
    by (rule sound_valueE [OF assms(1) ok])
  obtain r lw2 where 2: "lower_temp (type_at env e) (expr_span e) lw1 = (r, lw2)" by fastforce
  note made_ok [OF 1(2) 2, of "(inst_of op (type_at env e) r (expr_span e))\<lparr>mi_args := lower_args [v]\<rparr>"]
  then show "gives (lower_unary env lower_e op e operand lw)
      (\<lambda>v lw'. lw_ok env P R lw' \<and> grown lw lw' \<and> value_ok (nv lw') v)"
    using 1 2 assms(2) grown_trans [OF 1(3)] by (auto simp: lower_unary_def fresh_defs)
qed

lemma operation_sound:
  assumes "sound_value env (lower_e receiver)" "op \<in> {MIR_COPY, MIR_SLICE_LEN}"
  shows "sound_value env (lower_operation env lower_e op e receiver)"
  unfolding sound_value_def
proof (intro allI impI)
  fix P R lw assume ok: "lw_ok env P R lw"
  obtain v lw1 where 1: "lower_e receiver lw = Some (v, lw1)" "lw_ok env P R lw1" "grown lw lw1" "value_ok (nv lw1) v"
    by (rule sound_valueE [OF assms(1) ok])
  obtain r lw2 where 2: "lower_temp (type_at env e) (expr_span e) lw1 = (r, lw2)" by fastforce
  note made_ok [OF 1(2) 2, of "(inst_of op (type_at env e) r (expr_span e))\<lparr>mi_args := [mir_operand_value v]\<rparr>"]
  then show "gives (lower_operation env lower_e op e receiver lw)
      (\<lambda>v lw'. lw_ok env P R lw' \<and> grown lw lw' \<and> value_ok (nv lw') v)"
    using 1 2 assms(2) grown_trans [OF 1(3)] by (auto simp: lower_operation_def fresh_defs)
qed

end
