(* ===== verification/Lower_Sound.thy ===== *)
theory Lower_Sound
  imports Lower_Inv
begin

text \<open>
  Each part of \<^verbatim>\<open>src/mir/mir_lower.c\<close> that lowers expressions is sound when the functions for its parts are,
  under what it reads of the facts.
\<close>

lemma sound_valueI:
  "(\<And>P R lw. lw_ok env P R lw \<Longrightarrow> \<exists>v lw'. f lw = Some (v, lw') \<and> lw_ok env P R lw' \<and> grown lw lw' \<and> value_ok (nv lw') v) \<Longrightarrow>
   sound_value env f"
  by (simp add: sound_value_def gives_def)

lemma sound_placeI:
  "(\<And>P R lw. lw_ok env P R lw \<Longrightarrow> \<exists>p lw'. f lw = Some (p, lw') \<and> lw_ok env P R lw' \<and> grown lw lw' \<and> value_ok (nv lw') (pl_base p)) \<Longrightarrow>
   sound_place env f"
  by (simp add: sound_place_def gives_def)

lemma sound_stepI:
  "(\<And>P R lw. lw_ok env P R lw \<Longrightarrow> \<exists>lw'. f lw = Some lw' \<and> lw_ok env P R lw' \<and> grown lw lw') \<Longrightarrow> sound_step env f"
  by (simp add: sound_step_def leaves_def)

lemma sound_intoI:
  "(\<And>base P R lw. lw_ok env P R lw \<Longrightarrow> value_ok (nv lw) (pl_base base) \<Longrightarrow>
      \<exists>lw'. f base lw = Some lw' \<and> lw_ok env P R lw' \<and> grown lw lw') \<Longrightarrow> sound_into env f"
  by (simp add: sound_into_def leaves_def)

lemma noted_ok: "lw_ok env P R lw \<Longrightarrow> lw_ok env P R (lower_note_constant v c lw)"
  by (rule update_lw_ok) simp_all

lemma literal_sound: "sound_value env (\<lambda>lw. Some (lower_literal env e lit lw))"
proof (rule sound_valueI)
  fix P R lw assume ok: "lw_ok env P R lw"
  obtain r lw1 where 1: "lower_temp (type_at env e) (expr_span e) lw = (r, lw1)" by fastforce
  have m: "lw_ok env P R (emit ((inst_of op (type_at env e) r (expr_span e))\<lparr>mi_constant := c\<rparr>) lw1)"
      "grown lw (emit ((inst_of op (type_at env e) r (expr_span e))\<lparr>mi_constant := c\<rparr>) lw1)" "r < nv lw1"
    if "op \<in> {MIR_CONST_INT, MIR_CONST_FLOAT, MIR_CONST_BOOL, MIR_CONST_STR}" for op c
    using made_ok [OF ok 1, of "(inst_of op (type_at env e) r (expr_span e))\<lparr>mi_constant := c\<rparr>"] that
    by (auto simp: fresh_defs)
  have g: "grown lw (lower_note_constant v c lw') = grown lw lw'" for v c lw' by (simp add: grown_def)
  show "\<exists>v lw'. Some (lower_literal env e lit lw) = Some (v, lw') \<and> lw_ok env P R lw' \<and> grown lw lw' \<and> value_ok (nv lw') v"
    using 1 m(1) noted_ok [OF m(1)] m(2) [of MIR_CONST_INT] m(3) [of MIR_CONST_INT] by (cases lit) (simp_all add: lower_literal_def Let_def value_ok_def g)
qed

lemma logical_sound:
  assumes "sound_value env (lower_e a)" "sound_value env (lower_e b)"
  shows "sound_value env (lower_logical env lower_e e a op b)"
proof (rule sound_valueI)
  fix P R lw assume ok: "lw_ok env P R lw"
  let ?t = "type_at env e" and ?sp = "expr_span e"
  obtain r lw1 where 1: "lower_temp ?t ?sp lw = (r, lw1)" "lw_ok env P (insert r R) lw1" "r < nv lw1" "grown lw lw1"
    using lower_temp_ok [OF ok, of ?t ?sp] by (metis lessI)
  obtain l lw2 where 2: "lower_e a lw1 = Some (l, lw2)" "lw_ok env P (insert r R) lw2" "grown lw1 lw2" "value_ok (nv lw2) l"
    by (rule sound_valueE [OF assms(1) 1(2)])
  have base: "value_ok (nv lw2) (pl_base (mir_place_of r None))"
    using 1(3) 2(3) by (simp add: value_ok_def grown_def mir_place_of_def)
  let ?lw3 = "lower_store_to (mir_place_of r None) l ?t ?sp lw2"
  note 3 = store_to_ok [OF 2(2) base 2(4), of ?t ?sp]
  obtain rhs lw4 where 4: "lower_block ?lw3 = (rhs, lw4)" "lw_ok env (insert rhs P) (insert r R) lw4" "rhs = nb lw2"
      "nb lw4 = Suc (nb lw2)" "rhs \<notin> P" "nv lw4 = nv lw2"
    using lower_block_ok [OF 3(1)] 3(3,4) by metis
  obtain join lw5 where 5: "lower_block lw4 = (join, lw5)" "lw_ok env (insert join (insert rhs P)) (insert r R) lw5" "join = nb lw4"
      "nb lw5 = Suc (nb lw4)" "join \<notin> insert rhs P" "nv lw5 = nv lw4"
    using lower_block_ok [OF 4(2)] by metis
  let ?lw6 = "lower_branch l (if op = BIN_OP_AND then rhs else join) (if op = BIN_OP_AND then join else rhs) ?sp lw5"
  have 6: "lw_ok env (insert join (insert rhs P)) (insert r R) ?lw6" "current_terminated ?lw6" "nv ?lw6 = nv lw5" "nb ?lw6 = nb lw5"
    by (rule branch_ok [OF 5(2)]; use 2(4) 4 5 in \<open>simp\<close>)+
  have 7: "lw_ok env (insert join P) (insert r R) (lower_into_block rhs ?lw6)"
  proof -
    have "insert join (insert rhs P) - {rhs} = insert join P" using 4(5) 5(5) by auto
    then show ?thesis using into_block_ok [OF 6(1,2), of rhs] by simp
  qed
  obtain v lw8 where 8: "lower_e b (lower_into_block rhs ?lw6) = Some (v, lw8)" "lw_ok env (insert join P) (insert r R) lw8"
      "grown (lower_into_block rhs ?lw6) lw8" "value_ok (nv lw8) v"
    by (rule sound_valueE [OF assms(2) 7])
  have g8: "nv lw2 \<le> nv lw8" "nb lw5 \<le> nb lw8" using 8(3) 4(6) 5(6) 6(3,4) by (simp_all add: grown_def)
  have base8: "value_ok (nv lw8) (pl_base (mir_place_of r None))" using value_ok_mono [OF base g8(1)] .
  let ?lw9 = "lower_store_to (mir_place_of r None) v ?t ?sp lw8"
  note 9 = store_to_ok [OF 8(2) base8 8(4), of ?t ?sp]
  have j: "join < nb ?lw9" using 9(4) g8(2) 5 by simp
  note 10 = jump_ok [OF 9(1) j]
  have fin: "lw_ok env P (insert r R) (lower_into_block join (lower_jump join ?lw9))"
  proof -
    have "insert join P - {join} = P" using 5(5) by auto
    then show ?thesis using into_block_ok [OF 10(1,2), of join] by simp
  qed
  have eq: "lower_logical env lower_e e a op b lw = Some (r, lower_into_block join (lower_jump join ?lw9))"
    by (simp add: lower_logical_def Let_def 1(1) 2(1) 4(1) 5(1) 8(1))
  have "grown lw (lower_into_block join (lower_jump join ?lw9))" "value_ok (nv (lower_into_block join (lower_jump join ?lw9))) r"
    using 1(4) 2(3) 4(4) 5(4) g8 9(3,4) 10(4,5) base8 by (simp_all add: grown_def mir_place_of_def)
  then show "\<exists>v lw'. lower_logical env lower_e e a op b lw = Some (v, lw') \<and> lw_ok env P R lw' \<and> grown lw lw' \<and> value_ok (nv lw') v"
    using lw_ok_unreserve [OF fin, of R] unfolding eq by blast
qed

lemma bin_op_sound:
  assumes "sound_value env (lower_e a)" "sound_value env (lower_e b)"
  shows "sound_value env (lower_bin_op env lower_e e a op b)"
proof (cases "op = BIN_OP_AND \<or> op = BIN_OP_OR")
  case True
  then have "lower_bin_op env lower_e e a op b = lower_logical env lower_e e a op b" by (simp add: lower_bin_op_def fun_eq_iff)
  then show ?thesis using logical_sound [OF assms] by simp
next
  case False
  show ?thesis
  proof (rule sound_valueI)
    fix P R lw assume ok: "lw_ok env P R lw"
    obtain l lw1 where 1: "lower_e a lw = Some (l, lw1)" "lw_ok env P R lw1" "grown lw lw1" "value_ok (nv lw1) l"
      by (rule sound_valueE [OF assms(1) ok])
    obtain v lw2 where 2: "lower_e b lw1 = Some (v, lw2)" "lw_ok env P R lw2" "grown lw1 lw2" "value_ok (nv lw2) v"
      by (rule sound_valueE [OF assms(2) 1(2)])
    obtain r lw3 where 3: "lower_temp (type_at env e) (expr_span e) lw2 = (r, lw3)" by fastforce
    let ?i = "(inst_of (bin_op_to_ir op) (type_at env e) r (expr_span e))\<lparr>mi_args := lower_binary_args lw3 l v\<rparr>"
    let ?j = "case bin_op_is_comparison op of Some p \<Rightarrow> ?i\<lparr>mi_op := MIR_CMP, mi_predicate := p\<rparr> | None \<Rightarrow> ?i"
    have "value_ok (nv lw2) l" using 1(4) 2(3) by (rule value_ok_grown)
    then have "mi_result ?j = r" "fresh_inst (nv lw2) ?j"
      using 2(4) lower_operand_ok [of "nv lw2" v lw3]
      by (cases op; simp add: fresh_defs lower_binary_args_def)+
    then show "\<exists>v lw'. lower_bin_op env lower_e e a op b lw = Some (v, lw') \<and> lw_ok env P R lw' \<and> grown lw lw' \<and> value_ok (nv lw') v"
      using 1 2 3 False made_ok [OF 2(2) 3, of ?j] grown_trans [OF grown_trans [OF 1(3) 2(3)]]
      by (auto simp: lower_bin_op_def Let_def)
  qed
qed

section \<open>Places\<close>

lemma place_index_base [simp]: "pl_base (mir_place_index p c i t) = pl_base p"
  by (simp add: mir_place_index_def mir_place_project_def Let_def)

lemma place_project_base [simp]: "pl_base (mir_place_project p q) = pl_base p"
  by (simp add: mir_place_project_def)

lemma deref_through_base [simp]: "pl_base (deref_through p t) = pl_base p"
  by (induction p t rule: deref_through.induct) simp_all

lemma indexed_place_sound:
  assumes "sound_place env (lower_p target)" "sound_value env (lower_e index)" "type_at env target = Some c"
    "mir_indexed_container (Some c) = Some inner"
  shows "sound_place env (lower_indexed_place env lower_e lower_p target index element sp)"
proof (rule sound_placeI)
  fix P R lw assume ok: "lw_ok env P R lw"
  obtain p lw1 where 1: "lower_p target lw = Some (p, lw1)" "lw_ok env P R lw1" "grown lw lw1" "value_ok (nv lw1) (pl_base p)"
    by (rule sound_placeE [OF assms(1) ok])
  obtain v lw2 where 2: "lower_e index lw1 = Some (v, lw2)" "lw_ok env P R lw2" "grown lw1 lw2" "value_ok (nv lw2) v"
    by (rule sound_valueE [OF assms(2) 1(2)])
  have b: "value_ok (nv lw2) (pl_base p)" using 1(4) 2(3) by (rule value_ok_grown)
  let ?p = "mir_place_index p c v element"
  let ?i = "(inst_of MIR_BOUNDS (Some inner) MIR_NO_VALUE sp)\<lparr>mi_args := lower_args (mir_bounds_operands ?p (Some c) v)\<rparr>"
  have "inst_ok (nb lw2) (nv lw2) ?i" using 2(4) b by (auto simp: inst_defs mir_bounds_operands_def)
  then have "lw_ok env P R (emit ?i lw2)" by (rule emit_effect [OF 2(2)]) (simp add: inst_of_def)
  then show "\<exists>p lw'. lower_indexed_place env lower_e lower_p target index element sp lw = Some (p, lw') \<and>
      lw_ok env P R lw' \<and> grown lw lw' \<and> value_ok (nv lw') (pl_base p)"
    using 1 2 b assms(3,4) grown_trans [OF 1(3) 2(3)] by (auto simp: lower_indexed_place_def Let_def)
qed

text \<open>What a place of another kind of expression starts from.\<close>

lemma started_sound:
  assumes "sound_value env f" "\<And>v. pl_base (g v) = v"
  shows "sound_place env (\<lambda>lw. do { (v, lw1) \<leftarrow> f lw; Some (g v, lw1) })"
proof (rule sound_placeI)
  fix P R lw assume ok: "lw_ok env P R lw"
  obtain v lw1 where "f lw = Some (v, lw1)" "lw_ok env P R lw1" "grown lw lw1" "value_ok (nv lw1) v"
    by (rule sound_valueE [OF assms(1) ok])
  then show "\<exists>p lw'. do { (v, lw1) \<leftarrow> f lw; Some (g v, lw1) } = Some (p, lw') \<and> lw_ok env P R lw' \<and> grown lw lw' \<and>
      value_ok (nv lw') (pl_base p)" using assms(2) by simp
qed

lemma projected_sound:
  assumes "sound_place env f" "\<And>p. pl_base (g p) = pl_base p"
  shows "sound_place env (\<lambda>lw. do { (p, lw1) \<leftarrow> f lw; Some (g p, lw1) })"
proof (rule sound_placeI)
  fix P R lw assume ok: "lw_ok env P R lw"
  obtain p lw1 where "f lw = Some (p, lw1)" "lw_ok env P R lw1" "grown lw lw1" "value_ok (nv lw1) (pl_base p)"
    by (rule sound_placeE [OF assms(1) ok])
  then show "\<exists>p lw'. do { (p, lw1) \<leftarrow> f lw; Some (g p, lw1) } = Some (p, lw') \<and> lw_ok env P R lw' \<and> grown lw lw' \<and>
      value_ok (nv lw') (pl_base p)" using assms(2) by simp
qed

lemma name_place_sound: "sound_place env (place_step env lower_e lower_p lower_c (EXPR_NAME nd name owner))"
proof (rule sound_placeI)
  fix P R lw assume ok: "lw_ok env P R lw"
  let ?e = "EXPR_NAME nd name owner :: rexpr" and ?b = "fact_use_of (le_facts env) (expr_at (EXPR_NAME nd name owner))"
  obtain r lw1 where "lower_temp (type_at env ?e) (expr_span ?e) lw = (r, lw1)" "lw_ok env P (insert r R) lw1" "r = nv lw"
      "nv lw1 = Suc (nv lw)" "grown lw lw1" using lower_temp_ok [OF ok, of "type_at env ?e" "expr_span ?e"] by metis
  then show "\<exists>p lw'. place_step env lower_e lower_p lower_c ?e lw = Some (p, lw') \<and> lw_ok env P R lw' \<and> grown lw lw' \<and>
      value_ok (nv lw') (pl_base p)"
    using ok local_value_ok [OF ok, of ?b] lw_ok_unreserve [of env P "insert r R" lw1 R]
    by (auto simp: place_step_def Let_def mir_place_of_def value_ok_def)
qed

section \<open>Calls\<close>

lemma location_part_ok:
  assumes "lw_ok env P R lw" "r < nv lw"
  shows "lw_ok env P R (lower_location_part env r sp q lw)" "grown lw (lower_location_part env r sp q lw)"
proof -
  obtain i at where q: "q = (i, at)" by fastforce
  let ?t = "i32_type_of env"
  obtain v lw1 where 1: "lower_temp ?t sp lw = (v, lw1)" by fastforce
  let ?i = "(inst_of MIR_CONST_INT ?t v sp)\<lparr>mi_constant := constant_int ?t (scast (of_nat at :: int32_t))\<rparr>"
  have 2: "lw_ok env P R (emit ?i lw1)" "grown lw (emit ?i lw1)" "value_ok (nv (emit ?i lw1)) v"
    by (rule made_ok [OF assms(1) 1]; simp add: fresh_defs)+
  let ?p = "mir_place_project (mir_place_of r None) \<lparr>pr_kind = PROJ_FIELD, pr_id = i, pr_type = ?t\<rparr>"
  have b: "value_ok (nv (emit ?i lw1)) (pl_base ?p)" using assms(2) 2(2) by (simp add: value_ok_def grown_def mir_place_of_def)
  show "lw_ok env P R (lower_location_part env r sp q lw)" "grown lw (lower_location_part env r sp q lw)"
    using store_to_ok [OF 2(1) b 2(3), of ?t sp] 2(2) 1 by (auto simp: lower_location_part_def q Let_def grown_def)
qed

lemma location_ok:
  assumes "lw_ok env P R lw"
  obtains v lw' where "lower_location_of env t sp lw = (v, lw')" "lw_ok env P R lw'" "grown lw lw'" "value_ok (nv lw') v"
proof -
  obtain r lw1 where 1: "lower_temp t sp lw = (r, lw1)" "lw_ok env P (insert r R) lw1" "r < nv lw1" "grown lw lw1"
    using lower_temp_ok [OF assms, of t sp] by (metis lessI)
  note 2 = location_part_ok [OF 1(2,3), of sp "(0, sp_line sp)"]
  have r: "r < nv (lower_location_part env r sp (0, sp_line sp) lw1)" using 1(3) 2(2) by (simp add: grown_def)
  note 3 = location_part_ok [OF 2(1) r, of sp "(1, sp_column sp)"]
  show thesis using 1 2 3 r lw_ok_unreserve [OF 3(1), of R]
    by (intro that [of r "lower_location_part env r sp (1, sp_column sp) (lower_location_part env r sp (0, sp_line sp) lw1)"])
      (auto simp: lower_location_of_def grown_def value_ok_def)
qed

lemma array_length_sound:
  "sound_value env (lower_array_length env e base)" if "type_array_length_is_known (Some base) \<longrightarrow> type_array_length (Some base) \<noteq> None"
proof (rule sound_valueI)
  fix P R lw assume ok: "lw_ok env P R lw"
  obtain r lw1 where 1: "lower_temp (type_at env e) (expr_span e) lw = (r, lw1)" by fastforce
  have "lw_ok env P R (emit ((inst_of MIR_CONST_INT (type_at env e) r (expr_span e))\<lparr>mi_constant := c\<rparr>) lw1) \<and>
      grown lw (emit ((inst_of MIR_CONST_INT (type_at env e) r (expr_span e))\<lparr>mi_constant := c\<rparr>) lw1) \<and> value_ok (nv lw1) r" for c
    using made_ok [OF ok 1, of "(inst_of MIR_CONST_INT (type_at env e) r (expr_span e))\<lparr>mi_constant := c\<rparr>"] by (auto simp: fresh_defs)
  then show "\<exists>v lw'. lower_array_length env e base lw = Some (v, lw') \<and> lw_ok env P R lw' \<and> grown lw lw' \<and> value_ok (nv lw') v"
    using that 1 by (auto simp: lower_array_length_def Let_def simp del: type_array_length.simps)
qed

lemma array_length_known: "type_array_length_is_known t \<longrightarrow> type_array_length t \<noteq> None"
proof (cases t)
  case (Some u)
  then show ?thesis by (cases u) (auto split: list.splits type_arg.splits type_const.splits)
qed simp

lemma lent_sound:
  assumes "sound_place env (lower_p receiver)" "sound_value env (lower_e index)" "type_at env receiver = Some c"
    "mir_indexed_container (Some c) = Some container" "call_result_type env e \<noteq> None"
    "case ty_kind container of TYPE_ARRAY \<Rightarrow> type_array_element (Some container) \<noteq> None | TYPE_RAW \<Rightarrow> True
     | _ \<Rightarrow> type_slice_element (Some container) \<noteq> None"
  shows "sound_value env (lower_lent env lower_e lower_p e receiver container index)"
proof (rule sound_valueI)
  fix P R lw assume ok: "lw_ok env P R lw"
  obtain element where el: "(case ty_kind container of TYPE_ARRAY \<Rightarrow> type_array_element (Some container)
      | TYPE_RAW \<Rightarrow> Some (type_pointee (Some container)) | _ \<Rightarrow> type_slice_element (Some container)) = Some element"
    using assms(6) by (cases "ty_kind container") (auto simp del: type_array_element.simps type_slice_element.simps type_pointee.simps)
  obtain lent where l: "call_result_type env e = Some lent" using assms(5) by blast
  obtain p lw1 where 1: "lower_indexed_place env lower_e lower_p receiver index element (expr_span e) lw = Some (p, lw1)"
      "lw_ok env P R lw1" "grown lw lw1" "value_ok (nv lw1) (pl_base p)"
    by (rule sound_placeE [OF _ ok]) (rule indexed_place_sound, (rule assms(1-4))+)
  obtain r lw2 where 2: "lower_temp lent (expr_span e) lw1 = (r, lw2)" by fastforce
  note made_ok [OF 1(2) 2, of "(inst_of MIR_REF lent r (expr_span e))\<lparr>mi_place := p\<rparr>"]
  then show "\<exists>v lw'. lower_lent env lower_e lower_p e receiver container index lw = Some (v, lw') \<and> lw_ok env P R lw' \<and>
      grown lw lw' \<and> value_ok (nv lw') v"
    using 1 2 el l grown_trans [OF 1(3)]
    by (auto simp: lower_lent_def fresh_defs simp del: type_array_element.simps type_slice_element.simps type_pointee.simps)
qed

lemma passed_ok:
  assumes "\<forall>e \<in> set es. sound_value env (lower_e e)" "\<forall>j < length es. callee_takes_slot env callee (i + j) \<noteq> None" "lw_ok env P R lw"
  shows "\<exists>vs lw'. lower_passed env lower_e callee sp i es lw = Some (vs, lw') \<and> lw_ok env P R lw' \<and> grown lw lw' \<and>
    (\<forall>v \<in> set vs. value_ok (nv lw') v)"
  using assms
proof (induction es arbitrary: i lw)
  case (Cons e es)
  obtain v lw1 where 1: "lower_e e lw = Some (v, lw1)" "lw_ok env P R lw1" "grown lw lw1" "value_ok (nv lw1) v"
    using sound_valueE [of env "lower_e e" P R lw] Cons.prems by auto
  obtain takes where t: "callee_takes_slot env callee i = Some takes" using Cons.prems(2) by auto
  let ?t = "case callee of Some g \<Rightarrow> fs_params (fn_signature g) ! i | None \<Rightarrow> None"
  obtain w lw2 where 2: "(if takes then lower_moved_temp v ?t sp lw1 else (v, lw1)) = (w, lw2)" "lw_ok env P R lw2" "grown lw1 lw2"
      "value_ok (nv lw2) w"
  proof (cases takes)
    case True
    then show ?thesis using that by (metis (no_types) moved_temp_ok [OF 1(2,4)])
  qed (use that 1(2,4) in auto)
  have "\<forall>j < length es. callee_takes_slot env callee (Suc i + j) \<noteq> None" using Cons.prems(2) by fastforce
  then obtain vs lw3 where 3: "lower_passed env lower_e callee sp (Suc i) es lw2 = Some (vs, lw3)" "lw_ok env P R lw3" "grown lw2 lw3"
      "\<forall>v \<in> set vs. value_ok (nv lw3) v"
    using Cons.IH [OF _ _ 2(2), of "Suc i"] Cons.prems(1) by auto
  show ?case using 1(1) t 2(1) 3 value_ok_grown [OF 2(4) 3(3)] grown_trans [OF grown_trans [OF 1(3) 2(3)] 3(3)] by simp
qed simp

lemma call_of_sound:
  assumes "\<forall>e \<in> set (case receiver of Some r \<Rightarrow> r # written | None \<Rightarrow> written). sound_value env (lower_e e)"
    "\<forall>j \<le> length written. callee_takes_slot env callee j \<noteq> None" "call_result_type env e \<noteq> None"
  shows "sound_value env (lower_call_of env lower_e e callee receiver written)"
proof (rule sound_valueI)
  fix P R lw assume ok: "lw_ok env P R lw"
  let ?es = "case receiver of Some r \<Rightarrow> r # written | None \<Rightarrow> written" and ?sp = "expr_span e"
  have "length ?es \<le> Suc (length written)" by (cases receiver) simp_all
  then have "\<forall>j < length ?es. callee_takes_slot env callee (0 + j) \<noteq> None" using assms(2) by auto
  then obtain vs lw1 where 1: "lower_passed env lower_e callee ?sp 0 ?es lw = Some (vs, lw1)" "lw_ok env P R lw1" "grown lw lw1"
      "\<forall>v \<in> set vs. value_ok (nv lw1) v"
    using passed_ok [OF assms(1) _ ok] by blast
  let ?located = "case callee of Some g \<Rightarrow>
        (if fd_modifiers (fn_decl g) AND FUNC_MOD_CALLER = 0 then ([], lw1)
         else if mir_value_is_none (lw_caller_location lw1) then
           (let (l, lw2) = lower_location_of env (fd_location_type (fn_decl g)) ?sp lw1 in ([l], lw2))
         else ([lw_caller_location lw1], lw1))
      | None \<Rightarrow> ([], lw1)"
  obtain ls lw2 where 2: "?located = (ls, lw2)" by fastforce
  have 22: "lw_ok env P R lw2 \<and> grown lw1 lw2 \<and> (\<forall>v \<in> set ls. value_ok (nv lw2) v)"
  proof (cases callee)
    case (Some g)
    obtain l lw3 where "lower_location_of env (fd_location_type (fn_decl g)) ?sp lw1 = (l, lw3)" "lw_ok env P R lw3" "grown lw1 lw3"
        "value_ok (nv lw3) l" by (rule location_ok [OF 1(2)])
    then show ?thesis using 2 Some 1(2) lw_okD(10) [OF 1(2)] by (auto split: if_splits)
  qed (use 2 1 in auto)
  obtain answered where a: "call_result_type env e = Some answered" using assms(3) by blast
  obtain r lw3 where 3: "lower_temp answered ?sp lw2 = (r, lw3)" by fastforce
  let ?i = "(inst_of MIR_CALL answered r ?sp)\<lparr>mi_args := map mir_operand_value (vs @ ls), mi_callee := fact_callee_of (le_facts env) (expr_at e)\<rparr>"
  have "\<forall>v \<in> set vs. value_ok (nv lw2) v" using 1(4) 22 by (auto intro: value_ok_grown)
  then have f: "mi_result ?i = r" "fresh_inst (nv lw2) ?i" using 22 by (auto simp: fresh_defs)
  note 4 = made_ok [OF conjunct1 [OF 22] 3 f]
  obtain slot lw5 where 5: "lower_temp_slot answered ?sp (emit ?i lw3) = (slot, lw5)" "lw_ok env P R lw5" "grown (emit ?i lw3) lw5" "slot < nv lw5"
    by (rule temp_slot_ok [OF 4(1)])
  have "value_ok (nv lw5) (pl_base (mir_place_of slot None))" using 5(4) by (simp add: value_ok_def mir_place_of_def)
  note 6 = store_to_ok [OF 5(2) this value_ok_grown [OF 4(3) 5(3)], of answered ?sp]
  have g: "grown lw (emit ?i lw3)" "grown lw (lower_store_to (mir_place_of slot None) r answered ?sp lw5)"
    using 1(3) 22 4(2) 5(3) 6(2) grown_trans by blast+
  have eq: "lower_call_of env lower_e e callee receiver written lw =
      (if \<not> mir_type_needs_drop (le_registry env) answered then Some (r, emit ?i lw3)
       else Some (slot, lower_store_to (mir_place_of slot None) r answered ?sp lw5))"
    using 2 by (simp add: lower_call_of_def 1(1) a 3 5(1) del: map_append)
  show "\<exists>v lw'. lower_call_of env lower_e e callee receiver written lw = Some (v, lw') \<and> lw_ok env P R lw' \<and> grown lw lw' \<and>
      value_ok (nv lw') v"
    using 4(1,3) 6(1,3) 5(4) g unfolding eq by (simp add: value_ok_def)
qed

lemma conversion_sound:
  assumes "e = EXPR_CALL nd t (x # xs)" "type_at env e \<noteq> None" "type_at env x \<noteq> None" "sound_value env (lower_e x)"
  shows "sound_value env (lower_conversion env lower_e e)"
proof -
  obtain a b where ab: "type_at env e = Some a" "type_at env x = Some b" using assms(2,3) by blast
  have u: "sound_value env (lower_unary env lower_e (if ty_kind a = TYPE_F32 then MIR_ITOF else MIR_FTOI) e x)"
    by (rule unary_sound [where lower_e = lower_e and operand = x, OF assms(4)]) simp
  have "lower_conversion env lower_e e =
      (if ty_kind a = ty_kind b then lower_e x else lower_unary env lower_e (if ty_kind a = TYPE_F32 then MIR_ITOF else MIR_FTOI) e x)"
    using ab assms(1) by (auto simp: lower_conversion_def fun_eq_iff)
  then show ?thesis using u assms(4) by simp
qed

text \<open>A call that is an intrinsic's, and one that is not.\<close>

definition intrinsic_on :: "lower_env \<Rightarrow> rexpr \<Rightarrow> rexpr \<Rightarrow> bool" where
  "intrinsic_on env e r \<longleftrightarrow> builtin_target e = None \<and> call_receiver env e = Some (Some r) \<and>
     (\<exists>f g. fact_callee_of (le_facts env) (expr_at e) = Some f \<and> function_at env f = Some g \<and>
        fd_modifiers (fn_decl g) AND FUNC_MOD_INTRINSIC \<noteq> 0)"

definition callee_at :: "lower_env \<Rightarrow> rexpr \<Rightarrow> gfunction option option" where
  "callee_at env e =
     (case fact_callee_of (le_facts env) (expr_at e) of None \<Rightarrow> Some None | Some f \<Rightarrow> map_option Some (function_at env f))"

definition no_intrinsic :: "lower_env \<Rightarrow> rexpr \<Rightarrow> bool" where
  "no_intrinsic env e \<longleftrightarrow> builtin_target e = None \<and>
     (\<exists>receiver callee. call_receiver env e = Some receiver \<and> callee_at env e = Some callee \<and>
        (receiver = None \<or> (case callee of None \<Rightarrow> True | Some g \<Rightarrow> fd_modifiers (fn_decl g) AND FUNC_MOD_INTRINSIC = 0)))"

lemma intrinsic_call:
  assumes "intrinsic_on env e r" "sound_value env (lower_intrinsic env lower_e lower_p e r)"
  shows "sound_value env (lower_call env lower_e lower_p e)"
proof (rule sound_valueI)
  fix P R lw assume "lw_ok env P R lw"
  then obtain v lw1 where 1: "lower_intrinsic env lower_e lower_p e r lw = Some (v, lw1)" "lw_ok env P R lw1" "grown lw lw1" "value_ok (nv lw1) v"
    by (rule sound_valueE [OF assms(2)])
  then have "lower_call env lower_e lower_p e lw = Some (v, lw1)"
    using assms(1) by (auto simp: lower_call_def lower_intrinsic_call_def intrinsic_on_def)
  then show "\<exists>v lw'. lower_call env lower_e lower_p e lw = Some (v, lw') \<and> lw_ok env P R lw' \<and> grown lw lw' \<and> value_ok (nv lw') v"
    using 1 by blast
qed

lemma ordinary_call:
  assumes "no_intrinsic env e"
  shows "lower_intrinsic_call env lower_e lower_p e lw = Some (None, lw)"
proof -
  obtain receiver callee where c: "call_receiver env e = Some receiver" "callee_at env e = Some callee"
      "receiver = None \<or> (case callee of None \<Rightarrow> True | Some g \<Rightarrow> fd_modifiers (fn_decl g) AND FUNC_MOD_INTRINSIC = 0)"
    using assms by (auto simp: no_intrinsic_def)
  then show ?thesis
    by (cases receiver; cases "fact_callee_of (le_facts env) (expr_at e)")
      (auto simp: lower_intrinsic_call_def callee_at_def split: option.splits)
qed

section \<open>Literals of structs and arrays\<close>

lemma home_ok:
  assumes "lw_ok env P R lw"
  obtains v lw' where "lower_home env t sp lw = (v, lw')" "lw_ok env P R lw'" "grown lw lw'" "v < nv lw'"
proof (cases "mir_type_needs_drop (le_registry env) t")
  case True
  obtain v lw' where "lower_temp_slot t sp lw = (v, lw')" "lw_ok env P R lw'" "grown lw lw'" "v < nv lw'"
    by (rule temp_slot_ok [OF assms])
  then show thesis using True that by (simp add: lower_home_def)
next
  case False
  obtain v lw' where "lower_temp t sp lw = (v, lw')" "lw_ok env P (insert v R) lw'" "grown lw lw'" "v < nv lw'"
    using lower_temp_ok [OF assms, of t sp] by (metis lessI)
  then show thesis using False that lw_ok_unreserve [of env P "insert v R" lw' R] by (auto simp: lower_home_def)
qed

lemma inits_ok:
  assumes "\<forall>p \<in> set inits. is_struct_lit (snd p) \<longrightarrow> sound_into env (lower_s (snd p))"
    "\<forall>p \<in> set inits. \<not> is_struct_lit (snd p) \<longrightarrow> sound_value env (lower_e (snd p))"
    "lw_ok env P R lw" "value_ok (nv lw) (pl_base base)"
  shows "\<exists>lw'. lower_inits env lower_e lower_s base inits lw = Some lw' \<and> lw_ok env P R lw' \<and> grown lw lw'"
  using assms
proof (induction inits arbitrary: lw)
  case (Cons p inits)
  obtain name e where p: "p = (name, e)" by fastforce
  let ?sp = "nd_span (id_span name)" and ?t = "type_at env e"
  let ?p = "mir_place_project base
      \<lparr>pr_kind = PROJ_FIELD, pr_id = fact_initialized_field_of (le_facts env) (expr_at e) mod 4294967296, pr_type = ?t\<rparr>"
  show ?case
  proof (cases "is_struct_lit e")
    case True
    then have "sound_into env (lower_s e)" "value_ok (nv lw) (pl_base ?p)" using Cons.prems p by auto
    then obtain lw1 where 1: "lower_s e ?p lw = Some lw1" "lw_ok env P R lw1" "grown lw lw1"
      using sound_intoE Cons.prems(3) by blast
    obtain lw2 where 2: "lower_inits env lower_e lower_s base inits lw1 = Some lw2" "lw_ok env P R lw2" "grown lw1 lw2"
      using Cons.IH [OF _ _ 1(2) value_ok_grown [OF Cons.prems(4) 1(3)]] Cons.prems(1,2) by auto
    show ?thesis using True 1(1) 2 grown_trans [OF 1(3) 2(3)] by (simp add: p Let_def)
  next
    case False
    then have "sound_value env (lower_e e)" using Cons.prems p by auto
    then obtain v lw1 where 1: "lower_e e lw = Some (v, lw1)" "lw_ok env P R lw1" "grown lw lw1" "value_ok (nv lw1) v"
      using sound_valueE Cons.prems(3) by blast
    obtain w lw2 where 2: "lower_moved_temp v ?t ?sp lw1 = (w, lw2)" "lw_ok env P R lw2" "grown lw1 lw2" "value_ok (nv lw2) w"
      by (rule moved_temp_ok [OF 1(2,4)])
    have b: "value_ok (nv lw2) (pl_base ?p)" using value_ok_grown [OF Cons.prems(4) grown_trans [OF 1(3) 2(3)]] by simp
    note 3 = store_to_ok [OF 2(2) b 2(4), of ?t ?sp]
    have b3: "value_ok (nv (lower_store_to ?p w ?t ?sp lw2)) (pl_base base)" using b 3(3) by simp
    obtain lw4 where 4: "lower_inits env lower_e lower_s base inits (lower_store_to ?p w ?t ?sp lw2) = Some lw4" "lw_ok env P R lw4"
        "grown (lower_store_to ?p w ?t ?sp lw2) lw4"
      using Cons.IH [OF _ _ 3(1) b3] Cons.prems(1,2) by auto
    show ?thesis using False 1(1) 2(1) 4 grown_trans [OF grown_trans [OF grown_trans [OF 1(3) 2(3)] 3(2)] 4(3)] by (simp add: p Let_def)
  qed
qed simp

lemma struct_lit_sound:
  assumes "sound_into env (lower_s e)"
  shows "sound_value env (lower_struct_lit env lower_s e)"
proof (rule sound_valueI)
  fix P R lw assume ok: "lw_ok env P R lw"
  obtain r lw1 where 1: "lower_home env (type_at env e) (expr_span e) lw = (r, lw1)" "lw_ok env P R lw1" "grown lw lw1" "r < nv lw1"
    by (rule home_ok [OF ok])
  have b: "value_ok (nv lw1) (pl_base (mir_place_of r None))" using 1(4) by (simp add: value_ok_def mir_place_of_def)
  obtain lw2 where 2: "lower_s e (mir_place_of r None) lw1 = Some lw2" "lw_ok env P R lw2" "grown lw1 lw2"
    by (rule sound_intoE [OF assms 1(2) b])
  show "\<exists>v lw'. lower_struct_lit env lower_s e lw = Some (v, lw') \<and> lw_ok env P R lw' \<and> grown lw lw' \<and> value_ok (nv lw') v"
    using 1 2 grown_trans [OF 1(3) 2(3)] by (auto simp: lower_struct_lit_def grown_def value_ok_def)
qed

lemma elements_ok:
  assumes "\<forall>e \<in> set es. sound_value env (lower_e e)" "lw_ok env P R lw" "value_ok (nv lw) (pl_base base)"
  shows "\<exists>lw'. lower_elements env lower_e base i es lw = Some lw' \<and> lw_ok env P R lw' \<and> grown lw lw'"
  using assms
proof (induction es arbitrary: i lw)
  case (Cons e es)
  let ?t = "i32_type_of env" and ?sp = "expr_span e"
  obtain index lw1 where 1: "lower_temp ?t ?sp lw = (index, lw1)" by fastforce
  let ?lw2 = "emit ((inst_of MIR_CONST_INT ?t index ?sp)\<lparr>mi_constant := Constant None (Const_int (scast (of_nat i :: int32_t)))\<rparr>) lw1"
  have 2: "lw_ok env P R ?lw2" "grown lw ?lw2"
    by (rule made_ok [OF Cons.prems(2) 1]; simp add: fresh_defs)+
  obtain v lw3 where 3: "lower_e e ?lw2 = Some (v, lw3)" "lw_ok env P R lw3" "grown ?lw2 lw3" "value_ok (nv lw3) v"
    using sound_valueE [OF _ 2(1), of "lower_e e"] Cons.prems(1) by auto
  obtain w lw4 where 4: "lower_moved_temp v (type_at env e) ?sp lw3 = (w, lw4)" "lw_ok env P R lw4" "grown lw3 lw4" "value_ok (nv lw4) w"
    by (rule moved_temp_ok [OF 3(2,4)])
  let ?p = "mir_place_project base \<lparr>pr_kind = PROJ_INDEX, pr_id = index, pr_type = type_at env e\<rparr>"
  have g: "grown lw lw4" using grown_trans [OF grown_trans [OF 2(2) 3(3)] 4(3)] .
  have b: "value_ok (nv lw4) (pl_base ?p)" using value_ok_grown [OF Cons.prems(3) g] by simp
  note 5 = store_to_ok [OF 4(2) b 4(4), of "type_at env e" ?sp]
  have b5: "value_ok (nv (lower_store_to ?p w (type_at env e) ?sp lw4)) (pl_base base)" using b 5(3) by simp
  obtain lw6 where 6: "lower_elements env lower_e base (Suc i) es (lower_store_to ?p w (type_at env e) ?sp lw4) = Some lw6"
      "lw_ok env P R lw6" "grown (lower_store_to ?p w (type_at env e) ?sp lw4) lw6"
    using Cons.IH [OF _ 5(1) b5] Cons.prems(1) by auto
  show ?case using 1 3(1) 4(1) 6 grown_trans [OF grown_trans [OF g 5(2)] 6(3)] by (simp add: Let_def)
qed simp

lemma array_lit_sound:
  assumes "\<forall>x \<in> set es. sound_value env (lower_e x)"
  shows "sound_value env (lower_array_lit env lower_e e es)"
proof (rule sound_valueI)
  fix P R lw assume ok: "lw_ok env P R lw"
  obtain r lw1 where 1: "lower_home env (type_at env e) (expr_span e) lw = (r, lw1)" "lw_ok env P R lw1" "grown lw lw1" "r < nv lw1"
    by (rule home_ok [OF ok])
  have b: "value_ok (nv lw1) (pl_base (mir_place_of r None))" using 1(4) by (simp add: value_ok_def mir_place_of_def)
  obtain lw2 where 2: "lower_elements env lower_e (mir_place_of r None) 0 es lw1 = Some lw2" "lw_ok env P R lw2" "grown lw1 lw2"
    using elements_ok [OF assms 1(2) b] by blast
  show "\<exists>v lw'. lower_array_lit env lower_e e es lw = Some (v, lw') \<and> lw_ok env P R lw' \<and> grown lw lw' \<and> value_ok (nv lw') v"
    using 1 2 grown_trans [OF 1(3) 2(3)] by (auto simp: lower_array_lit_def grown_def value_ok_def)
qed

section \<open>Reading, borrowing and adjusting\<close>

lemma answered_sound: "sound_value env (\<lambda>lw. Some (lower_answered env e c lw))"
proof (rule sound_valueI)
  fix P R lw assume ok: "lw_ok env P R lw"
  have m: "lw_ok env P R (emit i lw1) \<and> grown lw (emit i lw1) \<and> value_ok (nv (emit i lw1)) r"
    if "lower_temp t (expr_span e) lw = (r, lw1)" "mi_result i = r" "fresh_inst (nv lw) i" for t r lw1 i
    using made_ok [OF ok that] by blast
  have g: "grown lw (lower_note_constant v c lw') = grown lw lw'" for v c lw' by (simp add: grown_def)
  show "\<exists>v lw'. Some (lower_answered env e c lw) = Some (v, lw') \<and> lw_ok env P R lw' \<and> grown lw lw' \<and> value_ok (nv lw') v"
  proof (cases "is_size_of e \<and> type_has_param (ct_type c)")
    case True
    obtain r lw1 where t: "lower_temp (type_registry_get_primitive (le_registry env) TYPE_USIZE) (expr_span e) lw = (r, lw1)" by fastforce
    have "mi_result (inst_of MIR_SIZE_OF (ct_type c) r (expr_span e)) = r" "fresh_inst (nv lw) (inst_of MIR_SIZE_OF (ct_type c) r (expr_span e))"
      by (simp_all add: fresh_defs)
    from m [OF t this] show ?thesis using True t
      by (simp add: lower_answered_def Let_def del: type_registry_get_primitive.simps)
  next
    case False
    obtain r lw1 where t: "lower_temp (ct_type c) (expr_span e) lw = (r, lw1)" by fastforce
    let ?i = "(inst_of MIR_CONST_INT (ct_type c) r (expr_span e))\<lparr>mi_constant := Constant None (Const_int (as_int (ct_value c)))\<rparr>"
    have "mi_result ?i = r" "fresh_inst (nv lw) ?i" by (simp_all add: fresh_defs)
    from m [OF t this] show ?thesis using False t noted_ok [of env P R "emit ?i lw1" r c] g by (auto simp: lower_answered_def)
  qed
qed

lemma read_sound:
  assumes "sound_place env (lower_p e)"
  shows "sound_value env (lower_read env lower_p e)"
proof (rule sound_valueI)
  fix P R lw assume ok: "lw_ok env P R lw"
  obtain p lw1 where 1: "lower_p e lw = Some (p, lw1)" "lw_ok env P R lw1" "grown lw lw1" "value_ok (nv lw1) (pl_base p)"
    by (rule sound_placeE [OF assms ok])
  let ?rd = "if fact_moves (le_facts env) (expr_at e) then READ_MOVE else READ_COPY"
  obtain v lw2 where "lower_load_from p (type_at env e) ?rd (expr_span e) lw1 = (v, lw2)" "lw_ok env P R lw2" "grown lw1 lw2" "v < nv lw2"
    by (rule load_from_ok [OF 1(2,4)])
  then show "\<exists>v lw'. lower_read env lower_p e lw = Some (v, lw') \<and> lw_ok env P R lw' \<and> grown lw lw' \<and> value_ok (nv lw') v"
    using 1 grown_trans [OF 1(3)] by (simp add: lower_read_def value_ok_def)
qed

text \<open>A result set aside, then the place it is read or borrowed from.\<close>

lemma placed_result_ok:
  assumes "sound_place env f" "lw_ok env P R lw" "lower_temp t sp lw = (r, lw1)" "op \<in> {MIR_REF, MIR_LOAD}"
    "\<And>p. pl_base (g p) = pl_base p"
  shows "\<exists>p lw2. f lw1 = Some (p, lw2) \<and> lw_ok env P R (emit ((inst_of op t' r sp)\<lparr>mi_place := g p\<rparr>) lw2) \<and> grown lw lw2 \<and> r < nv lw2"
proof -
  have 1: "lw_ok env P (insert r R) lw1" "r \<notin> R" "r < nv lw1" "grown lw lw1"
    using lower_temp_ok [OF assms(2), of t sp] assms(3) by (metis lessI prod.inject)+
  obtain p lw2 where 2: "f lw1 = Some (p, lw2)" "lw_ok env P (insert r R) lw2" "grown lw1 lw2" "value_ok (nv lw2) (pl_base p)"
    by (rule sound_placeE [OF assms(1) 1(1)])
  have r: "r < nv lw2" using 1(3) 2(3) by (simp add: grown_def)
  let ?i = "(inst_of op t' r sp)\<lparr>mi_place := g p\<rparr>"
  have "mi_result ?i = r" "fresh_inst (nv lw2) ?i" "mi_args ?i = []" using assms(4) 2(4) assms(5) by (auto simp: fresh_defs)
  then have "lw_ok env P R (emit ?i lw2)" by (rule late_ok(1) [OF 2(2) 1(2) r])
  then show ?thesis using 2(1) r grown_trans [OF 1(4) 2(3)] by blast
qed

lemma addr_of_sound:
  assumes "sound_place env (lower_p target)"
  shows "sound_value env (lower_addr_of env lower_p e target)"
proof (rule sound_valueI)
  fix P R lw assume ok: "lw_ok env P R lw"
  obtain r lw1 where 1: "lower_temp (type_at env e) (expr_span e) lw = (r, lw1)" by fastforce
  show "\<exists>v lw'. lower_addr_of env lower_p e target lw = Some (v, lw') \<and> lw_ok env P R lw' \<and> grown lw lw' \<and> value_ok (nv lw') v"
    using placed_result_ok [where f = "lower_p target", OF assms ok 1, of MIR_REF "\<lambda>p. p" "type_at env e"] 1 by (auto simp: lower_addr_of_def value_ok_def)
qed

lemma fold_projects_base [simp]: "pl_base (fold (\<lambda>t p. mir_place_project p (q t)) ts p) = pl_base p"
  by (induction ts arbitrary: p) simp_all

lemma reached_ok:
  assumes "sound_place env (lower_p e)" "lw_ok env P R lw" "op \<in> {MIR_REF, MIR_LOAD}"
  shows "\<exists>r lw'. lower_reached lower_p op t e adj lw = Some (r, lw') \<and> lw_ok env P R lw' \<and> grown lw lw' \<and> r < nv lw'"
proof -
  obtain r lw1 where 1: "lower_temp t (expr_span e) lw = (r, lw1)" by fastforce
  show ?thesis
    using placed_result_ok [where f = "lower_p e", OF assms(1,2) 1 assms(3), of "fold (\<lambda>t place. mir_place_project place (deref_projection t)) (ad_deref_types adj)" t] 1
    by (auto simp: lower_reached_def lower_adjusted_place_def)
qed

lemma reached_sound:
  "sound_place env (lower_p e) \<Longrightarrow> op \<in> {MIR_REF, MIR_LOAD} \<Longrightarrow> sound_value env (lower_reached lower_p op t e adj)"
  by (rule sound_valueI) (metis reached_ok value_ok_def)

lemma unsize_sound:
  assumes "sound_place env (lower_p e)"
  shows "sound_value env (lower_unsize env lower_p e adj)"
proof (rule sound_valueI)
  fix P R lw assume ok: "lw_ok env P R lw"
  let ?u = "if ad_deref_types adj = [] then type_at env e else last (ad_deref_types adj)" and ?sp = "expr_span e"
  obtain d lw1 where 1: "lower_reached lower_p MIR_REF (Some (type_registry_raw_of (le_registry env) ?u)) e adj lw = Some (d, lw1)"
      "lw_ok env P R lw1" "grown lw lw1" "d < nv lw1"
    using reached_ok [where lower_p = lower_p and e = e, OF assms ok, of MIR_REF "Some (type_registry_raw_of (le_registry env) ?u)" adj] by blast
  obtain l lw2 where 2: "lower_temp (i32_type_of env) ?sp lw1 = (l, lw2)" by fastforce
  let ?lw3 = "emit ((inst_of MIR_CONST_INT (i32_type_of env) l ?sp)\<lparr>mi_constant := Constant None (Const_int (scast (ad_length adj)))\<rparr>) lw2"
  have 3: "lw_ok env P R ?lw3" "grown lw1 ?lw3" "value_ok (nv ?lw3) l"
    by (rule made_ok [OF 1(2) 2]; simp add: fresh_defs)+
  obtain r lw4 where 4: "lower_temp (ad_to adj) ?sp ?lw3 = (r, lw4)" by fastforce
  let ?i = "(inst_of MIR_MAKE_SLICE (ad_to adj) r ?sp)\<lparr>mi_args := lower_args [d, l]\<rparr>"
  have d: "value_ok (nv ?lw3) d" using 1(4) 3(2) by (simp add: value_ok_def grown_def)
  then have f: "mi_result ?i = r" "fresh_inst (nv ?lw3) ?i" using 3(3) by (auto simp: fresh_defs)
  note 5 = made_ok [OF 3(1) 4 f]
  show "\<exists>v lw'. lower_unsize env lower_p e adj lw = Some (v, lw') \<and> lw_ok env P R lw' \<and> grown lw lw' \<and> value_ok (nv lw') v"
    using 1(1) 2 4 5 grown_trans [OF grown_trans [OF 1(3) 3(2)] 5(2)] by (auto simp: lower_unsize_def Let_def)
qed

end
