(* ===== verification/Lower_Correct.thy ===== *)
theory Lower_Correct
  imports Lower_Sound
begin

text \<open>
  Which resolved trees are lowered, and that what comes out is well formed: \<open>lowers_value\<close> and its
  companions say what lowering relies on of an expression and its facts, and an induction over them shows
  that every number of steps from some point on is enough for a sound answer.  Statements follow by
  recursion on the tree, and whole functions from both.
\<close>

unbundle bit_operations_syntax

section \<open>Expressions that are lowered\<close>

fun is_place_kind :: "rexpr \<Rightarrow> bool" where
  "is_place_kind (EXPR_NAME nd name owner) = True"
| "is_place_kind (EXPR_FIELD nd t name) = True"
| "is_place_kind (EXPR_DEREF nd t) = True"
| "is_place_kind (EXPR_INDEX nd t i) = True"
| "is_place_kind _ = False"

fun is_call :: "rexpr \<Rightarrow> bool" where
  "is_call (EXPR_CALL nd t args) = True"
| "is_call _ = False"

definition unadjusted :: "lower_env \<Rightarrow> rexpr \<Rightarrow> bool" where
  "unadjusted env e \<longleftrightarrow> (let adj = fact_adjustment (le_facts env) (expr_at e) in ad_kind adj = ADJUST_NONE \<and> ad_deref_types adj = [])"

definition indexed_at :: "lower_env \<Rightarrow> rexpr \<Rightarrow> gtype \<Rightarrow> bool" where
  "indexed_at env e inner \<longleftrightarrow> (\<exists>c. type_at env e = Some c \<and> mir_indexed_container (Some c) = Some inner)"

definition has_element :: "gtype \<Rightarrow> bool" where
  "has_element container \<longleftrightarrow>
     (case ty_kind container of TYPE_ARRAY \<Rightarrow> type_array_element (Some container) \<noteq> None | TYPE_RAW \<Rightarrow> True
      | _ \<Rightarrow> type_slice_element (Some container) \<noteq> None)"

inductive lowers_value :: "lower_env \<Rightarrow> rexpr \<Rightarrow> bool"
  and lowers_plain :: "lower_env \<Rightarrow> rexpr \<Rightarrow> bool"
  and lowers_place :: "lower_env \<Rightarrow> rexpr \<Rightarrow> bool"
  and lowers_call :: "lower_env \<Rightarrow> rexpr \<Rightarrow> bool"
  and lowers_into :: "lower_env \<Rightarrow> rexpr \<Rightarrow> bool" for env where
  value_plain: "unadjusted env e \<Longrightarrow> lowers_plain env e \<Longrightarrow> lowers_value env e"
| value_adjusted: "\<not> unadjusted env e \<Longrightarrow> lowers_place env e \<Longrightarrow> lowers_value env e"
| plain_constant: "fact_constant_of (le_facts env) (expr_at e) \<noteq> None \<Longrightarrow> lowers_plain env e"
| plain_literal: "lowers_plain env (EXPR_LITERAL nd lit)"
| plain_bin_op: "lowers_value env a \<Longrightarrow> lowers_value env b \<Longrightarrow> lowers_plain env (EXPR_BIN_OP nd a op b)"
| plain_neg: "lowers_value env a \<Longrightarrow> lowers_plain env (EXPR_NEG nd a)"
| plain_not: "lowers_value env a \<Longrightarrow> lowers_plain env (EXPR_NOT nd a)"
| plain_addr_of: "lowers_place env a \<Longrightarrow> lowers_plain env (EXPR_ADDR_OF nd a)"
| plain_builtin: "lowers_plain env (EXPR_BUILTIN nd name t)"
| plain_place: "is_place_kind e \<Longrightarrow> lowers_place env e \<Longrightarrow> lowers_plain env e"
| plain_call: "is_call e \<Longrightarrow> lowers_call env e \<Longrightarrow> lowers_plain env e"
| plain_struct: "lowers_into env (EXPR_STRUCT_LIT nd t inits) \<Longrightarrow> lowers_plain env (EXPR_STRUCT_LIT nd t inits)"
| plain_array: "\<forall>x \<in> set es. lowers_value env x \<Longrightarrow> lowers_plain env (EXPR_ARRAY_LIT nd es)"
| place_name: "lowers_place env (EXPR_NAME nd name owner)"
| place_field: "lowers_place env a \<Longrightarrow> lowers_place env (EXPR_FIELD nd a name)"
| place_deref: "fact_call_kind (le_facts env) (expr_at (EXPR_DEREF nd a)) \<noteq> CALL_DEREF \<Longrightarrow> lowers_place env a \<Longrightarrow>
    lowers_place env (EXPR_DEREF nd a)"
| place_deref_call: "fact_call_kind (le_facts env) (expr_at (EXPR_DEREF nd a)) = CALL_DEREF \<Longrightarrow>
    lowers_call env (EXPR_DEREF nd a) \<Longrightarrow> lowers_place env (EXPR_DEREF nd a)"
| place_index: "fact_call_kind (le_facts env) (expr_at (EXPR_INDEX nd a i)) \<noteq> CALL_INDEX \<Longrightarrow> lowers_place env a \<Longrightarrow>
    lowers_value env i \<Longrightarrow> indexed_at env a inner \<Longrightarrow> lowers_place env (EXPR_INDEX nd a i)"
| place_index_call: "fact_call_kind (le_facts env) (expr_at (EXPR_INDEX nd a i)) = CALL_INDEX \<Longrightarrow>
    lowers_call env (EXPR_INDEX nd a i) \<Longrightarrow> lowers_place env (EXPR_INDEX nd a i)"
| place_value: "\<not> is_place_kind e \<Longrightarrow> lowers_value env e \<Longrightarrow> lowers_place env e"
| call_builtin: "builtin_target e = Some t \<Longrightarrow> lowers_value env t \<Longrightarrow> lowers_call env e"
| call_copy: "intrinsic_on env e r \<Longrightarrow> type_is_str_ref (type_at env r) \<Longrightarrow> lowers_value env r \<Longrightarrow> lowers_call env e"
| call_length: "intrinsic_on env e r \<Longrightarrow> \<not> type_is_str_ref (type_at env r) \<Longrightarrow> call_args e = Some [] \<Longrightarrow>
    indexed_at env r container \<Longrightarrow> ty_kind container = TYPE_ARRAY \<or> lowers_value env r \<Longrightarrow> lowers_call env e"
| call_lent: "intrinsic_on env e r \<Longrightarrow> \<not> type_is_str_ref (type_at env r) \<Longrightarrow> call_args e = Some (i # is') \<Longrightarrow>
    indexed_at env r container \<Longrightarrow> has_element container \<Longrightarrow> call_result_type env e \<noteq> None \<Longrightarrow> lowers_place env r \<Longrightarrow>
    lowers_value env i \<Longrightarrow> lowers_call env e"
| call_conversion: "no_intrinsic env e \<Longrightarrow> fact_call_kind (le_facts env) (expr_at e) = CALL_CONVERSION \<Longrightarrow>
    e = EXPR_CALL nd t (x # xs) \<Longrightarrow> type_at env e \<noteq> None \<Longrightarrow> type_at env x \<noteq> None \<Longrightarrow> lowers_value env x \<Longrightarrow> lowers_call env e"
| call_function: "no_intrinsic env e \<Longrightarrow> fact_call_kind (le_facts env) (expr_at e) \<noteq> CALL_CONVERSION \<Longrightarrow>
    callee_at env e = Some callee \<Longrightarrow> call_receiver env e = Some receiver \<Longrightarrow> call_args e = Some written \<Longrightarrow>
    \<forall>x \<in> set (case receiver of Some r \<Rightarrow> r # written | None \<Rightarrow> written). lowers_value env x \<Longrightarrow>
    \<forall>j \<le> length written. callee_takes_slot env callee j \<noteq> None \<Longrightarrow> call_result_type env e \<noteq> None \<Longrightarrow> lowers_call env e"
| into_struct: "\<forall>p \<in> set inits. (is_struct_lit (snd p) \<longrightarrow> lowers_into env (snd p)) \<and> (\<not> is_struct_lit (snd p) \<longrightarrow> lowers_value env (snd p)) \<Longrightarrow>
    lowers_into env (EXPR_STRUCT_LIT nd t inits)"

text \<open>What each of them is worth after \<open>n\<close> steps.\<close>

abbreviation sound_plain_at :: "lower_env \<Rightarrow> rexpr \<Rightarrow> nat \<Rightarrow> bool" where
  "sound_plain_at env e n \<equiv> sound_value env (lower_unadjusted env (lower_expr n env) (lower_place n env) (lower_into n env) e)"

abbreviation sound_call_at :: "lower_env \<Rightarrow> rexpr \<Rightarrow> nat \<Rightarrow> bool" where
  "sound_call_at env e n \<equiv> sound_value env (lower_call env (lower_expr n env) (lower_place n env) e)"

lemma eventually_later: "eventually Q sequentially \<Longrightarrow> (\<And>n. Q n \<Longrightarrow> Q' (Suc n)) \<Longrightarrow> eventually Q' sequentially"
  by (rule eventually_sequentially_Suc [THEN iffD1]) (rule eventually_mono)

lemma eventually_two: "eventually Q sequentially \<Longrightarrow> eventually Q' sequentially \<Longrightarrow> (\<And>n. Q n \<Longrightarrow> Q' n \<Longrightarrow> Q'' n) \<Longrightarrow>
    eventually Q'' sequentially"
  by (auto elim: eventually_elim2)

lemma sound_eq: "f = g \<Longrightarrow> sound_value env f \<Longrightarrow> sound_value env g" by simp
lemma sound_place_eq: "f = g \<Longrightarrow> sound_place env f \<Longrightarrow> sound_place env g" by simp

lemma value_plain_step:
  "unadjusted env e \<Longrightarrow> sound_plain_at env e n \<Longrightarrow> sound_value env (lower_expr (Suc n) env e)"
  by (erule sound_eq [rotated]) (auto simp: fun_eq_iff expr_step_def unadjusted_def Let_def split: adjust_kind.split)

lemma value_adjusted_step:
  assumes "\<not> unadjusted env e" "sound_place env (lower_place n env e)"
  shows "sound_value env (lower_expr (Suc n) env e)"
proof -
  let ?adj = "fact_adjustment (le_facts env) (expr_at e)"
  have r: "sound_value env (lower_reached (lower_place n env) op t e ?adj)" if "op \<in> {MIR_REF, MIR_LOAD}" for op t
    using reached_sound [where lower_p = "lower_place n env" and e = e, OF assms(2) that] .
  have u: "sound_value env (lower_unsize env (lower_place n env) e ?adj)"
    using unsize_sound [where lower_p = "lower_place n env" and e = e, OF assms(2)] .
  have s: "sound_value env (expr_step env (lower_expr n env) (lower_place n env) (lower_into n env) e)"
  proof (cases "ad_kind ?adj")
    case ADJUST_NONE
    then have "expr_step env (lower_expr n env) (lower_place n env) (lower_into n env) e =
        lower_reached (lower_place n env) MIR_LOAD (last (ad_deref_types ?adj)) e ?adj"
      using assms(1) by (auto simp: fun_eq_iff expr_step_def unadjusted_def Let_def)
    then show ?thesis using r by simp
  next
    case ADJUST_BORROW
    then have "expr_step env (lower_expr n env) (lower_place n env) (lower_into n env) e =
        lower_reached (lower_place n env) MIR_REF (ad_to ?adj) e ?adj"
      by (auto simp: fun_eq_iff expr_step_def Let_def)
    then show ?thesis using r by simp
  next
    case ADJUST_UNSIZE
    then have "expr_step env (lower_expr n env) (lower_place n env) (lower_into n env) e = lower_unsize env (lower_place n env) e ?adj"
      by (auto simp: fun_eq_iff expr_step_def Let_def)
    then show ?thesis using u by simp
  qed
  have "lower_expr (Suc n) env e = expr_step env (lower_expr n env) (lower_place n env) (lower_into n env) e"
    by (simp add: fun_eq_iff)
  then show ?thesis using s by simp
qed

lemma sound_cong: "sound_value env g \<Longrightarrow> (\<And>lw. f lw = g lw) \<Longrightarrow> sound_value env f"
  by (simp add: sound_value_def)

lemma sound_place_cong: "sound_place env g \<Longrightarrow> (\<And>lw. f lw = g lw) \<Longrightarrow> sound_place env f"
  by (simp add: sound_place_def)

text \<open>An expression no fact answers is lowered by its kind; an answered one from the fact.\<close>

lemma plain_by_kind:
  assumes "sound_value env g"
    "\<And>lw. fact_constant_of (le_facts env) (expr_at e) = None \<Longrightarrow> lower_unadjusted env lower_e lower_p lower_s e lw = g lw"
  shows "sound_value env (lower_unadjusted env lower_e lower_p lower_s e)"
proof (cases "fact_constant_of (le_facts env) (expr_at e)")
  case None
  then show ?thesis using assms(2) by (intro sound_cong [OF assms(1)]) simp
next
  case (Some c)
  show ?thesis by (rule sound_cong [OF answered_sound [of env e c]]) (simp add: lower_unadjusted_def Some)
qed

lemma name_read_sound:
  assumes "sound_place env (lower_p e)"
  shows "sound_value env (\<lambda>lw. let v = local_value lw b
     in if \<not> mir_value_is_none v \<and> \<not> moves then Some (v, lw) else lower_read env lower_p e lw)"
proof (rule sound_valueI)
  fix P R lw assume ok: "lw_ok env P R lw"
  obtain v lw' where "lower_read env lower_p e lw = Some (v, lw')" "lw_ok env P R lw'" "grown lw lw'" "value_ok (nv lw') v"
    by (rule sound_valueE [OF read_sound [where lower_p = lower_p and e = e, OF assms] ok])
  then show "\<exists>v lw'. (let v = local_value lw b in if \<not> mir_value_is_none v \<and> \<not> moves then Some (v, lw)
      else lower_read env lower_p e lw) = Some (v, lw') \<and> lw_ok env P R lw' \<and> grown lw lw' \<and> value_ok (nv lw') v"
    using ok local_value_ok [OF ok, of b] by (simp add: Let_def)
qed

lemma plain_place_step:
  assumes "is_place_kind e" "sound_place env (lower_p e)"
  shows "sound_value env (lower_unadjusted env lower_e lower_p lower_s e)"
  using assms(1)
proof (cases e)
  case (EXPR_NAME nd name owner)
  show ?thesis
    by (rule plain_by_kind [OF name_read_sound [where lower_p = lower_p and e = e, OF assms(2),
          of "fact_use_of (le_facts env) (expr_at e)" "fact_moves (le_facts env) (expr_at e)"]])
      (simp add: lower_unadjusted_def EXPR_NAME [symmetric], simp add: lower_unadjusted_def EXPR_NAME)
qed (simp_all add: lower_unadjusted_def plain_by_kind [OF read_sound [where lower_p = lower_p and e = e, OF assms(2)]])

lemma caller_location_sound: "sound_value env (\<lambda>lw. Some (lw_caller_location lw, lw))"
  by (rule sound_valueI) (auto dest: lw_okD(10))

lemma place_value_step: "\<not> is_place_kind e \<Longrightarrow> sound_value env (lower_expr n env e) \<Longrightarrow> sound_place env (lower_place (Suc n) env e)"
  by (rule sound_place_cong [OF started_sound [where g = "\<lambda>v. mir_place_of v None"]], assumption)
    (cases e; simp add: place_step_def mir_place_of_def)+

section \<open>Calls that are lowered\<close>

lemma call_length_step:
  assumes "intrinsic_on env e r" "\<not> type_is_str_ref (type_at env r)" "call_args e = Some []" "indexed_at env r container"
    "ty_kind container = TYPE_ARRAY \<or> sound_value env (lower_e r)"
  shows "sound_value env (lower_call env lower_e lower_p e)"
proof (rule intrinsic_call [OF assms(1)])
  obtain c where c: "type_at env r = Some c" "mir_indexed_container (Some c) = Some container"
    using assms(4) by (auto simp: indexed_at_def)
  show "sound_value env (lower_intrinsic env lower_e lower_p e r)"
  proof (cases "ty_kind container = TYPE_ARRAY")
    case True
    show ?thesis by (rule sound_cong [OF array_length_sound [OF array_length_known, of env e container]])
      (use assms(2,3) c True in \<open>simp add: lower_intrinsic_def del: type_is_str_ref.simps mir_indexed_container.simps\<close>)
  next
    case False
    then have s: "sound_value env (lower_operation env lower_e MIR_SLICE_LEN e r)"
      using operation_sound [of env lower_e r MIR_SLICE_LEN e] assms(5) by simp
    show ?thesis by (rule sound_cong [OF s]) (use assms(2,3) c False in \<open>simp add: lower_intrinsic_def del: type_is_str_ref.simps mir_indexed_container.simps\<close>)
  qed
qed

lemma call_copy_step:
  assumes "intrinsic_on env e r" "type_is_str_ref (type_at env r)" "sound_value env (lower_e r)"
  shows "sound_value env (lower_call env lower_e lower_p e)"
proof (rule intrinsic_call [OF assms(1)])
  have s: "sound_value env (lower_operation env lower_e MIR_COPY e r)"
    using operation_sound [of env lower_e r MIR_COPY e] assms(3) by simp
  show "sound_value env (lower_intrinsic env lower_e lower_p e r)"
    by (rule sound_cong [OF s]) (use assms(2) in \<open>simp add: lower_intrinsic_def del: type_is_str_ref.simps mir_indexed_container.simps\<close>)
qed

lemma call_lent_step:
  assumes "intrinsic_on env e r" "\<not> type_is_str_ref (type_at env r)" "call_args e = Some (i # is')"
    "indexed_at env r container" "has_element container" "call_result_type env e \<noteq> None"
    "sound_place env (lower_p r)" "sound_value env (lower_e i)"
  shows "sound_value env (lower_call env lower_e lower_p e)"
proof (rule intrinsic_call [OF assms(1)])
  obtain c where c: "type_at env r = Some c" "mir_indexed_container (Some c) = Some container"
    using assms(4) by (auto simp: indexed_at_def)
  have s: "sound_value env (lower_lent env lower_e lower_p e r container i)"
    using lent_sound [where lower_p = lower_p and lower_e = lower_e, OF assms(7,8) c assms(6)] assms(5)
    by (simp add: has_element_def)
  show "sound_value env (lower_intrinsic env lower_e lower_p e r)"
    by (rule sound_cong [OF s]) (use assms(2,3) c in \<open>simp add: lower_intrinsic_def del: type_is_str_ref.simps mir_indexed_container.simps\<close>)
qed

lemma no_intrinsic_call:
  assumes "no_intrinsic env e"
  shows "lower_call env lower_e lower_p e lw =
    (if fact_call_kind (le_facts env) (expr_at e) = CALL_CONVERSION then lower_conversion env lower_e e lw
     else do { callee \<leftarrow> callee_at env e; receiver \<leftarrow> call_receiver env e; written \<leftarrow> call_args e;
               lower_call_of env lower_e e callee receiver written lw })"
  using ordinary_call [OF assms] assms
  by (auto simp: lower_call_def no_intrinsic_def callee_at_def split: option.splits)

lemma call_conversion_step:
  assumes "no_intrinsic env e" "fact_call_kind (le_facts env) (expr_at e) = CALL_CONVERSION" "e = EXPR_CALL nd t (x # xs)"
    "type_at env e \<noteq> None" "type_at env x \<noteq> None" "sound_value env (lower_e x)"
  shows "sound_value env (lower_call env lower_e lower_p e)"
  by (rule sound_cong [OF conversion_sound [where lower_e = lower_e and x = x, OF assms(3-6)]])
    (simp add: no_intrinsic_call [OF assms(1)] assms(2))

lemma call_function_step:
  assumes "no_intrinsic env e" "fact_call_kind (le_facts env) (expr_at e) \<noteq> CALL_CONVERSION"
    "callee_at env e = Some callee" "call_receiver env e = Some receiver" "call_args e = Some written"
    "\<forall>x \<in> set (case receiver of Some r \<Rightarrow> r # written | None \<Rightarrow> written). sound_value env (lower_e x)"
    "\<forall>j \<le> length written. callee_takes_slot env callee j \<noteq> None" "call_result_type env e \<noteq> None"
  shows "sound_value env (lower_call env lower_e lower_p e)"
  by (rule sound_cong [OF call_of_sound [where lower_e = lower_e, OF assms(6-8)]])
    (simp add: no_intrinsic_call [OF assms(1)] assms(2-5))

section \<open>Enough steps lower every such expression\<close>

lemma eventually_ball: "\<forall>x \<in> set xs. eventually (Q x) sequentially \<Longrightarrow> eventually (\<lambda>n. \<forall>x \<in> set xs. Q x n) sequentially"
  by (simp add: eventually_ball_finite)

lemma into_step_sound:
  assumes "\<forall>p \<in> set inits. (is_struct_lit (snd p) \<longrightarrow> sound_into env (lower_into n env (snd p))) \<and>
      (\<not> is_struct_lit (snd p) \<longrightarrow> sound_value env (lower_expr n env (snd p)))"
  shows "sound_into env (lower_into (Suc n) env (EXPR_STRUCT_LIT nd t inits))"
proof (rule sound_intoI)
  fix base :: place and P R lw assume ok: "lw_ok env P R lw" "value_ok (nv lw) (pl_base base)"
  have "\<exists>lw'. lower_inits env (lower_expr n env) (lower_into n env) base inits lw = Some lw' \<and> lw_ok env P R lw' \<and> grown lw lw'"
    by (rule inits_ok [OF _ _ ok]) (use assms in blast)+
  then show "\<exists>lw'. lower_into (Suc n) env (EXPR_STRUCT_LIT nd t inits) base lw = Some lw' \<and> lw_ok env P R lw' \<and> grown lw lw'"
    by (simp add: into_step_def)
qed

lemma lowers_sound:
  "lowers_value env e \<Longrightarrow> eventually (\<lambda>n. sound_value env (lower_expr n env e)) sequentially"
  "lowers_plain env e \<Longrightarrow> eventually (sound_plain_at env e) sequentially"
  "lowers_place env e \<Longrightarrow> eventually (\<lambda>n. sound_place env (lower_place n env e)) sequentially"
  "lowers_call env e \<Longrightarrow> eventually (sound_call_at env e) sequentially"
  "lowers_into env e \<Longrightarrow> eventually (\<lambda>n. sound_into env (lower_into n env e)) sequentially"
proof (induction rule: lowers_value_lowers_plain_lowers_place_lowers_call_lowers_into.inducts)
  case (value_plain e)
  show ?case by (rule eventually_later [OF value_plain(3)]) (rule value_plain_step [OF value_plain(1)])
next
  case (value_adjusted e)
  show ?case by (rule eventually_later [OF value_adjusted(3)]) (rule value_adjusted_step [OF value_adjusted(1)])
next
  case (plain_constant e)
  then obtain c where c: "fact_constant_of (le_facts env) (expr_at e) = Some c" by blast
  have "sound_plain_at env e n" for n
    by (rule sound_cong [OF answered_sound [of env e c]]) (simp add: lower_unadjusted_def c)
  then show ?case by simp
next
  case (plain_literal nd lit)
  have "sound_plain_at env (EXPR_LITERAL nd lit) n" for n
    by (rule plain_by_kind [OF literal_sound]) (simp add: lower_unadjusted_def)
  then show ?case by simp
next
  case (plain_bin_op a b nd op)
  show ?case
  proof (rule eventually_two [OF plain_bin_op(2,4)])
    fix n assume "sound_value env (lower_expr n env a)" "sound_value env (lower_expr n env b)"
    from bin_op_sound [where lower_e = "lower_expr n env", OF this]
    show "sound_plain_at env (EXPR_BIN_OP nd a op b) n" by (rule plain_by_kind) (simp add: lower_unadjusted_def)
  qed
next
  case (plain_neg a nd)
  show ?case
  proof (rule eventually_mono [OF plain_neg(2)])
    fix n assume "sound_value env (lower_expr n env a)"
    from unary_sound [where lower_e = "lower_expr n env", OF this, of MIR_NEG]
    show "sound_plain_at env (EXPR_NEG nd a) n" by (intro plain_by_kind) (auto simp: lower_unadjusted_def)
  qed
next
  case (plain_not a nd)
  show ?case
  proof (rule eventually_mono [OF plain_not(2)])
    fix n assume "sound_value env (lower_expr n env a)"
    from unary_sound [where lower_e = "lower_expr n env", OF this, of MIR_NOT]
    show "sound_plain_at env (EXPR_NOT nd a) n" by (intro plain_by_kind) (auto simp: lower_unadjusted_def)
  qed
next
  case (plain_addr_of a nd)
  show ?case
  proof (rule eventually_mono [OF plain_addr_of(2)])
    fix n assume "sound_place env (lower_place n env a)"
    from addr_of_sound [where lower_p = "lower_place n env", OF this]
    show "sound_plain_at env (EXPR_ADDR_OF nd a) n" by (rule plain_by_kind) (simp add: lower_unadjusted_def)
  qed
next
  case (plain_builtin nd name t)
  have "sound_plain_at env (EXPR_BUILTIN nd name t) n" for n
    by (rule plain_by_kind [OF caller_location_sound]) (simp add: lower_unadjusted_def)
  then show ?case by simp
next
  case (plain_place e)
  show ?case by (rule eventually_mono [OF plain_place(3)]) (rule plain_place_step [OF plain_place(1)])
next
  case (plain_call e)
  show ?case
  proof (rule eventually_mono [OF plain_call(3)])
    fix n assume s: "sound_call_at env e n"
    obtain nd t args where e: "e = EXPR_CALL nd t args" using plain_call(1) by (cases e) auto
    show "sound_plain_at env e n" by (rule plain_by_kind [OF s]) (simp add: lower_unadjusted_def e)
  qed
next
  case (plain_struct nd t inits)
  show ?case
  proof (rule eventually_mono [OF plain_struct(2)])
    fix n assume "sound_into env (lower_into n env (EXPR_STRUCT_LIT nd t inits))"
    from struct_lit_sound [where lower_s = "lower_into n env", OF this]
    show "sound_plain_at env (EXPR_STRUCT_LIT nd t inits) n" by (rule plain_by_kind) (simp add: lower_unadjusted_def)
  qed
next
  case (plain_array es nd)
  then have "eventually (\<lambda>n. \<forall>x \<in> set es. sound_value env (lower_expr n env x)) sequentially" by (intro eventually_ball) blast
  then show ?case
  proof (rule eventually_mono)
    fix n assume "\<forall>x \<in> set es. sound_value env (lower_expr n env x)"
    from array_lit_sound [where lower_e = "lower_expr n env", OF this]
    show "sound_plain_at env (EXPR_ARRAY_LIT nd es) n" by (rule plain_by_kind) (simp add: lower_unadjusted_def)
  qed
next
  case (place_name nd name owner)
  have "sound_place env (lower_place (Suc n) env (EXPR_NAME nd name owner))" for n
    by (rule sound_place_cong [OF name_place_sound]) simp
  then show ?case by (subst eventually_sequentially_Suc [symmetric]) (rule always_eventually, blast)
next
  case (place_field a nd name)
  show ?case
  proof (rule eventually_later [OF place_field(2)])
    fix n assume s: "sound_place env (lower_place n env a)"
    show "sound_place env (lower_place (Suc n) env (EXPR_FIELD nd a name))"
      by (rule sound_place_cong [OF projected_sound [OF s, where g = "\<lambda>place. mir_place_project (deref_through place (type_at env a))
            \<lparr>pr_kind = PROJ_FIELD, pr_id = fact_field_of (le_facts env) (expr_at (EXPR_FIELD nd a name)) mod 4294967296,
             pr_type = type_at env (EXPR_FIELD nd a name)\<rparr>"]]) (simp_all add: place_step_def)
  qed
next
  case (place_deref nd a)
  show ?case
  proof (rule eventually_later [OF place_deref(3)])
    fix n assume s: "sound_place env (lower_place n env a)"
    show "sound_place env (lower_place (Suc n) env (EXPR_DEREF nd a))"
      by (rule sound_place_cong [OF projected_sound [OF s, where g = "\<lambda>place. mir_place_project place
            \<lparr>pr_kind = PROJ_DEREF, pr_id = 0, pr_type = type_at env (EXPR_DEREF nd a)\<rparr>"]])
        (use place_deref(1) in \<open>simp_all add: place_step_def\<close>)
  qed
next
  case (place_deref_call nd a)
  show ?case
  proof (rule eventually_later [OF place_deref_call(3)])
    fix n assume s: "sound_call_at env (EXPR_DEREF nd a) n"
    show "sound_place env (lower_place (Suc n) env (EXPR_DEREF nd a))"
      by (rule sound_place_cong [OF started_sound [OF s, where g = "\<lambda>v. mir_place_project (mir_place_of v None)
            \<lparr>pr_kind = PROJ_DEREF, pr_id = 0, pr_type = type_at env (EXPR_DEREF nd a)\<rparr>"]])
        (use place_deref_call(1) in \<open>simp_all add: place_step_def mir_place_of_def\<close>)
  qed
next
  case (place_index nd a i inner)
  obtain c where c: "type_at env a = Some c" "mir_indexed_container (Some c) = Some inner"
    using place_index by (auto simp: indexed_at_def)
  show ?case
  proof (rule eventually_later [OF eventually_conj [OF place_index(3,5)]])
    fix n assume s: "sound_place env (lower_place n env a) \<and> sound_value env (lower_expr n env i)"
    show "sound_place env (lower_place (Suc n) env (EXPR_INDEX nd a i))"
      by (rule sound_place_cong [OF indexed_place_sound [where lower_p = "lower_place n env" and lower_e = "lower_expr n env",
            OF conjunct1 [OF s] conjunct2 [OF s] c]])
        (use place_index(1) in \<open>simp add: place_step_def\<close>)
  qed
next
  case (place_index_call nd a i)
  show ?case
  proof (rule eventually_later [OF place_index_call(3)])
    fix n assume s: "sound_call_at env (EXPR_INDEX nd a i) n"
    show "sound_place env (lower_place (Suc n) env (EXPR_INDEX nd a i))"
      by (rule sound_place_cong [OF started_sound [OF s, where g = "\<lambda>v. mir_place_project (mir_place_of v None)
            \<lparr>pr_kind = PROJ_DEREF, pr_id = 0, pr_type = type_at env (EXPR_INDEX nd a i)\<rparr>"]])
        (use place_index_call(1) in \<open>simp_all add: place_step_def mir_place_of_def\<close>)
  qed
next
  case (place_value e)
  show ?case by (rule eventually_later [OF place_value(3)]) (rule place_value_step [OF place_value(1)])
next
  case (call_builtin e t)
  show ?case by (rule eventually_mono [OF call_builtin(3)], erule sound_cong) (simp add: lower_call_def call_builtin(1))
next
  case (call_copy e r)
  show ?case by (rule eventually_mono [OF call_copy(4)]) (rule call_copy_step [OF call_copy(1,2)])
next
  case (call_length e r container)
  have "eventually (\<lambda>n. ty_kind container = TYPE_ARRAY \<or> sound_value env (lower_expr n env r)) sequentially"
    using call_length by (cases "ty_kind container = TYPE_ARRAY") auto
  then show ?case
    by (rule eventually_mono) (rule call_length_step [where r = r and container = container]; (assumption | rule call_length))
next
  case (call_lent e r i is' container)
  have p: "eventually (\<lambda>n. sound_place env (lower_place n env r)) sequentially"
    and v: "eventually (\<lambda>n. sound_value env (lower_expr n env i)) sequentially" by (fact call_lent)+
  show ?case by (rule eventually_two [OF p v])
      (rule call_lent_step [where r = r and i = i and container = container]; (assumption | rule call_lent))
next
  case (call_conversion e nd t x xs)
  have v: "eventually (\<lambda>n. sound_value env (lower_expr n env x)) sequentially" by (fact call_conversion)
  show ?case by (rule eventually_mono [OF v]) (rule call_conversion_step [where x = x]; (assumption | rule call_conversion))
next
  case (call_function e callee receiver written)
  have "eventually (\<lambda>n. \<forall>x \<in> set (case receiver of Some r \<Rightarrow> r # written | None \<Rightarrow> written). sound_value env (lower_expr n env x)) sequentially"
    using call_function by (intro eventually_ball) blast
  then show ?case
    by (rule eventually_mono)
      (rule call_function_step [where callee = callee and receiver = receiver and written = written]; (assumption | rule call_function))
next
  case (into_struct inits nd t)
  have "eventually (\<lambda>n. (is_struct_lit (snd p) \<longrightarrow> sound_into env (lower_into n env (snd p))) \<and>
      (\<not> is_struct_lit (snd p) \<longrightarrow> sound_value env (lower_expr n env (snd p)))) sequentially" if "p \<in> set inits" for p
    using into_struct that by (cases "is_struct_lit (snd p)") auto
  then have "eventually (\<lambda>n. \<forall>p \<in> set inits. (is_struct_lit (snd p) \<longrightarrow> sound_into env (lower_into n env (snd p))) \<and>
      (\<not> is_struct_lit (snd p) \<longrightarrow> sound_value env (lower_expr n env (snd p)))) sequentially"
    by (intro eventually_ball) blast
  then show ?case by (rule eventually_later) (rule into_step_sound)
qed

section \<open>Statements that are lowered\<close>

definition lowers_initial :: "lower_env \<Rightarrow> rexpr \<Rightarrow> bool" where
  "lowers_initial env e \<longleftrightarrow> (if is_struct_lit e then lowers_into env e else lowers_value env e)"

fun lowers_stmt :: "lower_env \<Rightarrow> rstmt \<Rightarrow> bool" where
  "lowers_stmt env (STMT_EXPR nd e) \<longleftrightarrow> lowers_value env e"
| "lowers_stmt env (STMT_VAR_DECL nd name t initializer) \<longleftrightarrow>
     binding_ok env (fact_def_of (le_facts env) (nd_at (id_span name))) \<and> (\<forall>e \<in> set_option initializer. lowers_initial env e)"
| "lowers_stmt env (STMT_ASSIGN nd target e) \<longleftrightarrow>
     through_a_raw_run env target \<noteq> None \<and> lowers_place env target \<and> lowers_value env e"
| "lowers_stmt env (STMT_COMPOUND_ASSIGN nd target op e) \<longleftrightarrow> lowers_place env target \<and> lowers_value env e"
| "lowers_stmt env (STMT_BLOCK nd ss) \<longleftrightarrow> (\<forall>s \<in> set ss. lowers_stmt env s)"
| "lowers_stmt env (STMT_IF nd c then_stmt else_stmt) \<longleftrightarrow>
     lowers_value env c \<and> lowers_stmt env then_stmt \<and> (\<forall>s \<in> set_option else_stmt. lowers_stmt env s)"
| "lowers_stmt env (STMT_FOR nd init condition post body) \<longleftrightarrow>
     (\<forall>s \<in> set_option init. lowers_stmt env s) \<and> (\<forall>e \<in> set_option condition. lowers_value env e) \<and>
     (\<forall>s \<in> set_option post. lowers_stmt env s) \<and> lowers_stmt env body"
| "lowers_stmt env (STMT_RETURN nd e) \<longleftrightarrow> lowers_value env e"
| "lowers_stmt env _ \<longleftrightarrow> True"

lemma binding_type: "binding_ok env b \<Longrightarrow> \<exists>t. var_type_of env b = Some t"
  by (cases b) (auto simp: binding_ok_def var_type_of_def)

lemma release_ok:
  assumes "lw_ok env P R lw" "snd l < nv lw" "binding_ok env (fst l)"
  shows "\<exists>lw'. lower_release env sp l lw = Some lw' \<and> lw_ok env P R lw' \<and> nv lw' = nv lw \<and> nb lw' = nb lw \<and>
    lw_locals lw' = lw_locals lw"
proof -
  obtain b v where l: "l = (b, v)" by fastforce
  obtain t where t: "local_type env lw l = Some t"
    using assms(3) by (cases b) (auto simp: l local_type_def binding_ok_def)
  have "lw_ok env P R (emit ((inst_of MIR_DROP t MIR_NO_VALUE sp)\<lparr>mi_place := mir_place_of v b\<rparr>) lw)"
    by (rule emit_effect [OF assms(1)]) (use assms(2) l in \<open>simp_all add: inst_defs value_ok_def\<close>)
  then show ?thesis using assms(1) t by (auto simp: lower_release_def l)
qed

lemma releases_ok:
  assumes "lw_ok env P R lw" "\<forall>l \<in> set ls. snd l < nv lw \<and> binding_ok env (fst l)"
  shows "\<exists>lw'. lower_releases env sp ls lw = Some lw' \<and> lw_ok env P R lw' \<and> nv lw' = nv lw \<and> nb lw' = nb lw \<and>
    lw_locals lw' = lw_locals lw"
  using assms
proof (induction ls arbitrary: lw)
  case (Cons l ls)
  obtain lw1 where 1: "lower_release env sp l lw = Some lw1" "lw_ok env P R lw1" "nv lw1 = nv lw" "nb lw1 = nb lw" "lw_locals lw1 = lw_locals lw"
    using release_ok [OF Cons.prems(1)] Cons.prems(2) by (meson list.set_intros(1))
  from Cons.IH [OF 1(2)] Cons.prems(2) 1 show ?case by simp
qed simp

lemma locals_ok: "lw_ok env P R lw \<Longrightarrow> l \<in> set (lw_locals lw) \<Longrightarrow> snd l < nv lw \<and> binding_ok env (fst l)"
  using lw_okD(9) [of env P R lw "fst l" "snd l"] by simp

lemma fewer_locals_ok: "lw_ok env P R lw \<Longrightarrow> set ls \<subseteq> set (lw_locals lw) \<Longrightarrow> lw_ok env P R (lw\<lparr>lw_locals := ls\<rparr>)"
  by (rule update_lw_ok) simp_all

lemma storage_dead_ok:
  assumes "lw_ok env P R lw" "v < nv lw"
  shows "lw_ok env P R (emit ((inst_of MIR_STORAGE_DEAD t MIR_NO_VALUE sp)\<lparr>mi_place := mir_place_of v b\<rparr>) lw)"
  by (rule emit_effect [OF assms(1)]) (use assms(2) in \<open>simp_all add: inst_defs value_ok_def\<close>)

lemma scope_end_loop_ok:
  assumes "lw_ok env P R lw" "\<forall>l \<in> set ls. snd l < nv lw \<and> binding_ok env (fst l)"
  shows "\<exists>lw'. scope_end_loop env sp ls lw = Some lw' \<and> lw_ok env P R lw' \<and> grown lw lw'"
  using assms
proof (induction ls arbitrary: lw)
  case (Cons l ls)
  let ?lw0 = "lw\<lparr>lw_locals := butlast (lw_locals lw)\<rparr>"
  have l: "snd l < nv lw" "binding_ok env (fst l)" using Cons.prems(2) by simp_all
  have "lw_ok env P R ?lw0" by (rule fewer_locals_ok [OF Cons.prems(1)]) (auto dest: in_set_butlastD)
  then obtain lw1 where 1: "lower_release env sp l ?lw0 = Some lw1" "lw_ok env P R lw1" "nv lw1 = nv lw" "nb lw1 = nb lw"
    using release_ok [of env P R ?lw0 l sp] l by auto
  obtain t where t: "var_type_of env (fst l) = Some t" using binding_type [OF l(2)] by blast
  let ?lw2 = "emit ((inst_of MIR_STORAGE_DEAD t MIR_NO_VALUE sp)\<lparr>mi_place := mir_place_of (snd l) (fst l)\<rparr>) lw1"
  have "lw_ok env P R ?lw2" by (rule storage_dead_ok [OF 1(2)]) (use l 1 in simp)
  from Cons.IH [OF this] obtain lw' where "scope_end_loop env sp ls ?lw2 = Some lw'" "lw_ok env P R lw'" "grown ?lw2 lw'"
    using Cons.prems(2) 1(3) by auto
  then show ?case using 1 t by (simp add: grown_def)
qed simp

lemma scope_end_ok:
  assumes "lw_ok env P R lw"
  shows "\<exists>lw'. lower_scope_end env outer sp lw = Some lw' \<and> lw_ok env P R lw' \<and> grown lw lw'"
proof (cases "mir_block_is_terminated (mf_blocks (lw_ir lw) ! lw_block lw)")
  case True
  then show ?thesis using fewer_locals_ok [OF assms set_take_subset] by (simp add: lower_scope_end_def grown_def)
next
  case False
  have "\<forall>l \<in> set (rev (drop outer (lw_locals lw))). snd l < nv lw \<and> binding_ok env (fst l)"
    using locals_ok [OF assms] by (auto dest: in_set_dropD)
  then show ?thesis using False scope_end_loop_ok [OF assms] by (simp add: lower_scope_end_def)
qed

lemma step_value:
  assumes "sound_value env f"
  shows "sound_step env (\<lambda>lw. map_option snd (f lw))"
proof (rule sound_stepI)
  fix P R lw assume "lw_ok env P R lw"
  then obtain v lw' where "f lw = Some (v, lw')" "lw_ok env P R lw'" "grown lw lw'" by (rule sound_valueE [OF assms])
  then show "\<exists>lw'. map_option snd (f lw) = Some lw' \<and> lw_ok env P R lw' \<and> grown lw lw'" by simp
qed

lemma var_decl_sound:
  assumes "binding_ok env (fact_def_of (le_facts env) (nd_at (id_span name)))"
    "\<forall>e \<in> set_option initializer. if is_struct_lit e then sound_into env (lower_s e) else sound_value env (lower_e e)"
  shows "sound_step env (lower_var_decl env lower_e lower_s sp name initializer)"
proof (rule sound_stepI)
  fix P R lw assume ok: "lw_ok env P R lw"
  let ?b = "fact_def_of (le_facts env) (nd_at (id_span name))"
  obtain t where t: "var_type_of env ?b = Some t" using binding_type [OF assms(1)] by blast
  obtain v ir where c: "mir_value_create (lw_ir lw) t ?b sp = (v, ir)" by fastforce
  let ?lw0 = "lw\<lparr>lw_ir := ir\<rparr>"
  note 0 = value_create_ok [OF ok c]
  have 01: "lw_ok env P R ?lw0" using 0 lw_ok_unreserve [of env P "insert v R" ?lw0 R] by blast
  have v: "v < nv ?lw0" using 0 by simp
  let ?lw1 = "bind_local ?b v ?lw0"
  have 1: "lw_ok env P R ?lw1" by (rule bind_local_ok [OF 01 v assms(1)])
  let ?p = "mir_place_of v ?b"
  have started: "lw_ok env P R (emit ((inst_of op t' MIR_NO_VALUE sp)\<lparr>mi_place := ?p\<rparr>) lw')"
    if "lw_ok env P R lw'" "v < nv lw'" "op \<in> {MIR_STORAGE_LIVE, MIR_STORAGE_INIT}" for op t' lw'
    by (rule emit_effect [OF that(1)]) (use that(2,3) in \<open>auto simp: inst_defs value_ok_def\<close>)
  let ?lw2 = "emit ((inst_of MIR_STORAGE_LIVE t MIR_NO_VALUE sp)\<lparr>mi_place := ?p\<rparr>) ?lw1"
  have 2: "lw_ok env P R ?lw2" by (rule started [OF 1]) (use v in simp_all)
  have g2: "grown lw ?lw2" using 0 by (simp add: grown_def)
  have v2: "v < nv ?lw2" using v by simp
  have b2: "value_ok (nv ?lw2) (pl_base ?p)" using v by (simp add: value_ok_def mir_place_of_def)
  show "\<exists>lw'. lower_var_decl env lower_e lower_s sp name initializer lw = Some lw' \<and> lw_ok env P R lw' \<and> grown lw lw'"
  proof (cases initializer)
    case None
    then show ?thesis using t c 2 g2 by (simp add: lower_var_decl_def Let_def)
  next
    case (Some e)
    show ?thesis
    proof (cases "is_struct_lit e")
      case True
      let ?lw3 = "emit ((inst_of MIR_STORAGE_INIT (type_at env e) MIR_NO_VALUE sp)\<lparr>mi_place := ?p\<rparr>) ?lw2"
      have 3: "lw_ok env P R ?lw3" by (rule started [OF 2 v2]) simp
      have s: "sound_into env (lower_s e)" using assms(2) Some True by simp
      obtain lw4 where "lower_s e ?p ?lw3 = Some lw4" "lw_ok env P R lw4" "grown ?lw3 lw4"
        by (rule sound_intoE [OF s 3]) (use b2 in simp)
      then show ?thesis using t c Some True g2 by (simp add: lower_var_decl_def Let_def grown_def)
    next
      case False
      have s: "sound_value env (lower_e e)" using assms(2) Some False by simp
      obtain w lw3 where 3: "lower_e e ?lw2 = Some (w, lw3)" "lw_ok env P R lw3" "grown ?lw2 lw3" "value_ok (nv lw3) w"
        by (rule sound_valueE [OF s 2])
      obtain m lw4 where 4: "lower_moved_temp w (type_at env e) sp lw3 = (m, lw4)" "lw_ok env P R lw4" "grown lw3 lw4" "value_ok (nv lw4) m"
        by (rule moved_temp_ok [OF 3(2,4)])
      have "value_ok (nv lw4) (pl_base ?p)" using value_ok_grown [OF b2 grown_trans [OF 3(3) 4(3)]] .
      note 5 = store_to_ok [OF 4(2) this 4(4), of "type_at env e" sp]
      show ?thesis using t c Some False 3(1) 4(1) 5(1) grown_trans [OF grown_trans [OF grown_trans [OF g2 3(3)] 4(3)] 5(2)]
        by (simp add: lower_var_decl_def Let_def)
    qed
  qed
qed

lemma assign_sound:
  assumes "through_a_raw_run env target \<noteq> None" "sound_place env (lower_p target)" "sound_value env (lower_e e)"
  shows "sound_step env (lower_assign env lower_e lower_p sp target e)"
proof (rule sound_stepI)
  fix P R lw assume ok: "lw_ok env P R lw"
  obtain raw where raw: "through_a_raw_run env target = Some raw" using assms(1) by blast
  let ?owned = "is_part target \<and> \<not> raw \<and> mir_type_needs_drop (le_registry env) (type_at env target)"
  obtain p lw1 where 1: "lower_p target lw = Some (p, lw1)" "lw_ok env P R lw1" "grown lw lw1" "value_ok (nv lw1) (pl_base p)"
    by (rule sound_placeE [OF assms(2) ok])
  obtain h lw2 where 2: "(if ?owned then lower_load_from p (type_at env target) READ_COPY sp lw1 else (MIR_NO_VALUE, lw1)) = (h, lw2)"
    by fastforce
  have 22: "lw_ok env P R lw2 \<and> grown lw1 lw2 \<and> value_ok (nv lw2) h"
  proof (cases ?owned)
    case True
    obtain v lw' where "lower_load_from p (type_at env target) READ_COPY sp lw1 = (v, lw')" "lw_ok env P R lw'" "grown lw1 lw'" "v < nv lw'"
      by (rule load_from_ok [OF 1(2,4)])
    then show ?thesis using 2 True by (simp add: value_ok_def)
  qed (use 2 1 in auto)
  then have ok2: "lw_ok env P R lw2" "grown lw1 lw2" "value_ok (nv lw2) h" by blast+
  obtain v lw3 where 3: "lower_e e lw2 = Some (v, lw3)" "lw_ok env P R lw3" "grown lw2 lw3" "value_ok (nv lw3) v"
    by (rule sound_valueE [OF assms(3) ok2(1)])
  obtain w lw4 where 4: "lower_moved_temp v (type_at env e) sp lw3 = (w, lw4)" "lw_ok env P R lw4" "grown lw3 lw4" "value_ok (nv lw4) w"
    by (rule moved_temp_ok [OF 3(2,4)])
  have g: "grown lw1 lw4" "grown lw lw4" "grown lw2 lw4" using grown_trans [OF 3(3) 4(3)] ok2(2) 1(3) grown_trans by blast+
  note 5 = store_to_ok [OF 4(2) value_ok_grown [OF 1(4) g(1)] 4(4), of "type_at env e" sp]
  let ?lw5 = "lower_store_to p w (type_at env e) sp lw4"
  have "value_ok (nv ?lw5) h" using value_ok_grown [OF ok2(3) g(3)] 5(3) by simp
  then have "lw_ok env P R (emit ((inst_of MIR_DROP t MIR_NO_VALUE sp)\<lparr>mi_place := mir_place_of h None\<rparr>) ?lw5)" for t
    by (intro emit_effect [OF 5(1)]) (simp_all add: inst_defs)
  then show "\<exists>lw'. lower_assign env lower_e lower_p sp target e lw = Some lw' \<and> lw_ok env P R lw' \<and> grown lw lw'"
    using raw 1(1) 2 3(1) 4(1) 5(1) grown_trans [OF g(2) 5(2)] by (simp add: lower_assign_def Let_def)
qed

lemma compound_assign_sound:
  assumes "sound_place env (lower_p target)" "sound_value env (lower_e e)"
  shows "sound_step env (lower_compound_assign env lower_e lower_p sp target op e)"
proof (rule sound_stepI)
  fix P R lw assume ok: "lw_ok env P R lw"
  let ?t = "type_at env target"
  obtain p lw1 where 1: "lower_p target lw = Some (p, lw1)" "lw_ok env P R lw1" "grown lw lw1" "value_ok (nv lw1) (pl_base p)"
    by (rule sound_placeE [OF assms(1) ok])
  obtain l lw2 where 2: "lower_load_from p ?t READ_COPY (expr_span target) lw1 = (l, lw2)" "lw_ok env P R lw2" "grown lw1 lw2" "l < nv lw2"
    by (rule load_from_ok [OF 1(2,4)])
  obtain r lw3 where 3: "lower_e e lw2 = Some (r, lw3)" "lw_ok env P R lw3" "grown lw2 lw3" "value_ok (nv lw3) r"
    by (rule sound_valueE [OF assms(2) 2(2)])
  obtain v lw4 where 4: "lower_temp ?t sp lw3 = (v, lw4)" by fastforce
  have l: "value_ok (nv lw3) l" using value_ok_grown [of lw2 l lw3] 2(4) 3(3) by (simp add: value_ok_def)
  let ?i = "(inst_of (bin_op_to_ir op) ?t v sp)\<lparr>mi_args := lower_binary_args lw4 l r\<rparr>"
  have "bin_op_to_ir op \<notin> {MIR_JMP, MIR_BRANCH, MIR_DROP_FLAG}" "\<not> mir_op_has_place (bin_op_to_ir op)" by (cases op; simp)+
  then have "mi_result ?i = v" "fresh_inst (nv lw3) ?i"
    using l lower_operand_ok [OF 3(4)] by (simp_all add: fresh_inst_def inst_of_def lower_binary_args_def mir_operand_value_def)
  note 5 = made_ok [OF 3(2) 4 this]
  have g: "grown lw1 (emit ?i lw4)" using grown_trans [OF grown_trans [OF 2(3) 3(3)] 5(2)] .
  note 6 = store_to_ok [OF 5(1) value_ok_grown [OF 1(4) g] 5(3), of ?t sp]
  show "\<exists>lw'. lower_compound_assign env lower_e lower_p sp target op e lw = Some lw' \<and> lw_ok env P R lw' \<and> grown lw lw'"
    using 1(1) 2(1) 3(1) 4 6(1) grown_trans [OF grown_trans [OF 1(3) g] 6(2)] by (simp add: lower_compound_assign_def Let_def)
qed

lemma jump_stmt_sound: "sound_step env (lower_jump_stmt env sp is_break)"
proof (rule sound_stepI)
  fix P R lw assume ok: "lw_ok env P R lw"
  have "\<forall>l \<in> set (rev (drop (lw_loop_local_floor lw) (lw_locals lw))). snd l < nv lw \<and> binding_ok env (fst l)"
    using locals_ok [OF ok] by (auto dest: in_set_dropD)
  from releases_ok [OF ok this, of sp] obtain lw1 where 1:
      "lower_releases env sp (rev (drop (lw_loop_local_floor lw) (lw_locals lw))) lw = Some lw1" "lw_ok env P R lw1"
      "nv lw1 = nv lw" "nb lw1 = nb lw" by blast
  let ?t = "if is_break then lw_break_target lw1 else lw_continue_target lw1"
  have "mir_block_is_none ?t \<or> ?t < nb lw1" using lw_okD(11,12) [OF 1(2)] by simp
  then show "\<exists>lw'. lower_jump_stmt env sp is_break lw = Some lw' \<and> lw_ok env P R lw' \<and> grown lw lw'"
    using 1 jump_ok [OF 1(2), of ?t] by (auto simp: lower_jump_stmt_def Let_def grown_def)
qed

lemma return_sound:
  assumes "sound_value env (lower_e e)"
  shows "sound_step env (lower_return env lower_e sp e)"
proof (rule sound_stepI)
  fix P R lw assume ok: "lw_ok env P R lw"
  obtain v lw1 where 1: "lower_e e lw = Some (v, lw1)" "lw_ok env P R lw1" "grown lw lw1" "value_ok (nv lw1) v"
    by (rule sound_valueE [OF assms ok])
  obtain w lw2 where 2: "lower_moved_temp v (type_at env e) sp lw1 = (w, lw2)" "lw_ok env P R lw2" "grown lw1 lw2" "value_ok (nv lw2) w"
    by (rule moved_temp_ok [OF 1(2,4)])
  have "\<forall>l \<in> set (rev (lw_locals lw2)). snd l < nv lw2 \<and> binding_ok env (fst l)" using locals_ok [OF 2(2)] by simp
  from releases_ok [OF 2(2) this, of sp] obtain lw3 where 3: "lower_releases env sp (rev (lw_locals lw2)) lw2 = Some lw3"
      "lw_ok env P R lw3" "nv lw3 = nv lw2" "nb lw3 = nb lw2" by blast
  let ?i = "(inst_of MIR_RETURN None MIR_NO_VALUE sp)\<lparr>mi_args := lower_args [w]\<rparr>"
  have "inst_ok (nb lw3) (nv lw3) ?i" using 2(4) 3(3) by (simp add: inst_defs)
  note 4 = terminator_ok [OF 3(2) this]
  have "lw_ok env P R (lower_terminator ?i lw3)" "grown lw3 (lower_terminator ?i lw3)" by (rule 4; simp add: inst_of_def)+
  then show "\<exists>lw'. lower_return env lower_e sp e lw = Some lw' \<and> lw_ok env P R lw' \<and> grown lw lw'"
    using 1(1) 2(1) 3 grown_trans [OF 1(3) 2(3)] by (simp add: lower_return_def grown_def)
qed

text \<open>A block that waits becomes the one that is filled.\<close>

lemma enter_ok:
  assumes "lw_ok env (insert b P) R lw" "current_terminated lw" "b \<notin> P"
  shows "lw_ok env P R (lower_into_block b lw)"
  using into_block_ok [OF assms(1,2), of b] assms(3) by simp

lemma into_counts [simp]: "nv (lower_into_block b lw) = nv lw" "nb (lower_into_block b lw) = nb lw"
  by simp_all

lemma targets_ok:
  assumes "lw_ok env P R lw" "mir_block_is_none b \<or> b < nb lw" "mir_block_is_none c \<or> c < nb lw"
  shows "lw_ok env P R (lw\<lparr>lw_break_target := b, lw_continue_target := c, lw_loop_local_floor := floor\<rparr>)"
  using assms unfolding lw_ok_def insts_def by simp

section \<open>Branches and loops\<close>

lemma if_sound:
  assumes c: "sound_value env (lower_expr n env c)" and t: "sound_step env (lower_stmt n env t)"
    and e: "\<forall>s \<in> set_option els. sound_step env (lower_stmt n env s)"
  shows "sound_step env (lower_stmt n env (STMT_IF nd c t els))"
proof (rule sound_stepI)
  fix P R lw assume ok: "lw_ok env P R lw"
  obtain v lw1 where 1: "lower_expr n env c lw = Some (v, lw1)" "lw_ok env P R lw1" "grown lw lw1" "value_ok (nv lw1) v"
    by (rule sound_valueE [OF c ok])
  obtain tb lw2 where 2: "lower_block lw1 = (tb, lw2)" "lw_ok env (insert tb P) R lw2" "tb = nb lw1" "nb lw2 = Suc (nb lw1)"
      "tb \<notin> P" "grown lw1 lw2" "nv lw2 = nv lw1" "lw_locals lw2 = lw_locals lw1" by (rule lower_block_ok [OF 1(2)])
  obtain j lw3 where 3: "lower_block lw2 = (j, lw3)" "lw_ok env (insert j (insert tb P)) R lw3" "j = nb lw2" "nb lw3 = Suc (nb lw2)"
      "j \<notin> insert tb P" "grown lw2 lw3" "nv lw3 = nv lw2" "lw_locals lw3 = lw_locals lw2" by (rule lower_block_ok [OF 2(2)])
  have 33: "lw_ok env (insert tb (insert j P)) R lw3" using 3(2) by (simp add: insert_commute)
  have fresh: "tb \<notin> insert j P" "j \<notin> P" using 2(5) 3(5) by auto
  show "\<exists>lw'. lower_stmt n env (STMT_IF nd c t els) lw = Some lw' \<and> lw_ok env P R lw' \<and> grown lw lw'"
  proof (cases els)
    case None
    note b = branch_ok [OF 33, of tb j v "nd_span nd"]
    let ?lw5 = "lower_branch v tb j (nd_span nd) lw3"
    have b5: "lw_ok env (insert tb (insert j P)) R ?lw5" "current_terminated ?lw5" "grown lw3 ?lw5" "nb ?lw5 = nb lw3"
      by (rule b; use 1(4) 2 3 in simp)+
    obtain lw6 where 6: "lower_stmt n env t (lower_into_block tb ?lw5) = Some lw6" "lw_ok env (insert j P) R lw6"
        "grown (lower_into_block tb ?lw5) lw6" by (rule sound_stepE [OF t enter_ok [OF b5(1,2) fresh(1)]])
    have "j < nb lw6" using 6(3) b5(4) 3(3,4) by (simp add: grown_def)
    note 7 = jump_ok [OF 6(2) this]
    have "lw_ok env P R (lower_into_block j (lower_jump j lw6))" by (rule enter_ok [OF 7(1,2) fresh(2)])
    then show ?thesis using None 1 2(1,6) 3(1,6) 6(1,3) b5(3) 7(3) by (simp add: lower_if_def grown_def)
  next
    case (Some s)
    obtain eb lw4 where 4: "lower_block lw3 = (eb, lw4)" "lw_ok env (insert eb (insert tb (insert j P))) R lw4" "eb = nb lw3"
        "nb lw4 = Suc (nb lw3)" "eb \<notin> insert tb (insert j P)" "grown lw3 lw4" "nv lw4 = nv lw3" "lw_locals lw4 = lw_locals lw3"
      by (rule lower_block_ok [OF 33])
    have 44: "lw_ok env (insert tb (insert eb (insert j P))) R lw4" using 4(2) by (simp add: insert_commute)
    have fresh2: "tb \<notin> insert eb (insert j P)" "eb \<notin> insert j P" using fresh 4(5) by auto
    note b = branch_ok [OF 44, of tb eb v "nd_span nd"]
    let ?lw5 = "lower_branch v tb eb (nd_span nd) lw4"
    have b5: "lw_ok env (insert tb (insert eb (insert j P))) R ?lw5" "current_terminated ?lw5" "grown lw4 ?lw5" "nb ?lw5 = nb lw4"
      by (rule b; use 1(4) 2 3 4 in simp)+
    obtain lw6 where 6: "lower_stmt n env t (lower_into_block tb ?lw5) = Some lw6" "lw_ok env (insert eb (insert j P)) R lw6"
        "grown (lower_into_block tb ?lw5) lw6" by (rule sound_stepE [OF t enter_ok [OF b5(1,2) fresh2(1)]])
    have j: "j < nb lw6" using 6(3) b5(4) 3(3,4) 4(4) by (simp add: grown_def)
    note 7 = jump_ok [OF 6(2) j]
    have es: "sound_step env (lower_stmt n env s)" using e Some by simp
    obtain lw8 where 8: "lower_stmt n env s (lower_into_block eb (lower_jump j lw6)) = Some lw8" "lw_ok env (insert j P) R lw8"
        "grown (lower_into_block eb (lower_jump j lw6)) lw8" by (rule sound_stepE [OF es enter_ok [OF 7(1,2) fresh2(2)]])
    have "j < nb lw8" using j 8(3) 7(5) by (simp add: grown_def)
    note 9 = jump_ok [OF 8(2) this]
    have "lw_ok env P R (lower_into_block j (lower_jump j lw8))" by (rule enter_ok [OF 9(1,2) fresh(2)])
    then show ?thesis using Some 1 2(1,6) 3(1,6) 4(1,6) 6(1,3) 8(1,3) b5(3) 7(3) 9(3) by (simp add: lower_if_def grown_def)
  qed
qed

text \<open>A block four times over: the header of a loop, its body, the step after it and the exit.\<close>

lemma four_blocks_ok:
  assumes "lw_ok env P R lw"
  obtains a b c d lw1 lw2 lw3 lw4 where "lower_block lw = (a, lw1)" "lower_block lw1 = (b, lw2)" "lower_block lw2 = (c, lw3)"
    "lower_block lw3 = (d, lw4)" "lw_ok env (insert a (insert b (insert c (insert d P)))) R lw4"
    "a \<notin> insert b (insert c (insert d P))" "b \<notin> insert c (insert d P)" "c \<notin> insert d P" "d \<notin> P"
    "{a, b, c, d} \<subseteq> {..<nb lw4}" "grown lw lw4"
proof -
  obtain a lw1 where 1: "lower_block lw = (a, lw1)" "lw_ok env (insert a P) R lw1" "a = nb lw" "nb lw1 = Suc (nb lw)"
      "a \<notin> P" "grown lw lw1" "nv lw1 = nv lw" by (rule lower_block_ok [OF assms])
  obtain b lw2 where 2: "lower_block lw1 = (b, lw2)" "lw_ok env (insert b (insert a P)) R lw2" "b = nb lw1" "nb lw2 = Suc (nb lw1)"
      "b \<notin> insert a P" "grown lw1 lw2" "nv lw2 = nv lw1" by (rule lower_block_ok [OF 1(2)])
  obtain c lw3 where 3: "lower_block lw2 = (c, lw3)" "lw_ok env (insert c (insert b (insert a P))) R lw3" "c = nb lw2"
      "nb lw3 = Suc (nb lw2)" "c \<notin> insert b (insert a P)" "grown lw2 lw3" "nv lw3 = nv lw2" by (rule lower_block_ok [OF 2(2)])
  obtain d lw4 where 4: "lower_block lw3 = (d, lw4)" "lw_ok env (insert d (insert c (insert b (insert a P)))) R lw4" "d = nb lw3"
      "nb lw4 = Suc (nb lw3)" "d \<notin> insert c (insert b (insert a P))" "grown lw3 lw4" "nv lw4 = nv lw3"
    by (rule lower_block_ok [OF 3(2)])
  have e: "insert d (insert c (insert b (insert a P))) = insert a (insert b (insert c (insert d P)))" by blast
  show thesis
    by (rule that [OF 1(1) 2(1) 3(1) 4(1) 4(2) [unfolded e]])
      (use 1(3-6) 2(3-6) 3(3-6) 4(3-6) in \<open>auto simp: grown_def\<close>)
qed

lemma condition_ok:
  assumes "lw_ok env P R lw" "a < nb lw" "b < nb lw" "\<forall>c \<in> set_option condition. sound_value env (lower_e c)"
  shows "\<exists>lw'. (case condition of
       Some c \<Rightarrow> do { (v, lw1) \<leftarrow> lower_e c lw; Some (lower_branch v a b sp lw1) }
     | None \<Rightarrow> Some (lower_jump a lw)) = Some lw' \<and> lw_ok env P R lw' \<and> current_terminated lw' \<and> grown lw lw'"
proof (cases condition)
  case None
  then show ?thesis using jump_ok [OF assms(1,2)] by simp
next
  case (Some c)
  then have s: "sound_value env (lower_e c)" using assms(4) by simp
  obtain v lw1 where 1: "lower_e c lw = Some (v, lw1)" "lw_ok env P R lw1" "grown lw lw1" "value_ok (nv lw1) v"
    by (rule sound_valueE [OF s assms(1)])
  have "a < nb lw1" "b < nb lw1" using assms(2,3) 1(3) by (simp_all add: grown_def)
  note 2 = branch_ok [OF 1(2) this 1(4), of sp]
  show ?thesis using Some 1(1) 2(1,2) grown_trans [OF 1(3) 2(3)] by simp
qed

lemma opt_sound: "\<forall>s \<in> set_option x. sound_step env (lower_stmt n env s) \<Longrightarrow> sound_step env (lower_opt n env x)"
  by (cases x) (auto intro: sound_stepI simp: sound_step_def leaves_def)

lemma for_sound:
  assumes i: "\<forall>s \<in> set_option init. sound_step env (lower_stmt n env s)"
    and c: "\<forall>e \<in> set_option condition. sound_value env (lower_expr n env e)"
    and p: "\<forall>s \<in> set_option post. sound_step env (lower_stmt n env s)"
    and b: "sound_step env (lower_stmt n env body)"
  shows "sound_step env (lower_stmt n env (STMT_FOR nd init condition post body))"
proof (rule sound_stepI)
  fix P R lw assume ok: "lw_ok env P R lw"
  obtain lw1 where 1: "lower_opt n env init lw = Some lw1" "lw_ok env P R lw1" "grown lw lw1"
    by (rule sound_stepE [OF opt_sound [OF i] ok])
  obtain h w a x lw2 lw3 lw4 lw5 where 5: "lower_block lw1 = (h, lw2)" "lower_block lw2 = (w, lw3)" "lower_block lw3 = (a, lw4)"
    "lower_block lw4 = (x, lw5)" "lw_ok env (insert h (insert w (insert a (insert x P)))) R lw5"
    "h \<notin> insert w (insert a (insert x P))" "w \<notin> insert a (insert x P)" "a \<notin> insert x P" "x \<notin> P"
    "{h, w, a, x} \<subseteq> {..<nb lw5}" "grown lw1 lw5" by (rule four_blocks_ok [OF 1(2)])
  have bounds: "h < nb lw'" "w < nb lw'" "a < nb lw'" "x < nb lw'" if "grown lw5 lw'" for lw'
    using 5(10) that by (auto simp: grown_def)
  note j6 = jump_ok [OF 5(5) bounds(1) [OF grown_refl]]
  let ?lw6 = "lower_into_block h (lower_jump h lw5)"
  have 6: "lw_ok env (insert w (insert a (insert x P))) R ?lw6" by (rule enter_ok [OF j6(1,2) 5(6)])
  have g6: "grown lw5 ?lw6" using j6(3) by simp
  from condition_ok [where lower_e = "lower_expr n env" and sp = "nd_span nd", OF 6 bounds(2) [OF g6] bounds(4) [OF g6] c]
  obtain lw7 where 7: "(case condition of
       Some c \<Rightarrow> do { (v, lw7) \<leftarrow> lower_expr n env c ?lw6; Some (lower_branch v w x (nd_span nd) lw7) }
     | None \<Rightarrow> Some (lower_jump w ?lw6)) = Some lw7" "lw_ok env (insert w (insert a (insert x P))) R lw7"
     "current_terminated lw7" "grown ?lw6 lw7" by blast
  have g7: "grown lw5 lw7" using grown_trans [OF g6 7(4)] .
  let ?lw7 = "lw7\<lparr>lw_break_target := x, lw_continue_target := a, lw_loop_local_floor := length (lw_locals lw7)\<rparr>"
  have 77: "lw_ok env (insert w (insert a (insert x P))) R ?lw7" "current_terminated ?lw7"
    using targets_ok [OF 7(2)] bounds(3,4) [OF g7] 7(3) by (simp_all add: current_terminated_def)
  obtain lw8 where 8: "lower_stmt n env body (lower_into_block w ?lw7) = Some lw8" "lw_ok env (insert a (insert x P)) R lw8"
      "grown (lower_into_block w ?lw7) lw8" by (rule sound_stepE [OF b enter_ok [OF 77 5(7)]])
  have g78: "grown lw7 lw8" using 8(3) by (simp add: grown_def)
  have g8: "grown lw5 lw8" using grown_trans [OF g7 g78] .
  note j8 = jump_ok [OF 8(2) bounds(3) [OF g8]]
  have "grown lw7 (lower_jump a lw8)" using grown_trans [OF g78 j8(3)] .
  then have "mir_block_is_none (lw_break_target lw7) \<or> lw_break_target lw7 < nb (lower_jump a lw8)"
      "mir_block_is_none (lw_continue_target lw7) \<or> lw_continue_target lw7 < nb (lower_jump a lw8)"
    using lw_okD(11,12) [OF 7(2)] by (auto simp: grown_def)
  note t8 = targets_ok [OF j8(1) this, of "lw_loop_local_floor lw7"]
  let ?lw8 = "(lower_jump a lw8)\<lparr>lw_break_target := lw_break_target lw7, lw_continue_target := lw_continue_target lw7,
      lw_loop_local_floor := lw_loop_local_floor lw7\<rparr>"
  have c8: "current_terminated ?lw8" using j8(2) by (simp add: current_terminated_def)
  obtain lw9 where 9: "lower_opt n env post (lower_into_block a ?lw8) = Some lw9" "lw_ok env (insert x P) R lw9"
      "grown (lower_into_block a ?lw8) lw9" by (rule sound_stepE [OF opt_sound [OF p] enter_ok [OF t8 c8 5(8)]])
  have g9: "grown lw5 lw9" using g8 j8(3) 9(3) by (simp add: grown_def)
  note j9 = jump_ok [OF 9(2) bounds(1) [OF g9]]
  have 10: "lw_ok env P R (lower_into_block x (lower_jump h lw9))" by (rule enter_ok [OF j9(1,2) 5(9)])
  obtain lw10 where e: "lower_scope_end env (length (lw_locals lw)) (nd_span nd) (lower_into_block x (lower_jump h lw9)) = Some lw10"
      "lw_ok env P R lw10" "grown (lower_into_block x (lower_jump h lw9)) lw10" using scope_end_ok [OF 10] by blast
  have g: "grown lw lw10" using 1(3) 5(11) g9 j9(3) e(3) by (simp add: grown_def)
  show "\<exists>lw'. lower_stmt n env (STMT_FOR nd init condition post body) lw = Some lw' \<and> lw_ok env P R lw' \<and> grown lw lw'"
    using e(2) g by (simp add: lower_for_def 1(1) 5(1-4) 7(1) 8(1) 9(1) e(1) Let_def)
qed

section \<open>Enough steps lower every such statement\<close>

lemma stmts_sound:
  "\<forall>s \<in> set ss. sound_step env (lower_stmt n env s) \<Longrightarrow> sound_step env (lower_stmts n env ss)"
proof (induction ss)
  case Nil
  show ?case by (rule sound_stepI) simp
next
  case (Cons s ss)
  show ?case
  proof (rule sound_stepI)
    fix P R lw assume ok: "lw_ok env P R lw"
    obtain lw1 where 1: "lower_stmt n env s lw = Some lw1" "lw_ok env P R lw1" "grown lw lw1"
      using sound_stepE [OF _ ok, of "lower_stmt n env s"] Cons.prems by auto
    obtain lw2 where 2: "lower_stmts n env ss lw1 = Some lw2" "lw_ok env P R lw2" "grown lw1 lw2"
      using sound_stepE [OF Cons.IH 1(2)] Cons.prems by auto
    show "\<exists>lw'. lower_stmts n env (s # ss) lw = Some lw' \<and> lw_ok env P R lw' \<and> grown lw lw'"
      using 1(1) 2 grown_trans [OF 1(3) 2(3)] by simp
  qed
qed

lemma block_sound:
  assumes "\<forall>s \<in> set ss. sound_step env (lower_stmt n env s)"
  shows "sound_step env (lower_stmt n env (STMT_BLOCK nd ss))"
proof (rule sound_stepI)
  fix P R lw assume ok: "lw_ok env P R lw"
  obtain lw1 where 1: "lower_stmts n env ss lw = Some lw1" "lw_ok env P R lw1" "grown lw lw1"
    by (rule sound_stepE [OF stmts_sound [OF assms] ok])
  then show "\<exists>lw'. lower_stmt n env (STMT_BLOCK nd ss) lw = Some lw' \<and> lw_ok env P R lw' \<and> grown lw lw'"
    using scope_end_ok [OF 1(2), of "length (lw_locals lw)" "nd_span nd"] grown_trans [OF 1(3)] by auto
qed

lemma step_cong: "sound_step env g \<Longrightarrow> (\<And>lw. f lw = g lw) \<Longrightarrow> sound_step env f"
  by (simp add: sound_step_def)

lemma skip_sound: "sound_step env Some"
  by (rule sound_stepI) simp

lemma initial_lowered:
  "lowers_initial env e \<Longrightarrow> eventually (\<lambda>n. if is_struct_lit e then sound_into env (lower_into n env e)
     else sound_value env (lower_expr n env e)) sequentially"
  using lowers_sound(1,5) by (cases "is_struct_lit e") (simp_all add: lowers_initial_def)

lemma eventually_opt:
  "(\<And>a. a \<in> set_option x \<Longrightarrow> eventually (Q a) sequentially) \<Longrightarrow> eventually (\<lambda>n. \<forall>a \<in> set_option x. Q a n) sequentially"
  by (cases x) simp_all

lemma stmt_lowered:
  "lowers_stmt env s \<Longrightarrow> eventually (\<lambda>n. sound_step env (lower_stmt n env s)) sequentially"
proof (induction s)
  case (STMT_EXPR nd e)
  then have v: "lowers_value env e" by simp
  show ?case by (rule eventually_mono [OF lowers_sound(1) [OF v]], drule step_value, erule step_cong) simp
next
  case (STMT_VAR_DECL nd name t initializer)
  have "eventually (\<lambda>n. \<forall>e \<in> set_option initializer. if is_struct_lit e then sound_into env (lower_into n env e)
      else sound_value env (lower_expr n env e)) sequentially"
    by (rule eventually_opt) (use STMT_VAR_DECL initial_lowered in simp)
  then show ?case
  proof (rule eventually_mono)
    fix n assume i: "\<forall>e \<in> set_option initializer. if is_struct_lit e then sound_into env (lower_into n env e)
        else sound_value env (lower_expr n env e)"
    have b: "binding_ok env (fact_def_of (le_facts env) (nd_at (id_span name)))" using STMT_VAR_DECL by simp
    show "sound_step env (lower_stmt n env (STMT_VAR_DECL nd name t initializer))"
      by (rule step_cong [OF var_decl_sound [OF b i]]) simp
  qed
next
  case (STMT_ASSIGN nd target e)
  then have a: "through_a_raw_run env target \<noteq> None" "lowers_place env target" "lowers_value env e" by simp_all
  show ?case
    by (rule eventually_two [OF lowers_sound(3) [OF a(2)] lowers_sound(1) [OF a(3)]], rule step_cong, rule assign_sound [OF a(1)])
      simp_all
next
  case (STMT_COMPOUND_ASSIGN nd target op e)
  then have a: "lowers_place env target" "lowers_value env e" by simp_all
  show ?case
    by (rule eventually_two [OF lowers_sound(3) [OF a(1)] lowers_sound(1) [OF a(2)]], rule step_cong, rule compound_assign_sound)
      simp_all
next
  case (STMT_BLOCK nd ss)
  then have "eventually (\<lambda>n. \<forall>s \<in> set ss. sound_step env (lower_stmt n env s)) sequentially" by (intro eventually_ball) auto
  then show ?case by (rule eventually_mono) (rule block_sound)
next
  case (STMT_IF nd c t els)
  have c: "eventually (\<lambda>n. sound_value env (lower_expr n env c)) sequentially" using STMT_IF.prems lowers_sound(1) by simp
  have t: "eventually (\<lambda>n. sound_step env (lower_stmt n env t)) sequentially" using STMT_IF by simp
  have e: "eventually (\<lambda>n. \<forall>s \<in> set_option els. sound_step env (lower_stmt n env s)) sequentially"
    by (rule eventually_opt) (use STMT_IF in auto)
  show ?case
    by (rule eventually_mono [OF eventually_conj [OF c eventually_conj [OF t e]]]) (elim conjE, rule if_sound)
next
  case (STMT_FOR nd init condition post body)
  have i: "eventually (\<lambda>n. \<forall>s \<in> set_option init. sound_step env (lower_stmt n env s)) sequentially"
    by (rule eventually_opt) (use STMT_FOR in auto)
  have p: "eventually (\<lambda>n. \<forall>s \<in> set_option post. sound_step env (lower_stmt n env s)) sequentially"
    by (rule eventually_opt) (use STMT_FOR in auto)
  have c: "eventually (\<lambda>n. \<forall>e \<in> set_option condition. sound_value env (lower_expr n env e)) sequentially"
    by (rule eventually_opt) (use STMT_FOR.prems lowers_sound(1) in auto)
  have b: "eventually (\<lambda>n. sound_step env (lower_stmt n env body)) sequentially" using STMT_FOR by simp
  show ?case
    by (rule eventually_mono [OF eventually_conj [OF i eventually_conj [OF c eventually_conj [OF p b]]]])
      (elim conjE, rule for_sound)
next
  case (STMT_JUMP nd is_break)
  have "sound_step env (lower_stmt n env (STMT_JUMP nd is_break))" for n by (rule step_cong [OF jump_stmt_sound]) simp
  then show ?case by (intro always_eventually allI)
next
  case (STMT_RETURN nd e)
  then have v: "lowers_value env e" by simp
  show ?case by (rule eventually_mono [OF lowers_sound(1) [OF v]], rule step_cong, rule return_sound) simp_all
next
  case (STMT_FUNC_DECL nd d)
  have "sound_step env (lower_stmt n env (STMT_FUNC_DECL nd d))" for n by (rule step_cong [OF skip_sound]) simp
  then show ?case by (intro always_eventually allI)
next
  case (STMT_STRUCT_DECL nd d)
  have "sound_step env (lower_stmt n env (STMT_STRUCT_DECL nd d))" for n by (rule step_cong [OF skip_sound]) simp
  then show ?case by (intro always_eventually allI)
next
  case (STMT_IMPL nd d)
  have "sound_step env (lower_stmt n env (STMT_IMPL nd d))" for n by (rule step_cong [OF skip_sound]) simp
  then show ?case by (intro always_eventually allI)
next
  case (STMT_INTERFACE_DECL nd d)
  have "sound_step env (lower_stmt n env (STMT_INTERFACE_DECL nd d))" for n by (rule step_cong [OF skip_sound]) simp
  then show ?case by (intro always_eventually allI)
qed

end
