(* ===== verification/Lower_Function.thy ===== *)
theory Lower_Function
  imports Lower_Correct
begin

text \<open>
  Whole functions: what \<^verbatim>\<open>mir_build_function\<close> answers on a resolved function, what the passes behind it
  do with it, and three trees that are lowered to something else than they say.
\<close>

unbundle bit_operations_syntax

section \<open>From the parameters to the last return\<close>

lemma start_ok: "lw_ok env {} {} (lower_start f)"
  by (simp add: lw_ok_def lower_start_def mir_function_create_def mir_block_create_def insts_def results_of_def Let_def
      mir_block_is_none_def MIR_NO_BLOCK_def)

text \<open>A value that stands for something from outside is the result of no instruction.\<close>

lemma outside_value_ok:
  assumes "lw_ok env P R lw" "mir_value_create (lw_ir lw) t b sp = (v, ir)"
  shows "lw_ok env P R (lw\<lparr>lw_ir := ir\<lparr>mf_params := qs\<rparr>\<rparr>)" "v < length (mf_values ir)" "nv lw \<le> length (mf_values ir)"
proof -
  note c = value_create_ok [OF assms]
  have "lw_ok env P R (lw\<lparr>lw_ir := ir\<rparr>)" using c lw_ok_unreserve [of env P "insert v R" "lw\<lparr>lw_ir := ir\<rparr>" R] by blast
  then show "lw_ok env P R (lw\<lparr>lw_ir := ir\<lparr>mf_params := qs\<rparr>\<rparr>)" by (simp add: lw_ok_def insts_def)
qed (use value_create_ok [OF assms] in auto)

definition params_bound :: "lower_env \<Rightarrow> rfield list \<Rightarrow> bool" where
  "params_bound env ps \<longleftrightarrow> (\<forall>p \<in> set ps. binding_ok env (fact_def_of (le_facts env) (nd_at (id_span (fd_field_name p)))))"

lemma params_ok:
  assumes "lw_ok env {} {} lw" "params_bound env ps" "length ps \<le> length ts"
  shows "\<exists>lw'. lower_params env ps ts lw = Some lw' \<and> lw_ok env {} {} lw'"
  using assms
proof (induction ps arbitrary: ts lw)
  case (Cons p ps)
  obtain t ts' where ts: "ts = t # ts'" using Cons.prems(3) by (cases ts) auto
  let ?b = "fact_def_of (le_facts env) (nd_at (id_span (fd_field_name p)))" and ?sp = "nd_span (id_span (fd_field_name p))"
  obtain v ir where c: "mir_value_create (lw_ir lw) t ?b ?sp = (v, ir)" by fastforce
  note o = outside_value_ok(1) [where qs = "mf_params ir @ [v]", OF Cons.prems(1) c] outside_value_ok(2) [OF Cons.prems(1) c]
  have "lw_ok env {} {} (bind_local ?b v (lw\<lparr>lw_ir := ir\<lparr>mf_params := mf_params ir @ [v]\<rparr>\<rparr>))"
    by (rule bind_local_ok [OF o(1)]) (use o(2) Cons.prems(2) in \<open>simp_all add: params_bound_def\<close>)
  from Cons.IH [OF this, of ts'] show ?case using Cons.prems(2,3) c by (simp add: ts params_bound_def)
qed simp

lemma caller_location_ok:
  assumes "lw_ok env {} {} lw"
  shows "lw_ok env {} {} (lower_caller_location g body lw)"
proof -
  let ?sp = "case body of Some s \<Rightarrow> stmt_span s | None \<Rightarrow> zero_span"
  obtain v ir where c: "mir_value_create (lw_ir lw) (fd_location_type (fn_decl g)) None ?sp = (v, ir)" by fastforce
  note o = outside_value_ok(1) [where qs = "mf_params ir @ [v]", OF assms c] outside_value_ok(2) [OF assms c]
  have "lw_ok env {} {} (lw\<lparr>lw_ir := ir\<lparr>mf_params := mf_params ir @ [v]\<rparr>, lw_caller_location := v\<rparr>)"
    using o(1,2) by (simp add: lw_ok_def insts_def value_ok_def)
  then show ?thesis using assms c by (simp add: lower_caller_location_def)
qed

section \<open>What comes out\<close>

text \<open>Every block ends in a terminator and flows to blocks; values exist, no two instructions have the same
  result, and an instruction reads values older than its own; nothing is guarded by a drop flag yet.\<close>

definition lowered_ok :: "mir_function \<Rightarrow> bool" where
  "lowered_ok ir \<longleftrightarrow> mf_entry ir < length (mf_blocks ir) \<and>
     (\<forall>b \<in> set (mf_blocks ir). mir_block_is_terminated b \<and> (\<forall>s \<in> set (mir_block_successors b). s < length (mf_blocks ir))) \<and>
     unguarded ir \<and> ends_without_drop ir \<and> distinct (results_of (concat (mf_blocks ir))) \<and>
     sources_acyclic ir (\<lambda>v. if mir_value_is_none v then 0 else Suc v)"

lemma inst_ok_successors:
  assumes "mir_block_is_terminated b" "inst_ok blocks vals (last b)" "s \<in> set (mir_block_successors b)"
  shows "s < blocks"
  using assms by (auto simp: mir_block_successors_def inst_ok_def split: mir_op.splits if_splits)

lemma lw_ok_lowered:
  assumes ok: "lw_ok env {} R lw" and t: "current_terminated lw"
  shows "lowered_ok (lw_ir lw)"
proof -
  note o = lw_okD [OF ok]
  have ends: "mir_block_is_terminated b" if "b \<in> set (mf_blocks (lw_ir lw))" for b
    using that o(4) t by (auto simp: in_set_conv_nth current_terminated_def)
  have inst: "inst_ok (nb lw) (nv lw) i" if "b \<in> set (mf_blocks (lw_ir lw))" "i \<in> set b" for b i
    using o(5) [of i] that by (auto simp: insts_def)
  have succ: "s < nb lw" if "b \<in> set (mf_blocks (lw_ir lw))" "s \<in> set (mir_block_successors b)" for b s
  proof -
    have "last b \<in> set b" using ends [OF that(1)] by (auto simp: mir_block_is_terminated_def)
    then show ?thesis using inst_ok_successors [OF ends inst] that by blast
  qed
  have "unguarded (lw_ir lw)"
    unfolding unguarded_def using inst by (auto simp: inst_ok_def value_ok_def bases_known_def)
  moreover have "mi_op (last b) \<noteq> MIR_DROP" if "b \<in> set (mf_blocks (lw_ir lw))" for b
    using ends [OF that] by (auto simp: mir_block_is_terminated_def)
  then have "ends_without_drop (lw_ir lw)" by (simp add: ends_without_drop_def)
  moreover have "sources_acyclic (lw_ir lw) (\<lambda>v. if mir_value_is_none v then 0 else Suc v)"
    unfolding sources_acyclic_def
  proof (intro allI impI ballI)
    fix v i a assume d: "definition_of (lw_ir lw) v = Some i" "a \<in> set (mi_args i)"
    then have i: "i \<in> set (insts lw)" "\<not> mir_value_is_none v" "mi_result i = v"
      using definition_of_in [OF d(1)] by (auto simp: insts_def definition_of_def find_Some_iff split: if_splits)
    have "value_ok (mi_result i) (mir_operand_as_value a)" using o(5) [OF i(1)] d(2) i(2,3) by (auto simp: inst_ok_def)
    then show "(if mir_value_is_none (mir_operand_as_value a) then 0 else Suc (mir_operand_as_value a)) <
        (if mir_value_is_none v then 0 else Suc v)" using i(2,3) by (auto simp: value_ok_def)
  qed
  ultimately show ?thesis using ends succ o(6,13) by (simp add: lowered_ok_def insts_def)
qed

section \<open>Resolved functions are lowered\<close>

definition lowers_function :: "lower_env \<Rightarrow> nat \<Rightarrow> rfield list \<Rightarrow> rstmt option \<Rightarrow> bool" where
  "lowers_function env function params body \<longleftrightarrow>
     (\<exists>g. function_at env function = Some g \<and> length params \<le> length (fs_params (fn_signature g))) \<and>
     params_bound env params \<and> (\<forall>s \<in> set_option body. lowers_stmt env s)"

lemma build_function_ends:
  assumes "lowers_function env function params body"
  shows "\<exists>N. \<forall>n \<ge> N. \<exists>ir. mir_build_function n env function params body = Some ir \<and> lowered_ok ir"
proof -
  obtain g where g: "function_at env function = Some g" "length params \<le> length (fs_params (fn_signature g))"
      "params_bound env params" "\<forall>s \<in> set_option body. lowers_stmt env s"
    using assms by (auto simp: lowers_function_def)
  obtain lw1 where 1: "lower_params env params (fs_params (fn_signature g)) (lower_start function) = Some lw1" "lw_ok env {} {} lw1"
    using params_ok [OF start_ok g(3,2)] by blast
  let ?lw2 = "lower_caller_location g body lw1"
  let ?lw3 = "?lw2\<lparr>lw_loop_local_floor := length (lw_locals ?lw2)\<rparr>"
  have 3: "lw_ok env {} {} ?lw3" by (rule update_lw_ok [OF caller_location_ok [OF 1(2)]]) simp_all
  have "eventually (\<lambda>n. \<forall>s \<in> set_option body. sound_step env (lower_stmt n env s)) sequentially"
    by (rule eventually_opt) (use g(4) stmt_lowered in simp)
  then obtain N where N: "\<forall>n \<ge> N. \<forall>s \<in> set_option body. sound_step env (lower_stmt n env s)"
    by (auto simp: eventually_sequentially)
  have "\<exists>ir. mir_build_function n env function params body = Some ir \<and> lowered_ok ir" if n: "n \<ge> N" for n
  proof -
    have s: "sound_step env (lower_opt n env body)" by (rule opt_sound) (use N n in simp)
    obtain lw4 where 4: "lower_opt n env body ?lw3 = Some lw4" "lw_ok env {} {} lw4" by (rule sound_stepE [OF s 3])
    let ?i = "inst_of MIR_RETURN None MIR_NO_VALUE zero_span"
    have "inst_ok (nb lw4) (nv lw4) ?i" by (simp add: inst_defs)
    note 5 = terminator_ok [OF 4(2) this]
    have "lowered_ok (lw_ir (lower_terminator ?i lw4))" by (rule lw_ok_lowered [OF 5(1,2)]) (simp_all add: inst_of_def)
    then show ?thesis using g(1) 1(1) 4(1) by (simp add: mir_build_function_def Let_def)
  qed
  then show ?thesis by blast
qed

lemma lowered_wf:
  "lowered_ok ir \<Longrightarrow> length (mf_blocks ir) < 4294967295 \<Longrightarrow> length (mf_values ir) < 4294967295 \<Longrightarrow> mir_wf ir"
  by (simp add: lowered_ok_def mir_wf_def)



section \<open>Samples\<close>

definition sample_node :: node where "sample_node = \<lparr>nd_at = 16, nd_span = sample_span\<rparr>"

definition callee_sample :: gfunction where
  "callee_sample =
     \<lparr>fn_decl = sample_decl, fn_signature = fd_signature sample_decl, fn_type_args = [], fn_borrowed_params = 0,
      fn_borrowed_params_known = True\<rparr>"

definition sample_env :: "facts \<Rightarrow> lower_env" where
  "sample_env f = \<lparr>le_registry = type_registry_create known_names, le_facts = f, le_functions = [callee_sample], le_symbols = []\<rparr>"

definition literal_of :: "int64_t \<Rightarrow> rexpr" where "literal_of n = EXPR_LITERAL sample_node (LITERAL_INT n)"

text \<open>\<^verbatim>\<open>{ for (; 1 < 2; ) { break; } return 3; }\<close>\<close>

definition looping_body :: rstmt where
  "looping_body = STMT_BLOCK sample_node
     [STMT_FOR sample_node None (Some (EXPR_BIN_OP sample_node (literal_of 1) BIN_OP_LESS (literal_of 2))) None
        (STMT_BLOCK sample_node [STMT_JUMP sample_node True]),
      STMT_RETURN sample_node (literal_of 3)]"

definition empty_facts :: "facts \<Rightarrow> bool" where
  "empty_facts f \<longleftrightarrow> (\<forall>at. fact_of f at = None)"

lemma empty_facts_answers [simp]:
  assumes "empty_facts f"
  shows "fact_type_of f at = None" "fact_constant_of f at = None" "fact_adjustment f at = no_adjustment" "fact_moves f at = False"
    "fact_use_of f at = None" "fact_callee_of f at = None" "fact_call_kind f at = CALL_FUNCTION"
  using assms by (simp_all add: empty_facts_def fact_type_of_def fact_constant_of_def fact_adjustment_def fact_moves_def
      fact_use_of_def fact_callee_of_def fact_call_kind_def)

lemma sample_env_simps [simp]:
  "le_facts (sample_env f) = f" "function_at (sample_env f) 0 = Some callee_sample"
  by (simp_all add: sample_env_def function_at_def)

lemma literal_lowered: "empty_facts f \<Longrightarrow> lowers_value (sample_env f) (literal_of n)"
  unfolding literal_of_def by (rule value_plain [OF _ plain_literal]) (simp add: unadjusted_def no_adjustment_def)

lemma looping_lowered: "empty_facts f \<Longrightarrow> lowers_function (sample_env f) 0 [] (Some looping_body)"
  using value_plain [OF _ plain_bin_op, of "sample_env f" sample_node "literal_of 1" BIN_OP_LESS "literal_of 2"] literal_lowered [of f]
  by (simp add: lowers_function_def looping_body_def params_bound_def callee_sample_def sample_decl_def unadjusted_def no_adjustment_def)

lemma returning_lowered: "empty_facts f \<Longrightarrow> lowers_function (sample_env f) 0 [] (Some (STMT_RETURN sample_node (literal_of 3)))"
  using literal_lowered [of f] by (simp add: lowers_function_def params_bound_def callee_sample_def sample_decl_def)

lemma some_empty_facts: "\<exists>f. facts_init = Some f \<and> empty_facts f"
  using facts_init_ok by (auto simp: empty_facts_def)


lemma returning_built:
  assumes "empty_facts f"
  shows "\<exists>ir. mir_build_function (Suc n) (sample_env f) 0 [] (Some (STMT_RETURN sample_node (literal_of 3))) = Some ir \<and>
    length (mf_blocks ir) = 1 \<and> length (mf_values ir) = 1"
  using assms
  by (simp add: mir_build_function_def lower_caller_location_def callee_sample_def sample_decl_def lower_return_def literal_of_def expr_step_def
      no_adjustment_def lower_unadjusted_def lower_literal_def lower_start_def mir_function_create_def mir_block_create_def
      lower_temp_def mir_value_create_def emit_def mir_emit_def lower_note_constant_def lower_moved_temp_def is_temp_slot_def
      lower_terminator_def FUNC_MOD_NONE_def Let_def)


section \<open>Trees lowered to something else than they say\<close>

lemma literal_step:
  assumes "empty_facts f"
  shows "\<exists>v lw' i. lower_expr (Suc n) (sample_env f) (literal_of k) lw = Some (v, lw') \<and> mi_op i = MIR_CONST_INT \<and>
    mf_blocks (lw_ir lw') = (mf_blocks (lw_ir lw))[lw_block lw := mf_blocks (lw_ir lw) ! lw_block lw @ [i]] \<and>
    lw_block lw' = lw_block lw \<and> lw_temp_slots lw' = lw_temp_slots lw \<and> lw_locals lw' = lw_locals lw"
  using assms
  by (simp add: literal_of_def expr_step_def no_adjustment_def lower_unadjusted_def lower_literal_def lower_temp_def
      mir_value_create_def emit_def mir_emit_def lower_note_constant_def inst_of_def Let_def) (rule exI, rule conjI [rotated], rule refl, simp)


text \<open>C39: a statement behind a return is lowered into the block the return ended.  Of
  \<^verbatim>\<open>{ return 3; 4; }\<close> the one block reads a constant, returns, reads another and returns again, although
  a terminator is to be the last instruction of its block.\<close>

theorem return_does_not_end_its_block:
  "\<exists>f ir. facts_init = Some f \<and>
     mir_build_function 1 (sample_env f) 0 []
       (Some (STMT_BLOCK sample_node [STMT_RETURN sample_node (literal_of 3), STMT_EXPR sample_node (literal_of 4)])) = Some ir \<and>
     map (map mi_op) (mf_blocks ir) = [[MIR_CONST_INT, MIR_RETURN, MIR_CONST_INT, MIR_RETURN]]"
proof -
  obtain f where f: "facts_init = Some f" "empty_facts f" using some_empty_facts by blast
  let ?env = "sample_env f" and ?lw = "(lower_start 0)\<lparr>lw_loop_local_floor := 0\<rparr>"
  have start: "mf_blocks (lw_ir ?lw) = [[]]" "lw_block ?lw = 0" "lw_temp_slots ?lw = []" "lw_locals ?lw = []"
    by (simp_all add: lower_start_def mir_function_create_def mir_block_create_def Let_def)
  obtain v lw1 i where 1: "lower_expr (Suc 0) ?env (literal_of 3) ?lw = Some (v, lw1)" "mi_op i = MIR_CONST_INT"
      "mf_blocks (lw_ir lw1) = [[i]]" "lw_block lw1 = 0" "lw_temp_slots lw1 = []" "lw_locals lw1 = []"
    using literal_step [OF f(2), of 0 3 ?lw] start by auto
  let ?ret = "(inst_of MIR_RETURN None MIR_NO_VALUE (nd_span sample_node))\<lparr>mi_args := lower_args [v]\<rparr>"
  let ?lw2 = "emit ?ret lw1"
  have r: "mi_op ?ret = MIR_RETURN" by (simp add: inst_of_def)
  have 2: "lower_stmt (Suc 0) ?env (STMT_RETURN sample_node (literal_of 3)) ?lw = Some ?lw2"
    using 1 by (simp add: lower_return_def lower_moved_temp_def is_temp_slot_def lower_terminator_def mir_block_is_terminated_def
        del: lower_expr.simps)
  have b2: "mf_blocks (lw_ir ?lw2) = [[i, ?ret]]" "lw_block ?lw2 = 0" "lw_locals ?lw2 = []"
    using 1 by (simp_all add: emit_def mir_emit_def)
  obtain w lw3 j where 3: "lower_expr (Suc 0) ?env (literal_of 4) ?lw2 = Some (w, lw3)" "mi_op j = MIR_CONST_INT"
      "mf_blocks (lw_ir lw3) = [[i, ?ret, j]]" "lw_block lw3 = 0" "lw_locals lw3 = []"
    using literal_step [OF f(2), of 0 4 ?lw2] b2 by auto
  let ?fin = "inst_of MIR_RETURN None MIR_NO_VALUE zero_span"
  have p: "lower_caller_location callee_sample (Some s) (lower_start 0) = lower_start 0" "lw_locals (lower_start 0) = []" for s
    by (simp_all add: lower_caller_location_def callee_sample_def sample_decl_def FUNC_MOD_NONE_def lower_start_def Let_def)
  have 4: "lower_stmt (Suc 0) ?env (STMT_BLOCK sample_node [STMT_RETURN sample_node (literal_of 3), STMT_EXPR sample_node (literal_of 4)])
      ?lw = Some lw3"
    using 2 3 start(4) by (simp add: lower_scope_end_def mir_block_is_terminated_def del: lower_expr.simps)
  have e: "mf_blocks (lw_ir (lower_terminator ?fin lw3)) = [[i, ?ret, j, ?fin]]"
    using 3 by (simp add: lower_terminator_def mir_block_is_terminated_def emit_def mir_emit_def)
  have "mir_build_function 1 ?env 0 []
       (Some (STMT_BLOCK sample_node [STMT_RETURN sample_node (literal_of 3), STMT_EXPR sample_node (literal_of 4)])) =
     Some (lw_ir (lower_terminator ?fin lw3))"
    using 4 p by (simp add: mir_build_function_def callee_sample_def sample_decl_def Let_def del: lower_stmt.simps)
  then show ?thesis using f(1) e 1(2) 3(2) by (intro exI [of _ f] exI) (auto simp: inst_of_def)
qed

text \<open>C40: an adjustment on an expression that is no place is never lowered.  To read or borrow what the
  adjustment reaches, \<^verbatim>\<open>lower_expr\<close> asks \<^verbatim>\<open>lower_place\<close> for the place of the expression, which for anything
  but a name, a field, a dereference or an index asks \<^verbatim>\<open>lower_expr\<close> for its value, adjustment and all: no
  number of steps is enough, whatever the state.\<close>

theorem adjusted_value_is_never_lowered:
  assumes "\<not> unadjusted env e" "\<not> is_place_kind e"
  shows "lower_expr n env e lw = None"
proof (induction n arbitrary: lw rule: less_induct)
  case (less n)
  show ?case
  proof (cases n)
    case (Suc m)
    have p: "lower_place m env e lw' = None" for lw'
    proof (cases m)
      case (Suc k)
      then have "lower_expr k env e lw' = None" using less [of k] \<open>n = Suc m\<close> by simp
      then show ?thesis using assms(2) Suc by (cases e) (simp_all add: place_step_def)
    qed simp
    show ?thesis using assms(1) p
      by (auto simp: Suc expr_step_def unadjusted_def lower_unsize_def lower_reached_def lower_adjusted_place_def Let_def
          split: adjust_kind.splits prod.splits)
  qed simp
qed

text \<open>The literal 3, dereferenced once.\<close>

theorem adjusted_value_is_never_lowered_witness:
  "\<exists>f f'. facts_init = Some f \<and> fact_set_adjustment f 16 (no_adjustment\<lparr>ad_deref_types := [None]\<rparr>) = Some f' \<and>
     (\<nexists>n. lower_expr n (sample_env f') (literal_of 3) (lower_start 0) \<noteq> None)"
proof -
  obtain f where f: "facts_init = Some f" "facts_ok f" "\<forall>at. fact_of f at = None" using facts_init_ok by blast
  let ?adj = "no_adjustment\<lparr>ad_deref_types := [None]\<rparr>"
  obtain f' where f': "fact_set_adjustment f 16 ?adj = Some f'" "fact_of f' 16 = Some (zero_expr_fact\<lparr>ef_adjustment := ?adj\<rparr>)"
    using fact_assign_ok [OF f(2), of "\<lambda>e. e\<lparr>ef_adjustment := ?adj\<rparr>" 16] f(3) by (auto simp: fact_set_adjustment_def)
  have "\<not> unadjusted (sample_env f') (literal_of 3)"
    using f'(2) by (simp add: unadjusted_def fact_adjustment_def literal_of_def expr_at_def sample_node_def)
  then have "lower_expr n (sample_env f') (literal_of 3) (lower_start 0) = None" for n
    by (rule adjusted_value_is_never_lowered) (simp add: literal_of_def)
  then have "\<nexists>n. lower_expr n (sample_env f') (literal_of 3) (lower_start 0) \<noteq> None" by simp
  then show ?thesis using f(1) f'(1) by (intro exI [of _ f] exI [of _ f']) simp
qed

text \<open>A conversion between integer types is lowered as one from a float.  Only the target is asked
  whether it is a float, so that of \<^verbatim>\<open>i32\<close> to \<^verbatim>\<open>usize\<close>, like every other between two different types
  that is not to \<^verbatim>\<open>f32\<close>, becomes a \<^verbatim>\<open>MIR_FTOI\<close> whose operand is an integer.\<close>

theorem integer_conversion_is_lowered_as_float:
  assumes "e = EXPR_CALL nd t (x # xs)" "type_at env e = Some to_type" "type_at env x = Some from_type"
    "ty_kind from_type \<in> {TYPE_I32, TYPE_U8, TYPE_USIZE}" "ty_kind to_type \<noteq> TYPE_F32" "ty_kind to_type \<noteq> ty_kind from_type"
    "lower_e x lw = Some (v, lw1)"
  shows "\<exists>r lw2 i. lower_conversion env lower_e e lw = Some (r, emit i lw2) \<and> mi_op i = MIR_FTOI \<and> mi_type i = Some to_type \<and>
    mi_args i = [mir_operand_value v]"
proof -
  obtain r lw2 where 2: "lower_temp (type_at env e) (expr_span e) lw1 = (r, lw2)" by fastforce
  have "lower_conversion env lower_e e lw =
      Some (r, emit ((inst_of MIR_FTOI (type_at env e) r (expr_span e))\<lparr>mi_args := lower_args [v]\<rparr>) lw2)"
    using assms 2 by (simp add: lower_conversion_def lower_unary_def)
  then show ?thesis using assms(2)
    by (intro exI [of _ r] exI [of _ lw2] exI) (auto simp: inst_of_def lower_args_def)
qed

definition noted_types :: "facts \<Rightarrow> gtype \<Rightarrow> gtype \<Rightarrow> facts option" where
  "noted_types f a b = do { f1 \<leftarrow> fact_set_type f 16 (Some a); fact_set_type f1 32 (Some b) }"

definition converted :: rexpr where
  "converted = EXPR_CALL sample_node (literal_of 0) [EXPR_LITERAL \<lparr>nd_at = 32, nd_span = sample_span\<rparr> (LITERAL_INT 3)]"

lemma noted_types_ok:
  "\<exists>f f'. facts_init = Some f \<and> noted_types f a b = Some f' \<and> fact_type_of f' 16 = Some a \<and> fact_type_of f' 32 = Some b \<and>
     (\<forall>at. fact_constant_of f' at = None \<and> fact_adjustment f' at = no_adjustment)"
proof -
  obtain f where f: "facts_init = Some f" "facts_ok f" "\<forall>at. fact_of f at = None" using facts_init_ok by blast
  obtain f1 where f1: "fact_set_type f 16 (Some a) = Some f1" "facts_ok f1" "fact_of f1 = (fact_of f)(16 \<mapsto> zero_expr_fact\<lparr>ef_type := Some a\<rparr>)"
    using fact_assign_ok [OF f(2), of "\<lambda>e. e\<lparr>ef_type := Some a\<rparr>" 16] f(3) by (auto simp: fact_set_type_def)
  obtain f2 where f2: "fact_set_type f1 32 (Some b) = Some f2" "fact_of f2 = (fact_of f1)(32 \<mapsto> zero_expr_fact\<lparr>ef_type := Some b\<rparr>)"
    using fact_assign_ok [OF f1(2), of "\<lambda>e. e\<lparr>ef_type := Some b\<rparr>" 32] f1(3) f(3) by (auto simp: fact_set_type_def)
  show ?thesis using f f1 f2
    by (intro exI [of _ f] exI [of _ f2])
      (auto simp: noted_types_def fact_type_of_def fact_constant_of_def fact_adjustment_def zero_expr_fact_def)
qed

theorem integer_conversion_is_lowered_as_float_witness:
  "\<exists>f f' r lw i. facts_init = Some f \<and> noted_types f usize_type i32_type = Some f' \<and>
     lower_conversion (sample_env f') (lower_expr 1 (sample_env f')) converted (lower_start 0) = Some (r, emit i lw) \<and>
     mi_op i = MIR_FTOI"
proof -
  obtain f f' where f: "facts_init = Some f" "noted_types f usize_type i32_type = Some f'" "fact_type_of f' 16 = Some usize_type"
      "fact_type_of f' 32 = Some i32_type" "\<forall>at. fact_constant_of f' at = None \<and> fact_adjustment f' at = no_adjustment"
    using noted_types_ok [of usize_type i32_type] by blast
  let ?x = "EXPR_LITERAL \<lparr>nd_at = 32, nd_span = sample_span\<rparr> (LITERAL_INT 3) :: rexpr"
  have t: "type_at (sample_env f') converted = Some usize_type" "type_at (sample_env f') ?x = Some i32_type"
    using f by (simp_all add: converted_def expr_at_def sample_node_def)
  obtain v lw1 where x: "lower_expr 1 (sample_env f') ?x (lower_start 0) = Some (v, lw1)"
    using f(5) by (cases "lower_literal (sample_env f') ?x (LITERAL_INT 3) (lower_start 0)")
      (simp add: expr_step_def no_adjustment_def lower_unadjusted_def)
  have k: "ty_kind i32_type \<in> {TYPE_I32, TYPE_U8, TYPE_USIZE}" "ty_kind usize_type \<noteq> TYPE_F32" "ty_kind usize_type \<noteq> ty_kind i32_type"
    by (simp_all add: i32_type_def usize_type_def)
  from integer_conversion_is_lowered_as_float [where lower_e = "lower_expr 1 (sample_env f')", OF converted_def t k x]
  show ?thesis using f(1,2) by blast
qed

end
