(* ===== verification/Mir_Instantiate.thy ===== *)
theory Mir_Instantiate
  imports Types_Correct Decls Mir
begin

text \<open>
  Instances of generic functions: \<^verbatim>\<open>src/mir/mir_instantiate.c\<close>.  The registry of functions, in which the
  instances of callees are made, is threaded through; its types do not change.  \<open>None\<close> is a failed
  assertion of a question asked of a type, or a pointer that leads nowhere.  Two type arguments are
  compared byte by byte in the code; here they differ when they are not equal.
\<close>

unbundle bit_operations_syntax

fun traverse :: "('a \<Rightarrow> 'b option) \<Rightarrow> 'a list \<Rightarrow> 'b list option" where
  "traverse f [] = Some []"
| "traverse f (x # xs) = do { y \<leftarrow> f x; ys \<leftarrow> traverse f xs; Some (y # ys) }"

section \<open>Substitution\<close>

record instantiation_state =
  in_registry :: type_registry
  in_args :: "type_arg list"

definition subst_type :: "instantiation_state \<Rightarrow> gtype option \<Rightarrow> gtype option option" where
  "subst_type inn t = type_registry_substitute (in_registry inn) t (in_args inn)"

definition subst_constant :: "instantiation_state \<Rightarrow> const \<Rightarrow> const option" where
  "subst_constant inn c =
     do { t \<leftarrow> subst_type inn (ct_type c);
          if kind_is TYPE_ARRAY t then
            map_option (\<lambda>n. Constant (type_registry_get_primitive (in_registry inn) TYPE_I32) (Const_int (scast n))) (type_array_length t)
          else Some (Constant t (ct_value c)) }"

definition subst_arg :: "instantiation_state \<Rightarrow> type_arg \<Rightarrow> type_arg option" where
  "subst_arg inn a =
     (case a of
        TYPE_ARG_TYPE t \<Rightarrow> map_option TYPE_ARG_TYPE (subst_type inn t)
      | TYPE_ARG_CONST (CONST_PARAM i) \<Rightarrow> Some (if i < length (in_args inn) then in_args inn ! i else a)
      | TYPE_ARG_CONST (CONST_VALUE c) \<Rightarrow> Some a)"

text \<open>A method of an interface becomes the one its first argument's type owns.\<close>

definition subst_interface_callee ::
  "instantiation_state \<Rightarrow> nat \<Rightarrow> gfunction \<Rightarrow> function_registry \<Rightarrow> (nat \<times> function_registry) option" where
  "subst_interface_callee inn f callee fr =
     (case (hd (fn_type_args callee), di_name (fd_id (fn_decl callee))) of
        (TYPE_ARG_TYPE t, Some name) \<Rightarrow>
          do { self \<leftarrow> subst_type inn t;
               (owned, fr1) \<leftarrow> function_registry_owned_for fr self name;
               Some (case owned of Some g \<Rightarrow> g | None \<Rightarrow> f, fr1) }
      | _ \<Rightarrow> None)"

definition subst_callee ::
  "instantiation_state \<Rightarrow> nat option \<Rightarrow> function_registry \<Rightarrow> (nat option \<times> function_registry) option" where
  "subst_callee inn callee fr =
     (case callee of
        None \<Rightarrow> Some (None, fr)
      | Some f \<Rightarrow>
          if f \<ge> length (fr_functions fr) then None
          else let g = fr_functions fr ! f in
            if fd_interface (fn_decl g) \<noteq> None \<and> length (fn_type_args g) > 0 then
              map_option (\<lambda>(h, fr1). (Some h, fr1)) (subst_interface_callee inn f g fr)
            else if length (fn_type_args g) = 0 then Some (callee, fr)
            else if length (fn_type_args g) > GAB_MAX_TYPE_PARAMS then None
            else do { args \<leftarrow> traverse (subst_arg inn) (fn_type_args g);
                      if args = fn_type_args g then Some (callee, fr)
                      else map_option (\<lambda>(h, fr1). (Some h, fr1)) (function_registry_instance fr (fn_decl g) args) })"

definition subst_projection :: "instantiation_state \<Rightarrow> projection \<Rightarrow> projection option" where
  "subst_projection inn p = map_option (\<lambda>t. p\<lparr>pr_type := t\<rparr>) (subst_type inn (pr_type p))"

definition subst_place :: "instantiation_state \<Rightarrow> place \<Rightarrow> place option" where
  "subst_place inn p = map_option (\<lambda>ps. p\<lparr>pl_projections := ps\<rparr>) (traverse (subst_projection inn) (pl_projections p))"

fun clone_arg :: "instantiation_state \<Rightarrow> mir_operand \<Rightarrow> mir_operand option" where
  "clone_arg inn (OPERAND_VALUE v) = Some (OPERAND_VALUE v)"
| "clone_arg inn (OPERAND_CONST c) = map_option OPERAND_CONST (subst_constant inn c)"

definition clone_args :: "instantiation_state \<Rightarrow> mir_operand list \<Rightarrow> mir_operand list option" where
  "clone_args inn args = traverse (clone_arg inn) args"

definition subst_inst ::
  "instantiation_state \<Rightarrow> mir_inst \<Rightarrow> function_registry \<Rightarrow> (mir_inst \<times> function_registry) option" where
  "subst_inst inn inst fr =
     do { t \<leftarrow> subst_type inn (mi_type inst);
          args \<leftarrow> clone_args inn (mi_args inst);
          let out = inst\<lparr>mi_type := t, mi_args := args\<rparr>
          in if mir_op_has_place (mi_op inst) then
               map_option (\<lambda>p. (out\<lparr>mi_place := p\<rparr>, fr)) (subst_place inn (mi_place inst))
             else if mi_op inst = MIR_CALL then
               map_option (\<lambda>(c, fr1). (out\<lparr>mi_callee := c\<rparr>, fr1)) (subst_callee inn (mi_callee inst) fr)
             else if mi_op inst \<in> {MIR_CONST_INT, MIR_CONST_FLOAT, MIR_CONST_BOOL, MIR_CONST_STR} then
               map_option (\<lambda>c. (out\<lparr>mi_constant := c\<rparr>, fr)) (subst_constant inn (mi_constant inst))
             else Some (out, fr) }"

section \<open>Functions\<close>

text \<open>An indexing method that turned out to be an intrinsic becomes a bounds check and a reference.  The
  outer \<open>None\<close> is a failed assertion: the element of a container that is neither a slice nor an array is
  asked for as an array's.\<close>

definition expand_intrinsic :: "mir_function \<Rightarrow> function_registry \<Rightarrow> mir_inst \<Rightarrow> mir_inst list option option" where
  "expand_intrinsic out fr inst =
     (case (mi_callee inst, mi_args inst) of
        (Some f, [a, b]) \<Rightarrow>
          if mi_op inst \<noteq> MIR_CALL then Some None
          else if f \<ge> length (fr_functions fr) then None
          else if fd_modifiers (fn_decl (fr_functions fr ! f)) AND FUNC_MOD_INTRINSIC = 0 then Some None
          else let receiver = mir_operand_as_value a; index = mir_operand_as_value b in
            if mir_value_is_none receiver \<or> mir_value_is_none index then Some None
            else if receiver \<ge> length (mf_values out) then None
            else do {
              held \<leftarrow> vi_type (mf_values out ! receiver);
              container \<leftarrow> mir_indexed_container (Some held);
              element \<leftarrow> (if ty_kind container = TYPE_SLICE then type_slice_element (Some container)
                          else type_array_element (Some container));
              let place = mir_place_index (mir_place_of receiver None) held index element
              in Some (Some
                [(inst_of MIR_BOUNDS (Some container) MIR_NO_VALUE (mi_span inst))
                   \<lparr>mi_args := map mir_operand_value (mir_bounds_operands place (Some held) index)\<rparr>,
                 (inst_of MIR_REF (mi_type inst) (mi_result inst) (mi_span inst))\<lparr>mi_place := place\<rparr>]) }
      | _ \<Rightarrow> Some None)"

fun instantiate_block ::
  "instantiation_state \<Rightarrow> mir_function \<Rightarrow> mir_block \<Rightarrow> function_registry \<Rightarrow> (mir_block \<times> function_registry) option" where
  "instantiate_block inn out [] fr = Some ([], fr)"
| "instantiate_block inn out (i # is) fr =
     do { (inst, fr1) \<leftarrow> subst_inst inn i fr;
          expanded \<leftarrow> expand_intrinsic out fr1 inst;
          (rest, fr2) \<leftarrow> instantiate_block inn out is fr1;
          Some ((case expanded of Some insts \<Rightarrow> insts | None \<Rightarrow> [inst]) @ rest, fr2) }"

fun instantiate_blocks ::
  "instantiation_state \<Rightarrow> mir_function \<Rightarrow> mir_block list \<Rightarrow> function_registry \<Rightarrow> (mir_block list \<times> function_registry) option" where
  "instantiate_blocks inn out [] fr = Some ([], fr)"
| "instantiate_blocks inn out (b # bs) fr =
     do { (b', fr1) \<leftarrow> instantiate_block inn out b fr;
          (bs', fr2) \<leftarrow> instantiate_blocks inn out bs fr1;
          Some (b' # bs', fr2) }"

definition subst_value :: "instantiation_state \<Rightarrow> mir_value_info \<Rightarrow> mir_value_info option" where
  "subst_value inn info = map_option (\<lambda>t. info\<lparr>vi_type := t\<rparr>) (subst_type inn (vi_type info))"

definition mir_instantiate ::
  "function_registry \<Rightarrow> mir_function \<Rightarrow> nat \<Rightarrow> type_arg list \<Rightarrow> (mir_function \<times> function_registry) option" where
  "mir_instantiate fr generic instance' args =
     (let inn = \<lparr>in_registry = fr_types fr, in_args = args\<rparr>
      in do { values \<leftarrow> traverse (subst_value inn) (mf_values generic);
              let out = generic\<lparr>mf_function := Some instance', mf_values := values\<rparr>
              in do { (blocks, fr1) \<leftarrow> instantiate_blocks inn out (mf_blocks generic) fr;
                      Some (out\<lparr>mf_blocks := blocks\<rparr>, fr1) } })"

end
