(* ===== verification/Mir_Build.thy ===== *)
theory Mir_Build
  imports Mir_Lower_Body Mir_Instantiate Mir_Borrowck
begin

text \<open>
  From a resolved module to its bodies: \<^verbatim>\<open>src/ast/pending.c\<close>, \<^verbatim>\<open>src/mir/mir_module.c\<close> and
  \<^verbatim>\<open>src/mir/mir_build.c\<close>.  A function is its index in the registry of functions, which is threaded through
  with the work still to do and the diagnostics.  \<open>None\<close> is a failed assertion, a pointer that leads nowhere,
  or a lack of steps: of lowering, of the walk over a type that is dropped, or of the loop over the instances.
\<close>

unbundle bit_operations_syntax

section \<open>Bodies still to lower\<close>

definition GAB_MAX_INSTANTIATIONS :: nat where "GAB_MAX_INSTANTIATIONS = 256"

record pending_body =
  pb_body :: "rstmt option"
  pb_param_fields :: "rfield list"
  pb_function :: nat

record pending_bodies =
  pw_bodies :: "pending_body list"
  pw_instances :: "nat list"
  pw_overflowed :: bool

definition pending_bodies_create :: pending_bodies where
  "pending_bodies_create = \<lparr>pw_bodies = [], pw_instances = [], pw_overflowed = False\<rparr>"

fun type_args_are_concrete :: "type_arg list \<Rightarrow> bool" where
  "type_args_are_concrete [] = True"
| "type_args_are_concrete (a # as) \<longleftrightarrow>
     (if (case a of TYPE_ARG_TYPE t \<Rightarrow> type_has_param t | TYPE_ARG_CONST c \<Rightarrow> (case c of CONST_PARAM i \<Rightarrow> True | _ \<Rightarrow> False))
      then False else type_args_are_concrete as)"

text \<open>The work and the diagnostics after a function is asked for.\<close>

definition pending_bodies_instantiate ::
  "function_registry \<Rightarrow> pending_bodies \<Rightarrow> nat \<Rightarrow> diagnostics \<Rightarrow> (pending_bodies \<times> diagnostics) option" where
  "pending_bodies_instantiate fr work f ds =
     (if f \<ge> length (fr_functions fr) then None
      else let g = fr_functions fr ! f in
        if function_lowers_no_body g then Some (work, ds)
        else if fd_type_param_count (fn_decl g) = 0 \<or> length (fn_type_args g) = 0 then Some (work, ds)
        else if \<not> type_args_are_concrete (fn_type_args g) then None
        else if list_ex (\<lambda>h. h = f) (pw_instances work) then Some (work, ds)
        else if length (pw_instances work) \<ge> GAB_MAX_INSTANTIATIONS then
          (if pw_overflowed work then Some (work, ds)
           else case di_name (fd_id (fn_decl g)) of
             None \<Rightarrow> None
           | Some name \<Rightarrow>
               Some (work\<lparr>pw_overflowed := True\<rparr>,
                     diag_error ds GAB_ERR_TYPE zero_span (CHR 0x27 # name @ CHR 0x27 # '' instantiates itself without end'')))
        else Some (work\<lparr>pw_instances := pw_instances work @ [f]\<rparr>, ds))"

section \<open>The bodies of a module\<close>

record mir_module_entry =
  me_function :: nat
  me_id :: instance_id
  me_ir :: mir_function

type_synonym mir_module = "mir_module_entry list"

definition mir_module_create :: mir_module where "mir_module_create = []"

text \<open>The id of a function given by its index.\<close>

definition id_of_function :: "function_registry \<Rightarrow> nat \<Rightarrow> instance_id option" where
  "id_of_function fr f =
     (if f < length (fr_functions fr) then Some (instance_id_of_function (Some (fr_functions fr ! f))) else None)"

definition mir_module_add :: "function_registry \<Rightarrow> mir_module \<Rightarrow> nat \<Rightarrow> mir_function \<Rightarrow> mir_module option" where
  "mir_module_add fr unit f ir =
     map_option (\<lambda>i. unit @ [\<lparr>me_function = f, me_id = i, me_ir = ir\<rparr>]) (id_of_function fr f)"

definition mir_module_lookup_id :: "mir_module \<Rightarrow> instance_id \<Rightarrow> mir_function option" where
  "mir_module_lookup_id unit i =
     (if \<not> decl_id_is_set (ii_decl i) then None
      else map_option me_ir (find (\<lambda>e. instance_id_equals (me_id e) i) unit))"

definition mir_module_lookup :: "function_registry \<Rightarrow> mir_module \<Rightarrow> nat \<Rightarrow> mir_function option option" where
  "mir_module_lookup fr unit f = map_option (mir_module_lookup_id unit) (id_of_function fr f)"

section \<open>Building\<close>

definition mir_function_is_template :: "function_registry \<Rightarrow> mir_function \<Rightarrow> bool option" where
  "mir_function_is_template fr ir =
     (case mf_function ir of
        None \<Rightarrow> Some False
      | Some f \<Rightarrow>
          if f < length (fr_functions fr) then
            Some (fd_type_param_count (fn_decl (fr_functions fr ! f)) > 0 \<and> length (fn_type_args (fr_functions fr ! f)) = 0)
          else None)"

record building =
  bl_functions :: function_registry
  bl_work :: pending_bodies
  bl_diagnostics :: diagnostics

definition instantiate_needed :: "nat option \<Rightarrow> building \<Rightarrow> building option" where
  "instantiate_needed callee bl =
     (case callee of
        None \<Rightarrow> Some bl
      | Some f \<Rightarrow>
          if f \<ge> length (fr_functions (bl_functions bl)) then None
          else if length (fn_type_args (fr_functions (bl_functions bl) ! f)) = 0 then Some bl
          else map_option (\<lambda>(work, ds). bl\<lparr>bl_work := work, bl_diagnostics := ds\<rparr>)
                 (pending_bodies_instantiate (bl_functions bl) (bl_work bl) f (bl_diagnostics bl)))"

text \<open>The destructors of a type, of what it points to, and of its fields that own; one step for each type
  on the way down.\<close>

fun collect_dropped_endings :: "nat \<Rightarrow> gtype option \<Rightarrow> building \<Rightarrow> building option"
  and collect_dropped_fields :: "nat \<Rightarrow> type_field list \<Rightarrow> building \<Rightarrow> building option" where
  "collect_dropped_endings 0 t bl = None"
| "collect_dropped_endings (Suc n) t bl =
     (case t of
        None \<Rightarrow> Some bl
      | Some u \<Rightarrow>
          let reg = fr_types (bl_functions bl)
          in do {
            (owned, fr1) \<leftarrow> function_registry_owned_for (bl_functions bl) t (kn_destroy_method (type_registry_names reg));
            bl1 \<leftarrow> instantiate_needed owned (bl\<lparr>bl_functions := fr1\<rparr>);
            bl2 \<leftarrow> collect_dropped_endings n (type_pointee t) bl1;
            fields \<leftarrow> type_registry_fields_of reg t;
            collect_dropped_fields n fields bl2 })"
| "collect_dropped_fields n [] bl = Some bl"
| "collect_dropped_fields n (f # fs) bl =
     do { owns \<leftarrow> type_registry_owns (fr_types (bl_functions bl)) (tf_type f);
          bl1 \<leftarrow> (if owns then collect_dropped_endings n (tf_type f) bl else Some bl);
          collect_dropped_fields n fs bl1 }"

definition collect_called_instance :: "nat \<Rightarrow> mir_inst \<Rightarrow> building \<Rightarrow> building option" where
  "collect_called_instance n inst bl =
     (if mi_op inst = MIR_DROP then collect_dropped_endings n (mi_type inst) bl
      else if mi_op inst \<noteq> MIR_CALL then Some bl
      else instantiate_needed (mi_callee inst) bl)"

fun collect_called_insts :: "nat \<Rightarrow> mir_inst list \<Rightarrow> building \<Rightarrow> building option" where
  "collect_called_insts n [] bl = Some bl"
| "collect_called_insts n (i # is) bl = do { bl1 \<leftarrow> collect_called_instance n i bl; collect_called_insts n is bl1 }"

definition collect_called_instances :: "nat \<Rightarrow> mir_function \<Rightarrow> building \<Rightarrow> building option" where
  "collect_called_instances n body bl = collect_called_insts n (concat (mf_blocks body)) bl"

text \<open>The first loop: every body of the module is lowered, and what a body that is no template calls is
  asked for.\<close>

definition lower_env_of :: "facts \<Rightarrow> symbol list \<Rightarrow> function_registry \<Rightarrow> lower_env" where
  "lower_env_of facts symbols fr =
     \<lparr>le_registry = fr_types fr, le_facts = facts, le_functions = fr_functions fr, le_symbols = symbols\<rparr>"

fun build_bodies ::
  "nat \<Rightarrow> facts \<Rightarrow> symbol list \<Rightarrow> pending_body list \<Rightarrow> mir_module \<Rightarrow> building \<Rightarrow>
   (mir_function list \<times> mir_module \<times> building) option" where
  "build_bodies n facts symbols [] unit bl = Some ([], unit, bl)"
| "build_bodies n facts symbols (p # ps) unit bl =
     do { ir \<leftarrow> mir_build_function n (lower_env_of facts symbols (bl_functions bl)) (pb_function p) (pb_param_fields p) (pb_body p);
          unit1 \<leftarrow> mir_module_add (bl_functions bl) unit (pb_function p) ir;
          template \<leftarrow> mir_function_is_template (bl_functions bl) ir;
          bl1 \<leftarrow> (if template then Some bl else collect_called_instances n ir bl);
          (irs, unit2, bl2) \<leftarrow> build_bodies n facts symbols ps unit1 bl1;
          Some (ir # irs, unit2, bl2) }"

text \<open>The second loop, over a list that grows while it is walked.\<close>

definition generic_of :: "mir_module \<Rightarrow> mir_module option \<Rightarrow> gfunction \<Rightarrow> mir_function option" where
  "generic_of unit imported g =
     (let generic = instance_id_of (fd_id (fn_decl g)) []
      in case mir_module_lookup_id unit generic of
           Some ir \<Rightarrow> Some ir
         | None \<Rightarrow> (case imported of None \<Rightarrow> None | Some m \<Rightarrow> mir_module_lookup_id m generic))"

definition build_instance ::
  "nat \<Rightarrow> mir_module option \<Rightarrow> nat \<Rightarrow> mir_module \<Rightarrow> building \<Rightarrow> (mir_module \<times> building) option" where
  "build_instance n imported f unit bl =
     (if f \<ge> length (fr_functions (bl_functions bl)) then None
      else let g = fr_functions (bl_functions bl) ! f in
        case generic_of unit imported g of
          None \<Rightarrow> Some (unit, bl)
        | Some generic \<Rightarrow>
            do { there \<leftarrow> mir_module_lookup (bl_functions bl) unit f;
                 if there \<noteq> None then Some (unit, bl)
                 else do {
                   (body, fr1) \<leftarrow> mir_instantiate (bl_functions bl) generic f (fn_type_args g);
                   unit1 \<leftarrow> mir_module_add fr1 unit f body;
                   bl1 \<leftarrow> collect_called_instances n body (bl\<lparr>bl_functions := fr1\<rparr>);
                   Some (unit1, bl1) } })"

fun build_instances ::
  "nat \<Rightarrow> mir_module option \<Rightarrow> nat \<Rightarrow> nat \<Rightarrow> mir_module \<Rightarrow> building \<Rightarrow> (mir_module \<times> building) option" where
  "build_instances n imported steps i unit bl =
     (if i \<ge> length (pw_instances (bl_work bl)) then Some (unit, bl)
      else case steps of
        0 \<Rightarrow> None
      | Suc steps' \<Rightarrow>
          do { (unit1, bl1) \<leftarrow> build_instance n imported (pw_instances (bl_work bl) ! i) unit bl;
               build_instances n imported steps' (Suc i) unit1 bl1 })"

text \<open>The borrow check of every body, without and then with reports.\<close>

fun check_bodies :: "bool \<Rightarrow> (mir_function \<times> nat) list \<Rightarrow> building \<Rightarrow> building option" where
  "check_bodies reporting [] bl = Some bl"
| "check_bodies reporting ((ir, f) # rest) bl =
     do { (ds, fns) \<leftarrow> mir_borrowck (fr_types (bl_functions bl)) ir (bl_diagnostics bl) (fr_functions (bl_functions bl)) (Some f) reporting;
          check_bodies reporting rest (bl\<lparr>bl_diagnostics := ds, bl_functions := (bl_functions bl)\<lparr>fr_functions := fns\<rparr>\<rparr>) }"

definition mir_build ::
  "nat \<Rightarrow> nat \<Rightarrow> facts \<Rightarrow> symbol list \<Rightarrow> mir_module option \<Rightarrow> building \<Rightarrow> (bool \<times> mir_module \<times> building) option" where
  "mir_build n steps facts symbols imported bl =
     do { (lowered, unit, bl1) \<leftarrow> build_bodies n facts symbols (pw_bodies (bl_work bl)) mir_module_create bl;
          (unit2, bl2) \<leftarrow> build_instances n imported steps 0 unit bl1;
          let checked = zip lowered (map pb_function (pw_bodies (bl_work bl)))
          in do {
            bl3 \<leftarrow> check_bodies False checked bl2;
            bl4 \<leftarrow> check_bodies True checked bl3;
            Some (diagnostics_count (bl_diagnostics bl4) = diagnostics_count (bl_diagnostics bl), unit2, bl4) } }"

end
