(* ===== verification/Instantiate_Correct.thy ===== *)
theory Instantiate_Correct
  imports Mir_Instantiate
begin

text \<open>
  An instance of a generic function mentions no type parameter: substitution closes the type of every value
  and instruction, of what a place goes through and of every constant, and the functions it calls are
  instances at closed arguments.  The blocks keep their shape, so an instance of a well-formed function is
  one.
\<close>

unbundle bit_operations_syntax

section \<open>What a function mentions\<close>

definition operand_types :: "mir_operand \<Rightarrow> gtype option set" where
  "operand_types a = (case a of OPERAND_VALUE v \<Rightarrow> {} | OPERAND_CONST c \<Rightarrow> {ct_type c})"

definition has_constant :: "mir_op \<Rightarrow> bool" where
  "has_constant op \<longleftrightarrow> op \<in> {MIR_CONST_INT, MIR_CONST_FLOAT, MIR_CONST_BOOL, MIR_CONST_STR}"

definition inst_types :: "mir_inst \<Rightarrow> gtype option set" where
  "inst_types i =
     {mi_type i} \<union> (\<Union>a \<in> set (mi_args i). operand_types a) \<union>
     (if mir_op_has_place (mi_op i) then pr_type ` set (pl_projections (mi_place i)) else {}) \<union>
     (if has_constant (mi_op i) then {ct_type (mi_constant i)} else {})"

definition function_types :: "mir_function \<Rightarrow> gtype option set" where
  "function_types ir = vi_type ` set (mf_values ir) \<union> (\<Union>b \<in> set (mf_blocks ir). \<Union>i \<in> set b. inst_types i)"

definition called_by :: "mir_function \<Rightarrow> nat set" where
  "called_by ir = {f. \<exists>b \<in> set (mf_blocks ir). \<exists>i \<in> set b. mi_op i = MIR_CALL \<and> mi_callee i = Some f}"

text \<open>Types and arguments a substitution closes.\<close>

definition fitting :: "type_registry \<Rightarrow> type_arg list \<Rightarrow> gtype option \<Rightarrow> bool" where
  "fitting reg args t \<longleftrightarrow> type_made reg t \<and> fits reg args t"

definition arg_fitting :: "type_registry \<Rightarrow> type_arg list \<Rightarrow> type_arg \<Rightarrow> bool" where
  "arg_fitting reg args a =
     (case a of TYPE_ARG_TYPE t \<Rightarrow> fitting reg args t | TYPE_ARG_CONST c \<Rightarrow> const_made reg c \<and> const_fits args a)"

lemma traverse_all:
  assumes "\<forall>x \<in> set xs. \<exists>y. f x = Some y \<and> Q x y"
  shows "\<exists>ys. traverse f xs = Some ys \<and> list_all2 Q xs ys"
  using assms by (induction xs) auto

lemma all2_right: "list_all2 Q xs ys \<Longrightarrow> (\<And>x y. Q x y \<Longrightarrow> Q' y) \<Longrightarrow> \<forall>y \<in> set ys. Q' y"
  by (induction rule: list_all2_induct) auto

lemma subst_type_closes:
  assumes "args_closed reg args" "fitting reg args t"
  shows "\<exists>u. subst_type \<lparr>in_registry = reg, in_args = args\<rparr> t = Some u \<and> type_made reg u \<and> \<not> type_has_param u"
  using substitute_closes [OF _ _ assms(1)] assms(2) by (simp add: subst_type_def fitting_def)

lemma closed_array_has_length:
  assumes "type_made reg (Some t)" "ty_kind t = TYPE_ARRAY" "\<not> type_has_param (Some t)"
  shows "type_array_length (Some t) \<noteq> None"
proof -
  obtain u c where t: "t = type_registry_array_with reg u (TYPE_ARG_CONST c)"
    using type_made_shape [OF assms(1)] assms(2) by (auto simp: made_shape_def)
  show ?thesis using assms(3) by (cases c) (auto simp: t type_registry_array_with_def type_has_param.simps arg_has_param_def)
qed

lemma i32_closed [simp]: "\<not> type_has_param (type_registry_get_primitive reg TYPE_I32)"
  by (simp add: register_builtin_def type_init_def type_has_param.simps)

lemma subst_constant_closes:
  assumes "args_closed reg args" "fitting reg args (ct_type c)"
  shows "\<exists>d. subst_constant \<lparr>in_registry = reg, in_args = args\<rparr> c = Some d \<and> \<not> type_has_param (ct_type d)"
proof -
  obtain t where t: "subst_type \<lparr>in_registry = reg, in_args = args\<rparr> (ct_type c) = Some t" "type_made reg t" "\<not> type_has_param t"
    using subst_type_closes [OF assms] by blast
  show ?thesis
  proof (cases "kind_is TYPE_ARRAY t")
    case True
    then obtain u where u: "t = Some u" "ty_kind u = TYPE_ARRAY" by (cases t) auto
    then obtain n where "type_array_length t = Some n" using closed_array_has_length t by blast
    then show ?thesis using t True i32_closed
      by (simp add: subst_constant_def del: type_array_length.simps type_registry_get_primitive.simps)
  qed (use t in \<open>simp add: subst_constant_def\<close>)
qed

lemma subst_arg_closes:
  assumes "args_closed reg args" "arg_fitting reg args a"
  shows "\<exists>b. subst_arg \<lparr>in_registry = reg, in_args = args\<rparr> a = Some b \<and> arg_made reg b \<and> \<not> arg_has_param b"
proof (cases a)
  case (TYPE_ARG_TYPE t)
  then have "fitting reg args t" using assms(2) by (simp add: arg_fitting_def)
  from subst_type_closes [OF assms(1) this] show ?thesis
    by (auto simp: TYPE_ARG_TYPE subst_arg_def arg_has_param_def intro: made_type_arg)
next
  case (TYPE_ARG_CONST c)
  show ?thesis
  proof (cases c)
    case (CONST_PARAM i)
    then have "i < length args" using assms(2) by (simp add: TYPE_ARG_CONST arg_fitting_def const_fits_def)
    then show ?thesis using assms(1) nth_mem [of i args] by (auto simp: TYPE_ARG_CONST CONST_PARAM subst_arg_def args_closed_def)
  next
    case (CONST_VALUE v)
    then show ?thesis using assms(2)
      by (auto simp: TYPE_ARG_CONST subst_arg_def arg_fitting_def arg_has_param_def intro: made_const_arg)
  qed
qed

section \<open>Callees\<close>

text \<open>No function is an intrinsic, and every entry of the registry has the arguments of its function.\<close>

definition functions_ok :: "function_registry \<Rightarrow> bool" where
  "functions_ok fr \<longleftrightarrow>
     (\<forall>g \<in> set (fr_functions fr). fd_modifiers (fn_decl g) AND FUNC_MOD_INTRINSIC = 0) \<and>
     (\<forall>(k, f) \<in> set (fr_instances fr). f < length (fr_functions fr) \<and> ii_args k = fn_type_args (fr_functions fr ! f))"

definition functions_extend :: "function_registry \<Rightarrow> function_registry \<Rightarrow> bool" where
  "functions_extend fr fr' \<longleftrightarrow> fr_types fr' = fr_types fr \<and> (\<exists>gs. fr_functions fr' = fr_functions fr @ gs)"

definition is_concrete :: "function_registry \<Rightarrow> nat \<Rightarrow> bool" where
  "is_concrete fr f \<longleftrightarrow> f < length (fr_functions fr) \<and> (\<forall>a \<in> set (fn_type_args (fr_functions fr ! f)). \<not> arg_has_param a)"

lemma functions_extend_refl [simp]: "functions_extend fr fr" by (simp add: functions_extend_def)

lemma functions_extend_trans: "functions_extend a b \<Longrightarrow> functions_extend b c \<Longrightarrow> functions_extend a c"
  by (auto simp: functions_extend_def)

lemma functions_extend_nth:
  "functions_extend fr fr' \<Longrightarrow> f < length (fr_functions fr) \<Longrightarrow>
   f < length (fr_functions fr') \<and> fr_functions fr' ! f = fr_functions fr ! f"
  by (auto simp: functions_extend_def nth_append)

lemma concrete_extends: "functions_extend fr fr' \<Longrightarrow> is_concrete fr f \<Longrightarrow> is_concrete fr' f"
  using functions_extend_nth by (auto simp: is_concrete_def)

lemma args_equal_closed:
  "type_args_equal as bs \<Longrightarrow> (\<forall>a \<in> set as. \<not> arg_has_param a) = (\<forall>b \<in> set bs. \<not> arg_has_param b)"
proof (induction as arbitrary: bs)
  case Nil
  then show ?case by (cases bs) auto
next
  case (Cons a as)
  then obtain b bs' where bs: "bs = b # bs'" "type_arg_equals a b" "type_args_equal as bs'" by (cases bs) auto
  have "arg_has_param a = arg_has_param b"
    using bs(2) by (cases "(a, b)" rule: type_arg_equals.cases) (auto simp: arg_has_param_def)
  then show ?case using Cons.IH [OF bs(3)] bs(1) by simp
qed

definition signature_fitting :: "type_registry \<Rightarrow> type_arg list \<Rightarrow> func_signature \<Rightarrow> bool" where
  "signature_fitting reg args sig \<longleftrightarrow> (\<forall>t \<in> set (fs_return sig # fs_params sig). fitting reg args t)"

lemma substitute_all_closes:
  "args_closed reg args \<Longrightarrow> \<forall>t \<in> set ts. fitting reg args t \<Longrightarrow> \<exists>us. substitute_all reg ts args = Some us"
proof (induction ts)
  case (Cons t ts)
  then obtain u us where "type_registry_substitute reg t args = Some u" "substitute_all reg ts args = Some us"
    using substitute_closes [of reg args t] by (auto simp: fitting_def)
  then show ?case by simp
qed simp

lemma signature_instantiated:
  assumes "args_closed reg args" "signature_fitting reg args sig"
  shows "\<exists>sig'. func_signature_instantiate reg sig args = Some sig'"
proof -
  obtain u us where "type_registry_substitute reg (fs_return sig) args = Some u" "substitute_all reg (fs_params sig) args = Some us"
    using substitute_closes [of reg args "fs_return sig"] substitute_all_closes [OF assms(1), of "fs_params sig"] assms
    by (auto simp: signature_fitting_def fitting_def)
  then show ?thesis by (simp add: func_signature_instantiate_def)
qed

lemma instance_made:
  assumes ok: "functions_ok fr" and n: "length args \<le> GAB_MAX_TYPE_PARAMS" and c: "args_closed (fr_types fr) args"
    and sig: "signature_fitting (fr_types fr) args (fd_signature decl)" and i: "fd_modifiers decl AND FUNC_MOD_INTRINSIC = 0"
  shows "\<exists>h fr1. function_registry_instance fr decl args = Some (h, fr1) \<and> functions_ok fr1 \<and> functions_extend fr fr1 \<and>
    is_concrete fr1 h"
proof (cases "instance_lookup fr (instance_id_of (fd_id decl) args)")
  case (Some h)
  then obtain k where k: "(k, h) \<in> set (fr_instances fr)" "instance_id_equals k (instance_id_of (fd_id decl) args)"
    by (auto simp: instance_lookup_def find_Some_iff in_set_conv_nth) metis
  then have h: "h < length (fr_functions fr)" "ii_args k = fn_type_args (fr_functions fr ! h)"
    using ok by (auto simp: functions_ok_def)
  have "type_args_equal (fn_type_args (fr_functions fr ! h)) args"
    using k(2) h(2) n by (simp add: instance_id_equals_def instance_id_of_def split: if_splits)
  then have "is_concrete fr h" using args_equal_closed c h(1) by (auto simp: is_concrete_def args_closed_def)
  then show ?thesis using Some ok by (simp add: function_registry_instance_def)
next
  case None
  obtain sig' where "func_signature_instantiate (fr_types fr) (fd_signature decl) args = Some sig'"
    using signature_instantiated [OF c sig] by blast
  then show ?thesis using None ok n c i
    by (auto simp: function_registry_instance_def Let_def functions_ok_def functions_extend_def is_concrete_def instance_id_of_def
        args_closed_def nth_append)
qed

definition callee_fitting :: "function_registry \<Rightarrow> type_arg list \<Rightarrow> nat \<Rightarrow> bool" where
  "callee_fitting fr args f \<longleftrightarrow> f < length (fr_functions fr) \<and>
     (let g = fr_functions fr ! f in
        (fd_interface (fn_decl g) = None \<or> fn_type_args g = []) \<and> length (fn_type_args g) \<le> GAB_MAX_TYPE_PARAMS \<and>
        (\<forall>a \<in> set (fn_type_args g). arg_fitting (fr_types fr) args a) \<and>
        (\<forall>args'. traverse (subst_arg \<lparr>in_registry = fr_types fr, in_args = args\<rparr>) (fn_type_args g) = Some args' \<longrightarrow>
           signature_fitting (fr_types fr) args' (fd_signature (fn_decl g))))"

lemma traverse_length: "traverse f xs = Some ys \<Longrightarrow> length ys = length xs"
  by (induction xs arbitrary: ys) (auto split: bind_splits)

lemma subst_callee_closes:
  assumes ok: "functions_ok fr" "functions_extend fr0 fr" and c: "args_closed (fr_types fr0) args" "callee_fitting fr0 args f"
  shows "\<exists>h fr1. subst_callee \<lparr>in_registry = fr_types fr0, in_args = args\<rparr> (Some f) fr = Some (Some h, fr1) \<and> functions_ok fr1 \<and>
    functions_extend fr fr1 \<and> is_concrete fr1 h"
proof -
  let ?inn = "\<lparr>in_registry = fr_types fr0, in_args = args\<rparr>"
  let ?g = "fr_functions fr0 ! f"
  have f: "f < length (fr_functions fr)" "fr_functions fr ! f = ?g"
    using functions_extend_nth [OF ok(2)] c(2) by (simp_all add: callee_fitting_def)
  have g: "fd_interface (fn_decl ?g) = None \<or> fn_type_args ?g = []" "length (fn_type_args ?g) \<le> GAB_MAX_TYPE_PARAMS"
      "\<forall>a \<in> set (fn_type_args ?g). arg_fitting (fr_types fr0) args a"
      "\<And>args'. traverse (subst_arg ?inn) (fn_type_args ?g) = Some args' \<Longrightarrow> signature_fitting (fr_types fr0) args' (fd_signature (fn_decl ?g))"
    using c(2) by (simp_all add: callee_fitting_def Let_def)
  obtain args' where a: "traverse (subst_arg ?inn) (fn_type_args ?g) = Some args'"
      "list_all2 (\<lambda>_ b. arg_made (fr_types fr0) b \<and> \<not> arg_has_param b) (fn_type_args ?g) args'"
    using traverse_all [of "fn_type_args ?g" "subst_arg ?inn" "\<lambda>_ b. arg_made (fr_types fr0) b \<and> \<not> arg_has_param b"]
      subst_arg_closes [OF c(1)] g(3) by blast
  have closed: "args_closed (fr_types fr0) args'"
    using a(2) by (auto simp: args_closed_def list_all2_conv_all_nth in_set_conv_nth)
  have t: "fr_types fr = fr_types fr0" using ok(2) by (simp add: functions_extend_def)
  show ?thesis
  proof (cases "fn_type_args ?g = [] \<or> args' = fn_type_args ?g")
    case True
    have "is_concrete fr f" using True closed f by (auto simp: is_concrete_def args_closed_def)
    then show ?thesis using True f g(1,2) a(1) ok(1) by (auto simp: subst_callee_def Let_def)
  next
    case False
    have "length args' \<le> GAB_MAX_TYPE_PARAMS" using traverse_length [OF a(1)] g(2) by simp
    moreover have "fd_modifiers (fn_decl ?g) AND FUNC_MOD_INTRINSIC = 0" using ok(1) f nth_mem [OF f(1)] by (auto simp: functions_ok_def)
    ultimately obtain h fr1 where "function_registry_instance fr (fn_decl ?g) args' = Some (h, fr1)" "functions_ok fr1"
        "functions_extend fr fr1" "is_concrete fr1 h"
      using instance_made [OF ok(1), of args' "fn_decl ?g"] closed g(4) [OF a(1)] t by auto
    then show ?thesis using False f g(1,2) a(1) by (auto simp: subst_callee_def Let_def)
  qed
qed

section \<open>Instructions\<close>

text \<open>An instruction stands for another when it does the same to the same values.\<close>

definition stands_for :: "mir_inst \<Rightarrow> mir_inst \<Rightarrow> bool" where
  "stands_for i j \<longleftrightarrow> mi_op j = mi_op i \<and> mi_result j = mi_result i \<and> mi_targets j = mi_targets i \<and> mi_flag j = mi_flag i \<and>
     mi_read j = mi_read i \<and> mi_predicate j = mi_predicate i \<and> pl_base (mi_place j) = pl_base (mi_place i) \<and>
     map mir_operand_as_value (mi_args j) = map mir_operand_as_value (mi_args i)"

definition inst_closed :: "function_registry \<Rightarrow> mir_inst \<Rightarrow> bool" where
  "inst_closed fr i \<longleftrightarrow> (\<forall>t \<in> inst_types i. \<not> type_has_param t) \<and>
     (mi_op i = MIR_CALL \<longrightarrow> (\<forall>f. mi_callee i = Some f \<longrightarrow> is_concrete fr f))"

definition inst_fitting :: "function_registry \<Rightarrow> type_arg list \<Rightarrow> mir_inst \<Rightarrow> bool" where
  "inst_fitting fr args i \<longleftrightarrow> (\<forall>t \<in> inst_types i. fitting (fr_types fr) args t) \<and>
     (mi_op i = MIR_CALL \<longrightarrow> (\<forall>f. mi_callee i = Some f \<longrightarrow> callee_fitting fr args f))"

lemma inst_closed_extends: "functions_extend fr fr' \<Longrightarrow> inst_closed fr i \<Longrightarrow> inst_closed fr' i"
  using concrete_extends by (auto simp: inst_closed_def)

lemma inst_closedI:
  assumes "\<not> type_has_param (mi_type j)" "\<forall>a \<in> set (mi_args j). \<forall>t \<in> operand_types a. \<not> type_has_param t"
    "mir_op_has_place (mi_op j) \<Longrightarrow> \<forall>t \<in> pr_type ` set (pl_projections (mi_place j)). \<not> type_has_param t"
    "has_constant (mi_op j) \<Longrightarrow> \<not> type_has_param (ct_type (mi_constant j))"
    "\<And>f. mi_op j = MIR_CALL \<Longrightarrow> mi_callee j = Some f \<Longrightarrow> is_concrete fr f"
  shows "inst_closed fr j"
  using assms unfolding inst_closed_def inst_types_def by (simp split del: if_split del: mir_op_has_place.simps) (simp del: mir_op_has_place.simps add: ball_Un)

text \<open>An operation has a place, is a call, has a constant, or none of these.\<close>

lemma op_kinds:
  "mir_op_has_place op \<Longrightarrow> op \<noteq> MIR_CALL \<and> \<not> has_constant op" "\<not> mir_op_has_place MIR_CALL" "\<not> has_constant MIR_CALL"
  "has_constant op \<Longrightarrow> \<not> mir_op_has_place op \<and> op \<noteq> MIR_CALL"
  by (cases op; simp add: has_constant_def)+

lemma clone_args_closes:
  assumes "args_closed reg args" "\<forall>a \<in> set as. \<forall>t \<in> operand_types a. fitting reg args t"
  shows "\<exists>bs. clone_args \<lparr>in_registry = reg, in_args = args\<rparr> as = Some bs \<and> (\<forall>b \<in> set bs. \<forall>t \<in> operand_types b. \<not> type_has_param t) \<and>
    map mir_operand_as_value bs = map mir_operand_as_value as"
proof -
  let ?inn = "\<lparr>in_registry = reg, in_args = args\<rparr>"
  let ?Q = "\<lambda>a b. (\<forall>t \<in> operand_types b. \<not> type_has_param t) \<and> mir_operand_as_value b = mir_operand_as_value a"
  have "\<exists>b. clone_arg ?inn a = Some b \<and> ?Q a b" if "a \<in> set as" for a
  proof (cases a)
    case (OPERAND_VALUE v)
    then show ?thesis by (simp add: operand_types_def)
  next
    case (OPERAND_CONST c)
    then have "fitting reg args (ct_type c)" using assms(2) that by (auto simp: operand_types_def)
    from subst_constant_closes [OF assms(1) this] show ?thesis by (auto simp: OPERAND_CONST operand_types_def)
  qed
  then obtain bs where bs: "clone_args ?inn as = Some bs" "list_all2 ?Q as bs"
    unfolding clone_args_def using traverse_all [of as "clone_arg ?inn" ?Q] by blast
  have "map mir_operand_as_value bs = map mir_operand_as_value as"
    using bs(2) by (intro nth_equalityI) (simp_all add: list_all2_conv_all_nth)
  moreover have "\<forall>b \<in> set bs. \<forall>t \<in> operand_types b. \<not> type_has_param t"
    by (rule all2_right [OF bs(2)]) blast
  ultimately show ?thesis using bs(1) by blast
qed

lemma subst_place_closes:
  assumes "args_closed reg args" "\<forall>t \<in> pr_type ` set (pl_projections p). fitting reg args t"
  shows "\<exists>q. subst_place \<lparr>in_registry = reg, in_args = args\<rparr> p = Some q \<and> pl_base q = pl_base p \<and>
    (\<forall>t \<in> pr_type ` set (pl_projections q). \<not> type_has_param t)"
proof -
  let ?inn = "\<lparr>in_registry = reg, in_args = args\<rparr>"
  have "\<forall>x \<in> set (pl_projections p). \<exists>y. subst_projection ?inn x = Some y \<and> \<not> type_has_param (pr_type y)"
    using assms subst_type_closes [OF assms(1)] by (fastforce simp: subst_projection_def)
  from traverse_all [OF this] obtain ps where "traverse (subst_projection ?inn) (pl_projections p) = Some ps"
      "list_all2 (\<lambda>_ y. \<not> type_has_param (pr_type y)) (pl_projections p) ps" by blast
  then show ?thesis by (auto simp: subst_place_def list_all2_conv_all_nth in_set_conv_nth)
qed

lemma subst_inst_closes:
  assumes ok: "functions_ok fr" "functions_extend fr0 fr" and c: "args_closed (fr_types fr0) args" "inst_fitting fr0 args i"
  shows "\<exists>j fr1. subst_inst \<lparr>in_registry = fr_types fr0, in_args = args\<rparr> i fr = Some (j, fr1) \<and> functions_ok fr1 \<and>
    functions_extend fr fr1 \<and> inst_closed fr1 j \<and> stands_for i j"
proof -
  let ?inn = "\<lparr>in_registry = fr_types fr0, in_args = args\<rparr>" and ?fit = "fitting (fr_types fr0) args"
  have fit: "?fit (mi_type i)" "\<forall>a \<in> set (mi_args i). \<forall>t \<in> operand_types a. ?fit t"
    using c(2) by (auto simp: inst_fitting_def inst_types_def)
  obtain t where t: "subst_type ?inn (mi_type i) = Some t" "\<not> type_has_param t" using subst_type_closes [OF c(1) fit(1)] by blast
  obtain as where as: "clone_args ?inn (mi_args i) = Some as" "\<forall>b \<in> set as. \<forall>t \<in> operand_types b. \<not> type_has_param t"
      "map mir_operand_as_value as = map mir_operand_as_value (mi_args i)"
    using clone_args_closes [OF c(1) fit(2)] by blast
  let ?out = "i\<lparr>mi_type := t, mi_args := as\<rparr>"
  consider (place) "mir_op_has_place (mi_op i)" | (call) "mi_op i = MIR_CALL" | (const) "has_constant (mi_op i)"
    | (plain) "\<not> mir_op_has_place (mi_op i)" "mi_op i \<noteq> MIR_CALL" "\<not> has_constant (mi_op i)" by blast
  then show ?thesis
  proof cases
    case place
    have "\<forall>t \<in> pr_type ` set (pl_projections (mi_place i)). ?fit t"
      using c(2) place unfolding inst_fitting_def inst_types_def by (simp only: if_True) blast
    from subst_place_closes [OF c(1) this] obtain q where q: "subst_place ?inn (mi_place i) = Some q" "pl_base q = pl_base (mi_place i)"
        "\<forall>t \<in> pr_type ` set (pl_projections q). \<not> type_has_param t" by blast
    have "inst_closed fr (?out\<lparr>mi_place := q\<rparr>)"
      by (rule inst_closedI) (use t as q op_kinds(1) [OF place] in \<open>simp_all del: mir_op_has_place.simps\<close>)
    moreover have "stands_for i (?out\<lparr>mi_place := q\<rparr>)" using as(3) q(2) by (simp add: stands_for_def)
    moreover have "subst_inst ?inn i fr = Some (?out\<lparr>mi_place := q\<rparr>, fr)"
      using place t(1) as(1) q(1) by (simp add: subst_inst_def del: mir_op_has_place.simps)
    ultimately show ?thesis using ok(1) functions_extend_refl by blast
  next
    case call
    obtain h fr1 where h: "subst_callee ?inn (mi_callee i) fr = Some (h, fr1)" "functions_ok fr1" "functions_extend fr fr1"
        "\<forall>f. h = Some f \<longrightarrow> is_concrete fr1 f"
    proof (cases "mi_callee i")
      case None
      then show thesis using that [of None fr] ok(1) by (simp add: subst_callee_def)
    next
      case (Some f)
      then have "callee_fitting fr0 args f" using c(2) call by (simp add: inst_fitting_def)
      from subst_callee_closes [OF ok c(1) this] show thesis using that Some by force
    qed
    have "inst_closed fr1 (?out\<lparr>mi_callee := h\<rparr>)"
      by (rule inst_closedI) (use t as h call op_kinds(2,3) in \<open>simp_all del: mir_op_has_place.simps\<close>)
    moreover have "stands_for i (?out\<lparr>mi_callee := h\<rparr>)" using as(3) by (simp add: stands_for_def)
    moreover have "subst_inst ?inn i fr = Some (?out\<lparr>mi_callee := h\<rparr>, fr1)"
      using call op_kinds(2) t(1) as(1) h(1) by (simp add: subst_inst_def del: mir_op_has_place.simps)
    ultimately show ?thesis using h(2,3) by blast
  next
    case const
    have "?fit (ct_type (mi_constant i))" using c(2) const by (simp add: inst_fitting_def inst_types_def del: mir_op_has_place.simps)
    from subst_constant_closes [OF c(1) this] obtain d where d: "subst_constant ?inn (mi_constant i) = Some d" "\<not> type_has_param (ct_type d)"
      by blast
    have "inst_closed fr (?out\<lparr>mi_constant := d\<rparr>)"
      by (rule inst_closedI) (use t as d op_kinds(4) [OF const] in \<open>simp_all del: mir_op_has_place.simps\<close>)
    moreover have "stands_for i (?out\<lparr>mi_constant := d\<rparr>)" using as(3) by (simp add: stands_for_def)
    moreover have "subst_inst ?inn i fr = Some (?out\<lparr>mi_constant := d\<rparr>, fr)"
      using const op_kinds(4) [OF const] t(1) as(1) d(1) by (simp add: subst_inst_def has_constant_def del: mir_op_has_place.simps)
    ultimately show ?thesis using ok(1) functions_extend_refl by blast
  next
    case plain
    have "inst_closed fr ?out"
      by (rule inst_closedI) (use t as plain in \<open>simp_all del: mir_op_has_place.simps\<close>)
    moreover have "stands_for i ?out" using as(3) by (simp add: stands_for_def)
    moreover have "subst_inst ?inn i fr = Some (?out, fr)"
      using plain t(1) as(1) by (simp add: subst_inst_def has_constant_def del: mir_op_has_place.simps)
    ultimately show ?thesis using ok(1) functions_extend_refl by blast
  qed
qed

lemma nothing_expanded:
  assumes "functions_ok fr" "inst_closed fr j"
  shows "expand_intrinsic out fr j = Some None"
proof (cases "mi_op j = MIR_CALL")
  case True
  have "fd_modifiers (fn_decl (fr_functions fr ! f)) AND FUNC_MOD_INTRINSIC = 0 \<and> f < length (fr_functions fr)"
    if "mi_callee j = Some f" for f
    using assms True that nth_mem [of f "fr_functions fr"] by (auto simp: inst_closed_def is_concrete_def functions_ok_def)
  then show ?thesis by (auto simp: expand_intrinsic_def split: option.split list.split)
qed (auto simp: expand_intrinsic_def split: option.split list.split)

section \<open>Blocks and functions\<close>

lemma block_closes:
  assumes "functions_ok fr" "functions_extend fr0 fr" "args_closed (fr_types fr0) args" "\<forall>i \<in> set b. inst_fitting fr0 args i"
  shows "\<exists>b' fr1. instantiate_block \<lparr>in_registry = fr_types fr0, in_args = args\<rparr> out b fr = Some (b', fr1) \<and> functions_ok fr1 \<and>
    functions_extend fr fr1 \<and> (\<forall>i \<in> set b'. inst_closed fr1 i) \<and> list_all2 stands_for b b'"
  using assms
proof (induction b arbitrary: fr)
  case (Cons i b)
  have f: "inst_fitting fr0 args i" "\<forall>i \<in> set b. inst_fitting fr0 args i" using Cons.prems(4) by simp_all
  obtain j fr1 where 1: "subst_inst \<lparr>in_registry = fr_types fr0, in_args = args\<rparr> i fr = Some (j, fr1)" "functions_ok fr1"
      "functions_extend fr fr1" "inst_closed fr1 j" "stands_for i j"
    using subst_inst_closes [OF Cons.prems(1,2,3) f(1)] by blast
  obtain b' fr2 where 2: "instantiate_block \<lparr>in_registry = fr_types fr0, in_args = args\<rparr> out b fr1 = Some (b', fr2)" "functions_ok fr2"
      "functions_extend fr1 fr2" "\<forall>i \<in> set b'. inst_closed fr2 i" "list_all2 stands_for b b'"
    using Cons.IH [OF 1(2) functions_extend_trans [OF Cons.prems(2) 1(3)] Cons.prems(3) f(2)] by blast
  show ?case
    using 1(1,5) 2 nothing_expanded [OF 1(2,4)] functions_extend_trans [OF 1(3) 2(3)] inst_closed_extends [OF 2(3) 1(4)] by simp
qed simp

lemma blocks_close:
  assumes "functions_ok fr" "functions_extend fr0 fr" "args_closed (fr_types fr0) args"
    "\<forall>b \<in> set bs. \<forall>i \<in> set b. inst_fitting fr0 args i"
  shows "\<exists>bs' fr1. instantiate_blocks \<lparr>in_registry = fr_types fr0, in_args = args\<rparr> out bs fr = Some (bs', fr1) \<and> functions_ok fr1 \<and>
    functions_extend fr fr1 \<and> (\<forall>b \<in> set bs'. \<forall>i \<in> set b. inst_closed fr1 i) \<and> list_all2 (list_all2 stands_for) bs bs'"
  using assms
proof (induction bs arbitrary: fr)
  case (Cons b bs)
  have f: "\<forall>i \<in> set b. inst_fitting fr0 args i" "\<forall>b \<in> set bs. \<forall>i \<in> set b. inst_fitting fr0 args i" using Cons.prems(4) by simp_all
  obtain b' fr1 where 1: "instantiate_block \<lparr>in_registry = fr_types fr0, in_args = args\<rparr> out b fr = Some (b', fr1)" "functions_ok fr1"
      "functions_extend fr fr1" "\<forall>i \<in> set b'. inst_closed fr1 i" "list_all2 stands_for b b'"
    using block_closes [OF Cons.prems(1,2,3) f(1)] by blast
  obtain bs' fr2 where 2: "instantiate_blocks \<lparr>in_registry = fr_types fr0, in_args = args\<rparr> out bs fr1 = Some (bs', fr2)" "functions_ok fr2"
      "functions_extend fr1 fr2" "\<forall>b \<in> set bs'. \<forall>i \<in> set b. inst_closed fr2 i" "list_all2 (list_all2 stands_for) bs bs'"
    using Cons.IH [OF 1(2) functions_extend_trans [OF Cons.prems(2) 1(3)] Cons.prems(3) f(2)] by blast
  show ?case
    using 1(1,4,5) 2 functions_extend_trans [OF 1(3) 2(3)] inst_closed_extends [OF 2(3)] by auto
qed simp

definition function_fitting :: "function_registry \<Rightarrow> type_arg list \<Rightarrow> mir_function \<Rightarrow> bool" where
  "function_fitting fr args ir \<longleftrightarrow> (\<forall>v \<in> set (mf_values ir). fitting (fr_types fr) args (vi_type v)) \<and>
     (\<forall>b \<in> set (mf_blocks ir). \<forall>i \<in> set b. inst_fitting fr args i)"

definition same_shape :: "mir_function \<Rightarrow> mir_function \<Rightarrow> bool" where
  "same_shape ir ir' \<longleftrightarrow> mf_entry ir' = mf_entry ir \<and> mf_params ir' = mf_params ir \<and> length (mf_values ir') = length (mf_values ir) \<and>
     list_all2 (list_all2 stands_for) (mf_blocks ir) (mf_blocks ir')"

lemma stands_for_successors:
  assumes "list_all2 stands_for b b'"
  shows "mir_block_successors b' = mir_block_successors b"
proof (cases "b = []")
  case False
  then have ne: "b' \<noteq> []" using assms by auto
  then have "stands_for (last b) (last b')" using assms False by (simp add: list_all2_conv_all_nth last_conv_nth)
  then have "mi_op (last b') = mi_op (last b)" "mi_targets (last b') = mi_targets (last b)" by (simp_all add: stands_for_def)
  with ne show ?thesis using False by (simp only: mir_block_successors_def mir_block_is_terminated_def) simp
qed (use assms in simp)

lemma same_shape_wf:
  assumes "same_shape ir ir'" "mir_wf ir"
  shows "mir_wf ir'"
proof -
  have l: "length (mf_blocks ir') = length (mf_blocks ir)" using assms(1) by (auto simp: same_shape_def dest: list_all2_lengthD)
  have "mir_block_successors (mf_blocks ir' ! b) = mir_block_successors (mf_blocks ir ! b)" if "b < length (mf_blocks ir)" for b
    using assms(1) that by (auto simp: same_shape_def list_all2_conv_all_nth intro: stands_for_successors)
  then show ?thesis using assms l by (auto simp: mir_wf_def same_shape_def in_set_conv_nth) (metis nth_mem)+
qed


section \<open>A generic function that calls itself\<close>

definition type_param :: "gtype option" where "type_param = type_registry_param 0"

definition generic_self :: gfunction where
  "generic_self =
     \<lparr>fn_decl = sample_decl, fn_signature = fd_signature sample_decl, fn_type_args = [TYPE_ARG_TYPE type_param],
      fn_borrowed_params = 0, fn_borrowed_params_known = False\<rparr>"

definition generic_registry :: function_registry where
  "generic_registry = (function_registry_create (type_registry_create known_names))
     \<lparr>fr_functions := [generic_self], fr_instances := [(instance_id_of (fd_id sample_decl) [TYPE_ARG_TYPE type_param], 0)]\<rparr>"

definition generic_body :: mir_function where
  "generic_body =
     \<lparr>mf_function = Some 0,
      mf_blocks = [[(inst_of MIR_CALL type_param 1 sample_span)\<lparr>mi_args := [OPERAND_VALUE 0], mi_callee := Some 0\<rparr>,
        (inst_of MIR_RETURN None MIR_NO_VALUE sample_span)\<lparr>mi_args := [OPERAND_VALUE 1]\<rparr>]],
      mf_entry = 0,
      mf_values = [\<lparr>vi_type = type_param, vi_binding = None, vi_span = sample_span\<rparr>,
        \<lparr>vi_type = type_param, vi_binding = None, vi_span = sample_span\<rparr>],
      mf_params = [0]\<rparr>"

definition i32_arg :: type_arg where
  "i32_arg = TYPE_ARG_TYPE (type_registry_get_primitive (type_registry_create known_names) TYPE_I32)"

lemma param_fitting: "fitting (type_registry_create known_names) [i32_arg] type_param"
proof -
  have p: "type_param = Some (Type TYPE_PARAM None None [] True None 0)"
    by (simp add: type_param_def type_registry_param_def GAB_MAX_TYPE_PARAMS_def)
  have "type_made (type_registry_create known_names) type_param" unfolding p
    by (rule made_param [of 0]) (simp add: type_registry_param_def GAB_MAX_TYPE_PARAMS_def)
  moreover have "fits (type_registry_create known_names) [i32_arg] type_param" unfolding p
    by (rule fits_param) (simp_all add: i32_arg_def del: type_registry_get_primitive.simps)
  ultimately show ?thesis by (simp add: fitting_def)
qed

lemma none_fitting: "fitting reg args None"
  by (simp add: fitting_def made_null fits_closed type_has_param.simps)

lemma generic_types: "fr_types generic_registry = type_registry_create known_names"
  by (simp add: generic_registry_def function_registry_create_def)

lemma generic_callee: "callee_fitting generic_registry [i32_arg] 0"
  using param_fitting none_fitting
  by (simp add: callee_fitting_def generic_types, simp add: generic_registry_def generic_self_def sample_decl_def arg_fitting_def
      signature_fitting_def GAB_MAX_TYPE_PARAMS_def Let_def)

lemma generic_fitting: "function_fitting generic_registry [i32_arg] generic_body"
  using param_fitting none_fitting generic_callee
  by (auto simp: function_fitting_def generic_types generic_body_def inst_fitting_def inst_types_def operand_types_def has_constant_def
      inst_of_def)


end
