(* ===== verification/Build_Correct.thy ===== *)
theory Build_Correct
  imports Mir_Build Instantiate_Correct
begin

text \<open>
  The list of instances a module needs never holds more than \<open>GAB_MAX_INSTANTIATIONS\<close>, so the loop that
  fills it while walking it ends; and every instance on it has a body when its generic function has one.
\<close>

unbundle bit_operations_syntax

section \<open>The registry only grows\<close>

lemma instance_extends: "function_registry_instance fr d args = Some (h, fr') \<Longrightarrow> functions_extend fr fr'"
  by (auto simp: function_registry_instance_def Let_def functions_extend_def split: option.splits bind_splits)

lemma owned_for_extends: "function_registry_owned_for fr t name = Some (h, fr') \<Longrightarrow> functions_extend fr fr'"
  by (auto simp: function_registry_owned_for_def Let_def split: option.splits if_splits dest: instance_extends)

lemma subst_callee_extends: "subst_callee inn c fr = Some (h, fr') \<Longrightarrow> functions_extend fr fr'"
  by (auto simp: subst_callee_def subst_interface_callee_def Let_def split: option.splits if_splits bind_splits type_arg.splits
      dest: instance_extends owned_for_extends)

lemma subst_inst_extends: "subst_inst inn i fr = Some (j, fr') \<Longrightarrow> functions_extend fr fr'"
  by (auto simp: subst_inst_def Let_def split: if_splits bind_splits dest: subst_callee_extends simp del: mir_op_has_place.simps)

lemma block_extends: "instantiate_block inn out b fr = Some (b', fr') \<Longrightarrow> functions_extend fr fr'"
proof (induction b arbitrary: fr b' fr')
  case (Cons i b)
  then obtain j fr1 rest where "subst_inst inn i fr = Some (j, fr1)" "instantiate_block inn out b fr1 = Some (rest, fr')"
    by (auto split: bind_splits)
  then show ?case using Cons.IH subst_inst_extends functions_extend_trans by blast
qed simp

lemma blocks_extend: "instantiate_blocks inn out bs fr = Some (bs', fr') \<Longrightarrow> functions_extend fr fr'"
proof (induction bs arbitrary: fr bs' fr')
  case (Cons b bs)
  then obtain b1 fr1 rest where "instantiate_block inn out b fr = Some (b1, fr1)" "instantiate_blocks inn out bs fr1 = Some (rest, fr')"
    by (auto split: bind_splits)
  then show ?case using Cons.IH block_extends functions_extend_trans by blast
qed simp

lemma instantiate_extends: "mir_instantiate fr generic f args = Some (ir, fr') \<Longrightarrow> functions_extend fr fr'"
  by (auto simp: mir_instantiate_def Let_def split: bind_splits dest: blocks_extend)

section \<open>The work only grows\<close>

text \<open>Every function on the list exists and was given arguments, and there are no more than the limit.\<close>

definition pending_ok :: "function_registry \<Rightarrow> pending_bodies \<Rightarrow> bool" where
  "pending_ok fr work \<longleftrightarrow> length (pw_instances work) \<le> GAB_MAX_INSTANTIATIONS \<and> distinct (pw_instances work) \<and>
     (\<forall>f \<in> set (pw_instances work). f < length (fr_functions fr) \<and> fn_type_args (fr_functions fr ! f) \<noteq> [] \<and>
        is_concrete fr f \<and> \<not> function_lowers_no_body (fr_functions fr ! f))"

definition grown_from :: "building \<Rightarrow> building \<Rightarrow> bool" where
  "grown_from bl bl' \<longleftrightarrow> functions_extend (bl_functions bl) (bl_functions bl') \<and>
     (\<exists>fs. pw_instances (bl_work bl') = pw_instances (bl_work bl) @ fs) \<and> pw_bodies (bl_work bl') = pw_bodies (bl_work bl) \<and>
     (pending_ok (bl_functions bl) (bl_work bl) \<longrightarrow> pending_ok (bl_functions bl') (bl_work bl'))"

lemma grown_from_refl [simp]: "grown_from bl bl" by (simp add: grown_from_def)

lemma grown_from_trans: "grown_from a b \<Longrightarrow> grown_from b c \<Longrightarrow> grown_from a c"
  unfolding grown_from_def by (auto intro: functions_extend_trans)

lemma pending_extends:
  assumes "functions_extend fr fr'" "pending_ok fr work"
  shows "pending_ok fr' work"
proof -
  have "f < length (fr_functions fr') \<and> fr_functions fr' ! f = fr_functions fr ! f" if "f \<in> set (pw_instances work)" for f
    using assms that functions_extend_nth [OF assms(1)] by (simp add: pending_ok_def)
  then show ?thesis using assms(2) concrete_extends [OF assms(1)] by (simp add: pending_ok_def)
qed

lemma functions_grown: "functions_extend (bl_functions bl) fr' \<Longrightarrow> grown_from bl (bl\<lparr>bl_functions := fr'\<rparr>)"
  by (simp add: grown_from_def pending_extends)

lemma concrete_args: "type_args_are_concrete as \<longleftrightarrow> (\<forall>a \<in> set as. \<not> arg_has_param a)"
  by (induction as) (auto simp: arg_has_param_def split: type_arg.splits type_const.splits)

lemma pending_instantiate_cases:
  assumes "pending_bodies_instantiate fr work f ds = Some (work', ds')"
  shows "f < length (fr_functions fr)" "work' = work \<or> work' = work\<lparr>pw_overflowed := True\<rparr> \<or>
     (work' = work\<lparr>pw_instances := pw_instances work @ [f]\<rparr> \<and> length (pw_instances work) < GAB_MAX_INSTANTIATIONS \<and>
      f \<notin> set (pw_instances work) \<and> is_concrete fr f \<and> fn_type_args (fr_functions fr ! f) \<noteq> [] \<and>
      \<not> function_lowers_no_body (fr_functions fr ! f))"
  using assms
  by (auto simp: pending_bodies_instantiate_def Let_def is_concrete_def concrete_args list_ex_iff split: if_splits option.splits)

lemma pending_instantiate_grown:
  assumes "pending_bodies_instantiate (bl_functions bl) (bl_work bl) f (bl_diagnostics bl) = Some (work', ds')"
  shows "grown_from bl (bl\<lparr>bl_work := work', bl_diagnostics := ds'\<rparr>)"
  using pending_instantiate_cases [OF assms] by (auto simp: grown_from_def pending_ok_def)

lemma instantiate_needed_grown: "instantiate_needed c bl = Some bl' \<Longrightarrow> grown_from bl bl'"
  by (auto simp: instantiate_needed_def split: option.splits if_splits dest: pending_instantiate_grown)

lemma collect_grown:
  "collect_dropped_endings n t bl = Some bl' \<Longrightarrow> grown_from bl bl'"
  "collect_dropped_fields n fs bl = Some bl' \<Longrightarrow> grown_from bl bl'"
proof (induction n t bl and n fs bl arbitrary: bl' and bl' rule: collect_dropped_endings_collect_dropped_fields.induct)
  case (2 n t bl)
  show ?case
  proof (cases t)
    case None
    then show ?thesis using 2(3) by simp
  next
    case (Some u)
    let ?reg = "fr_types (bl_functions bl)"
    obtain owned fr1 bl1 bl2 fields where o: "function_registry_owned_for (bl_functions bl) t (kn_destroy_method (type_registry_names ?reg)) = Some (owned, fr1)"
        and 1: "instantiate_needed owned (bl\<lparr>bl_functions := fr1\<rparr>) = Some bl1"
        and e: "collect_dropped_endings n (type_pointee t) bl1 = Some bl2"
        and f: "type_registry_fields_of ?reg t = Some fields" and r: "collect_dropped_fields n fields bl2 = Some bl'"
      using 2(3) Some by (auto simp: Let_def split: bind_splits)
    have "grown_from bl bl1"
      using grown_from_trans [OF functions_grown [OF owned_for_extends [OF o]] instantiate_needed_grown [OF 1]] .
    moreover have "grown_from bl1 bl2" using 2(1) [OF Some refl o _ 1 e] by auto
    moreover have "grown_from bl2 bl'" using 2(2) [OF Some refl o _ 1 e f r] by auto
    ultimately show ?thesis using grown_from_trans by blast
  qed
next
  case (4 n f fs bl)
  obtain owns bl1 where o: "type_registry_owns (fr_types (bl_functions bl)) (tf_type f) = Some owns"
      and 1: "(if owns then collect_dropped_endings n (tf_type f) bl else Some bl) = Some bl1"
      and r: "collect_dropped_fields n fs bl1 = Some bl'"
    using 4(3) by (auto split: bind_splits)
  have "grown_from bl bl1" using 4(1) [OF o] 1 by (cases owns) auto
  moreover have "grown_from bl1 bl'" using 4(2) [OF o 1 r] .
  ultimately show ?case using grown_from_trans by blast
qed simp_all

lemma collect_called_grown:
  assumes "collect_called_instances n ir bl = Some bl'"
  shows "grown_from bl bl'"
proof -
  have "collect_called_insts n is bl = Some bl' \<Longrightarrow> grown_from bl bl'" for "is" bl
  proof (induction "is" arbitrary: bl)
    case (Cons i "is")
    then obtain bl1 where 1: "collect_called_instance n i bl = Some bl1" "collect_called_insts n is bl1 = Some bl'"
      by (auto split: bind_splits)
    have "grown_from bl bl1" using 1(1)
      by (auto simp: collect_called_instance_def split: if_splits dest: collect_grown(1) instantiate_needed_grown)
    then show ?case using Cons.IH [OF 1(2)] grown_from_trans by blast
  qed simp
  then show ?thesis using assms by (simp add: collect_called_instances_def)
qed

section \<open>Every instance has a body\<close>

text \<open>A function needs no body when its generic function has none; otherwise one was made for it, or one is
  found under its id.\<close>

definition has_body :: "function_registry \<Rightarrow> mir_module \<Rightarrow> mir_module option \<Rightarrow> nat \<Rightarrow> bool" where
  "has_body fr unit imported f \<longleftrightarrow> generic_of unit imported (fr_functions fr ! f) = None \<or>
     (\<exists>e \<in> set unit. me_function e = f) \<or> mir_module_lookup fr unit f \<noteq> Some None"

definition instances_added :: "mir_module \<Rightarrow> mir_module \<Rightarrow> bool" where
  "instances_added unit unit' \<longleftrightarrow> (\<exists>es. unit' = unit @ es \<and> (\<forall>e \<in> set es. ii_args (me_id e) \<noteq> []))"

lemma instances_added_refl [simp]: "instances_added unit unit" by (simp add: instances_added_def)

lemma instances_added_trans: "instances_added a b \<Longrightarrow> instances_added b c \<Longrightarrow> instances_added a c"
  by (fastforce simp: instances_added_def)

lemma find_append_None: "find P (xs @ ys) = (case find P xs of Some x \<Rightarrow> Some x | None \<Rightarrow> find P ys)"
  by (induction xs) auto

lemma find_none_of: "\<forall>y \<in> set ys. \<not> P y \<Longrightarrow> find P ys = None"
  by (induction ys) auto

lemma generic_lookup_added:
  assumes "instances_added unit unit'"
  shows "mir_module_lookup_id unit' (instance_id_of d []) = mir_module_lookup_id unit (instance_id_of d [])"
proof -
  obtain es where es: "unit' = unit @ es" "\<forall>e \<in> set es. ii_args (me_id e) \<noteq> []" using assms by (auto simp: instances_added_def)
  have "\<forall>e \<in> set es. \<not> instance_id_equals (me_id e) (instance_id_of d [])"
    using es(2) by (auto simp: instance_id_equals_def instance_id_of_def)
  then have "find (\<lambda>e. instance_id_equals (me_id e) (instance_id_of d [])) es = None" by (rule find_none_of)
  then show ?thesis by (simp add: mir_module_lookup_id_def es(1) find_append_None split: option.split)
qed

lemma lookup_added:
  assumes "instances_added unit unit'" "mir_module_lookup_id unit i \<noteq> None"
  shows "mir_module_lookup_id unit' i \<noteq> None"
  using assms by (auto simp: mir_module_lookup_id_def instances_added_def find_append_None split: if_splits)

lemma has_body_later:
  assumes "has_body fr unit imported f" "functions_extend fr fr'" "f < length (fr_functions fr)" "instances_added unit unit'"
  shows "has_body fr' unit' imported f"
proof -
  note f = functions_extend_nth [OF assms(2,3)]
  have g: "generic_of unit' imported (fr_functions fr' ! f) = generic_of unit imported (fr_functions fr ! f)"
    using f by (simp add: generic_of_def generic_lookup_added [OF assms(4)] Let_def)
  have l: "mir_module_lookup fr' unit' f \<noteq> Some None" if "mir_module_lookup fr unit f \<noteq> Some None"
    using that lookup_added [OF assms(4)] f assms(3) by (auto simp: mir_module_lookup_def id_of_function_def)
  show ?thesis using assms(1,4) l unfolding has_body_def g instances_added_def by auto
qed

lemma build_instance_keeps:
  assumes run: "build_instance n imported f unit bl = Some (unit', bl')" and ok: "pending_ok (bl_functions bl) (bl_work bl)"
    and f: "f \<in> set (pw_instances (bl_work bl))"
  shows "grown_from bl bl'" "instances_added unit unit'" "has_body (bl_functions bl') unit' imported f"
proof -
  let ?fr = "bl_functions bl"
  let ?g = "fr_functions ?fr ! f"
  have g: "f < length (fr_functions ?fr)" "fn_type_args ?g \<noteq> []" using ok f by (simp_all add: pending_ok_def)
  have all: "grown_from bl bl' \<and> instances_added unit unit' \<and> has_body (bl_functions bl') unit' imported f"
  proof (cases "generic_of unit imported ?g")
    case None
    then show ?thesis using run g(1) by (simp add: build_instance_def has_body_def)
  next
    case (Some generic)
    obtain there where there: "mir_module_lookup ?fr unit f = Some there" using g(1) by (simp add: mir_module_lookup_def id_of_function_def)
    show ?thesis
    proof (cases there)
      case (Some ir)
      then show ?thesis using run g(1) there \<open>generic_of unit imported ?g = Some generic\<close> by (simp add: build_instance_def has_body_def)
    next
      case None
      obtain body fr1 bl1 where m: "mir_instantiate ?fr generic f (fn_type_args ?g) = Some (body, fr1)"
          and a: "mir_module_add fr1 unit f body = Some unit'" and c: "collect_called_instances n body (bl\<lparr>bl_functions := fr1\<rparr>) = Some bl'"
        using run g(1) there None Some by (auto simp: build_instance_def Let_def split: bind_splits)
      note e = instantiate_extends [OF m]
      have f1: "f < length (fr_functions fr1)" "fr_functions fr1 ! f = ?g" using functions_extend_nth [OF e g(1)] by simp_all
      have u: "unit' = unit @ [\<lparr>me_function = f, me_id = instance_id_of (fd_id (fn_decl ?g)) (fn_type_args ?g), me_ir = body\<rparr>]"
        using a f1 by (simp add: mir_module_add_def id_of_function_def instance_id_of_function_def)
      have "instances_added unit unit'" using g(2) by (simp add: u instances_added_def instance_id_of_def GAB_MAX_TYPE_PARAMS_def)
      moreover have "has_body (bl_functions bl') unit' imported f" by (simp add: has_body_def u)
      moreover have "grown_from bl bl'" using grown_from_trans [OF functions_grown [OF e] collect_called_grown [OF c]] .
      ultimately show ?thesis by blast
    qed
  qed
  then show "grown_from bl bl'" "instances_added unit unit'" "has_body (bl_functions bl') unit' imported f" by blast+
qed

lemma build_instances_keeps:
  assumes "build_instances n imported steps i unit bl = Some (unit', bl')" "pending_ok (bl_functions bl) (bl_work bl)"
    "\<forall>k < i. k < length (pw_instances (bl_work bl)) \<longrightarrow> has_body (bl_functions bl) unit imported (pw_instances (bl_work bl) ! k)"
  shows "grown_from bl bl' \<and> instances_added unit unit' \<and>
    (\<forall>f \<in> set (pw_instances (bl_work bl')). has_body (bl_functions bl') unit' imported f)"
  using assms
proof (induction steps arbitrary: i unit bl)
  case 0
  then show ?case by (auto simp: in_set_conv_nth split: if_splits)
next
  case (Suc steps)
  show ?case
  proof (cases "i \<ge> length (pw_instances (bl_work bl))")
    case True
    then show ?thesis using Suc.prems by (auto simp: in_set_conv_nth)
  next
    case False
    let ?f = "pw_instances (bl_work bl) ! i"
    have f: "?f \<in> set (pw_instances (bl_work bl))" using False by simp
    obtain unit1 bl1 where 1: "build_instance n imported ?f unit bl = Some (unit1, bl1)"
        "build_instances n imported steps (Suc i) unit1 bl1 = Some (unit', bl')"
      using Suc.prems(1) False by (auto split: bind_splits)
    note k = build_instance_keeps [OF 1(1) Suc.prems(2) f]
    obtain fs where fs: "pw_instances (bl_work bl1) = pw_instances (bl_work bl) @ fs" "functions_extend (bl_functions bl) (bl_functions bl1)"
        "pending_ok (bl_functions bl1) (bl_work bl1)"
      using k(1) Suc.prems(2) by (auto simp: grown_from_def)
    have "has_body (bl_functions bl1) unit1 imported (pw_instances (bl_work bl1) ! j)"
      if j: "j < Suc i" "j < length (pw_instances (bl_work bl1))" for j
    proof (cases "j = i")
      case True
      then show ?thesis using k(3) False by (simp add: fs(1) nth_append)
    next
      case ne: False
      then have j: "j < i" "j < length (pw_instances (bl_work bl))" using that False by simp_all
      have "pw_instances (bl_work bl) ! j < length (fr_functions (bl_functions bl))"
        using Suc.prems(2) nth_mem [OF j(2)] by (simp add: pending_ok_def)
      from has_body_later [OF Suc.prems(3) [rule_format, OF j] fs(2) this k(2)] show ?thesis using j by (simp add: fs(1) nth_append)
    qed
    from Suc.IH [OF 1(2) fs(3)] this show ?thesis using grown_from_trans [OF k(1)] instances_added_trans [OF k(2)] by blast
  qed
qed

text \<open>As many steps as there can be instances are enough.\<close>

lemma build_instances_steps:
  assumes "pending_ok (bl_functions bl) (bl_work bl)" "GAB_MAX_INSTANTIATIONS - i \<le> steps"
  shows "build_instances n imported steps i unit bl = build_instances n imported (GAB_MAX_INSTANTIATIONS - i) i unit bl"
  using assms
proof (induction "GAB_MAX_INSTANTIATIONS - i" arbitrary: i steps unit bl)
  case 0
  then have "i \<ge> length (pw_instances (bl_work bl))" by (simp add: pending_ok_def)
  then show ?case by (cases steps; cases "GAB_MAX_INSTANTIATIONS - i") simp_all
next
  case (Suc m)
  show ?case
  proof (cases "i \<ge> length (pw_instances (bl_work bl))")
    case True
    then show ?thesis by (cases steps; cases "GAB_MAX_INSTANTIATIONS - i") simp_all
  next
    case False
    obtain s where s: "steps = Suc s" using Suc.hyps(2) Suc.prems(2) by (cases steps) auto
    have m: "GAB_MAX_INSTANTIATIONS - Suc i = m" using Suc.hyps(2) by simp
    let ?f = "pw_instances (bl_work bl) ! i"
    have f: "?f \<in> set (pw_instances (bl_work bl))" using False by simp
    show ?thesis
    proof (cases "build_instance n imported ?f unit bl")
      case None
      then show ?thesis using False s Suc.hyps(2) [symmetric] by simp
    next
      case (Some r)
      obtain unit1 bl1 where r: "r = (unit1, bl1)" by fastforce
      have ok: "pending_ok (bl_functions bl1) (bl_work bl1)"
        using build_instance_keeps(1) [OF Some [unfolded r] Suc.prems(1) f] Suc.prems(1) by (simp add: grown_from_def)
      have "build_instances n imported s (Suc i) unit1 bl1 = build_instances n imported m (Suc i) unit1 bl1"
        using Suc.hyps(1) [OF m [symmetric] ok, of s] Suc.prems(2) s m by simp
      then show ?thesis using False s Some r Suc.hyps(2) [symmetric] by simp
    qed
  qed
qed

text \<open>C38: the list of wanted instances is worked off.  Whatever bodies call for, the list grows to no more than
  the limit and names no function twice, so the loop over it takes at most as many steps as the limit and no
  lack of steps ends it.  When it ends, everything wanted is a concrete instance, nothing was taken off the
  list, and every function on it whose generic function has a body has one too.\<close>

theorem instances_are_worked_off:
  assumes "pending_ok (bl_functions bl) (bl_work bl)" "GAB_MAX_INSTANTIATIONS \<le> steps"
  shows "build_instances n imported steps 0 unit bl = build_instances n imported GAB_MAX_INSTANTIATIONS 0 unit bl \<and>
    (case build_instances n imported steps 0 unit bl of
       None \<Rightarrow> True
     | Some (unit', bl') \<Rightarrow>
         pending_ok (bl_functions bl') (bl_work bl') \<and>
         (\<exists>fs. pw_instances (bl_work bl') = pw_instances (bl_work bl) @ fs) \<and>
         (\<forall>f \<in> set (pw_instances (bl_work bl')). has_body (bl_functions bl') unit' imported f))"
  using build_instances_steps [OF assms(1), of 0 steps n imported unit] assms
    build_instances_keeps [of n imported steps 0 unit bl]
  by (auto simp: grown_from_def split: option.split)

section \<open>A generic function and one instance\<close>

definition returning_generic :: mir_function where
  "returning_generic =
     \<lparr>mf_function = Some 0, mf_blocks = [[(inst_of MIR_RETURN None MIR_NO_VALUE sample_span)\<lparr>mi_args := [OPERAND_VALUE 0]\<rparr>]],
      mf_entry = 0, mf_values = [], mf_params = [0]\<rparr>"

definition wanted :: building where
  "wanted =
     \<lparr>bl_functions = (function_registry_create (type_registry_create known_names))
        \<lparr>fr_functions := [generic_self\<lparr>fn_type_args := []\<rparr>, generic_self\<lparr>fn_type_args := [i32_arg]\<rparr>]\<rparr>,
      bl_work = pending_bodies_create\<lparr>pw_instances := [1]\<rparr>,
      bl_diagnostics = diagnostics_init None\<rparr>"

definition generic_module :: mir_module where
  "generic_module = [\<lparr>me_function = 0, me_id = instance_id_of (fd_id sample_decl) [], me_ir = returning_generic\<rparr>]"

lemma wanted_ok: "pending_ok (bl_functions wanted) (bl_work wanted)"
  using i32_closed by (simp add: pending_ok_def wanted_def pending_bodies_create_def is_concrete_def generic_self_def i32_arg_def
      arg_has_param_def function_lowers_no_body_def sample_decl_def FUNC_MOD_NONE_def GAB_MAX_INSTANTIATIONS_def
      del: type_registry_get_primitive.simps)

lemma wanted_built: "\<exists>r. build_instances n None (Suc k) 0 generic_module wanted = Some r"
proof -
  have "generic_of generic_module None (fr_functions (bl_functions wanted) ! 1) = Some returning_generic"
    by (simp add: generic_of_def mir_module_lookup_id_def generic_module_def wanted_def generic_self_def decl_id_is_set_def
        sample_decl_def instance_id_of_def instance_id_equals_def decl_id_equals_def)
  moreover have "mir_module_lookup (bl_functions wanted) generic_module 1 = Some None"
    by (simp add: mir_module_lookup_def mir_module_lookup_id_def id_of_function_def instance_id_of_function_def generic_module_def
        wanted_def generic_self_def instance_id_of_def instance_id_equals_def GAB_MAX_TYPE_PARAMS_def)
  moreover have "\<exists>body. mir_instantiate (bl_functions wanted) returning_generic 1 [i32_arg] = Some (body, bl_functions wanted) \<and>
      (\<forall>i \<in> set (concat (mf_blocks body)). mi_op i = MIR_RETURN)"
    by (simp add: mir_instantiate_def returning_generic_def subst_inst_def subst_type_def clone_args_def inst_of_def expand_intrinsic_def)
  then obtain body where b: "mir_instantiate (bl_functions wanted) returning_generic 1 [i32_arg] = Some (body, bl_functions wanted)"
      "\<forall>i \<in> set (concat (mf_blocks body)). mi_op i = MIR_RETURN" by blast
  have "\<forall>i \<in> set is. mi_op i = MIR_RETURN \<Longrightarrow> collect_called_insts n is bl = Some bl" for "is" bl
    by (induction "is") (simp_all add: collect_called_instance_def)
  then have c: "collect_called_instances n body bl = Some bl" for bl using b(2) by (simp add: collect_called_instances_def)
  have g: "length (fr_functions (bl_functions wanted)) = 2" "fn_type_args (fr_functions (bl_functions wanted) ! 1) = [i32_arg]"
      "pw_instances (bl_work wanted) = [1]" by (simp_all add: wanted_def)
  ultimately have "\<exists>unit'. build_instance n None 1 generic_module wanted = Some (unit', wanted)"
    using b(1) c by (simp add: build_instance_def mir_module_add_def id_of_function_def)
  then show ?thesis using g(3) by auto
qed

theorem instances_are_worked_off_witness:
  "\<exists>unit' bl'. build_instances 1 None (Suc 299) 0 generic_module wanted = Some (unit', bl') \<and> has_body (bl_functions bl') unit' None 1"
proof -
  obtain unit' bl' where r: "build_instances 1 None (Suc 299) 0 generic_module wanted = Some (unit', bl')"
    using wanted_built [of 1 299] by (metis prod.exhaust)
  have "GAB_MAX_INSTANTIATIONS \<le> Suc 299" by (simp add: GAB_MAX_INSTANTIATIONS_def)
  from instances_are_worked_off [OF wanted_ok this, of 1 None generic_module] r
  have "(\<exists>fs. pw_instances (bl_work bl') = pw_instances (bl_work wanted) @ fs) \<and>
      (\<forall>f \<in> set (pw_instances (bl_work bl')). has_body (bl_functions bl') unit' None f)" by (simp only: option.case prod.case) blast
  moreover have "1 \<in> set (pw_instances (bl_work wanted))" by (simp add: wanted_def)
  ultimately have "has_body (bl_functions bl') unit' None 1" by auto
  then show ?thesis using r by blast
qed

end
