(* ===== verification/Spec2Isabelle.thy ===== *)
theory Spec2Isabelle
  imports Arena Lexer_Correct Types_Correct String_Pool Liveness_Correct Fold_Correct State_Correct Scope Drop_Correct Borrowck_Samples
    Parser_Correct Lower_Function Build_Correct
begin

text \<open>
  A verification development of the gab compiler (\<^verbatim>\<open>src/src\<close>, C).  gab is a small language with ownership in
  its types; the compiler reads the files of a module, resolves names and types, lowers functions to an
  intermediate representation, runs its passes on that - liveness, drop elaboration, the borrow checker,
  constant folding - and emits LLVM.

  \<^bold>\<open>How the code is modelled.\<close>  A struct is a record, an enum or a tagged union a datatype with the source's
  names, a machine integer a word of its width, a NUL-terminated string a list of characters.  A function is
  a function that takes the state it changes and answers the state after it.  A pointer into a pool or a
  table is an index; a pointer that may be NULL is an option.  The absent answer \<open>None\<close> of a function
  that the C code cannot leave with an error stands for what C leaves undefined or for a loop that does not
  end; the theorems that something returns show that neither happens.  Loops and recursions that are not
  structural take a number of steps.

  \<^bold>\<open>Parts, from the ground up.\<close>

  \<^item> \<open>Prelude\<close>: machine integers, masks, list lemmas (\<^verbatim>\<open>util/align.h\<close>).
  \<^item> \<open>Fixpoint\<close>: loops that repeat a pass until it changes nothing.  The locale \<open>pass_loop\<close> says what such a
    loop needs to end; liveness, the holdings analysis and the borrow checker's loop interpret it.
  \<^item> \<open>Hash_Map\<close>: \<^verbatim>\<open>util/hash_map.h\<close>, \<^verbatim>\<open>util/hash.h\<close>.  The macro's functions take the hash and the equality
    as arguments; the locale \<open>hash_key\<close> states what a key needs, and is interpreted for the two maps the
    compiler has.  Insertion, lookup and deletion refine operations on a partial map.
  \<^item> \<open>Arena\<close>: \<^verbatim>\<open>memory/arena.c\<close>, by block and offset.  Allocations are aligned, inside their block and
    disjoint; a rewind frees what was allocated since the checkpoint.
  \<^item> \<open>String_Pool\<close>: \<^verbatim>\<open>string/\<close>, over the hash map.  Equal texts have one address and keep it.
  \<^item> \<open>Diagnostics\<close>: \<^verbatim>\<open>diagnostics.c\<close>.  \<open>Float32\<close>: the part of \<open>float\<close> that constants and literals need.
  \<^item> \<open>Lexer\<close>, \<open>Lexer_Correct\<close>, \<open>Lexer_Twins\<close>: \<^verbatim>\<open>syntax/lexer.c\<close>, with the diagnostics and the pool it
    writes to.  It ends on every source, spelled tokens are read back, integer literals are exact, and
    what it reads does not depend on the pool or the diagnostics.
  \<^item> \<open>Ast\<close>: \<^verbatim>\<open>ast/\<close> (ident, type_expr, expr, stmt, ast), the syntax tree with its constructors.
  \<^item> \<open>Parser\<close>, \<open>Parser_Stmts\<close>: \<^verbatim>\<open>syntax/parser.c\<close>.  \<open>Parser_Ends\<close> and \<open>Parser_Returns\<close> bound the steps it
    takes; \<open>Parser_Spelled\<close> follows it along a list of lexemes; \<open>Parser_Round_Trip\<close> prints expressions and
    parses them back; \<open>Parser_Correct\<close> has the theorems about files and modules and the block it never leaves.
  \<^item> \<open>Types\<close>, \<open>Type_Registry\<close>, \<open>Types_Correct\<close>: \<^verbatim>\<open>type/\<close>, \<^verbatim>\<open>constant.c\<close>.  Structural equality against
    interning keys, substitution, ownership, layout.
  \<^item> \<open>Decls\<close>, \<open>Scope\<close>: \<^verbatim>\<open>decl.h\<close>, \<^verbatim>\<open>function_registry.c\<close>, \<^verbatim>\<open>scope.c\<close>.
  \<^item> \<open>Mir\<close>: \<^verbatim>\<open>mir/mir.c\<close>, the intermediate representation and its builders; \<open>Mir_Run\<close> gives the value
    instructions a meaning to state the passes against.
  \<^item> \<open>Facts\<close>: \<^verbatim>\<open>ast/facts.c\<close>, what resolution notes of the tree, over the hash map.
  \<^item> \<open>Mir_Lower\<close>, \<open>Mir_Lower_Body\<close>: \<^verbatim>\<open>mir/mir_lower.c\<close>, from the resolved tree to the representation.
    \<open>Lower_Inv\<close> has the invariant of a function under construction, \<open>Lower_Sound\<close> that each part keeps it,
    \<open>Lower_Correct\<close> which trees are lowered in enough steps, \<open>Lower_Function\<close> the theorems about whole
    functions, that the passes return on them, and trees that are lowered wrongly.
  \<^item> \<open>Mir_Instantiate\<close>, \<open>Instantiate_Correct\<close>: \<^verbatim>\<open>mir/mir_instantiate.c\<close>; an instance mentions no parameter and has
    the shape of its generic function.
  \<^item> \<open>Mir_Build\<close>, \<open>Build_Correct\<close>: \<^verbatim>\<open>ast/pending.c\<close>, \<^verbatim>\<open>mir/mir_module.c\<close>, \<^verbatim>\<open>mir/mir_build.c\<close>, which put lowering,
    instantiation and the borrow checker together; the list of wanted instances is worked off.
  \<^item> \<open>Mir_Liveness\<close>, \<open>Liveness_Correct\<close>: \<^verbatim>\<open>mir/mir_liveness.c\<close>; the rows of words are liveness along paths.
  \<^item> \<open>Mir_Fold\<close>, \<open>Fold_Correct\<close>: \<^verbatim>\<open>mir/mir_fold.c\<close>; folding keeps what a function does.
  \<^item> \<open>Mir_Drop\<close>, \<open>Drop_Correct\<close>: \<^verbatim>\<open>mir/mir_drop.c\<close>; removed releases release nothing, drop flags decide what
    the path decided.
  \<^item> \<open>Mir_State\<close>, \<open>State_Correct\<close>: \<^verbatim>\<open>mir/mir_state.c\<close>, the join semilattice of the borrow checker.
  \<^item> \<open>Mir_Borrowck\<close>, \<open>Borrowck_Ends\<close>, \<open>Borrowck_Correct\<close>, \<open>Borrowck_Samples\<close>: \<^verbatim>\<open>mir/mir_borrowck.c\<close>.  It
    returns, reports what is read after a move on some path, and has three gaps.

  The parser reads tokens from the lexer, and both intern names in one pool and add to one list of
  diagnostics, which the lexer's record holds.  The registry interns types in a hash map whose keys are
  built by \<open>Types\<close>.  The borrow checker and drop elaboration read liveness and ask the registry what a type
  owns.

  \<^bold>\<open>Bounds.\<close>  The lexer's loops are structural or bounded by the source.  A parser has a size, twice the
  characters before it and at most two for the token it holds; every call of a parsing function but the
  last reads a token or works on the token it was given at most eight calls deep, so eight steps for each
  unit of size are enough, which makes sixteen for each character of the source.  The passes' loops over
  blocks end because their states only grow, within the finite number of values, fields and borrows of a
  function.  Lowering an expression takes a step for each call of \<^verbatim>\<open>lower_expr\<close>, \<^verbatim>\<open>lower_place\<close> and
  \<^verbatim>\<open>lower_struct_lit_into\<close>; for the trees it ends on, every number of steps from some point on is enough.  The
  loop over the wanted instances takes at most 256 steps, the limit of the code.

  \<^bold>\<open>Not modelled.\<close>  Name resolution and type checking (\<^verbatim>\<open>ast/resolve.c\<close>, \<^verbatim>\<open>typexpr.c\<close>, \<^verbatim>\<open>coerce.c\<close>):
  lowering takes their result, the facts, as it finds it.  Printing of the intermediate representation
  (\<^verbatim>\<open>mir_print.c\<close>) is a dump for tests.  The LLVM backend (\<^verbatim>\<open>llvm/\<close>) is calls into the LLVM library, and the
  driver (\<^verbatim>\<open>driver/\<close>) is files and processes around the parts above.  What memory holds is not represented:
  a node the arena gives is a value.
\<close>

end
